(* ===== verification/Prelude.thy ===== *)
theory Prelude
  imports Main "HOL-Library.Word"
begin

section \<open>Prelude: shared types, automation and list lemmas\<close>

text \<open>
  Names for the C integer types of the drivers, the collections of rewrite rules that the
  component theories fill, and the generic facts on lists, counting and options that more than one
  component uses. \<open>u8\<close>, \<open>u16\<close>, \<open>u32\<close> and \<open>u64\<close> are the
  kernel's fixed-width unsigned types; an \<open>int\<close> return code of the C code is an \<open>int\<close>
  here, with a kernel error \<open>-EXXX\<close> the negative of its number.
\<close>

unbundle bit_operations_syntax

type_synonym u8 = "8 word"
type_synonym u16 = "16 word"
type_synonym u32 = "32 word"
type_synonym u64 = "64 word"

named_theorems errno_defs "numbers of the kernel error codes"
named_theorems frame_simps "fields an operation leaves alone"

subsection \<open>Kernel error numbers\<close>

text \<open>The values of \<open>include/uapi/asm-generic/errno*.h\<close> that the drivers return.\<close>

definition EPERM :: int where [errno_defs]: "EPERM = 1"
definition ENOENT :: int where [errno_defs]: "ENOENT = 2"
definition EINTR :: int where [errno_defs]: "EINTR = 4"
definition EIO :: int where [errno_defs]: "EIO = 5"
definition EAGAIN :: int where [errno_defs]: "EAGAIN = 11"
definition ENOMEM :: int where [errno_defs]: "ENOMEM = 12"
definition ENODEV :: int where [errno_defs]: "ENODEV = 19"
definition EACCES :: int where [errno_defs]: "EACCES = 13"
definition EBUSY :: int where [errno_defs]: "EBUSY = 16"
definition EEXIST :: int where [errno_defs]: "EEXIST = 17"
definition EINVAL :: int where [errno_defs]: "EINVAL = 22"
definition ENOSPC :: int where [errno_defs]: "ENOSPC = 28"
definition EPIPE :: int where [errno_defs]: "EPIPE = 32"
definition ERANGE :: int where [errno_defs]: "ERANGE = 34"
definition EDEADLK :: int where [errno_defs]: "EDEADLK = 35"
definition ENOSYS :: int where [errno_defs]: "ENOSYS = 38"
definition ETIME :: int where [errno_defs]: "ETIME = 62"
definition EPROTO :: int where [errno_defs]: "EPROTO = 71"
definition EMSGSIZE :: int where [errno_defs]: "EMSGSIZE = 90"
definition EPROTONOSUPPORT :: int where [errno_defs]: "EPROTONOSUPPORT = 93"
definition EOPNOTSUPP :: int where [errno_defs]: "EOPNOTSUPP = 95"
definition EADDRINUSE :: int where [errno_defs]: "EADDRINUSE = 98"
definition ENETDOWN :: int where [errno_defs]: "ENETDOWN = 100"
definition ENOBUFS :: int where [errno_defs]: "ENOBUFS = 105"
definition ETIMEDOUT :: int where [errno_defs]: "ETIMEDOUT = 110"
definition EALREADY :: int where [errno_defs]: "EALREADY = 114"

subsection \<open>Lists\<close>




lemma count_list_remove1:
  "count_list (remove1 x xs) y = (if x = y then count_list xs y - 1 else count_list xs y)"
  by (induction xs) auto

lemma count_list_distinct: "distinct xs \<Longrightarrow> count_list xs x = (if x \<in> set xs then 1 else 0)"
  by (induction xs) auto

lemma find_Some_iff_set: "find P xs = Some x \<Longrightarrow> x \<in> set xs \<and> P x"
  by (induction xs) (auto split: if_splits)

end
