(* ===== verification/Bitfield.thy ===== *)
theory Bitfield
  imports Prelude
begin

section \<open>Bit fields of hardware words (bitfield.h)\<close>

text \<open>
  The macros of \<open>bitfield.h\<close> that read and build little-endian hardware words. A field is
  given in the source by the two constants \<open><FIELD>_LBN\<close> (lowest bit) and
  \<open><FIELD>_WIDTH\<close>; here it is the pair of the two. Note that the insertion macros do not
  mask the value: bits of the value above the field's width land in the neighbouring fields.
  The lemmas give the bits of an extracted and of a populated word, and the round trip
  \<open>EFX_DWORD_FIELD (EFX_POPULATE_DWORD \<dots>)\<close> for disjoint fields whose values fit.
\<close>

type_synonym efx_field = "nat \<times> nat"

definition EFX_LOW_BIT :: "efx_field \<Rightarrow> nat" where
  "EFX_LOW_BIT f = fst f"

definition EFX_WIDTH :: "efx_field \<Rightarrow> nat" where
  "EFX_WIDTH f = snd f"

definition EFX_HIGH_BIT :: "efx_field \<Rightarrow> nat" where
  "EFX_HIGH_BIT f = EFX_LOW_BIT f + EFX_WIDTH f - 1"

definition EFX_MASK32 :: "nat \<Rightarrow> u32" where
  "EFX_MASK32 width = (if width = 32 then NOT 0 else push_bit width 1 - 1)"

definition EFX_MASK64 :: "nat \<Rightarrow> u64" where
  "EFX_MASK64 width = (if width = 64 then NOT 0 else push_bit width 1 - 1)"

definition EFX_EXTRACT_NATIVE :: "'a::len word \<Rightarrow> nat \<Rightarrow> nat \<Rightarrow> nat \<Rightarrow> nat \<Rightarrow> 'a word" where
  "EFX_EXTRACT_NATIVE native_element mn mx low high =
     (if low > mx \<or> high < mn then 0
      else if low > mn then drop_bit (low - mn) native_element
      else push_bit (mn - low) native_element)"

definition EFX_EXTRACT_DWORD :: "u32 \<Rightarrow> nat \<Rightarrow> nat \<Rightarrow> u32" where
  "EFX_EXTRACT_DWORD dword low high =
     EFX_EXTRACT_NATIVE dword 0 31 low high AND EFX_MASK32 (high + 1 - low)"

definition EFX_EXTRACT_QWORD64 :: "u64 \<Rightarrow> nat \<Rightarrow> nat \<Rightarrow> u64" where
  "EFX_EXTRACT_QWORD64 qword low high =
     EFX_EXTRACT_NATIVE qword 0 63 low high AND EFX_MASK64 (high + 1 - low)"

definition EFX_DWORD_FIELD :: "u32 \<Rightarrow> efx_field \<Rightarrow> u32" where
  "EFX_DWORD_FIELD dword field = EFX_EXTRACT_DWORD dword (EFX_LOW_BIT field) (EFX_HIGH_BIT field)"

definition EFX_QWORD_FIELD :: "u64 \<Rightarrow> efx_field \<Rightarrow> u64" where
  "EFX_QWORD_FIELD qword field =
     EFX_EXTRACT_QWORD64 qword (EFX_LOW_BIT field) (EFX_HIGH_BIT field)"

text \<open>
  \<open>EFX_INSERT_NATIVE\<close> picks the 32-bit variant for a dword (\<open>max - min = 31\<close> and fields of
  at most 32 bits) and the 64-bit one for the words of a qword or an oword.
\<close>

definition EFX_INSERT_NATIVE32 :: "nat \<Rightarrow> nat \<Rightarrow> nat \<Rightarrow> nat \<Rightarrow> u32 \<Rightarrow> u32" where
  "EFX_INSERT_NATIVE32 mn mx low high v =
     (if low > mx \<or> high < mn then 0
      else if low > mn then push_bit (low - mn) v
      else drop_bit (mn - low) v)"

definition EFX_INSERT_NATIVE64 :: "nat \<Rightarrow> nat \<Rightarrow> nat \<Rightarrow> nat \<Rightarrow> u64 \<Rightarrow> u64" where
  "EFX_INSERT_NATIVE64 mn mx low high v =
     (if low > mx \<or> high < mn then 0
      else if low > mn then push_bit (low - mn) v
      else drop_bit (mn - low) v)"

fun EFX_POPULATE_DWORD :: "(efx_field \<times> u32) list \<Rightarrow> u32" where
  "EFX_POPULATE_DWORD [] = 0"
| "EFX_POPULATE_DWORD ((f, v) # fs) =
     EFX_INSERT_NATIVE32 0 31 (EFX_LOW_BIT f) (EFX_HIGH_BIT f) v OR EFX_POPULATE_DWORD fs"

fun EFX_POPULATE_QWORD :: "(efx_field \<times> u64) list \<Rightarrow> u64" where
  "EFX_POPULATE_QWORD [] = 0"
| "EFX_POPULATE_QWORD ((f, v) # fs) =
     EFX_INSERT_NATIVE64 0 63 (EFX_LOW_BIT f) (EFX_HIGH_BIT f) v OR EFX_POPULATE_QWORD fs"

lemmas efx_field_defs = EFX_LOW_BIT_def EFX_WIDTH_def EFX_HIGH_BIT_def

subsection \<open>Bits of masks, extracted fields and populated words\<close>

lemma mask_word_eq: "(push_bit n 1 - 1 :: 'a::len word) = mask n"
  by (simp add: mask_eq_exp_minus_1 push_bit_eq_mult)

lemma EFX_MASK32_eq: "EFX_MASK32 n = mask n" if "n \<le> 32"
proof (cases "n = 32")
  case True
  then show ?thesis
    by (auto simp: EFX_MASK32_def intro!: bit_word_eqI simp: bit_mask_iff bit_not_iff)
next
  case False
  then show ?thesis
    by (simp only: EFX_MASK32_def mask_word_eq if_False)
qed

lemma EFX_MASK64_eq: "EFX_MASK64 n = mask n" if "n \<le> 64"
proof (cases "n = 64")
  case True
  then show ?thesis
    by (auto simp: EFX_MASK64_def intro!: bit_word_eqI simp: bit_mask_iff bit_not_iff)
next
  case False
  then show ?thesis
    by (simp only: EFX_MASK64_def mask_word_eq if_False)
qed

lemma bit_EFX_DWORD_FIELD:
  assumes "0 < n" and "l + n \<le> 32"
  shows "bit (EFX_DWORD_FIELD w (l, n)) i \<longleftrightarrow> i < n \<and> bit w (l + i)"
proof -
  have "EFX_MASK32 (l + n - 1 + 1 - l) = mask n"
    using assms by (simp add: EFX_MASK32_eq)
  moreover have "EFX_EXTRACT_NATIVE w 0 31 l (l + n - 1) = drop_bit l w"
    using assms by (auto simp: EFX_EXTRACT_NATIVE_def)
  ultimately show ?thesis
    using assms
    by (auto simp: EFX_DWORD_FIELD_def EFX_EXTRACT_DWORD_def efx_field_defs bit_and_iff
        bit_mask_iff bit_drop_bit_eq)
qed

lemma EFX_DWORD_FIELD_eq:
  assumes "0 < n" and "l + n \<le> 32"
  shows "EFX_DWORD_FIELD w (l, n) = drop_bit l w AND mask n"
  using assms
  by (auto intro!: bit_word_eqI simp: bit_EFX_DWORD_FIELD bit_and_iff bit_mask_iff bit_drop_bit_eq)

lemma EFX_DWORD_FIELD_less:
  assumes "0 < n" and "l + n \<le> 32"
  shows "unat (EFX_DWORD_FIELD w (l, n)) < 2 ^ n"
proof -
  have "EFX_DWORD_FIELD w (l, n) = take_bit n (drop_bit l w)"
    using assms by (simp add: EFX_DWORD_FIELD_eq take_bit_eq_mask)
  then show ?thesis
    using assms by (simp add: unsigned_take_bit_eq take_bit_nat_less_exp)
qed

lemma bit_EFX_QWORD_FIELD:
  assumes "0 < n" and "l + n \<le> 64"
  shows "bit (EFX_QWORD_FIELD w (l, n)) i \<longleftrightarrow> i < n \<and> bit w (l + i)"
proof -
  have "EFX_MASK64 (l + n - 1 + 1 - l) = mask n"
    using assms by (simp add: EFX_MASK64_eq)
  moreover have "EFX_EXTRACT_NATIVE w 0 63 l (l + n - 1) = drop_bit l w"
    using assms by (auto simp: EFX_EXTRACT_NATIVE_def)
  ultimately show ?thesis
    using assms
    by (auto simp: EFX_QWORD_FIELD_def EFX_EXTRACT_QWORD64_def efx_field_defs bit_and_iff
        bit_mask_iff bit_drop_bit_eq)
qed

lemma EFX_QWORD_FIELD_less:
  assumes "0 < n" and "l + n \<le> 64"
  shows "unat (EFX_QWORD_FIELD w (l, n)) < 2 ^ n"
proof -
  have "EFX_QWORD_FIELD w (l, n) = take_bit n (drop_bit l w)"
    using assms
    by (auto intro!: bit_word_eqI simp: bit_EFX_QWORD_FIELD bit_take_bit_iff bit_drop_bit_eq)
  then show ?thesis
    using assms by (simp add: unsigned_take_bit_eq take_bit_nat_less_exp)
qed

lemma bit_EFX_POPULATE_DWORD:
  assumes "\<forall>(f, v) \<in> set fs. 0 < snd f \<and> fst f + snd f \<le> 32"
  shows "bit (EFX_POPULATE_DWORD fs) j \<longleftrightarrow>
    j < 32 \<and> (\<exists>(f, v) \<in> set fs. fst f \<le> j \<and> bit v (j - fst f))"
  using assms
proof (induction fs rule: EFX_POPULATE_DWORD.induct)
  case 1
  then show ?case by simp
next
  case (2 f v fs)
  then show ?case
    by (auto simp: EFX_INSERT_NATIVE32_def efx_field_defs bit_or_iff bit_push_bit_iff
        bit_drop_bit_eq dest: bit_imp_le_length)
qed

text \<open>
  A list of fields is well formed for a dword when the fields lie inside it, do not overlap, and
  each value fits in its field. This is what the callers of the macros must ensure.
\<close>

definition field_ok :: "efx_field \<times> u32 \<Rightarrow> bool" where
  "field_ok fv \<longleftrightarrow> (case fv of ((l, n), v) \<Rightarrow> 0 < n \<and> l + n \<le> 32 \<and> unat v < 2 ^ n)"

definition fields_disjoint :: "efx_field \<Rightarrow> efx_field \<Rightarrow> bool" where
  "fields_disjoint f g \<longleftrightarrow> fst f + snd f \<le> fst g \<or> fst g + snd g \<le> fst f"

fun fields_wf :: "(efx_field \<times> u32) list \<Rightarrow> bool" where
  "fields_wf [] = True"
| "fields_wf (fv # fs) =
     (field_ok fv \<and> list_all (\<lambda>gv. fields_disjoint (fst fv) (fst gv)) fs \<and> fields_wf fs)"

lemma fields_wf_ok: "fields_wf fs \<Longrightarrow> fv \<in> set fs \<Longrightarrow> field_ok fv"
  by (induction fs) auto

lemma fields_wf_disjoint:
  "fields_wf fs \<Longrightarrow> fv \<in> set fs \<Longrightarrow> gv \<in> set fs \<Longrightarrow> fv \<noteq> gv \<Longrightarrow> fields_disjoint (fst fv) (fst gv)"
  by (induction fs) (auto simp: list_all_iff fields_disjoint_def)

lemma unat_less_exp_bit:
  fixes v :: "'a::len word"
  assumes "unat v < 2 ^ n" and "bit v i"
  shows "i < n"
proof (rule ccontr)
  assume "\<not> i < n"
  have "bit (unat v) i"
    using assms(2) by (simp add: bit_unsigned_iff)
  moreover have "take_bit n (unat v) = unat v"
    using assms(1) by (simp add: take_bit_nat_eq_self)
  ultimately show False
    using \<open>\<not> i < n\<close> by (metis bit_take_bit_iff)
qed

lemma dword_field_populate:
  assumes wf: "fields_wf fs" and mem: "((l, n), v) \<in> set fs"
  shows "EFX_DWORD_FIELD (EFX_POPULATE_DWORD fs) (l, n) = v"
proof (rule bit_word_eqI)
  fix i :: nat
  assume "i < LENGTH(32)"
  have ok: "0 < n" "l + n \<le> 32" "unat v < 2 ^ n"
    using fields_wf_ok [OF wf mem] by (auto simp: field_ok_def)
  have in_range: "\<forall>(f, v) \<in> set fs. 0 < snd f \<and> fst f + snd f \<le> 32"
    using fields_wf_ok [OF wf] by (force simp: field_ok_def)
  have other: "\<not> bit v' (l + i - l')"
    if "((l', n'), v') \<in> set fs" "((l', n'), v') \<noteq> ((l, n), v)" "i < n" "l' \<le> l + i" for l' n' v'
  proof
    assume b: "bit v' (l + i - l')"
    have "unat v' < 2 ^ n'"
      using fields_wf_ok [OF wf that(1)] by (simp add: field_ok_def)
    then have "l + i - l' < n'"
      using b by (rule unat_less_exp_bit)
    moreover have "l' + n' \<le> l \<or> l + n \<le> l'"
      using fields_wf_disjoint [OF wf that(1) mem that(2)] by (auto simp: fields_disjoint_def)
    ultimately show False
      using that(3,4) by linarith
  qed
  have "bit (EFX_DWORD_FIELD (EFX_POPULATE_DWORD fs) (l, n)) i \<longleftrightarrow>
    i < n \<and> (\<exists>(f, v) \<in> set fs. fst f \<le> l + i \<and> bit v (l + i - fst f))"
    using ok by (auto simp: bit_EFX_DWORD_FIELD bit_EFX_POPULATE_DWORD [OF in_range])
  also have "\<dots> \<longleftrightarrow> i < n \<and> bit v i"
    using mem other by (force simp: split_beta)
  also have "\<dots> \<longleftrightarrow> bit v i"
    using unat_less_exp_bit [OF ok(3)] by blast
  finally show "bit (EFX_DWORD_FIELD (EFX_POPULATE_DWORD fs) (l, n)) i \<longleftrightarrow> bit v i" .
qed

text \<open>A field that no value was given for reads as zero.\<close>

lemma dword_field_absent:
  assumes wf: "fields_wf fs" and f: "0 < n" "l + n \<le> 32"
    and disj: "list_all (\<lambda>gv. fields_disjoint (l, n) (fst gv)) fs"
  shows "EFX_DWORD_FIELD (EFX_POPULATE_DWORD fs) (l, n) = 0"
proof -
  have wf': "fields_wf (((l, n), 0) # fs)"
    using assms by (simp add: field_ok_def)
  have r: "\<forall>(f, v) \<in> set fs. 0 < snd f \<and> fst f + snd f \<le> 32"
    using fields_wf_ok [OF wf] by (force simp: field_ok_def)
  then have r': "\<forall>(f, v) \<in> set (((l, n), 0 :: u32) # fs). 0 < snd f \<and> fst f + snd f \<le> 32"
    using f by simp
  have "EFX_POPULATE_DWORD (((l, n), 0) # fs) = EFX_POPULATE_DWORD fs"
    by (rule bit_word_eqI) (simp add: bit_EFX_POPULATE_DWORD [OF r] bit_EFX_POPULATE_DWORD [OF r'] del: EFX_POPULATE_DWORD.simps)
  then show ?thesis
    using dword_field_populate [OF wf', of l n 0] by simp
qed

subsection \<open>Little-endian bytes of a dword\<close>

text \<open>The bytes of an \<open>efx_dword_t\<close> in memory, and the dword read back from four bytes.\<close>

definition dword_bytes :: "u32 \<Rightarrow> u8 list" where
  "dword_bytes w = map (\<lambda>k. ucast (drop_bit (8 * k) w)) [0, 1, 2, 3]"

definition bytes_dword :: "u8 list \<Rightarrow> u32" where
  "bytes_dword bs =
     ucast (bs ! 0) OR push_bit 8 (ucast (bs ! 1)) OR push_bit 16 (ucast (bs ! 2))
       OR push_bit 24 (ucast (bs ! 3))"

lemma length_dword_bytes [simp]: "length (dword_bytes w) = 4"
  by (simp add: dword_bytes_def)

lemma bytes_dword_bytes: "bytes_dword (dword_bytes w @ bs) = w"
proof (rule bit_word_eqI)
  fix i :: nat
  assume "i < LENGTH(32)"
  then consider "i < 8" | "8 \<le> i" "i < 16" | "16 \<le> i" "i < 24" | "24 \<le> i" "i < 32"
    by (auto simp: not_less) linarith
  then show "bit (bytes_dword (dword_bytes w @ bs)) i \<longleftrightarrow> bit w i"
    by cases (auto simp: bytes_dword_def dword_bytes_def bit_or_iff bit_push_bit_iff
        bit_ucast_iff bit_drop_bit_eq)
qed

text \<open>
  The dword of the field \<open>EFX_DWORD_0\<close> is the word itself.
\<close>

abbreviation EFX_DWORD_0 :: efx_field where
  "EFX_DWORD_0 \<equiv> (0, 32)"

abbreviation EFX_WORD_0 :: efx_field where
  "EFX_WORD_0 \<equiv> (0, 16)"

abbreviation EFX_WORD_1 :: efx_field where
  "EFX_WORD_1 \<equiv> (16, 16)"

lemma EFX_DWORD_FIELD_DWORD_0 [simp]: "EFX_DWORD_FIELD w EFX_DWORD_0 = w"
  by (rule bit_word_eqI) (auto simp: bit_EFX_DWORD_FIELD)

end
