(* ===== verification/Nic.thy ===== *)
theory Nic
  imports Bitfield
begin

section \<open>The NIC behind the management interface (ef100\_nic.c, ef10.c, mcdi\_pcol.h)\<close>

text \<open>
  \<open>mcdi.c\<close> talks to the controller through the function pointers of
  \<open>struct efx_nic_type\<close>. This theory holds the part of \<open>struct efx_nic\<close> and of the
  NIC's private data those functions use (\<open>efx_nic\<close>), the pointers as a record of functions
  (\<open>efx_nic_type\<close>) and the EF100 implementation (\<open>ef100_nic_type\<close>); the buffer allocator of
  EF10 is the same code and is modelled too.

  The hardware side is an environment: \<open>nic_mc t b\<close> is what the management controller writes
  by DMA into the buffer \<open>b\<close> at the instant \<open>t\<close> (\<open>None\<close>: nothing), \<open>nic_biu t\<close> what
  the register \<open>ER_GZ_MC_SFT_STATUS\<close> reads at \<open>t\<close>, and \<open>nic_tick\<close> counts the
  instants. Every \<open>udelay\<close> and every register read is one instant. Nothing is assumed of the two.

  The locale \<open>mcdi_buf_pool\<close> states what \<open>mcdi.c\<close> relies on of \<open>mcdi_get_buf\<close> and
  \<open>mcdi_put_buf\<close>; both NIC types interpret it.
\<close>

subsection \<open>State\<close>

datatype reset_type =
    RESET_TYPE_INVISIBLE | RESET_TYPE_RECOVER_OR_ALL | RESET_TYPE_ALL | RESET_TYPE_WORLD
  | RESET_TYPE_DATAPATH | RESET_TYPE_MC_BIST | RESET_TYPE_DISABLE | RESET_TYPE_TX_WATCHDOG
  | RESET_TYPE_INT_ERROR | RESET_TYPE_DMA_ERROR | RESET_TYPE_TX_SKIP | RESET_TYPE_MC_FAILURE
  | RESET_TYPE_MCDI_TIMEOUT

record efx_nic =
  nic_mcdi_buf_use :: u64
  nic_mcdi_pdu :: "u8 \<Rightarrow> nat \<Rightarrow> u8"
  nic_warm_boot_count :: int
  nic_HZ :: nat
  nic_jiffies :: u64
  nic_last_reset :: u64
  nic_disabled :: bool
  nic_mc_bist_for_other_fn :: bool
  nic_resets :: "reset_type list"
  nic_requests :: "(u8 \<times> u32 list \<times> u8 list) list"
  nic_tick :: nat
  nic_mc :: "nat \<Rightarrow> u8 \<Rightarrow> (nat \<Rightarrow> u8) option"
  nic_biu :: "nat \<Rightarrow> u32"

text \<open>
  The function pointers of \<open>struct efx_nic_type\<close> (net\_driver.h) that MCDI calls. A pointer the
  code tests for \<open>NULL\<close>, or that a NIC type leaves out, is an option.
\<close>

record efx_nic_type =
  is_vf :: bool
  mcdi_max_ver :: int
  mcdi_request :: "u8 \<Rightarrow> u32 list \<Rightarrow> u8 list \<Rightarrow> efx_nic \<Rightarrow> efx_nic"
  mcdi_poll_response :: "efx_nic \<Rightarrow> u8 \<Rightarrow> bool"
  mcdi_read_response :: "efx_nic \<Rightarrow> u8 \<Rightarrow> nat \<Rightarrow> nat \<Rightarrow> u8 list"
  mcdi_poll_reboot :: "efx_nic \<Rightarrow> int \<times> efx_nic"
  mcdi_reboot_detected :: "efx_nic \<Rightarrow> efx_nic"
  mcdi_record_bist_event :: "(efx_nic \<Rightarrow> efx_nic) option"
  mcdi_get_buf :: "efx_nic \<Rightarrow> (u8 \<times> efx_nic) option"
  mcdi_put_buf :: "u8 \<Rightarrow> efx_nic \<Rightarrow> efx_nic"
  mcdi_rpc_timeout :: "(efx_nic \<Rightarrow> u32 \<Rightarrow> nat) option"
  hw_unavailable :: "(efx_nic \<Rightarrow> bool) option"

subsection \<open>Constants of the protocol (mcdi\_pcol.h)\<close>

abbreviation MCDI_HEADER_CODE :: efx_field where "MCDI_HEADER_CODE \<equiv> (0, 7)"
abbreviation MCDI_HEADER_RESYNC :: efx_field where "MCDI_HEADER_RESYNC \<equiv> (7, 1)"
abbreviation MCDI_HEADER_DATALEN :: efx_field where "MCDI_HEADER_DATALEN \<equiv> (8, 8)"
abbreviation MCDI_HEADER_SEQ :: efx_field where "MCDI_HEADER_SEQ \<equiv> (16, 4)"
abbreviation MCDI_HEADER_NOT_EPOCH :: efx_field where "MCDI_HEADER_NOT_EPOCH \<equiv> (21, 1)"
abbreviation MCDI_HEADER_ERROR :: efx_field where "MCDI_HEADER_ERROR \<equiv> (22, 1)"
abbreviation MCDI_HEADER_RESPONSE :: efx_field where "MCDI_HEADER_RESPONSE \<equiv> (23, 1)"
abbreviation MCDI_HEADER_XFLAGS :: efx_field where "MCDI_HEADER_XFLAGS \<equiv> (24, 8)"
abbreviation MC_CMD_V2_EXTN_IN_EXTENDED_CMD :: efx_field where
  "MC_CMD_V2_EXTN_IN_EXTENDED_CMD \<equiv> (0, 15)"
abbreviation MC_CMD_V2_EXTN_IN_ACTUAL_LEN :: efx_field where
  "MC_CMD_V2_EXTN_IN_ACTUAL_LEN \<equiv> (16, 10)"

abbreviation MCDI_HEADER_XFLAGS_EVREQ :: u32 where "MCDI_HEADER_XFLAGS_EVREQ \<equiv> 1"
abbreviation MC_CMD_V2_EXTN :: u32 where "MC_CMD_V2_EXTN \<equiv> 0x7f"
abbreviation MC_CMD_CMD_SPACE_ESCAPE_7 :: u32 where "MC_CMD_CMD_SPACE_ESCAPE_7 \<equiv> 0x7f"
abbreviation MC_CMD_REBOOT :: u32 where "MC_CMD_REBOOT \<equiv> 0x3d"
abbreviation MC_CMD_NVRAM_ERASE :: u32 where "MC_CMD_NVRAM_ERASE \<equiv> 0x3b"
abbreviation MC_CMD_NVRAM_UPDATE_FINISH :: u32 where "MC_CMD_NVRAM_UPDATE_FINISH \<equiv> 0x3c"
abbreviation MCDI_CTL_SDU_LEN_MAX_V1 :: nat where "MCDI_CTL_SDU_LEN_MAX_V1 \<equiv> 0xfc"
abbreviation MCDI_CTL_SDU_LEN_MAX_V2 :: nat where "MCDI_CTL_SDU_LEN_MAX_V2 \<equiv> 0x400"

subsection \<open>EF100\<close>

definition EF100_NUM_MCDI_BUFFERS :: nat where
  "EF100_NUM_MCDI_BUFFERS = 1"

text \<open>One instant passes: the controller's DMA of that instant reaches memory.\<close>

definition nic_advance :: "efx_nic \<Rightarrow> efx_nic" where
  "nic_advance nic = nic\<lparr>
     nic_mcdi_pdu := (\<lambda>b. case nic_mc nic (nic_tick nic) b of
        None \<Rightarrow> nic_mcdi_pdu nic b | Some p \<Rightarrow> p),
     nic_tick := nic_tick nic + 1\<rparr>"

definition ef100_get_warm_boot_count :: "efx_nic \<Rightarrow> int \<times> efx_nic" where
  "ef100_get_warm_boot_count nic =
     (let reg = nic_biu nic (nic_tick nic); nic = nic_advance nic in
      if EFX_DWORD_FIELD reg EFX_DWORD_0 = 0xffffffff then (- ENETDOWN, nic\<lparr>nic_disabled := True\<rparr>)
      else (if EFX_DWORD_FIELD reg EFX_WORD_1 = 0xb007
            then uint (EFX_DWORD_FIELD reg EFX_WORD_0) else - EIO, nic))"

text \<open>
  \<open>memcpy(pdu, hdr, hdr_len); memcpy(pdu + hdr_len, sdu, sdu_len)\<close>, then the doorbell, which hands
  the buffer to the controller: \<open>nic_requests\<close> is the log of what was handed over.
\<close>

definition ef100_mcdi_request :: "u8 \<Rightarrow> u32 list \<Rightarrow> u8 list \<Rightarrow> efx_nic \<Rightarrow> efx_nic" where
  "ef100_mcdi_request bufid hdr sdu nic =
     (let pdu = concat (map dword_bytes hdr) @ sdu; old = nic_mcdi_pdu nic bufid in
      nic\<lparr>nic_mcdi_pdu := (nic_mcdi_pdu nic)(bufid := (\<lambda>i. if i < length pdu then pdu ! i else old i)),
          nic_requests := nic_requests nic @ [(bufid, hdr, sdu)]\<rparr>)"

definition ef100_mcdi_read_response :: "efx_nic \<Rightarrow> u8 \<Rightarrow> nat \<Rightarrow> nat \<Rightarrow> u8 list" where
  "ef100_mcdi_read_response nic bufid offset outlen =
     map (\<lambda>i. nic_mcdi_pdu nic bufid (offset + i)) [0..<outlen]"

definition ef100_mcdi_poll_response :: "efx_nic \<Rightarrow> u8 \<Rightarrow> bool" where
  "ef100_mcdi_poll_response nic bufid =
     (EFX_DWORD_FIELD (bytes_dword (map (nic_mcdi_pdu nic bufid) [0..<4])) MCDI_HEADER_RESPONSE \<noteq> 0)"

definition ef100_mcdi_poll_reboot :: "efx_nic \<Rightarrow> int \<times> efx_nic" where
  "ef100_mcdi_poll_reboot nic =
     (let (rc, nic) = ef100_get_warm_boot_count nic in
      if rc < 0 then (0, nic)
      else if rc = nic_warm_boot_count nic then (0, nic)
      else (- EIO, nic\<lparr>nic_warm_boot_count := rc\<rparr>))"

definition ef100_mcdi_reboot_detected :: "efx_nic \<Rightarrow> efx_nic" where
  "ef100_mcdi_reboot_detected nic = nic\<lparr>nic_last_reset := nic_jiffies nic\<rparr>"

text \<open>\<open>ffz\<close>: the lowest clear bit. On a word of ones the kernel leaves it undefined; here it is 64.\<close>

definition ffz :: "u64 \<Rightarrow> nat" where
  "ffz w = (case find (\<lambda>i. \<not> bit w i) [0..<64] of None \<Rightarrow> 64 | Some i \<Rightarrow> i)"

definition mcdi_get_buf_of :: "nat \<Rightarrow> efx_nic \<Rightarrow> (u8 \<times> efx_nic) option" where
  "mcdi_get_buf_of n nic =
     (let bufid = (word_of_nat (ffz (nic_mcdi_buf_use nic)) :: u8) in
      if unat bufid < n
      then Some (bufid, nic\<lparr>nic_mcdi_buf_use := set_bit (unat bufid) (nic_mcdi_buf_use nic)\<rparr>)
      else None)"

definition ef100_mcdi_get_buf :: "efx_nic \<Rightarrow> (u8 \<times> efx_nic) option" where
  "ef100_mcdi_get_buf nic = mcdi_get_buf_of EF100_NUM_MCDI_BUFFERS nic"

definition ef100_mcdi_put_buf :: "u8 \<Rightarrow> efx_nic \<Rightarrow> efx_nic" where
  "ef100_mcdi_put_buf bufid nic =
     nic\<lparr>nic_mcdi_buf_use := unset_bit (unat bufid) (nic_mcdi_buf_use nic)\<rparr>"

definition MCDI_RPC_TIMEOUT :: "efx_nic \<Rightarrow> nat" where
  "MCDI_RPC_TIMEOUT nic = 10 * nic_HZ nic"

definition MCDI_RPC_LONG_TIMEOUT :: "efx_nic \<Rightarrow> nat" where
  "MCDI_RPC_LONG_TIMEOUT nic = 60 * nic_HZ nic"

definition efx_ef100_mcdi_rpc_timeout :: "efx_nic \<Rightarrow> u32 \<Rightarrow> nat" where
  "efx_ef100_mcdi_rpc_timeout nic cmd =
     (if cmd = MC_CMD_NVRAM_ERASE \<or> cmd = MC_CMD_NVRAM_UPDATE_FINISH
      then MCDI_RPC_LONG_TIMEOUT nic else MCDI_RPC_TIMEOUT nic)"

definition ef100_pf_nic_type :: efx_nic_type where
  "ef100_pf_nic_type = \<lparr>
     is_vf = False,
     mcdi_max_ver = 2,
     mcdi_request = ef100_mcdi_request,
     mcdi_poll_response = ef100_mcdi_poll_response,
     mcdi_read_response = ef100_mcdi_read_response,
     mcdi_poll_reboot = ef100_mcdi_poll_reboot,
     mcdi_reboot_detected = ef100_mcdi_reboot_detected,
     mcdi_record_bist_event = None,
     mcdi_get_buf = ef100_mcdi_get_buf,
     mcdi_put_buf = ef100_mcdi_put_buf,
     mcdi_rpc_timeout = Some efx_ef100_mcdi_rpc_timeout,
     hw_unavailable = None\<rparr>"

subsection \<open>EF10 buffers\<close>

definition EF10_NUM_MCDI_BUFFERS :: nat where
  "EF10_NUM_MCDI_BUFFERS = 1"

definition efx_ef10_mcdi_get_buf :: "efx_nic \<Rightarrow> (u8 \<times> efx_nic) option" where
  "efx_ef10_mcdi_get_buf nic = mcdi_get_buf_of EF10_NUM_MCDI_BUFFERS nic"

definition efx_ef10_mcdi_put_buf :: "u8 \<Rightarrow> efx_nic \<Rightarrow> efx_nic" where
  "efx_ef10_mcdi_put_buf bufid nic =
     nic\<lparr>nic_mcdi_buf_use := unset_bit (unat bufid) (nic_mcdi_buf_use nic)\<rparr>"

subsection \<open>Delays of the driver core\<close>

definition efx_nic_hw_unavailable :: "efx_nic_type \<Rightarrow> efx_nic \<Rightarrow> bool" where
  "efx_nic_hw_unavailable ty nic = (case hw_unavailable ty of None \<Rightarrow> False | Some f \<Rightarrow> f nic)"

text \<open>The kernel's \<open>time_after\<close> and \<open>time_before\<close>: signed comparison of the difference.\<close>

definition time_after :: "u64 \<Rightarrow> u64 \<Rightarrow> bool" where
  "time_after a b \<longleftrightarrow> sint (b - a) < 0"

definition time_before :: "u64 \<Rightarrow> u64 \<Rightarrow> bool" where
  "time_before a b \<longleftrightarrow> time_after b a"

definition msecs_to_jiffies :: "efx_nic \<Rightarrow> nat \<Rightarrow> nat" where
  "msecs_to_jiffies nic m = (m * nic_HZ nic + 999) div 1000"

subsection \<open>The buffer pool\<close>

locale mcdi_buf_pool =
  fixes get :: "efx_nic \<Rightarrow> (u8 \<times> efx_nic) option"
    and put :: "u8 \<Rightarrow> efx_nic \<Rightarrow> efx_nic"
    and used :: "efx_nic \<Rightarrow> nat set"
    and n :: nat
  assumes get_Some: "get nic = Some (b, nic') \<Longrightarrow>
      unat b < n \<and> unat b \<notin> used nic \<and> used nic' = insert (unat b) (used nic)"
    and get_None: "get nic = None \<Longrightarrow> {..<n} \<subseteq> used nic"
    and get_frame: "get nic = Some (b, nic') \<Longrightarrow>
      nic' = nic\<lparr>nic_mcdi_buf_use := nic_mcdi_buf_use nic'\<rparr>"
    and put_used: "used (put b nic) = used nic - {unat b}"
    and put_frame: "put b nic = nic\<lparr>nic_mcdi_buf_use := nic_mcdi_buf_use (put b nic)\<rparr>"
begin

text \<open>A buffer that was got and put back leaves the pool as it was.\<close>

lemma put_get: "get nic = Some (b, nic') \<Longrightarrow> used (put b nic') = used nic"
  using get_Some put_used by fastforce

text \<open>The pool never refuses a request while a buffer is free.\<close>

lemma get_available: "i < n \<Longrightarrow> i \<notin> used nic \<Longrightarrow> get nic \<noteq> None"
  using get_None by (meson lessThan_iff subset_iff)

text \<open>A buffer given out twice was put back in between.\<close>

lemma get_get_distinct:
  "get nic = Some (b, nic') \<Longrightarrow> get nic' = Some (b', nic'') \<Longrightarrow> b \<noteq> b'"
  using get_Some by (metis insertI1)

end

definition nic_bufs :: "efx_nic \<Rightarrow> nat set" where
  "nic_bufs nic = {i. bit (nic_mcdi_buf_use nic) i}"

lemma ffz_bit: "ffz w < 64 \<Longrightarrow> \<not> bit w (ffz w)"
  by (auto simp: ffz_def split: option.splits dest: find_Some_iff_set)

lemma ffz_le: "ffz w \<le> 64"
  by (auto simp: ffz_def split: option.splits dest: find_Some_iff_set)

lemma ffz_least:
  assumes "i < ffz w" and "i < 64"
  shows "bit w i"
proof (cases "find (\<lambda>i. \<not> bit w i) [0..<64]")
  case None
  then show ?thesis
    using assms(2) by (auto simp: find_None_iff)
next
  case (Some j)
  then have "ffz w = j"
    by (simp add: ffz_def)
  moreover have "\<forall>k<j. bit w k"
    using Some by (auto simp: find_Some_iff)
  ultimately show ?thesis
    using assms by simp
qed

lemma unat_ffz [simp]: "unat (word_of_nat (ffz w) :: u8) = ffz w"
  using ffz_le [of w] by (simp add: unat_of_nat)

text \<open>Both allocators are the same bitmap code, for a pool that fits in the bitmap.\<close>

lemma bitmap_pool:
  assumes "n \<le> 64" and "get = mcdi_get_buf_of n"
    and "\<And>b nic. put b nic =
      nic\<lparr>nic_mcdi_buf_use := unset_bit (unat b) (nic_mcdi_buf_use nic)\<rparr>"
  shows "mcdi_buf_pool get put nic_bufs n"
proof
  fix nic b nic'
  assume got: "get nic = Some (b, nic')"
  then have b: "unat b = ffz (nic_mcdi_buf_use nic)" "unat b < n"
    and nic': "nic' = nic\<lparr>nic_mcdi_buf_use := set_bit (unat b) (nic_mcdi_buf_use nic)\<rparr>"
    by (auto simp: assms(2) mcdi_get_buf_of_def Let_def split: if_splits)
  show "unat b < n \<and> unat b \<notin> nic_bufs nic \<and> nic_bufs nic' = insert (unat b) (nic_bufs nic)"
    using b assms(1) ffz_bit [of "nic_mcdi_buf_use nic"]
    by (auto simp: nic' nic_bufs_def bit_set_bit_iff)
  show "nic' = nic\<lparr>nic_mcdi_buf_use := nic_mcdi_buf_use nic'\<rparr>"
    by (simp add: nic')
next
  fix nic
  assume "get nic = None"
  then have "n \<le> ffz (nic_mcdi_buf_use nic)"
    by (auto simp: assms(2) mcdi_get_buf_of_def Let_def split: if_splits)
  then show "{..<n} \<subseteq> nic_bufs nic"
    using assms(1) by (auto simp: nic_bufs_def intro: ffz_least)
next
  fix b nic
  show "nic_bufs (put b nic) = nic_bufs nic - {unat b}"
    by (auto simp: assms(3) nic_bufs_def bit_unset_bit_iff)
  show "put b nic = nic\<lparr>nic_mcdi_buf_use := nic_mcdi_buf_use (put b nic)\<rparr>"
    by (simp add: assms(3))
qed

interpretation ef100_pool: mcdi_buf_pool ef100_mcdi_get_buf ef100_mcdi_put_buf nic_bufs EF100_NUM_MCDI_BUFFERS
  by (rule bitmap_pool) (auto simp: EF100_NUM_MCDI_BUFFERS_def ef100_mcdi_get_buf_def ef100_mcdi_put_buf_def)

interpretation ef10_pool: mcdi_buf_pool efx_ef10_mcdi_get_buf efx_ef10_mcdi_put_buf nic_bufs EF10_NUM_MCDI_BUFFERS
  by (rule bitmap_pool) (auto simp: EF10_NUM_MCDI_BUFFERS_def efx_ef10_mcdi_get_buf_def efx_ef10_mcdi_put_buf_def)

end
