(* ===== verification/Mcdi.thy ===== *)
theory Mcdi
  imports Nic "HOL-Library.Monad_Syntax"
begin

section \<open>The management interface: requests, completions, errors (mcdi.c, mcdi.h)\<close>

text \<open>
  The state of \<open>struct efx_mcdi_iface\<close> with the commands it points to, and the functions of
  \<open>mcdi.c\<close> that change the commands, the list, the sequence numbers, the doorbell and the mode (\<open>Mcdi_Rpc\<close> continues this theory). A \<open>struct efx_mcdi_cmd *\<close> is a \<open>cmd_ptr\<close>, an
  address in the heap \<open>cmds\<close>; \<open>kref_put\<close> of the last reference removes the command from the
  heap, and an access to a freed command is recorded in \<open>faults\<close>, as are a \<open>list_del\<close> of an
  entry that is not on the list, an index outside an array and a call through a null pointer. Addresses are not reused, so a stale pointer is seen.

  A function of the C code that takes \<open>cleanup_list\<close> works on the list of the thread that holds
  \<open>iface_lock\<close>; that is the field \<open>cleanup\<close>. The pieces of code that run under the lock
  are the functions named \<open>\<dots>_locked\<close> or used by them; the function without the suffix adds
  what the code does after releasing the lock.

  A value \<open>None\<close> of a function into an option means that the code does not return: the only
  loops that may run forever are the search for a sequence number, \<open>efx_mcdi_mode_fail\<close> and the loop of
  \<open>efx_flr\<close>.

  Logging and wait queues (\<open>wake_up\<close>) have no state here.
\<close>

subsection \<open>State (mcdi.h)\<close>

type_synonym cmd_ptr = nat

datatype efx_mcdi_mode = MCDI_MODE_POLL | MCDI_MODE_EVENTS | MCDI_MODE_FAIL

datatype efx_mcdi_cmd_state =
    MCDI_STATE_QUEUED | MCDI_STATE_RETRY | MCDI_STATE_PROXY | MCDI_STATE_RUNNING
  | MCDI_STATE_PROXY_CANCELLED | MCDI_STATE_RUNNING_CANCELLED | MCDI_STATE_FINISHED

text \<open>
  The delayed work item embedded in a command is \<open>cmd_work\<close>: the time it is due when it is
  pending on the work queue. A completion function is identified by a number.
\<close>

record efx_mcdi_cmd =
  cmd_ref :: nat
  cmd_work :: "u64 option"
  cmd_state :: efx_mcdi_cmd_state
  cmd_inlen :: nat
  cmd_inbuf :: "u8 list"
  cmd_quiet :: bool
  cmd_polled :: bool
  cmd_reboot_seen :: bool
  cmd_seq :: nat
  cmd_bufid :: u8
  cmd_started :: u64
  cmd_cookie :: nat
  cmd_atomic_completer :: "nat option"
  cmd_completer :: "nat option"
  cmd_handle :: u32
  cmd_cmd :: u32
  cmd_rc :: int
  cmd_outlen :: nat
  cmd_outbuf :: "u8 list option"
  cmd_proxy_handle :: u32

datatype mem_fault =
    Use_After_Free cmd_ptr | List_Corruption cmd_ptr | Out_Of_Bounds nat | Null_Call | Bug_On

text \<open>A call of a completion function: which command, cookie, return code, response.\<close>

datatype completion =
    Atomic_Completer cmd_ptr nat int "u8 list option" nat
  | Completer cmd_ptr nat int "u8 list option" nat

record mcdi =
  efx :: efx_nic
  cmds :: "cmd_ptr \<Rightarrow> efx_mcdi_cmd option"
  next_cmd :: cmd_ptr
  outstanding_cleanups :: u32
  cmd_list :: "cmd_ptr list"
  db_held_by :: "cmd_ptr option"
  seq_held_by :: "cmd_ptr option list"
  prev_handle :: u32
  mode :: efx_mcdi_mode
  prev_seq :: nat
  new_epoch :: bool
  cleanup :: "cmd_ptr list"
  completions :: "completion list"
  faults :: "mem_fault list"

subsection \<open>Heap access and reference counts\<close>

definition fault :: "mem_fault \<Rightarrow> mcdi \<Rightarrow> mcdi" where
  "fault f s = s\<lparr>faults := faults s @ [f]\<rparr>"

definition modify_cmd :: "cmd_ptr \<Rightarrow> (efx_mcdi_cmd \<Rightarrow> efx_mcdi_cmd) \<Rightarrow> mcdi \<Rightarrow> mcdi" where
  "modify_cmd c f s = (case cmds s c of
      None \<Rightarrow> fault (Use_After_Free c) s
    | Some k \<Rightarrow> s\<lparr>cmds := (cmds s)(c := Some (f k))\<rparr>)"

definition kref_get :: "cmd_ptr \<Rightarrow> mcdi \<Rightarrow> mcdi" where
  "kref_get c s = modify_cmd c (\<lambda>k. k\<lparr>cmd_ref := cmd_ref k + 1\<rparr>) s"

definition kref_put :: "cmd_ptr \<Rightarrow> mcdi \<Rightarrow> mcdi" where
  "kref_put c s = (case cmds s c of
      None \<Rightarrow> fault (Use_After_Free c) s
    | Some k \<Rightarrow>
        if cmd_ref k \<le> 1 then s\<lparr>cmds := (cmds s)(c := None)\<rparr>
        else s\<lparr>cmds := (cmds s)(c := Some (k\<lparr>cmd_ref := cmd_ref k - 1\<rparr>))\<rparr>)"

definition queue_delayed_work :: "cmd_ptr \<Rightarrow> nat \<Rightarrow> mcdi \<Rightarrow> mcdi" where
  "queue_delayed_work c delay s = modify_cmd c (\<lambda>k. case cmd_work k of
      None \<Rightarrow> k\<lparr>cmd_work := Some (nic_jiffies (efx s) + of_nat delay)\<rparr>
    | Some _ \<Rightarrow> k) s"

definition work_pending :: "mcdi \<Rightarrow> cmd_ptr \<Rightarrow> bool" where
  "work_pending s c \<longleftrightarrow> (case cmds s c of None \<Rightarrow> False | Some k \<Rightarrow> cmd_work k \<noteq> None)"

text \<open>\<open>if (cancel_delayed_work(&cmd->work)) kref_put(&cmd->ref, efx_mcdi_cmd_release);\<close>\<close>

definition cancel_work_and_put :: "cmd_ptr \<Rightarrow> mcdi \<Rightarrow> mcdi" where
  "cancel_work_and_put c s =
     (if work_pending s c then kref_put c (modify_cmd c (\<lambda>k. k\<lparr>cmd_work := None\<rparr>) s) else s)"

definition efx_schedule_reset :: "reset_type \<Rightarrow> mcdi \<Rightarrow> mcdi" where
  "efx_schedule_reset t s = s\<lparr>efx := (efx s)\<lparr>nic_resets := nic_resets (efx s) @ [t]\<rparr>\<rparr>"

subsection \<open>Small predicates\<close>

definition efx_cmd_running :: "efx_mcdi_cmd \<Rightarrow> bool" where
  "efx_cmd_running k \<longleftrightarrow> cmd_state k = MCDI_STATE_RUNNING \<or> cmd_state k = MCDI_STATE_RUNNING_CANCELLED"

definition efx_cmd_cancelled :: "efx_mcdi_cmd \<Rightarrow> bool" where
  "efx_cmd_cancelled k \<longleftrightarrow>
     cmd_state k = MCDI_STATE_RUNNING_CANCELLED \<or> cmd_state k = MCDI_STATE_PROXY_CANCELLED"

definition efx_mcdi_rpc_timeout :: "efx_nic_type \<Rightarrow> efx_nic \<Rightarrow> u32 \<Rightarrow> nat" where
  "efx_mcdi_rpc_timeout ty nic cmd =
     (case mcdi_rpc_timeout ty of None \<Rightarrow> MCDI_RPC_TIMEOUT nic | Some f \<Rightarrow> f nic cmd)"

definition efx_mcdi_reset_cmd_running :: "mcdi \<Rightarrow> bool" where
  "efx_mcdi_reset_cmd_running s \<longleftrightarrow>
     list_ex (\<lambda>c. case cmds s c of None \<Rightarrow> False
        | Some k \<Rightarrow> cmd_cmd k = MC_CMD_REBOOT \<and> efx_cmd_running k) (cmd_list s)"

definition efx_mcdi_flushed :: "bool \<Rightarrow> mcdi \<Rightarrow> bool" where
  "efx_mcdi_flushed ignore_cleanups s \<longleftrightarrow>
     cmd_list s = [] \<and> (ignore_cleanups \<or> outstanding_cleanups s = 0)"

subsection \<open>Removing a command\<close>

text \<open>\<open>_efx_mcdi_remove_cmd\<close>: call the atomic completer, put the command on the cleanup list.\<close>

definition efx_mcdi_remove_cmd_1 :: "cmd_ptr \<Rightarrow> mcdi \<Rightarrow> mcdi" where
  "efx_mcdi_remove_cmd_1 c s = (case cmds s c of
      None \<Rightarrow> fault (Use_After_Free c) s
    | Some k \<Rightarrow>
        if efx_cmd_cancelled k then s
        else
          let s = (if cmd_atomic_completer k = None then s
                   else s\<lparr>completions := completions s @
                     [Atomic_Completer c (cmd_cookie k) (cmd_rc k) (cmd_outbuf k) (cmd_outlen k)]\<rparr>)
          in if cmd_completer k = None then s
             else kref_get c (s\<lparr>cleanup := cleanup s @ [c],
                                outstanding_cleanups := outstanding_cleanups s + 1\<rparr>))"

definition list_del_cmd :: "cmd_ptr \<Rightarrow> mcdi \<Rightarrow> mcdi" where
  "list_del_cmd c s = (if c \<in> set (cmd_list s) then s\<lparr>cmd_list := remove1 c (cmd_list s)\<rparr>
     else fault (List_Corruption c) s)"

definition efx_mcdi_remove_cmd :: "cmd_ptr \<Rightarrow> mcdi \<Rightarrow> mcdi" where
  "efx_mcdi_remove_cmd c s =
     kref_put c
      (modify_cmd c (\<lambda>k. k\<lparr>cmd_state := MCDI_STATE_FINISHED\<rparr>)
        (efx_mcdi_remove_cmd_1 c (list_del_cmd c s)))"

subsection \<open>Mode changes\<close>

text \<open>The loop body of \<open>_efx_mcdi_mode_poll\<close>: convert one command to polled mode.\<close>

definition convert_to_polled :: "cmd_ptr \<Rightarrow> mcdi \<Rightarrow> mcdi" where
  "convert_to_polled c s = (case cmds s c of
      None \<Rightarrow> fault (Use_After_Free c) s
    | Some k \<Rightarrow>
        if efx_cmd_running k \<and> \<not> cmd_polled k
        then let s = modify_cmd c (\<lambda>k. k\<lparr>cmd_polled := True\<rparr>) s in
             if work_pending s c
             then queue_delayed_work c 0 (modify_cmd c (\<lambda>k. k\<lparr>cmd_work := None\<rparr>) s)
             else s
        else s)"

definition efx_mcdi_mode_poll_1 :: "mcdi \<Rightarrow> mcdi" where
  "efx_mcdi_mode_poll_1 s =
     (if mode s = MCDI_MODE_EVENTS
      then fold convert_to_polled (cmd_list s) (s\<lparr>mode := MCDI_MODE_POLL\<rparr>)
      else s)"

definition efx_mcdi_mode_event :: "mcdi \<Rightarrow> mcdi" where
  "efx_mcdi_mode_event s = (if mode s = MCDI_MODE_POLL then s\<lparr>mode := MCDI_MODE_EVENTS\<rparr> else s)"

subsection \<open>Reboots of the controller\<close>

definition mark_reboot_seen :: "cmd_ptr \<Rightarrow> mcdi \<Rightarrow> mcdi" where
  "mark_reboot_seen c s = (case cmds s c of
      None \<Rightarrow> fault (Use_After_Free c) s
    | Some k \<Rightarrow> if efx_cmd_running k then modify_cmd c (\<lambda>k. k\<lparr>cmd_reboot_seen := True\<rparr>) s else s)"

definition efx_mcdi_reboot_detected :: "efx_nic_type \<Rightarrow> mcdi \<Rightarrow> mcdi" where
  "efx_mcdi_reboot_detected ty s =
     (let s = efx_mcdi_mode_poll_1 s;
          s = fold mark_reboot_seen (cmd_list s) s
      in s\<lparr>efx := Nic.mcdi_reboot_detected ty (efx s)\<rparr>)"

definition MCDI_STATUS_DELAY_COUNT :: nat where
  "MCDI_STATUS_DELAY_COUNT = 2500"

text \<open>The counting loop of \<open>efx_mcdi_wait_for_reboot\<close>, with the rounds left as its argument.\<close>

fun wait_for_reboot_loop :: "efx_nic_type \<Rightarrow> nat \<Rightarrow> mcdi \<Rightarrow> bool \<times> mcdi" where
  "wait_for_reboot_loop ty 0 s = (False, s)"
| "wait_for_reboot_loop ty (Suc n) s =
     (let (rc, nic) = mcdi_poll_reboot ty (efx s); s = s\<lparr>efx := nic\<rparr> in
      if rc \<noteq> 0 then (True, efx_mcdi_reboot_detected ty s)
      else wait_for_reboot_loop ty n (s\<lparr>efx := nic_advance (efx s)\<rparr>))"

definition efx_mcdi_wait_for_reboot :: "efx_nic_type \<Rightarrow> mcdi \<Rightarrow> bool \<times> mcdi" where
  "efx_mcdi_wait_for_reboot ty s = wait_for_reboot_loop ty MCDI_STATUS_DELAY_COUNT s"

definition efx_mcdi_reset_during_cmd :: "efx_nic_type \<Rightarrow> cmd_ptr \<Rightarrow> mcdi \<Rightarrow> mcdi" where
  "efx_mcdi_reset_during_cmd ty c s = (case cmds s c of
      None \<Rightarrow> fault (Use_After_Free c) s
    | Some k \<Rightarrow>
        let reset_running = efx_mcdi_reset_cmd_running s in
        if \<not> cmd_reboot_seen k then
          let (seen, s) = efx_mcdi_wait_for_reboot ty s in
          if seen \<and> \<not> reset_running then efx_schedule_reset RESET_TYPE_MC_FAILURE s else s
        else s)"

subsection \<open>Cancelling\<close>

definition cancel_one :: "cmd_ptr \<Rightarrow> mcdi \<Rightarrow> mcdi" where
  "cancel_one c s = (case cmds s c of
      None \<Rightarrow> fault (Use_After_Free c) s
    | Some k \<Rightarrow> (case cmd_state k of
          MCDI_STATE_QUEUED \<Rightarrow> efx_mcdi_remove_cmd c (modify_cmd c (\<lambda>k. k\<lparr>cmd_rc := - EPIPE\<rparr>) s)
        | MCDI_STATE_RETRY \<Rightarrow> efx_mcdi_remove_cmd c (modify_cmd c (\<lambda>k. k\<lparr>cmd_rc := - EPIPE\<rparr>) s)
        | MCDI_STATE_RUNNING \<Rightarrow>
            modify_cmd c (\<lambda>k. k\<lparr>cmd_state := MCDI_STATE_RUNNING_CANCELLED\<rparr>)
             (efx_mcdi_remove_cmd_1 c (modify_cmd c (\<lambda>k. k\<lparr>cmd_rc := - EPIPE\<rparr>) s))
        | MCDI_STATE_PROXY \<Rightarrow>
            modify_cmd c (\<lambda>k. k\<lparr>cmd_state := MCDI_STATE_PROXY_CANCELLED\<rparr>)
             (efx_mcdi_remove_cmd_1 c (modify_cmd c (\<lambda>k. k\<lparr>cmd_rc := - EPIPE\<rparr>) s))
        | _ \<Rightarrow> s))"

text \<open>\<open>_efx_mcdi_cancel_cmd\<close>: the first command of the list with the handle, if any.\<close>

definition has_handle :: "mcdi \<Rightarrow> u32 \<Rightarrow> cmd_ptr \<Rightarrow> bool" where
  "has_handle s h c \<longleftrightarrow> (case cmds s c of None \<Rightarrow> False | Some k \<Rightarrow> cmd_handle k = h)"

definition efx_mcdi_cancel_cmd_1 :: "u32 \<Rightarrow> mcdi \<Rightarrow> mcdi" where
  "efx_mcdi_cancel_cmd_1 h s = (case find (has_handle s h) (cmd_list s) of
      None \<Rightarrow> s
    | Some c \<Rightarrow> cancel_one c s)"

text \<open>
  The loop of \<open>efx_mcdi_mode_fail\<close>: while the list is not empty, cancel its first command by
  handle. A command that was already sent stays on the list, so the loop need not end.
\<close>

partial_function (option) mode_fail_loop :: "mcdi \<Rightarrow> mcdi option" where
  "mode_fail_loop s = (case cmd_list s of
      [] \<Rightarrow> Some s
    | c # _ \<Rightarrow> (case cmds s c of
          None \<Rightarrow> Some (fault (Use_After_Free c) s)
        | Some k \<Rightarrow> mode_fail_loop (efx_mcdi_cancel_cmd_1 (cmd_handle k) s)))"

declare mode_fail_loop.simps [code]

definition efx_mcdi_mode_fail :: "mcdi \<Rightarrow> mcdi option" where
  "efx_mcdi_mode_fail s = mode_fail_loop (s\<lparr>mode := MCDI_MODE_FAIL\<rparr>)"

end
