(* ===== verification/Mcdi_Rpc.thy ===== *)
theory Mcdi_Rpc
  imports Mcdi
begin

section \<open>MCDI requests and responses (mcdi.c)\<close>

text \<open>
  Sending a request, starting queued commands, reading a response, the time-outs, the work item,
  the proxy and death events and the calls that issue commands. A function with an argument
  \<open>copybuf\<close> says by it whether the buffer for the response was allocated (the pointer of the
  code is not \<open>NULL\<close>).
\<close>

subsection \<open>Error codes\<close>

abbreviation MC_CMD_ERR_EPERM :: u32 where "MC_CMD_ERR_EPERM \<equiv> 0x1"
abbreviation MC_CMD_ERR_ENOENT :: u32 where "MC_CMD_ERR_ENOENT \<equiv> 0x2"
abbreviation MC_CMD_ERR_EINTR :: u32 where "MC_CMD_ERR_EINTR \<equiv> 0x4"
abbreviation MC_CMD_ERR_EAGAIN :: u32 where "MC_CMD_ERR_EAGAIN \<equiv> 0xb"
abbreviation MC_CMD_ERR_ENOMEM :: u32 where "MC_CMD_ERR_ENOMEM \<equiv> 0xc"
abbreviation MC_CMD_ERR_EACCES :: u32 where "MC_CMD_ERR_EACCES \<equiv> 0xd"
abbreviation MC_CMD_ERR_EBUSY :: u32 where "MC_CMD_ERR_EBUSY \<equiv> 0x10"
abbreviation MC_CMD_ERR_EINVAL :: u32 where "MC_CMD_ERR_EINVAL \<equiv> 0x16"
abbreviation MC_CMD_ERR_ENOSPC :: u32 where "MC_CMD_ERR_ENOSPC \<equiv> 0x1c"
abbreviation MC_CMD_ERR_ERANGE :: u32 where "MC_CMD_ERR_ERANGE \<equiv> 0x22"
abbreviation MC_CMD_ERR_EDEADLK :: u32 where "MC_CMD_ERR_EDEADLK \<equiv> 0x23"
abbreviation MC_CMD_ERR_ENOSYS :: u32 where "MC_CMD_ERR_ENOSYS \<equiv> 0x26"
abbreviation MC_CMD_ERR_ETIME :: u32 where "MC_CMD_ERR_ETIME \<equiv> 0x3e"
abbreviation MC_CMD_ERR_ENOTSUP :: u32 where "MC_CMD_ERR_ENOTSUP \<equiv> 0x5f"
abbreviation MC_CMD_ERR_EALREADY :: u32 where "MC_CMD_ERR_EALREADY \<equiv> 0x72"
abbreviation MC_CMD_ERR_ALLOC_FAIL :: u32 where "MC_CMD_ERR_ALLOC_FAIL \<equiv> 0x1000"
abbreviation MC_CMD_ERR_NO_EVB_PORT :: u32 where "MC_CMD_ERR_NO_EVB_PORT \<equiv> 0x1002"
abbreviation MC_CMD_ERR_MAC_EXIST :: u32 where "MC_CMD_ERR_MAC_EXIST \<equiv> 0x1009"
abbreviation MC_CMD_ERR_PROXY_PENDING :: int where "MC_CMD_ERR_PROXY_PENDING \<equiv> 0x1010"
abbreviation MC_CMD_ERR_QUEUE_FULL :: int where "MC_CMD_ERR_QUEUE_FULL \<equiv> 0x1017"

definition efx_mcdi_errno :: "efx_nic_type \<Rightarrow> u32 \<Rightarrow> int" where
  "efx_mcdi_errno ty mcdi_err =
     (if mcdi_err = 0 \<or> uint mcdi_err = MC_CMD_ERR_PROXY_PENDING \<or> uint mcdi_err = MC_CMD_ERR_QUEUE_FULL
      then uint mcdi_err
      else if mcdi_err = MC_CMD_ERR_EPERM then - EPERM
      else if mcdi_err = MC_CMD_ERR_ENOENT then - ENOENT
      else if mcdi_err = MC_CMD_ERR_EINTR then - EINTR
      else if mcdi_err = MC_CMD_ERR_EAGAIN then - EAGAIN
      else if mcdi_err = MC_CMD_ERR_EACCES then - EACCES
      else if mcdi_err = MC_CMD_ERR_EBUSY then - EBUSY
      else if mcdi_err = MC_CMD_ERR_EINVAL then - EINVAL
      else if mcdi_err = MC_CMD_ERR_ERANGE then - ERANGE
      else if mcdi_err = MC_CMD_ERR_EDEADLK then - EDEADLK
      else if mcdi_err = MC_CMD_ERR_ENOSYS then - ENOSYS
      else if mcdi_err = MC_CMD_ERR_ETIME then - ETIME
      else if mcdi_err = MC_CMD_ERR_EALREADY then - EALREADY
      else if mcdi_err = MC_CMD_ERR_ENOSPC then - ENOSPC
      else if mcdi_err = MC_CMD_ERR_ENOMEM then - ENOMEM
      else if mcdi_err = MC_CMD_ERR_ENOTSUP then - EOPNOTSUPP
      else if mcdi_err = MC_CMD_ERR_ALLOC_FAIL then - ENOBUFS
      else if mcdi_err = MC_CMD_ERR_MAC_EXIST then - EADDRINUSE
      else if mcdi_err = MC_CMD_ERR_NO_EVB_PORT \<and> is_vf ty then - EAGAIN
      else - EPROTO)"

definition efx_mcdi_check_supported :: "efx_nic_type \<Rightarrow> u32 \<Rightarrow> nat \<Rightarrow> int" where
  "efx_mcdi_check_supported ty cmd inlen =
     (if mcdi_max_ver ty < 0 \<or> (mcdi_max_ver ty < 2 \<and> cmd > MC_CMD_CMD_SPACE_ESCAPE_7) then - EINVAL
      else if inlen > MCDI_CTL_SDU_LEN_MAX_V2 \<or> (mcdi_max_ver ty < 2 \<and> inlen > MCDI_CTL_SDU_LEN_MAX_V1)
      then - EMSGSIZE
      else 0)"

subsection \<open>Sending\<close>

text \<open>The one or two header dwords that \<open>efx_mcdi_send_request\<close> builds.\<close>

definition mcdi_request_header :: "efx_nic_type \<Rightarrow> mcdi \<Rightarrow> efx_mcdi_cmd \<Rightarrow> u32 list" where
  "mcdi_request_header ty s k =
     (let xflags = (if mode s = MCDI_MODE_EVENTS then MCDI_HEADER_XFLAGS_EVREQ else 0);
          not_epoch = (if new_epoch s then 0 else 1) in
      if mcdi_max_ver ty = 1 then
        [EFX_POPULATE_DWORD
          [(MCDI_HEADER_RESPONSE, 0), (MCDI_HEADER_RESYNC, 1), (MCDI_HEADER_CODE, cmd_cmd k),
           (MCDI_HEADER_DATALEN, of_nat (cmd_inlen k)), (MCDI_HEADER_SEQ, of_nat (cmd_seq k)),
           (MCDI_HEADER_XFLAGS, xflags), (MCDI_HEADER_NOT_EPOCH, not_epoch)]]
      else
        [EFX_POPULATE_DWORD
          [(MCDI_HEADER_RESPONSE, 0), (MCDI_HEADER_RESYNC, 1), (MCDI_HEADER_CODE, MC_CMD_V2_EXTN),
           (MCDI_HEADER_DATALEN, 0), (MCDI_HEADER_SEQ, of_nat (cmd_seq k)),
           (MCDI_HEADER_XFLAGS, xflags), (MCDI_HEADER_NOT_EPOCH, not_epoch)],
         EFX_POPULATE_DWORD
          [(MC_CMD_V2_EXTN_IN_EXTENDED_CMD, cmd_cmd k),
           (MC_CMD_V2_EXTN_IN_ACTUAL_LEN, of_nat (cmd_inlen k))]])"

definition efx_mcdi_send_request :: "efx_nic_type \<Rightarrow> cmd_ptr \<Rightarrow> mcdi \<Rightarrow> mcdi" where
  "efx_mcdi_send_request ty c s = (case cmds s c of
      None \<Rightarrow> fault (Use_After_Free c) s
    | Some k \<Rightarrow>
        let s = s\<lparr>prev_seq := cmd_seq k, seq_held_by := (seq_held_by s)[cmd_seq k := Some c],
                  db_held_by := Some c\<rparr>;
            s = modify_cmd c (\<lambda>k. k\<lparr>cmd_started := nic_jiffies (efx s)\<rparr>) s;
            hdr = mcdi_request_header ty s k;
            s = (if mcdi_max_ver ty \<noteq> 1 \<and> cmd_inlen k > MCDI_CTL_SDU_LEN_MAX_V2 then fault Bug_On s else s)
        in s\<lparr>efx := mcdi_request ty (cmd_bufid k) hdr (take (cmd_inlen k) (cmd_inbuf k)) (efx s),
             new_epoch := False\<rparr>)"

text \<open>
  The \<open>do \<dots> while\<close> of \<open>efx_mcdi_get_seq\<close>: the next sequence number after \<open>seq\<close>, and
  again while it is held and the search has not come back to \<open>prev_seq\<close>.
\<close>

partial_function (option) get_seq_loop :: "cmd_ptr option list \<Rightarrow> nat \<Rightarrow> nat \<Rightarrow> nat option" where
  "get_seq_loop held prev seq =
     (let seq = (seq + 1) mod length held in
      if held ! seq \<noteq> None \<and> seq \<noteq> prev then get_seq_loop held prev seq else Some seq)"

declare get_seq_loop.simps [code]

definition efx_mcdi_get_seq :: "mcdi \<Rightarrow> (nat \<times> bool) option" where
  "efx_mcdi_get_seq s =
     do {
       seq \<leftarrow> get_seq_loop (seq_held_by s) (prev_seq s) (prev_seq s);
       Some (seq, seq_held_by s ! seq = None)
     }"

definition efx_mcdi_poll_once :: "efx_nic_type \<Rightarrow> efx_mcdi_cmd \<Rightarrow> mcdi \<Rightarrow> bool" where
  "efx_mcdi_poll_once ty k s \<longleftrightarrow>
     efx_nic_hw_unavailable ty (efx s) \<or> mcdi_poll_response ty (efx s) (cmd_bufid k)"

definition USER_TICK_USEC :: nat where
  "USER_TICK_USEC = 10000"

text \<open>
  The loop of \<open>efx_mcdi_poll_start\<close> with the spins left. \<open>complete\<close> is
  \<open>efx_mcdi_complete_cmd\<close> for the command and its buffer: it is an argument because the code is
  mutually recursive, and is only called when there is a buffer (\<open>spins\<close> is 0 otherwise).
\<close>

fun poll_start_loop :: "efx_nic_type \<Rightarrow> (mcdi \<Rightarrow> (bool \<times> mcdi) option) \<Rightarrow> cmd_ptr \<Rightarrow> nat
    \<Rightarrow> mcdi \<Rightarrow> mcdi option" where
  "poll_start_loop ty complete c 0 s = Some (queue_delayed_work c 1 (kref_get c s))"
| "poll_start_loop ty complete c (Suc spins) s = (case cmds s c of
      None \<Rightarrow> Some (fault (Use_After_Free c) s)
    | Some k \<Rightarrow>
        if efx_mcdi_poll_once ty k s then map_option snd (complete s)
        else poll_start_loop ty complete c spins (s\<lparr>efx := nic_advance (efx s)\<rparr>))"

definition efx_mcdi_poll_start :: "efx_nic_type \<Rightarrow> (mcdi \<Rightarrow> (bool \<times> mcdi) option) \<Rightarrow> cmd_ptr
    \<Rightarrow> bool \<Rightarrow> mcdi \<Rightarrow> mcdi option" where
  "efx_mcdi_poll_start ty complete c copybuf s =
     poll_start_loop ty complete c (if copybuf then USER_TICK_USEC else 0) s"

text \<open>The part of \<open>efx_mcdi_cmd_start_or_queue_ext\<close> for a command that can be sent.\<close>

definition start_cmd :: "efx_nic_type \<Rightarrow> (mcdi \<Rightarrow> (bool \<times> mcdi) option) \<Rightarrow> cmd_ptr \<Rightarrow> bool \<Rightarrow> nat
    \<Rightarrow> u8 \<Rightarrow> mcdi \<Rightarrow> mcdi option" where
  "start_cmd ty complete c copybuf seq bufid s =
     (let polled = (mode s = MCDI_MODE_POLL);
          s = modify_cmd c (\<lambda>k. k\<lparr>cmd_seq := seq, cmd_bufid := bufid, cmd_polled := polled,
                                  cmd_reboot_seen := False\<rparr>) s;
          s = efx_mcdi_send_request ty c s;
          s = modify_cmd c (\<lambda>k. k\<lparr>cmd_state := MCDI_STATE_RUNNING\<rparr>) s
      in if polled then efx_mcdi_poll_start ty complete c copybuf s
         else Some (case cmds s c of
             None \<Rightarrow> fault (Use_After_Free c) s
           | Some k \<Rightarrow> queue_delayed_work c (efx_mcdi_rpc_timeout ty (efx s) (cmd_cmd k)) (kref_get c s)))"

definition efx_mcdi_cmd_start_or_queue_ext :: "efx_nic_type \<Rightarrow> (mcdi \<Rightarrow> (bool \<times> mcdi) option)
    \<Rightarrow> cmd_ptr \<Rightarrow> bool \<Rightarrow> bool \<Rightarrow> mcdi \<Rightarrow> (int \<times> mcdi) option" where
  "efx_mcdi_cmd_start_or_queue_ext ty complete c copybuf immediate_only s =
     (let not_started =
        (if immediate_only then Some (- EAGAIN, s)
         else Some (0, modify_cmd c (\<lambda>k. k\<lparr>cmd_state := MCDI_STATE_QUEUED\<rparr>) s))
      in if db_held_by s \<noteq> None then not_started
         else do {
           (seq, free) \<leftarrow> efx_mcdi_get_seq s;
           if \<not> free then not_started
           else (case mcdi_get_buf ty (efx s) of
               None \<Rightarrow> not_started
             | Some (bufid, nic) \<Rightarrow>
                 map_option (Pair 0) (start_cmd ty complete c copybuf seq bufid (s\<lparr>efx := nic\<rparr>)))
         })"

text \<open>
  \<open>efx_mcdi_start_or_queue\<close>, which the code only calls without a buffer, so that no command
  completes in it.
\<close>

fun start_or_queue_list :: "efx_nic_type \<Rightarrow> bool \<Rightarrow> cmd_ptr list \<Rightarrow> mcdi \<Rightarrow> mcdi option" where
  "start_or_queue_list ty allow_retry [] s = Some s"
| "start_or_queue_list ty allow_retry (c # cs) s = (case cmds s c of
      None \<Rightarrow> Some (fault (Use_After_Free c) s)
    | Some k \<Rightarrow>
        if cmd_state k = MCDI_STATE_QUEUED \<or> (cmd_state k = MCDI_STATE_RETRY \<and> allow_retry)
        then do {
          (_, s) \<leftarrow> efx_mcdi_cmd_start_or_queue_ext ty (\<lambda>_. None) c False False s;
          start_or_queue_list ty allow_retry cs s
        }
        else start_or_queue_list ty allow_retry cs s)"

definition efx_mcdi_start_or_queue :: "efx_nic_type \<Rightarrow> bool \<Rightarrow> mcdi \<Rightarrow> mcdi option" where
  "efx_mcdi_start_or_queue ty allow_retry s = start_or_queue_list ty allow_retry (cmd_list s) s"

subsection \<open>Completing\<close>

text \<open>Error flag, header length and data length of the response in a buffer.\<close>

definition response_header :: "efx_nic_type \<Rightarrow> efx_nic \<Rightarrow> u8 \<Rightarrow> bool \<times> nat \<times> nat" where
  "response_header ty nic bufid =
     (let hdr = bytes_dword (mcdi_read_response ty nic bufid 0 4);
          respcmd = EFX_DWORD_FIELD hdr MCDI_HEADER_CODE;
          error = (EFX_DWORD_FIELD hdr MCDI_HEADER_ERROR \<noteq> 0) in
      if respcmd \<noteq> MC_CMD_V2_EXTN
      then (error, 4, unat (EFX_DWORD_FIELD hdr MCDI_HEADER_DATALEN))
      else let hdr = bytes_dword (mcdi_read_response ty nic bufid 4 4)
           in (error, 8, unat (EFX_DWORD_FIELD hdr MC_CMD_V2_EXTN_IN_ACTUAL_LEN)))"

text \<open>
  The return code of a response, its data length and data, and the state after a reboot of the
  controller was dealt with.
\<close>

definition response_rc :: "efx_nic_type \<Rightarrow> cmd_ptr \<Rightarrow> u8 \<Rightarrow> bool \<Rightarrow> mcdi
    \<Rightarrow> int \<times> nat \<times> u8 list option \<times> mcdi" where
  "response_rc ty c bufid copybuf s =
     (let (error, hdr_len, data_len) = response_header ty (efx s) bufid in
      if error \<and> data_len = 0
      then (- EIO, data_len, if copybuf then Some [] else None, efx_mcdi_reset_during_cmd ty c s)
      else if \<not> copybuf then (- ENOMEM, data_len, None, s)
      else let data_len = (if error \<and> data_len < 4 then 4 else data_len);
               outbuf = mcdi_read_response ty (efx s) bufid hdr_len data_len
           in (if error then efx_mcdi_errno ty (bytes_dword outbuf) else 0, data_len, Some outbuf, s))"

text \<open>The branch of \<open>efx_mcdi_complete_cmd\<close> for a response \<open>PROXY_PENDING\<close>.\<close>

definition MCDI_PROXY_TIMEOUT :: "efx_nic \<Rightarrow> nat" where
  "MCDI_PROXY_TIMEOUT nic = 10 * nic_HZ nic"

definition complete_proxy_pending :: "efx_nic_type \<Rightarrow> cmd_ptr \<Rightarrow> efx_mcdi_cmd \<Rightarrow> nat \<Rightarrow> nat \<Rightarrow> mcdi
    \<Rightarrow> (bool \<times> mcdi) option" where
  "complete_proxy_pending ty c k hdr_len data_len s =
     (if db_held_by s \<noteq> Some c \<or> cmd_proxy_handle k \<noteq> 0 \<or> data_len < 4 + 4
      then do {
        s \<leftarrow> efx_mcdi_mode_fail (efx_mcdi_remove_cmd c (modify_cmd c (\<lambda>k. k\<lparr>cmd_rc := - EIO\<rparr>) s));
        Some (True, efx_schedule_reset RESET_TYPE_MCDI_TIMEOUT s)
      }
      else
        let h = bytes_dword (mcdi_read_response ty (efx s) (cmd_bufid k) (hdr_len + 4) 4);
            s = modify_cmd c (\<lambda>k. k\<lparr>cmd_state := MCDI_STATE_PROXY, cmd_proxy_handle := h\<rparr>) s
        in Some (False, queue_delayed_work c (MCDI_PROXY_TIMEOUT (efx s)) (kref_get c s)))"

text \<open>The other branch: the doorbell is freed and the command removed, dropped or kept for a retry.\<close>

definition complete_done :: "cmd_ptr \<Rightarrow> efx_mcdi_cmd \<Rightarrow> int \<Rightarrow> u8 list option \<Rightarrow> nat \<Rightarrow> mcdi
    \<Rightarrow> bool \<times> mcdi" where
  "complete_done c k rc outbuf data_len s =
     (let s = (if db_held_by s = Some c then s\<lparr>db_held_by := None\<rparr> else s) in
      if efx_cmd_cancelled k then (True, kref_put c (list_del_cmd c s))
      else if rc = MC_CMD_ERR_QUEUE_FULL
      then (False, modify_cmd c (\<lambda>k. k\<lparr>cmd_state := MCDI_STATE_RETRY\<rparr>) s)
      else (True, efx_mcdi_remove_cmd c (modify_cmd c (\<lambda>k. k\<lparr>cmd_rc := rc, cmd_outbuf := outbuf,
             cmd_outlen := (if outbuf = None then 0 else data_len)\<rparr>) s)))"

definition efx_mcdi_complete_cmd :: "efx_nic_type \<Rightarrow> cmd_ptr \<Rightarrow> bool \<Rightarrow> mcdi \<Rightarrow> (bool \<times> mcdi) option" where
  "efx_mcdi_complete_cmd ty c copybuf s = (case cmds s c of
      None \<Rightarrow> Some (False, fault (Use_After_Free c) s)
    | Some k0 \<Rightarrow>
        let bufid = cmd_bufid k0;
            s = kref_get c s;
            (_, hdr_len, _) = response_header ty (efx s) bufid;
            (rc, data_len, outbuf, s) = response_rc ty c bufid copybuf s
        in (case cmds s c of
            None \<Rightarrow> Some (False, fault (Use_After_Free c) s)
          | Some k \<Rightarrow> do {
              (completed, s) \<leftarrow>
                (if rc = MC_CMD_ERR_PROXY_PENDING then complete_proxy_pending ty c k hdr_len data_len s
                 else Some (complete_done c k rc outbuf data_len s));
              let s = s\<lparr>seq_held_by := (seq_held_by s)[cmd_seq k := None],
                        efx := mcdi_put_buf ty bufid (efx s)\<rparr>;
              s \<leftarrow> efx_mcdi_start_or_queue ty (rc \<noteq> MC_CMD_ERR_QUEUE_FULL) s;
              Some (completed, kref_put c s)
            }))"

definition efx_mcdi_timeout_cmd :: "efx_nic_type \<Rightarrow> cmd_ptr \<Rightarrow> mcdi \<Rightarrow> mcdi option" where
  "efx_mcdi_timeout_cmd ty c s = (case cmds s c of
      None \<Rightarrow> Some (fault (Use_After_Free c) s)
    | Some k \<Rightarrow> do {
        let s = s\<lparr>efx := mcdi_put_buf ty (cmd_bufid k) (efx s)\<rparr>;
        let s = efx_mcdi_remove_cmd c (modify_cmd c (\<lambda>k. k\<lparr>cmd_rc := - ETIMEDOUT\<rparr>) s);
        s \<leftarrow> efx_mcdi_mode_fail s;
        Some (efx_schedule_reset RESET_TYPE_MCDI_TIMEOUT s)
      })"

definition efx_mcdi_proxy_timeout_cmd :: "cmd_ptr \<Rightarrow> mcdi \<Rightarrow> mcdi option" where
  "efx_mcdi_proxy_timeout_cmd c s =
     do {
       s \<leftarrow> efx_mcdi_mode_fail (efx_mcdi_remove_cmd c (modify_cmd c (\<lambda>k. k\<lparr>cmd_rc := - ETIMEDOUT\<rparr>) s));
       Some (efx_schedule_reset RESET_TYPE_MCDI_TIMEOUT s)
     }"

definition efx_mcdi_poll_interval :: "efx_mcdi_cmd \<Rightarrow> mcdi \<Rightarrow> nat" where
  "efx_mcdi_poll_interval k s =
     (let before = (\<lambda>ms. time_before (nic_jiffies (efx s))
                           (cmd_started k + of_nat (msecs_to_jiffies (efx s) ms))) in
      if before 10 then msecs_to_jiffies (efx s) 1
      else if before 100 then msecs_to_jiffies (efx s) 10
      else if before 1000 then msecs_to_jiffies (efx s) 100
      else msecs_to_jiffies (efx s) 1000)"

definition efx_mcdi_check_timeout :: "efx_nic_type \<Rightarrow> efx_mcdi_cmd \<Rightarrow> mcdi \<Rightarrow> bool" where
  "efx_mcdi_check_timeout ty k s \<longleftrightarrow>
     time_after (nic_jiffies (efx s))
       (cmd_started k + of_nat (efx_mcdi_rpc_timeout ty (efx s) (cmd_cmd k)))"

subsection \<open>After the lock is released\<close>

definition call_completer :: "cmd_ptr \<Rightarrow> mcdi \<Rightarrow> mcdi" where
  "call_completer c s = (case cmds s c of
      None \<Rightarrow> fault (Use_After_Free c) s
    | Some k \<Rightarrow> (case cmd_completer k of
          None \<Rightarrow> fault Null_Call s
        | Some _ \<Rightarrow> s\<lparr>completions := completions s @
            [Completer c (cmd_cookie k) (cmd_rc k) (cmd_outbuf k) (cmd_outlen k)]\<rparr>))"

fun run_cleanups :: "cmd_ptr list \<Rightarrow> mcdi \<Rightarrow> mcdi" where
  "run_cleanups [] s = s"
| "run_cleanups (c # cs) s = run_cleanups cs (kref_put c (call_completer c s))"

definition efx_mcdi_process_cleanup_list :: "cmd_ptr list \<Rightarrow> mcdi \<Rightarrow> mcdi" where
  "efx_mcdi_process_cleanup_list cl s =
     (let s = run_cleanups cl s in
      s\<lparr>outstanding_cleanups := outstanding_cleanups s - of_nat (length cl)\<rparr>)"

text \<open>Release the lock and process the thread's cleanup list.\<close>

definition unlock_and_clean :: "mcdi \<Rightarrow> mcdi" where
  "unlock_and_clean s = efx_mcdi_process_cleanup_list (cleanup s) (s\<lparr>cleanup := []\<rparr>)"

definition efx_mcdi_cancel_cmd :: "u32 \<Rightarrow> mcdi \<Rightarrow> mcdi" where
  "efx_mcdi_cancel_cmd h s = unlock_and_clean (efx_mcdi_cancel_cmd_1 h s)"

subsection \<open>Recovery by a function level reset\<close>

text \<open>
  The loop of \<open>efx_flr\<close> takes the first command off the list until the list is empty; \<open>efx_flr_locked\<close> is
  the part under the lock. \<open>reset_rc\<close> is what \<open>pci_reset_function\<close> returned.
\<close>

definition flr_abort :: "efx_nic_type \<Rightarrow> cmd_ptr \<Rightarrow> efx_mcdi_cmd \<Rightarrow> mcdi \<Rightarrow> mcdi" where
  "flr_abort ty c k s =
     (let s = modify_cmd c (\<lambda>k. k\<lparr>cmd_rc := - EIO\<rparr>) (kref_get c s);
          s = (if efx_cmd_running k then s\<lparr>efx := mcdi_put_buf ty (cmd_bufid k) (efx s)\<rparr> else s);
          s = efx_mcdi_remove_cmd c s
      in kref_put c (cancel_work_and_put c s))"

partial_function (option) flr_loop :: "efx_nic_type \<Rightarrow> mcdi \<Rightarrow> mcdi option" where
  "flr_loop ty s = (case cmd_list s of
      [] \<Rightarrow> Some s
    | c # _ \<Rightarrow> (case cmds s c of
          None \<Rightarrow> Some (fault (Use_After_Free c) s)
        | Some k \<Rightarrow> flr_loop ty (flr_abort ty c k s)))"

declare flr_loop.simps [code]

definition efx_flr_locked :: "efx_nic_type \<Rightarrow> mcdi \<Rightarrow> mcdi option" where
  "efx_flr_locked ty s =
     do {
       s \<leftarrow> flr_loop ty s;
       Some (s\<lparr>db_held_by := None, seq_held_by := replicate (length (seq_held_by s)) None, mode := MCDI_MODE_POLL\<rparr>)
     }"

definition efx_flr :: "efx_nic_type \<Rightarrow> int \<Rightarrow> mcdi \<Rightarrow> (int \<times> mcdi) option" where
  "efx_flr ty reset_rc s =
     (if reset_rc \<noteq> 0 then Some (reset_rc, s)
      else do {
        s \<leftarrow> efx_flr_locked ty s;
        Some (0, unlock_and_clean s)
      })"

subsection \<open>Events\<close>

definition efx_mcdi_proxy_response :: "efx_nic_type \<Rightarrow> cmd_ptr \<Rightarrow> int \<Rightarrow> mcdi \<Rightarrow> mcdi option" where
  "efx_mcdi_proxy_response ty c status s =
     (let s = s\<lparr>db_held_by := None\<rparr> in
      if status \<noteq> 0 then
        let s = (if status = - EIO \<or> status = - EINTR then efx_mcdi_reset_during_cmd ty c s else s);
            s = kref_get c s;
            s = efx_mcdi_remove_cmd c (modify_cmd c (\<lambda>k. k\<lparr>cmd_rc := status\<rparr>) s)
        in Some (kref_put c (cancel_work_and_put c s))
      else map_option snd (efx_mcdi_cmd_start_or_queue_ext ty (\<lambda>_. None) c False False s))"

definition has_proxy_handle :: "mcdi \<Rightarrow> u32 \<Rightarrow> cmd_ptr \<Rightarrow> bool" where
  "has_proxy_handle s h c \<longleftrightarrow> (case cmds s c of
      None \<Rightarrow> False
    | Some k \<Rightarrow> cmd_state k = MCDI_STATE_PROXY \<and> cmd_proxy_handle k = h)"

definition efx_mcdi_ev_proxy_response_locked :: "efx_nic_type \<Rightarrow> u32 \<Rightarrow> int \<Rightarrow> mcdi \<Rightarrow> mcdi option" where
  "efx_mcdi_ev_proxy_response_locked ty h status s =
     (case find (has_proxy_handle s h) (cmd_list s) of
        Some c \<Rightarrow> efx_mcdi_proxy_response ty c status s
      | None \<Rightarrow> Some (efx_schedule_reset RESET_TYPE_WORLD s))"

definition efx_mcdi_ev_cpl_locked :: "efx_nic_type \<Rightarrow> nat \<Rightarrow> bool \<Rightarrow> mcdi \<Rightarrow> mcdi option" where
  "efx_mcdi_ev_cpl_locked ty seqno copybuf s =
     (if length (seq_held_by s) \<le> seqno then Some (fault (Out_Of_Bounds seqno) s)
      else case seq_held_by s ! seqno of
        None \<Rightarrow> Some s
      | Some c \<Rightarrow> do {
          (completed, s) \<leftarrow> efx_mcdi_complete_cmd ty c copybuf (kref_get c s);
          Some (kref_put c (if completed then cancel_work_and_put c s else s))
        })"

definition efx_mcdi_ev_death_locked :: "efx_nic_type \<Rightarrow> bool \<Rightarrow> mcdi \<Rightarrow> mcdi" where
  "efx_mcdi_ev_death_locked ty bist s =
     (let s = (if bist then
                 let s = s\<lparr>efx := (efx s)\<lparr>nic_mc_bist_for_other_fn := True\<rparr>\<rparr> in
                 (case mcdi_record_bist_event ty of
                    None \<Rightarrow> fault Null_Call s
                  | Some f \<Rightarrow> s\<lparr>efx := f (efx s)\<rparr>)
               else s);
          s = efx_mcdi_reboot_detected ty s
      in if bist \<or> \<not> efx_mcdi_reset_cmd_running s
         then efx_schedule_reset (if bist then RESET_TYPE_MC_BIST else RESET_TYPE_MC_FAILURE) s
         else s)"


subsection \<open>The work item\<close>

text \<open>
  The part of \<open>efx_mcdi_cmd_work\<close> under the lock. The work item has left the work queue when it
  runs.
\<close>

definition efx_mcdi_cmd_work_locked :: "efx_nic_type \<Rightarrow> cmd_ptr \<Rightarrow> bool \<Rightarrow> mcdi \<Rightarrow> mcdi option" where
  "efx_mcdi_cmd_work_locked ty c copybuf s = (case cmds s c of
      None \<Rightarrow> Some (fault (Use_After_Free c) s)
    | Some k \<Rightarrow>
        if cmd_state k = MCDI_STATE_FINISHED then Some s
        else if cmd_state k = MCDI_STATE_PROXY then efx_mcdi_proxy_timeout_cmd c s
        else if efx_mcdi_poll_once ty k s then map_option snd (efx_mcdi_complete_cmd ty c copybuf s)
        else if \<not> cmd_polled k \<or> efx_mcdi_check_timeout ty k s then efx_mcdi_timeout_cmd ty c s
        else Some (queue_delayed_work c (efx_mcdi_poll_interval k s) (kref_get c s)))"

text \<open>After the lock: drop the reference of the work item, then the cleanups.\<close>

definition efx_mcdi_cmd_work :: "efx_nic_type \<Rightarrow> cmd_ptr \<Rightarrow> bool \<Rightarrow> mcdi \<Rightarrow> mcdi option" where
  "efx_mcdi_cmd_work ty c copybuf s =
     do {
       s \<leftarrow> efx_mcdi_cmd_work_locked ty c copybuf s;
       Some (efx_mcdi_process_cleanup_list (cleanup s) (kref_put c (s\<lparr>cleanup := []\<rparr>)))
     }"

definition efx_mcdi_ev_cpl :: "efx_nic_type \<Rightarrow> nat \<Rightarrow> bool \<Rightarrow> mcdi \<Rightarrow> mcdi option" where
  "efx_mcdi_ev_cpl ty seqno copybuf s = map_option unlock_and_clean (efx_mcdi_ev_cpl_locked ty seqno copybuf s)"

definition efx_mcdi_ev_proxy_response :: "efx_nic_type \<Rightarrow> u32 \<Rightarrow> int \<Rightarrow> mcdi \<Rightarrow> mcdi option" where
  "efx_mcdi_ev_proxy_response ty h status s =
     map_option unlock_and_clean (efx_mcdi_ev_proxy_response_locked ty h status s)"

definition efx_mcdi_ev_death :: "efx_nic_type \<Rightarrow> bool \<Rightarrow> mcdi \<Rightarrow> mcdi" where
  "efx_mcdi_ev_death ty bist s = efx_mcdi_ev_death_locked ty bist s"

abbreviation MCDI_EVENT_CODE :: efx_field where "MCDI_EVENT_CODE \<equiv> (44, 8)"
abbreviation MCDI_EVENT_CMDDONE_SEQ :: efx_field where "MCDI_EVENT_CMDDONE_SEQ \<equiv> (0, 8)"
abbreviation MCDI_EVENT_PROXY_RESPONSE_HANDLE :: efx_field where
  "MCDI_EVENT_PROXY_RESPONSE_HANDLE \<equiv> (0, 32)"
abbreviation MCDI_EVENT_PROXY_RESPONSE_RC :: efx_field where
  "MCDI_EVENT_PROXY_RESPONSE_RC \<equiv> (36, 8)"

text \<open>
  \<open>efx_mcdi_process_event\<close>: the event is a 64-bit word; the result is whether it was handled.
  Power management and scheduler events are only logged.
\<close>

definition efx_mcdi_process_event :: "efx_nic_type \<Rightarrow> u64 \<Rightarrow> bool \<Rightarrow> mcdi \<Rightarrow> (bool \<times> mcdi) option" where
  "efx_mcdi_process_event ty event copybuf s =
     (let code = EFX_QWORD_FIELD event MCDI_EVENT_CODE in
      if code = 0x1 then Some (True, efx_mcdi_ev_death ty False s)
      else if code = 0x2 then Some (True, s)
      else if code = 0x3 then
        map_option (Pair True)
          (efx_mcdi_ev_cpl ty (unat (EFX_QWORD_FIELD event MCDI_EVENT_CMDDONE_SEQ)) copybuf s)
      else if code = 0x1d then
        map_option (Pair True)
          (efx_mcdi_ev_proxy_response ty (ucast (EFX_QWORD_FIELD event MCDI_EVENT_PROXY_RESPONSE_HANDLE))
             (uint (EFX_QWORD_FIELD event MCDI_EVENT_PROXY_RESPONSE_RC)) s)
      else if code = 0x6 then Some (True, s)
      else if code = 0x7 \<or> code = 0x15 then Some (True, efx_mcdi_ev_death ty False s)
      else if code = 0x19 then Some (True, efx_mcdi_ev_death ty True s)
      else Some (False, s))"

subsection \<open>Issuing commands\<close>

text \<open>The fields of a new command that \<open>efx_mcdi_rpc_async_internal\<close> resets before queueing it.\<close>

definition init_cmd :: "efx_mcdi_cmd \<Rightarrow> efx_mcdi_cmd" where
  "init_cmd k = k\<lparr>cmd_work := None, cmd_proxy_handle := 0, cmd_rc := 0, cmd_outbuf := None,
     cmd_outlen := 0\<rparr>"

text \<open>
  \<open>efx_mcdi_rpc_async_internal\<close> up to the release of the lock, for a command in the heap. The
  result is the return code, and the handle if the command was queued. \<open>efx->mcdi\<close> is not
  \<open>NULL\<close>: the state is there. \<open>copybuf\<close> tells whether the buffer of an immediate poll could be
  allocated (there is none without \<open>immediate_poll\<close>).
\<close>

definition efx_mcdi_rpc_async_internal_locked :: "efx_nic_type \<Rightarrow> cmd_ptr \<Rightarrow> bool \<Rightarrow> bool \<Rightarrow> bool \<Rightarrow> mcdi
    \<Rightarrow> (int \<times> u32 option \<times> mcdi) option" where
  "efx_mcdi_rpc_async_internal_locked ty c immediate_poll copybuf immediate_only s = (case cmds s c of
      None \<Rightarrow> Some (0, None, fault (Use_After_Free c) s)
    | Some k \<Rightarrow>
        let rc = efx_mcdi_check_supported ty (cmd_cmd k) (cmd_inlen k) in
        if rc \<noteq> 0 then Some (rc, None, kref_put c s)
        else if nic_mc_bist_for_other_fn (efx s) then Some (- ENETDOWN, None, kref_put c s)
        else
          let s = modify_cmd c init_cmd s in
          if mode s = MCDI_MODE_FAIL then Some (- ENETDOWN, None, kref_put c s)
          else
            let h = prev_handle s;
                s = modify_cmd c (\<lambda>k. k\<lparr>cmd_handle := h\<rparr>)
                      (s\<lparr>prev_handle := prev_handle s + 1, cmd_list := cmd_list s @ [c]\<rparr>);
                copybuf = (immediate_poll \<and> copybuf)
            in do {
              (rc, s) \<leftarrow> efx_mcdi_cmd_start_or_queue_ext ty (efx_mcdi_complete_cmd ty c copybuf)
                            c copybuf immediate_only s;
              Some (rc, Some h, if rc \<noteq> 0 then kref_put c (list_del_cmd c s) else s)
            })"

text \<open>
  \<open>efx_mcdi_rpc_async_ext\<close> and the allocation part of \<open>efx_mcdi_rpc_sync\<close>: a new command with one
  reference. The fields the code leaves uninitialised get arbitrary values (the argument
  \<open>junk\<close>).
\<close>

definition new_cmd :: "efx_mcdi_cmd \<Rightarrow> u32 \<Rightarrow> u8 list \<Rightarrow> nat option \<Rightarrow> nat option \<Rightarrow> nat \<Rightarrow> bool \<Rightarrow> mcdi
    \<Rightarrow> cmd_ptr \<times> mcdi" where
  "new_cmd junk cmd inbuf atomic_completer completer cookie quiet s =
     (next_cmd s,
      s\<lparr>next_cmd := next_cmd s + 1,
        cmds := (cmds s)(next_cmd s := Some (junk\<lparr>cmd_ref := 1, cmd_quiet := quiet, cmd_cookie := cookie,
          cmd_completer := completer, cmd_atomic_completer := atomic_completer, cmd_cmd := cmd,
          cmd_inlen := length inbuf, cmd_inbuf := inbuf\<rparr>))\<rparr>)"

definition efx_mcdi_rpc_async_ext :: "efx_nic_type \<Rightarrow> efx_mcdi_cmd \<Rightarrow> bool \<Rightarrow> u32 \<Rightarrow> u8 list \<Rightarrow> nat option
    \<Rightarrow> nat option \<Rightarrow> nat \<Rightarrow> bool \<Rightarrow> bool \<Rightarrow> mcdi \<Rightarrow> (int \<times> u32 option \<times> mcdi) option" where
  "efx_mcdi_rpc_async_ext ty junk alloc_ok cmd inbuf atomic_completer completer cookie quiet
      immediate_only s =
     (if \<not> alloc_ok then Some (- ENOMEM, None, s)
      else let (c, s) = new_cmd junk cmd inbuf atomic_completer completer cookie quiet s in
        do {
          (rc, h, s) \<leftarrow> efx_mcdi_rpc_async_internal_locked ty c False False immediate_only s;
          Some (rc, h, unlock_and_clean s)
        })"

text \<open>
  A blocking call: \<open>struct efx_mcdi_blocking_data\<close>, its completer, and what the caller returns
  when the wait ended (\<open>efx_mcdi_rpc_sync\<close> after \<open>wait_event_timeout\<close>).
\<close>

record efx_mcdi_blocking_data =
  bd_done :: bool
  bd_rc :: int
  bd_outbuf :: "u8 list"
  bd_outlen :: nat
  bd_outlen_actual :: nat

definition efx_mcdi_rpc_completer :: "int \<Rightarrow> u8 list option \<Rightarrow> nat \<Rightarrow> efx_mcdi_blocking_data
    \<Rightarrow> efx_mcdi_blocking_data" where
  "efx_mcdi_rpc_completer rc outbuf outlen_actual w =
     (let n = min outlen_actual (bd_outlen w);
          src = (case outbuf of None \<Rightarrow> [] | Some b \<Rightarrow> b) in
      w\<lparr>bd_rc := rc, bd_outbuf := take n src @ drop n (bd_outbuf w), bd_outlen_actual := outlen_actual,
        bd_done := True\<rparr>)"

text \<open>\<open>efx_mcdi_rpc_sync\<close> up to the wait: the completion function with number 0 is \<open>efx_mcdi_rpc_completer\<close>.\<close>

definition efx_mcdi_rpc_sync_start :: "efx_nic_type \<Rightarrow> efx_mcdi_cmd \<Rightarrow> bool \<Rightarrow> bool \<Rightarrow> bool \<Rightarrow> u32 \<Rightarrow> u8 list
    \<Rightarrow> nat \<Rightarrow> bool \<Rightarrow> mcdi \<Rightarrow> (int \<times> u32 option \<times> mcdi) option" where
  "efx_mcdi_rpc_sync_start ty junk wait_data_ok cmd_item_ok copybuf cmd inbuf wait_data quiet s =
     (if \<not> wait_data_ok \<or> \<not> cmd_item_ok then Some (- ENOMEM, None, s)
      else let (c, s) = new_cmd junk cmd inbuf None (Some 0) wait_data quiet s in
        do {
          (rc, h, s) \<leftarrow> efx_mcdi_rpc_async_internal_locked ty c True copybuf False s;
          Some (rc, h, unlock_and_clean s)
        })"

definition efx_mcdi_rpc_sync_finish :: "u32 \<Rightarrow> efx_mcdi_blocking_data \<Rightarrow> mcdi \<Rightarrow> int \<times> nat \<times> mcdi" where
  "efx_mcdi_rpc_sync_finish h w s =
     (if \<not> bd_done w then (- ETIMEDOUT, 0, efx_mcdi_cancel_cmd h s)
      else (bd_rc w, bd_outlen_actual w, s))"

end
