(* ===== verification/Mcdi_Inv.thy ===== *)
theory Mcdi_Inv
  imports Mcdi_Rpc
begin

section \<open>Invariants of the management interface\<close>

text \<open>
  What the functions of \<open>mcdi.c\<close> keep true of the interface state. \<open>mcdi_core\<close> says, for each
  command, that its reference count covers all references (the argument \<open>ext\<close> counts those held
  outside the state: running work items, cleanup lists of other threads, the running function
  itself), that a command on the list is live and unfinished, that a command which was sent and not
  yet answered holds the doorbell, that its request fits the protocol, and that its completion function was called as often as it
  should (\<open>acc\<close> is the set of accepted commands with a completer, \<open>pend\<close> counts those on
  cleanup lists of other threads); and that no memory fault was recorded. \<open>seq_ok\<close> is about the
  sequence numbers and \<open>fail_ok\<close> about the fail-fast mode.
\<close>

subsection \<open>The invariant\<close>

definition waiting :: "efx_mcdi_cmd \<Rightarrow> bool" where
  "waiting k \<longleftrightarrow> cmd_state k = MCDI_STATE_QUEUED \<or> cmd_state k = MCDI_STATE_RETRY"

fun is_completer :: "cmd_ptr \<Rightarrow> completion \<Rightarrow> bool" where
  "is_completer c (Completer d _ _ _ _) \<longleftrightarrow> c = d"
| "is_completer c (Atomic_Completer _ _ _ _ _) \<longleftrightarrow> False"

definition n_completed :: "mcdi \<Rightarrow> cmd_ptr \<Rightarrow> nat" where
  "n_completed s c = length (filter (is_completer c) (completions s))"

text \<open>Predicates on the state of a command do not depend on its other fields.\<close>

lemma state_pred_simps [simp]:
  "waiting (k\<lparr>cmd_ref := x0\<rparr>) = waiting k"
  "waiting (k\<lparr>cmd_work := x1\<rparr>) = waiting k"
  "waiting (k\<lparr>cmd_seq := x2\<rparr>) = waiting k"
  "waiting (k\<lparr>cmd_bufid := x3\<rparr>) = waiting k"
  "waiting (k\<lparr>cmd_polled := x4\<rparr>) = waiting k"
  "waiting (k\<lparr>cmd_reboot_seen := x5\<rparr>) = waiting k"
  "waiting (k\<lparr>cmd_started := x6\<rparr>) = waiting k"
  "waiting (k\<lparr>cmd_rc := x7\<rparr>) = waiting k"
  "waiting (k\<lparr>cmd_outbuf := x8\<rparr>) = waiting k"
  "waiting (k\<lparr>cmd_outlen := x9\<rparr>) = waiting k"
  "waiting (k\<lparr>cmd_proxy_handle := x10\<rparr>) = waiting k"
  "waiting (k\<lparr>cmd_handle := x11\<rparr>) = waiting k"
  "efx_cmd_cancelled (k\<lparr>cmd_ref := x0\<rparr>) = efx_cmd_cancelled k"
  "efx_cmd_cancelled (k\<lparr>cmd_work := x1\<rparr>) = efx_cmd_cancelled k"
  "efx_cmd_cancelled (k\<lparr>cmd_seq := x2\<rparr>) = efx_cmd_cancelled k"
  "efx_cmd_cancelled (k\<lparr>cmd_bufid := x3\<rparr>) = efx_cmd_cancelled k"
  "efx_cmd_cancelled (k\<lparr>cmd_polled := x4\<rparr>) = efx_cmd_cancelled k"
  "efx_cmd_cancelled (k\<lparr>cmd_reboot_seen := x5\<rparr>) = efx_cmd_cancelled k"
  "efx_cmd_cancelled (k\<lparr>cmd_started := x6\<rparr>) = efx_cmd_cancelled k"
  "efx_cmd_cancelled (k\<lparr>cmd_rc := x7\<rparr>) = efx_cmd_cancelled k"
  "efx_cmd_cancelled (k\<lparr>cmd_outbuf := x8\<rparr>) = efx_cmd_cancelled k"
  "efx_cmd_cancelled (k\<lparr>cmd_outlen := x9\<rparr>) = efx_cmd_cancelled k"
  "efx_cmd_cancelled (k\<lparr>cmd_proxy_handle := x10\<rparr>) = efx_cmd_cancelled k"
  "efx_cmd_cancelled (k\<lparr>cmd_handle := x11\<rparr>) = efx_cmd_cancelled k"
  "efx_cmd_running (k\<lparr>cmd_ref := x0\<rparr>) = efx_cmd_running k"
  "efx_cmd_running (k\<lparr>cmd_work := x1\<rparr>) = efx_cmd_running k"
  "efx_cmd_running (k\<lparr>cmd_seq := x2\<rparr>) = efx_cmd_running k"
  "efx_cmd_running (k\<lparr>cmd_bufid := x3\<rparr>) = efx_cmd_running k"
  "efx_cmd_running (k\<lparr>cmd_polled := x4\<rparr>) = efx_cmd_running k"
  "efx_cmd_running (k\<lparr>cmd_reboot_seen := x5\<rparr>) = efx_cmd_running k"
  "efx_cmd_running (k\<lparr>cmd_started := x6\<rparr>) = efx_cmd_running k"
  "efx_cmd_running (k\<lparr>cmd_rc := x7\<rparr>) = efx_cmd_running k"
  "efx_cmd_running (k\<lparr>cmd_outbuf := x8\<rparr>) = efx_cmd_running k"
  "efx_cmd_running (k\<lparr>cmd_outlen := x9\<rparr>) = efx_cmd_running k"
  "efx_cmd_running (k\<lparr>cmd_proxy_handle := x10\<rparr>) = efx_cmd_running k"
  "efx_cmd_running (k\<lparr>cmd_handle := x11\<rparr>) = efx_cmd_running k"
  by (simp_all add: waiting_def efx_cmd_cancelled_def efx_cmd_running_def)

lemma state_pred_states [simp]:
  "\<not> efx_cmd_cancelled (k\<lparr>cmd_state := MCDI_STATE_FINISHED\<rparr>)"
  "\<not> efx_cmd_cancelled (k\<lparr>cmd_state := MCDI_STATE_QUEUED\<rparr>)"
  "\<not> efx_cmd_cancelled (k\<lparr>cmd_state := MCDI_STATE_RETRY\<rparr>)"
  "\<not> efx_cmd_cancelled (k\<lparr>cmd_state := MCDI_STATE_RUNNING\<rparr>)"
  "\<not> efx_cmd_cancelled (k\<lparr>cmd_state := MCDI_STATE_PROXY\<rparr>)"
  "efx_cmd_cancelled (k\<lparr>cmd_state := MCDI_STATE_RUNNING_CANCELLED\<rparr>)"
  "efx_cmd_cancelled (k\<lparr>cmd_state := MCDI_STATE_PROXY_CANCELLED\<rparr>)"
  "waiting (k\<lparr>cmd_state := MCDI_STATE_QUEUED\<rparr>)"
  "waiting (k\<lparr>cmd_state := MCDI_STATE_RETRY\<rparr>)"
  "\<not> waiting (k\<lparr>cmd_state := MCDI_STATE_RUNNING\<rparr>)"
  "\<not> waiting (k\<lparr>cmd_state := MCDI_STATE_PROXY\<rparr>)"
  "\<not> waiting (k\<lparr>cmd_state := MCDI_STATE_RUNNING_CANCELLED\<rparr>)"
  "\<not> waiting (k\<lparr>cmd_state := MCDI_STATE_PROXY_CANCELLED\<rparr>)"
  by (simp_all add: waiting_def efx_cmd_cancelled_def)


lemma waiting_not_cancelled: "waiting k \<Longrightarrow> \<not> efx_cmd_cancelled k \<and> \<not> efx_cmd_running k"
  by (auto simp: waiting_def efx_cmd_cancelled_def efx_cmd_running_def)

text \<open>
  The condition on one command, over what the state says of it: its contents if it is live, whether
  it is on the list, how often on the cleanup list, the outside references and pending completions,
  whether it was accepted, how often its completer ran, whether it holds the doorbell, and whether
  its address was already allocated.
\<close>

definition cmd_live_ok :: "efx_mcdi_cmd \<Rightarrow> bool \<Rightarrow> nat \<Rightarrow> nat \<Rightarrow> bool \<Rightarrow> bool \<Rightarrow> bool" where
  "cmd_live_ok k inl cl ex ac db \<longleftrightarrow>
     of_bool inl + of_bool (cmd_work k \<noteq> None) + cl + ex \<le> cmd_ref k \<and> 0 < cmd_ref k \<and>
     (inl \<longrightarrow> cmd_state k \<noteq> MCDI_STATE_FINISHED) \<and>
     (\<not> inl \<longrightarrow> cmd_state k = MCDI_STATE_FINISHED \<or> efx_cmd_cancelled k) \<and>
     (inl \<and> \<not> waiting k \<longrightarrow> db \<and> cmd_seq k < 16) \<and>
     (inl \<longrightarrow> cmd_inlen k \<le> MCDI_CTL_SDU_LEN_MAX_V2) \<and>
     (cmd_completer k \<noteq> None \<longleftrightarrow> ac)"

definition cmd_okv :: "efx_mcdi_cmd option \<Rightarrow> bool \<Rightarrow> nat \<Rightarrow> nat \<Rightarrow> nat \<Rightarrow> bool \<Rightarrow> nat \<Rightarrow> bool \<Rightarrow> bool
    \<Rightarrow> bool" where
  "cmd_okv ko inl cl ex pe ac nc db old \<longleftrightarrow>
     (case ko of
        None \<Rightarrow> \<not> inl \<and> cl = 0 \<and> ex = 0 \<and> nc + pe = of_bool ac
      | Some k \<Rightarrow> old \<and> cmd_live_ok k inl cl ex ac db \<and>
          nc + cl + pe = of_bool (ac \<and> \<not> (inl \<and> \<not> efx_cmd_cancelled k))) \<and>
     (ac \<longrightarrow> old)"

definition cmd_ok :: "(cmd_ptr \<Rightarrow> nat) \<Rightarrow> (cmd_ptr \<Rightarrow> nat) \<Rightarrow> cmd_ptr set \<Rightarrow> mcdi \<Rightarrow> cmd_ptr \<Rightarrow> bool" where
  "cmd_ok ext pend acc s c \<longleftrightarrow>
     cmd_okv (cmds s c) (c \<in> set (cmd_list s)) (count_list (cleanup s) c) (ext c) (pend c) (c \<in> acc)
       (n_completed s c) (db_held_by s = Some c) (c < next_cmd s)"

definition mcdi_core :: "(cmd_ptr \<Rightarrow> nat) \<Rightarrow> (cmd_ptr \<Rightarrow> nat) \<Rightarrow> cmd_ptr set \<Rightarrow> mcdi \<Rightarrow> bool" where
  "mcdi_core ext pend acc s \<longleftrightarrow> (\<forall>c. cmd_ok ext pend acc s c) \<and> distinct (cmd_list s) \<and>
     length (seq_held_by s) = 16 \<and> prev_seq s < 16 \<and> faults s = []"

definition seq_ok :: "mcdi \<Rightarrow> bool" where
  "seq_ok s \<longleftrightarrow> (\<forall>i c. i < 16 \<longrightarrow> seq_held_by s ! i = Some c \<longrightarrow>
     c \<in> set (cmd_list s) \<and> (\<exists>k. cmds s c = Some k \<and> efx_cmd_running k \<and> cmd_seq k = i))"

definition fail_ok :: "mcdi \<Rightarrow> bool" where
  "fail_ok s \<longleftrightarrow> (mode s = MCDI_MODE_FAIL \<longrightarrow> cmd_list s = [])"

subsection \<open>Heap operations on a live command\<close>

lemma modify_cmd_live:
  "cmds s c = Some k \<Longrightarrow> modify_cmd c f s = s\<lparr>cmds := (cmds s)(c \<mapsto> f k)\<rparr>"
  by (simp add: modify_cmd_def)

lemma kref_get_live:
  "cmds s c = Some k \<Longrightarrow> kref_get c s = s\<lparr>cmds := (cmds s)(c \<mapsto> k\<lparr>cmd_ref := cmd_ref k + 1\<rparr>)\<rparr>"
  by (simp add: kref_get_def modify_cmd_def)

lemma kref_put_live:
  "cmds s c = Some k \<Longrightarrow> kref_put c s = s\<lparr>cmds := (cmds s)(c :=
     (if cmd_ref k \<le> 1 then None else Some (k\<lparr>cmd_ref := cmd_ref k - 1\<rparr>)))\<rparr>"
  by (simp add: kref_put_def)

lemmas live_simps = modify_cmd_live kref_get_live kref_put_live

lemma core_cmd_ok: "mcdi_core ext pend acc s \<Longrightarrow> cmd_ok ext pend acc s c"
  by (simp add: mcdi_core_def)

lemma core_faults: "mcdi_core ext pend acc s \<Longrightarrow> faults s = []"
  by (simp add: mcdi_core_def)

lemma core_live:
  assumes "mcdi_core ext pend acc s" and "c \<in> set (cmd_list s) \<or> 0 < ext c"
  shows "\<exists>k. cmds s c = Some k"
  using core_cmd_ok [OF assms(1), of c] assms(2)
  by (cases "cmds s c") (auto simp: cmd_ok_def cmd_okv_def)

lemma core_live_ok:
  assumes "mcdi_core ext pend acc s" and "cmds s c = Some k"
  shows "cmd_live_ok k (c \<in> set (cmd_list s)) (count_list (cleanup s) c) (ext c) (c \<in> acc)
    (db_held_by s = Some c)"
  using core_cmd_ok [OF assms(1), of c] assms(2) by (simp add: cmd_ok_def cmd_okv_def)

text \<open>
  The invariant is checked command by command: an operation on the command \<open>c\<close> leaves the
  conditions of the others as they were, and the condition of \<open>c\<close> is a goal about its contents.
\<close>

lemma core_updateI:
  assumes "mcdi_core ext pend acc s"
    and "\<And>d. d \<noteq> c \<Longrightarrow> cmds s' d = cmds s d \<and> (d \<in> set (cmd_list s') \<longleftrightarrow> d \<in> set (cmd_list s)) \<and>
      count_list (cleanup s') d = count_list (cleanup s) d \<and> ext' d = ext d \<and> pend' d = pend d \<and>
      (d \<in> acc' \<longleftrightarrow> d \<in> acc) \<and> n_completed s' d = n_completed s d \<and>
      (db_held_by s' = Some d \<longleftrightarrow> db_held_by s = Some d) \<and> (d < next_cmd s' \<longleftrightarrow> d < next_cmd s)"
    and "cmd_ok ext' pend' acc' s' c"
    and "distinct (cmd_list s')" and "length (seq_held_by s') = 16" and "prev_seq s' < 16"
    and "faults s' = []"
  shows "mcdi_core ext' pend' acc' s'"
  unfolding mcdi_core_def
proof (intro conjI allI)
  fix d
  show "cmd_ok ext' pend' acc' s' d"
  proof (cases "d = c")
    case True
    with assms(3) show ?thesis by simp
  next
    case False
    from core_cmd_ok [OF assms(1), of d] show ?thesis
      unfolding cmd_ok_def using assms(2) [OF False] by simp
  qed
qed (use assms in auto)

lemma core_basic:
  assumes "mcdi_core ext pend acc s"
  shows "distinct (cmd_list s)" "length (seq_held_by s) = 16" "prev_seq s < 16" "faults s = []"
  using assms by (auto simp: mcdi_core_def)

text \<open>Changing fields of a command that the invariant does not mention.\<close>

definition inv_neutral :: "efx_mcdi_cmd \<Rightarrow> efx_mcdi_cmd \<Rightarrow> bool" where
  "inv_neutral k k' \<longleftrightarrow> cmd_ref k' = cmd_ref k \<and> cmd_state k' = cmd_state k \<and>
     (cmd_work k' = None \<longleftrightarrow> cmd_work k = None) \<and> cmd_seq k' = cmd_seq k \<and>
     cmd_completer k' = cmd_completer k \<and> cmd_inlen k' = cmd_inlen k"

lemma neutral_state:
  assumes "inv_neutral k k'"
  shows "waiting k' = waiting k" "efx_cmd_cancelled k' = efx_cmd_cancelled k"
    "efx_cmd_running k' = efx_cmd_running k"
  using assms by (auto simp: inv_neutral_def waiting_def efx_cmd_cancelled_def efx_cmd_running_def)

lemma n_completed_simps [simp]:
  "n_completed (s\<lparr>cmds := h\<rparr>) d = n_completed s d"
  "n_completed (s\<lparr>cmd_list := l\<rparr>) d = n_completed s d"
  "n_completed (s\<lparr>cleanup := cl\<rparr>) d = n_completed s d"
  "n_completed (s\<lparr>efx := nic\<rparr>) d = n_completed s d"
  "n_completed (s\<lparr>seq_held_by := q\<rparr>) d = n_completed s d"
  "n_completed (s\<lparr>db_held_by := q'\<rparr>) d = n_completed s d"
  "n_completed (s\<lparr>prev_seq := n\<rparr>) d = n_completed s d"
  "n_completed (s\<lparr>mode := m\<rparr>) d = n_completed s d"
  "n_completed (s\<lparr>new_epoch := b\<rparr>) d = n_completed s d"
  "n_completed (s\<lparr>prev_handle := h'\<rparr>) d = n_completed s d"
  "n_completed (s\<lparr>next_cmd := m'\<rparr>) d = n_completed s d"
  "n_completed (s\<lparr>outstanding_cleanups := oc\<rparr>) d = n_completed s d"
  by (simp_all add: n_completed_def)

lemma core_neutral:
  assumes "mcdi_core ext pend acc s" and "cmds s c = Some k" and "inv_neutral k k'"
  shows "mcdi_core ext pend acc (s\<lparr>cmds := (cmds s)(c \<mapsto> k')\<rparr>)"
proof (rule core_updateI [OF assms(1), where c = c])
  show "cmd_ok ext pend acc (s\<lparr>cmds := (cmds s)(c \<mapsto> k')\<rparr>) c"
    using core_cmd_ok [OF assms(1), of c] assms(2,3) neutral_state [OF assms(3)]
    by (simp add: cmd_ok_def cmd_okv_def cmd_live_ok_def inv_neutral_def)
qed (use core_basic [OF assms(1)] in auto)

lemma seq_ok_neutral:
  assumes "seq_ok s" and "cmds s c = Some k" and "inv_neutral k k'"
  shows "seq_ok (s\<lparr>cmds := (cmds s)(c \<mapsto> k')\<rparr>)"
  using assms neutral_state [OF assms(3)] by (fastforce simp: seq_ok_def inv_neutral_def)

subsection \<open>Fields an operation leaves alone\<close>

lemma fault_frame [frame_simps, simp]:
  "efx (fault f s) = efx s"
  "next_cmd (fault f s) = next_cmd s"
  "outstanding_cleanups (fault f s) = outstanding_cleanups s"
  "cmd_list (fault f s) = cmd_list s"
  "db_held_by (fault f s) = db_held_by s"
  "seq_held_by (fault f s) = seq_held_by s"
  "prev_handle (fault f s) = prev_handle s"
  "mode (fault f s) = mode s"
  "prev_seq (fault f s) = prev_seq s"
  "new_epoch (fault f s) = new_epoch s"
  "cleanup (fault f s) = cleanup s"
  "completions (fault f s) = completions s"
  "cmds (fault f s) = cmds s"
  by (simp_all add: fault_def split: option.splits)

lemma modify_cmd_frame [frame_simps, simp]:
  "efx (modify_cmd c f s) = efx s"
  "next_cmd (modify_cmd c f s) = next_cmd s"
  "outstanding_cleanups (modify_cmd c f s) = outstanding_cleanups s"
  "cmd_list (modify_cmd c f s) = cmd_list s"
  "db_held_by (modify_cmd c f s) = db_held_by s"
  "seq_held_by (modify_cmd c f s) = seq_held_by s"
  "prev_handle (modify_cmd c f s) = prev_handle s"
  "mode (modify_cmd c f s) = mode s"
  "prev_seq (modify_cmd c f s) = prev_seq s"
  "new_epoch (modify_cmd c f s) = new_epoch s"
  "cleanup (modify_cmd c f s) = cleanup s"
  "completions (modify_cmd c f s) = completions s"
  by (simp_all add: modify_cmd_def split: option.splits)

lemma kref_get_frame [frame_simps, simp]:
  "efx (kref_get c s) = efx s"
  "next_cmd (kref_get c s) = next_cmd s"
  "outstanding_cleanups (kref_get c s) = outstanding_cleanups s"
  "cmd_list (kref_get c s) = cmd_list s"
  "db_held_by (kref_get c s) = db_held_by s"
  "seq_held_by (kref_get c s) = seq_held_by s"
  "prev_handle (kref_get c s) = prev_handle s"
  "mode (kref_get c s) = mode s"
  "prev_seq (kref_get c s) = prev_seq s"
  "new_epoch (kref_get c s) = new_epoch s"
  "cleanup (kref_get c s) = cleanup s"
  "completions (kref_get c s) = completions s"
  by (simp_all add: kref_get_def split: option.splits)

lemma kref_put_frame [frame_simps, simp]:
  "efx (kref_put c s) = efx s"
  "next_cmd (kref_put c s) = next_cmd s"
  "outstanding_cleanups (kref_put c s) = outstanding_cleanups s"
  "cmd_list (kref_put c s) = cmd_list s"
  "db_held_by (kref_put c s) = db_held_by s"
  "seq_held_by (kref_put c s) = seq_held_by s"
  "prev_handle (kref_put c s) = prev_handle s"
  "mode (kref_put c s) = mode s"
  "prev_seq (kref_put c s) = prev_seq s"
  "new_epoch (kref_put c s) = new_epoch s"
  "cleanup (kref_put c s) = cleanup s"
  "completions (kref_put c s) = completions s"
  by (simp_all add: kref_put_def split: option.splits)

lemma queue_delayed_work_frame [frame_simps, simp]:
  "efx (queue_delayed_work c d s) = efx s"
  "next_cmd (queue_delayed_work c d s) = next_cmd s"
  "outstanding_cleanups (queue_delayed_work c d s) = outstanding_cleanups s"
  "cmd_list (queue_delayed_work c d s) = cmd_list s"
  "db_held_by (queue_delayed_work c d s) = db_held_by s"
  "seq_held_by (queue_delayed_work c d s) = seq_held_by s"
  "prev_handle (queue_delayed_work c d s) = prev_handle s"
  "mode (queue_delayed_work c d s) = mode s"
  "prev_seq (queue_delayed_work c d s) = prev_seq s"
  "new_epoch (queue_delayed_work c d s) = new_epoch s"
  "cleanup (queue_delayed_work c d s) = cleanup s"
  "completions (queue_delayed_work c d s) = completions s"
  by (simp_all add: queue_delayed_work_def split: option.splits)

lemma cancel_work_and_put_frame [frame_simps, simp]:
  "efx (cancel_work_and_put c s) = efx s"
  "next_cmd (cancel_work_and_put c s) = next_cmd s"
  "outstanding_cleanups (cancel_work_and_put c s) = outstanding_cleanups s"
  "cmd_list (cancel_work_and_put c s) = cmd_list s"
  "db_held_by (cancel_work_and_put c s) = db_held_by s"
  "seq_held_by (cancel_work_and_put c s) = seq_held_by s"
  "prev_handle (cancel_work_and_put c s) = prev_handle s"
  "mode (cancel_work_and_put c s) = mode s"
  "prev_seq (cancel_work_and_put c s) = prev_seq s"
  "new_epoch (cancel_work_and_put c s) = new_epoch s"
  "cleanup (cancel_work_and_put c s) = cleanup s"
  "completions (cancel_work_and_put c s) = completions s"
  by (simp_all add: cancel_work_and_put_def split: option.splits)

lemma efx_schedule_reset_frame [frame_simps, simp]:
  "next_cmd (efx_schedule_reset t s) = next_cmd s"
  "outstanding_cleanups (efx_schedule_reset t s) = outstanding_cleanups s"
  "cmd_list (efx_schedule_reset t s) = cmd_list s"
  "db_held_by (efx_schedule_reset t s) = db_held_by s"
  "seq_held_by (efx_schedule_reset t s) = seq_held_by s"
  "prev_handle (efx_schedule_reset t s) = prev_handle s"
  "mode (efx_schedule_reset t s) = mode s"
  "prev_seq (efx_schedule_reset t s) = prev_seq s"
  "new_epoch (efx_schedule_reset t s) = new_epoch s"
  "cleanup (efx_schedule_reset t s) = cleanup s"
  "completions (efx_schedule_reset t s) = completions s"
  "cmds (efx_schedule_reset t s) = cmds s"
  "faults (efx_schedule_reset t s) = faults s"
  by (simp_all add: efx_schedule_reset_def split: option.splits)

lemma remove_cmd_1_frame [frame_simps, simp]:
  "efx (efx_mcdi_remove_cmd_1 c s) = efx s"
  "next_cmd (efx_mcdi_remove_cmd_1 c s) = next_cmd s"
  "cmd_list (efx_mcdi_remove_cmd_1 c s) = cmd_list s"
  "db_held_by (efx_mcdi_remove_cmd_1 c s) = db_held_by s"
  "seq_held_by (efx_mcdi_remove_cmd_1 c s) = seq_held_by s"
  "prev_handle (efx_mcdi_remove_cmd_1 c s) = prev_handle s"
  "mode (efx_mcdi_remove_cmd_1 c s) = mode s"
  "prev_seq (efx_mcdi_remove_cmd_1 c s) = prev_seq s"
  "new_epoch (efx_mcdi_remove_cmd_1 c s) = new_epoch s"
  by (simp_all add: efx_mcdi_remove_cmd_1_def Let_def split: option.splits)

lemma list_del_cmd_frame [frame_simps, simp]:
  "efx (list_del_cmd c s) = efx s"
  "next_cmd (list_del_cmd c s) = next_cmd s"
  "outstanding_cleanups (list_del_cmd c s) = outstanding_cleanups s"
  "db_held_by (list_del_cmd c s) = db_held_by s"
  "seq_held_by (list_del_cmd c s) = seq_held_by s"
  "prev_handle (list_del_cmd c s) = prev_handle s"
  "mode (list_del_cmd c s) = mode s"
  "prev_seq (list_del_cmd c s) = prev_seq s"
  "new_epoch (list_del_cmd c s) = new_epoch s"
  "cleanup (list_del_cmd c s) = cleanup s"
  "completions (list_del_cmd c s) = completions s"
  "cmds (list_del_cmd c s) = cmds s"
  by (simp_all add: list_del_cmd_def split: option.splits)

lemma remove_cmd_frame [frame_simps, simp]:
  "efx (efx_mcdi_remove_cmd c s) = efx s"
  "next_cmd (efx_mcdi_remove_cmd c s) = next_cmd s"
  "db_held_by (efx_mcdi_remove_cmd c s) = db_held_by s"
  "seq_held_by (efx_mcdi_remove_cmd c s) = seq_held_by s"
  "prev_handle (efx_mcdi_remove_cmd c s) = prev_handle s"
  "mode (efx_mcdi_remove_cmd c s) = mode s"
  "prev_seq (efx_mcdi_remove_cmd c s) = prev_seq s"
  "new_epoch (efx_mcdi_remove_cmd c s) = new_epoch s"
  by (simp_all add: efx_mcdi_remove_cmd_def split: option.splits)

lemma n_completed_frame [simp]:
  "n_completed (fault f s) d = n_completed s d"
  "n_completed (kref_get c s) d = n_completed s d"
  "n_completed (kref_put c s) d = n_completed s d"
  "n_completed (modify_cmd c g s) d = n_completed s d"
  "n_completed (efx_schedule_reset t s) d = n_completed s d"
  by (simp_all add: n_completed_def)

subsection \<open>References\<close>

lemma core_kref_get:
  assumes "mcdi_core ext pend acc s" and "cmds s c = Some k"
  shows "mcdi_core (ext(c := ext c + 1)) pend acc (kref_get c s)"
proof (rule core_updateI [OF assms(1), where c = c])
  show "cmd_ok (ext(c := ext c + 1)) pend acc (kref_get c s) c"
    using core_cmd_ok [OF assms(1), of c] assms(2)
    by (simp add: cmd_ok_def cmd_okv_def cmd_live_ok_def live_simps)
qed (use core_basic [OF assms(1)] assms(2) in \<open>auto simp: live_simps\<close>)

lemma core_kref_put:
  assumes "mcdi_core ext pend acc s" and "0 < ext c"
  shows "mcdi_core (ext(c := ext c - 1)) pend acc (kref_put c s)"
proof (rule core_updateI [OF assms(1), where c = c])
  obtain k where k: "cmds s c = Some k"
    using core_live [OF assms(1)] assms(2) by blast
  show "cmd_ok (ext(c := ext c - 1)) pend acc (kref_put c s) c"
    using core_cmd_ok [OF assms(1), of c] k assms(2)
    by (auto simp: cmd_ok_def cmd_okv_def cmd_live_ok_def live_simps
        split: if_splits)
  show "faults (kref_put c s) = []"
    using core_basic [OF assms(1)] k by (simp add: live_simps)
qed (use core_basic [OF assms(1)] core_live [OF assms(1)] assms(2) in \<open>auto simp: kref_put_def split: option.splits\<close>)

text \<open>A reference taken for the work queue is covered whether or not the work was pending.\<close>

lemma core_queue_work:
  assumes "mcdi_core (ext(c := ext c + 1)) pend acc s"
  shows "mcdi_core ext pend acc (queue_delayed_work c d s)"
proof -
  obtain k where k: "cmds s c = Some k"
    using core_live [OF assms, of c] by auto
  show ?thesis
  proof (rule core_updateI [OF assms, where c = c])
    show "cmd_ok ext pend acc (queue_delayed_work c d s) c"
      using core_cmd_ok [OF assms, of c] k
      by (auto simp: cmd_ok_def cmd_okv_def cmd_live_ok_def queue_delayed_work_def live_simps n_completed_def split: option.splits)
  qed (use core_basic [OF assms] k in \<open>auto simp: queue_delayed_work_def live_simps n_completed_def\<close>)
qed

lemma core_get_queue_work:
  assumes "mcdi_core ext pend acc s" and "cmds s c = Some k"
  shows "mcdi_core ext pend acc (queue_delayed_work c d (kref_get c s))"
  using core_queue_work core_kref_get [OF assms] by blast

lemma core_work_clear:
  assumes "mcdi_core ext pend acc s" and "cmds s c = Some k" and "cmd_work k \<noteq> None"
  shows "mcdi_core (ext(c := ext c + 1)) pend acc (modify_cmd c (\<lambda>k. k\<lparr>cmd_work := None\<rparr>) s)"
proof (rule core_updateI [OF assms(1), where c = c])
  show "cmd_ok (ext(c := ext c + 1)) pend acc (modify_cmd c (\<lambda>k. k\<lparr>cmd_work := None\<rparr>) s) c"
    using core_cmd_ok [OF assms(1), of c] assms(2,3)
    by (simp add: cmd_ok_def cmd_okv_def cmd_live_ok_def live_simps)
qed (use core_basic [OF assms(1)] assms(2) in \<open>auto simp: live_simps\<close>)

lemma core_cancel_work:
  assumes "mcdi_core ext pend acc s"
  shows "mcdi_core ext pend acc (cancel_work_and_put c s)"
proof (cases "work_pending s c")
  case False
  with assms show ?thesis by (simp add: cancel_work_and_put_def)
next
  case True
  then obtain k where "cmds s c = Some k" "cmd_work k \<noteq> None"
    by (auto simp: work_pending_def split: option.splits)
  from core_kref_put [OF core_work_clear [OF assms this], of c] True show ?thesis
    by (simp add: cancel_work_and_put_def)
qed

subsection \<open>Removing and cancelling\<close>

definition notifies :: "efx_mcdi_cmd \<Rightarrow> bool" where
  "notifies k \<longleftrightarrow> \<not> efx_cmd_cancelled k \<and> cmd_completer k \<noteq> None"

definition atomic_call :: "cmd_ptr \<Rightarrow> efx_mcdi_cmd \<Rightarrow> completion list" where
  "atomic_call c k = (if efx_cmd_cancelled k \<or> cmd_atomic_completer k = None then []
     else [Atomic_Completer c (cmd_cookie k) (cmd_rc k) (cmd_outbuf k) (cmd_outlen k)])"

lemma remove_cmd_1_eq:
  assumes "cmds s c = Some k"
  shows "efx_mcdi_remove_cmd_1 c s = s\<lparr>completions := completions s @ atomic_call c k,
     cleanup := cleanup s @ (if notifies k then [c] else []),
     outstanding_cleanups := outstanding_cleanups s + of_bool (notifies k),
     cmds := (cmds s)(c \<mapsto> k\<lparr>cmd_ref := cmd_ref k + of_bool (notifies k)\<rparr>)\<rparr>"
  using assms
  by (auto simp: efx_mcdi_remove_cmd_1_def Let_def notifies_def atomic_call_def kref_get_def
      modify_cmd_def fun_upd_idem)

lemma filter_atomic_call [simp]: "filter (is_completer d) (atomic_call c k) = []"
  by (simp add: atomic_call_def)

lemma core_remove_cmd:
  assumes core: "mcdi_core ext pend acc s" and c: "c \<in> set (cmd_list s)"
  shows "mcdi_core ext pend acc (efx_mcdi_remove_cmd c s)"
    and "cmd_list (efx_mcdi_remove_cmd c s) = remove1 c (cmd_list s)"
    and "d \<noteq> c \<Longrightarrow> cmds (efx_mcdi_remove_cmd c s) d = cmds s d"
proof -
  obtain k where k: "cmds s c = Some k"
    using core_live [OF core] c by blast
  let ?k' = "k\<lparr>cmd_ref := cmd_ref k + of_bool (notifies k), cmd_state := MCDI_STATE_FINISHED\<rparr>"
  have eq: "efx_mcdi_remove_cmd c s = s\<lparr>cmd_list := remove1 c (cmd_list s),
     completions := completions s @ atomic_call c k,
     cleanup := cleanup s @ (if notifies k then [c] else []),
     outstanding_cleanups := outstanding_cleanups s + of_bool (notifies k),
     cmds := (cmds s)(c := (if cmd_ref ?k' \<le> 1 then None
        else Some (?k'\<lparr>cmd_ref := cmd_ref ?k' - 1\<rparr>)))\<rparr>"
    using c k by (simp add: efx_mcdi_remove_cmd_def list_del_cmd_def remove_cmd_1_eq live_simps)
  show "mcdi_core ext pend acc (efx_mcdi_remove_cmd c s)"
  proof (rule core_updateI [OF core, where c = c])
    show "cmd_ok ext pend acc (efx_mcdi_remove_cmd c s) c"
      using core_cmd_ok [OF core, of c] k c core_basic(1) [OF core]
      by (auto simp: cmd_ok_def cmd_okv_def cmd_live_ok_def eq n_completed_def notifies_def split: if_splits)
    show "distinct (cmd_list (efx_mcdi_remove_cmd c s))"
      using core_basic [OF core] by (simp add: eq)
    show "faults (efx_mcdi_remove_cmd c s) = []"
      using core_basic [OF core] by (simp add: eq)
  qed (use core_basic [OF core] in \<open>auto simp: eq n_completed_def\<close>)
  show "cmd_list (efx_mcdi_remove_cmd c s) = remove1 c (cmd_list s)"
    by (simp add: eq)
  show "cmds (efx_mcdi_remove_cmd c s) d = cmds s d" if "d \<noteq> c"
    using that by (simp add: eq)
qed

text \<open>The control fields that removing and cancelling commands leave alone.\<close>

definition ctl_same :: "mcdi \<Rightarrow> mcdi \<Rightarrow> bool" where
  "ctl_same s s' \<longleftrightarrow> mode s' = mode s \<and> db_held_by s' = db_held_by s \<and> seq_held_by s' = seq_held_by s \<and>
     prev_seq s' = prev_seq s \<and> next_cmd s' = next_cmd s \<and> efx s' = efx s \<and> prev_handle s' = prev_handle s"

lemma ctl_same_refl [simp]: "ctl_same s s"
  by (simp add: ctl_same_def)

lemma ctl_same_trans [trans]: "ctl_same s s' \<Longrightarrow> ctl_same s' s'' \<Longrightarrow> ctl_same s s''"
  by (simp add: ctl_same_def)

lemma ctl_same_simps [simp]:
  "ctl_same s (efx_mcdi_remove_cmd c s') = ctl_same s s'"
  "ctl_same s (efx_mcdi_remove_cmd_1 c s') = ctl_same s s'"
  "ctl_same s (modify_cmd c f s') = ctl_same s s'"
  "ctl_same s (s'\<lparr>cmds := h\<rparr>) = ctl_same s s'"
  by (simp_all add: ctl_same_def)

lemma core_modify_neutral:
  assumes "mcdi_core ext pend acc s" and "c \<in> set (cmd_list s) \<or> 0 < ext c"
    and "\<And>k. inv_neutral k (f k)"
  shows "mcdi_core ext pend acc (modify_cmd c f s)"
  using core_live [OF assms(1,2)] core_neutral [OF assms(1)] assms(3) by (auto simp: live_simps)

lemma core_cancel_sent:
  assumes core: "mcdi_core ext pend acc s" and c: "c \<in> set (cmd_list s)" and k: "cmds s c = Some k"
    and st: "(cmd_state k = MCDI_STATE_RUNNING \<and> st' = MCDI_STATE_RUNNING_CANCELLED) \<or>
       (cmd_state k = MCDI_STATE_PROXY \<and> st' = MCDI_STATE_PROXY_CANCELLED)"
  shows "mcdi_core ext pend acc
     (modify_cmd c (\<lambda>k. k\<lparr>cmd_state := st'\<rparr>) (efx_mcdi_remove_cmd_1 c s))"
proof -
  have nc: "\<not> efx_cmd_cancelled k" "\<not> waiting k"
    using st by (auto simp: efx_cmd_cancelled_def waiting_def)
  have canc: "efx_cmd_cancelled (k'\<lparr>cmd_state := st'\<rparr>)" "\<not> waiting (k'\<lparr>cmd_state := st'\<rparr>)"
    "st' \<noteq> MCDI_STATE_FINISHED" for k'
    using st by auto
  have eq: "modify_cmd c (\<lambda>k. k\<lparr>cmd_state := st'\<rparr>) (efx_mcdi_remove_cmd_1 c s) =
     s\<lparr>completions := completions s @ atomic_call c k,
       cleanup := cleanup s @ (if notifies k then [c] else []),
       outstanding_cleanups := outstanding_cleanups s + of_bool (notifies k),
       cmds := (cmds s)(c \<mapsto> k\<lparr>cmd_ref := cmd_ref k + of_bool (notifies k), cmd_state := st'\<rparr>)\<rparr>"
    using k by (simp add: remove_cmd_1_eq live_simps)
  show ?thesis
    unfolding eq
  proof (rule core_updateI [OF core, where c = c], goal_cases)
    case 2
    show ?case
      using core_cmd_ok [OF core, of c] k c nc canc
      by (auto simp: cmd_ok_def cmd_okv_def cmd_live_ok_def n_completed_def notifies_def)
  qed (use core_basic [OF core] in \<open>auto simp: n_completed_def\<close>)
qed

lemma inv_neutral_rc [simp]: "inv_neutral k (k\<lparr>cmd_rc := r\<rparr>)"
  by (simp add: inv_neutral_def)

lemma core_cancel_one:
  assumes core: "mcdi_core ext pend acc s" and c: "c \<in> set (cmd_list s)" and k: "cmds s c = Some k"
  shows "mcdi_core ext pend acc (cancel_one c s)" and "ctl_same s (cancel_one c s)"
    and "cmd_list (cancel_one c s) = (if waiting k then remove1 c (cmd_list s) else cmd_list s)"
    and "d \<noteq> c \<Longrightarrow> cmds (cancel_one c s) d = cmds s d"
    and "\<not> waiting k \<Longrightarrow> \<exists>k'. cmds (cancel_one c s) c = Some k' \<and> cmd_seq k' = cmd_seq k \<and>
      efx_cmd_running k' = efx_cmd_running k \<and> \<not> waiting k'"
proof -
  have ls: "mcdi_core ext pend acc (modify_cmd c (cmd_rc_update (\<lambda>_. r)) s)" for r
    by (rule core_modify_neutral [OF core]) (use c in auto)
  let ?s = "modify_cmd c (cmd_rc_update (\<lambda>_. - EPIPE)) s"
  have k': "cmds ?s c = Some (k\<lparr>cmd_rc := - EPIPE\<rparr>)" and c': "c \<in> set (cmd_list ?s)"
    using k c by (auto simp: live_simps)
  have fin: "cmd_state k \<noteq> MCDI_STATE_FINISHED"
    using core_live_ok [OF core k] c by (simp add: cmd_live_ok_def)
  note rm = core_remove_cmd [OF ls [of "- EPIPE"] c']
  have cs: "cmds ?s d = cmds s d" if "d \<noteq> c" for d
    using that k by (simp add: live_simps)
  have cs1: "cmds (efx_mcdi_remove_cmd_1 c ?s) d = cmds s d" if "d \<noteq> c" for d
    using that k by (simp add: live_simps remove_cmd_1_eq)
  have cs2: "cmds (modify_cmd c f t) d = cmds t d" if "d \<noteq> c" for f t d
    using that by (simp add: modify_cmd_def split: option.splits)
  have sent: "mcdi_core ext pend acc
      (modify_cmd c (cmd_state_update (\<lambda>_. st')) (efx_mcdi_remove_cmd_1 c ?s))"
    if "(cmd_state k = MCDI_STATE_RUNNING \<and> st' = MCDI_STATE_RUNNING_CANCELLED) \<or>
       (cmd_state k = MCDI_STATE_PROXY \<and> st' = MCDI_STATE_PROXY_CANCELLED)" for st'
    using core_cancel_sent [OF ls [of "- EPIPE"] c' k'] that by simp
  have live: "cmds (modify_cmd c f (efx_mcdi_remove_cmd_1 c ?s)) c =
      Some (f (k\<lparr>cmd_rc := - EPIPE, cmd_ref := cmd_ref k + of_bool (notifies (k\<lparr>cmd_rc := - EPIPE\<rparr>))\<rparr>))" for f
    using k' by (simp add: remove_cmd_1_eq live_simps)
  show "mcdi_core ext pend acc (cancel_one c s)"
    using k fin core sent rm(1) by (simp add: cancel_one_def split: efx_mcdi_cmd_state.split)
  show "ctl_same s (cancel_one c s)"
    using k by (simp add: cancel_one_def split: efx_mcdi_cmd_state.split)
  show "cmd_list (cancel_one c s) = (if waiting k then remove1 c (cmd_list s) else cmd_list s)"
    using k fin rm(2) by (simp add: cancel_one_def waiting_def split: efx_mcdi_cmd_state.split)
  show "cmds (cancel_one c s) d = cmds s d" if "d \<noteq> c"
    using k that rm(3) [OF that] cs cs1 cs2
    by (simp add: cancel_one_def split: efx_mcdi_cmd_state.split)
  show "\<exists>k'. cmds (cancel_one c s) c = Some k' \<and> cmd_seq k' = cmd_seq k \<and>
      efx_cmd_running k' = efx_cmd_running k \<and> \<not> waiting k'" if "\<not> waiting k"
    using k that live fin
    by (cases "cmd_state k") (auto simp: cancel_one_def waiting_def efx_cmd_running_def)
qed

subsection \<open>Fail-fast mode\<close>

lemma cancel_first:
  assumes "cmd_list s = c # cs" and "cmds s c = Some k"
  shows "efx_mcdi_cancel_cmd_1 (cmd_handle k) s = cancel_one c s"
  using assms by (simp add: efx_mcdi_cancel_cmd_1_def has_handle_def)

lemma mode_fail_loop_waiting:
  assumes "mcdi_core ext pend acc s"
    and "\<forall>c\<in>set (cmd_list s). \<forall>k. cmds s c = Some k \<longrightarrow> waiting k"
  shows "\<exists>s'. mode_fail_loop s = Some s' \<and> mcdi_core ext pend acc s' \<and> ctl_same s s' \<and>
    cmd_list s' = [] \<and> (\<forall>d. d \<notin> set (cmd_list s) \<longrightarrow> cmds s' d = cmds s d)"
  using assms
proof (induction "cmd_list s" arbitrary: s)
  case Nil
  then show ?case by (auto simp: mode_fail_loop.simps)
next
  case (Cons c cs)
  note core = Cons.prems(1) and lst = Cons.hyps(2) [symmetric]
  have c: "c \<in> set (cmd_list s)" by (simp add: lst)
  obtain k where k: "cmds s c = Some k"
    using core_live [OF core] c by blast
  have w: "waiting k"
    using Cons.prems(2) c k by blast
  let ?t = "cancel_one c s"
  note one = core_cancel_one [OF core c k]
  have tl: "cs = cmd_list ?t"
    using one(3) w lst by simp
  have dist: "c \<notin> set cs"
    using core_basic(1) [OF core] by (simp add: lst)
  have "\<forall>d\<in>set (cmd_list ?t). \<forall>k. cmds ?t d = Some k \<longrightarrow> waiting k"
    using Cons.prems(2) one(4) dist by (auto simp flip: tl simp: lst) metis
  from Cons.hyps(1) [OF tl one(1) this] obtain s' where s': "mode_fail_loop ?t = Some s'"
    "mcdi_core ext pend acc s'" "ctl_same ?t s'" "cmd_list s' = []"
    "\<forall>d. d \<notin> set (cmd_list ?t) \<longrightarrow> cmds s' d = cmds ?t d"
    by blast
  have "mode_fail_loop s = Some s'"
    using s'(1) by (subst mode_fail_loop.simps) (simp add: lst k cancel_first [OF lst k])
  moreover have "cmds s' d = cmds s d" if "d \<notin> set (cmd_list s)" for d
    using that s'(5) one(4) [of d] by (auto simp: lst simp flip: tl)
  ultimately show ?case
    using s' one(2) by (auto intro: ctl_same_trans)
qed

text \<open>A command that was sent stays on the list when it is cancelled: the loop never ends.\<close>

lemma mode_fail_loop_returns_waiting:
  assumes "mode_fail_loop s = Some r" and "mcdi_core ext pend acc s"
  shows "\<forall>c\<in>set (cmd_list s). \<forall>k. cmds s c = Some k \<longrightarrow> waiting k"
proof -
  let ?P = "\<lambda>s r. mcdi_core ext pend acc s \<longrightarrow>
    (\<forall>c\<in>set (cmd_list s). \<forall>k. cmds s c = Some k \<longrightarrow> waiting k)"
  have "?P s r"
  proof (rule mode_fail_loop.raw_induct [where P = ?P, OF _ assms(1)], intro impI ballI allI)
  fix f :: "mcdi \<Rightarrow> mcdi option" and s r c k
  assume IH: "\<And>s r. f s = Some r \<Longrightarrow> ?P s r"
    and eq: "(case cmd_list s of [] \<Rightarrow> Some s
      | c # list \<Rightarrow> (case cmds s c of None \<Rightarrow> Some (fault (Use_After_Free c) s)
        | Some k \<Rightarrow> f (efx_mcdi_cancel_cmd_1 (cmd_handle k) s))) = Some r"
    and core: "mcdi_core ext pend acc s" and c: "c \<in> set (cmd_list s)" and k: "cmds s c = Some k"
  obtain d ds where lst: "cmd_list s = d # ds"
    using c by (cases "cmd_list s") auto
  then have d: "d \<in> set (cmd_list s)" by simp
  obtain kd where kd: "cmds s d = Some kd"
    using core_live [OF core] d by blast
  note one = core_cancel_one [OF core d kd]
  have "f (cancel_one d s) = Some r"
    using eq by (simp add: lst kd cancel_first [OF lst kd])
  from IH [OF this] one(1)
  have all: "\<forall>c\<in>set (cmd_list (cancel_one d s)). \<forall>k. cmds (cancel_one d s) c = Some k \<longrightarrow> waiting k"
    by blast
  have wd: "waiting kd"
  proof (rule ccontr)
    assume "\<not> waiting kd"
    with one(3) one(5) all d show False by (metis (full_types))
  qed
  show "waiting k"
  proof (cases "c = d")
    case True
    with wd k kd show ?thesis by simp
  next
    case False
    then have "c \<in> set (cmd_list (cancel_one d s))" "cmds (cancel_one d s) c = Some k"
      using c k wd one(3) one(4) [OF False] by (auto simp: lst)
    with all show ?thesis by blast
  qed
  qed
  then show ?thesis using assms(2) by simp
qed

text \<open>With the command that holds the doorbell gone from the list, the rest is waiting.\<close>

lemma core_rest_waiting:
  assumes core: "mcdi_core ext pend acc s" and c: "c \<notin> set (cmd_list s)"
    and db: "db_held_by s = Some c \<or> db_held_by s = None"
  shows "\<forall>d\<in>set (cmd_list s). \<forall>k. cmds s d = Some k \<longrightarrow> waiting k"
proof (intro ballI allI impI)
  fix d k
  assume d: "d \<in> set (cmd_list s)" and k: "cmds s d = Some k"
  have "\<not> waiting k \<longrightarrow> db_held_by s = Some d"
    using core_live_ok [OF core k] d by (simp add: cmd_live_ok_def)
  with d c db show "waiting k" by auto
qed

lemma core_mode [simp]: "mcdi_core ext pend acc (s\<lparr>mode := m\<rparr>) = mcdi_core ext pend acc s"
  by (simp add: mcdi_core_def cmd_ok_def)

lemma core_efx [simp]: "mcdi_core ext pend acc (s\<lparr>efx := nic\<rparr>) = mcdi_core ext pend acc s"
  by (simp add: mcdi_core_def cmd_ok_def)

lemma core_new_epoch [simp]: "mcdi_core ext pend acc (s\<lparr>new_epoch := b\<rparr>) = mcdi_core ext pend acc s"
  by (simp add: mcdi_core_def cmd_ok_def)

lemma core_prev_handle [simp]: "mcdi_core ext pend acc (s\<lparr>prev_handle := h\<rparr>) = mcdi_core ext pend acc s"
  by (simp add: mcdi_core_def cmd_ok_def)

lemma core_outstanding [simp]:
  "mcdi_core ext pend acc (s\<lparr>outstanding_cleanups := n\<rparr>) = mcdi_core ext pend acc s"
  by (simp add: mcdi_core_def cmd_ok_def)

lemma core_schedule_reset [simp]:
  "mcdi_core ext pend acc (efx_schedule_reset t s) = mcdi_core ext pend acc s"
  by (simp add: efx_schedule_reset_def)

lemma mode_fail_after_remove:
  assumes core: "mcdi_core ext pend acc s" and c: "c \<in> set (cmd_list s)"
    and db: "db_held_by s = Some c"
  shows "\<exists>s'. efx_mcdi_mode_fail (efx_mcdi_remove_cmd c s) = Some s' \<and> mcdi_core ext pend acc s' \<and>
    mode s' = MCDI_MODE_FAIL \<and> cmd_list s' = [] \<and> seq_held_by s' = seq_held_by s \<and>
    (\<forall>d. d \<notin> set (cmd_list s) \<longrightarrow> cmds s' d = cmds s d) \<and> next_cmd s' = next_cmd s \<and>
    cmds s' c = cmds (efx_mcdi_remove_cmd c s) c"
proof -
  note rm = core_remove_cmd [OF core c]
  let ?t = "efx_mcdi_remove_cmd c s\<lparr>mode := MCDI_MODE_FAIL\<rparr>"
  have nin: "c \<notin> set (cmd_list (efx_mcdi_remove_cmd c s))"
    using rm(2) core_basic(1) [OF core] by simp
  have "\<forall>d\<in>set (cmd_list ?t). \<forall>k. cmds ?t d = Some k \<longrightarrow> waiting k"
    using core_rest_waiting [OF rm(1) nin] db by simp
  moreover have "mcdi_core ext pend acc ?t"
    using rm(1) by simp
  ultimately obtain s' where s': "mode_fail_loop ?t = Some s'" "mcdi_core ext pend acc s'"
    "ctl_same ?t s'" "cmd_list s' = []" "\<forall>d. d \<notin> set (cmd_list ?t) \<longrightarrow> cmds s' d = cmds ?t d"
    using mode_fail_loop_waiting by blast
  have "cmds s' d = cmds s d" if "d \<notin> set (cmd_list s)" for d
  proof -
    have "d \<noteq> c" and "d \<notin> set (cmd_list ?t)"
      using that c rm(2) by (auto dest: in_set_remove1 [THEN iffD1, rotated] notin_set_remove1)
    with s'(5) rm(3) show ?thesis by simp
  qed
  with s' nin show ?thesis
    by (auto simp: efx_mcdi_mode_fail_def ctl_same_def)
qed

end
