(* ===== verification/Mcdi_Safe.thy ===== *)
theory Mcdi_Safe
  imports Mcdi_Inv
begin

section \<open>Every operation keeps the invariants\<close>

text \<open>
  The operations of \<open>mcdi.c\<close> one by one: each keeps \<open>mcdi_inv\<close>, and each that contains one of the
  unbounded loops returns. The functions that only look at the hardware or convert commands to
  polled mode are \<open>quiet\<close>: they change nothing the invariants speak about.
\<close>

subsection \<open>Quiet operations\<close>

definition cmd_quietly :: "efx_mcdi_cmd option \<Rightarrow> efx_mcdi_cmd option \<Rightarrow> bool" where
  "cmd_quietly ko ko' \<longleftrightarrow> (case ko of
      None \<Rightarrow> ko' = None
    | Some k \<Rightarrow> (case ko' of None \<Rightarrow> False
        | Some k' \<Rightarrow> inv_neutral k k' \<and> cmd_proxy_handle k' = cmd_proxy_handle k \<and> cmd_bufid k' = cmd_bufid k))"

definition quiet :: "mcdi \<Rightarrow> mcdi \<Rightarrow> bool" where
  "quiet s s' \<longleftrightarrow> (\<forall>c. cmd_quietly (cmds s c) (cmds s' c)) \<and>
     next_cmd s' = next_cmd s \<and> cmd_list s' = cmd_list s \<and> db_held_by s' = db_held_by s \<and>
     seq_held_by s' = seq_held_by s \<and> prev_seq s' = prev_seq s \<and> cleanup s' = cleanup s \<and>
     completions s' = completions s \<and> faults s' = faults s \<and>
     outstanding_cleanups s' = outstanding_cleanups s \<and>
     (mode s' = MCDI_MODE_FAIL \<longleftrightarrow> mode s = MCDI_MODE_FAIL)"

lemma inv_neutral_refl [simp]: "inv_neutral k k"
  by (simp add: inv_neutral_def)

lemma cmd_quietly_refl [simp]: "cmd_quietly ko ko"
  by (simp add: cmd_quietly_def split: option.splits)

lemma cmd_quietly_trans: "cmd_quietly a b \<Longrightarrow> cmd_quietly b c \<Longrightarrow> cmd_quietly a c"
  by (auto simp: cmd_quietly_def inv_neutral_def split: option.splits)

lemma quiet_refl [simp]: "quiet s s"
  by (simp add: quiet_def)

lemma quiet_trans [trans]: "quiet s s' \<Longrightarrow> quiet s' s'' \<Longrightarrow> quiet s s''"
  by (auto simp: quiet_def intro: cmd_quietly_trans)

lemma quiet_cmd:
  assumes "quiet s s'" and "cmds s c = Some k"
  obtains k' where "cmds s' c = Some k'" "inv_neutral k k'" "cmd_proxy_handle k' = cmd_proxy_handle k"
    "cmd_bufid k' = cmd_bufid k"
  using assms by (auto simp: quiet_def cmd_quietly_def dest!: spec [of _ c] split: option.splits)

lemma quiet_cmd_back:
  assumes "quiet s s'" and "cmds s' c = Some k'"
  obtains k where "cmds s c = Some k" "inv_neutral k k'"
  using assms by (auto simp: quiet_def cmd_quietly_def dest!: spec [of _ c] split: option.splits)

lemma core_quiet:
  assumes q: "quiet s s'" and core: "mcdi_core ext pend acc s"
  shows "mcdi_core ext pend acc s'"
  unfolding mcdi_core_def
proof (intro conjI allI)
  fix c
  have same: "cmd_list s' = cmd_list s" "cleanup s' = cleanup s" "completions s' = completions s"
    "db_held_by s' = db_held_by s" "next_cmd s' = next_cmd s"
    using q by (auto simp: quiet_def)
  have qc: "cmd_quietly (cmds s c) (cmds s' c)"
    using q by (simp add: quiet_def)
  show "cmd_ok ext pend acc s' c"
  proof (cases "cmds s c")
    case None
    with core_cmd_ok [OF core, of c] qc show ?thesis
      by (simp add: cmd_ok_def cmd_okv_def same n_completed_def cmd_quietly_def)
  next
    case (Some k)
    then obtain k' where k': "cmds s' c = Some k'" and n: "inv_neutral k k'"
      using quiet_cmd [OF q] by blast
    show ?thesis
      using core_cmd_ok [OF core, of c] Some k' n neutral_state [OF n]
      by (simp add: cmd_ok_def cmd_okv_def cmd_live_ok_def same n_completed_def inv_neutral_def)
  qed
qed (use q core_basic [OF core] in \<open>auto simp: quiet_def\<close>)

lemma seq_ok_quiet:
  assumes q: "quiet s s'" and "seq_ok s"
  shows "seq_ok s'"
  unfolding seq_ok_def
proof (intro allI impI)
  fix i c
  assume "i < 16" and "seq_held_by s' ! i = Some c"
  with assms obtain k where "c \<in> set (cmd_list s)" "cmds s c = Some k" "efx_cmd_running k" "cmd_seq k = i"
    by (auto simp: seq_ok_def quiet_def)
  with quiet_cmd [OF q this(2)] show "c \<in> set (cmd_list s') \<and>
      (\<exists>k. cmds s' c = Some k \<and> efx_cmd_running k \<and> cmd_seq k = i)"
    using q by (metis inv_neutral_def neutral_state(3) quiet_def)
qed

lemma quiet_efx [simp]: "quiet s (s\<lparr>efx := nic\<rparr>)"
  by (simp add: quiet_def)

lemma quiet_efx_right [simp]: "quiet s (s'\<lparr>efx := nic\<rparr>) = quiet s s'"
  by (simp add: quiet_def)

lemma quiet_schedule_reset [simp]: "quiet s (efx_schedule_reset t s') = quiet s s'"
  by (simp add: efx_schedule_reset_def)

lemma quiet_update:
  assumes "cmds s c = Some k" and "inv_neutral k k'" and "cmd_proxy_handle k' = cmd_proxy_handle k"
    and "cmd_bufid k' = cmd_bufid k"
  shows "quiet s (s\<lparr>cmds := (cmds s)(c \<mapsto> k')\<rparr>)"
  using assms by (simp add: quiet_def cmd_quietly_def split: option.splits)

lemma quiet_convert:
  assumes "cmds s c = Some k"
  shows "quiet s (convert_to_polled c s)"
proof -
  have "quiet s (s\<lparr>cmds := (cmds s)(c \<mapsto> k\<lparr>cmd_polled := True\<rparr>)\<rparr>)"
    by (rule quiet_update [OF assms]) (simp_all add: inv_neutral_def)
  moreover have "quiet s (s\<lparr>cmds := (cmds s)(c \<mapsto> k\<lparr>cmd_polled := True, cmd_work := Some t\<rparr>)\<rparr>)"
    if "cmd_work k \<noteq> None" for t
    by (rule quiet_update [OF assms]) (use that in \<open>simp_all add: inv_neutral_def\<close>)
  ultimately show ?thesis
    using assms
    by (auto simp: convert_to_polled_def Let_def live_simps work_pending_def queue_delayed_work_def)
qed

lemma quiet_mark_reboot_seen:
  assumes "cmds s c = Some k"
  shows "quiet s (mark_reboot_seen c s)"
proof -
  have "quiet s (s\<lparr>cmds := (cmds s)(c \<mapsto> k\<lparr>cmd_reboot_seen := True\<rparr>)\<rparr>)"
    by (rule quiet_update [OF assms]) (simp_all add: inv_neutral_def)
  then show ?thesis
    using assms by (simp add: mark_reboot_seen_def live_simps)
qed

lemma quiet_fold:
  assumes "\<And>c k s. cmds s c = Some k \<Longrightarrow> quiet s (f c s)"
    and "\<forall>c\<in>set cs. \<exists>k. cmds s c = Some k"
  shows "quiet s (fold f cs s)"
  using assms(2)
proof (induction cs arbitrary: s)
  case (Cons c cs)
  then have q: "quiet s (f c s)"
    using assms(1) by auto
  have "\<forall>d\<in>set cs. \<exists>k. cmds (f c s) d = Some k"
    using Cons.prems quiet_cmd [OF q] by (metis list.set_intros(2))
  then have "quiet (f c s) (fold f cs (f c s))"
    by (rule Cons.IH)
  with q show ?case
    by (auto intro: quiet_trans)
qed simp

definition list_live :: "mcdi \<Rightarrow> bool" where
  "list_live s \<longleftrightarrow> (\<forall>c\<in>set (cmd_list s). \<exists>k. cmds s c = Some k)"

lemma core_list_live: "mcdi_core ext pend acc s \<Longrightarrow> list_live s"
  by (auto simp: list_live_def dest: core_live)

lemma quiet_list_live: "quiet s s' \<Longrightarrow> list_live s \<Longrightarrow> list_live s'"
  by (metis list_live_def quiet_cmd quiet_def)

lemma quiet_mode_poll:
  assumes "list_live s"
  shows "quiet s (efx_mcdi_mode_poll_1 s)"
proof (cases "mode s = MCDI_MODE_EVENTS")
  case True
  have "quiet s (s\<lparr>mode := MCDI_MODE_POLL\<rparr>)"
    by (simp add: quiet_def True)
  moreover have "quiet (s\<lparr>mode := MCDI_MODE_POLL\<rparr>)
      (fold convert_to_polled (cmd_list s) (s\<lparr>mode := MCDI_MODE_POLL\<rparr>))"
    by (rule quiet_fold [OF quiet_convert]) (use assms in \<open>auto simp: list_live_def\<close>)
  ultimately show ?thesis
    using True by (auto simp: efx_mcdi_mode_poll_1_def intro: quiet_trans)
qed (simp add: efx_mcdi_mode_poll_1_def)

lemma quiet_mode_event [simp]: "quiet s (efx_mcdi_mode_event s)"
  by (simp add: quiet_def efx_mcdi_mode_event_def)

lemma quiet_reboot_detected:
  assumes "list_live s"
  shows "quiet s (efx_mcdi_reboot_detected ty s)"
proof -
  let ?t = "efx_mcdi_mode_poll_1 s"
  have q: "quiet s ?t"
    by (rule quiet_mode_poll [OF assms])
  have "quiet ?t (fold mark_reboot_seen (cmd_list ?t) ?t)"
    by (rule quiet_fold [OF quiet_mark_reboot_seen])
      (use quiet_list_live [OF q assms] in \<open>auto simp: list_live_def\<close>)
  with q show ?thesis
    by (auto simp: efx_mcdi_reboot_detected_def Let_def intro: quiet_trans)
qed

lemma quiet_wait_for_reboot:
  assumes "list_live s"
  shows "quiet s (snd (efx_mcdi_wait_for_reboot ty s))"
proof -
  have "quiet s (snd (wait_for_reboot_loop ty n s))" if "list_live s" for n
    using that
  proof (induction n arbitrary: s)
    case (Suc n)
    obtain rc nic where p: "mcdi_poll_reboot ty (efx s) = (rc, nic)"
      by fastforce
    let ?t = "s\<lparr>efx := nic\<rparr>" and ?u = "s\<lparr>efx := nic_advance nic\<rparr>"
    have "quiet ?u (snd (wait_for_reboot_loop ty n ?u))"
      by (rule Suc.IH) (use Suc.prems in \<open>simp add: list_live_def\<close>)
    then have "quiet s (snd (wait_for_reboot_loop ty n ?u))"
      by (rule quiet_trans [OF quiet_efx])
    moreover have "quiet ?t (efx_mcdi_reboot_detected ty ?t)"
      by (rule quiet_reboot_detected) (use Suc.prems in \<open>simp add: list_live_def\<close>)
    then have "quiet s (efx_mcdi_reboot_detected ty ?t)"
      by (rule quiet_trans [OF quiet_efx])
    ultimately show ?case
      by (simp add: p Let_def)
  qed simp
  then show ?thesis
    using assms by (simp add: efx_mcdi_wait_for_reboot_def)
qed

lemma quiet_reset_during_cmd:
  assumes "list_live s" and "cmds s c = Some k"
  shows "quiet s (efx_mcdi_reset_during_cmd ty c s)"
  using quiet_wait_for_reboot [OF assms(1), of ty] assms(2)
  by (auto simp: efx_mcdi_reset_during_cmd_def Let_def split: prod.splits)

subsection \<open>Sequence numbers\<close>

text \<open>
  The search always ends: it returns the first free number after \<open>prev_seq\<close> in cyclic order,
  or comes back to \<open>prev_seq\<close>.
\<close>

lemma get_seq_loop_from:
  assumes "length held = n" and "prev < n" and "j < n"
  shows "\<exists>m. get_seq_loop held prev ((prev + j) mod n) = Some ((prev + m) mod n) \<and> j < m \<and> m \<le> n \<and>
    (\<forall>i. j < i \<and> i < m \<longrightarrow> held ! ((prev + i) mod n) \<noteq> None) \<and>
    (m < n \<longrightarrow> held ! ((prev + m) mod n) = None)"
  using assms(3)
proof (induction "n - j" arbitrary: j rule: less_induct)
  case less
  let ?q = "(prev + Suc j) mod n"
  have next_seq: "((prev + j) mod n + 1) mod length held = ?q"
    by (simp add: assms(1) mod_Suc_eq)
  have eq: "get_seq_loop held prev ((prev + j) mod n) =
      (if held ! ?q \<noteq> None \<and> ?q \<noteq> prev then get_seq_loop held prev ?q else Some ?q)"
    by (subst get_seq_loop.simps) (simp only: next_seq Let_def)
  show ?case
  proof (cases "Suc j = n")
    case True
    then have "?q = prev"
      using assms(2) by (metis mod_add_self2 mod_less)
    then show ?thesis
      using eq True by (intro exI [of _ n]) auto
  next
    case False
    then have j: "Suc j < n"
      using less.prems by simp
    show ?thesis
    proof (cases "held ! ?q = None")
      case True
      then show ?thesis
        using eq j by (intro exI [of _ "Suc j"]) auto
    next
      case occupied: False
      have "?q = (if prev + Suc j < n then prev + Suc j else prev + Suc j - n)"
        using assms(2) j by (simp add: mod_if)
      then have "?q \<noteq> prev"
        using j by (auto split: if_splits)
      then have rec: "get_seq_loop held prev ((prev + j) mod n) = get_seq_loop held prev ?q"
        using eq occupied by simp
      have dec: "n - Suc j < n - j"
        using j by simp
      obtain m where m: "get_seq_loop held prev ?q = Some ((prev + m) mod n)" "Suc j < m" "m \<le> n"
        "\<forall>i. Suc j < i \<and> i < m \<longrightarrow> held ! ((prev + i) mod n) \<noteq> None"
        "m < n \<longrightarrow> held ! ((prev + m) mod n) = None"
        using less.hyps [OF dec j] by blast
      have "held ! ((prev + i) mod n) \<noteq> None" if "j < i" "i < m" for i
        using that m(4) occupied by (cases "i = Suc j") auto
      with m rec show ?thesis
        by (intro exI [of _ m]) auto
    qed
  qed
qed

lemma get_seq_first_free:
  assumes "length (seq_held_by s) = 16" and "prev_seq s < 16"
  shows "\<exists>m free. efx_mcdi_get_seq s = Some ((prev_seq s + m) mod 16, free) \<and> 0 < m \<and> m \<le> 16 \<and>
    (\<forall>i. 0 < i \<and> i < m \<longrightarrow> seq_held_by s ! ((prev_seq s + i) mod 16) \<noteq> None) \<and>
    (free \<longleftrightarrow> seq_held_by s ! ((prev_seq s + m) mod 16) = None) \<and> (m < 16 \<longrightarrow> free)"
proof -
  obtain m where "get_seq_loop (seq_held_by s) (prev_seq s) (prev_seq s) = Some ((prev_seq s + m) mod 16)"
    "0 < m" "m \<le> 16" "\<forall>i. 0 < i \<and> i < m \<longrightarrow> seq_held_by s ! ((prev_seq s + i) mod 16) \<noteq> None"
    "m < 16 \<longrightarrow> seq_held_by s ! ((prev_seq s + m) mod 16) = None"
    using get_seq_loop_from [OF assms, of 0] assms(2) by auto
  then show ?thesis
    by (intro exI [of _ m]) (simp add: efx_mcdi_get_seq_def)
qed

subsection \<open>Starting a command\<close>

text \<open>The invariant outside the fail-fast mode, and the whole invariant.\<close>

definition mcdi_up :: "(cmd_ptr \<Rightarrow> nat) \<Rightarrow> (cmd_ptr \<Rightarrow> nat) \<Rightarrow> cmd_ptr set \<Rightarrow> mcdi \<Rightarrow> bool" where
  "mcdi_up ext pend acc s \<longleftrightarrow> mcdi_core ext pend acc s \<and> seq_ok s \<and> mode s \<noteq> MCDI_MODE_FAIL"

definition mcdi_inv :: "(cmd_ptr \<Rightarrow> nat) \<Rightarrow> (cmd_ptr \<Rightarrow> nat) \<Rightarrow> cmd_ptr set \<Rightarrow> mcdi \<Rightarrow> bool" where
  "mcdi_inv ext pend acc s \<longleftrightarrow> mcdi_core ext pend acc s \<and>
     (if mode s = MCDI_MODE_FAIL then cmd_list s = [] else seq_ok s)"

lemma inv_up: "mode s \<noteq> MCDI_MODE_FAIL \<Longrightarrow> mcdi_inv ext pend acc s = mcdi_up ext pend acc s"
  by (simp add: mcdi_inv_def mcdi_up_def)

lemma up_inv: "mcdi_up ext pend acc s \<Longrightarrow> mcdi_inv ext pend acc s"
  by (simp add: mcdi_inv_def mcdi_up_def)

lemma up_quiet: "quiet s s' \<Longrightarrow> mcdi_up ext pend acc s \<Longrightarrow> mcdi_up ext pend acc s'"
  by (auto simp: mcdi_up_def core_quiet seq_ok_quiet) (auto simp: quiet_def)

lemma inv_quiet: "quiet s s' \<Longrightarrow> mcdi_inv ext pend acc s \<Longrightarrow> mcdi_inv ext pend acc s'"
  by (auto simp: mcdi_inv_def core_quiet seq_ok_quiet split: if_splits) (auto simp: quiet_def)

text \<open>While the doorbell is free, every sequence number is free.\<close>

lemma db_free_seq_free:
  assumes "mcdi_up ext pend acc s" and "db_held_by s = None" and "i < 16"
  shows "seq_held_by s ! i = None"
proof (rule ccontr)
  assume "seq_held_by s ! i \<noteq> None"
  with assms obtain c k where "c \<in> set (cmd_list s)" "cmds s c = Some k" "efx_cmd_running k"
    by (fastforce simp: mcdi_up_def seq_ok_def)
  moreover from this have "cmd_live_ok k True (count_list (cleanup s) c) (ext c) (c \<in> acc) False"
    using core_live_ok [of ext pend acc s c k] assms by (simp add: mcdi_up_def)
  ultimately show False
    by (auto simp: cmd_live_ok_def waiting_def efx_cmd_running_def)
qed

text \<open>
  \<open>c\<close> may be started or queued: it is on the list, and as a queued command it satisfies the
  invariant (its own state is not looked at any more).
\<close>

definition queued :: "cmd_ptr \<Rightarrow> mcdi \<Rightarrow> mcdi" where
  "queued c s = modify_cmd c (\<lambda>k. k\<lparr>cmd_state := MCDI_STATE_QUEUED\<rparr>) s"

definition startable :: "(cmd_ptr \<Rightarrow> nat) \<Rightarrow> (cmd_ptr \<Rightarrow> nat) \<Rightarrow> cmd_ptr set \<Rightarrow> cmd_ptr \<Rightarrow> mcdi \<Rightarrow> bool" where
  "startable ext pend acc c s \<longleftrightarrow> mcdi_up ext pend acc (queued c s) \<and> c \<in> set (cmd_list s)"

lemma queued_frame [simp]:
  "cmd_list (queued c s) = cmd_list s" "db_held_by (queued c s) = db_held_by s"
  "seq_held_by (queued c s) = seq_held_by s" "mode (queued c s) = mode s" "efx (queued c s) = efx s"
  "prev_seq (queued c s) = prev_seq s" "cleanup (queued c s) = cleanup s"
  "next_cmd (queued c s) = next_cmd s" "n_completed (queued c s) d = n_completed s d"
  by (simp_all add: queued_def)

lemma startableI:
  assumes up: "mcdi_up ext pend acc s" and c: "c \<in> set (cmd_list s)"
    and k: "cmds s c = Some k" and w: "waiting k"
  shows "startable ext pend acc c s"
proof -
  have core: "mcdi_core ext pend acc s"
    using up by (simp add: mcdi_up_def)
  have eq: "queued c s = s\<lparr>cmds := (cmds s)(c \<mapsto> k\<lparr>cmd_state := MCDI_STATE_QUEUED\<rparr>)\<rparr>"
    using k by (simp add: queued_def live_simps)
  have "mcdi_core ext pend acc (queued c s)"
  proof (rule core_updateI [OF core, where c = c])
    show "cmd_ok ext pend acc (queued c s) c"
      using core_cmd_ok [OF core, of c] k w waiting_not_cancelled [OF w] c
      by (simp add: eq cmd_ok_def cmd_okv_def cmd_live_ok_def)
  qed (use core_basic [OF core] in \<open>auto simp: eq\<close>)
  moreover have "seq_ok (queued c s)"
    using up k waiting_not_cancelled [OF w] by (fastforce simp: mcdi_up_def seq_ok_def eq)
  ultimately show ?thesis
    using up c by (simp add: startable_def mcdi_up_def)
qed

text \<open>A command that was just sent: it is running, and holds the doorbell and its sequence number.\<close>

definition sent :: "(cmd_ptr \<Rightarrow> nat) \<Rightarrow> (cmd_ptr \<Rightarrow> nat) \<Rightarrow> cmd_ptr set \<Rightarrow> cmd_ptr \<Rightarrow> mcdi \<Rightarrow> bool" where
  "sent ext pend acc c s \<longleftrightarrow> mcdi_up ext pend acc s \<and> c \<in> set (cmd_list s) \<and> db_held_by s = Some c \<and>
     (\<exists>k. cmds s c = Some k \<and> efx_cmd_running k \<and> \<not> efx_cmd_cancelled k \<and>
        seq_held_by s ! cmd_seq k = Some c)"

lemma sent_live: "sent ext pend acc c s \<Longrightarrow> \<exists>k. cmds s c = Some k"
  by (auto simp: sent_def)

lemma sent_quiet:
  assumes q: "quiet s s'" and s: "sent ext pend acc c s"
  shows "sent ext pend acc c s'"
proof -
  obtain k where k: "cmds s c = Some k" "efx_cmd_running k" "\<not> efx_cmd_cancelled k"
    "seq_held_by s ! cmd_seq k = Some c"
    using s by (auto simp: sent_def)
  from quiet_cmd [OF q k(1)] obtain k' where "cmds s' c = Some k'" "inv_neutral k k'"
    by blast
  with k s show ?thesis
    using up_quiet [OF q] q neutral_state [of k k']
    by (auto simp: sent_def quiet_def inv_neutral_def)
qed

text \<open>The state after \<open>efx_mcdi_send_request\<close> and the change to \<open>RUNNING\<close>.\<close>

definition send_state :: "efx_nic_type \<Rightarrow> cmd_ptr \<Rightarrow> nat \<Rightarrow> u8 \<Rightarrow> bool \<Rightarrow> mcdi \<Rightarrow> mcdi" where
  "send_state ty c seq bufid polled s =
     modify_cmd c (\<lambda>k. k\<lparr>cmd_state := MCDI_STATE_RUNNING\<rparr>) (efx_mcdi_send_request ty c
       (modify_cmd c (\<lambda>k. k\<lparr>cmd_seq := seq, cmd_bufid := bufid, cmd_polled := polled,
          cmd_reboot_seen := False\<rparr>) s))"

lemma send_state_sent:
  assumes cs: "startable ext pend acc c s" and db: "db_held_by s = None" and seq: "seq < 16"
  shows "sent ext pend acc c (send_state ty c seq bufid polled s)"
    and "cmd_list (send_state ty c seq bufid polled s) = cmd_list s"
    and "mode (send_state ty c seq bufid polled s) = mode s"
proof -
  have up: "mcdi_up ext pend acc (queued c s)" and c: "c \<in> set (cmd_list s)"
    using cs by (auto simp: startable_def)
  then have core: "mcdi_core ext pend acc (queued c s)"
    by (simp add: mcdi_up_def)
  have free: "\<And>i. i < 16 \<Longrightarrow> seq_held_by s ! i = None"
    using db_free_seq_free [OF up] db by simp
  obtain k where k: "cmds s c = Some k"
    using core_live [OF core, of c] c by (cases "cmds s c") (auto simp: queued_def modify_cmd_def)
  let ?q = "k\<lparr>cmd_state := MCDI_STATE_QUEUED\<rparr>"
  have q: "cmds (queued c s) c = Some ?q" and others: "\<And>d. d \<noteq> c \<Longrightarrow> cmds (queued c s) d = cmds s d"
    and flt: "faults (queued c s) = faults s"
    using k by (simp_all add: queued_def live_simps)
  have len: "cmd_inlen k \<le> MCDI_CTL_SDU_LEN_MAX_V2"
    using core_live_ok [OF core q] c by (simp add: cmd_live_ok_def)
  let ?k = "k\<lparr>cmd_seq := seq, cmd_bufid := bufid, cmd_polled := polled, cmd_reboot_seen := False,
     cmd_started := nic_jiffies (efx s), cmd_state := MCDI_STATE_RUNNING\<rparr>"
  obtain nic where eq: "send_state ty c seq bufid polled s = s\<lparr>prev_seq := seq,
      seq_held_by := (seq_held_by s)[seq := Some c], db_held_by := Some c,
      efx := nic, new_epoch := False, cmds := (cmds s)(c \<mapsto> ?k)\<rparr>"
    using k len by (simp add: send_state_def efx_mcdi_send_request_def Let_def live_simps)
  have run: "efx_cmd_running ?k" "\<not> waiting ?k" "\<not> efx_cmd_cancelled ?k"
    by (simp_all add: efx_cmd_running_def)
  have "mcdi_core ext pend acc (send_state ty c seq bufid polled s)"
  proof (rule core_updateI [OF core, where c = c])
    show "cmd_ok ext pend acc (send_state ty c seq bufid polled s) c"
      using core_cmd_ok [OF core, of c] q c seq run
      by (simp add: eq cmd_ok_def cmd_okv_def cmd_live_ok_def)
  qed (use core_basic [OF core] seq others flt db in \<open>auto simp: eq\<close>)
  moreover have "seq_ok (send_state ty c seq bufid polled s)"
    using free c core_basic(2) [OF core] seq run by (auto simp: seq_ok_def eq nth_list_update)
  ultimately show "sent ext pend acc c (send_state ty c seq bufid polled s)"
    using up c run seq core_basic(2) [OF core] by (simp add: sent_def mcdi_up_def eq)
  show "cmd_list (send_state ty c seq bufid polled s) = cmd_list s"
    and "mode (send_state ty c seq bufid polled s) = mode s"
    by (simp_all add: eq)
qed

lemma seq_ok_queue_work [simp]:
  assumes "seq_ok s" and "cmds s c = Some k"
  shows "seq_ok (queue_delayed_work c d (kref_get c s))"
  unfolding seq_ok_def
proof (intro allI impI)
  fix i e
  assume "i < 16" and "seq_held_by (queue_delayed_work c d (kref_get c s)) ! i = Some e"
  then obtain k' where "e \<in> set (cmd_list s)" "cmds s e = Some k'" "efx_cmd_running k'" "cmd_seq k' = i"
    using assms(1) by (fastforce simp: seq_ok_def)
  then show "e \<in> set (cmd_list (queue_delayed_work c d (kref_get c s))) \<and>
      (\<exists>k. cmds (queue_delayed_work c d (kref_get c s)) e = Some k \<and> efx_cmd_running k \<and> cmd_seq k = i)"
    using assms(2) by (auto simp: queue_delayed_work_def live_simps split: option.splits)
qed

lemma up_queue_work:
  assumes "mcdi_up ext pend acc s" and "cmds s c = Some k"
  shows "mcdi_up ext pend acc (queue_delayed_work c d (kref_get c s))"
  using assms core_get_queue_work by (auto simp: mcdi_up_def)

text \<open>
  A command that is started without a buffer for an immediate response stays on the list; the
  state may go on to be used.
\<close>

lemma start_cmd_no_buffer:
  assumes "startable ext pend acc c s" and "db_held_by s = None" and "seq < 16"
  shows "\<exists>s'. start_cmd ty complete c False seq bufid s = Some s' \<and> mcdi_up ext pend acc s' \<and>
    cmd_list s' = cmd_list s \<and> db_held_by s' = Some c"
proof -
  define p where "p \<longleftrightarrow> mode s = MCDI_MODE_POLL"
  let ?t = "send_state ty c seq bufid p s"
  note st = send_state_sent [OF assms, of ty bufid p]
  obtain k where k: "cmds ?t c = Some k"
    using sent_live [OF st(1)] by blast
  have up: "mcdi_up ext pend acc ?t" and db: "db_held_by ?t = Some c"
    using st(1) by (auto simp: sent_def)
  have eq: "start_cmd ty complete c False seq bufid s =
      Some (queue_delayed_work c (if p then 1 else efx_mcdi_rpc_timeout ty (efx ?t) (cmd_cmd k)) (kref_get c ?t))"
    using k
    by (cases "mode s = MCDI_MODE_POLL")
      (simp_all add: start_cmd_def efx_mcdi_poll_start_def send_state_def Let_def p_def)
  show ?thesis
    using st(2) db up_queue_work [OF up k] by (simp only: eq) simp
qed

text \<open>What \<open>efx_mcdi_cmd_start_or_queue_ext\<close> does: it leaves the command queued, or starts it.\<close>

lemma start_ext_cases:
  assumes st: "startable ext pend acc c s"
  obtains (queue) "efx_mcdi_cmd_start_or_queue_ext ty complete c copybuf imm s =
      Some (if imm then (- EAGAIN, s) else (0, queued c s))"
  | (start) seq bufid nic where "db_held_by s = None" "seq < 16"
      "mcdi_get_buf ty (efx s) = Some (bufid, nic)"
      "efx_mcdi_cmd_start_or_queue_ext ty complete c copybuf imm s =
         map_option (Pair 0) (start_cmd ty complete c copybuf seq bufid (s\<lparr>efx := nic\<rparr>))"
proof (cases "db_held_by s = None")
  case False
  then show thesis
    by (intro queue) (auto simp: efx_mcdi_cmd_start_or_queue_ext_def queued_def)
next
  case True
  have up: "mcdi_up ext pend acc (queued c s)"
    using st by (simp add: startable_def)
  then have len: "length (seq_held_by s) = 16" "prev_seq s < 16"
    using core_basic(2,3) [of ext pend acc "queued c s"] by (auto simp: mcdi_up_def)
  obtain m free where m: "efx_mcdi_get_seq s = Some ((prev_seq s + m) mod 16, free)"
    "free \<longleftrightarrow> seq_held_by s ! ((prev_seq s + m) mod 16) = None"
    using get_seq_first_free [OF len] by blast
  then have free: "free"
    using db_free_seq_free [OF up] True by simp
  show thesis
  proof (cases "mcdi_get_buf ty (efx s)")
    case None
    then show thesis
      using m(1) free True by (intro queue) (auto simp: efx_mcdi_cmd_start_or_queue_ext_def queued_def)
  next
    case (Some p)
    then show thesis
      using m(1) free True
      by (intro start [of "(prev_seq s + m) mod 16" "fst p" "snd p"])
        (auto simp: efx_mcdi_cmd_start_or_queue_ext_def queued_def split: prod.splits)
  qed
qed

lemma startable_efx [simp]: "startable ext pend acc c (s\<lparr>efx := nic\<rparr>) = startable ext pend acc c s"
proof -
  have "quiet (queued c s) (queued c (s\<lparr>efx := nic\<rparr>))" "quiet (queued c (s\<lparr>efx := nic\<rparr>)) (queued c s)"
    by (auto simp: quiet_def queued_def modify_cmd_def fault_def split: option.splits)
  then show ?thesis
    by (auto simp: startable_def intro: up_quiet)
qed

lemma start_ext_no_buffer:
  assumes st: "startable ext pend acc c s"
  shows "\<exists>s'. efx_mcdi_cmd_start_or_queue_ext ty complete c False False s = Some (0, s') \<and>
    mcdi_up ext pend acc s' \<and> cmd_list s' = cmd_list s"
proof (cases rule: start_ext_cases [OF st, of ty complete False False, case_names queue start])
  case queue
  then show ?thesis
    using st by (simp add: startable_def)
next
  case (start seq bufid nic)
  then show ?thesis
    using start_cmd_no_buffer [of ext pend acc c "s\<lparr>efx := nic\<rparr>" seq ty complete bufid] st
    by auto
qed

lemma start_or_queue_ok:
  assumes "mcdi_up ext pend acc s"
  shows "\<exists>s'. efx_mcdi_start_or_queue ty allow s = Some s' \<and> mcdi_up ext pend acc s' \<and>
    cmd_list s' = cmd_list s"
proof -
  have "\<exists>s'. start_or_queue_list ty allow cs s = Some s' \<and> mcdi_up ext pend acc s' \<and>
      cmd_list s' = cmd_list s" if "mcdi_up ext pend acc s" "set cs \<subseteq> set (cmd_list s)" for cs
    using that
  proof (induction cs arbitrary: s)
    case (Cons c cs)
    then have c: "c \<in> set (cmd_list s)" by simp
    have "mcdi_core ext pend acc s"
      using Cons.prems(1) by (simp add: mcdi_up_def)
    then obtain k where k: "cmds s c = Some k"
      using core_live c by blast
    show ?case
    proof (cases "cmd_state k = MCDI_STATE_QUEUED \<or> (cmd_state k = MCDI_STATE_RETRY \<and> allow)")
      case True
      then have "waiting k" by (auto simp: waiting_def)
      from start_ext_no_buffer [OF startableI [OF Cons.prems(1) c k this]]
      obtain s1 where s1: "efx_mcdi_cmd_start_or_queue_ext ty (\<lambda>_. None) c False False s = Some (0, s1)"
        "mcdi_up ext pend acc s1" "cmd_list s1 = cmd_list s"
        by blast
      obtain s' where "start_or_queue_list ty allow cs s1 = Some s'" "mcdi_up ext pend acc s'"
        "cmd_list s' = cmd_list s1"
        using Cons.IH [OF s1(2)] Cons.prems(2) s1(3) by auto
      with s1 True k show ?thesis by auto
    next
      case False
      then show ?thesis
        using Cons.IH [OF Cons.prems(1)] Cons.prems(2) k by auto
    qed
  qed simp
  then show ?thesis
    using assms by (simp add: efx_mcdi_start_or_queue_def)
qed

end
