(* ===== verification/Mcdi_Events.thy ===== *)
theory Mcdi_Events
  imports Mcdi_Safe
begin

section \<open>Completions, time-outs and events keep the invariants\<close>

text \<open>
  The paths on which a command leaves the interface: a response, a time-out, a proxy response, a
  cancellation. Each lemma says that the path returns and keeps \<open>mcdi_inv\<close>, so that it
  records no memory fault, and names the condition under which it does so.
\<close>

subsection \<open>References and the doorbell\<close>

lemma seq_ok_keep:
  assumes "seq_ok s" and "set (cmd_list s) \<subseteq> set (cmd_list s')" and "seq_held_by s' = seq_held_by s"
    and "\<And>d k. d \<in> set (cmd_list s) \<Longrightarrow> cmds s d = Some k \<Longrightarrow>
      \<exists>k'. cmds s' d = Some k' \<and> efx_cmd_running k' = efx_cmd_running k \<and> cmd_seq k' = cmd_seq k"
  shows "seq_ok s'"
  unfolding seq_ok_def
proof (intro allI impI)
  fix i d
  assume "i < 16" and "seq_held_by s' ! i = Some d"
  then obtain k where "d \<in> set (cmd_list s)" "cmds s d = Some k" "efx_cmd_running k" "cmd_seq k = i"
    using assms(1,3) by (fastforce simp: seq_ok_def)
  with assms(2) assms(4) [OF this(1,2)] show "d \<in> set (cmd_list s') \<and>
      (\<exists>k. cmds s' d = Some k \<and> efx_cmd_running k \<and> cmd_seq k = i)"
    by auto
qed

lemma kref_put_on_list:
  assumes "mcdi_core ext pend acc s" and "0 < ext c" and "d \<in> set (cmd_list s)"
    and "cmds s d = Some k"
  shows "\<exists>k'. cmds (kref_put c s) d = Some k' \<and> efx_cmd_running k' = efx_cmd_running k \<and>
    cmd_seq k' = cmd_seq k"
proof (cases "d = c")
  case True
  then have "2 \<le> cmd_ref k"
    using core_live_ok [OF assms(1,4)] assms(2,3) by (simp add: cmd_live_ok_def)
  with True assms(4) show ?thesis
    by (simp add: live_simps)
next
  case False
  with assms(4) show ?thesis
    by (simp add: kref_put_def split: option.splits)
qed

lemma inv_kref_put:
  assumes "mcdi_inv ext pend acc s" and "0 < ext c"
  shows "mcdi_inv (ext(c := ext c - 1)) pend acc (kref_put c s)"
proof -
  have core: "mcdi_core ext pend acc s"
    using assms(1) by (simp add: mcdi_inv_def)
  have "seq_ok (kref_put c s)" if "seq_ok s"
    by (rule seq_ok_keep [OF that]) (use kref_put_on_list [OF core assms(2)] in auto)
  with assms(1) core_kref_put [OF core assms(2)] show ?thesis
    by (auto simp: mcdi_inv_def)
qed

lemma inv_kref_get:
  assumes "mcdi_inv ext pend acc s" and "cmds s c = Some k"
  shows "mcdi_inv (ext(c := ext c + 1)) pend acc (kref_get c s)"
proof -
  have core: "mcdi_core ext pend acc s"
    using assms(1) by (simp add: mcdi_inv_def)
  have "seq_ok (kref_get c s)" if "seq_ok s"
    by (rule seq_ok_keep [OF that]) (use assms(2) in \<open>auto simp: live_simps\<close>)
  with assms(1) core_kref_get [OF core assms(2)] show ?thesis
    by (auto simp: mcdi_inv_def)
qed

lemma work_clear_on_list:
  "cmds s d = Some k \<Longrightarrow> \<exists>k'. cmds (modify_cmd c (\<lambda>k. k\<lparr>cmd_work := w\<rparr>) s) d = Some k' \<and>
    efx_cmd_running k' = efx_cmd_running k \<and> cmd_seq k' = cmd_seq k"
  by (auto simp: modify_cmd_def split: option.splits)

lemma inv_cancel_work:
  assumes "mcdi_inv ext pend acc s"
  shows "mcdi_inv ext pend acc (cancel_work_and_put c s)"
proof (cases "work_pending s c")
  case False
  with assms show ?thesis by (simp add: cancel_work_and_put_def)
next
  case True
  then obtain k where k: "cmds s c = Some k" "cmd_work k \<noteq> None"
    by (auto simp: work_pending_def split: option.splits)
  have core: "mcdi_core ext pend acc s"
    using assms by (simp add: mcdi_inv_def)
  let ?t = "modify_cmd c (\<lambda>k. k\<lparr>cmd_work := None\<rparr>) s"
  have "seq_ok ?t" if "seq_ok s"
    by (rule seq_ok_keep [OF that]) (use work_clear_on_list in auto)
  then have "mcdi_inv (ext(c := ext c + 1)) pend acc ?t"
    using assms core_work_clear [OF core k] by (auto simp: mcdi_inv_def)
  from inv_kref_put [OF this, of c] True show ?thesis
    by (simp add: cancel_work_and_put_def)
qed

text \<open>When only waiting commands are on the list, nobody needs the doorbell.\<close>

lemma core_db_free:
  assumes core: "mcdi_core ext pend acc s"
    and w: "\<And>d k. d \<in> set (cmd_list s) \<Longrightarrow> cmds s d = Some k \<Longrightarrow> waiting k"
  shows "mcdi_core ext pend acc (s\<lparr>db_held_by := None\<rparr>)"
  unfolding mcdi_core_def
proof (intro conjI allI)
  fix d
  show "cmd_ok ext pend acc (s\<lparr>db_held_by := None\<rparr>) d"
    using core_cmd_ok [OF core, of d] w [of d]
    by (cases "cmds s d") (auto simp: cmd_ok_def cmd_okv_def cmd_live_ok_def)
qed (use core_basic [OF core] in auto)

lemma core_seq_update:
  "mcdi_core ext pend acc s \<Longrightarrow> mcdi_core ext pend acc (s\<lparr>seq_held_by := (seq_held_by s)[i := x]\<rparr>)"
  by (simp add: mcdi_core_def cmd_ok_def)

lemma core_other_waiting:
  assumes core: "mcdi_core ext pend acc s" and db: "db_held_by s = Some c"
    and d: "d \<in> set (cmd_list s)" "d \<noteq> c" and k: "cmds s d = Some k"
  shows "waiting k"
  using core_live_ok [OF core k] d db by (auto simp: cmd_live_ok_def)

text \<open>Only the holder of the doorbell holds a sequence number, its own.\<close>

lemma only_own_seq:
  assumes up: "mcdi_up ext pend acc s" and db: "db_held_by s = Some c" and k: "cmds s c = Some k"
    and i: "i < 16" "seq_held_by s ! i \<noteq> None"
  shows "i = cmd_seq k"
proof -
  have core: "mcdi_core ext pend acc s"
    using up by (simp add: mcdi_up_def)
  obtain d k' where d: "d \<in> set (cmd_list s)" "cmds s d = Some k'" "efx_cmd_running k'" "cmd_seq k' = i"
    using up i by (fastforce simp: mcdi_up_def seq_ok_def)
  then have "d = c"
    using core_other_waiting [OF core db d(1)] waiting_not_cancelled by blast
  with d k show ?thesis by simp
qed

lemma seq_ok_all_free: "\<forall>i<16. seq_held_by s ! i = None \<Longrightarrow> seq_ok s"
  by (simp add: seq_ok_def)

lemma remove_cmd_db:
  assumes "cmds s c = Some k" and "c \<in> set (cmd_list s)"
  shows "efx_mcdi_remove_cmd c (s\<lparr>db_held_by := x\<rparr>) = (efx_mcdi_remove_cmd c s)\<lparr>db_held_by := x\<rparr>"
  using assms by (simp add: efx_mcdi_remove_cmd_def list_del_cmd_def remove_cmd_1_eq live_simps)

lemma modify_cmd_db: "modify_cmd c f (s\<lparr>db_held_by := x\<rparr>) = (modify_cmd c f s)\<lparr>db_held_by := x\<rparr>"
  by (simp add: modify_cmd_def fault_def split: option.splits)

lemma set_db_idem: "db_held_by s = x \<Longrightarrow> s\<lparr>db_held_by := y, db_held_by := x\<rparr> = s"
  by simp

lemma core_remove_holder:
  assumes core: "mcdi_core ext pend acc (s\<lparr>db_held_by := Some c\<rparr>)" and c: "c \<in> set (cmd_list s)"
    and db: "db_held_by s = None"
  shows "mcdi_core ext pend acc (efx_mcdi_remove_cmd c s)"
proof -
  let ?u = "s\<lparr>db_held_by := Some c\<rparr>"
  have c': "c \<in> set (cmd_list ?u)" and db': "db_held_by ?u = Some c"
    using c by simp_all
  obtain k where k: "cmds ?u c = Some k"
    using core_live [OF core] c' by blast
  note rm = core_remove_cmd [OF core c']
  have "mcdi_core ext pend acc ((efx_mcdi_remove_cmd c ?u)\<lparr>db_held_by := None\<rparr>)"
  proof (rule core_db_free [OF rm(1)])
    fix d k'
    assume d: "d \<in> set (cmd_list (efx_mcdi_remove_cmd c ?u))" and k': "cmds (efx_mcdi_remove_cmd c ?u) d = Some k'"
    have ne: "d \<noteq> c" "d \<in> set (cmd_list ?u)"
      using d rm(2) core_basic(1) [OF core] by auto
    then have "cmds ?u d = Some k'"
      using k' rm(3) by simp
    with ne show "waiting k'"
      using core_other_waiting [OF core db'] by blast
  qed
  moreover have "s\<lparr>db_held_by := None\<rparr> = s"
    using db by simp
  then have "efx_mcdi_remove_cmd c s = (efx_mcdi_remove_cmd c ?u)\<lparr>db_held_by := None\<rparr>"
    using remove_cmd_db [OF k c', of None] by simp
  ultimately show ?thesis by simp
qed

subsection \<open>Responses\<close>

lemma rc_quiet:
  assumes "list_live s" and "cmds s c = Some k"
  shows "quiet s (snd (snd (snd (response_rc ty c bufid copybuf s))))"
  using quiet_reset_during_cmd [OF assms, of ty]
  by (auto simp: response_rc_def Let_def split: prod.splits)

text \<open>
  The branches of \<open>efx_mcdi_complete_cmd\<close>: afterwards the interface is in fail-fast mode with an
  empty list, or the command is waiting for its proxy and keeps the doorbell, or the doorbell is
  free and only waiting commands are left.
\<close>

definition settled :: "(cmd_ptr \<Rightarrow> nat) \<Rightarrow> (cmd_ptr \<Rightarrow> nat) \<Rightarrow> cmd_ptr set \<Rightarrow> cmd_ptr \<Rightarrow> mcdi \<Rightarrow> mcdi \<Rightarrow> bool" where
  "settled ext pend acc c s s' \<longleftrightarrow> mcdi_core ext pend acc s' \<and> seq_held_by s' = seq_held_by s \<and>
     (mode s' = MCDI_MODE_FAIL \<longrightarrow> cmd_list s' = [])"

lemma proxy_pending_settled:
  assumes up: "mcdi_up ext pend acc s" and c: "c \<in> set (cmd_list s)" and k: "cmds s c = Some k"
    and db: "db_held_by s = Some c" and nw: "\<not> waiting k" and nc: "\<not> efx_cmd_cancelled k"
  shows "\<exists>b s'. complete_proxy_pending ty c k hdr_len data_len s = Some (b, s') \<and>
    settled ext pend acc c s s'"
proof (cases "cmd_proxy_handle k \<noteq> 0 \<or> data_len < 8")
  case True
  let ?s = "modify_cmd c (\<lambda>k. k\<lparr>cmd_rc := - EIO\<rparr>) s"
  have core: "mcdi_core ext pend acc ?s"
    using up c by (auto simp: mcdi_up_def intro!: core_modify_neutral)
  obtain s' where "efx_mcdi_mode_fail (efx_mcdi_remove_cmd c ?s) = Some s'" "mcdi_core ext pend acc s'"
    "cmd_list s' = []" "seq_held_by s' = seq_held_by s"
    using mode_fail_after_remove [OF core] c db by auto
  with True db show ?thesis
    by (auto simp: complete_proxy_pending_def settled_def)
next
  case False
  have core: "mcdi_core ext pend acc s"
    using up by (simp add: mcdi_up_def)
  define h :: u32 where "h = bytes_dword (mcdi_read_response ty (efx s) (cmd_bufid k) (hdr_len + 4) 4)"
  let ?k = "k\<lparr>cmd_state := MCDI_STATE_PROXY, cmd_proxy_handle := h\<rparr>"
  let ?t = "s\<lparr>cmds := (cmds s)(c \<mapsto> ?k)\<rparr>"
  have pk: "\<not> waiting ?k" "\<not> efx_cmd_cancelled ?k"
    by simp_all
  have core_t: "mcdi_core ext pend acc ?t"
  proof (rule core_updateI [OF core, where c = c])
    show "cmd_ok ext pend acc ?t c"
      using core_cmd_ok [OF core, of c] k c nw nc pk
      by (simp add: cmd_ok_def cmd_okv_def cmd_live_ok_def)
  qed (use core_basic [OF core] in auto)
  have "complete_proxy_pending ty c k hdr_len data_len s =
      Some (False, queue_delayed_work c (MCDI_PROXY_TIMEOUT (efx s)) (kref_get c ?t))"
    using False db k
    by (simp add: complete_proxy_pending_def h_def modify_cmd_live)
  moreover have "mcdi_core ext pend acc (queue_delayed_work c (MCDI_PROXY_TIMEOUT (efx s)) (kref_get c ?t))"
    by (rule core_get_queue_work [OF core_t]) simp
  ultimately show ?thesis
    using up by (auto simp: settled_def mcdi_up_def)
qed

lemma cancelled_drop:
  assumes core: "mcdi_core ext pend acc s" and c: "c \<in> set (cmd_list s)" and k: "cmds s c = Some k"
    and canc: "efx_cmd_cancelled k"
  shows "mcdi_core ext pend acc (kref_put c (list_del_cmd c s))"
proof -
  have eq: "kref_put c (list_del_cmd c s) = s\<lparr>cmd_list := remove1 c (cmd_list s),
      cmds := (cmds s)(c := (if cmd_ref k \<le> 1 then None else Some (k\<lparr>cmd_ref := cmd_ref k - 1\<rparr>)))\<rparr>"
    using c k by (simp add: list_del_cmd_def live_simps)
  show ?thesis
    unfolding eq
  proof (rule core_updateI [OF core, where c = c], goal_cases)
    case 2
    show ?case
      using core_cmd_ok [OF core, of c] k c canc core_basic(1) [OF core]
      by (auto simp: cmd_ok_def cmd_okv_def cmd_live_ok_def)
  qed (use core_basic [OF core] in auto)
qed

lemma done_settled:
  assumes up: "mcdi_up ext pend acc s" and c: "c \<in> set (cmd_list s)" and k: "cmds s c = Some k"
    and db: "db_held_by s = Some c" and nw: "\<not> waiting k"
  shows "settled ext pend acc c s (snd (complete_done c k rc outbuf data_len s))"
proof -
  have core: "mcdi_core ext pend acc s" and dist: "distinct (cmd_list s)"
    using up core_basic(1) by (auto simp: mcdi_up_def)
  have others: "waiting k'" if "d \<in> set (cmd_list s)" "d \<noteq> c" "cmds s d = Some k'" for d k'
    using core_other_waiting [OF core db that] .
  consider (cancelled) "efx_cmd_cancelled k" | (retry) "\<not> efx_cmd_cancelled k" "rc = MC_CMD_ERR_QUEUE_FULL"
    | (finished) "\<not> efx_cmd_cancelled k" "rc \<noteq> MC_CMD_ERR_QUEUE_FULL"
    by blast
  then show ?thesis
  proof cases
    case cancelled
    let ?t = "kref_put c (list_del_cmd c s)"
    have "kref_put c (list_del_cmd c (s\<lparr>db_held_by := None\<rparr>)) = ?t\<lparr>db_held_by := None\<rparr>"
      using c k by (simp add: list_del_cmd_def live_simps)
    moreover have "mcdi_core ext pend acc (?t\<lparr>db_held_by := None\<rparr>)"
    proof (rule core_db_free [OF cancelled_drop [OF core c k cancelled]])
      fix d k'
      assume "d \<in> set (cmd_list ?t)" "cmds ?t d = Some k'"
      with c k dist others show "waiting k'"
        by (auto simp: list_del_cmd_def live_simps split: if_splits)
    qed
    ultimately show ?thesis
      using up cancelled db c by (simp add: complete_done_def settled_def mcdi_up_def)
  next
    case retry
    let ?k = "k\<lparr>cmd_state := MCDI_STATE_RETRY\<rparr>"
    let ?t = "s\<lparr>cmds := (cmds s)(c \<mapsto> ?k)\<rparr>"
    have "mcdi_core ext pend acc ?t"
    proof (rule core_updateI [OF core, where c = c])
      show "cmd_ok ext pend acc ?t c"
        using core_cmd_ok [OF core, of c] k c retry by (simp add: cmd_ok_def cmd_okv_def cmd_live_ok_def)
    qed (use core_basic [OF core] in auto)
    then have "mcdi_core ext pend acc (?t\<lparr>db_held_by := None\<rparr>)"
      by (rule core_db_free) (use others in \<open>auto split: if_splits\<close>)
    moreover have "snd (complete_done c k rc outbuf data_len s) = ?t\<lparr>db_held_by := None\<rparr>"
      using retry db k by (simp add: complete_done_def live_simps)
    ultimately show ?thesis
      using up by (simp add: settled_def mcdi_up_def)
  next
    case finished
    let ?f = "\<lambda>k. k\<lparr>cmd_rc := rc, cmd_outbuf := outbuf, cmd_outlen := (if outbuf = None then 0 else data_len)\<rparr>"
    let ?m = "modify_cmd c ?f s"
    have core_m: "mcdi_core ext pend acc ?m"
      by (rule core_modify_neutral [OF core]) (use c in \<open>auto simp: inv_neutral_def\<close>)
    have "?m\<lparr>db_held_by := None, db_held_by := Some c\<rparr> = ?m"
      using db by simp
    then have "mcdi_core ext pend acc (efx_mcdi_remove_cmd c (?m\<lparr>db_held_by := None\<rparr>))"
      using core_m c by (intro core_remove_holder) auto
    moreover have "snd (complete_done c k rc outbuf data_len s) =
        efx_mcdi_remove_cmd c (?m\<lparr>db_held_by := None\<rparr>)"
      using finished db by (simp add: complete_done_def modify_cmd_db)
    ultimately show ?thesis
      using up by (simp add: settled_def mcdi_up_def)
  qed
qed

text \<open>
  A cancelled command must not be proxied: \<open>complete_proxy_pending\<close> would make it an uncancelled one
  again. \<open>answer\<close> is the return code that \<open>efx_mcdi_complete_cmd\<close> reads.
\<close>

definition answer :: "efx_nic_type \<Rightarrow> cmd_ptr \<Rightarrow> bool \<Rightarrow> mcdi \<Rightarrow> int" where
  "answer ty c copybuf s = (case cmds s c of None \<Rightarrow> 0
     | Some k \<Rightarrow> fst (response_rc ty c (cmd_bufid k) copybuf (kref_get c s)))"

definition no_late_proxy :: "efx_nic_type \<Rightarrow> cmd_ptr \<Rightarrow> bool \<Rightarrow> mcdi \<Rightarrow> bool" where
  "no_late_proxy ty c copybuf s \<longleftrightarrow> (\<forall>k. cmds s c = Some k \<longrightarrow> efx_cmd_cancelled k \<longrightarrow>
     answer ty c copybuf s \<noteq> MC_CMD_ERR_PROXY_PENDING)"

lemma complete_cmd_ok:
  assumes up: "mcdi_up ext pend acc s" and c: "c \<in> set (cmd_list s)" and k0: "cmds s c = Some k0"
    and nw0: "\<not> waiting k0" and late: "no_late_proxy ty c copybuf s"
  shows "\<exists>b s'. efx_mcdi_complete_cmd ty c copybuf s = Some (b, s') \<and> mcdi_inv ext pend acc s'"
proof -
  let ?e = "ext(c := ext c + 1)"
  let ?s1 = "kref_get c s"
  have core: "mcdi_core ext pend acc s"
    using up by (simp add: mcdi_up_def)
  have db: "db_held_by s = Some c"
    using core_live_ok [OF core k0] c nw0 by (simp add: cmd_live_ok_def)
  have up1: "mcdi_up ?e pend acc ?s1"
    using inv_kref_get [OF up_inv [OF up] k0] up by (simp add: inv_up mcdi_up_def)
  then have live1: "list_live ?s1"
    by (auto simp: mcdi_up_def dest: core_list_live)
  have k1: "cmds ?s1 c = Some (k0\<lparr>cmd_ref := cmd_ref k0 + 1\<rparr>)"
    using k0 by (simp add: live_simps)
  obtain rc data_len outbuf s2 where r: "response_rc ty c (cmd_bufid k0) copybuf ?s1 = (rc, data_len, outbuf, s2)"
    by (metis prod_cases4)
  have q: "quiet ?s1 s2"
    using rc_quiet [OF live1 k1, of ty "cmd_bufid k0" copybuf] r by simp
  obtain k where k: "cmds s2 c = Some k" and n: "inv_neutral (k0\<lparr>cmd_ref := cmd_ref k0 + 1\<rparr>) k"
    using quiet_cmd [OF q k1] by blast
  have up2: "mcdi_up ?e pend acc s2" and c2: "c \<in> set (cmd_list s2)" and db2: "db_held_by s2 = Some c"
    using up_quiet [OF q up1] q c db by (auto simp: quiet_def)
  have nw: "\<not> waiting k" and canc: "efx_cmd_cancelled k = efx_cmd_cancelled k0"
    using neutral_state [OF n] nw0 by simp_all
  obtain er hdr_len dl where h: "response_header ty (efx ?s1) (cmd_bufid k0) = (er, hdr_len, dl)"
    by (metis prod_cases3)
  obtain b s3 where s3: "(if rc = MC_CMD_ERR_PROXY_PENDING
      then complete_proxy_pending ty c k hdr_len data_len s2
      else Some (complete_done c k rc outbuf data_len s2)) = Some (b, s3)" and st: "settled ?e pend acc c s2 s3"
  proof (cases "rc = MC_CMD_ERR_PROXY_PENDING")
    case True
    then have "\<not> efx_cmd_cancelled k"
      using late k0 r canc by (simp add: no_late_proxy_def answer_def)
    from proxy_pending_settled [OF up2 c2 k db2 nw this, of ty hdr_len data_len] True that
    show ?thesis by auto
  next
    case False
    show ?thesis
      by (rule that [of "fst (complete_done c k rc outbuf data_len s2)"
            "snd (complete_done c k rc outbuf data_len s2)"])
        (use False done_settled [OF up2 c2 k db2 nw] in simp_all)
  qed
  define s4 where "s4 = s3\<lparr>seq_held_by := (seq_held_by s3)[cmd_seq k := None],
      efx := mcdi_put_buf ty (cmd_bufid k0) (efx s3)\<rparr>"
  have core4: "mcdi_core ?e pend acc s4"
    using core_seq_update [of ?e pend acc s3 "cmd_seq k" None] st by (simp add: s4_def settled_def)
  have len2: "length (seq_held_by s2) = 16"
    using up2 core_basic(2) by (auto simp: mcdi_up_def)
  have "\<forall>i<16. seq_held_by s4 ! i = None"
  proof (intro allI impI)
    fix i :: nat
    assume "i < 16"
    then have "i \<noteq> cmd_seq k \<longrightarrow> seq_held_by s2 ! i = None"
      using only_own_seq [OF up2 db2 k] by blast
    with \<open>i < 16\<close> st len2 show "seq_held_by s4 ! i = None"
      by (cases "i = cmd_seq k") (auto simp: s4_def settled_def)
  qed
  then have inv4: "mcdi_inv ?e pend acc s4"
    using core4 st by (simp add: mcdi_inv_def seq_ok_all_free) (simp add: s4_def settled_def)
  obtain s5 where s5: "efx_mcdi_start_or_queue ty (rc \<noteq> MC_CMD_ERR_QUEUE_FULL) s4 = Some s5"
    and inv5: "mcdi_inv ?e pend acc s5"
  proof (cases "mode s4 = MCDI_MODE_FAIL")
    case True
    with inv4 that show ?thesis
      by (auto simp: mcdi_inv_def efx_mcdi_start_or_queue_def)
  next
    case False
    with inv4 start_or_queue_ok [of ?e pend acc s4 ty] that show ?thesis
      by (auto simp: inv_up intro: up_inv)
  qed
  have "efx_mcdi_complete_cmd ty c copybuf s = Some (b, kref_put c s5)"
    using k0 r h k s3 s5 by (simp add: efx_mcdi_complete_cmd_def s4_def)
  moreover have "mcdi_inv ext pend acc (kref_put c s5)"
    using inv_kref_put [OF inv5, of c] by simp
  ultimately show ?thesis by blast
qed

subsection \<open>Time-outs\<close>

lemma fail_after_remove:
  assumes core: "mcdi_core ext pend acc s" and c: "c \<in> set (cmd_list s)" and db: "db_held_by s = Some c"
  shows "\<exists>s'. efx_mcdi_mode_fail (efx_mcdi_remove_cmd c (modify_cmd c (\<lambda>k. k\<lparr>cmd_rc := r\<rparr>) s)) = Some s' \<and>
    mcdi_inv ext pend acc (efx_schedule_reset t s') \<and> mode s' = MCDI_MODE_FAIL \<and> cmd_list s' = []"
proof -
  let ?m = "modify_cmd c (\<lambda>k. k\<lparr>cmd_rc := r\<rparr>) s"
  have "mcdi_core ext pend acc ?m"
    by (rule core_modify_neutral [OF core]) (use c in auto)
  from mode_fail_after_remove [OF this, of c] c db show ?thesis
    by (auto simp: mcdi_inv_def)
qed

lemma timeout_cmd_ok:
  assumes core: "mcdi_core ext pend acc s" and c: "c \<in> set (cmd_list s)" and db: "db_held_by s = Some c"
  shows "\<exists>s'. efx_mcdi_timeout_cmd ty c s = Some s' \<and> mcdi_inv ext pend acc s' \<and>
    mode s' = MCDI_MODE_FAIL \<and> cmd_list s' = []"
proof -
  obtain k where k: "cmds s c = Some k"
    using core_live [OF core] c by blast
  let ?s = "s\<lparr>efx := mcdi_put_buf ty (cmd_bufid k) (efx s)\<rparr>"
  have "mcdi_core ext pend acc ?s" "c \<in> set (cmd_list ?s)" "db_held_by ?s = Some c"
    using core c db by simp_all
  from fail_after_remove [OF this, of "- ETIMEDOUT" RESET_TYPE_MCDI_TIMEOUT] k show ?thesis
    by (auto simp: efx_mcdi_timeout_cmd_def)
qed

lemma proxy_timeout_cmd_ok:
  assumes core: "mcdi_core ext pend acc s" and c: "c \<in> set (cmd_list s)" and db: "db_held_by s = Some c"
  shows "\<exists>s'. efx_mcdi_proxy_timeout_cmd c s = Some s' \<and> mcdi_inv ext pend acc s' \<and>
    mode s' = MCDI_MODE_FAIL \<and> cmd_list s' = []"
  using fail_after_remove [OF assms, of "- ETIMEDOUT" RESET_TYPE_MCDI_TIMEOUT] by (auto simp: efx_mcdi_proxy_timeout_cmd_def)

subsection \<open>Events and the work item\<close>

text \<open>A completion event, unless the sequence number is out of range or the interface has failed.\<close>

lemma ev_cpl_ok:
  assumes up: "mcdi_up ext pend acc s" and n: "seqno < 16"
    and late: "\<And>c. seq_held_by s ! seqno = Some c \<Longrightarrow> no_late_proxy ty c copybuf (kref_get c s)"
  shows "\<exists>s'. efx_mcdi_ev_cpl_locked ty seqno copybuf s = Some s' \<and> mcdi_inv ext pend acc s'"
proof (cases "seq_held_by s ! seqno")
  case None
  with up n core_basic(2) show ?thesis
    by (auto simp: efx_mcdi_ev_cpl_locked_def mcdi_up_def mcdi_inv_def)
next
  case (Some c)
  obtain k where c: "c \<in> set (cmd_list s)" and k: "cmds s c = Some k" and run: "efx_cmd_running k"
    using up n Some by (fastforce simp: mcdi_up_def seq_ok_def)
  have len: "length (seq_held_by s) = 16"
    using up core_basic(2) by (auto simp: mcdi_up_def)
  let ?e = "ext(c := ext c + 1)" and ?s1 = "kref_get c s"
  have up1: "mcdi_up ?e pend acc ?s1"
    using inv_kref_get [OF up_inv [OF up] k] up by (simp add: inv_up mcdi_up_def)
  have k1: "cmds ?s1 c = Some (k\<lparr>cmd_ref := cmd_ref k + 1\<rparr>)" and c1: "c \<in> set (cmd_list ?s1)"
    using k c by (simp_all add: live_simps)
  have nw: "\<not> waiting (k\<lparr>cmd_ref := cmd_ref k + 1\<rparr>)"
    using run waiting_not_cancelled by auto
  obtain b s2 where s2: "efx_mcdi_complete_cmd ty c copybuf ?s1 = Some (b, s2)" "mcdi_inv ?e pend acc s2"
    using complete_cmd_ok [OF up1 c1 k1 nw late [OF Some]] by blast
  have "mcdi_inv ?e pend acc (if b then cancel_work_and_put c s2 else s2)"
    using s2(2) inv_cancel_work by simp
  from inv_kref_put [OF this, of c]
  have "mcdi_inv ext pend acc (kref_put c (if b then cancel_work_and_put c s2 else s2))"
    by simp
  with Some s2(1) len n show ?thesis
    by (auto simp: efx_mcdi_ev_cpl_locked_def)
qed

text \<open>The work item: \<open>ext\<close> counts its reference. It runs for a command that was sent, or is done.\<close>

lemma cmd_work_ok:
  assumes inv: "mcdi_inv ext pend acc s" and e: "0 < ext c" and k: "cmds s c = Some k"
    and st: "cmd_state k = MCDI_STATE_FINISHED \<or> c \<in> set (cmd_list s) \<and> \<not> waiting k"
    and late: "no_late_proxy ty c copybuf s"
  shows "\<exists>s'. efx_mcdi_cmd_work_locked ty c copybuf s = Some s' \<and> mcdi_inv ext pend acc s'"
proof (cases "cmd_state k = MCDI_STATE_FINISHED")
  case True
  with inv k show ?thesis
    by (simp add: efx_mcdi_cmd_work_locked_def)
next
  case False
  with st have c: "c \<in> set (cmd_list s)" and nw: "\<not> waiting k"
    by auto
  have up: "mcdi_up ext pend acc s" and core: "mcdi_core ext pend acc s"
    using inv c by (auto simp: mcdi_inv_def mcdi_up_def split: if_splits)
  have db: "db_held_by s = Some c"
    using core_live_ok [OF core k] c nw by (simp add: cmd_live_ok_def)
  show ?thesis
    using False k complete_cmd_ok [OF up c k nw late] timeout_cmd_ok [OF core c db, of ty]
      proxy_timeout_cmd_ok [OF core c db] up_inv [OF up_queue_work [OF up k]]
    by (fastforce simp: efx_mcdi_cmd_work_locked_def)
qed

lemma core_list_mem_live: "mcdi_core ext pend acc s \<Longrightarrow> c \<in> set (cmd_list s) \<Longrightarrow> \<exists>k. cmds s c = Some k"
  by (rule core_live) auto

text \<open>A proxy response. The command was not running, so no sequence number is held.\<close>

lemma no_seq_of_proxy:
  assumes up: "mcdi_up ext pend acc s" and k: "cmds s c = Some k" and db: "db_held_by s = Some c"
    and nr: "\<not> efx_cmd_running k" and i: "i < 16"
  shows "seq_held_by s ! i = None"
proof (rule ccontr)
  assume "seq_held_by s ! i \<noteq> None"
  then obtain d k' where d: "d \<in> set (cmd_list s)" "cmds s d = Some k'" "efx_cmd_running k'"
    using up i by (fastforce simp: mcdi_up_def seq_ok_def)
  have "\<not> waiting k'"
    using d(3) waiting_not_cancelled by blast
  moreover have "d \<noteq> c"
    using d(2,3) k nr by auto
  ultimately show False
    using core_other_waiting [OF _ db d(1) _ d(2)] up by (auto simp: mcdi_up_def)
qed

lemma proxy_startable:
  assumes up: "mcdi_up ext pend acc s" and c: "c \<in> set (cmd_list s)" and k: "cmds s c = Some k"
    and st: "cmd_state k = MCDI_STATE_PROXY"
  shows "startable ext pend acc c (s\<lparr>db_held_by := None\<rparr>)"
proof -
  have core: "mcdi_core ext pend acc s"
    using up by (simp add: mcdi_up_def)
  have nw: "\<not> waiting k" and nc: "\<not> efx_cmd_cancelled k" and nr: "\<not> efx_cmd_running k"
    using st by (auto simp: waiting_def efx_cmd_cancelled_def efx_cmd_running_def)
  have db: "db_held_by s = Some c"
    using core_live_ok [OF core k] c nw by (simp add: cmd_live_ok_def)
  let ?t = "s\<lparr>cmds := (cmds s)(c \<mapsto> k\<lparr>cmd_state := MCDI_STATE_QUEUED\<rparr>)\<rparr>"
  have "mcdi_core ext pend acc ?t"
  proof (rule core_updateI [OF core, where c = c])
    show "cmd_ok ext pend acc ?t c"
      using core_cmd_ok [OF core, of c] k c nw nc by (simp add: cmd_ok_def cmd_okv_def cmd_live_ok_def)
  qed (use core_basic [OF core] in auto)
  then have "mcdi_core ext pend acc (?t\<lparr>db_held_by := None\<rparr>)"
    by (rule core_db_free) (use core_other_waiting [OF core db] in \<open>auto split: if_splits\<close>)
  moreover have "queued c (s\<lparr>db_held_by := None\<rparr>) = ?t\<lparr>db_held_by := None\<rparr>"
    using k by (simp add: queued_def live_simps)
  moreover have "seq_ok (?t\<lparr>db_held_by := None\<rparr>)"
    by (rule seq_ok_all_free) (use no_seq_of_proxy [OF up k db nr] in simp)
  ultimately show ?thesis
    using up c by (simp add: startable_def mcdi_up_def)
qed

lemma proxy_response_ok:
  assumes up: "mcdi_up ext pend acc s" and c: "c \<in> set (cmd_list s)" and k: "cmds s c = Some k"
    and st: "cmd_state k = MCDI_STATE_PROXY"
  shows "\<exists>s'. efx_mcdi_proxy_response ty c status s = Some s' \<and> mcdi_inv ext pend acc s'"
proof (cases "status = 0")
  case True
  from start_ext_no_buffer [OF proxy_startable [OF assms], of ty "\<lambda>_. None"] True show ?thesis
    by (auto simp: efx_mcdi_proxy_response_def intro: up_inv)
next
  case False
  have core: "mcdi_core ext pend acc s"
    using up by (simp add: mcdi_up_def)
  have nw: "\<not> waiting k" and nr: "\<not> efx_cmd_running k"
    using st by (auto simp: waiting_def efx_cmd_running_def)
  have db: "db_held_by s = Some c"
    using core_live_ok [OF core k] c nw by (simp add: cmd_live_ok_def)
  let ?e = "ext(c := ext c + 1)"
  define s1 where "s1 = (if status = - EIO \<or> status = - EINTR
      then efx_mcdi_reset_during_cmd ty c (s\<lparr>db_held_by := None\<rparr>) else s\<lparr>db_held_by := None\<rparr>)"
  have "list_live (s\<lparr>db_held_by := None\<rparr>)" and "cmds (s\<lparr>db_held_by := None\<rparr>) c = Some k"
    using core_list_live [OF core] k by (simp_all add: list_live_def)
  then have "quiet (s\<lparr>db_held_by := None\<rparr>) s1"
    using quiet_reset_during_cmd by (simp add: s1_def)
  then have q: "quiet s (s1\<lparr>db_held_by := Some c\<rparr>)" and db1: "db_held_by s1 = None"
    using db by (auto simp: quiet_def)
  obtain k1 where k1: "cmds s1 c = Some k1" and n: "inv_neutral k k1"
    using quiet_cmd [OF q k] by auto
  have up1: "mcdi_up ext pend acc (s1\<lparr>db_held_by := Some c\<rparr>)" and c1: "c \<in> set (cmd_list s1)"
    using up_quiet [OF q up] q c by (auto simp: quiet_def)
  have nr1: "\<not> efx_cmd_running k1"
    using neutral_state [OF n] nr by simp
  have k1': "cmds (s1\<lparr>db_held_by := Some c\<rparr>) c = Some k1" and db1': "db_held_by (s1\<lparr>db_held_by := Some c\<rparr>) = Some c"
    using k1 by simp_all
  have free: "\<forall>i<16. seq_held_by s1 ! i = None"
    using no_seq_of_proxy [OF up1 k1' db1' nr1] by simp
  let ?r = "modify_cmd c (\<lambda>k. k\<lparr>cmd_rc := status\<rparr>) (kref_get c s1)"
  have core_get: "mcdi_core ?e pend acc (kref_get c (s1\<lparr>db_held_by := Some c\<rparr>))"
    by (rule core_kref_get) (use up1 k1 in \<open>auto simp: mcdi_up_def\<close>)
  have "mcdi_core ?e pend acc (modify_cmd c (\<lambda>k. k\<lparr>cmd_rc := status\<rparr>) (kref_get c (s1\<lparr>db_held_by := Some c\<rparr>)))"
    by (rule core_modify_neutral [OF core_get]) simp_all
  moreover have "modify_cmd c (\<lambda>k. k\<lparr>cmd_rc := status\<rparr>) (kref_get c (s1\<lparr>db_held_by := Some c\<rparr>)) =
      ?r\<lparr>db_held_by := Some c\<rparr>"
    using k1 by (simp add: live_simps)
  ultimately have core_r: "mcdi_core ?e pend acc (?r\<lparr>db_held_by := Some c\<rparr>)"
    by simp
  let ?t = "efx_mcdi_remove_cmd c ?r"
  have core_t: "mcdi_core ?e pend acc ?t"
    using core_remove_holder [OF core_r] c1 db1 by simp
  have "mcdi_inv ?e pend acc ?t"
    using core_t up1 free by (simp add: mcdi_inv_def mcdi_up_def seq_ok_all_free)
  from inv_kref_put [OF inv_cancel_work [OF this], of c c]
  have "mcdi_inv ext pend acc (kref_put c (cancel_work_and_put c ?t))"
    by simp
  moreover have "efx_mcdi_proxy_response ty c status s = Some (kref_put c (cancel_work_and_put c ?t))"
    using False by (simp add: efx_mcdi_proxy_response_def s1_def Let_def)
  ultimately show ?thesis by blast
qed

subsection \<open>New commands\<close>

lemma poll_start_ok:
  assumes "sent ext pend acc c s" and "copybuf \<or> n = 0"
  shows "\<exists>s'. poll_start_loop ty (efx_mcdi_complete_cmd ty c copybuf) c n s = Some s' \<and>
    mcdi_inv ext pend acc s'"
  using assms
proof (induction n arbitrary: s)
  case 0
  then obtain k where k: "cmds s c = Some k"
    using sent_live by blast
  from up_queue_work [OF _ k, of ext pend acc] 0 show ?case
    by (auto simp: sent_def intro: up_inv)
next
  case (Suc n)
  then obtain k where k: "cmds s c = Some k" "efx_cmd_running k" "\<not> efx_cmd_cancelled k"
    and up: "mcdi_up ext pend acc s" and c: "c \<in> set (cmd_list s)"
    by (auto simp: sent_def)
  have nw: "\<not> waiting k"
    using k(2) waiting_not_cancelled by blast
  have late: "no_late_proxy ty c copybuf s"
    using k by (simp add: no_late_proxy_def)
  obtain b s' where "efx_mcdi_complete_cmd ty c copybuf s = Some (b, s')" "mcdi_inv ext pend acc s'"
    using complete_cmd_ok [OF up c k(1) nw late] by blast
  moreover have "sent ext pend acc c (s\<lparr>efx := nic_advance (efx s)\<rparr>)"
    by (rule sent_quiet [OF quiet_efx Suc.prems(1)])
  from Suc.IH [OF this] Suc.prems(2) obtain s'' where
    "poll_start_loop ty (efx_mcdi_complete_cmd ty c copybuf) c n (s\<lparr>efx := nic_advance (efx s)\<rparr>) = Some s''"
    "mcdi_inv ext pend acc s''"
    by auto
  ultimately show ?case
    using k(1) by auto
qed

lemma start_cmd_ok:
  assumes "startable ext pend acc c s" and "db_held_by s = None" and "seq < 16"
  shows "\<exists>s'. start_cmd ty (efx_mcdi_complete_cmd ty c copybuf) c copybuf seq bufid s = Some s' \<and>
    mcdi_inv ext pend acc s'"
proof (cases "copybuf \<and> mode s = MCDI_MODE_POLL")
  case True
  have "sent ext pend acc c (send_state ty c seq bufid True s)"
    by (rule send_state_sent(1) [OF assms])
  from poll_start_ok [OF this, of copybuf] True show ?thesis
    by (auto simp: start_cmd_def send_state_def efx_mcdi_poll_start_def Let_def)
next
  case False
  have "start_cmd ty (efx_mcdi_complete_cmd ty c copybuf) c copybuf seq bufid s =
      start_cmd ty (efx_mcdi_complete_cmd ty c copybuf) c False seq bufid s"
    using False by (cases copybuf) (simp_all add: start_cmd_def Let_def)
  with start_cmd_no_buffer [OF assms, of ty "efx_mcdi_complete_cmd ty c copybuf" bufid] show ?thesis
    by (auto intro: up_inv)
qed

text \<open>A fresh address is not known to the invariant.\<close>

lemma core_fresh:
  assumes core: "mcdi_core ext pend acc s"
  shows "cmds s (next_cmd s) = None" "next_cmd s \<notin> set (cmd_list s)" "next_cmd s \<notin> acc"
    "count_list (cleanup s) (next_cmd s) = 0" "ext (next_cmd s) = 0" "n_completed s (next_cmd s) = 0"
    "pend (next_cmd s) = 0"
proof -
  have ok: "cmd_ok ext pend acc s (next_cmd s)"
    by (rule core_cmd_ok [OF core])
  then show n: "cmds s (next_cmd s) = None"
    by (cases "cmds s (next_cmd s)") (auto simp: cmd_ok_def cmd_okv_def)
  show "next_cmd s \<notin> set (cmd_list s)" "next_cmd s \<notin> acc"
    "count_list (cleanup s) (next_cmd s) = 0" "ext (next_cmd s) = 0" "n_completed s (next_cmd s) = 0"
    "pend (next_cmd s) = 0"
    using ok n by (auto simp: cmd_ok_def cmd_okv_def)
qed

text \<open>A command that is rejected leaves nothing behind but its used-up address and handle.\<close>

lemma inv_rejected:
  assumes inv: "mcdi_inv ext pend acc s"
  shows "mcdi_inv ext pend acc (s\<lparr>next_cmd := next_cmd s + 1, prev_handle := h, cmds := (cmds s)(next_cmd s := None)\<rparr>)"
    (is "mcdi_inv _ _ _ ?t")
proof -
  have core: "mcdi_core ext pend acc s"
    using inv by (simp add: mcdi_inv_def)
  note fr = core_fresh [OF core]
  have "mcdi_core ext pend acc ?t"
  proof (rule core_updateI [OF core, where c = "next_cmd s"])
    show "cmd_ok ext pend acc ?t (next_cmd s)"
      using fr by (simp add: cmd_ok_def cmd_okv_def)
  qed (use core_basic [OF core] in auto)
  moreover have "seq_ok ?t" if "seq_ok s"
    by (rule seq_ok_keep [OF that]) (use fr in auto)
  ultimately show ?thesis
    using inv by (auto simp: mcdi_inv_def)
qed

definition accept :: "cmd_ptr \<Rightarrow> int \<Rightarrow> nat option \<Rightarrow> cmd_ptr set \<Rightarrow> cmd_ptr set" where
  "accept c rc completer acc = (if rc = 0 \<and> completer \<noteq> None then insert c acc else acc)"

lemma rpc_async_internal_ok:
  assumes inv: "mcdi_inv ext pend acc s"
    and new: "new_cmd junk cmd inbuf atomic_completer completer cookie qt s = (c, s1)"
  shows "\<exists>rc h s'. efx_mcdi_rpc_async_internal_locked ty c immediate_poll copybuf immediate_only s1 = Some (rc, h, s') \<and>
    mcdi_inv ext pend (accept c rc completer acc) s'"
proof -
  have core: "mcdi_core ext pend acc s"
    using inv by (simp add: mcdi_inv_def)
  note fr = core_fresh [OF core]
  define k where "k = junk\<lparr>cmd_ref := 1, cmd_quiet := qt, cmd_cookie := cookie,
          cmd_completer := completer, cmd_atomic_completer := atomic_completer, cmd_cmd := cmd,
          cmd_inlen := length inbuf, cmd_inbuf := inbuf\<rparr>"
  have c: "c = next_cmd s" and s1: "s1 = s\<lparr>next_cmd := next_cmd s + 1, cmds := (cmds s)(c \<mapsto> k)\<rparr>"
    using new by (auto simp: new_cmd_def k_def)
  have k1: "cmds s1 c = Some k" and ref: "cmd_ref k = 1" "cmd_inlen k = length inbuf" "cmd_cmd k = cmd"
    by (simp_all add: s1 k_def)
  define s0 where "s0 = s\<lparr>next_cmd := next_cmd s + 1, prev_handle := prev_handle s, cmds := (cmds s)(next_cmd s := None)\<rparr>"
  have inv0: "mcdi_inv ext pend acc s0"
    unfolding s0_def by (rule inv_rejected [OF inv])
  have put1: "kref_put c s1 = s0" "kref_put c (modify_cmd c init_cmd s1) = s0"
    using ref by (simp_all add: s0_def s1 c live_simps init_cmd_def)
  show ?thesis
  proof (cases "efx_mcdi_check_supported ty cmd (length inbuf) \<noteq> 0 \<or> nic_mc_bist_for_other_fn (efx s) \<or>
      mode s = MCDI_MODE_FAIL")
    case True
    have "efx s1 = efx s" "mode (modify_cmd c init_cmd s1) = mode s"
      by (simp_all add: s1)
    with True k1 ref put1 inv0 show ?thesis
      by (auto simp: efx_mcdi_rpc_async_internal_locked_def Let_def accept_def errno_defs)
  next
    case False
    have len: "length inbuf \<le> MCDI_CTL_SDU_LEN_MAX_V2"
      using False by (auto simp: efx_mcdi_check_supported_def errno_defs split: if_splits)
    define h where "h = prev_handle s"
    define s2 where "s2 = modify_cmd c (\<lambda>k. k\<lparr>cmd_handle := h\<rparr>)
        (modify_cmd c init_cmd s1\<lparr>prev_handle := h + 1, cmd_list := cmd_list s @ [c]\<rparr>)"
    define acc' where "acc' = (if completer \<noteq> None then insert c acc else acc)"
    let ?k = "init_cmd k\<lparr>cmd_handle := h\<rparr>"
    have s2: "s2 = s\<lparr>next_cmd := next_cmd s + 1, prev_handle := h + 1, cmd_list := cmd_list s @ [c],
        cmds := (cmds s)(c \<mapsto> ?k)\<rparr>"
      by (simp add: s2_def s1 live_simps)
    have q2: "queued c s2 = s\<lparr>next_cmd := next_cmd s + 1, prev_handle := h + 1, cmd_list := cmd_list s @ [c],
        cmds := (cmds s)(c \<mapsto> ?k\<lparr>cmd_state := MCDI_STATE_QUEUED\<rparr>)\<rparr>"
      by (simp add: queued_def s2 live_simps)
    have kf: "cmd_ref (init_cmd k) = 1" "cmd_work (init_cmd k) = None" "cmd_completer (init_cmd k) = completer"
      "cmd_inlen (init_cmd k) = length inbuf"
      by (simp_all add: init_cmd_def k_def)
    have "mcdi_core ext pend acc' (queued c s2)"
    proof (rule core_updateI [OF core, where c = c])
      show "cmd_ok ext pend acc' (queued c s2) c"
        using fr len kf unfolding q2
        by (auto simp: cmd_ok_def cmd_okv_def cmd_live_ok_def acc'_def c)
      show "distinct (cmd_list (queued c s2))"
        using fr(2) core_basic(1) [OF core] unfolding q2 by (simp add: c)
    qed (use core_basic [OF core] in \<open>unfold q2, auto simp: acc'_def c\<close>)
    moreover have "seq_ok (queued c s2)"
      unfolding q2 by (rule seq_ok_keep [of s]) (use inv False fr(2) in \<open>auto simp: mcdi_inv_def c\<close>)
    ultimately have st: "startable ext pend acc' c s2"
      using False by (simp add: startable_def mcdi_up_def) (simp add: s2)
    have eq: "efx_mcdi_rpc_async_internal_locked ty c immediate_poll copybuf immediate_only s1 =
        (case efx_mcdi_cmd_start_or_queue_ext ty (efx_mcdi_complete_cmd ty c (immediate_poll \<and> copybuf))
            c (immediate_poll \<and> copybuf) immediate_only s2 of None \<Rightarrow> None
         | Some (rc, t) \<Rightarrow> Some (rc, Some h, if rc \<noteq> 0 then kref_put c (list_del_cmd c t) else t))"
      using False k1 ref
      by (simp add: efx_mcdi_rpc_async_internal_locked_def Let_def s2_def h_def s1 modify_cmd_live
          split: option.splits)
    show ?thesis
    proof (cases rule: start_ext_cases [OF st, of ty "efx_mcdi_complete_cmd ty c (immediate_poll \<and> copybuf)"
          "immediate_poll \<and> copybuf" immediate_only, case_names queue start])
      case queue
      have "kref_put c (list_del_cmd c s2) =
          s\<lparr>next_cmd := next_cmd s + 1, prev_handle := h + 1, cmds := (cmds s)(next_cmd s := None)\<rparr>"
        using kf fr(2) by (simp add: s2 list_del_cmd_def live_simps c remove1_append)
      with inv_rejected [OF inv, of "h + 1"] up_inv st queue show ?thesis
        by (auto simp: eq accept_def acc'_def startable_def errno_defs)
    next
      case (start seq bufid nic)
      obtain t where "start_cmd ty (efx_mcdi_complete_cmd ty c (immediate_poll \<and> copybuf)) c
          (immediate_poll \<and> copybuf) seq bufid (s2\<lparr>efx := nic\<rparr>) = Some t" "mcdi_inv ext pend acc' t"
        using start_cmd_ok [of ext pend acc' c "s2\<lparr>efx := nic\<rparr>" seq ty "immediate_poll \<and> copybuf" bufid]
          st start(1,2) by auto
      with start(4) show ?thesis
        by (auto simp: eq accept_def acc'_def)
    qed
  qed
qed

subsection \<open>Cancelling, mode changes, the death event\<close>

lemma cancel_cmd_ok:
  assumes inv: "mcdi_inv ext pend acc s"
  shows "mcdi_inv ext pend acc (efx_mcdi_cancel_cmd_1 h s)"
proof (cases "find (has_handle s h) (cmd_list s)")
  case None
  with inv show ?thesis by (simp add: efx_mcdi_cancel_cmd_1_def)
next
  case (Some c)
  have core: "mcdi_core ext pend acc s"
    using inv by (simp add: mcdi_inv_def)
  have c: "c \<in> set (cmd_list s)"
    using Some find_Some_iff_set by fast
  then obtain k where k: "cmds s c = Some k"
    using core_list_mem_live [OF core] by blast
  have sq: "seq_ok s" "mode s \<noteq> MCDI_MODE_FAIL"
    using inv c by (auto simp: mcdi_inv_def split: if_splits)
  note one = core_cancel_one [OF core c k]
  have "seq_ok (cancel_one c s)"
    unfolding seq_ok_def
  proof (intro allI impI)
    fix i d
    assume "i < 16" "seq_held_by (cancel_one c s) ! i = Some d"
    then obtain k' where d: "d \<in> set (cmd_list s)" "cmds s d = Some k'" "efx_cmd_running k'" "cmd_seq k' = i"
      using sq(1) one(2) by (fastforce simp: seq_ok_def ctl_same_def)
    have nw: "\<not> waiting k'"
      using d(3) waiting_not_cancelled by blast
    show "d \<in> set (cmd_list (cancel_one c s)) \<and>
        (\<exists>k. cmds (cancel_one c s) d = Some k \<and> efx_cmd_running k \<and> cmd_seq k = i)"
    proof (cases "d = c")
      case True
      with d k nw one(3) one(5) show ?thesis by auto
    next
      case False
      with d one(3) one(4) show ?thesis by (auto split: if_splits)
    qed
  qed
  with one(1,2) sq Some show ?thesis
    by (auto simp: efx_mcdi_cancel_cmd_1_def mcdi_inv_def ctl_same_def)
qed

lemma inv_list_live: "mcdi_inv ext pend acc s \<Longrightarrow> list_live s"
  by (auto simp: mcdi_inv_def intro: core_list_live)

lemma mode_poll_ok: "mcdi_inv ext pend acc s \<Longrightarrow> mcdi_inv ext pend acc (efx_mcdi_mode_poll_1 s)"
  using inv_quiet quiet_mode_poll inv_list_live by blast

lemma mode_event_ok: "mcdi_inv ext pend acc s \<Longrightarrow> mcdi_inv ext pend acc (efx_mcdi_mode_event s)"
  using inv_quiet quiet_mode_event by blast

lemma ev_death_ok:
  assumes inv: "mcdi_inv ext pend acc s" and "bist \<longrightarrow> mcdi_record_bist_event ty \<noteq> None"
  shows "mcdi_inv ext pend acc (efx_mcdi_ev_death ty bist s)"
proof -
  define s1 where "s1 = (if bist then
      (case mcdi_record_bist_event ty of
        None \<Rightarrow> fault Null_Call (s\<lparr>efx := (efx s)\<lparr>nic_mc_bist_for_other_fn := True\<rparr>\<rparr>)
      | Some f \<Rightarrow> s\<lparr>efx := f ((efx s)\<lparr>nic_mc_bist_for_other_fn := True\<rparr>)\<rparr>) else s)"
  have q: "quiet s s1"
    using assms(2) by (auto simp: s1_def)
  have q2: "quiet s1 (efx_mcdi_reboot_detected ty s1)"
    by (rule quiet_reboot_detected [OF quiet_list_live [OF q inv_list_live [OF inv]]])
  have "quiet s (efx_mcdi_ev_death ty bist s)"
    using quiet_trans [OF q q2]
    by (cases bist)
      (simp_all add: efx_mcdi_ev_death_def efx_mcdi_ev_death_locked_def s1_def Let_def split: option.splits)
  with inv show ?thesis
    using inv_quiet by blast
qed

subsection \<open>Cleanup lists\<close>

text \<open>
  Releasing the lock: the commands on the thread's cleanup list become references held by the
  thread, and pending completions.
\<close>

lemma inv_unlock:
  assumes inv: "mcdi_inv ext pend acc s"
  shows "mcdi_inv (\<lambda>c. ext c + count_list (cleanup s) c) (\<lambda>c. pend c + count_list (cleanup s) c) acc
    (s\<lparr>cleanup := []\<rparr>)"
proof -
  have core: "mcdi_core ext pend acc s"
    using inv by (simp add: mcdi_inv_def)
  have "cmd_ok (\<lambda>c. ext c + count_list (cleanup s) c) (\<lambda>c. pend c + count_list (cleanup s) c) acc
      (s\<lparr>cleanup := []\<rparr>) d" for d
    using core_cmd_ok [OF core, of d]
    by (cases "cmds s d") (auto simp: cmd_ok_def cmd_okv_def cmd_live_ok_def)
  then have "mcdi_core (\<lambda>c. ext c + count_list (cleanup s) c) (\<lambda>c. pend c + count_list (cleanup s) c) acc
      (s\<lparr>cleanup := []\<rparr>)"
    using core_basic [OF core] by (simp add: mcdi_core_def)
  moreover have "seq_ok (s\<lparr>cleanup := []\<rparr>)" if "seq_ok s"
    by (rule seq_ok_keep [OF that]) auto
  ultimately show ?thesis
    using inv by (auto simp: mcdi_inv_def)
qed

lemma completer_ok:
  assumes inv: "mcdi_inv ext pend acc s" and e: "0 < ext c" and p: "0 < pend c"
  shows "mcdi_inv ext (pend(c := pend c - 1)) acc (call_completer c s)"
proof -
  have core: "mcdi_core ext pend acc s"
    using inv by (simp add: mcdi_inv_def)
  obtain k where k: "cmds s c = Some k"
    using core_live [OF core] e by blast
  have okc: "cmd_ok ext pend acc s c"
    by (rule core_cmd_ok [OF core])
  then have ca: "c \<in> acc"
    using k p by (cases "c \<in> acc") (auto simp: cmd_ok_def cmd_okv_def)
  then have "cmd_completer k \<noteq> None"
    using core_live_ok [OF core k] by (simp add: cmd_live_ok_def)
  then have eq: "call_completer c s = s\<lparr>completions := completions s @
      [Completer c (cmd_cookie k) (cmd_rc k) (cmd_outbuf k) (cmd_outlen k)]\<rparr>"
    using k by (auto simp: call_completer_def)
  have "mcdi_core ext (pend(c := pend c - 1)) acc (call_completer c s)"
  proof (rule core_updateI [OF core, where c = c])
    show "cmd_ok ext (pend(c := pend c - 1)) acc (call_completer c s) c"
      using okc k p ca
      by (cases "c \<in> set (cmd_list s) \<longrightarrow> efx_cmd_cancelled k")
        (auto simp: eq cmd_ok_def cmd_okv_def n_completed_def add_is_1)
  qed (use core_basic [OF core] in \<open>auto simp: eq n_completed_def\<close>)
  moreover have "seq_ok (call_completer c s)" if "seq_ok s"
    by (rule seq_ok_keep [OF that]) (auto simp: eq)
  ultimately show ?thesis
    using inv by (auto simp: mcdi_inv_def eq)
qed

lemma inv_outstanding [simp]:
  "mcdi_inv ext pend acc (s\<lparr>outstanding_cleanups := n\<rparr>) = mcdi_inv ext pend acc s"
  by (simp add: mcdi_inv_def seq_ok_def)

lemma run_cleanups_ok:
  assumes "mcdi_inv (\<lambda>c. ext c + count_list cl c) (\<lambda>c. pend c + count_list cl c) acc s"
  shows "mcdi_inv ext pend acc (run_cleanups cl s)"
  using assms
proof (induction cl arbitrary: s)
  case (Cons c cl)
  let ?e = "\<lambda>d. ext d + count_list (c # cl) d" and ?p = "\<lambda>d. pend d + count_list (c # cl) d"
  have "mcdi_inv ?e (?p(c := ?p c - 1)) acc (call_completer c s)"
    by (rule completer_ok [OF Cons.prems]) simp_all
  then have "mcdi_inv (?e(c := ?e c - 1)) (?p(c := ?p c - 1)) acc (kref_put c (call_completer c s))"
    by (rule inv_kref_put) simp
  moreover have "?e(c := ?e c - 1) = (\<lambda>d. ext d + count_list cl d)"
    "?p(c := ?p c - 1) = (\<lambda>d. pend d + count_list cl d)"
    by auto
  ultimately show ?case
    using Cons.IH by simp
qed simp

lemma cleanup_list_ok:
  assumes "mcdi_inv (\<lambda>c. ext c + count_list cl c) (\<lambda>c. pend c + count_list cl c) acc s"
  shows "mcdi_inv ext pend acc (efx_mcdi_process_cleanup_list cl s)"
  using run_cleanups_ok [OF assms] by (simp add: efx_mcdi_process_cleanup_list_def Let_def)

lemma unlock_and_clean_ok:
  "mcdi_inv ext pend acc s \<Longrightarrow> mcdi_inv ext pend acc (unlock_and_clean s)"
  unfolding unlock_and_clean_def by (rule cleanup_list_ok [OF inv_unlock])

subsection \<open>Function level reset\<close>

lemma flr_abort_ok:
  assumes core: "mcdi_core ext pend acc s" and lst: "cmd_list s = c # cs" and k: "cmds s c = Some k"
  shows "mcdi_core ext pend acc (flr_abort ty c k s)" and "cmd_list (flr_abort ty c k s) = cs"
proof -
  define s1 where "s1 = modify_cmd c (\<lambda>k. k\<lparr>cmd_rc := - EIO\<rparr>) (kref_get c s)"
  define s2 where "s2 = (if efx_cmd_running k then s1\<lparr>efx := mcdi_put_buf ty (cmd_bufid k) (efx s1)\<rparr> else s1)"
  have eq: "flr_abort ty c k s = kref_put c (cancel_work_and_put c (efx_mcdi_remove_cmd c s2))"
    unfolding flr_abort_def s2_def s1_def Let_def ..
  have c: "c \<in> set (cmd_list s2)" and lst2: "cmd_list s2 = c # cs"
    by (simp_all add: s2_def s1_def lst)
  have "mcdi_core (ext(c := ext c + 1)) pend acc s1"
    unfolding s1_def by (rule core_modify_neutral [OF core_kref_get [OF core k]]) simp_all
  then have "mcdi_core (ext(c := ext c + 1)) pend acc s2"
    by (simp add: s2_def)
  from core_remove_cmd(1) [OF this c]
  have "mcdi_core (ext(c := ext c + 1)) pend acc (cancel_work_and_put c (efx_mcdi_remove_cmd c s2))"
    by (rule core_cancel_work)
  from core_kref_put [OF this, of c] show "mcdi_core ext pend acc (flr_abort ty c k s)"
    by (simp add: eq)
  have "cmd_list (efx_mcdi_remove_cmd c s2) = cs"
    using core_remove_cmd(2) [OF \<open>mcdi_core (ext(c := ext c + 1)) pend acc s2\<close> c] lst2 by simp
  then show "cmd_list (flr_abort ty c k s) = cs"
    by (simp add: eq)
qed

lemma flr_loop_ok:
  assumes "mcdi_core ext pend acc s"
  shows "\<exists>s'. flr_loop ty s = Some s' \<and> mcdi_core ext pend acc s' \<and> cmd_list s' = []"
  using assms
proof (induction "cmd_list s" arbitrary: s)
  case Nil
  then show ?case
    by (simp add: flr_loop.simps)
next
  case (Cons c cs)
  note lst = Cons.hyps(2) [symmetric]
  obtain k where k: "cmds s c = Some k"
    using core_live [OF Cons.prems, of c] lst by auto
  have "flr_loop ty s = flr_loop ty (flr_abort ty c k s)"
    by (subst flr_loop.simps) (simp add: lst k)
  with Cons.hyps(1) [OF _ flr_abort_ok(1) [OF Cons.prems lst k]] flr_abort_ok(2) [OF Cons.prems lst k]
  show ?case
    by simp
qed

lemma flr_ok:
  assumes "mcdi_inv ext pend acc s"
  shows "\<exists>s'. efx_flr_locked ty s = Some s' \<and> mcdi_inv ext pend acc s' \<and> mode s' = MCDI_MODE_POLL \<and>
    cmd_list s' = [] \<and> db_held_by s' = None \<and> seq_held_by s' = replicate 16 None"
proof -
  obtain t where t: "flr_loop ty s = Some t" "mcdi_core ext pend acc t" "cmd_list t = []"
    using flr_loop_ok [of ext pend acc s ty] assms by (auto simp: mcdi_inv_def)
  have "mcdi_core ext pend acc (t\<lparr>db_held_by := None\<rparr>)"
    by (rule core_db_free [OF t(2)]) (simp add: t(3))
  then have "mcdi_core ext pend acc (t\<lparr>db_held_by := None, seq_held_by := replicate 16 None\<rparr>)"
    by (simp add: mcdi_core_def cmd_ok_def)
  then have "mcdi_core ext pend acc (t\<lparr>db_held_by := None, seq_held_by := replicate 16 None, mode := MCDI_MODE_POLL\<rparr>)"
    by simp
  then show ?thesis
    using t core_basic(2) [OF t(2)] by (simp add: efx_flr_locked_def mcdi_inv_def seq_ok_def)
qed

end
