(* ===== verification/Mcdi_System.thy ===== *)
theory Mcdi_System
  imports Mcdi_Events
begin

section \<open>The management interface as a system\<close>

text \<open>
  The driver's threads take steps on the shared interface. A step is what a thread does while it
  holds \<open>iface_lock\<close>, or one completion from a cleanup list, which is processed without the lock.
  \<open>handlers\<close> are the work items that left the work queue and wait for the lock; \<open>cleaners\<close> are
  the cleanup lists of threads that released it, each with its length (\<open>processed\<close> of
  \<open>efx_mcdi_process_cleanup_list\<close>); \<open>accepted\<close> collects the commands that were accepted and have a
  completion function.

  A step carries the event it serves. It has no premises but the conditions of the code, so it includes
  every event that can come; \<open>expected\<close> names the events that the code handles:
  \<^item> a completion event has a sequence number below 16; if a command still holds that number, the
    interface has not failed, and a cancelled command is not answered \<open>PROXY_PENDING\<close>;
  \<^item> the event of a built-in self test comes only to a controller type with \<open>mcdi_record_bist_event\<close>;
  \<^item> a work item that gets the lock finds its command finished, or on the list and sent (not answered
    \<open>QUEUE_FULL\<close> meanwhile, nor cancelled and answered), and not a cancelled command with an answer
    \<open>PROXY_PENDING\<close>.
  Each other event breaks the invariant; the theory \<open>Mcdi_Findings\<close> has the runs. \<open>mcdi_reach\<close> holds the
  states that runs of expected events reach.
\<close>

record mcdi_sys =
  iface :: mcdi
  handlers :: "cmd_ptr list"
  cleaners :: "(cmd_ptr list \<times> nat) list"
  accepted :: "cmd_ptr set"

text \<open>\<open>efx_mcdi_init\<close>: the interface structure is allocated zeroed, in polled mode.\<close>

definition efx_mcdi_init :: "efx_nic \<Rightarrow> mcdi" where
  "efx_mcdi_init nic = \<lparr>efx = nic, cmds = (\<lambda>_. None), next_cmd = 0, outstanding_cleanups = 0, cmd_list = [],
     db_held_by = None, seq_held_by = replicate 16 None, prev_handle = 0, mode = MCDI_MODE_POLL,
     prev_seq = 0, new_epoch = True, cleanup = [], completions = [], faults = []\<rparr>"

definition sys_init :: "efx_nic \<Rightarrow> mcdi_sys" where
  "sys_init nic = \<lparr>iface = efx_mcdi_init nic, handlers = [], cleaners = [], accepted = {}\<rparr>"

text \<open>Releasing the lock: the thread goes on with its cleanup list.\<close>

definition unlock :: "mcdi \<Rightarrow> mcdi_sys \<Rightarrow> mcdi_sys" where
  "unlock s y = y\<lparr>iface := s\<lparr>cleanup := []\<rparr>,
     cleaners := (cleanup s, length (cleanup s)) # cleaners y\<rparr>"

datatype mcdi_ev =
    Ev_Rpc | Ev_Cancel | Ev_Cpl nat bool | Ev_Proxy | Ev_Death bool | Ev_Mode_Poll | Ev_Mode_Event | Ev_Flr
  | Ev_Fire cmd_ptr | Ev_Work cmd_ptr bool | Ev_Clean | Ev_Clean_Done | Ev_Env | Ev_Epoch

inductive mcdi_step :: "efx_nic_type \<Rightarrow> mcdi_ev \<Rightarrow> mcdi_sys \<Rightarrow> mcdi_sys \<Rightarrow> bool" for ty where
  Rpc: "new_cmd junk cmd inbuf atomic_completer completer cookie qt (iface y) = (c, s) \<Longrightarrow>
    efx_mcdi_rpc_async_internal_locked ty c immediate_poll copybuf immediate_only s = Some (rc, h, s') \<Longrightarrow>
    mcdi_step ty Ev_Rpc y (unlock s' (y\<lparr>accepted := accept c rc completer (accepted y)\<rparr>))"
| Cancel: "mcdi_step ty Ev_Cancel y (unlock (efx_mcdi_cancel_cmd_1 h (iface y)) y)"
| Cpl: "efx_mcdi_ev_cpl_locked ty seqno copybuf (iface y) = Some s' \<Longrightarrow>
    mcdi_step ty (Ev_Cpl seqno copybuf) y (unlock s' y)"
| Proxy: "efx_mcdi_ev_proxy_response_locked ty h status (iface y) = Some s' \<Longrightarrow>
    mcdi_step ty Ev_Proxy y (unlock s' y)"
| Death: "mcdi_step ty (Ev_Death bist) y (unlock (efx_mcdi_ev_death_locked ty bist (iface y)) y)"
| Mode_Poll: "mcdi_step ty Ev_Mode_Poll y (unlock (efx_mcdi_mode_poll_1 (iface y)) y)"
| Mode_Event: "mcdi_step ty Ev_Mode_Event y (unlock (efx_mcdi_mode_event (iface y)) y)"
| Flr: "efx_flr_locked ty (iface y) = Some s' \<Longrightarrow> mcdi_step ty Ev_Flr y (unlock s' y)"
| Fire: "cmds (iface y) c = Some k \<Longrightarrow> cmd_work k \<noteq> None \<Longrightarrow>
    mcdi_step ty (Ev_Fire c) y
      (y\<lparr>iface := modify_cmd c (\<lambda>k. k\<lparr>cmd_work := None\<rparr>) (iface y), handlers := c # handlers y\<rparr>)"
| Work: "c \<in> set (handlers y) \<Longrightarrow>
    efx_mcdi_cmd_work_locked ty c copybuf (iface y) = Some s' \<Longrightarrow>
    mcdi_step ty (Ev_Work c copybuf) y (unlock (kref_put c s') (y\<lparr>handlers := remove1 c (handlers y)\<rparr>))"
| Clean: "cleaners y = pre @ (c # cl, n) # post \<Longrightarrow>
    mcdi_step ty Ev_Clean y (y\<lparr>iface := kref_put c (call_completer c (iface y)),
      cleaners := pre @ (cl, n) # post\<rparr>)"
| Clean_Done: "cleaners y = pre @ ([], n) # post \<Longrightarrow>
    mcdi_step ty Ev_Clean_Done y
      (y\<lparr>iface := (iface y)\<lparr>outstanding_cleanups := outstanding_cleanups (iface y) - of_nat n\<rparr>,
      cleaners := pre @ post\<rparr>)"
| Env: "mcdi_step ty Ev_Env y (y\<lparr>iface := (iface y)\<lparr>efx := nic\<rparr>\<rparr>)"
| Epoch: "mcdi_step ty Ev_Epoch y (y\<lparr>iface := (iface y)\<lparr>new_epoch := True\<rparr>\<rparr>)"

inductive_cases cpl_step: "mcdi_step ty (Ev_Cpl seqno copybuf) y y'"
inductive_cases death_step: "mcdi_step ty (Ev_Death bist) y y'"
inductive_cases flr_step: "mcdi_step ty Ev_Flr y y'"

fun expected :: "efx_nic_type \<Rightarrow> mcdi_sys \<Rightarrow> mcdi_ev \<Rightarrow> bool" where
  "expected ty y (Ev_Cpl seqno copybuf) \<longleftrightarrow> seqno < 16 \<and>
     (case seq_held_by (iface y) ! seqno of
        None \<Rightarrow> True
      | Some c \<Rightarrow> mode (iface y) \<noteq> MCDI_MODE_FAIL \<and> no_late_proxy ty c copybuf (kref_get c (iface y)))"
| "expected ty y (Ev_Death bist) \<longleftrightarrow> bist \<longrightarrow> mcdi_record_bist_event ty \<noteq> None"
| "expected ty y (Ev_Work c copybuf) \<longleftrightarrow> no_late_proxy ty c copybuf (iface y) \<and>
     (case cmds (iface y) c of
        None \<Rightarrow> False
      | Some k \<Rightarrow> cmd_state k = MCDI_STATE_FINISHED \<or> c \<in> set (cmd_list (iface y)) \<and> \<not> waiting k)"
| "expected ty y _ \<longleftrightarrow> True"

inductive mcdi_reach :: "efx_nic_type \<Rightarrow> mcdi_sys \<Rightarrow> bool" for ty where
  reach_init: "mcdi_reach ty (sys_init nic)"
| reach_step: "mcdi_reach ty y \<Longrightarrow> mcdi_step ty e y y' \<Longrightarrow> expected ty y e \<Longrightarrow> mcdi_reach ty y'"

subsection \<open>The invariant of the system\<close>

definition in_cleaners :: "mcdi_sys \<Rightarrow> cmd_ptr \<Rightarrow> nat" where
  "in_cleaners y c = sum_list (map (\<lambda>(cl, n). count_list cl c) (cleaners y))"

definition sys_refs :: "mcdi_sys \<Rightarrow> cmd_ptr \<Rightarrow> nat" where
  "sys_refs y c = count_list (handlers y) c + in_cleaners y c"

definition sys_inv :: "mcdi_sys \<Rightarrow> bool" where
  "sys_inv y \<longleftrightarrow> mcdi_inv (sys_refs y) (in_cleaners y) (accepted y) (iface y) \<and> cleanup (iface y) = []"

lemma inv_init: "mcdi_inv (\<lambda>_. 0) (\<lambda>_. 0) {} (efx_mcdi_init nic)"
  by (simp add: mcdi_inv_def mcdi_core_def efx_mcdi_init_def cmd_ok_def cmd_okv_def n_completed_def seq_ok_def)

lemma sys_inv_init: "sys_inv (sys_init nic)"
proof -
  have "sys_refs (sys_init nic) = (\<lambda>_. 0)" "in_cleaners (sys_init nic) = (\<lambda>_. 0)"
    by (auto simp: sys_refs_def in_cleaners_def sys_init_def)
  with inv_init show ?thesis
    by (simp add: sys_inv_def) (simp add: sys_init_def efx_mcdi_init_def)
qed

lemma unlock_fields [simp]:
  "iface (unlock s y) = s\<lparr>cleanup := []\<rparr>" "handlers (unlock s y) = handlers y"
  "accepted (unlock s y) = accepted y"
  "in_cleaners (unlock s y) = (\<lambda>c. in_cleaners y c + count_list (cleanup s) c)"
  by (auto simp: unlock_def in_cleaners_def)

lemma sys_unlock:
  assumes "mcdi_inv (sys_refs y) (in_cleaners y) (accepted y) s"
  shows "sys_inv (unlock s y)"
proof -
  have "sys_refs (unlock s y) = (\<lambda>c. sys_refs y c + count_list (cleanup s) c)"
    by (auto simp: sys_refs_def)
  with inv_unlock [OF assms] show ?thesis
    by (simp add: sys_inv_def)
qed

lemma ev_proxy_ok:
  assumes inv: "mcdi_inv ext pend acc s"
  shows "\<exists>s'. efx_mcdi_ev_proxy_response_locked ty h status s = Some s' \<and> mcdi_inv ext pend acc s'"
proof (cases "find (has_proxy_handle s h) (cmd_list s)")
  case None
  with inv show ?thesis
    using inv_quiet [of s "efx_schedule_reset RESET_TYPE_WORLD s"]
    by (simp add: efx_mcdi_ev_proxy_response_locked_def)
next
  case (Some c)
  then have c: "c \<in> set (cmd_list s)" and "has_proxy_handle s h c"
    using find_Some_iff_set by fast+
  then obtain k where k: "cmds s c = Some k" "cmd_state k = MCDI_STATE_PROXY"
    by (auto simp: has_proxy_handle_def split: option.splits)
  have "mcdi_up ext pend acc s"
    using inv c by (auto simp: mcdi_inv_def mcdi_up_def split: if_splits)
  from proxy_response_ok [OF this c k] Some show ?thesis
    by (simp add: efx_mcdi_ev_proxy_response_locked_def)
qed

lemma count_list_mem: "c \<in> set xs \<Longrightarrow> 0 < count_list xs c"
  by (simp add: count_list_0_iff zero_less_iff_neq_zero)

lemma in_cleaners_split:
  "in_cleaners (y\<lparr>cleaners := pre @ (cl, n) # post\<rparr>) c =
     in_cleaners (y\<lparr>cleaners := pre @ post\<rparr>) c + count_list cl c"
  by (simp add: in_cleaners_def)

lemma in_cleaners_same: "cleaners y = cls \<Longrightarrow> in_cleaners (y\<lparr>cleaners := cls\<rparr>) = in_cleaners y"
  by (auto simp: in_cleaners_def)

lemma sys_refs_update:
  "sys_refs (y\<lparr>accepted := a\<rparr>) = sys_refs y" "in_cleaners (y\<lparr>accepted := a\<rparr>) = in_cleaners y"
  "in_cleaners (y\<lparr>handlers := hs\<rparr>) = in_cleaners y" "in_cleaners (y\<lparr>iface := s\<rparr>) = in_cleaners y"
  "sys_refs (y\<lparr>iface := s\<rparr>) = sys_refs y"
  "sys_refs (y\<lparr>handlers := c # handlers y\<rparr>) = (sys_refs y)(c := sys_refs y c + 1)"
  by (auto simp: sys_refs_def in_cleaners_def)

lemma sys_refs_remove:
  "c \<in> set (handlers y) \<Longrightarrow>
    sys_refs (y\<lparr>handlers := remove1 c (handlers y)\<rparr>) = (sys_refs y)(c := sys_refs y c - 1)"
  using count_list_mem [of c "handlers y"]
  by (auto simp: sys_refs_def in_cleaners_def count_list_remove1)

lemma sys_fire:
  assumes inv: "mcdi_inv ext pend acc s" and k: "cmds s c = Some k" "cmd_work k \<noteq> None"
  shows "mcdi_inv (ext(c := ext c + 1)) pend acc (modify_cmd c (\<lambda>k. k\<lparr>cmd_work := None\<rparr>) s)"
proof -
  have "seq_ok (modify_cmd c (\<lambda>k. k\<lparr>cmd_work := None\<rparr>) s)" if "seq_ok s"
    by (rule seq_ok_keep [OF that]) (use work_clear_on_list in auto)
  with inv core_work_clear [of ext pend acc s c k] k show ?thesis
    by (auto simp: mcdi_inv_def)
qed

lemma sys_clean:
  assumes inv: "sys_inv y" and cl: "cleaners y = pre @ (c # cl, n) # post"
  shows "sys_inv (y\<lparr>iface := kref_put c (call_completer c (iface y)), cleaners := pre @ (cl, n) # post\<rparr>)"
    (is "sys_inv ?y")
proof -
  let ?e = "sys_refs y" and ?p = "in_cleaners y"
  have p: "?p d = in_cleaners ?y d + (if d = c then 1 else 0)" for d
    using cl by (auto simp: in_cleaners_def)
  have e: "?e d = sys_refs ?y d + (if d = c then 1 else 0)" for d
    using p by (auto simp: sys_refs_def)
  have "mcdi_inv ?e (?p(c := ?p c - 1)) (accepted y) (call_completer c (iface y))"
    by (rule completer_ok) (use inv p [of c] e [of c] in \<open>auto simp: sys_inv_def\<close>)
  then have "mcdi_inv (?e(c := ?e c - 1)) (?p(c := ?p c - 1)) (accepted y)
      (kref_put c (call_completer c (iface y)))"
    by (rule inv_kref_put) (use e [of c] in simp)
  moreover have "?e(c := ?e c - 1) = sys_refs ?y" "?p(c := ?p c - 1) = in_cleaners ?y"
    using e p by auto
  moreover have "cleanup (kref_put c (call_completer c (iface y))) = []"
    using inv by (auto simp: sys_inv_def call_completer_def split: option.splits)
  ultimately show ?thesis
    by (simp add: sys_inv_def)
qed

lemma ev_cpl_expected:
  assumes inv: "sys_inv y" and e: "expected ty y (Ev_Cpl seqno copybuf)"
  shows "\<exists>s'. efx_mcdi_ev_cpl_locked ty seqno copybuf (iface y) = Some s' \<and>
    mcdi_inv (sys_refs y) (in_cleaners y) (accepted y) s'"
proof (cases "seq_held_by (iface y) ! seqno")
  case None
  moreover have "length (seq_held_by (iface y)) = 16"
    using inv by (auto simp: sys_inv_def mcdi_inv_def intro: core_basic(2))
  ultimately show ?thesis
    using inv e by (simp add: efx_mcdi_ev_cpl_locked_def sys_inv_def)
next
  case (Some c)
  then have "mcdi_up (sys_refs y) (in_cleaners y) (accepted y) (iface y)"
    using inv e by (simp add: sys_inv_def inv_up)
  from ev_cpl_ok [OF this, of seqno ty copybuf] e Some show ?thesis
    by simp
qed

lemma cmd_work_expected:
  assumes inv: "sys_inv y" and c: "c \<in> set (handlers y)" and e: "expected ty y (Ev_Work c copybuf)"
  shows "\<exists>s'. efx_mcdi_cmd_work_locked ty c copybuf (iface y) = Some s' \<and>
    mcdi_inv (sys_refs y) (in_cleaners y) (accepted y) s'"
proof -
  obtain k where k: "cmds (iface y) c = Some k"
      "cmd_state k = MCDI_STATE_FINISHED \<or> c \<in> set (cmd_list (iface y)) \<and> \<not> waiting k"
    using e by (auto split: option.splits)
  have "0 < sys_refs y c"
    using count_list_mem [OF c] by (simp add: sys_refs_def)
  from cmd_work_ok [where ext = "sys_refs y" and ty = ty and copybuf = copybuf, OF _ this k] inv e show ?thesis
    by (auto simp: sys_inv_def)
qed

lemma sys_inv_step:
  assumes "mcdi_step ty e y y'" and "expected ty y e" and inv: "sys_inv y"
  shows "sys_inv y'"
  using assms(1)
proof cases
  case (Rpc junk cmd inbuf atomic_completer completer cookie qt c s immediate_poll copybuf immediate_only rc h s')
  have "mcdi_inv (sys_refs y) (in_cleaners y) (accept c rc completer (accepted y)) s'"
    using rpc_async_internal_ok [OF _ Rpc(3), of "sys_refs y" "in_cleaners y" "accepted y" ty
        immediate_poll copybuf immediate_only] inv Rpc(4)
    by (simp add: sys_inv_def)
  with sys_unlock [of "y\<lparr>accepted := accept c rc completer (accepted y)\<rparr>" s'] Rpc(2) show ?thesis
    by (simp add: sys_refs_update)
next
  case (Cancel h)
  with sys_unlock cancel_cmd_ok inv show ?thesis by (simp add: sys_inv_def)
next
  case (Cpl seqno copybuf s')
  have "\<exists>s'. efx_mcdi_ev_cpl_locked ty seqno copybuf (iface y) = Some s' \<and>
      mcdi_inv (sys_refs y) (in_cleaners y) (accepted y) s'"
    by (rule ev_cpl_expected [OF inv]) (use assms(2) Cpl(1) in simp)
  with Cpl sys_unlock show ?thesis by auto
next
  case (Proxy h status s')
  with ev_proxy_ok [of "sys_refs y" "in_cleaners y" "accepted y" "iface y" ty h status] inv sys_unlock
  show ?thesis by (auto simp: sys_inv_def)
next
  case (Death bist)
  with ev_death_ok [of "sys_refs y" "in_cleaners y" "accepted y" "iface y" bist ty] inv sys_unlock assms(2)
  show ?thesis by (simp add: sys_inv_def efx_mcdi_ev_death_def)
next
  case (Flr s')
  with flr_ok [of "sys_refs y" "in_cleaners y" "accepted y" "iface y" ty] inv sys_unlock
  show ?thesis by (auto simp: sys_inv_def)
next
  case Mode_Poll
  with sys_unlock mode_poll_ok inv show ?thesis by (simp add: sys_inv_def)
next
  case Mode_Event
  with sys_unlock mode_event_ok inv show ?thesis by (simp add: sys_inv_def)
next
  case (Fire c k)
  have "sys_refs y' = (sys_refs y)(c := sys_refs y c + 1)" "in_cleaners y' = in_cleaners y"
    unfolding Fire(2) by (auto simp: sys_refs_def in_cleaners_def)
  with Fire inv sys_fire [of "sys_refs y" "in_cleaners y" "accepted y" "iface y" c k] show ?thesis
    by (simp add: sys_inv_def)
next
  case (Work c copybuf s')
  have e: "0 < sys_refs y c"
    using count_list_mem [OF Work(3)] by (simp add: sys_refs_def)
  have "mcdi_inv (sys_refs y) (in_cleaners y) (accepted y) s'"
    using cmd_work_expected [OF inv Work(3)] assms(2) Work(1,4) by fastforce
  from inv_kref_put [OF this, where c = c] e sys_refs_remove [OF Work(3)]
    sys_unlock [of "y\<lparr>handlers := remove1 c (handlers y)\<rparr>" "kref_put c s'"] Work(2)
  show ?thesis by (simp add: sys_refs_update)
next
  case (Clean pre c cl n post)
  with sys_clean [OF inv] show ?thesis by simp
next
  case (Clean_Done pre n post)
  have "in_cleaners y' = in_cleaners y" "sys_refs y' = sys_refs y"
    using Clean_Done by (auto simp: in_cleaners_def sys_refs_def)
  with inv Clean_Done(2) show ?thesis by (simp add: sys_inv_def)
next
  case (Env nic)
  have "mcdi_inv (sys_refs y) (in_cleaners y) (accepted y) ((iface y)\<lparr>efx := nic\<rparr>)"
    using inv inv_quiet [OF quiet_efx] by (simp add: sys_inv_def)
  with inv Env(2) show ?thesis by (simp add: sys_inv_def sys_refs_update)
next
  case Epoch
  have "quiet (iface y) ((iface y)\<lparr>new_epoch := True\<rparr>)"
    by (simp add: quiet_def)
  with inv inv_quiet have "mcdi_inv (sys_refs y) (in_cleaners y) (accepted y) ((iface y)\<lparr>new_epoch := True\<rparr>)"
    by (auto simp: sys_inv_def)
  with inv Epoch(2) show ?thesis by (simp add: sys_inv_def sys_refs_update)
qed

lemma reach_inv: "mcdi_reach ty y \<Longrightarrow> sys_inv y"
proof (induction rule: mcdi_reach.induct)
  case (reach_step y e y')
  show ?case
    by (rule sys_inv_step [OF reach_step.hyps(2,3) reach_step.IH])
qed (rule sys_inv_init)

end
