(* ===== verification/Mcdi_Props.thy ===== *)
theory Mcdi_Props
  imports Mcdi_System
begin

section \<open>Properties of the management interface\<close>

text \<open>
  What the invariants give for every reachable state of the system, and what single functions
  compute. \<open>demo_sys\<close> is a concrete state of the witnesses: one command with a completion
  function was accepted and is being polled. In \<open>demo_done\<close> the controller has answered it, the
  work item has read the answer and the completion function was called.
\<close>

definition demo_nic :: efx_nic where
  "demo_nic = \<lparr>nic_mcdi_buf_use = 0, nic_mcdi_pdu = (\<lambda>_ _. 0), nic_warm_boot_count = 0, nic_HZ = 250,
     nic_jiffies = 1000, nic_last_reset = 0, nic_disabled = False, nic_mc_bist_for_other_fn = False,
     nic_resets = [], nic_requests = [], nic_tick = 0, nic_mc = (\<lambda>_ _. None), nic_biu = (\<lambda>_. 0xb0070000)\<rparr>"

definition demo_cmd :: efx_mcdi_cmd where
  "demo_cmd = \<lparr>cmd_ref = 0, cmd_work = None, cmd_state = MCDI_STATE_QUEUED, cmd_inlen = 0, cmd_inbuf = [],
     cmd_quiet = False, cmd_polled = False, cmd_reboot_seen = False, cmd_seq = 0, cmd_bufid = 0,
     cmd_started = 0, cmd_cookie = 0, cmd_atomic_completer = None, cmd_completer = None, cmd_handle = 0,
     cmd_cmd = 0, cmd_rc = 0, cmd_outlen = 0, cmd_outbuf = None, cmd_proxy_handle = 0\<rparr>"

definition demo_rpc :: "mcdi \<Rightarrow> (int \<times> u32 option \<times> mcdi) option" where
  "demo_rpc s = (let (c, s) = new_cmd demo_cmd 8 [1, 2, 3, 4] None (Some 7) 5 False s
     in efx_mcdi_rpc_async_internal_locked ef100_pf_nic_type c False False False s)"

definition demo_sys :: mcdi_sys where
  "demo_sys = unlock (snd (snd (the (demo_rpc (efx_mcdi_init demo_nic)))))
     (sys_init demo_nic\<lparr>accepted := {0}\<rparr>)"

lemma demo_reach: "mcdi_reach ef100_pf_nic_type demo_sys"
proof -
  have "map_option fst (demo_rpc (efx_mcdi_init demo_nic)) = Some 0"
    by code_simp
  then obtain h s' where s': "demo_rpc (efx_mcdi_init demo_nic) = Some (0, h, s')"
    by (cases "demo_rpc (efx_mcdi_init demo_nic)") auto
  let ?y = "sys_init demo_nic"
  obtain c s where n: "new_cmd demo_cmd 8 [1, 2, 3, 4] None (Some 7) 5 False (iface ?y) = (c, s)"
    by fastforce
  have c: "c = 0"
    using n by (simp add: new_cmd_def sys_init_def efx_mcdi_init_def)
  have "efx_mcdi_rpc_async_internal_locked ef100_pf_nic_type c False False False s = Some (0, h, s')"
    using s' n by (simp add: demo_rpc_def sys_init_def)
  from mcdi_step.Rpc [OF n this] have "mcdi_step ef100_pf_nic_type Ev_Rpc ?y demo_sys"
    using c s' by (simp add: accept_def demo_sys_def) (simp add: sys_init_def)
  then show ?thesis
    by (rule reach_step [OF reach_init]) simp
qed

lemma demo_list: "cmd_list (iface demo_sys) = [0]"
  by code_simp

lemma demo_state: "map_option cmd_state (cmds (iface demo_sys) 0) = Some MCDI_STATE_RUNNING"
  by code_simp

lemma demo_accepted: "accepted demo_sys = {0}"
  by (simp add: demo_sys_def)

definition demo_fired :: mcdi_sys where
  "demo_fired = (let s = (iface demo_sys)\<lparr>efx := (efx (iface demo_sys))\<lparr>nic_mcdi_pdu :=
       (\<lambda>_ i. if i = 0 then 8 else if i = 2 then 0x80 else 0)\<rparr>\<rparr>
     in demo_sys\<lparr>iface := modify_cmd 0 (\<lambda>k. k\<lparr>cmd_work := None\<rparr>) s, handlers := 0 # handlers demo_sys\<rparr>)"

definition demo_worked :: mcdi_sys where
  "demo_worked = unlock (kref_put 0 (the (efx_mcdi_cmd_work_locked ef100_pf_nic_type 0 True (iface demo_fired))))
     (demo_fired\<lparr>handlers := remove1 0 (handlers demo_fired)\<rparr>)"

definition demo_done :: mcdi_sys where
  "demo_done = demo_worked\<lparr>iface := kref_put 0 (call_completer 0 (iface demo_worked)),
     cleaners := [] @ ([], 1) # tl (cleaners demo_worked)\<rparr>"

lemma demo_fired_reach: "mcdi_reach ef100_pf_nic_type demo_fired"
proof -
  have "map_option cmd_work (cmds (iface demo_sys) 0) \<noteq> Some None"
    by code_simp
  then obtain k where k: "cmds (iface demo_sys) 0 = Some k" "cmd_work k \<noteq> None" "\<not> waiting k"
    using demo_state by (auto simp: waiting_def)
  have "mcdi_reach ef100_pf_nic_type (demo_sys\<lparr>iface := (iface demo_sys)\<lparr>efx := nic\<rparr>\<rparr>)" for nic
    by (rule reach_step [OF demo_reach mcdi_step.Env]) simp
  from reach_step [OF this mcdi_step.Fire, of _ 0 k] k show ?thesis
    by (simp add: demo_fired_def Let_def)
qed

lemma demo_fired_list: "cmd_list (iface demo_fired) = [0]" "handlers demo_fired = [0]"
  by code_simp+

lemma demo_done_reach: "mcdi_reach ef100_pf_nic_type demo_done"
proof -
  have "map_option cmd_state (cmds (iface demo_fired) 0) = Some MCDI_STATE_RUNNING"
    by code_simp
  then obtain k where k: "cmds (iface demo_fired) 0 = Some k" "cmd_state k = MCDI_STATE_RUNNING"
    by auto
  have "\<not> Option.is_none (efx_mcdi_cmd_work_locked ef100_pf_nic_type 0 True (iface demo_fired))"
    by code_simp
  then have "mcdi_step ef100_pf_nic_type (Ev_Work 0 True) demo_fired demo_worked"
    unfolding demo_worked_def by (intro mcdi_step.Work) (auto simp: demo_fired_list Option.is_none_def)
  moreover have "expected ef100_pf_nic_type demo_fired (Ev_Work 0 True)"
    using k demo_fired_list by (simp add: waiting_def no_late_proxy_def efx_cmd_cancelled_def)
  ultimately have "mcdi_reach ef100_pf_nic_type demo_worked"
    by (rule reach_step [OF demo_fired_reach])
  moreover have "cleaners demo_worked = [] @ ([0], 1) # tl (cleaners demo_worked)"
    by code_simp
  ultimately show ?thesis
    unfolding demo_done_def by (intro reach_step [OF _ mcdi_step.Clean]) simp_all
qed

lemma demo_done_list: "cmd_list (iface demo_done) = []"
  by code_simp

lemma demo_done_cleaners: "in_cleaners demo_done 0 = 0"
  by code_simp

lemma demo_done_accepted: "accepted demo_done = {0}"
  by (simp add: demo_done_def demo_worked_def demo_fired_def demo_sys_def Let_def)

lemma reach_core:
  assumes "mcdi_reach ty y"
  shows "mcdi_core (sys_refs y) (in_cleaners y) (accepted y) (iface y)"
  using reach_inv [OF assms] by (simp add: sys_inv_def mcdi_inv_def)

subsection \<open>Safety\<close>

text \<open>A self-test event without a handler calls a null pointer, whatever follows.\<close>

lemma bist_faults:
  assumes "list_live s" and "mcdi_record_bist_event ty = None"
  shows "faults (efx_mcdi_ev_death_locked ty True s) \<noteq> []"
proof -
  let ?s = "fault Null_Call (s\<lparr>efx := (efx s)\<lparr>nic_mc_bist_for_other_fn := True\<rparr>\<rparr>)"
  have "list_live ?s"
    using assms(1) by (simp add: list_live_def)
  from quiet_reboot_detected [OF this, of ty] have "faults (efx_mcdi_reboot_detected ty ?s) = faults ?s"
    by (simp add: quiet_def)
  then show ?thesis
    using assms(2) by (simp add: efx_mcdi_ev_death_locked_def Let_def fault_def)
qed

text \<open>
  C1: from every state that expected events reach, a step records a memory fault (use of a freed
  command, an entry removed from the list twice, an index past \<open>seq_held_by\<close>, a call of a null pointer,
  \<open>BUG_ON\<close>) only if its event is not expected: a completion event out of range, or for a number that is
  still held after the interface failed, or with \<open>PROXY_PENDING\<close> for a cancelled command; a self-test
  event without a handler; a work item whose command is not finished and was cancelled and answered
  meanwhile, or waits to be sent. The range and the handler are necessary: without them the code faults.
\<close>

theorem mcdi_memory_safe:
  assumes "mcdi_reach ty y" and "mcdi_step ty e y y'"
  shows "faults (iface y) = [] \<and> (faults (iface y') \<noteq> [] \<longrightarrow> \<not> expected ty y e) \<and>
    (\<forall>seqno copybuf. e = Ev_Cpl seqno copybuf \<and> 16 \<le> seqno \<longrightarrow> faults (iface y') = [Out_Of_Bounds seqno]) \<and>
    (e = Ev_Death True \<and> mcdi_record_bist_event ty = None \<longrightarrow> faults (iface y') \<noteq> [])"
proof (intro conjI impI allI)
  show f: "faults (iface y) = []"
    using reach_core [OF assms(1)] core_faults by blast
  show "\<not> expected ty y e" if "faults (iface y') \<noteq> []"
  proof
    assume "expected ty y e"
    from reach_core [OF reach_step [OF assms this]] core_faults that show False
      by blast
  qed
  show "faults (iface y') = [Out_Of_Bounds seqno]" if "e = Ev_Cpl seqno copybuf \<and> 16 \<le> seqno" for seqno copybuf
    using assms(2) that f core_basic(2) [OF reach_core [OF assms(1)]]
    by (auto simp: efx_mcdi_ev_cpl_locked_def fault_def elim!: cpl_step)
  show "faults (iface y') \<noteq> []" if e: "e = Ev_Death True \<and> mcdi_record_bist_event ty = None"
    using assms(2) bist_faults [OF inv_list_live] reach_inv [OF assms(1)] e
    by (auto simp: sys_inv_def elim!: death_step)
qed

theorem mcdi_memory_safe_witness:
  "\<exists>y'. mcdi_step ef100_pf_nic_type Ev_Mode_Event demo_sys y' \<and> faults (iface y') = []"
  using mcdi_memory_safe [OF demo_reach mcdi_step.Mode_Event] mcdi_step.Mode_Event by fastforce

text \<open>
  C2: as long as the events are expected, every accepted command with a completion function completes
  exactly once: never twice, and by
  the time it has left the command list and no thread has it on a cleanup list, it was
  completed; a command that was not accepted is never completed. (A cancelled command that is answered
  \<open>PROXY_PENDING\<close>, an event that is not expected, completes twice: \<open>late_proxy_completes_twice\<close>.)
\<close>

theorem mcdi_completes_exactly_once:
  assumes "mcdi_reach ty y"
  shows "n_completed (iface y) c \<le> (if c \<in> accepted y then 1 else 0) \<and>
    (c \<in> accepted y \<and> c \<notin> set (cmd_list (iface y)) \<and> in_cleaners y c = 0 \<longrightarrow>
      n_completed (iface y) c = 1)"
proof (rule conjI)
  have ok: "cmd_ok (sys_refs y) (in_cleaners y) (accepted y) (iface y) c"
    by (rule core_cmd_ok [OF reach_core [OF assms]])
  have cl: "cleanup (iface y) = []"
    using reach_inv [OF assms] by (simp add: sys_inv_def)
  show "n_completed (iface y) c \<le> (if c \<in> accepted y then 1 else 0)"
    using ok by (cases "cmds (iface y) c") (auto simp: cmd_ok_def cmd_okv_def of_bool_def split: if_splits)
  show "c \<in> accepted y \<and> c \<notin> set (cmd_list (iface y)) \<and> in_cleaners y c = 0 \<longrightarrow>
      n_completed (iface y) c = 1"
    using ok cl by (cases "cmds (iface y) c") (auto simp: cmd_ok_def cmd_okv_def)
qed

theorem mcdi_completes_exactly_once_witness:
  "mcdi_reach ef100_pf_nic_type demo_done \<and> 0 \<in> accepted demo_done \<and> n_completed (iface demo_done) 0 = 1"
  using demo_done_reach mcdi_completes_exactly_once [OF demo_done_reach, of 0] demo_done_accepted
    demo_done_list demo_done_cleaners
  by simp

text \<open>
  C3: requests are serialised: a command on the list that was sent and not answered holds the
  doorbell, and every other command on the list waits.
\<close>

theorem mcdi_serialised:
  assumes "mcdi_reach ty y" and "c \<in> set (cmd_list (iface y))" and "cmds (iface y) c = Some k"
    and "cmd_state k \<notin> {MCDI_STATE_QUEUED, MCDI_STATE_RETRY}"
  shows "db_held_by (iface y) = Some c \<and>
    (\<forall>d\<in>set (cmd_list (iface y)) - {c}. \<forall>k'. cmds (iface y) d = Some k' \<longrightarrow>
      cmd_state k' \<in> {MCDI_STATE_QUEUED, MCDI_STATE_RETRY})"
proof (rule conjI)
  have core: "mcdi_core (sys_refs y) (in_cleaners y) (accepted y) (iface y)"
    by (rule reach_core [OF assms(1)])
  show db: "db_held_by (iface y) = Some c"
    using core_live_ok [OF core assms(3)] assms(2,4) by (auto simp: cmd_live_ok_def waiting_def)
  show "\<forall>d\<in>set (cmd_list (iface y)) - {c}. \<forall>k'. cmds (iface y) d = Some k' \<longrightarrow>
      cmd_state k' \<in> {MCDI_STATE_QUEUED, MCDI_STATE_RETRY}"
    using core_other_waiting [OF core db] by (fastforce simp: waiting_def)
qed

theorem mcdi_serialised_witness:
  "\<exists>k. cmds (iface demo_sys) 0 = Some k \<and> cmd_state k = MCDI_STATE_RUNNING \<and> db_held_by (iface demo_sys) = Some 0"
proof -
  obtain k where k: "cmds (iface demo_sys) 0 = Some k" "cmd_state k = MCDI_STATE_RUNNING"
    using demo_state by auto
  have "0 \<in> set (cmd_list (iface demo_sys))"
    by (simp add: demo_list)
  from mcdi_serialised [OF demo_reach this k(1)] k show ?thesis by simp
qed

subsection \<open>Fail-fast mode\<close>

text \<open>
  C4: in every reachable state, entering fail-fast mode returns exactly when no command on the list
  has been sent; with a sent command \<open>efx_mcdi_mode_fail\<close> loops for ever under the lock.
\<close>

theorem mode_fail_returns_iff:
  assumes "mcdi_reach ty y"
  shows "efx_mcdi_mode_fail (iface y) \<noteq> None \<longleftrightarrow>
    (\<forall>c\<in>set (cmd_list (iface y)). \<forall>k. cmds (iface y) c = Some k \<longrightarrow>
       cmd_state k \<in> {MCDI_STATE_QUEUED, MCDI_STATE_RETRY})"
proof -
  let ?s = "iface y\<lparr>mode := MCDI_MODE_FAIL\<rparr>"
  have core: "mcdi_core (sys_refs y) (in_cleaners y) (accepted y) ?s"
    using reach_core [OF assms] by simp
  have "mode_fail_loop ?s \<noteq> None \<longleftrightarrow>
      (\<forall>c\<in>set (cmd_list ?s). \<forall>k. cmds ?s c = Some k \<longrightarrow> waiting k)"
    using mode_fail_loop_waiting [OF core] mode_fail_loop_returns_waiting [OF _ core] by fastforce
  then show ?thesis
    by (simp add: efx_mcdi_mode_fail_def waiting_def)
qed

theorem mode_fail_returns_iff_witness:
  "mcdi_reach ef100_pf_nic_type demo_sys \<and> efx_mcdi_mode_fail (iface demo_sys) = None"
proof -
  obtain k where "cmds (iface demo_sys) 0 = Some k" "cmd_state k = MCDI_STATE_RUNNING"
    using demo_state by auto
  with mode_fail_returns_iff [OF demo_reach] demo_list demo_reach show ?thesis by auto
qed

text \<open>Fail-fast mode with an empty list is kept by everything but a function level reset.\<close>

definition dead :: "mcdi \<Rightarrow> bool" where
  "dead s \<longleftrightarrow> mode s = MCDI_MODE_FAIL \<and> cmd_list s = []"

lemma dead_frame [simp]:
  "dead (fault f s) = dead s" "dead (modify_cmd c g s) = dead s" "dead (kref_get c s) = dead s"
  "dead (kref_put c s) = dead s" "dead (cancel_work_and_put c s) = dead s"
  "dead (queue_delayed_work c d s) = dead s" "dead (efx_schedule_reset t s) = dead s"
  "dead (efx_mcdi_remove_cmd_1 c s) = dead s" "dead (s\<lparr>efx := nic\<rparr>) = dead s" "dead (s\<lparr>db_held_by := hb\<rparr>) = dead s"
  "dead (s\<lparr>seq_held_by := q\<rparr>) = dead s" "dead (s\<lparr>cleanup := cl\<rparr>) = dead s" "dead (s\<lparr>new_epoch := b\<rparr>) = dead s"
  "dead (s\<lparr>outstanding_cleanups := oc\<rparr>) = dead s" "dead (call_completer c s) = dead s"
  by (simp_all add: dead_def call_completer_def split: option.splits)

lemma dead_remove [simp]:
  "dead s \<Longrightarrow> dead (list_del_cmd c s)" "dead s \<Longrightarrow> dead (efx_mcdi_remove_cmd c s)"
  by (simp_all add: efx_mcdi_remove_cmd_def) (simp_all add: list_del_cmd_def dead_def)

lemma dead_mode [simp]:
  "dead s \<Longrightarrow> dead (efx_mcdi_mode_poll_1 s)" "dead s \<Longrightarrow> dead (efx_mcdi_mode_event s)"
  "dead s \<Longrightarrow> dead (efx_mcdi_reboot_detected ty s)"
  by (simp_all add: dead_def efx_mcdi_mode_poll_1_def efx_mcdi_mode_event_def efx_mcdi_reboot_detected_def Let_def)

lemma dead_mode_fail: "dead s \<Longrightarrow> efx_mcdi_mode_fail s = Some s' \<Longrightarrow> dead s'"
  by (auto simp: dead_def efx_mcdi_mode_fail_def mode_fail_loop.simps)

lemma dead_wait [simp]: "dead s \<Longrightarrow> dead (snd (wait_for_reboot_loop ty n s))"
  by (induction n arbitrary: s) (auto simp: Let_def split: prod.splits)

lemma dead_wait_result: "wait_for_reboot_loop ty n s = (b, s') \<Longrightarrow> dead s \<Longrightarrow> dead s'"
  using dead_wait [of s ty n] by simp

lemma dead_reset_during [simp]: "dead s \<Longrightarrow> dead (efx_mcdi_reset_during_cmd ty c s)"
  by (auto simp: efx_mcdi_reset_during_cmd_def efx_mcdi_wait_for_reboot_def Let_def dest: dead_wait_result
      split: option.splits prod.splits)

lemma dead_response [simp]: "dead s \<Longrightarrow> dead (snd (snd (snd (response_rc ty c bufid copybuf s))))"
  by (simp add: response_rc_def Let_def split: prod.splits)

lemma dead_proxy_pending: "dead s \<Longrightarrow> complete_proxy_pending ty c k h d s = Some (b, s') \<Longrightarrow> dead s'"
  by (auto simp: complete_proxy_pending_def Let_def bind_eq_Some_conv split: if_splits dest!: dead_mode_fail [rotated])

lemma dead_done [simp]: "dead s \<Longrightarrow> dead (snd (complete_done c k rc outbuf d s))"
  by (simp add: complete_done_def Let_def)

lemma dead_start: "dead s \<Longrightarrow> efx_mcdi_start_or_queue ty b s = Some s' \<Longrightarrow> dead s'"
  by (simp add: efx_mcdi_start_or_queue_def dead_def)

lemma dead_complete: "dead s \<Longrightarrow> efx_mcdi_complete_cmd ty c copybuf s = Some (b, s') \<Longrightarrow> dead s'"
proof -
  assume d: "dead s" and eq: "efx_mcdi_complete_cmd ty c copybuf s = Some (b, s')"
  show "dead s'"
  proof (cases "cmds s c")
    case None
    with d eq show ?thesis
      by (auto simp: efx_mcdi_complete_cmd_def)
  next
    case (Some k0)
    let ?r = "response_rc ty c (cmd_bufid k0) copybuf (kref_get c s)"
    obtain rc len outbuf s1 where r: "?r = (rc, len, outbuf, s1)"
      by (metis prod_cases4)
    then have d1: "dead s1"
      using dead_response [of "kref_get c s" ty c "cmd_bufid k0" copybuf] d by simp
    show ?thesis
    proof (cases "cmds s1 c")
      case None
      with d1 eq r Some show ?thesis
        by (auto simp: efx_mcdi_complete_cmd_def Let_def split: prod.splits)
    next
      case (Some k)
      with eq r \<open>cmds s c = Some k0\<close> obtain hdr_len fin s2 s3 where
        "(if rc = MC_CMD_ERR_PROXY_PENDING then complete_proxy_pending ty c k hdr_len len s1
          else Some (complete_done c k rc outbuf len s1)) = Some (fin, s2)"
        "efx_mcdi_start_or_queue ty (rc \<noteq> MC_CMD_ERR_QUEUE_FULL) (s2\<lparr>seq_held_by := (seq_held_by s2)[cmd_seq k := None],
           efx := mcdi_put_buf ty (cmd_bufid k0) (efx s2)\<rparr>) = Some s3" "s' = kref_put c s3"
        by (auto simp: efx_mcdi_complete_cmd_def Let_def bind_eq_Some_conv split: prod.splits)
      moreover from this(1) have "dead s2"
        using dead_proxy_pending [OF d1] dead_done [OF d1, of c k rc outbuf len] by (auto split: if_splits)
      then have "dead (s2\<lparr>seq_held_by := (seq_held_by s2)[cmd_seq k := None],
          efx := mcdi_put_buf ty (cmd_bufid k0) (efx s2)\<rparr>)"
        by simp
      ultimately show ?thesis
        using dead_start by fastforce
    qed
  qed
qed

lemma dead_ev_cpl: "dead s \<Longrightarrow> efx_mcdi_ev_cpl_locked ty n copybuf s = Some s' \<Longrightarrow> dead s'"
  by (auto simp: efx_mcdi_ev_cpl_locked_def bind_eq_Some_conv split: if_splits option.splits
      dest!: dead_complete [rotated])

lemma dead_timeouts:
  "dead s \<Longrightarrow> efx_mcdi_timeout_cmd ty c s = Some s' \<Longrightarrow> dead s'"
  "dead s \<Longrightarrow> efx_mcdi_proxy_timeout_cmd c s = Some s' \<Longrightarrow> dead s'"
  by (auto simp: efx_mcdi_timeout_cmd_def efx_mcdi_proxy_timeout_cmd_def Let_def bind_eq_Some_conv split: option.splits
      dest!: dead_mode_fail [rotated])

lemma dead_work: "dead s \<Longrightarrow> efx_mcdi_cmd_work_locked ty c copybuf s = Some s' \<Longrightarrow> dead s'"
  by (auto simp: efx_mcdi_cmd_work_locked_def split: option.splits if_splits dest: dead_timeouts dead_complete)

lemma dead_rpc:
  assumes "dead s" and "efx_mcdi_rpc_async_internal_locked ty c immediate_poll copybuf immediate_only s = Some (rc, h, s')"
  shows "dead s'"
  using assms by (auto simp: efx_mcdi_rpc_async_internal_locked_def Let_def split: option.splits if_splits)
    (simp_all add: dead_def)

lemma dead_step:
  assumes "mcdi_step ty e y y'" and d: "dead (iface y)" and "e \<noteq> Ev_Flr"
  shows "dead (iface y')"
  using assms(1)
proof cases
  case (Rpc junk cmd inbuf atomic_completer completer cookie qt c s immediate_poll copybuf immediate_only rc h s')
  have "dead s"
    using Rpc(3) d by (auto simp: new_cmd_def dead_def)
  from dead_rpc [OF this Rpc(4)] Rpc(2) show ?thesis by simp
next
  case (Death bist)
  with d show ?thesis
    by (auto simp: efx_mcdi_ev_death_locked_def Let_def split: option.splits)
next
  case (Proxy h status s')
  with d show ?thesis
    by (auto simp: efx_mcdi_ev_proxy_response_locked_def dead_def)
next
  case (Cancel h)
  with d show ?thesis
    by (simp add: efx_mcdi_cancel_cmd_1_def dead_def)
next
  case (Work c copybuf s')
  with d dead_work show ?thesis by simp
next
  case (Cpl seqno copybuf s')
  with d dead_ev_cpl show ?thesis by simp
next
  case (Flr s')
  with assms(3) show ?thesis by simp
qed (use d in simp_all)

text \<open>
  C5: fail-fast mode is left only by a function level reset, and no command is left behind in it: the
  list is empty in every state of that mode that expected events reach, every step but a reset, also one
  that serves an event that is not expected, stays in the mode with an empty list, and the reset goes to
  polled mode with an empty list, no sequence number held and the doorbell free.
\<close>

theorem fail_mode_absorbing:
  assumes "mcdi_reach ty y" and "mode (iface y) = MCDI_MODE_FAIL" and "mcdi_step ty e y y'"
  shows "cmd_list (iface y) = [] \<and> cmd_list (iface y') = [] \<and>
    (if e = Ev_Flr
     then mode (iface y') = MCDI_MODE_POLL \<and> seq_held_by (iface y') = replicate 16 None \<and> db_held_by (iface y') = None
     else mode (iface y') = MCDI_MODE_FAIL)"
proof -
  have inv: "mcdi_inv (sys_refs y) (in_cleaners y) (accepted y) (iface y)"
    using reach_inv [OF assms(1)] by (simp add: sys_inv_def)
  then have d: "dead (iface y)"
    using assms(2) by (simp add: mcdi_inv_def dead_def)
  show ?thesis
  proof (cases "e = Ev_Flr")
    case True
    with assms(3) obtain s' where "efx_flr_locked ty (iface y) = Some s'" "y' = unlock s' y"
      by (auto elim!: flr_step)
    with flr_ok [OF inv, of ty] True d show ?thesis
      by (simp add: dead_def)
  next
    case False
    with dead_step [OF assms(3) d] d show ?thesis
      by (simp add: dead_def)
  qed
qed

definition demo_dead :: mcdi_sys where
  "demo_dead = unlock (kref_put 0 (the (efx_mcdi_cmd_work_locked ef100_pf_nic_type 0 True
       ((iface demo_fired)\<lparr>efx := (efx (iface demo_fired))\<lparr>nic_mcdi_pdu := (\<lambda>_ _. 0), nic_jiffies := 9999\<rparr>\<rparr>))))
     (demo_fired\<lparr>iface := (iface demo_fired)\<lparr>efx := (efx (iface demo_fired))\<lparr>nic_mcdi_pdu := (\<lambda>_ _. 0),
        nic_jiffies := 9999\<rparr>\<rparr>, handlers := remove1 0 (handlers demo_fired)\<rparr>)"

lemma demo_dead_reach: "mcdi_reach ef100_pf_nic_type demo_dead"
proof -
  let ?y = "demo_fired\<lparr>iface := (iface demo_fired)\<lparr>efx := (efx (iface demo_fired))\<lparr>nic_mcdi_pdu := (\<lambda>_ _. 0),
      nic_jiffies := 9999\<rparr>\<rparr>\<rparr>"
  have "map_option cmd_state (cmds (iface demo_fired) 0) = Some MCDI_STATE_RUNNING"
    by code_simp
  then obtain k where k: "cmds (iface demo_fired) 0 = Some k" "cmd_state k = MCDI_STATE_RUNNING"
    by auto
  have "\<not> Option.is_none (efx_mcdi_cmd_work_locked ef100_pf_nic_type 0 True (iface ?y))"
    by code_simp
  then have "mcdi_step ef100_pf_nic_type (Ev_Work 0 True) ?y (unlock (kref_put 0 (the
      (efx_mcdi_cmd_work_locked ef100_pf_nic_type 0 True (iface ?y)))) (?y\<lparr>handlers := remove1 0 (handlers ?y)\<rparr>))"
    by (intro mcdi_step.Work) (auto simp: demo_fired_list Option.is_none_def)
  moreover have "expected ef100_pf_nic_type ?y (Ev_Work 0 True)"
    using k demo_fired_list by (simp add: waiting_def no_late_proxy_def efx_cmd_cancelled_def)
  moreover have "mcdi_reach ef100_pf_nic_type ?y"
    by (rule reach_step [OF demo_fired_reach mcdi_step.Env]) simp
  ultimately show ?thesis
    using reach_step by (fastforce simp: demo_dead_def)
qed

lemma demo_dead_mode: "mode (iface demo_dead) = MCDI_MODE_FAIL"
  by code_simp

theorem fail_mode_absorbing_witness:
  "mode (iface demo_dead) = MCDI_MODE_FAIL \<and>
   (\<exists>y'. mcdi_step ef100_pf_nic_type Ev_Mode_Event demo_dead y' \<and> mode (iface y') = MCDI_MODE_FAIL)"
  using demo_dead_mode fail_mode_absorbing [OF demo_dead_reach demo_dead_mode mcdi_step.Mode_Event] mcdi_step.Mode_Event
  by fastforce

subsection \<open>Every entry point returns\<close>

text \<open>
  C6: in every state that expected events reach, issuing a command (blocking or not), a proxy response
  and a function level reset return, and so do a completion event and a work item that are
  expected. In particular the search for a sequence number, the loop of \<open>efx_mcdi_mode_fail\<close> and that of
  \<open>efx_flr\<close> end wherever this code reaches them. (The work item of a command that was answered
  \<open>QUEUE_FULL\<close> is not expected; it can hang: \<open>retry_timeout_hangs\<close>.)
\<close>

theorem mcdi_returns:
  assumes "mcdi_reach ty y"
  shows "efx_mcdi_rpc_async_ext ty junk alloc_ok cmd inbuf ac co cookie qt imm (iface y) \<noteq> None \<and>
    efx_mcdi_rpc_sync_start ty junk alloc_ok alloc_ok copybuf cmd inbuf cookie qt (iface y) \<noteq> None \<and>
    efx_mcdi_ev_proxy_response ty h status (iface y) \<noteq> None \<and> efx_flr ty reset_rc (iface y) \<noteq> None \<and>
    (expected ty y (Ev_Cpl seqno copybuf) \<longrightarrow> efx_mcdi_ev_cpl ty seqno copybuf (iface y) \<noteq> None) \<and>
    (c \<in> set (handlers y) \<and> expected ty y (Ev_Work c copybuf) \<longrightarrow> efx_mcdi_cmd_work ty c copybuf (iface y) \<noteq> None)"
proof (intro conjI impI)
  have inv: "mcdi_inv (sys_refs y) (in_cleaners y) (accepted y) (iface y)"
    using reach_inv [OF assms] by (simp add: sys_inv_def)
  obtain c1 s1 where n: "new_cmd junk cmd inbuf ac co cookie qt (iface y) = (c1, s1)"
    by fastforce
  show "efx_mcdi_rpc_async_ext ty junk alloc_ok cmd inbuf ac co cookie qt imm (iface y) \<noteq> None"
    using rpc_async_internal_ok [OF inv n, of ty False False imm] n
    by (auto simp: efx_mcdi_rpc_async_ext_def)
  obtain c' s' where n': "new_cmd junk cmd inbuf None (Some 0) cookie qt (iface y) = (c', s')"
    by fastforce
  show "efx_mcdi_rpc_sync_start ty junk alloc_ok alloc_ok copybuf cmd inbuf cookie qt (iface y) \<noteq> None"
    using rpc_async_internal_ok [OF inv n', of ty True copybuf False] n'
    by (auto simp: efx_mcdi_rpc_sync_start_def)
  show "efx_mcdi_ev_proxy_response ty h status (iface y) \<noteq> None"
    using ev_proxy_ok [OF inv, of ty h status] by (auto simp: efx_mcdi_ev_proxy_response_def)
  show "efx_flr ty reset_rc (iface y) \<noteq> None"
    using flr_ok [OF inv, of ty] by (auto simp: efx_flr_def)
  show "efx_mcdi_ev_cpl ty seqno copybuf (iface y) \<noteq> None" if "expected ty y (Ev_Cpl seqno copybuf)"
    using ev_cpl_expected [OF reach_inv [OF assms] that] by (auto simp: efx_mcdi_ev_cpl_def)
  show "efx_mcdi_cmd_work ty c copybuf (iface y) \<noteq> None"
    if "c \<in> set (handlers y) \<and> expected ty y (Ev_Work c copybuf)"
    using cmd_work_expected [OF reach_inv [OF assms], of c ty copybuf] that by (auto simp: efx_mcdi_cmd_work_def)
qed

theorem mcdi_returns_witness:
  "efx_mcdi_ev_cpl ef100_pf_nic_type 1 True (iface demo_done) \<noteq> None \<and> efx_flr ef100_pf_nic_type 0 (iface demo_done) \<noteq> None"
proof -
  have "seq_held_by (iface demo_done) ! 1 = None"
    by code_simp
  with mcdi_returns [OF demo_done_reach, of demo_cmd True 8 "[1]" None "Some 7" 5 False False True 0 0 0 1 0]
  show ?thesis by simp
qed

text \<open>
  C7: the search for a sequence number ends, with the first free number after the last one used in
  cyclic order; only if none of the other fifteen is free does it come back to the last one used,
  and it reports whether the number it found is free.
\<close>

theorem get_seq_spec:
  assumes "length (seq_held_by s) = 16" and "prev_seq s < 16"
  shows "\<exists>m free. efx_mcdi_get_seq s = Some ((prev_seq s + m) mod 16, free) \<and> 0 < m \<and> m \<le> 16 \<and>
    (\<forall>i. 0 < i \<and> i < m \<longrightarrow> seq_held_by s ! ((prev_seq s + i) mod 16) \<noteq> None) \<and>
    (free \<longleftrightarrow> seq_held_by s ! ((prev_seq s + m) mod 16) = None) \<and> (m < 16 \<longrightarrow> free)"
  by (rule get_seq_first_free [OF assms])

theorem get_seq_spec_witness:
  "efx_mcdi_get_seq ((efx_mcdi_init demo_nic)\<lparr>prev_seq := 15,
      seq_held_by := Some 3 # replicate 15 None\<rparr>) = Some (1, True)"
proof -
  let ?s = "(efx_mcdi_init demo_nic)\<lparr>prev_seq := 15, seq_held_by := Some 3 # replicate 15 None\<rparr>"
  obtain m free where m: "efx_mcdi_get_seq ?s = Some ((15 + m) mod 16, free)" "0 < m"
    "\<forall>i. 0 < i \<and> i < m \<longrightarrow> seq_held_by ?s ! ((15 + i) mod 16) \<noteq> None"
    "free \<longleftrightarrow> seq_held_by ?s ! ((15 + m) mod 16) = None" "m < 16 \<longrightarrow> free"
    using get_seq_spec [of ?s] by auto
  have "m \<noteq> 1"
    using m(4,5) by auto
  moreover have "\<not> 2 < m"
    using m(3) by (auto dest!: spec [of _ 2])
  ultimately have "m = 2"
    using m(2) by linarith
  with m show ?thesis by simp
qed

subsection \<open>Requests and responses\<close>

text \<open>
  C8: the two header dwords of a version-2 request say what the driver meant: the escape code, the
  sequence number, whether an event is requested, whether the epoch is old, and in the second dword
  the command and the length. The length must be at most 1023, although
  \<open>efx_mcdi_check_supported\<close> lets 1024 pass.
\<close>

theorem request_header_v2:
  assumes "mcdi_max_ver ty \<noteq> 1" and "unat (cmd_cmd k) < 2 ^ 15" and "cmd_inlen k < 1024" and "cmd_seq k < 16"
  shows "\<exists>h1 h2. mcdi_request_header ty s k = [h1, h2] \<and>
    EFX_DWORD_FIELD h1 MCDI_HEADER_CODE = MC_CMD_V2_EXTN \<and> EFX_DWORD_FIELD h1 MCDI_HEADER_DATALEN = 0 \<and>
    EFX_DWORD_FIELD h1 MCDI_HEADER_RESPONSE = 0 \<and> EFX_DWORD_FIELD h1 MCDI_HEADER_ERROR = 0 \<and>
    unat (EFX_DWORD_FIELD h1 MCDI_HEADER_SEQ) = cmd_seq k \<and>
    (EFX_DWORD_FIELD h1 MCDI_HEADER_XFLAGS = 1 \<longleftrightarrow> mode s = MCDI_MODE_EVENTS) \<and>
    (EFX_DWORD_FIELD h1 MCDI_HEADER_NOT_EPOCH = 0 \<longleftrightarrow> new_epoch s) \<and>
    EFX_DWORD_FIELD h2 MC_CMD_V2_EXTN_IN_EXTENDED_CMD = cmd_cmd k \<and>
    unat (EFX_DWORD_FIELD h2 MC_CMD_V2_EXTN_IN_ACTUAL_LEN) = cmd_inlen k"
proof -
  define f1 :: "(efx_field \<times> u32) list" where "f1 =
    [(MCDI_HEADER_RESPONSE, 0), (MCDI_HEADER_RESYNC, 1), (MCDI_HEADER_CODE, MC_CMD_V2_EXTN),
     (MCDI_HEADER_DATALEN, 0), (MCDI_HEADER_SEQ, of_nat (cmd_seq k)),
     (MCDI_HEADER_XFLAGS, if mode s = MCDI_MODE_EVENTS then MCDI_HEADER_XFLAGS_EVREQ else 0),
     (MCDI_HEADER_NOT_EPOCH, if new_epoch s then 0 else 1)]"
  define f2 :: "(efx_field \<times> u32) list" where "f2 =
    [(MC_CMD_V2_EXTN_IN_EXTENDED_CMD, cmd_cmd k), (MC_CMD_V2_EXTN_IN_ACTUAL_LEN, of_nat (cmd_inlen k))]"
  have eq: "mcdi_request_header ty s k = [EFX_POPULATE_DWORD f1, EFX_POPULATE_DWORD f2]"
    using assms(1) by (simp add: mcdi_request_header_def Let_def f1_def f2_def)
  have seq: "unat (of_nat (cmd_seq k) :: u32) = cmd_seq k" and len: "unat (of_nat (cmd_inlen k) :: u32) = cmd_inlen k"
    using assms(3,4) by (simp_all add: unat_of_nat)
  have wf1: "fields_wf f1" and wf2: "fields_wf f2"
    using assms seq len by (simp_all add: f1_def f2_def field_ok_def fields_disjoint_def)
  have "EFX_DWORD_FIELD (EFX_POPULATE_DWORD f1) MCDI_HEADER_ERROR = 0"
    by (rule dword_field_absent [OF wf1]) (simp_all add: f1_def fields_disjoint_def)
  moreover note dword_field_populate [OF wf1] dword_field_populate [OF wf2]
  ultimately show ?thesis
    unfolding eq by (simp add: f1_def f2_def seq len)
qed

theorem request_header_v2_witness:
  "\<exists>h1 h2. mcdi_request_header ef100_pf_nic_type (efx_mcdi_init demo_nic)
      (demo_cmd\<lparr>cmd_cmd := 0x7ffe, cmd_inlen := 1023, cmd_seq := 15\<rparr>) = [h1, h2] \<and>
    unat (EFX_DWORD_FIELD h1 MCDI_HEADER_SEQ) = 15 \<and> unat (EFX_DWORD_FIELD h2 MC_CMD_V2_EXTN_IN_ACTUAL_LEN) = 1023"
proof -
  let ?k = "demo_cmd\<lparr>cmd_cmd := 0x7ffe, cmd_inlen := 1023, cmd_seq := 15\<rparr>"
  have "mcdi_max_ver ef100_pf_nic_type \<noteq> 1" "unat (cmd_cmd ?k) < 2 ^ 15" "cmd_inlen ?k < 1024" "cmd_seq ?k < 16"
    by (simp_all add: ef100_pf_nic_type_def)
  from request_header_v2 [OF this, of "efx_mcdi_init demo_nic"] show ?thesis by auto
qed

text \<open>
  C9: the length the driver reads from a response header is below 1024, whatever the controller
  wrote, so the response fits in the buffer of 1024 bytes it is copied to, and \<open>response_rc\<close> delivers
  exactly as many bytes as it reports.
\<close>

theorem response_fits_buffer:
  "snd (snd (response_header ty nic bufid)) < 1024 \<and>
   (case response_rc ef100_pf_nic_type c bufid True s of (rc, data_len, outbuf, s') \<Rightarrow>
      \<exists>b. outbuf = Some b \<and> length b = data_len \<and> data_len < 1024)"
proof -
  have bound: "snd (snd (response_header ty nic bufid)) < 1024" for ty nic
    using EFX_DWORD_FIELD_less [of 8 8 "bytes_dword (mcdi_read_response ty nic bufid 0 4)"]
      EFX_DWORD_FIELD_less [of 10 16 "bytes_dword (mcdi_read_response ty nic bufid 4 4)"]
    by (simp add: response_header_def Let_def)
  obtain e h d where r: "response_header ef100_pf_nic_type (efx s) bufid = (e, h, d)"
    by (metis prod_cases3)
  have "d < 1024"
    using bound [of ef100_pf_nic_type "efx s"] r by simp
  with r bound show ?thesis
    by (auto simp: response_rc_def Let_def ef100_pf_nic_type_def ef100_mcdi_read_response_def)
qed

text \<open>
  The error codes that completion functions see: a response code becomes 0 exactly when it is
  0, stays as it is when it is one of the two codes \<open>mcdi.c\<close> treats itself, and becomes a negative
  error number otherwise.
\<close>

lemma errno_negative:
  "if e \<in> {0, 0x1010, 0x1017} then efx_mcdi_errno ty e = uint e
   else efx_mcdi_errno ty e < 0 \<and> - 115 < efx_mcdi_errno ty e"
proof -
  have "uint e = 0x1010 \<longleftrightarrow> e = 0x1010" "uint e = 0x1017 \<longleftrightarrow> e = 0x1017"
    by (auto simp: word_uint_eq_iff)
  then show ?thesis
    by (auto simp: efx_mcdi_errno_def errno_defs)
qed

text \<open>
  C11: the completion function of a blocking call copies no more than the caller's buffer holds,
  leaves the rest of the buffer alone, and reports the full length of the response.
\<close>

theorem rpc_completer_bounded:
  assumes "length (bd_outbuf w) = bd_outlen w" and "length resp = n"
  shows "let w' = efx_mcdi_rpc_completer rc (Some resp) n w in
    length (bd_outbuf w') = bd_outlen w \<and> take (min n (bd_outlen w)) (bd_outbuf w') = take (bd_outlen w) resp \<and>
    drop n (bd_outbuf w') = drop n (bd_outbuf w) \<and> bd_outlen_actual w' = n \<and> bd_rc w' = rc \<and> bd_done w'"
  using assms by (auto simp: efx_mcdi_rpc_completer_def Let_def min_def)

theorem rpc_completer_bounded_witness:
  "bd_outbuf (efx_mcdi_rpc_completer 0 (Some [1, 2, 3]) 3
     \<lparr>bd_done = False, bd_rc = -5, bd_outbuf = [9, 9], bd_outlen = 2, bd_outlen_actual = 0\<rparr>) = [1, 2]"
  using rpc_completer_bounded [of
      "\<lparr>bd_done = False, bd_rc = -5, bd_outbuf = [9, 9], bd_outlen = 2, bd_outlen_actual = 0\<rparr>" "[1, 2, 3]" 3 0]
  by (auto simp: Let_def)

text \<open>
  C12: the buffers of EF100: a buffer that \<open>ef100_mcdi_get_buf\<close> hands out was free and is in range,
  is not handed out again while it is held, and putting it back restores the pool; with no buffer
  held, the allocator never refuses.
\<close>

theorem ef100_buffers:
  assumes "ef100_mcdi_get_buf nic = Some (b, nic')"
  shows "unat b < EF100_NUM_MCDI_BUFFERS \<and> unat b \<notin> nic_bufs nic \<and> unat b \<in> nic_bufs nic' \<and>
    nic_bufs (ef100_mcdi_put_buf b nic') = nic_bufs nic \<and>
    (\<forall>b' nic''. ef100_mcdi_get_buf nic' = Some (b', nic'') \<longrightarrow> b' \<noteq> b) \<and>
    ef100_mcdi_get_buf (nic\<lparr>nic_mcdi_buf_use := 0\<rparr>) \<noteq> None"
proof -
  have "nic_bufs (nic\<lparr>nic_mcdi_buf_use := 0\<rparr>) = {}"
    by (simp add: nic_bufs_def)
  then have "ef100_mcdi_get_buf (nic\<lparr>nic_mcdi_buf_use := 0\<rparr>) \<noteq> None"
    by (intro ef100_pool.get_available [of 0]) (auto simp: EF100_NUM_MCDI_BUFFERS_def)
  with ef100_pool.get_Some [OF assms] ef100_pool.put_get [OF assms] ef100_pool.get_get_distinct [OF assms]
  show ?thesis by auto
qed

theorem ef100_buffers_witness:
  "\<exists>b nic'. ef100_mcdi_get_buf demo_nic = Some (b, nic') \<and> unat b \<in> nic_bufs nic' \<and>
     nic_bufs (ef100_mcdi_put_buf b nic') = nic_bufs demo_nic"
proof -
  have "\<not> Option.is_none (ef100_mcdi_get_buf demo_nic)"
    by code_simp
  then obtain b nic' where "ef100_mcdi_get_buf demo_nic = Some (b, nic')"
    by (auto simp: Option.is_none_def)
  with ef100_buffers [OF this] show ?thesis by blast
qed

text \<open>
  The interval of the polling work item grows with the age of the command: 1 ms up to 10 ms of
  age, then 10, 100 and 1000 ms, and never decreases as the command gets older (ages below half the
  range of the jiffies counter).
\<close>

lemma time_before_age:
  assumes "age < 2 ^ 62" and "d < 2 ^ 62"
  shows "time_before (start + of_nat age) (start + of_nat d :: u64) \<longleftrightarrow> age < d"
proof -
  have "sint (word_of_int (int age - int d) :: u64) = int age - int d"
    unfolding sint_sbintrunc' using assms by (intro signed_take_bit_int_eq_self) auto
  moreover have "(start + of_nat age) - (start + of_nat d) = (word_of_int (int age - int d) :: u64)"
    by simp
  ultimately show ?thesis
    by (simp add: time_before_def time_after_def)
qed

lemma poll_interval_spec:
  assumes "nic_jiffies (efx s) = cmd_started k + of_nat age" and "age < 2 ^ 62" and "nic_HZ (efx s) < 2 ^ 40"
  shows "efx_mcdi_poll_interval k s =
    (let j = msecs_to_jiffies (efx s) in
     if age < j 10 then j 1 else if age < j 100 then j 10 else if age < j 1000 then j 100 else j 1000)"
proof -
  have "msecs_to_jiffies (efx s) m < 2 ^ 62" if "m \<le> 1000" for m
  proof -
    have "m * nic_HZ (efx s) \<le> 1000 * 2 ^ 40"
      using that assms(3) by (intro mult_le_mono) auto
    then have "(m * nic_HZ (efx s) + 999) div 1000 \<le> 2 ^ 41"
      by simp
    then show ?thesis
      by (simp add: msecs_to_jiffies_def)
  qed
  then show ?thesis
    using assms(1) time_before_age [OF assms(2)]
    by (simp add: efx_mcdi_poll_interval_def Let_def)
qed

lemma poll_interval_example:
  "efx_mcdi_poll_interval (demo_cmd\<lparr>cmd_started := 900\<rparr>) (efx_mcdi_init demo_nic) = 25"
  using poll_interval_spec [of "efx_mcdi_init demo_nic" "demo_cmd\<lparr>cmd_started := 900\<rparr>" 100]
  by (simp add: efx_mcdi_init_def demo_nic_def demo_cmd_def msecs_to_jiffies_def Let_def)

end
