(* ===== verification/Mcdi_Findings.thy ===== *)
theory Mcdi_Findings
  imports Mcdi_Props
begin

section \<open>Runs that break the invariants\<close>

text \<open>
  Concrete runs of the functions of \<open>mcdi.c\<close> in which something goes wrong that the step relation of
  \<open>Mcdi_System\<close> excludes. Each lemma states what the run ends with.
\<close>

definition with_reply :: "u8 list \<Rightarrow> mcdi \<Rightarrow> mcdi" where
  "with_reply bs s = s\<lparr>efx := (efx s)\<lparr>nic_mcdi_pdu := (\<lambda>_ i. if i < length bs then bs ! i else 0)\<rparr>\<rparr>"

text \<open>Responses in version 1 format: success, and the errors \<open>QUEUE_FULL\<close> and \<open>PROXY_PENDING\<close>.\<close>

definition reply_ok :: "u8 list" where
  "reply_ok = [8, 0, 0x81, 0]"

definition reply_queue_full :: "u8 list" where
  "reply_queue_full = [8, 4, 0xc1, 0, 0x17, 0x10, 0, 0]"

definition reply_proxy_pending :: "u8 list" where
  "reply_proxy_pending = [8, 8, 0xc1, 0, 0x10, 0x10, 0, 0, 5, 0, 0, 0]"

definition ev_init :: mcdi where
  "ev_init = efx_mcdi_mode_event (efx_mcdi_init demo_nic)"

definition issue :: "mcdi \<Rightarrow> mcdi option" where
  "issue s = map_option (\<lambda>(_, _, s). s)
     (efx_mcdi_rpc_async_ext ef100_pf_nic_type demo_cmd True 8 [1] None (Some 7) 5 False False s)"

definition timer_fires :: "cmd_ptr \<Rightarrow> mcdi \<Rightarrow> mcdi" where
  "timer_fires c s = modify_cmd c (\<lambda>k. k\<lparr>cmd_work := None\<rparr>) s"

text \<open>
  A cancelled command that is answered \<open>PROXY_PENDING\<close> becomes an ordinary proxied command again
  (\<open>cmd->state = MCDI_STATE_PROXY\<close>), and its completion function is called a second time.
\<close>

definition run_late_proxy :: "mcdi option" where
  "run_late_proxy = do {
     s \<leftarrow> issue ev_init;
     let s = efx_mcdi_cancel_cmd 0 s;
     s \<leftarrow> efx_mcdi_ev_cpl ef100_pf_nic_type 1 True (with_reply reply_proxy_pending s);
     s \<leftarrow> efx_mcdi_ev_proxy_response ef100_pf_nic_type 5 0 s;
     efx_mcdi_ev_cpl ef100_pf_nic_type 2 True (with_reply reply_ok s)
   }"

lemma late_proxy_completes_twice:
  "map_option completions run_late_proxy = Some
     [Completer 0 5 (- EPIPE) None 0, Completer 0 5 0 (Some []) 0]"
  by code_simp

text \<open>
  A command that timed out is freed, but its sequence number is not released: a late completion
  event uses the freed command.
\<close>

definition run_late_cmddone :: "mcdi option" where
  "run_late_cmddone = do {
     s \<leftarrow> issue ev_init;
     s \<leftarrow> efx_mcdi_cmd_work ef100_pf_nic_type 0 True (with_reply [] (timer_fires 0 s));
     efx_mcdi_ev_cpl ef100_pf_nic_type 1 True s
   }"

lemma late_cmddone_use_after_free:
  "map_option (\<lambda>s. (mode s, hd (faults s))) run_late_cmddone = Some (MCDI_MODE_FAIL, Use_After_Free 0)"
  by code_simp

text \<open>
  A cancelled command that completes is not set to \<open>FINISHED\<close>: its work item, already waiting for the
  lock, goes on as if the command were running and removes it from the list a second time.
\<close>

definition run_cancel_race :: "mcdi option" where
  "run_cancel_race = do {
     s \<leftarrow> issue ev_init;
     let s = efx_mcdi_cancel_cmd 0 s;
     let s = timer_fires 0 s;
     s \<leftarrow> efx_mcdi_ev_cpl ef100_pf_nic_type 1 True (with_reply reply_ok s);
     efx_mcdi_cmd_work ef100_pf_nic_type 0 True s
   }"

lemma cancel_race_list_corruption:
  "map_option (\<lambda>s. hd (faults s)) run_cancel_race = Some (List_Corruption 0)"
  by code_simp

text \<open>
  The time-out of a command that was answered \<open>QUEUE_FULL\<close> stays pending. When it fires while another
  command is running, the interface is declared dead and \<open>efx_mcdi_mode_fail\<close> never ends.
\<close>

lemma mode_fail_stuck:
  assumes "cmd_list s = c # cs" and "cmds s c = Some k" and "efx_mcdi_cancel_cmd_1 (cmd_handle k) s = s"
  shows "mode_fail_loop s = None"
proof (rule ccontr)
  assume "mode_fail_loop s \<noteq> None"
  then obtain r where r: "mode_fail_loop s = Some r" by auto
  have "t \<noteq> s" if "mode_fail_loop t = Some q" for t q
    by (rule mode_fail_loop.raw_induct [where P = "\<lambda>t _. t \<noteq> s", OF _ that])
      (use assms in \<open>auto split: list.splits option.splits\<close>)
  with r show False by blast
qed

definition run_retry_timeout :: "mcdi option" where
  "run_retry_timeout = do {
     s \<leftarrow> issue ev_init;
     s \<leftarrow> issue s;
     s \<leftarrow> efx_mcdi_ev_cpl ef100_pf_nic_type 1 True (with_reply reply_queue_full s);
     Some (timer_fires 0 (with_reply [] s))
   }"

lemma retry_timeout_state:
  "map_option (\<lambda>s. (cmd_list s, map (\<lambda>c. map_option cmd_state (cmds s c)) [0, 1])) run_retry_timeout =
     Some ([0, 1], [Some MCDI_STATE_RETRY, Some MCDI_STATE_RUNNING])"
  by code_simp

definition retry_failing :: mcdi where
  "retry_failing = (efx_mcdi_remove_cmd 0 (modify_cmd 0 (\<lambda>k. k\<lparr>cmd_rc := - ETIMEDOUT\<rparr>)
     (let s = the run_retry_timeout in s\<lparr>efx := ef100_mcdi_put_buf 0 (efx s)\<rparr>)))\<lparr>mode := MCDI_MODE_FAIL\<rparr>"

definition retry_dead :: mcdi where
  "retry_dead = efx_mcdi_cancel_cmd_1 1 retry_failing"

lemma retry_failing_loops: "mode_fail_loop retry_failing = None"
proof -
  have "cmd_list retry_failing = [1]" "map_option cmd_handle (cmds retry_failing 1) = Some 1"
    and d: "cmd_list retry_dead = [1]"
      "map_option (\<lambda>k. (cmd_handle k, cmd_state k)) (cmds retry_dead 1) = Some (1, MCDI_STATE_RUNNING_CANCELLED)"
    by code_simp+
  then have step: "mode_fail_loop retry_failing = mode_fail_loop retry_dead"
    by (subst mode_fail_loop.simps) (auto simp: retry_dead_def)
  obtain k where k: "cmds retry_dead 1 = Some k" "cmd_handle k = 1" "cmd_state k = MCDI_STATE_RUNNING_CANCELLED"
    using d(2) by auto
  then have "efx_mcdi_cancel_cmd_1 (cmd_handle k) retry_dead = retry_dead"
    using d(1) by (simp add: efx_mcdi_cancel_cmd_1_def has_handle_def cancel_one_def)
  with mode_fail_stuck [OF d(1) k(1)] step show ?thesis by simp
qed

lemma retry_timeout_hangs: "efx_mcdi_cmd_work ef100_pf_nic_type 0 True (the run_retry_timeout) = None"
proof -
  let ?s = "the run_retry_timeout"
  have "map_option (\<lambda>k. (cmd_state k, cmd_polled k, cmd_bufid k, efx_mcdi_poll_once ef100_pf_nic_type k ?s))
      (cmds ?s 0) = Some (MCDI_STATE_RETRY, False, 0, False)"
    by code_simp
  then obtain k where k: "cmds ?s 0 = Some k" "cmd_state k = MCDI_STATE_RETRY" "\<not> cmd_polled k" "cmd_bufid k = 0"
    "\<not> efx_mcdi_poll_once ef100_pf_nic_type k ?s"
    by auto
  then have "efx_mcdi_cmd_work_locked ef100_pf_nic_type 0 True ?s = efx_mcdi_timeout_cmd ef100_pf_nic_type 0 ?s"
    by (simp add: efx_mcdi_cmd_work_locked_def)
  also have "\<dots> = None"
    using k(1,4) retry_failing_loops
    by (simp add: efx_mcdi_timeout_cmd_def efx_mcdi_mode_fail_def retry_failing_def ef100_pf_nic_type_def Let_def)
  finally show ?thesis
    by (simp add: efx_mcdi_cmd_work_def)
qed

text \<open>
  \<open>PROXY_RESPONSE_RC\<close> is passed on as the unsigned field of the event: the completion function gets a
  positive return code, and the test for \<open>-EINTR\<close> fails.
\<close>

definition run_proxy_rc :: "mcdi option" where
  "run_proxy_rc = do {
     s \<leftarrow> issue ev_init;
     s \<leftarrow> efx_mcdi_ev_cpl ef100_pf_nic_type 1 True (with_reply reply_proxy_pending s);
     map_option snd (efx_mcdi_process_event ef100_pf_nic_type 0x1d04000000005 True s)
   }"

lemma proxy_rc_positive: "map_option completions run_proxy_rc = Some [Completer 0 5 4 None 0]"
  by code_simp

text \<open>The length 1024 is accepted, and sent as 0.\<close>

lemma length_1024_sent_as_0:
  "efx_mcdi_check_supported ef100_pf_nic_type 8 1024 = 0 \<and>
   map (\<lambda>h. EFX_DWORD_FIELD h MC_CMD_V2_EXTN_IN_ACTUAL_LEN)
     (tl (mcdi_request_header ef100_pf_nic_type ev_init (demo_cmd\<lparr>cmd_inlen := 1024\<rparr>))) = [0]"
  by code_simp

text \<open>A completion event with sequence number 200 reads past the array of 16.\<close>

lemma cmddone_out_of_bounds:
  "map_option (\<lambda>(b, s). faults s) (efx_mcdi_process_event ef100_pf_nic_type 0x3000000000c8 True ev_init) =
     Some [Out_Of_Bounds 200]"
  by code_simp

text \<open>EF100 leaves \<open>mcdi_record_bist_event\<close> out; the BIST event calls it.\<close>

lemma bist_event_null_call:
  "faults (efx_mcdi_ev_death_locked ef100_pf_nic_type True ev_init) = [Null_Call]"
  by code_simp

end
