(* ===== verification/Oword.thy ===== *)
theory Oword
  imports Bitfield
begin

section \<open>128-bit registers (bitfield.h)\<close>

text \<open>
  An \<open>efx_oword_t\<close> is two 64-bit words. A field may cross the border between them; the macros
  insert or extract its part in each half. \<open>obit\<close> numbers the bits of the oword.
\<close>

type_synonym oword = "u64 \<times> u64"

fun EFX_INSERT_FIELDS64 :: "nat \<Rightarrow> nat \<Rightarrow> (efx_field \<times> u64) list \<Rightarrow> u64" where
  "EFX_INSERT_FIELDS64 mn mx [] = 0"
| "EFX_INSERT_FIELDS64 mn mx ((f, v) # fs) =
     EFX_INSERT_NATIVE64 mn mx (EFX_LOW_BIT f) (EFX_HIGH_BIT f) v OR EFX_INSERT_FIELDS64 mn mx fs"

definition EFX_POPULATE_OWORD :: "(efx_field \<times> u64) list \<Rightarrow> oword" where
  "EFX_POPULATE_OWORD fs = (EFX_INSERT_FIELDS64 0 63 fs, EFX_INSERT_FIELDS64 64 127 fs)"

definition EFX_EXTRACT_OWORD64 :: "oword \<Rightarrow> nat \<Rightarrow> nat \<Rightarrow> u64" where
  "EFX_EXTRACT_OWORD64 w low high =
     (EFX_EXTRACT_NATIVE (fst w) 0 63 low high OR EFX_EXTRACT_NATIVE (snd w) 64 127 low high)
       AND EFX_MASK64 (high + 1 - low)"

definition EFX_OWORD_FIELD :: "oword \<Rightarrow> efx_field \<Rightarrow> u64" where
  "EFX_OWORD_FIELD w f = EFX_EXTRACT_OWORD64 w (EFX_LOW_BIT f) (EFX_HIGH_BIT f)"

definition EFX_INPLACE_MASK64 :: "nat \<Rightarrow> nat \<Rightarrow> nat \<Rightarrow> nat \<Rightarrow> u64" where
  "EFX_INPLACE_MASK64 mn mx low high = EFX_INSERT_NATIVE64 mn mx low high (EFX_MASK64 (high + 1 - low))"

definition EFX_SET_OWORD64 :: "oword \<Rightarrow> nat \<Rightarrow> nat \<Rightarrow> u64 \<Rightarrow> oword" where
  "EFX_SET_OWORD64 w low high v =
     (fst w AND NOT (EFX_INPLACE_MASK64 0 63 low high) OR EFX_INSERT_NATIVE64 0 63 low high v,
      snd w AND NOT (EFX_INPLACE_MASK64 64 127 low high) OR EFX_INSERT_NATIVE64 64 127 low high v)"

definition EFX_SET_OWORD_FIELD :: "efx_field \<Rightarrow> u64 \<Rightarrow> oword \<Rightarrow> oword" where
  "EFX_SET_OWORD_FIELD f v w = EFX_SET_OWORD64 w (EFX_LOW_BIT f) (EFX_HIGH_BIT f) v"

definition obit :: "oword \<Rightarrow> nat \<Rightarrow> bool" where
  "obit w j = (if j < 64 then bit (fst w) j else bit (snd w) (j - 64))"

text \<open>A field of at most 64 bits that lies inside the oword, and a value that fits in it.\<close>

definition ofield_ok :: "efx_field \<Rightarrow> bool" where
  "ofield_ok f \<longleftrightarrow> 0 < snd f \<and> snd f \<le> 64 \<and> fst f + snd f \<le> 128"

definition ofits :: "efx_field \<Rightarrow> u64 \<Rightarrow> bool" where
  "ofits f v \<longleftrightarrow> ofield_ok f \<and> unat v < 2 ^ snd f"

lemma bit_insert_low:
  assumes "ofits (l, n) v" and "i < 64"
  shows "bit (EFX_INSERT_NATIVE64 0 63 l (l + n - 1) v) i \<longleftrightarrow> l \<le> i \<and> i < l + n \<and> bit v (i - l)"
  using assms unat_less_exp_bit [of v n "i - l"]
  by (auto simp: EFX_INSERT_NATIVE64_def ofits_def ofield_ok_def bit_push_bit_iff bit_drop_bit_eq)

lemma bit_insert_high:
  assumes "ofits (l, n) v" and "i < 64"
  shows "bit (EFX_INSERT_NATIVE64 64 127 l (l + n - 1) v) i \<longleftrightarrow>
    l \<le> i + 64 \<and> i + 64 < l + n \<and> bit v (i + 64 - l)"
  using assms unat_less_exp_bit [of v n "i + 64 - l"]
  by (auto simp: EFX_INSERT_NATIVE64_def ofits_def ofield_ok_def bit_push_bit_iff bit_drop_bit_eq
      algebra_simps)

lemma bit_EFX_MASK64: "0 < n \<Longrightarrow> n \<le> 64 \<Longrightarrow> bit (EFX_MASK64 n) i \<longleftrightarrow> i < n"
  by (auto simp: EFX_MASK64_eq bit_mask_iff)

lemma obit_EFX_OWORD_FIELD:
  assumes "ofield_ok (l, n)"
  shows "bit (EFX_OWORD_FIELD w (l, n)) i \<longleftrightarrow> i < n \<and> obit w (l + i)"
proof (cases "i < n")
  case False
  with assms show ?thesis
    by (simp add: EFX_OWORD_FIELD_def EFX_EXTRACT_OWORD64_def efx_field_defs bit_and_iff
        bit_EFX_MASK64 ofield_ok_def)
next
  case True
  have "bit (EFX_EXTRACT_NATIVE (fst w) 0 63 l (l + n - 1)) i \<longleftrightarrow> l + i < 64 \<and> bit (fst w) (l + i)"
    using assms True
    by (auto simp: EFX_EXTRACT_NATIVE_def ofield_ok_def bit_drop_bit_eq dest: bit_imp_le_length)
  moreover have "bit (EFX_EXTRACT_NATIVE (snd w) 64 127 l (l + n - 1)) i \<longleftrightarrow>
      64 \<le> l + i \<and> bit (snd w) (l + i - 64)"
    using assms True
    by (auto simp: EFX_EXTRACT_NATIVE_def ofield_ok_def bit_drop_bit_eq bit_push_bit_iff algebra_simps
        dest: bit_imp_le_length)
  ultimately show ?thesis
    using True assms
    by (auto simp: EFX_OWORD_FIELD_def EFX_EXTRACT_OWORD64_def efx_field_defs bit_and_iff bit_or_iff
        bit_EFX_MASK64 ofield_ok_def obit_def)
qed

lemma obit_EFX_SET_OWORD_FIELD:
  assumes f: "ofits (l, n) v" and j: "j < 128"
  shows "obit (EFX_SET_OWORD_FIELD (l, n) v w) j \<longleftrightarrow>
    (if l \<le> j \<and> j < l + n then bit v (j - l) else obit w j)"
proof -
  have ok: "ofield_ok (l, n)"
    using f by (simp add: ofits_def)
  have m: "ofits (l, n) (EFX_MASK64 n)"
    using ok by (auto simp: ofits_def ofield_ok_def EFX_MASK64_eq unsigned_take_bit_eq
        simp flip: take_bit_minus_one_eq_mask intro: take_bit_nat_less_exp)
  have sz: "l + n - Suc 0 + 1 - l = n"
    using ok by (simp add: ofield_ok_def)
  show ?thesis
  proof (cases "j < 64")
    case True
    with bit_insert_low [OF f, of j] bit_insert_low [OF m, of j] ok sz show ?thesis
      by (auto simp: EFX_SET_OWORD_FIELD_def EFX_SET_OWORD64_def EFX_INPLACE_MASK64_def efx_field_defs
          obit_def bit_or_iff bit_and_iff bit_not_iff bit_EFX_MASK64 ofield_ok_def)
  next
    case False
    with j have "j - 64 < 64" "j - 64 + 64 = j" by auto
    with False bit_insert_high [OF f, of "j - 64"] bit_insert_high [OF m, of "j - 64"] ok sz show ?thesis
      by (auto simp: EFX_SET_OWORD_FIELD_def EFX_SET_OWORD64_def EFX_INPLACE_MASK64_def efx_field_defs
          obit_def bit_or_iff bit_and_iff bit_not_iff bit_EFX_MASK64 ofield_ok_def)
  qed
qed

text \<open>Reading a field after setting it, and after setting another one.\<close>

lemma oword_field_set [simp]:
  assumes "ofits f v"
  shows "EFX_OWORD_FIELD (EFX_SET_OWORD_FIELD f v w) f = v"
proof (rule bit_word_eqI)
  fix i :: nat
  assume "i < LENGTH(64)"
  obtain l n where f: "f = (l, n)" by fastforce
  have ok: "ofield_ok (l, n)" "unat v < 2 ^ n"
    using assms by (auto simp: ofits_def f)
  show "bit (EFX_OWORD_FIELD (EFX_SET_OWORD_FIELD f v w) f) i = bit v i"
    using obit_EFX_SET_OWORD_FIELD [of l n v "l + i" w] assms ok unat_less_exp_bit [of v n i]
    unfolding f by (auto simp: obit_EFX_OWORD_FIELD ofield_ok_def)
qed

definition odisjoint :: "efx_field \<Rightarrow> efx_field \<Rightarrow> bool" where
  "odisjoint f g \<longleftrightarrow> fst f + snd f \<le> fst g \<or> fst g + snd g \<le> fst f"

lemma oword_field_set_other [simp]:
  assumes "ofits f v" and "ofield_ok g" and "odisjoint f g"
  shows "EFX_OWORD_FIELD (EFX_SET_OWORD_FIELD f v w) g = EFX_OWORD_FIELD w g"
proof (rule bit_word_eqI)
  fix i :: nat
  assume "i < LENGTH(64)"
  obtain l n l' n' where fg: "f = (l, n)" "g = (l', n')" by fastforce
  show "bit (EFX_OWORD_FIELD (EFX_SET_OWORD_FIELD f v w) g) i = bit (EFX_OWORD_FIELD w g) i"
    using obit_EFX_SET_OWORD_FIELD [of l n v "l' + i" w] assms
    unfolding fg by (auto simp: obit_EFX_OWORD_FIELD ofield_ok_def odisjoint_def)
qed

lemma bit_insert_fields_low:
  assumes "\<forall>(f, v) \<in> set fs. ofits f v" and "i < 64"
  shows "bit (EFX_INSERT_FIELDS64 0 63 fs) i \<longleftrightarrow>
    (\<exists>(f, v) \<in> set fs. fst f \<le> i \<and> i < fst f + snd f \<and> bit v (i - fst f))"
  using assms
proof (induction fs)
  case (Cons p fs)
  obtain l n v where p: "p = ((l, n), v)" by (metis surj_pair)
  with Cons bit_insert_low [of l n v i] show ?case
    by (auto simp: bit_or_iff efx_field_defs)
qed simp

lemma bit_insert_fields_high:
  assumes "\<forall>(f, v) \<in> set fs. ofits f v" and "i < 64"
  shows "bit (EFX_INSERT_FIELDS64 64 127 fs) i \<longleftrightarrow>
    (\<exists>(f, v) \<in> set fs. fst f \<le> i + 64 \<and> i + 64 < fst f + snd f \<and> bit v (i + 64 - fst f))"
  using assms
proof (induction fs)
  case (Cons p fs)
  obtain l n v where p: "p = ((l, n), v)" by (metis surj_pair)
  with Cons bit_insert_high [of l n v i] show ?case
    by (auto simp: bit_or_iff efx_field_defs)
qed simp

lemma obit_EFX_POPULATE_OWORD:
  assumes "\<forall>(f, v) \<in> set fs. ofits f v" and "j < 128"
  shows "obit (EFX_POPULATE_OWORD fs) j \<longleftrightarrow>
    (\<exists>(f, v) \<in> set fs. fst f \<le> j \<and> j < fst f + snd f \<and> bit v (j - fst f))"
proof (cases "j < 64")
  case True
  with bit_insert_fields_low [OF assms(1)] show ?thesis
    by (simp add: obit_def EFX_POPULATE_OWORD_def)
next
  case False
  with assms(2) have "j - 64 < 64" "j - 64 + 64 = j" by auto
  with False bit_insert_fields_high [OF assms(1), of "j - 64"] show ?thesis
    by (simp add: obit_def EFX_POPULATE_OWORD_def)
qed

fun ofields_wf :: "(efx_field \<times> u64) list \<Rightarrow> bool" where
  "ofields_wf [] = True"
| "ofields_wf (fv # fs) =
     (ofits (fst fv) (snd fv) \<and> list_all (\<lambda>gv. odisjoint (fst fv) (fst gv)) fs \<and> ofields_wf fs)"

lemma ofields_wf_ok: "ofields_wf fs \<Longrightarrow> fv \<in> set fs \<Longrightarrow> ofits (fst fv) (snd fv)"
  by (induction fs) auto

lemma ofields_wf_disjoint:
  "ofields_wf fs \<Longrightarrow> fv \<in> set fs \<Longrightarrow> gv \<in> set fs \<Longrightarrow> fv \<noteq> gv \<Longrightarrow> odisjoint (fst fv) (fst gv)"
  by (induction fs) (auto simp: list_all_iff odisjoint_def)

lemma oword_field_populate:
  assumes wf: "ofields_wf fs" and mem: "(f, v) \<in> set fs"
  shows "EFX_OWORD_FIELD (EFX_POPULATE_OWORD fs) f = v"
proof (rule bit_word_eqI)
  fix i :: nat
  assume "i < LENGTH(64)"
  obtain l n where f: "f = (l, n)" by fastforce
  have ok: "ofield_ok (l, n)" "unat v < 2 ^ n"
    using ofields_wf_ok [OF wf mem] by (auto simp: ofits_def f)
  have all: "\<forall>(f, v) \<in> set fs. ofits f v"
    using ofields_wf_ok [OF wf] by auto
  have own: "(f', v') = (f, v)"
    if "(f', v') \<in> set fs" "fst f' \<le> l + i" "l + i < fst f' + snd f'" "i < n" for f' v'
  proof (rule ccontr)
    assume "(f', v') \<noteq> (f, v)"
    with ofields_wf_disjoint [OF wf that(1) mem] that show False
      by (auto simp: odisjoint_def f)
  qed
  have "bit (EFX_OWORD_FIELD (EFX_POPULATE_OWORD fs) f) i \<longleftrightarrow> i < n \<and> obit (EFX_POPULATE_OWORD fs) (l + i)"
    using ok by (simp add: f obit_EFX_OWORD_FIELD)
  also have "\<dots> \<longleftrightarrow> i < n \<and> bit v i"
  proof (cases "i < n")
    case True
    then have "l + i < 128"
      using ok by (auto simp: ofield_ok_def)
    note p = obit_EFX_POPULATE_OWORD [OF all this]
    have "obit (EFX_POPULATE_OWORD fs) (l + i) \<longleftrightarrow> bit v i"
    proof
      assume "obit (EFX_POPULATE_OWORD fs) (l + i)"
      then obtain f' v' where g: "(f', v') \<in> set fs" "fst f' \<le> l + i" "l + i < fst f' + snd f'"
        "bit v' (l + i - fst f')"
        using p by blast
      from own [OF g(1-3) True] g(4) show "bit v i"
        by (simp add: f)
    next
      assume "bit v i"
      then show "obit (EFX_POPULATE_OWORD fs) (l + i)"
        unfolding p using mem True by (intro bexI [of _ "(f, v)"]) (auto simp: f)
    qed
    with True show ?thesis by simp
  qed simp
  also have "\<dots> \<longleftrightarrow> bit v i"
    using unat_less_exp_bit [OF ok(2)] by blast
  finally show "bit (EFX_OWORD_FIELD (EFX_POPULATE_OWORD fs) f) i \<longleftrightarrow> bit v i" .
qed

end
