(* ===== verification/Farch.thy ===== *)
theory Farch
  imports Oword
begin

unbundle bit_operations_syntax

section \<open>The filter tables of the Falcon architecture (farch.c, filter.h)\<close>

text \<open>
  Receive and transmit filters are kept in hash tables of the NIC with open addressing: the key of a
  filter gives the first slot and the step, and the NIC follows at most \<open>search_limit\<close> steps. The
  driver mirrors the tables in \<open>efx_farch_filter_state\<close>.

  Network byte order fields are represented by the numbers they denote, so that \<open>ntohl\<close> and
  \<open>htons\<close> are the identity. Types, priorities and table identifiers are numbers as in the C
  code, which computes with them. A value \<open>None\<close> stands for \<open>BUG\<close>, \<open>BUG_ON\<close> or an access
  outside an array. The register file is \<open>fa_mem\<close>, from addresses to 128-bit words, with the two
  control registers apart.
\<close>

subsection \<open>Constants\<close>

abbreviation EFX_FILTER_MATCH_REM_HOST :: u32 where "EFX_FILTER_MATCH_REM_HOST \<equiv> 0x0001"
abbreviation EFX_FILTER_MATCH_LOC_HOST :: u32 where "EFX_FILTER_MATCH_LOC_HOST \<equiv> 0x0002"
abbreviation EFX_FILTER_MATCH_REM_PORT :: u32 where "EFX_FILTER_MATCH_REM_PORT \<equiv> 0x0008"
abbreviation EFX_FILTER_MATCH_LOC_MAC :: u32 where "EFX_FILTER_MATCH_LOC_MAC \<equiv> 0x0010"
abbreviation EFX_FILTER_MATCH_LOC_PORT :: u32 where "EFX_FILTER_MATCH_LOC_PORT \<equiv> 0x0020"
abbreviation EFX_FILTER_MATCH_ETHER_TYPE :: u32 where "EFX_FILTER_MATCH_ETHER_TYPE \<equiv> 0x0040"
abbreviation EFX_FILTER_MATCH_OUTER_VID :: u32 where "EFX_FILTER_MATCH_OUTER_VID \<equiv> 0x0100"
abbreviation EFX_FILTER_MATCH_IP_PROTO :: u32 where "EFX_FILTER_MATCH_IP_PROTO \<equiv> 0x0200"
abbreviation EFX_FILTER_MATCH_LOC_MAC_IG :: u32 where "EFX_FILTER_MATCH_LOC_MAC_IG \<equiv> 0x0400"

text \<open>The four combinations of match flags that the tables support.\<close>

definition MATCH_IP_FULL :: u32 where
  "MATCH_IP_FULL = EFX_FILTER_MATCH_ETHER_TYPE OR EFX_FILTER_MATCH_IP_PROTO OR
     EFX_FILTER_MATCH_LOC_HOST OR EFX_FILTER_MATCH_LOC_PORT OR
     EFX_FILTER_MATCH_REM_HOST OR EFX_FILTER_MATCH_REM_PORT"

definition MATCH_IP_WILD :: u32 where
  "MATCH_IP_WILD = EFX_FILTER_MATCH_ETHER_TYPE OR EFX_FILTER_MATCH_IP_PROTO OR
     EFX_FILTER_MATCH_LOC_HOST OR EFX_FILTER_MATCH_LOC_PORT"

definition MATCH_MAC_FULL :: u32 where
  "MATCH_MAC_FULL = EFX_FILTER_MATCH_LOC_MAC OR EFX_FILTER_MATCH_OUTER_VID"

abbreviation EFX_FILTER_PRI_HINT :: nat where "EFX_FILTER_PRI_HINT \<equiv> 1"
abbreviation EFX_FILTER_PRI_AUTO :: nat where "EFX_FILTER_PRI_AUTO \<equiv> 2"
abbreviation EFX_FILTER_PRI_MANUAL :: nat where "EFX_FILTER_PRI_MANUAL \<equiv> 3"
abbreviation EFX_FILTER_PRI_REQUIRED :: nat where "EFX_FILTER_PRI_REQUIRED \<equiv> 4"

abbreviation EFX_FILTER_FLAG_RX_RSS :: u8 where "EFX_FILTER_FLAG_RX_RSS \<equiv> 0x01"
abbreviation EFX_FILTER_FLAG_RX_SCATTER :: u8 where "EFX_FILTER_FLAG_RX_SCATTER \<equiv> 0x02"
abbreviation EFX_FILTER_FLAG_RX_OVER_AUTO :: u8 where "EFX_FILTER_FLAG_RX_OVER_AUTO \<equiv> 0x04"
abbreviation EFX_FILTER_FLAG_RX :: u8 where "EFX_FILTER_FLAG_RX \<equiv> 0x08"
abbreviation EFX_FILTER_FLAG_TX :: u8 where "EFX_FILTER_FLAG_TX \<equiv> 0x10"
abbreviation EFX_FILTER_FLAG_VPORT_ID :: u8 where "EFX_FILTER_FLAG_VPORT_ID \<equiv> 0x40"

abbreviation EFX_FILTER_RX_DMAQ_ID_DROP :: u16 where "EFX_FILTER_RX_DMAQ_ID_DROP \<equiv> 0xfff"

abbreviation EFX_FARCH_FILTER_TCP_FULL :: nat where "EFX_FARCH_FILTER_TCP_FULL \<equiv> 0"
abbreviation EFX_FARCH_FILTER_TCP_WILD :: nat where "EFX_FARCH_FILTER_TCP_WILD \<equiv> 1"
abbreviation EFX_FARCH_FILTER_UDP_FULL :: nat where "EFX_FARCH_FILTER_UDP_FULL \<equiv> 2"
abbreviation EFX_FARCH_FILTER_UDP_WILD :: nat where "EFX_FARCH_FILTER_UDP_WILD \<equiv> 3"
abbreviation EFX_FARCH_FILTER_MAC_FULL :: nat where "EFX_FARCH_FILTER_MAC_FULL \<equiv> 4"
abbreviation EFX_FARCH_FILTER_MAC_WILD :: nat where "EFX_FARCH_FILTER_MAC_WILD \<equiv> 5"
abbreviation EFX_FARCH_FILTER_UC_DEF :: nat where "EFX_FARCH_FILTER_UC_DEF \<equiv> 8"
abbreviation EFX_FARCH_FILTER_MC_DEF :: nat where "EFX_FARCH_FILTER_MC_DEF \<equiv> 9"
abbreviation EFX_FARCH_FILTER_TYPE_COUNT :: nat where "EFX_FARCH_FILTER_TYPE_COUNT \<equiv> 10"

abbreviation EFX_FARCH_FILTER_TABLE_RX_IP :: nat where "EFX_FARCH_FILTER_TABLE_RX_IP \<equiv> 0"
abbreviation EFX_FARCH_FILTER_TABLE_RX_MAC :: nat where "EFX_FARCH_FILTER_TABLE_RX_MAC \<equiv> 1"
abbreviation EFX_FARCH_FILTER_TABLE_RX_DEF :: nat where "EFX_FARCH_FILTER_TABLE_RX_DEF \<equiv> 2"
abbreviation EFX_FARCH_FILTER_TABLE_TX_IP :: nat where "EFX_FARCH_FILTER_TABLE_TX_IP \<equiv> 3"
abbreviation EFX_FARCH_FILTER_TABLE_TX_MAC :: nat where "EFX_FARCH_FILTER_TABLE_TX_MAC \<equiv> 4"
abbreviation EFX_FARCH_FILTER_TABLE_COUNT :: nat where "EFX_FARCH_FILTER_TABLE_COUNT \<equiv> 5"

abbreviation EFX_FARCH_FILTER_INDEX_UC_DEF :: nat where "EFX_FARCH_FILTER_INDEX_UC_DEF \<equiv> 0"
abbreviation EFX_FARCH_FILTER_INDEX_MC_DEF :: nat where "EFX_FARCH_FILTER_INDEX_MC_DEF \<equiv> 1"
abbreviation EFX_FARCH_FILTER_SIZE_RX_DEF :: nat where "EFX_FARCH_FILTER_SIZE_RX_DEF \<equiv> 2"

abbreviation EFX_FARCH_FILTER_CTL_SRCH_FUDGE_WILD :: nat where "EFX_FARCH_FILTER_CTL_SRCH_FUDGE_WILD \<equiv> 3"
abbreviation EFX_FARCH_FILTER_CTL_SRCH_FUDGE_FULL :: nat where "EFX_FARCH_FILTER_CTL_SRCH_FUDGE_FULL \<equiv> 1"
abbreviation EFX_FARCH_FILTER_CTL_SRCH_MAX :: nat where "EFX_FARCH_FILTER_CTL_SRCH_MAX \<equiv> 200"
abbreviation EFX_FARCH_FILTER_CTL_SRCH_HINT_MAX :: nat where "EFX_FARCH_FILTER_CTL_SRCH_HINT_MAX \<equiv> 5"

abbreviation ETH_P_IP :: u16 where "ETH_P_IP \<equiv> 0x0800"
abbreviation ETH_P_IPV6 :: u16 where "ETH_P_IPV6 \<equiv> 0x86dd"
abbreviation IPPROTO_TCP :: u8 where "IPPROTO_TCP \<equiv> 6"
abbreviation IPPROTO_UDP :: u8 where "IPPROTO_UDP \<equiv> 17"

definition EADDRNOTAVAIL :: int where [errno_defs]: "EADDRNOTAVAIL = 99"

subsection \<open>Data\<close>

text \<open>The generic filter specification of filter.h.\<close>

record efx_filter_spec =
  gs_match_flags :: u32
  gs_priority :: nat
  gs_flags :: u8
  gs_dmaq_id :: u16
  gs_stack_id :: u16
  gs_rss_context :: u32
  gs_vport_id :: u32
  gs_outer_vid :: u16
  gs_inner_vid :: u16
  gs_loc_mac :: "u8 list"
  gs_rem_mac :: "u8 list"
  gs_ether_type :: u16
  gs_ip_proto :: u8
  gs_loc_host :: "u32 list"
  gs_rem_host :: "u32 list"
  gs_loc_port :: u16
  gs_rem_port :: u16
  gs_tni :: u32
  gs_encap_type :: nat
  gs_outer_loc_mac :: "u8 list"

text \<open>\<open>memset(gen_spec, 0, sizeof(*gen_spec))\<close>\<close>

definition zero_gen_spec :: efx_filter_spec where
  "zero_gen_spec = \<lparr>gs_match_flags = 0, gs_priority = 0, gs_flags = 0, gs_dmaq_id = 0, gs_stack_id = 0,
     gs_rss_context = 0, gs_vport_id = 0, gs_outer_vid = 0, gs_inner_vid = 0, gs_loc_mac = replicate 6 0,
     gs_rem_mac = replicate 6 0, gs_ether_type = 0, gs_ip_proto = 0, gs_loc_host = replicate 4 0,
     gs_rem_host = replicate 4 0, gs_loc_port = 0, gs_rem_port = 0, gs_tni = 0, gs_encap_type = 0,
     gs_outer_loc_mac = replicate 6 0\<rparr>"

record farch_spec =
  fs_type :: nat
  fs_priority :: nat
  fs_flags :: u8
  fs_dmaq_id :: u16
  fs_data :: "u32 \<times> u32 \<times> u32"

definition zero_farch_spec :: farch_spec where
  "zero_farch_spec = \<lparr>fs_type = 0, fs_priority = 0, fs_flags = 0, fs_dmaq_id = 0, fs_data = (0, 0, 0)\<rparr>"

record farch_table =
  ft_id :: nat
  ft_offset :: nat
  ft_size :: nat
  ft_step :: nat
  ft_used :: nat
  ft_used_bitmap :: "bool list"
  ft_spec :: "farch_spec list"
  ft_search_limit :: "nat list"

text \<open>\<open>efx_farch_filter_state\<close>, with what the code reads of \<open>efx_nic\<close>, and the registers.\<close>

record farch =
  fa_table :: "farch_table list"
  fa_blocked_ucast :: bool
  fa_blocked_mcast :: bool
  fa_rss_enabled :: bool
  fa_rx_scatter :: bool
  fa_rx_channels :: nat
  fa_rx_filter_ctl :: oword
  fa_tx_cfg :: oword
  fa_mem :: "nat \<Rightarrow> oword"

definition has_flag :: "u8 \<Rightarrow> u8 \<Rightarrow> bool" where
  "has_flag flags f \<longleftrightarrow> flags AND f \<noteq> 0"

subsection \<open>Hashing\<close>

definition efx_farch_filter_hash :: "u32 \<Rightarrow> u16" where
  "efx_farch_filter_hash key =
     (let tmp = (ucast (0x1fff XOR drop_bit 16 key) :: u16);
          tmp = tmp XOR drop_bit 3 tmp XOR drop_bit 6 tmp;
          tmp = tmp XOR drop_bit 9 tmp;
          tmp = ucast (ucast tmp XOR push_bit 13 (ucast tmp :: u32) XOR key);
          tmp = tmp XOR drop_bit 3 tmp XOR drop_bit 6 tmp
      in tmp XOR drop_bit 9 tmp)"

definition efx_farch_filter_increment :: "u32 \<Rightarrow> u16" where
  "efx_farch_filter_increment key = ucast (key * 2 - 1)"

definition efx_farch_filter_spec_table_id :: "farch_spec \<Rightarrow> nat" where
  "efx_farch_filter_spec_table_id spec =
     fs_type spec div 4 + (if has_flag (fs_flags spec) EFX_FILTER_FLAG_TX then 3 else 0)"

subsection \<open>Control registers\<close>

abbreviation FRF_BZ_TCP_FULL_SRCH_LIMIT :: efx_field where "FRF_BZ_TCP_FULL_SRCH_LIMIT \<equiv> (0, 8)"
abbreviation FRF_BZ_TCP_WILD_SRCH_LIMIT :: efx_field where "FRF_BZ_TCP_WILD_SRCH_LIMIT \<equiv> (8, 8)"
abbreviation FRF_BZ_UDP_FULL_SRCH_LIMIT :: efx_field where "FRF_BZ_UDP_FULL_SRCH_LIMIT \<equiv> (32, 8)"
abbreviation FRF_BZ_UDP_WILD_SRCH_LIMIT :: efx_field where "FRF_BZ_UDP_WILD_SRCH_LIMIT \<equiv> (16, 8)"
abbreviation FRF_CZ_ETHERNET_FULL_SEARCH_LIMIT :: efx_field where "FRF_CZ_ETHERNET_FULL_SEARCH_LIMIT \<equiv> (86, 8)"
abbreviation FRF_CZ_ETHERNET_WILDCARD_SEARCH_LIMIT :: efx_field where "FRF_CZ_ETHERNET_WILDCARD_SEARCH_LIMIT \<equiv> (94, 8)"
abbreviation FRF_CZ_UNICAST_NOMATCH_Q_ID :: efx_field where "FRF_CZ_UNICAST_NOMATCH_Q_ID \<equiv> (43, 12)"
abbreviation FRF_CZ_UNICAST_NOMATCH_RSS_ENABLED :: efx_field where "FRF_CZ_UNICAST_NOMATCH_RSS_ENABLED \<equiv> (42, 1)"
abbreviation FRF_CZ_MULTICAST_NOMATCH_Q_ID :: efx_field where "FRF_CZ_MULTICAST_NOMATCH_Q_ID \<equiv> (57, 12)"
abbreviation FRF_CZ_MULTICAST_NOMATCH_RSS_ENABLED :: efx_field where "FRF_CZ_MULTICAST_NOMATCH_RSS_ENABLED \<equiv> (56, 1)"
abbreviation FRF_BZ_SCATTER_ENBL_NO_MATCH_Q :: efx_field where "FRF_BZ_SCATTER_ENBL_NO_MATCH_Q \<equiv> (40, 1)"
abbreviation FRF_CZ_TX_TCPIP_FILTER_FULL_SEARCH_RANGE :: efx_field where "FRF_CZ_TX_TCPIP_FILTER_FULL_SEARCH_RANGE \<equiv> (65, 8)"
abbreviation FRF_CZ_TX_TCPIP_FILTER_WILD_SEARCH_RANGE :: efx_field where "FRF_CZ_TX_TCPIP_FILTER_WILD_SEARCH_RANGE \<equiv> (73, 8)"
abbreviation FRF_CZ_TX_UDPIP_FILTER_FULL_SEARCH_RANGE :: efx_field where "FRF_CZ_TX_UDPIP_FILTER_FULL_SEARCH_RANGE \<equiv> (81, 8)"
abbreviation FRF_CZ_TX_UDPIP_FILTER_WILD_SEARCH_RANGE :: efx_field where "FRF_CZ_TX_UDPIP_FILTER_WILD_SEARCH_RANGE \<equiv> (89, 8)"
abbreviation FRF_CZ_TX_ETH_FILTER_FULL_SEARCH_RANGE :: efx_field where "FRF_CZ_TX_ETH_FILTER_FULL_SEARCH_RANGE \<equiv> (97, 8)"
abbreviation FRF_CZ_TX_ETH_FILTER_WILD_SEARCH_RANGE :: efx_field where "FRF_CZ_TX_ETH_FILTER_WILD_SEARCH_RANGE \<equiv> (105, 8)"

text \<open>A search limit plus the extra steps the hardware needs.\<close>

definition limit_plus :: "farch_table \<Rightarrow> nat \<Rightarrow> nat \<Rightarrow> u64" where
  "limit_plus t ty fudge = of_nat (ft_search_limit t ! ty + fudge)"

definition efx_farch_filter_push_rx_config :: "farch \<Rightarrow> farch" where
  "efx_farch_filter_push_rx_config st =
     (let ip = fa_table st ! EFX_FARCH_FILTER_TABLE_RX_IP;
          ctl = fa_rx_filter_ctl st;
          ctl = EFX_SET_OWORD_FIELD FRF_BZ_TCP_FULL_SRCH_LIMIT
            (limit_plus ip EFX_FARCH_FILTER_TCP_FULL EFX_FARCH_FILTER_CTL_SRCH_FUDGE_FULL) ctl;
          ctl = EFX_SET_OWORD_FIELD FRF_BZ_TCP_WILD_SRCH_LIMIT
            (limit_plus ip EFX_FARCH_FILTER_TCP_WILD EFX_FARCH_FILTER_CTL_SRCH_FUDGE_WILD) ctl;
          ctl = EFX_SET_OWORD_FIELD FRF_BZ_UDP_FULL_SRCH_LIMIT
            (limit_plus ip EFX_FARCH_FILTER_UDP_FULL EFX_FARCH_FILTER_CTL_SRCH_FUDGE_FULL) ctl;
          ctl = EFX_SET_OWORD_FIELD FRF_BZ_UDP_WILD_SRCH_LIMIT
            (limit_plus ip EFX_FARCH_FILTER_UDP_WILD EFX_FARCH_FILTER_CTL_SRCH_FUDGE_WILD) ctl;
          mac = fa_table st ! EFX_FARCH_FILTER_TABLE_RX_MAC;
          ctl = (if ft_size mac \<noteq> 0 then
              EFX_SET_OWORD_FIELD FRF_CZ_ETHERNET_WILDCARD_SEARCH_LIMIT
                (limit_plus mac EFX_FARCH_FILTER_MAC_WILD EFX_FARCH_FILTER_CTL_SRCH_FUDGE_WILD)
               (EFX_SET_OWORD_FIELD FRF_CZ_ETHERNET_FULL_SEARCH_LIMIT
                (limit_plus mac EFX_FARCH_FILTER_MAC_FULL EFX_FARCH_FILTER_CTL_SRCH_FUDGE_FULL) ctl)
            else ctl);
          def = fa_table st ! EFX_FARCH_FILTER_TABLE_RX_DEF;
          uc = ft_spec def ! EFX_FARCH_FILTER_INDEX_UC_DEF; mc = ft_spec def ! EFX_FARCH_FILTER_INDEX_MC_DEF;
          ctl = (if ft_size def \<noteq> 0 then
              EFX_SET_OWORD_FIELD FRF_BZ_SCATTER_ENBL_NO_MATCH_Q
                (of_bool (fs_flags uc AND fs_flags mc AND EFX_FILTER_FLAG_RX_SCATTER \<noteq> 0))
               (EFX_SET_OWORD_FIELD FRF_CZ_MULTICAST_NOMATCH_RSS_ENABLED
                (of_bool (has_flag (fs_flags mc) EFX_FILTER_FLAG_RX_RSS))
               (EFX_SET_OWORD_FIELD FRF_CZ_MULTICAST_NOMATCH_Q_ID (ucast (fs_dmaq_id mc))
               (EFX_SET_OWORD_FIELD FRF_CZ_UNICAST_NOMATCH_RSS_ENABLED
                (of_bool (has_flag (fs_flags uc) EFX_FILTER_FLAG_RX_RSS))
               (EFX_SET_OWORD_FIELD FRF_CZ_UNICAST_NOMATCH_Q_ID (ucast (fs_dmaq_id uc)) ctl))))
            else EFX_SET_OWORD_FIELD FRF_BZ_SCATTER_ENBL_NO_MATCH_Q (of_bool (fa_rx_scatter st)) ctl)
      in st\<lparr>fa_rx_filter_ctl := ctl\<rparr>)"

definition efx_farch_filter_push_tx_limits :: "farch \<Rightarrow> farch" where
  "efx_farch_filter_push_tx_limits st =
     (let cfg = fa_tx_cfg st;
          ip = fa_table st ! EFX_FARCH_FILTER_TABLE_TX_IP;
          cfg = (if ft_size ip \<noteq> 0 then
              EFX_SET_OWORD_FIELD FRF_CZ_TX_UDPIP_FILTER_WILD_SEARCH_RANGE
                (limit_plus ip EFX_FARCH_FILTER_UDP_WILD EFX_FARCH_FILTER_CTL_SRCH_FUDGE_WILD)
               (EFX_SET_OWORD_FIELD FRF_CZ_TX_UDPIP_FILTER_FULL_SEARCH_RANGE
                (limit_plus ip EFX_FARCH_FILTER_UDP_FULL EFX_FARCH_FILTER_CTL_SRCH_FUDGE_FULL)
               (EFX_SET_OWORD_FIELD FRF_CZ_TX_TCPIP_FILTER_WILD_SEARCH_RANGE
                (limit_plus ip EFX_FARCH_FILTER_TCP_WILD EFX_FARCH_FILTER_CTL_SRCH_FUDGE_WILD)
               (EFX_SET_OWORD_FIELD FRF_CZ_TX_TCPIP_FILTER_FULL_SEARCH_RANGE
                (limit_plus ip EFX_FARCH_FILTER_TCP_FULL EFX_FARCH_FILTER_CTL_SRCH_FUDGE_FULL) cfg)))
            else cfg);
          mac = fa_table st ! EFX_FARCH_FILTER_TABLE_TX_MAC;
          cfg = (if ft_size mac \<noteq> 0 then
              EFX_SET_OWORD_FIELD FRF_CZ_TX_ETH_FILTER_WILD_SEARCH_RANGE
                (limit_plus mac EFX_FARCH_FILTER_MAC_WILD EFX_FARCH_FILTER_CTL_SRCH_FUDGE_WILD)
               (EFX_SET_OWORD_FIELD FRF_CZ_TX_ETH_FILTER_FULL_SEARCH_RANGE
                (limit_plus mac EFX_FARCH_FILTER_MAC_FULL EFX_FARCH_FILTER_CTL_SRCH_FUDGE_FULL) cfg)
            else cfg)
      in st\<lparr>fa_tx_cfg := cfg\<rparr>)"

subsection \<open>Filter specifications\<close>

definition efx_farch_filter_match_supported :: "bool \<Rightarrow> u32 \<Rightarrow> bool" where
  "efx_farch_filter_match_supported encap match_flags \<longleftrightarrow>
     \<not> encap \<and> match_flags \<in> {MATCH_IP_FULL, MATCH_IP_WILD, MATCH_MAC_FULL, EFX_FILTER_MATCH_LOC_MAC,
       EFX_FILTER_MATCH_LOC_MAC_IG}"

definition is_multicast_ether_addr :: "u8 list \<Rightarrow> bool" where
  "is_multicast_ether_addr mac \<longleftrightarrow> bit (mac ! 0) 0"

text \<open>The IPv4 part of \<open>efx_farch_filter_from_gen_spec\<close>: type and data words.\<close>

definition from_gen_ip :: "efx_filter_spec \<Rightarrow> bool \<Rightarrow> int + nat \<times> (u32 \<times> u32 \<times> u32)" where
  "from_gen_ip g is_full =
     (if gs_ether_type g \<noteq> ETH_P_IP then Inl (- EPROTONOSUPPORT)
      else if gs_loc_port g = 0 \<or> (is_full \<and> gs_rem_port g = 0) then Inl (- EADDRNOTAVAIL)
      else if gs_ip_proto g \<noteq> IPPROTO_TCP \<and> gs_ip_proto g \<noteq> IPPROTO_UDP then Inl (- EPROTONOSUPPORT)
      else
        let ty = (if gs_ip_proto g = IPPROTO_TCP
                  then (if is_full then EFX_FARCH_FILTER_TCP_FULL else EFX_FARCH_FILTER_TCP_WILD)
                  else (if is_full then EFX_FARCH_FILTER_UDP_FULL else EFX_FARCH_FILTER_UDP_WILD));
            tx = has_flag (gs_flags g) EFX_FILTER_FLAG_TX;
            rhost = (if is_full then gs_rem_host g ! 0 else 0);
            rport = (if is_full then gs_rem_port g else 0);
            (host1, host2) = (if tx then (gs_loc_host g ! 0, rhost) else (rhost, gs_loc_host g ! 0));
            (port1, port2) = (if tx \<noteq> (\<not> is_full \<and> gs_ip_proto g = IPPROTO_UDP)
                              then (gs_loc_port g, rport) else (rport, gs_loc_port g))
        in Inr (ty, (push_bit 16 host1 OR ucast port1, push_bit 16 (ucast port2) OR drop_bit 16 host1, host2)))"

definition from_gen_mac :: "efx_filter_spec \<Rightarrow> bool \<Rightarrow> nat \<times> (u32 \<times> u32 \<times> u32)" where
  "from_gen_mac g is_full =
     (let m = (\<lambda>i. ucast (gs_loc_mac g ! i) :: u32) in
      (if is_full then EFX_FARCH_FILTER_MAC_FULL else EFX_FARCH_FILTER_MAC_WILD,
       (if is_full then ucast (gs_outer_vid g) else 0,
        push_bit 24 (m 2) OR push_bit 16 (m 3) OR push_bit 8 (m 4) OR m 5,
        push_bit 8 (m 0) OR m 1)))"

definition efx_farch_filter_from_gen_spec :: "efx_filter_spec \<Rightarrow> int + farch_spec" where
  "efx_farch_filter_from_gen_spec g =
     (let mk = (\<lambda>(ty, d). \<lparr>fs_type = ty, fs_priority = gs_priority g mod 16, fs_flags = gs_flags g,
                         fs_dmaq_id = gs_dmaq_id g, fs_data = d\<rparr>) in
      if has_flag (gs_flags g) EFX_FILTER_FLAG_RX_RSS \<and> gs_rss_context g \<noteq> 0 then Inl (- EINVAL)
      else if has_flag (gs_flags g) EFX_FILTER_FLAG_VPORT_ID \<and> gs_vport_id g \<noteq> 0 then Inl (- EINVAL)
      else if gs_match_flags g = MATCH_IP_FULL then map_sum id mk (from_gen_ip g True)
      else if gs_match_flags g = MATCH_IP_WILD then map_sum id mk (from_gen_ip g False)
      else if gs_match_flags g = MATCH_MAC_FULL then Inr (mk (from_gen_mac g True))
      else if gs_match_flags g = EFX_FILTER_MATCH_LOC_MAC then Inr (mk (from_gen_mac g False))
      else if gs_match_flags g = EFX_FILTER_MATCH_LOC_MAC_IG then
        Inr (mk (if is_multicast_ether_addr (gs_loc_mac g) then EFX_FARCH_FILTER_MC_DEF
                 else EFX_FARCH_FILTER_UC_DEF, (0, 0, 0)))
      else Inl (- EPROTONOSUPPORT))"

definition to_gen_ip :: "farch_spec \<Rightarrow> bool \<Rightarrow> efx_filter_spec \<Rightarrow> efx_filter_spec" where
  "to_gen_ip spec is_full g =
     (let (d0, d1, d2) = fs_data spec;
          tx = has_flag (fs_flags spec) EFX_FILTER_FLAG_TX;
          proto = (if fs_type spec = EFX_FARCH_FILTER_TCP_FULL \<or> fs_type spec = EFX_FARCH_FILTER_TCP_WILD
                   then IPPROTO_TCP else IPPROTO_UDP);
          host1 = drop_bit 16 d0 OR push_bit 16 d1; port1 = (ucast d0 :: u16);
          host2 = d2; port2 = (ucast (drop_bit 16 d1) :: u16);
          (lhost, rhost) = (if tx then (host1, host2) else (host2, host1));
          (lport, rport) = (if tx \<noteq> (\<not> is_full \<and> proto = IPPROTO_UDP) then (port1, port2) else (port2, port1))
      in g\<lparr>gs_match_flags := (if is_full then MATCH_IP_FULL else MATCH_IP_WILD),
           gs_ether_type := ETH_P_IP, gs_ip_proto := proto,
           gs_loc_host := (gs_loc_host g)[0 := lhost], gs_rem_host := (gs_rem_host g)[0 := rhost],
           gs_loc_port := lport, gs_rem_port := rport\<rparr>)"

definition to_gen_mac :: "farch_spec \<Rightarrow> bool \<Rightarrow> efx_filter_spec \<Rightarrow> efx_filter_spec" where
  "to_gen_mac spec is_full g =
     (let (d0, d1, d2) = fs_data spec in
      g\<lparr>gs_match_flags := (if is_full then MATCH_MAC_FULL else EFX_FILTER_MATCH_LOC_MAC),
        gs_loc_mac := [ucast (drop_bit 8 d2), ucast d2, ucast (drop_bit 24 d1), ucast (drop_bit 16 d1),
                       ucast (drop_bit 8 d1), ucast d1],
        gs_outer_vid := ucast d0\<rparr>)"

definition efx_farch_filter_to_gen_spec :: "farch_spec \<Rightarrow> efx_filter_spec" where
  "efx_farch_filter_to_gen_spec spec =
     (let ty = fs_type spec;
          g = zero_gen_spec\<lparr>gs_priority := fs_priority spec, gs_flags := fs_flags spec,
                gs_dmaq_id := fs_dmaq_id spec\<rparr> in
      if ty = EFX_FARCH_FILTER_TCP_FULL \<or> ty = EFX_FARCH_FILTER_UDP_FULL then to_gen_ip spec True g
      else if ty = EFX_FARCH_FILTER_TCP_WILD \<or> ty = EFX_FARCH_FILTER_UDP_WILD then to_gen_ip spec False g
      else if ty = EFX_FARCH_FILTER_MAC_FULL then to_gen_mac spec True g
      else if ty = EFX_FARCH_FILTER_MAC_WILD then to_gen_mac spec False g
      else if ty = EFX_FARCH_FILTER_UC_DEF \<or> ty = EFX_FARCH_FILTER_MC_DEF then
        g\<lparr>gs_match_flags := EFX_FILTER_MATCH_LOC_MAC_IG,
          gs_loc_mac := (gs_loc_mac g)[0 := of_bool (ty = EFX_FARCH_FILTER_MC_DEF)]\<rparr>
      else g)"

definition efx_farch_filter_init_rx_auto :: "farch \<Rightarrow> farch_spec \<Rightarrow> farch_spec" where
  "efx_farch_filter_init_rx_auto st spec = spec\<lparr>fs_priority := EFX_FILTER_PRI_AUTO,
     fs_flags := EFX_FILTER_FLAG_RX OR (if fa_rss_enabled st then EFX_FILTER_FLAG_RX_RSS else 0)
       OR (if fa_rx_scatter st then EFX_FILTER_FLAG_RX_SCATTER else 0),
     fs_dmaq_id := 0\<rparr>"

abbreviation FRF_BZ_RSS_EN :: efx_field where "FRF_BZ_RSS_EN \<equiv> (110, 1)"
abbreviation FRF_BZ_SCATTER_EN :: efx_field where "FRF_BZ_SCATTER_EN \<equiv> (109, 1)"
abbreviation FRF_BZ_TCP_UDP :: efx_field where "FRF_BZ_TCP_UDP \<equiv> (108, 1)"
abbreviation FRF_BZ_RXQ_ID :: efx_field where "FRF_BZ_RXQ_ID \<equiv> (96, 12)"
abbreviation EFX_DWORD_2 :: efx_field where "EFX_DWORD_2 \<equiv> (64, 32)"
abbreviation EFX_DWORD_1 :: efx_field where "EFX_DWORD_1 \<equiv> (32, 32)"
abbreviation FRF_CZ_RMFT_RSS_EN :: efx_field where "FRF_CZ_RMFT_RSS_EN \<equiv> (75, 1)"
abbreviation FRF_CZ_RMFT_SCATTER_EN :: efx_field where "FRF_CZ_RMFT_SCATTER_EN \<equiv> (74, 1)"
abbreviation FRF_CZ_RMFT_RXQ_ID :: efx_field where "FRF_CZ_RMFT_RXQ_ID \<equiv> (61, 12)"
abbreviation FRF_CZ_RMFT_WILDCARD_MATCH :: efx_field where "FRF_CZ_RMFT_WILDCARD_MATCH \<equiv> (60, 1)"
abbreviation FRF_CZ_RMFT_DEST_MAC_HI :: efx_field where "FRF_CZ_RMFT_DEST_MAC_HI \<equiv> (44, 16)"
abbreviation FRF_CZ_RMFT_DEST_MAC_LO :: efx_field where "FRF_CZ_RMFT_DEST_MAC_LO \<equiv> (12, 32)"
abbreviation FRF_CZ_RMFT_VLAN_ID :: efx_field where "FRF_CZ_RMFT_VLAN_ID \<equiv> (0, 12)"

text \<open>
  \<open>efx_farch_filter_build\<close>: the table entry and the key. The transmit tables have their fields at the
  same positions. \<open>None\<close>: \<open>BUG()\<close>.
\<close>

definition build_ip :: "farch_spec \<Rightarrow> (efx_field \<times> u64) list" where
  "build_ip spec = (let (d0, d1, d2) = fs_data spec in
     [(FRF_BZ_TCP_UDP, of_bool (fs_type spec = EFX_FARCH_FILTER_UDP_FULL \<or> fs_type spec = EFX_FARCH_FILTER_UDP_WILD)),
      (FRF_BZ_RXQ_ID, ucast (fs_dmaq_id spec)), (EFX_DWORD_2, ucast d2), (EFX_DWORD_1, ucast d1),
      (EFX_DWORD_0, ucast d0)])"

definition build_mac :: "farch_spec \<Rightarrow> (efx_field \<times> u64) list" where
  "build_mac spec = (let (d0, d1, d2) = fs_data spec in
     [(FRF_CZ_RMFT_RXQ_ID, ucast (fs_dmaq_id spec)),
      (FRF_CZ_RMFT_WILDCARD_MATCH, of_bool (fs_type spec = EFX_FARCH_FILTER_MAC_WILD)),
      (FRF_CZ_RMFT_DEST_MAC_HI, ucast d2), (FRF_CZ_RMFT_DEST_MAC_LO, ucast d1), (FRF_CZ_RMFT_VLAN_ID, ucast d0)])"

definition efx_farch_filter_build :: "farch_spec \<Rightarrow> (oword \<times> u32) option" where
  "efx_farch_filter_build spec =
     (let tid = efx_farch_filter_spec_table_id spec; (d0, d1, d2) = fs_data spec;
          rss = of_bool (has_flag (fs_flags spec) EFX_FILTER_FLAG_RX_RSS);
          scatter = of_bool (has_flag (fs_flags spec) EFX_FILTER_FLAG_RX_SCATTER);
          is_udp = (fs_type spec = EFX_FARCH_FILTER_UDP_FULL \<or> fs_type spec = EFX_FARCH_FILTER_UDP_WILD);
          is_wild = (fs_type spec = EFX_FARCH_FILTER_MAC_WILD);
          key = (\<lambda>data3. d0 XOR d1 XOR d2 XOR data3);
          txq = push_bit 1 (ucast (fs_dmaq_id spec)) in
      if tid = EFX_FARCH_FILTER_TABLE_RX_IP then
        Some (EFX_POPULATE_OWORD ((FRF_BZ_RSS_EN, rss) # (FRF_BZ_SCATTER_EN, scatter) # build_ip spec),
              key (of_bool is_udp))
      else if tid = EFX_FARCH_FILTER_TABLE_RX_MAC then
        Some (EFX_POPULATE_OWORD ((FRF_CZ_RMFT_RSS_EN, rss) # (FRF_CZ_RMFT_SCATTER_EN, scatter) # build_mac spec),
              key (of_bool is_wild))
      else if tid = EFX_FARCH_FILTER_TABLE_TX_IP then
        Some (EFX_POPULATE_OWORD (build_ip spec), key (of_bool is_udp OR txq))
      else if tid = EFX_FARCH_FILTER_TABLE_TX_MAC then
        Some (EFX_POPULATE_OWORD (build_mac spec), key (of_bool is_wild OR txq))
      else None)"

definition efx_farch_filter_equal :: "farch_spec \<Rightarrow> farch_spec \<Rightarrow> bool" where
  "efx_farch_filter_equal left right \<longleftrightarrow>
     fs_type left = fs_type right \<and> fs_data left = fs_data right \<and>
     (has_flag (fs_flags left) EFX_FILTER_FLAG_TX \<longrightarrow> fs_dmaq_id left = fs_dmaq_id right)"

subsection \<open>Filter identifiers\<close>

definition efx_farch_filter_type_match_pri :: "nat list" where
  "efx_farch_filter_type_match_pri = [0, 1, 0, 1, 2, 3, 0, 0, 4, 4]"

definition efx_farch_filter_range_table :: "nat list" where
  "efx_farch_filter_range_table =
     [EFX_FARCH_FILTER_TABLE_RX_IP, EFX_FARCH_FILTER_TABLE_RX_IP, EFX_FARCH_FILTER_TABLE_RX_MAC,
      EFX_FARCH_FILTER_TABLE_RX_MAC, EFX_FARCH_FILTER_TABLE_RX_DEF, EFX_FARCH_FILTER_TABLE_TX_IP,
      EFX_FARCH_FILTER_TABLE_TX_IP, EFX_FARCH_FILTER_TABLE_TX_MAC, EFX_FARCH_FILTER_TABLE_TX_MAC]"

abbreviation EFX_FARCH_FILTER_MATCH_PRI_COUNT :: nat where "EFX_FARCH_FILTER_MATCH_PRI_COUNT \<equiv> 5"
abbreviation EFX_FARCH_FILTER_INDEX_WIDTH :: nat where "EFX_FARCH_FILTER_INDEX_WIDTH \<equiv> 13"

definition efx_farch_filter_make_id :: "farch_spec \<Rightarrow> nat \<Rightarrow> u32" where
  "efx_farch_filter_make_id spec index =
     (let range = efx_farch_filter_type_match_pri ! fs_type spec;
          range = (if \<not> has_flag (fs_flags spec) EFX_FILTER_FLAG_RX
                   then range + EFX_FARCH_FILTER_MATCH_PRI_COUNT else range)
      in push_bit EFX_FARCH_FILTER_INDEX_WIDTH (of_nat range) OR of_nat index)"

definition efx_farch_filter_id_table_id :: "u32 \<Rightarrow> nat" where
  "efx_farch_filter_id_table_id i =
     (let range = unat (drop_bit EFX_FARCH_FILTER_INDEX_WIDTH i) in
      if range < length efx_farch_filter_range_table then efx_farch_filter_range_table ! range
      else EFX_FARCH_FILTER_TABLE_COUNT)"

definition efx_farch_filter_id_index :: "u32 \<Rightarrow> nat" where
  "efx_farch_filter_id_index i = unat (i AND mask EFX_FARCH_FILTER_INDEX_WIDTH)"

fun rx_id_limit_from :: "farch \<Rightarrow> nat \<Rightarrow> u32" where
  "rx_id_limit_from st rng =
     (let t = fa_table st ! (efx_farch_filter_range_table ! rng) in
      if ft_size t \<noteq> 0 then push_bit EFX_FARCH_FILTER_INDEX_WIDTH (of_nat rng) OR of_nat (ft_size t)
      else (case rng of 0 \<Rightarrow> 0 | Suc r \<Rightarrow> rx_id_limit_from st r))"

definition efx_farch_filter_get_rx_id_limit :: "farch \<Rightarrow> u32" where
  "efx_farch_filter_get_rx_id_limit st = rx_id_limit_from st (EFX_FARCH_FILTER_MATCH_PRI_COUNT - 1)"

subsection \<open>Updates\<close>

definition upd_table :: "nat \<Rightarrow> (farch_table \<Rightarrow> farch_table) \<Rightarrow> farch \<Rightarrow> farch" where
  "upd_table tid f st = st\<lparr>fa_table := (fa_table st)[tid := f (fa_table st ! tid)]\<rparr>"

definition efx_writeo :: "oword \<Rightarrow> nat \<Rightarrow> farch \<Rightarrow> farch" where
  "efx_writeo w addr st = st\<lparr>fa_mem := (fa_mem st)(addr := w)\<rparr>"

definition entry_addr :: "farch_table \<Rightarrow> nat \<Rightarrow> nat" where
  "entry_addr t i = ft_offset t + ft_step t * i"

definition efx_farch_filter_table_clear_entry :: "nat \<Rightarrow> nat \<Rightarrow> farch \<Rightarrow> farch option" where
  "efx_farch_filter_table_clear_entry tid i st =
     (let t = fa_table st ! tid in
      if ft_offset t = 0 then None
      else
        let st = upd_table tid (\<lambda>t. t\<lparr>ft_used_bitmap := (ft_used_bitmap t)[i := False], ft_used := ft_used t - 1,
                   ft_spec := (ft_spec t)[i := zero_farch_spec]\<rparr>) st;
            st = efx_writeo (0, 0) (entry_addr t i) st
        in if ft_used (fa_table st ! tid) = 0 then
             let st = upd_table tid (\<lambda>t. t\<lparr>ft_search_limit := replicate EFX_FARCH_FILTER_TYPE_COUNT 0\<rparr>) st
             in Some (if tid \<ge> EFX_FARCH_FILTER_TABLE_TX_IP then efx_farch_filter_push_tx_limits st
                      else efx_farch_filter_push_rx_config st)
           else Some st)"

text \<open>
  The search of \<open>efx_farch_filter_insert\<close>: the slot to insert at, the slot of an equal filter if
  there is one, and the depth; or the error. The loop ends at depth
  \<open>max(max_rep_depth, max_ins_depth)\<close> at the latest.
\<close>

function filter_search :: "farch_table \<Rightarrow> farch_spec \<Rightarrow> nat \<Rightarrow> nat \<Rightarrow> nat \<Rightarrow> nat \<Rightarrow> nat option \<Rightarrow> nat
    \<Rightarrow> int + nat \<times> nat option \<times> nat" where
  "filter_search t spec incr max_rep_depth max_ins_depth i ins_index depth =
     (let free = \<not> ft_used_bitmap t ! i;
          ins = (if free \<and> ins_index = None then Some i else ins_index) in
      if \<not> free \<and> efx_farch_filter_equal spec (ft_spec t ! i)
      then Inr (case ins of None \<Rightarrow> i | Some j \<Rightarrow> j, Some i, depth)
      else if depth \<ge> max_rep_depth \<and> (ins \<noteq> None \<or> depth \<ge> max_ins_depth)
      then (case ins of None \<Rightarrow> Inl (- EBUSY) | Some j \<Rightarrow> Inr (j, None, depth))
      else filter_search t spec incr max_rep_depth max_ins_depth ((i + incr) AND (ft_size t - 1)) ins (depth + 1))"
  by pat_completeness auto

termination
  by (relation "measure (\<lambda>(t, spec, incr, mr, mi, i, ins, depth). max mr mi - depth)")
    (auto simp: Let_def)

declare filter_search.simps [simp del]

text \<open>\<open>efx_filter_is_mc_recipient\<close> (rx\_common.c), used for the driverlink block of kernel filters.\<close>

definition efx_filter_is_mc_recipient :: "efx_filter_spec \<Rightarrow> bool" where
  "efx_filter_is_mc_recipient g \<longleftrightarrow>
     has_flag (gs_flags g) EFX_FILTER_FLAG_RX \<and> gs_dmaq_id g \<noteq> EFX_FILTER_RX_DMAQ_ID_DROP \<and>
     (gs_match_flags g AND (EFX_FILTER_MATCH_LOC_MAC OR EFX_FILTER_MATCH_LOC_MAC_IG) \<noteq> 0 \<and>
        is_multicast_ether_addr (gs_loc_mac g) \<or>
      gs_match_flags g AND (EFX_FILTER_MATCH_ETHER_TYPE OR EFX_FILTER_MATCH_LOC_HOST) =
        EFX_FILTER_MATCH_ETHER_TYPE OR EFX_FILTER_MATCH_LOC_HOST \<and>
      (gs_ether_type g = ETH_P_IP \<and>
         (drop_bit 28 (gs_loc_host g ! 0) = 0xe \<or> gs_loc_host g ! 0 = 0xffffffff) \<or>
       gs_ether_type g = ETH_P_IPV6 \<and> drop_bit 24 (gs_loc_host g ! 0) = 0xff))"

text \<open>Where to put a filter: slot, slot of the equal filter, depth, and the entry to write.\<close>

definition insert_search :: "efx_filter_spec \<Rightarrow> farch_spec \<Rightarrow> farch
    \<Rightarrow> (int + nat \<times> nat option \<times> nat \<times> oword) option" where
  "insert_search g spec st =
     (let tid = efx_farch_filter_spec_table_id spec; t = fa_table st ! tid in
      if ft_id t = EFX_FARCH_FILTER_TABLE_RX_DEF then
        let i = fs_type spec - EFX_FARCH_FILTER_UC_DEF in Some (Inr (i, Some i, 0, (0, 0)))
      else (case efx_farch_filter_build spec of
          None \<Rightarrow> None
        | Some (entry, key) \<Rightarrow>
            if fs_priority spec \<le> EFX_FILTER_PRI_AUTO \<and>
               (if efx_filter_is_mc_recipient g then fa_blocked_mcast st else fa_blocked_ucast st)
            then Some (Inl (- EPERM))
            else Some (map_sum id (\<lambda>(ins, rep, depth). (ins, rep, depth, entry))
              (filter_search t spec (unat (efx_farch_filter_increment key))
                 (ft_search_limit t ! fs_type spec)
                 (if fs_priority spec \<le> EFX_FILTER_PRI_HINT then EFX_FARCH_FILTER_CTL_SRCH_HINT_MAX
                  else EFX_FARCH_FILTER_CTL_SRCH_MAX)
                 (unat (efx_farch_filter_hash key) AND (ft_size t - 1)) None 1))))"

text \<open>May the equal filter be replaced? The flags of the new one.\<close>

definition insert_check :: "farch_spec \<Rightarrow> farch_spec \<Rightarrow> bool \<Rightarrow> int + farch_spec" where
  "insert_check spec saved_spec replace_equal =
     (if fs_priority spec = fs_priority saved_spec \<and> \<not> replace_equal then Inl (- EEXIST)
      else if fs_priority spec < fs_priority saved_spec then Inl (- EPERM)
      else if fs_priority saved_spec = EFX_FILTER_PRI_AUTO \<or>
              has_flag (fs_flags saved_spec) EFX_FILTER_FLAG_RX_OVER_AUTO
      then Inr (spec\<lparr>fs_flags := fs_flags spec OR EFX_FILTER_FLAG_RX_OVER_AUTO\<rparr>)
      else Inr spec)"

definition insert_commit :: "nat \<Rightarrow> farch_spec \<Rightarrow> nat \<Rightarrow> nat option \<Rightarrow> nat \<Rightarrow> oword \<Rightarrow> farch \<Rightarrow> farch option" where
  "insert_commit tid spec ins rep depth entry st =
     (let st = (if rep = Some ins then st
                else upd_table tid (\<lambda>t. t\<lparr>ft_used_bitmap := (ft_used_bitmap t)[ins := True],
                       ft_used := ft_used t + 1\<rparr>) st);
          st = upd_table tid (\<lambda>t. t\<lparr>ft_spec := (ft_spec t)[ins := spec]\<rparr>) st;
          t = fa_table st ! tid
      in if ft_id t = EFX_FARCH_FILTER_TABLE_RX_DEF then Some (efx_farch_filter_push_rx_config st)
         else
           let st = (if ft_search_limit t ! fs_type spec < depth then
                  let st = upd_table tid (\<lambda>t. t\<lparr>ft_search_limit := (ft_search_limit t)[fs_type spec := depth]\<rparr>) st
                  in if has_flag (fs_flags spec) EFX_FILTER_FLAG_TX then efx_farch_filter_push_tx_limits st
                     else efx_farch_filter_push_rx_config st
                else st);
               st = efx_writeo entry (entry_addr t ins) st
           in (case rep of
                 Some r \<Rightarrow> if r \<noteq> ins then efx_farch_filter_table_clear_entry tid r st else Some st
               | None \<Rightarrow> Some st))"

definition efx_farch_filter_insert :: "efx_filter_spec \<Rightarrow> bool \<Rightarrow> farch \<Rightarrow> (int \<times> farch) option" where
  "efx_farch_filter_insert g replace_equal st = (case efx_farch_filter_from_gen_spec g of
      Inl rc \<Rightarrow> Some (rc, st)
    | Inr spec \<Rightarrow>
        let tid = efx_farch_filter_spec_table_id spec in
        if tid \<ge> length (fa_table st) then None
        else if ft_size (fa_table st ! tid) = 0 then Some (- EINVAL, st)
        else (case insert_search g spec st of
            None \<Rightarrow> None
          | Some (Inl rc) \<Rightarrow> Some (rc, st)
          | Some (Inr (ins, rep, depth, entry)) \<Rightarrow>
              (case (case rep of None \<Rightarrow> Inr spec
                     | Some r \<Rightarrow> insert_check spec (ft_spec (fa_table st ! tid) ! r) replace_equal) of
                 Inl rc \<Rightarrow> Some (rc, st)
               | Inr spec \<Rightarrow>
                   map_option (Pair (sint (efx_farch_filter_make_id spec ins)))
                     (insert_commit tid spec ins rep depth entry st))))"

definition efx_farch_filter_remove :: "nat \<Rightarrow> nat \<Rightarrow> nat \<Rightarrow> farch \<Rightarrow> (int \<times> farch) option" where
  "efx_farch_filter_remove tid i priority st =
     (let t = fa_table st ! tid; spec = ft_spec t ! i in
      if \<not> ft_used_bitmap t ! i \<or> fs_priority spec \<noteq> priority then Some (- ENOENT, st)
      else if has_flag (fs_flags spec) EFX_FILTER_FLAG_RX_OVER_AUTO then
        Some (0, efx_farch_filter_push_rx_config
          (upd_table tid (\<lambda>t. t\<lparr>ft_spec := (ft_spec t)[i := efx_farch_filter_init_rx_auto st spec]\<rparr>) st))
      else map_option (Pair 0) (efx_farch_filter_table_clear_entry tid i st))"

definition efx_farch_filter_remove_safe :: "nat \<Rightarrow> u32 \<Rightarrow> farch \<Rightarrow> (int \<times> farch) option" where
  "efx_farch_filter_remove_safe priority filter_id st =
     (let tid = efx_farch_filter_id_table_id filter_id; i = efx_farch_filter_id_index filter_id in
      if tid \<ge> EFX_FARCH_FILTER_TABLE_COUNT then Some (- ENOENT, st)
      else if i \<ge> ft_size (fa_table st ! tid) then Some (- ENOENT, st)
      else efx_farch_filter_remove tid i priority st)"

definition efx_farch_filter_get_safe :: "nat \<Rightarrow> u32 \<Rightarrow> farch \<Rightarrow> int + efx_filter_spec" where
  "efx_farch_filter_get_safe priority filter_id st =
     (let tid = efx_farch_filter_id_table_id filter_id; i = efx_farch_filter_id_index filter_id;
          t = fa_table st ! tid in
      if tid \<ge> EFX_FARCH_FILTER_TABLE_COUNT then Inl (- ENOENT)
      else if i \<ge> ft_size t then Inl (- ENOENT)
      else if ft_used_bitmap t ! i \<and> fs_priority (ft_spec t ! i) = priority
      then Inr (efx_farch_filter_to_gen_spec (ft_spec t ! i))
      else Inl (- ENOENT))"

fun table_clear_loop :: "nat \<Rightarrow> nat \<Rightarrow> nat list \<Rightarrow> farch \<Rightarrow> farch option" where
  "table_clear_loop tid priority [] st = Some st"
| "table_clear_loop tid priority (i # is) st =
     (if fs_priority (ft_spec (fa_table st ! tid) ! i) \<noteq> EFX_FILTER_PRI_AUTO
      then (case efx_farch_filter_remove tid i priority st of
          None \<Rightarrow> None | Some (_, st) \<Rightarrow> table_clear_loop tid priority is st)
      else table_clear_loop tid priority is st)"

definition efx_farch_filter_table_clear :: "nat \<Rightarrow> nat \<Rightarrow> farch \<Rightarrow> farch option" where
  "efx_farch_filter_table_clear tid priority st =
     table_clear_loop tid priority [0..<ft_size (fa_table st ! tid)] st"

definition efx_farch_filter_clear_rx :: "nat \<Rightarrow> farch \<Rightarrow> farch option" where
  "efx_farch_filter_clear_rx priority st =
     Option.bind (efx_farch_filter_table_clear EFX_FARCH_FILTER_TABLE_RX_IP priority st) (\<lambda>st.
     Option.bind (efx_farch_filter_table_clear EFX_FARCH_FILTER_TABLE_RX_MAC priority st) (\<lambda>st.
       efx_farch_filter_table_clear EFX_FARCH_FILTER_TABLE_RX_DEF priority st))"

text \<open>
  \<open>efx_farch_filter_redirect\<close>: \<open>rss_context\<close> is the value pointed to, if the pointer is not
  \<open>NULL\<close>.
\<close>

definition efx_farch_filter_redirect :: "u32 \<Rightarrow> u32 option \<Rightarrow> u16 \<Rightarrow> farch \<Rightarrow> (int \<times> farch) option" where
  "efx_farch_filter_redirect filter_id rss_context rxq_i st =
     (let tid = efx_farch_filter_id_table_id filter_id; i = efx_farch_filter_id_index filter_id;
          t = fa_table st ! tid; spec = ft_spec t ! i in
      if rss_context \<noteq> None \<and> rss_context \<noteq> Some 0 then Some (- EINVAL, st)
      else if tid \<ge> EFX_FARCH_FILTER_TABLE_COUNT then Some (- ENOENT, st)
      else if i \<ge> ft_size t then Some (- ENOENT, st)
      else if \<not> ft_used_bitmap t ! i then Some (- ENOENT, st)
      else if (\<not> has_flag (fs_flags spec) EFX_FILTER_FLAG_RX_RSS) \<noteq> (rss_context = None) then Some (- EINVAL, st)
      else
        let spec = spec\<lparr>fs_dmaq_id := rxq_i\<rparr>;
            st = upd_table tid (\<lambda>t. t\<lparr>ft_spec := (ft_spec t)[i := spec]\<rparr>) st in
        if tid = EFX_FARCH_FILTER_TABLE_RX_DEF then Some (0, efx_farch_filter_push_rx_config st)
        else (case efx_farch_filter_build spec of
            None \<Rightarrow> None
          | Some (entry, _) \<Rightarrow> Some (0, efx_writeo entry (entry_addr t i) st)))"

text \<open>The two loops of \<open>efx_farch_filter_count_rx_used\<close>: over the slots of a table, and over the tables.\<close>

fun count_rx_slots :: "farch_table \<Rightarrow> nat \<Rightarrow> nat list \<Rightarrow> u32 \<Rightarrow> u32" where
  "count_rx_slots t priority [] count = count"
| "count_rx_slots t priority (i # is) count =
     count_rx_slots t priority is
       (if ft_used_bitmap t ! i \<and> fs_priority (ft_spec t ! i) = priority then count + 1 else count)"

fun count_rx_tables :: "farch \<Rightarrow> nat \<Rightarrow> nat list \<Rightarrow> u32 \<Rightarrow> u32" where
  "count_rx_tables st priority [] count = count"
| "count_rx_tables st priority (tid # tids) count =
     (let t = fa_table st ! tid in
      count_rx_tables st priority tids (count_rx_slots t priority [0..<ft_size t] count))"

definition efx_farch_filter_count_rx_used :: "nat \<Rightarrow> farch \<Rightarrow> u32" where
  "efx_farch_filter_count_rx_used priority st =
     count_rx_tables st priority [EFX_FARCH_FILTER_TABLE_RX_IP..<EFX_FARCH_FILTER_TABLE_RX_DEF + 1] 0"

text \<open>
  The loops of \<open>efx_farch_filter_get_rx_ids\<close>. The list is what was written to the buffer, so its length is
  the count of the code; the inner loop also says whether it left by \<open>goto out\<close>.
\<close>

fun rx_ids_slots :: "farch_table \<Rightarrow> nat \<Rightarrow> u32 \<Rightarrow> nat list \<Rightarrow> u32 list \<Rightarrow> bool \<times> u32 list" where
  "rx_ids_slots t priority sz [] buf = (False, buf)"
| "rx_ids_slots t priority sz (i # is) buf =
     (if ft_used_bitmap t ! i \<and> fs_priority (ft_spec t ! i) = priority
      then if of_nat (length buf) = sz then (True, buf)
           else rx_ids_slots t priority sz is (buf @ [efx_farch_filter_make_id (ft_spec t ! i) i])
      else rx_ids_slots t priority sz is buf)"

fun rx_ids_tables :: "farch \<Rightarrow> nat \<Rightarrow> u32 \<Rightarrow> nat list \<Rightarrow> u32 list \<Rightarrow> int \<times> u32 list" where
  "rx_ids_tables st priority sz [] buf = (int (length buf), buf)"
| "rx_ids_tables st priority sz (tid # tids) buf =
     (let t = fa_table st ! tid; (out, buf) = rx_ids_slots t priority sz [0..<ft_size t] buf in
      if out then (- EMSGSIZE, buf) else rx_ids_tables st priority sz tids buf)"

definition efx_farch_filter_get_rx_ids :: "nat \<Rightarrow> u32 \<Rightarrow> farch \<Rightarrow> int \<times> u32 list" where
  "efx_farch_filter_get_rx_ids priority sz st =
     rx_ids_tables st priority sz [EFX_FARCH_FILTER_TABLE_RX_IP..<EFX_FARCH_FILTER_TABLE_RX_DEF + 1] []"

subsection \<open>Set-up, restore, scatter\<close>

fun restore_entries :: "nat \<Rightarrow> nat list \<Rightarrow> farch \<Rightarrow> farch option" where
  "restore_entries tid [] st = Some st"
| "restore_entries tid (i # is) st =
     (let t = fa_table st ! tid in
      if \<not> ft_used_bitmap t ! i then restore_entries tid is st
      else (case efx_farch_filter_build (ft_spec t ! i) of
          None \<Rightarrow> None
        | Some (entry, _) \<Rightarrow> restore_entries tid is (efx_writeo entry (entry_addr t i) st)))"

fun restore_tables :: "nat list \<Rightarrow> farch \<Rightarrow> farch option" where
  "restore_tables [] st = Some st"
| "restore_tables (tid # tids) st =
     (let t = fa_table st ! tid in
      if ft_step t = 0 then restore_tables tids st
      else (case restore_entries tid [0..<ft_size t] st of None \<Rightarrow> None | Some st \<Rightarrow> restore_tables tids st))"

definition efx_farch_filter_table_restore :: "farch \<Rightarrow> farch option" where
  "efx_farch_filter_table_restore st =
     map_option (\<lambda>st. efx_farch_filter_push_tx_limits (efx_farch_filter_push_rx_config st))
       (restore_tables [0..<EFX_FARCH_FILTER_TABLE_COUNT] st)"

definition init_table :: "nat \<Rightarrow> nat \<Rightarrow> nat \<Rightarrow> nat \<Rightarrow> farch_table" where
  "init_table tid offset sz step = \<lparr>ft_id = tid, ft_offset = offset, ft_size = sz, ft_step = step, ft_used = 0,
     ft_used_bitmap = replicate sz False, ft_spec = replicate sz zero_farch_spec,
     ft_search_limit = replicate EFX_FARCH_FILTER_TYPE_COUNT 0\<rparr>"

text \<open>\<open>efx_farch_filter_table_probe\<close>, when the allocations succeed.\<close>

definition efx_farch_filter_table_probe :: "farch \<Rightarrow> farch" where
  "efx_farch_filter_table_probe st =
     (let def = init_table EFX_FARCH_FILTER_TABLE_RX_DEF 0 EFX_FARCH_FILTER_SIZE_RX_DEF 0;
          auto = (\<lambda>i. efx_farch_filter_init_rx_auto st ((ft_spec def ! i)\<lparr>fs_type := EFX_FARCH_FILTER_UC_DEF + i\<rparr>));
          def = def\<lparr>ft_spec := map auto [0..<EFX_FARCH_FILTER_SIZE_RX_DEF],
                    ft_used_bitmap := replicate EFX_FARCH_FILTER_SIZE_RX_DEF True\<rparr>
      in efx_farch_filter_push_rx_config (st\<lparr>fa_table :=
           [init_table EFX_FARCH_FILTER_TABLE_RX_IP 0xf00000 8192 32,
            init_table EFX_FARCH_FILTER_TABLE_RX_MAC 0xf00010 512 32,
            def,
            init_table EFX_FARCH_FILTER_TABLE_TX_IP 0xfc0000 8192 16,
            init_table EFX_FARCH_FILTER_TABLE_TX_MAC 0xfe0000 512 16]\<rparr>))"

fun scatter_entries :: "nat \<Rightarrow> nat list \<Rightarrow> farch \<Rightarrow> farch option" where
  "scatter_entries tid [] st = Some st"
| "scatter_entries tid (i # is) st =
     (let t = fa_table st ! tid; spec = ft_spec t ! i in
      if \<not> ft_used_bitmap t ! i \<or> unat (fs_dmaq_id spec) \<ge> fa_rx_channels st then scatter_entries tid is st
      else
        let spec = spec\<lparr>fs_flags := (if fa_rx_scatter st then fs_flags spec OR EFX_FILTER_FLAG_RX_SCATTER
                     else fs_flags spec AND NOT EFX_FILTER_FLAG_RX_SCATTER)\<rparr>;
            st = upd_table tid (\<lambda>t. t\<lparr>ft_spec := (ft_spec t)[i := spec]\<rparr>) st in
        if tid = EFX_FARCH_FILTER_TABLE_RX_DEF then scatter_entries tid is st
        else (case efx_farch_filter_build spec of
            None \<Rightarrow> None
          | Some (entry, _) \<Rightarrow> scatter_entries tid is (efx_writeo entry (entry_addr t i) st)))"

definition efx_farch_filter_update_rx_scatter :: "farch \<Rightarrow> farch option" where
  "efx_farch_filter_update_rx_scatter st =
     map_option efx_farch_filter_push_rx_config
      (Option.bind (scatter_entries EFX_FARCH_FILTER_TABLE_RX_IP [0..<ft_size (fa_table st ! EFX_FARCH_FILTER_TABLE_RX_IP)] st) (\<lambda>st.
       Option.bind (scatter_entries EFX_FARCH_FILTER_TABLE_RX_MAC [0..<ft_size (fa_table st ! EFX_FARCH_FILTER_TABLE_RX_MAC)] st) (\<lambda>st.
         scatter_entries EFX_FARCH_FILTER_TABLE_RX_DEF [0..<ft_size (fa_table st ! EFX_FARCH_FILTER_TABLE_RX_DEF)] st)))"

end
