(* ===== verification/Farch_Inv.thy ===== *)
theory Farch_Inv
  imports Farch
begin

section \<open>Invariants of the filter tables\<close>

text \<open>
  A hash table is well formed (\<open>hash_ok\<close>) when its bitmap, its count and its entries agree, no two
  used entries are equal filters, and each used entry can be found from its hash within the search
  limit of its type. \<open>farch_ok\<close> adds the table of default filters and that the NIC's memory holds
  the used entries.
\<close>

subsection \<open>Probing\<close>

definition next_slot :: "nat \<Rightarrow> nat \<Rightarrow> nat \<Rightarrow> nat" where
  "next_slot sz incr i = (i + incr) AND (sz - 1)"

definition probe :: "nat \<Rightarrow> nat \<Rightarrow> nat \<Rightarrow> nat \<Rightarrow> nat" where
  "probe sz incr h d = (next_slot sz incr ^^ (d - 1)) h"

lemma probe_1 [simp]: "probe sz incr h (Suc 0) = h"
  by (simp add: probe_def)

lemma probe_Suc: "0 < d \<Longrightarrow> probe sz incr h (Suc d) = next_slot sz incr (probe sz incr h d)"
  by (cases d) (simp_all add: probe_def)

text \<open>What the search returns, for the probe sequence from \<open>h\<close> with step \<open>incr\<close>.\<close>

definition hits :: "farch_table \<Rightarrow> farch_spec \<Rightarrow> nat \<Rightarrow> bool" where
  "hits t spec i \<longleftrightarrow> ft_used_bitmap t ! i \<and> efx_farch_filter_equal spec (ft_spec t ! i)"

definition search_post :: "farch_table \<Rightarrow> farch_spec \<Rightarrow> (nat \<Rightarrow> nat) \<Rightarrow> nat \<Rightarrow> nat
    \<Rightarrow> nat \<Rightarrow> int + nat \<times> nat option \<times> nat \<Rightarrow> bool" where
  "search_post t spec p max_rep max_ins limit res \<longleftrightarrow> (case res of
      Inl rc \<Rightarrow> rc = - EBUSY \<and> (\<forall>d. 0 < d \<and> d \<le> max max_rep max_ins \<longrightarrow> ft_used_bitmap t ! p d \<and> \<not> hits t spec (p d))
    | Inr (ins, Some r, depth) \<Rightarrow> 0 < depth \<and> depth \<le> limit \<and> r = p depth \<and> hits t spec r \<and>
        (ins = r \<or> \<not> ft_used_bitmap t ! ins \<and> (\<exists>e. 0 < e \<and> e < depth \<and> ins = p e))
    | Inr (ins, None, depth) \<Rightarrow> 0 < depth \<and> depth \<le> limit \<and> max_rep \<le> depth \<and> \<not> ft_used_bitmap t ! ins \<and>
        (\<exists>e. 0 < e \<and> e \<le> depth \<and> ins = p e) \<and> (\<forall>d. 0 < d \<and> d \<le> depth \<longrightarrow> \<not> hits t spec (p d)))"

lemma filter_search_post:
  assumes "0 < depth" and "i = probe (ft_size t) incr h depth"
    and "\<forall>d. 0 < d \<and> d < depth \<longrightarrow> \<not> hits t spec (probe (ft_size t) incr h d)"
    and "case ins of None \<Rightarrow> \<forall>d. 0 < d \<and> d < depth \<longrightarrow> ft_used_bitmap t ! probe (ft_size t) incr h d
      | Some j \<Rightarrow> \<not> ft_used_bitmap t ! j \<and> (\<exists>e. 0 < e \<and> e < depth \<and> j = probe (ft_size t) incr h e)"
    and "depth \<le> limit" and "max_rep \<le> limit" and "max_ins \<le> limit"
  shows "search_post t spec (probe (ft_size t) incr h) max_rep max_ins limit
    (filter_search t spec incr max_rep max_ins i ins depth)"
  using assms
proof (induction t spec incr max_rep max_ins i ins depth rule: filter_search.induct)
  case (1 t spec incr max_rep max_ins i ins depth)
  let ?p = "probe (ft_size t) incr h"
  define ins' where "ins' = (if \<not> ft_used_bitmap t ! i \<and> ins = None then Some i else ins)"
  have ins': "case ins' of None \<Rightarrow> \<forall>d. 0 < d \<and> d < Suc depth \<longrightarrow> ft_used_bitmap t ! ?p d
      | Some j \<Rightarrow> \<not> ft_used_bitmap t ! j \<and> (\<exists>e. 0 < e \<and> e < Suc depth \<and> j = ?p e)"
  proof (cases ins)
    case None
    with 1(2,3,5) show ?thesis by (auto simp: ins'_def less_Suc_eq)
  next
    case (Some j)
    with 1(5) show ?thesis by (auto simp: ins'_def intro: less_SucI)
  qed
  have eq: "filter_search t spec incr max_rep max_ins i ins depth =
     (if hits t spec i then Inr (case ins' of None \<Rightarrow> i | Some j \<Rightarrow> j, Some i, depth)
      else if depth \<ge> max_rep \<and> (ins' \<noteq> None \<or> depth \<ge> max_ins)
      then (case ins' of None \<Rightarrow> Inl (- EBUSY) | Some j \<Rightarrow> Inr (j, None, depth))
      else filter_search t spec incr max_rep max_ins (next_slot (ft_size t) incr i) ins' (depth + 1))"
    by (subst filter_search.simps) (auto simp: Let_def hits_def ins'_def next_slot_def)
  consider (hit) "hits t spec i" | (stop) "\<not> hits t spec i" "depth \<ge> max_rep \<and> (ins' \<noteq> None \<or> depth \<ge> max_ins)"
    | (go) "\<not> hits t spec i" "\<not> (depth \<ge> max_rep \<and> (ins' \<noteq> None \<or> depth \<ge> max_ins))"
    by blast
  then show ?case
  proof cases
    case hit
    then have "ins' = ins"
      by (simp add: ins'_def hits_def)
    with hit 1(2,3,5,6) show ?thesis
      unfolding eq by (cases ins) (auto simp: search_post_def)
  next
    case stop
    have "\<forall>d. 0 < d \<and> d \<le> depth \<longrightarrow> \<not> hits t spec (?p d)"
      using 1(4) stop(1) 1(3) by (auto simp: le_less)
    with stop ins' 1(2,6) show ?thesis
      unfolding eq by (cases ins') (auto simp: search_post_def less_Suc_eq_le)
  next
    case go
    have "search_post t spec ?p max_rep max_ins limit
        (filter_search t spec incr max_rep max_ins (next_slot (ft_size t) incr i) ins' (depth + 1))"
      unfolding next_slot_def
    proof (rule 1(1) [OF refl refl, folded ins'_def])
      show "\<forall>d. 0 < d \<and> d < depth + 1 \<longrightarrow> \<not> hits t spec (?p d)"
        using 1(3,4) go(1) by (auto simp: less_Suc_eq)
      show "depth + 1 \<le> limit"
        using go(2) 1(6-8) by auto
      show "case ins' of None \<Rightarrow> \<forall>d. 0 < d \<and> d < depth + 1 \<longrightarrow> ft_used_bitmap t ! ?p d
        | Some j \<Rightarrow> \<not> ft_used_bitmap t ! j \<and> (\<exists>e. 0 < e \<and> e < depth + 1 \<and> j = ?p e)"
        using ins' unfolding Suc_eq_plus1 .
    qed (use 1(2,3,7,8) go in \<open>auto simp: probe_Suc next_slot_def hits_def\<close>)
    with go show ?thesis unfolding eq by auto
  qed
qed

subsection \<open>Keys of filters\<close>

text \<open>What identifies a filter: its table, type and data and, for a transmit filter, its queue.\<close>

definition fkey :: "farch_spec \<Rightarrow> nat \<times> nat \<times> (u32 \<times> u32 \<times> u32) \<times> u16" where
  "fkey s = (efx_farch_filter_spec_table_id s, fs_type s, fs_data s,
     if has_flag (fs_flags s) EFX_FILTER_FLAG_TX then fs_dmaq_id s else 0)"

definition spec_entry :: "farch_spec \<Rightarrow> oword" where
  "spec_entry s = fst (the (efx_farch_filter_build s))"

definition spec_key :: "farch_spec \<Rightarrow> u32" where
  "spec_key s = snd (the (efx_farch_filter_build s))"

definition spec_slot :: "nat \<Rightarrow> farch_spec \<Rightarrow> nat \<Rightarrow> nat" where
  "spec_slot sz s d = probe sz (unat (efx_farch_filter_increment (spec_key s)))
     (unat (efx_farch_filter_hash (spec_key s)) AND (sz - 1)) d"

definition hash_tid :: "nat \<Rightarrow> bool" where
  "hash_tid tid \<longleftrightarrow> tid \<in> {EFX_FARCH_FILTER_TABLE_RX_IP, EFX_FARCH_FILTER_TABLE_RX_MAC,
     EFX_FARCH_FILTER_TABLE_TX_IP, EFX_FARCH_FILTER_TABLE_TX_MAC}"

lemma build_Some:
  assumes "hash_tid (efx_farch_filter_spec_table_id s)"
  shows "efx_farch_filter_build s = Some (spec_entry s, spec_key s)"
proof -
  have "efx_farch_filter_build s \<noteq> None"
    using assms by (auto simp: hash_tid_def efx_farch_filter_build_def Let_def split: prod.splits)
  then show ?thesis
    by (auto simp: spec_entry_def spec_key_def)
qed

lemma same_table_tx:
  assumes "efx_farch_filter_spec_table_id s = efx_farch_filter_spec_table_id s'" "fs_type s = fs_type s'"
  shows "has_flag (fs_flags s) EFX_FILTER_FLAG_TX = has_flag (fs_flags s') EFX_FILTER_FLAG_TX"
  using assms by (auto simp: efx_farch_filter_spec_table_id_def split: if_splits)

lemma equal_iff_fkey:
  "efx_farch_filter_spec_table_id s = efx_farch_filter_spec_table_id s' \<Longrightarrow>
   efx_farch_filter_equal s s' \<longleftrightarrow> fkey s = fkey s'"
  using same_table_tx [of s s'] by (auto simp: efx_farch_filter_equal_def fkey_def)

lemma fkey_spec_key:
  assumes "fkey s = fkey s'" and "fs_type s < EFX_FARCH_FILTER_TYPE_COUNT"
  shows "spec_key s = spec_key s'"
proof -
  have same: "efx_farch_filter_spec_table_id s = efx_farch_filter_spec_table_id s'" "fs_type s = fs_type s'"
     "fs_data s = fs_data s'"
    using assms by (auto simp: fkey_def)
  have tx: "has_flag (fs_flags s) EFX_FILTER_FLAG_TX = has_flag (fs_flags s') EFX_FILTER_FLAG_TX"
    by (rule same_table_tx) (use same in auto)
  show ?thesis
  proof (cases "has_flag (fs_flags s) EFX_FILTER_FLAG_TX")
    case True
    with tx assms(1) have "fs_dmaq_id s = fs_dmaq_id s'"
      by (simp add: fkey_def)
    with same show ?thesis
      by (simp add: spec_key_def efx_farch_filter_build_def Let_def split: prod.split)
  next
    case False
    then have "efx_farch_filter_spec_table_id s < 3"
      using assms(2) by (simp add: efx_farch_filter_spec_table_id_def)
    with same show ?thesis
      by (auto simp: spec_key_def efx_farch_filter_build_def Let_def split: prod.split)
  qed
qed

lemma fkey_slot:
  "fkey s = fkey s' \<Longrightarrow> fs_type s < EFX_FARCH_FILTER_TYPE_COUNT \<Longrightarrow> spec_slot sz s d = spec_slot sz s' d"
  by (simp add: spec_slot_def fkey_spec_key [of s s'])

lemma nat_and_less_pow: "(x :: nat) AND (2 ^ k - 1) < 2 ^ k"
  by (metis mask_eq_exp_minus_1 take_bit_eq_mask take_bit_nat_less_exp)

lemmas nat_and_less_pow_Suc [simp] = nat_and_less_pow [unfolded One_nat_def]

lemma probe_less:
  assumes "sz = 2 ^ k" and "h < sz"
  shows "probe sz incr h d < sz"
  using assms by (cases "d - 1") (simp_all add: probe_def next_slot_def)

lemma spec_slot_less: "sz = 2 ^ k \<Longrightarrow> spec_slot sz s d < sz"
  unfolding spec_slot_def by (rule probe_less) simp_all

subsection \<open>Hash tables\<close>

text \<open>Which slots are used, and the filters in them.\<close>

definition used_at :: "farch_table \<Rightarrow> nat \<Rightarrow> bool" where
  "used_at t i \<longleftrightarrow> i < ft_size t \<and> ft_used_bitmap t ! i"

definition used_specs :: "farch_table \<Rightarrow> farch_spec list" where
  "used_specs t = map (\<lambda>i. ft_spec t ! i) (filter (\<lambda>i. ft_used_bitmap t ! i) [0..<ft_size t])"

text \<open>A filter of a hash table: it has one of the six types, its queue fits the field of the entry, and it is not an automatic one.\<close>

definition plain :: "farch_spec \<Rightarrow> bool" where
  "plain s \<longleftrightarrow> fs_type s < 6 \<and> unat (fs_dmaq_id s) < 4096 \<and> fs_priority s \<noteq> EFX_FILTER_PRI_AUTO \<and>
     \<not> has_flag (fs_flags s) EFX_FILTER_FLAG_RX_OVER_AUTO"

text \<open>The filter in a slot: it belongs to the table and can be found.\<close>

definition entry_ok :: "farch_table \<Rightarrow> nat \<Rightarrow> farch_spec \<Rightarrow> bool" where
  "entry_ok t i s \<longleftrightarrow> efx_farch_filter_spec_table_id s = ft_id t \<and> fs_type s < EFX_FARCH_FILTER_TYPE_COUNT \<and>
     plain s \<and>
     (\<exists>d. 0 < d \<and> d \<le> ft_search_limit t ! fs_type s \<and> i = spec_slot (ft_size t) s d)"

definition shape_ok :: "farch_table \<Rightarrow> bool" where
  "shape_ok t \<longleftrightarrow> (\<exists>k. ft_size t = 2 ^ k) \<and> length (ft_used_bitmap t) = ft_size t \<and>
     length (ft_spec t) = ft_size t \<and> length (ft_search_limit t) = EFX_FARCH_FILTER_TYPE_COUNT \<and>
     (\<forall>l \<in> set (ft_search_limit t). l \<le> EFX_FARCH_FILTER_CTL_SRCH_MAX) \<and>
     ft_used t = card {i. used_at t i}"

definition hash_ok :: "farch_table \<Rightarrow> bool" where
  "hash_ok t \<longleftrightarrow> hash_tid (ft_id t) \<and> ft_offset t \<noteq> 0 \<and> shape_ok t \<and>
     (\<forall>i. used_at t i \<longrightarrow> entry_ok t i (ft_spec t ! i)) \<and>
     (\<forall>i j. used_at t i \<longrightarrow> used_at t j \<longrightarrow> fkey (ft_spec t ! i) = fkey (ft_spec t ! j) \<longrightarrow> i = j)"

lemma finite_used [simp]: "finite {i. used_at t i}"
  by (rule finite_subset [of _ "{..<ft_size t}"]) (auto simp: used_at_def)

text \<open>A table that changes in one key: a filter put into a slot, or taken out of one.\<close>

lemma hash_ok_change:
  assumes t: "hash_ok t" and same: "ft_id t' = ft_id t" "ft_offset t' = ft_offset t" "ft_size t' = ft_size t"
    and shape: "shape_ok t'"
    and used: "\<And>j. used_at t' j \<Longrightarrow>
      used_at t j \<and> ft_spec t' ! j = ft_spec t ! j \<and> fkey (ft_spec t ! j) \<noteq> k \<and>
        ft_search_limit t ! fs_type (ft_spec t ! j) \<le> ft_search_limit t' ! fs_type (ft_spec t ! j) \<or>
      j = ins \<and> fkey (ft_spec t' ! j) = k \<and> entry_ok t' j (ft_spec t' ! j)"
  shows "hash_ok t'"
proof -
  have "entry_ok t' j (ft_spec t' ! j)" if "used_at t' j" for j
    using used [OF that]
  proof (elim disjE conjE)
    assume j: "used_at t j" "ft_spec t' ! j = ft_spec t ! j"
      "ft_search_limit t ! fs_type (ft_spec t ! j) \<le> ft_search_limit t' ! fs_type (ft_spec t ! j)"
    with t have "entry_ok t j (ft_spec t ! j)"
      by (simp add: hash_ok_def)
    with j same show ?thesis
      by (auto simp: entry_ok_def intro: order_trans)
  qed
  moreover have "i = j" if "used_at t' i" "used_at t' j" "fkey (ft_spec t' ! i) = fkey (ft_spec t' ! j)" for i j
    using used [OF that(1)] used [OF that(2)] that(3) t by (auto simp: hash_ok_def)
  ultimately show ?thesis
    using t same shape by (simp add: hash_ok_def)
qed

text \<open>What the search finds: a slot for the filter, and the slot of the filter with its key, if any.\<close>

lemma shape_ok_D:
  assumes "shape_ok t"
  shows "length (ft_used_bitmap t) = ft_size t" "length (ft_spec t) = ft_size t"
    "length (ft_search_limit t) = EFX_FARCH_FILTER_TYPE_COUNT" "0 < ft_size t"
    "ty < EFX_FARCH_FILTER_TYPE_COUNT \<Longrightarrow> ft_search_limit t ! ty \<le> EFX_FARCH_FILTER_CTL_SRCH_MAX"
    "spec_slot (ft_size t) s d < ft_size t"
  using assms by (auto simp: shape_ok_def spec_slot_less)

definition found :: "farch_table \<Rightarrow> farch_spec \<Rightarrow> nat \<Rightarrow> nat option \<Rightarrow> nat \<Rightarrow> bool" where
  "found t s ins rep depth \<longleftrightarrow> 0 < depth \<and> depth \<le> EFX_FARCH_FILTER_CTL_SRCH_MAX \<and> ins < ft_size t \<and>
     (\<exists>d. 0 < d \<and> d \<le> depth \<and> ins = spec_slot (ft_size t) s d) \<and>
     (case rep of
        Some r \<Rightarrow> used_at t r \<and> fkey (ft_spec t ! r) = fkey s \<and> (used_at t ins \<longrightarrow> ins = r)
      | None \<Rightarrow> \<not> used_at t ins \<and> (\<forall>j. used_at t j \<longrightarrow> fkey (ft_spec t ! j) \<noteq> fkey s))"

text \<open>The search of \<open>efx_farch_filter_insert\<close> from the hash of the filter.\<close>

definition search_for :: "farch_table \<Rightarrow> farch_spec \<Rightarrow> nat \<Rightarrow> int + nat \<times> nat option \<times> nat" where
  "search_for t s max_ins = filter_search t s (unat (efx_farch_filter_increment (spec_key s)))
     (ft_search_limit t ! fs_type s) max_ins (unat (efx_farch_filter_hash (spec_key s)) AND (ft_size t - 1)) None 1"

lemma search_for_post:
  assumes "hash_ok t" and "fs_type s < EFX_FARCH_FILTER_TYPE_COUNT" and "max_ins \<le> EFX_FARCH_FILTER_CTL_SRCH_MAX"
  shows "search_post t s (spec_slot (ft_size t) s) (ft_search_limit t ! fs_type s) max_ins
    EFX_FARCH_FILTER_CTL_SRCH_MAX (search_for t s max_ins)"
  unfolding search_for_def spec_slot_def
  by (rule filter_search_post) (use assms shape_ok_D [of t] in \<open>auto simp: hash_ok_def\<close>)

lemma hits_iff_fkey:
  assumes "hash_ok t" "used_at t j" "efx_farch_filter_spec_table_id s = ft_id t"
  shows "hits t s j \<longleftrightarrow> fkey (ft_spec t ! j) = fkey s"
  using assms equal_iff_fkey [of s "ft_spec t ! j"] by (auto simp: hits_def used_at_def hash_ok_def entry_ok_def)

lemma hit_of_key:
  assumes t: "hash_ok t" and j: "used_at t j" and eq: "fkey (ft_spec t ! j) = fkey s"
  shows "\<exists>d. 0 < d \<and> d \<le> ft_search_limit t ! fs_type s \<and> hits t s (spec_slot (ft_size t) s d)"
proof -
  have e: "entry_ok t j (ft_spec t ! j)"
    using t j by (simp add: hash_ok_def)
  have ty: "fs_type (ft_spec t ! j) = fs_type s" "efx_farch_filter_spec_table_id s = ft_id t"
    using eq e by (auto simp: fkey_def entry_ok_def)
  obtain d where d: "0 < d" "d \<le> ft_search_limit t ! fs_type s" "j = spec_slot (ft_size t) (ft_spec t ! j) d"
    using e ty by (auto simp: entry_ok_def)
  have "hits t s j"
    using hits_iff_fkey [OF t j ty(2)] eq by simp
  moreover have "j = spec_slot (ft_size t) s d"
    using d(3) fkey_slot [OF eq] e by (simp add: entry_ok_def)
  ultimately show ?thesis
    using d by auto
qed

lemma search_for_found:
  assumes t: "hash_ok t" and s: "efx_farch_filter_spec_table_id s = ft_id t" "fs_type s < EFX_FARCH_FILTER_TYPE_COUNT"
    and mx: "max_ins \<le> EFX_FARCH_FILTER_CTL_SRCH_MAX"
    and res: "search_for t s max_ins = Inr (ins, rep, depth)"
  shows "found t s ins rep depth"
proof -
  have sh: "shape_ok t"
    using t by (simp add: hash_ok_def)
  let ?p = "spec_slot (ft_size t) s"
  note post = search_for_post [OF t s(2) mx, unfolded res]
  have slot: "?p d < ft_size t" for d
    using shape_ok_D [OF sh] by simp
  show ?thesis
  proof (cases rep)
    case (Some r)
    with post have "hits t s r" "r = ?p depth" "0 < depth" "depth \<le> EFX_FARCH_FILTER_CTL_SRCH_MAX"
      "ins = r \<or> \<not> ft_used_bitmap t ! ins \<and> (\<exists>e. 0 < e \<and> e < depth \<and> ins = ?p e)"
      by (auto simp: search_post_def)
    moreover have "used_at t r"
      using calculation slot by (auto simp: hits_def used_at_def)
    ultimately show ?thesis
      using Some hits_iff_fkey [OF t _ s(1), of r] slot by (auto simp: found_def used_at_def intro: less_imp_le)
  next
    case None
    with post have p: "0 < depth" "depth \<le> EFX_FARCH_FILTER_CTL_SRCH_MAX" "ft_search_limit t ! fs_type s \<le> depth"
      "\<not> ft_used_bitmap t ! ins" "\<exists>e. 0 < e \<and> e \<le> depth \<and> ins = ?p e"
      "\<forall>d. 0 < d \<and> d \<le> depth \<longrightarrow> \<not> hits t s (?p d)"
      by (auto simp: search_post_def)
    have "fkey (ft_spec t ! j) \<noteq> fkey s" if j: "used_at t j" for j
      using hit_of_key [OF t j] p(3,6) by (meson order_trans)
    with None p slot show ?thesis
      by (auto simp: found_def used_at_def)
  qed
qed

text \<open>A full search means that no equal filter is in the table and every slot tried is in use.\<close>

lemma search_for_full:
  assumes t: "hash_ok t" and s: "efx_farch_filter_spec_table_id s = ft_id t" "fs_type s < EFX_FARCH_FILTER_TYPE_COUNT"
    and mx: "max_ins \<le> EFX_FARCH_FILTER_CTL_SRCH_MAX"
    and res: "search_for t s max_ins = Inl rc"
  shows "rc = - EBUSY" "\<forall>j. used_at t j \<longrightarrow> fkey (ft_spec t ! j) \<noteq> fkey s"
    "\<forall>d. 0 < d \<and> d \<le> max_ins \<longrightarrow> used_at t (spec_slot (ft_size t) s d)"
proof -
  have sh: "shape_ok t"
    using t by (simp add: hash_ok_def)
  note post = search_for_post [OF t s(2) mx, unfolded res]
  show "rc = - EBUSY"
    using post by (simp add: search_post_def)
  show "\<forall>d. 0 < d \<and> d \<le> max_ins \<longrightarrow> used_at t (spec_slot (ft_size t) s d)"
    using post shape_ok_D [OF sh] by (auto simp: search_post_def used_at_def)
  show "\<forall>j. used_at t j \<longrightarrow> fkey (ft_spec t ! j) \<noteq> fkey s"
    using hit_of_key [OF t] post by (auto simp: search_post_def) (meson max.coboundedI1)
qed

subsection \<open>Putting a filter in and taking one out\<close>

text \<open>The table after \<open>insert_commit\<close>, and after \<open>efx_farch_filter_table_clear_entry\<close>.\<close>

definition put_table :: "farch_spec \<Rightarrow> nat \<Rightarrow> nat option \<Rightarrow> nat \<Rightarrow> farch_table \<Rightarrow> farch_table" where
  "put_table s ins rep depth t = t\<lparr>
     ft_used_bitmap := (case rep of None \<Rightarrow> (ft_used_bitmap t)[ins := True]
       | Some r \<Rightarrow> if r = ins then ft_used_bitmap t else (ft_used_bitmap t)[ins := True, r := False]),
     ft_used := (if rep = None then ft_used t + 1 else ft_used t),
     ft_spec := (case rep of None \<Rightarrow> (ft_spec t)[ins := s]
       | Some r \<Rightarrow> if r = ins then (ft_spec t)[ins := s] else (ft_spec t)[ins := s, r := zero_farch_spec]),
     ft_search_limit := (if ft_search_limit t ! fs_type s < depth then (ft_search_limit t)[fs_type s := depth]
       else ft_search_limit t)\<rparr>"

definition take_table :: "nat \<Rightarrow> farch_table \<Rightarrow> farch_table" where
  "take_table i t = t\<lparr>
     ft_used_bitmap := (ft_used_bitmap t)[i := False],
     ft_used := ft_used t - 1,
     ft_spec := (ft_spec t)[i := zero_farch_spec],
     ft_search_limit := (if ft_used t = 1 then replicate EFX_FARCH_FILTER_TYPE_COUNT 0 else ft_search_limit t)\<rparr>"

lemma put_table_same [simp]:
  "ft_id (put_table s ins rep depth t) = ft_id t" "ft_offset (put_table s ins rep depth t) = ft_offset t"
  "ft_size (put_table s ins rep depth t) = ft_size t" "ft_step (put_table s ins rep depth t) = ft_step t"
  by (simp_all add: put_table_def)

lemma take_table_same [simp]:
  "ft_id (take_table i t) = ft_id t" "ft_offset (take_table i t) = ft_offset t"
  "ft_size (take_table i t) = ft_size t" "ft_step (take_table i t) = ft_step t"
  by (simp_all add: take_table_def)

lemma used_at_take: "shape_ok t \<Longrightarrow> used_at (take_table i t) j \<longleftrightarrow> used_at t j \<and> j \<noteq> i"
  using shape_ok_D [of t] by (cases "j = i") (auto simp: used_at_def take_table_def)

lemma used_at_put:
  assumes "shape_ok t" and "found t s ins rep depth"
  shows "used_at (put_table s ins rep depth t) j \<longleftrightarrow> j = ins \<or> used_at t j \<and> rep \<noteq> Some j"
  using assms shape_ok_D [OF assms(1)]
  by (auto simp: used_at_def put_table_def found_def nth_list_update split: option.splits if_splits)

lemma shape_ok_take:
  assumes t: "shape_ok t" and i: "used_at t i"
  shows "shape_ok (take_table i t)"
proof -
  have "{j. used_at (take_table i t) j} = {j. used_at t j} - {i}"
    using used_at_take [OF t] by auto
  then have "card {j. used_at (take_table i t) j} = ft_used t - 1"
    using t i by (simp add: shape_ok_def)
  then show ?thesis
    using t by (auto simp: shape_ok_def take_table_def)
qed

lemma hash_ok_take:
  assumes t: "hash_ok t" and i: "used_at t i"
  shows "hash_ok (take_table i t)"
proof (rule hash_ok_change [OF t, of _ "fkey (ft_spec t ! i)"])
  have sh: "shape_ok t"
    using t by (simp add: hash_ok_def)
  show "shape_ok (take_table i t)"
    by (rule shape_ok_take [OF sh i])
  fix j
  assume "used_at (take_table i t) j"
  then have j: "used_at t j" "j \<noteq> i"
    using used_at_take [OF sh] by auto
  have "ft_used t \<noteq> 1"
  proof
    assume "ft_used t = 1"
    then have "card {k. used_at t k} = 1"
      using sh by (simp add: shape_ok_def)
    moreover have "card {i, j} \<le> card {k. used_at t k}"
      using i j by (intro card_mono) auto
    ultimately show False
      using j(2) by simp
  qed
  moreover have "fkey (ft_spec t ! j) \<noteq> fkey (ft_spec t ! i)"
    using t i j by (auto simp: hash_ok_def)
  ultimately show "used_at t j \<and> ft_spec (take_table i t) ! j = ft_spec t ! j \<and>
      fkey (ft_spec t ! j) \<noteq> fkey (ft_spec t ! i) \<and>
      ft_search_limit t ! fs_type (ft_spec t ! j) \<le> ft_search_limit (take_table i t) ! fs_type (ft_spec t ! j) \<or>
    j = i \<and> fkey (ft_spec (take_table i t) ! j) = fkey (ft_spec t ! i) \<and> entry_ok (take_table i t) j (ft_spec (take_table i t) ! j)"
    using j by (simp add: take_table_def)
qed simp_all

lemma shape_ok_put:
  assumes t: "shape_ok t" and f: "found t s ins rep depth" and ty: "fs_type s < EFX_FARCH_FILTER_TYPE_COUNT"
  shows "shape_ok (put_table s ins rep depth t)"
proof -
  let ?t = "put_table s ins rep depth t"
  have set: "{j. used_at ?t j} = insert ins ({j. used_at t j} - set_option rep)"
    using used_at_put [OF t f] by auto
  have "card {j. used_at ?t j} = ft_used ?t"
  proof (cases rep)
    case None
    with f t show ?thesis
      unfolding set by (simp add: found_def put_table_def shape_ok_def)
  next
    case (Some r)
    with f have r: "used_at t r" "ins = r \<or> \<not> used_at t ins"
      by (auto simp: found_def)
    then have "0 < card {j. used_at t j}"
      by (auto simp: card_gt_0_iff)
    with r Some t show ?thesis
      unfolding set by (auto simp: put_table_def shape_ok_def insert_absorb)
  qed
  moreover have "\<forall>l \<in> set (ft_search_limit ?t). l \<le> EFX_FARCH_FILTER_CTL_SRCH_MAX"
    using t f by (auto simp: put_table_def shape_ok_def found_def dest: set_update_subset_insert [THEN subsetD])
  ultimately show ?thesis
    using t by (auto simp: shape_ok_def put_table_def split: option.splits)
qed

lemma hash_ok_put:
  assumes t: "hash_ok t" and f: "found t s ins rep depth"
    and s: "efx_farch_filter_spec_table_id s = ft_id t" "fs_type s < EFX_FARCH_FILTER_TYPE_COUNT" "plain s"
  shows "hash_ok (put_table s ins rep depth t)"
proof (rule hash_ok_change [OF t, of _ "fkey s" ins])
  have sh: "shape_ok t"
    using t by (simp add: hash_ok_def)
  let ?t = "put_table s ins rep depth t"
  show "shape_ok ?t"
    by (rule shape_ok_put [OF sh f s(2)])
  note D = shape_ok_D [OF sh]
  have ins: "ins < ft_size t" "ft_spec ?t ! ins = s"
    using f D by (auto simp: found_def put_table_def split: option.splits)
  have lim: "ft_search_limit t ! ty \<le> ft_search_limit ?t ! ty" for ty
    using D(3) s(2) by (cases "ty = fs_type s") (auto simp: put_table_def)
  have "depth \<le> ft_search_limit ?t ! fs_type s"
    using D(3) s(2) by (auto simp: put_table_def)
  then have ok: "entry_ok ?t ins s"
    using f s by (auto simp: entry_ok_def found_def intro: order_trans)
  fix j
  assume "used_at ?t j"
  then have j: "j = ins \<or> used_at t j \<and> rep \<noteq> Some j"
    using used_at_put [OF sh f] by auto
  show "used_at t j \<and> ft_spec ?t ! j = ft_spec t ! j \<and> fkey (ft_spec t ! j) \<noteq> fkey s \<and>
        ft_search_limit t ! fs_type (ft_spec t ! j) \<le> ft_search_limit ?t ! fs_type (ft_spec t ! j) \<or>
      j = ins \<and> fkey (ft_spec ?t ! j) = fkey s \<and> entry_ok ?t j (ft_spec ?t ! j)"
  proof (cases "j = ins")
    case True
    with ins ok show ?thesis by simp
  next
    case False
    with j have u: "used_at t j" "rep \<noteq> Some j"
      by auto
    have "fkey (ft_spec t ! j) \<noteq> fkey s"
      using f u t by (auto simp: found_def hash_ok_def split: option.splits)
    moreover have "ft_spec ?t ! j = ft_spec t ! j"
      using False u by (cases rep) (simp_all add: put_table_def)
    ultimately show ?thesis
      using u lim by auto
  qed
qed simp_all

text \<open>The filters of a table as a map from keys.\<close>

definition lookup :: "farch_table \<Rightarrow> nat \<times> nat \<times> (u32 \<times> u32 \<times> u32) \<times> u16 \<Rightarrow> farch_spec option" where
  "lookup t k = find (\<lambda>s. fkey s = k) (used_specs t)"

lemma set_used_specs: "set (used_specs t) = {ft_spec t ! i | i. used_at t i}"
  by (auto simp: used_specs_def used_at_def)

lemma lookup_Some:
  assumes "\<forall>i j. used_at t i \<longrightarrow> used_at t j \<longrightarrow> fkey (ft_spec t ! i) = fkey (ft_spec t ! j) \<longrightarrow> i = j"
  shows "lookup t k = Some s \<longleftrightarrow> (\<exists>i. used_at t i \<and> ft_spec t ! i = s \<and> fkey s = k)"
proof
  assume "lookup t k = Some s"
  then show "\<exists>i. used_at t i \<and> ft_spec t ! i = s \<and> fkey s = k"
    using find_Some_iff_set [of _ "used_specs t" s] set_used_specs [of t] by (auto simp: lookup_def)
next
  assume "\<exists>i. used_at t i \<and> ft_spec t ! i = s \<and> fkey s = k"
  then obtain i where i: "used_at t i" "ft_spec t ! i = s" "fkey s = k"
    by blast
  then have "lookup t k \<noteq> None"
    using set_used_specs [of t] by (auto simp: lookup_def find_None_iff)
  then obtain s' where s': "lookup t k = Some s'"
    by blast
  then obtain i' where "used_at t i'" "ft_spec t ! i' = s'" "fkey s' = k"
    using find_Some_iff_set [of _ "used_specs t" s'] set_used_specs [of t] by (auto simp: lookup_def)
  with i assms s' show "lookup t k = Some s"
    by auto
qed

lemma lookup_hash: "hash_ok t \<Longrightarrow> lookup t k = Some s \<longleftrightarrow> (\<exists>i. used_at t i \<and> ft_spec t ! i = s \<and> fkey s = k)"
  by (rule lookup_Some) (simp add: hash_ok_def)

text \<open>A change of the table that is a change of the map.\<close>

lemma lookup_change:
  assumes "hash_ok t" and "hash_ok t'"
    and used: "\<And>j. used_at t' j \<longleftrightarrow> Some j = ins \<or> used_at t j \<and> fkey (ft_spec t ! j) \<noteq> k"
    and keep: "\<And>j. used_at t j \<Longrightarrow> fkey (ft_spec t ! j) \<noteq> k \<Longrightarrow> ft_spec t' ! j = ft_spec t ! j"
    and new: "\<And>j. ins = Some j \<Longrightarrow> fkey (ft_spec t' ! j) = k"
  shows "lookup t' = (lookup t)(k := map_option (\<lambda>j. ft_spec t' ! j) ins)"
proof
  fix k'
  note l = lookup_hash [OF assms(1)] and l' = lookup_hash [OF assms(2)]
  have "lookup t' k' = Some s \<longleftrightarrow> ((lookup t)(k := map_option (\<lambda>j. ft_spec t' ! j) ins)) k' = Some s" for s
  proof (cases "k' = k")
    case True
    have "used_at t' j \<and> fkey (ft_spec t' ! j) = k \<longleftrightarrow> ins = Some j" for j
      using used [of j] keep [of j] new [of j] by auto
    then show ?thesis
      unfolding l' using True by auto
  next
    case False
    then have "used_at t' j \<and> fkey (ft_spec t' ! j) = k' \<longleftrightarrow> used_at t j \<and> fkey (ft_spec t ! j) = k'" for j
      using used [of j] keep [of j] new [of j] assms(2) by auto
    then have "(\<exists>i. used_at t' i \<and> ft_spec t' ! i = s \<and> fkey s = k') \<longleftrightarrow>
        (\<exists>i. used_at t i \<and> ft_spec t ! i = s \<and> fkey s = k')"
      using False used keep new by metis
    then show ?thesis
      using False by (simp add: l l')
  qed
  then show "lookup t' k' = ((lookup t)(k := map_option (\<lambda>j. ft_spec t' ! j) ins)) k'"
    by (metis not_Some_eq)
qed

lemma lookup_take:
  assumes t: "hash_ok t" and i: "used_at t i"
  shows "lookup (take_table i t) = (lookup t)(fkey (ft_spec t ! i) := None)"
proof -
  have sh: "shape_ok t"
    using t by (simp add: hash_ok_def)
  have uniq: "used_at t j \<Longrightarrow> fkey (ft_spec t ! j) = fkey (ft_spec t ! i) \<longleftrightarrow> j = i" for j
    using t i by (auto simp: hash_ok_def)
  have spec: "j \<noteq> i \<Longrightarrow> ft_spec (take_table i t) ! j = ft_spec t ! j" for j
    by (simp add: take_table_def)
  have "lookup (take_table i t) = (lookup t)(fkey (ft_spec t ! i) := map_option (\<lambda>j. ft_spec (take_table i t) ! j) None)"
    by (rule lookup_change [OF t hash_ok_take [OF t i]])
      (use used_at_take [OF sh] uniq in \<open>auto simp: spec\<close>)
  then show ?thesis by simp
qed

lemma found_rep_iff:
  assumes t: "hash_ok t" and f: "found t s ins rep depth" and j: "used_at t j"
  shows "fkey (ft_spec t ! j) = fkey s \<longleftrightarrow> rep = Some j"
  using f j t by (auto simp: found_def hash_ok_def split: option.splits)

lemma lookup_put:
  assumes t: "hash_ok t" and f: "found t s ins rep depth"
    and s: "efx_farch_filter_spec_table_id s = ft_id t" "fs_type s < EFX_FARCH_FILTER_TYPE_COUNT" "plain s"
  shows "lookup (put_table s ins rep depth t) = (lookup t)(fkey s := Some s)"
proof -
  have sh: "shape_ok t"
    using t by (simp add: hash_ok_def)
  have ins: "ft_spec (put_table s ins rep depth t) ! ins = s"
    using f shape_ok_D [OF sh] by (auto simp: found_def put_table_def split: option.splits)
  have new: "used_at t ins \<Longrightarrow> rep = Some ins"
    using f by (auto simp: found_def split: option.splits)
  have "lookup (put_table s ins rep depth t) = (lookup t)(fkey s := map_option (\<lambda>j. ft_spec (put_table s ins rep depth t) ! j) (Some ins))"
  proof (rule lookup_change [OF t hash_ok_put [OF t f s]])
    fix j
    assume j: "used_at t j" "fkey (ft_spec t ! j) \<noteq> fkey s"
    then have "rep \<noteq> Some j" "j \<noteq> ins"
      using found_rep_iff [OF t f] new by auto
    then show "ft_spec (put_table s ins rep depth t) ! j = ft_spec t ! j"
      by (cases rep) (simp_all add: put_table_def)
  qed (auto simp: used_at_put [OF sh f] found_rep_iff [OF t f] ins)
  then show ?thesis
    by (simp add: ins)
qed

end
