(* ===== verification/Farch_State.thy ===== *)
theory Farch_State
  imports Farch_Inv
begin

unbundle bit_operations_syntax

section \<open>The state of the filter tables and its invariant\<close>

text \<open>
  \<open>farch_ok\<close>: the geometry of the five tables, well-formed hash tables, the two default filters, the
  NIC's memory and the search limits in the control registers. Each operation of farch.c preserves
  it, and acts on the map \<open>filters\<close> from keys to filters like the operation of the same name on maps.
\<close>

subsection \<open>The invariant\<close>

definition table_shape :: "farch_table \<Rightarrow> nat \<times> nat \<times> nat \<times> nat" where
  "table_shape t = (ft_id t, ft_offset t, ft_size t, ft_step t)"

definition geometry :: "(nat \<times> nat \<times> nat \<times> nat) list" where
  "geometry = [(0, 0xf00000, 8192, 32), (1, 0xf00010, 512, 32), (2, 0, 2, 0), (3, 0xfc0000, 8192, 16),
     (4, 0xfe0000, 512, 16)]"

text \<open>The two filters for packets that match no other one: automatic, or set by a user.\<close>

definition def_spec_ok :: "nat \<Rightarrow> farch_spec \<Rightarrow> bool" where
  "def_spec_ok i s \<longleftrightarrow> fs_type s = EFX_FARCH_FILTER_UC_DEF + i \<and> fs_data s = (0, 0, 0) \<and> \<not> has_flag (fs_flags s) EFX_FILTER_FLAG_TX \<and>
     unat (fs_dmaq_id s) < 4096 \<and>
     (fs_priority s = EFX_FILTER_PRI_AUTO \<or> has_flag (fs_flags s) EFX_FILTER_FLAG_RX_OVER_AUTO)"

definition def_ok :: "farch_table \<Rightarrow> bool" where
  "def_ok t \<longleftrightarrow> ft_used_bitmap t = [True, True] \<and> length (ft_spec t) = 2 \<and> (\<forall>i < 2. def_spec_ok i (ft_spec t ! i))"

text \<open>The memory of the NIC holds the entries of the used slots, and zero in the free ones.\<close>

definition table_mem :: "farch_table \<Rightarrow> nat \<Rightarrow> oword" where
  "table_mem t i = (if ft_used_bitmap t ! i then spec_entry (ft_spec t ! i) else (0, 0))"

definition mem_ok :: "farch \<Rightarrow> bool" where
  "mem_ok st \<longleftrightarrow> (\<forall>tid i. hash_tid tid \<longrightarrow> i < ft_size (fa_table st ! tid) \<longrightarrow>
     fa_mem st (entry_addr (fa_table st ! tid) i) = table_mem (fa_table st ! tid) i)"

text \<open>A search limit as the hardware wants it.\<close>

definition hw_limit :: "nat list \<Rightarrow> nat \<Rightarrow> nat \<Rightarrow> u64" where
  "hw_limit lims ty fudge = of_nat (lims ! ty + fudge)"

definition rx_fields_ok :: "nat list \<Rightarrow> nat list \<Rightarrow> farch_spec list \<Rightarrow> oword \<Rightarrow> bool" where
  "rx_fields_ok ip mac def ctl \<longleftrightarrow>
     EFX_OWORD_FIELD ctl FRF_BZ_TCP_FULL_SRCH_LIMIT = hw_limit ip EFX_FARCH_FILTER_TCP_FULL 1 \<and>
     EFX_OWORD_FIELD ctl FRF_BZ_TCP_WILD_SRCH_LIMIT = hw_limit ip EFX_FARCH_FILTER_TCP_WILD 3 \<and>
     EFX_OWORD_FIELD ctl FRF_BZ_UDP_FULL_SRCH_LIMIT = hw_limit ip EFX_FARCH_FILTER_UDP_FULL 1 \<and>
     EFX_OWORD_FIELD ctl FRF_BZ_UDP_WILD_SRCH_LIMIT = hw_limit ip EFX_FARCH_FILTER_UDP_WILD 3 \<and>
     EFX_OWORD_FIELD ctl FRF_CZ_ETHERNET_FULL_SEARCH_LIMIT = hw_limit mac EFX_FARCH_FILTER_MAC_FULL 1 \<and>
     EFX_OWORD_FIELD ctl FRF_CZ_ETHERNET_WILDCARD_SEARCH_LIMIT = hw_limit mac EFX_FARCH_FILTER_MAC_WILD 3 \<and>
     EFX_OWORD_FIELD ctl FRF_CZ_UNICAST_NOMATCH_Q_ID = ucast (fs_dmaq_id (def ! 0)) \<and>
     EFX_OWORD_FIELD ctl FRF_CZ_MULTICAST_NOMATCH_Q_ID = ucast (fs_dmaq_id (def ! 1))"

text \<open>Set-up does not write the transmit limits: they count once a type has a limit.\<close>

definition tx_fields_ok :: "nat list \<Rightarrow> nat list \<Rightarrow> oword \<Rightarrow> bool" where
  "tx_fields_ok ip mac cfg \<longleftrightarrow>
     (ip ! EFX_FARCH_FILTER_TCP_FULL \<noteq> 0 \<longrightarrow> EFX_OWORD_FIELD cfg FRF_CZ_TX_TCPIP_FILTER_FULL_SEARCH_RANGE = hw_limit ip EFX_FARCH_FILTER_TCP_FULL 1) \<and>
     (ip ! EFX_FARCH_FILTER_TCP_WILD \<noteq> 0 \<longrightarrow> EFX_OWORD_FIELD cfg FRF_CZ_TX_TCPIP_FILTER_WILD_SEARCH_RANGE = hw_limit ip EFX_FARCH_FILTER_TCP_WILD 3) \<and>
     (ip ! EFX_FARCH_FILTER_UDP_FULL \<noteq> 0 \<longrightarrow> EFX_OWORD_FIELD cfg FRF_CZ_TX_UDPIP_FILTER_FULL_SEARCH_RANGE = hw_limit ip EFX_FARCH_FILTER_UDP_FULL 1) \<and>
     (ip ! EFX_FARCH_FILTER_UDP_WILD \<noteq> 0 \<longrightarrow> EFX_OWORD_FIELD cfg FRF_CZ_TX_UDPIP_FILTER_WILD_SEARCH_RANGE = hw_limit ip EFX_FARCH_FILTER_UDP_WILD 3) \<and>
     (mac ! EFX_FARCH_FILTER_MAC_FULL \<noteq> 0 \<longrightarrow> EFX_OWORD_FIELD cfg FRF_CZ_TX_ETH_FILTER_FULL_SEARCH_RANGE = hw_limit mac EFX_FARCH_FILTER_MAC_FULL 1) \<and>
     (mac ! EFX_FARCH_FILTER_MAC_WILD \<noteq> 0 \<longrightarrow> EFX_OWORD_FIELD cfg FRF_CZ_TX_ETH_FILTER_WILD_SEARCH_RANGE = hw_limit mac EFX_FARCH_FILTER_MAC_WILD 3)"

definition tables_ok :: "farch_table list \<Rightarrow> bool" where
  "tables_ok ts \<longleftrightarrow> map table_shape ts = geometry \<and> (\<forall>tid. hash_tid tid \<longrightarrow> hash_ok (ts ! tid)) \<and> def_ok (ts ! 2)"

definition regs_ok :: "farch_table list \<Rightarrow> oword \<Rightarrow> oword \<Rightarrow> bool" where
  "regs_ok ts rx tx \<longleftrightarrow>
     rx_fields_ok (ft_search_limit (ts ! 0)) (ft_search_limit (ts ! 1)) (ft_spec (ts ! 2)) rx \<and>
     tx_fields_ok (ft_search_limit (ts ! 3)) (ft_search_limit (ts ! 4)) tx"

definition farch_ok :: "farch \<Rightarrow> bool" where
  "farch_ok st \<longleftrightarrow> tables_ok (fa_table st) \<and> mem_ok st \<and> regs_ok (fa_table st) (fa_rx_filter_ctl st) (fa_tx_cfg st)"

definition filters :: "farch \<Rightarrow> nat \<times> nat \<times> (u32 \<times> u32 \<times> u32) \<times> u16 \<Rightarrow> farch_spec option" where
  "filters st k = (if fst k < length (fa_table st) then lookup (fa_table st ! fst k) k else None)"

subsection \<open>Geometry\<close>

lemma hash_tid_cases: "hash_tid tid \<Longrightarrow> (tid = 0 \<Longrightarrow> P) \<Longrightarrow> (tid = 1 \<Longrightarrow> P) \<Longrightarrow> (tid = 3 \<Longrightarrow> P) \<Longrightarrow> (tid = 4 \<Longrightarrow> P) \<Longrightarrow> P"
  by (auto simp: hash_tid_def)

lemma geometry_nth:
  assumes "map table_shape ts = geometry"
  shows "length ts = 5"
    and "tid < 5 \<Longrightarrow> ft_id (ts ! tid) = tid"
    and "tid < 5 \<Longrightarrow> ft_size (ts ! tid) = [8192, 512, 2, 8192, 512] ! tid"
    and "tid < 5 \<Longrightarrow> ft_offset (ts ! tid) = [0xf00000, 0xf00010, 0, 0xfc0000, 0xfe0000] ! tid"
    and "tid < 5 \<Longrightarrow> ft_step (ts ! tid) = [32, 32, 0, 16, 16] ! tid"
proof -
  show len: "length ts = 5"
    using arg_cong [OF assms, of length] by (simp add: geometry_def)
  have sh: "table_shape (ts ! tid) = geometry ! tid" if "tid < 5" for tid
    using arg_cong [OF assms, of "\<lambda>xs. xs ! tid"] that len by simp
  have cases5: "tid = 0 \<or> tid = 1 \<or> tid = 2 \<or> tid = 3 \<or> tid = 4" if "tid < 5"
    using that by auto
  show "ft_id (ts ! tid) = tid" "ft_size (ts ! tid) = [8192, 512, 2, 8192, 512] ! tid"
     "ft_offset (ts ! tid) = [0xf00000, 0xf00010, 0, 0xfc0000, 0xfe0000] ! tid"
     "ft_step (ts ! tid) = [32, 32, 0, 16, 16] ! tid" if "tid < 5"
    using sh [OF that] cases5 [OF that] by (auto simp: geometry_def table_shape_def)
qed

lemma entry_addr_inj:
  assumes "map table_shape ts = geometry" and "hash_tid tid" "hash_tid tid'"
    and "i < ft_size (ts ! tid)" "i' < ft_size (ts ! tid')"
    and "entry_addr (ts ! tid) i = entry_addr (ts ! tid') i'"
  shows "tid = tid' \<and> i = i'"
  using assms(2,3)
  by (elim hash_tid_cases; use assms(4-6) geometry_nth [OF assms(1)] in \<open>simp add: entry_addr_def\<close>; presburger?)

lemma tables_ok_D:
  assumes "tables_ok ts"
  shows "map table_shape ts = geometry" "hash_tid tid \<Longrightarrow> hash_ok (ts ! tid)" "def_ok (ts ! 2)"
  using assms by (auto simp: tables_ok_def)

lemma hash_tid_less: "hash_tid tid \<Longrightarrow> tid < 5"
  by (auto simp: hash_tid_def)

lemma hash_ok_limit:
  "hash_ok t \<Longrightarrow> ty < EFX_FARCH_FILTER_TYPE_COUNT \<Longrightarrow> ft_search_limit t ! ty \<le> EFX_FARCH_FILTER_CTL_SRCH_MAX"
  by (simp add: hash_ok_def shape_ok_D)

subsection \<open>Registers\<close>

lemma ofits_limit:
  assumes "l \<le> EFX_FARCH_FILTER_CTL_SRCH_MAX" and "k \<le> 3" and "b \<le> 120"
  shows "ofits (b, 8) (of_nat (l + k))"
proof -
  have "unat (of_nat (l + k) :: u64) = l + k"
    using assms by (simp add: unat_of_nat del: of_nat_add)
  then show ?thesis
    using assms by (simp add: ofits_def ofield_ok_def del: of_nat_add)
qed

lemma ofits_limit_plus:
  assumes "ft_search_limit t ! ty \<le> EFX_FARCH_FILTER_CTL_SRCH_MAX" and "k \<le> 3" and "b \<le> 120"
  shows "ofits (b, 8) (limit_plus t ty k)"
  unfolding limit_plus_def by (rule ofits_limit) (use assms in auto)

lemma ofits_of_bool: "b < 128 \<Longrightarrow> ofits (b, 1) (of_bool v)"
  by (simp add: ofits_def ofield_ok_def)

lemma ofits_dmaq:
  assumes "unat (q :: u16) < 4096" and "b \<le> 116"
  shows "ofits (b, 12) (ucast q)"
  using assms by (simp add: ofits_def ofield_ok_def unsigned_ucast_eq take_bit_nat_eq_self)

lemma push_rx_frame [simp]:
  "fa_table (efx_farch_filter_push_rx_config st) = fa_table st"
  "fa_mem (efx_farch_filter_push_rx_config st) = fa_mem st"
  "fa_tx_cfg (efx_farch_filter_push_rx_config st) = fa_tx_cfg st"
  by (simp_all add: efx_farch_filter_push_rx_config_def Let_def)

lemma push_tx_frame [simp]:
  "fa_table (efx_farch_filter_push_tx_limits st) = fa_table st"
  "fa_mem (efx_farch_filter_push_tx_limits st) = fa_mem st"
  "fa_rx_filter_ctl (efx_farch_filter_push_tx_limits st) = fa_rx_filter_ctl st"
  by (simp_all add: efx_farch_filter_push_tx_limits_def Let_def)

text \<open>What a push needs of the tables.\<close>

definition push_ok :: "farch_table list \<Rightarrow> bool" where
  "push_ok ts \<longleftrightarrow> map table_shape ts = geometry \<and>
     (\<forall>tid ty. hash_tid tid \<longrightarrow> ty < EFX_FARCH_FILTER_TYPE_COUNT \<longrightarrow>
        ft_search_limit (ts ! tid) ! ty \<le> EFX_FARCH_FILTER_CTL_SRCH_MAX) \<and> def_ok (ts ! 2)"

lemma tables_ok_push_ok: "tables_ok ts \<Longrightarrow> push_ok ts"
  by (auto simp: push_ok_def tables_ok_def hash_ok_limit)

lemma hw_limit_plus: "hw_limit (ft_search_limit t) ty k = limit_plus t ty k"
  by (simp add: hw_limit_def limit_plus_def)

lemma push_rx_fields:
  assumes t: "push_ok (fa_table st)"
  shows "rx_fields_ok (ft_search_limit (fa_table st ! 0)) (ft_search_limit (fa_table st ! 1)) (ft_spec (fa_table st ! 2))
    (fa_rx_filter_ctl (efx_farch_filter_push_rx_config st))"
proof -
  have h: "ft_search_limit (fa_table st ! tid) ! ty \<le> EFX_FARCH_FILTER_CTL_SRCH_MAX"
    if "hash_tid tid" "ty < EFX_FARCH_FILTER_TYPE_COUNT" for tid ty
    using t that by (simp add: push_ok_def)
  have sz: "ft_size (fa_table st ! 1) = 512" "ft_size (fa_table st ! 2) = 2"
    using t geometry_nth(3) [of "fa_table st"] by (simp_all add: push_ok_def)
  have d: "unat (fs_dmaq_id (ft_spec (fa_table st ! 2) ! i)) < 4096" if "i < 2" for i
    using t that by (simp add: push_ok_def def_ok_def def_spec_ok_def)
  note fits = ofits_limit_plus [OF h] ofits_of_bool
    ofits_dmaq [OF d [of 0]] ofits_dmaq [OF d [of 1]]
  show ?thesis
    unfolding rx_fields_ok_def efx_farch_filter_push_rx_config_def Let_def
    by (simp add: sz fits hash_tid_def odisjoint_def ofield_ok_def hw_limit_plus del: One_nat_def)
qed

lemma push_tx_fields:
  assumes t: "push_ok (fa_table st)"
  shows "tx_fields_ok (ft_search_limit (fa_table st ! 3)) (ft_search_limit (fa_table st ! 4))
    (fa_tx_cfg (efx_farch_filter_push_tx_limits st))"
proof -
  have h: "ft_search_limit (fa_table st ! tid) ! ty \<le> EFX_FARCH_FILTER_CTL_SRCH_MAX"
    if "hash_tid tid" "ty < EFX_FARCH_FILTER_TYPE_COUNT" for tid ty
    using t that by (simp add: push_ok_def)
  have sz: "ft_size (fa_table st ! 3) = 8192" "ft_size (fa_table st ! 4) = 512"
    using t geometry_nth(3) [of "fa_table st"] by (simp_all add: push_ok_def)
  note fits = ofits_limit_plus [OF h]
  show ?thesis
    unfolding tx_fields_ok_def efx_farch_filter_push_tx_limits_def Let_def
    by (simp add: sz fits hash_tid_def odisjoint_def ofield_ok_def hw_limit_plus del: One_nat_def)
qed

lemma push_rx_farch_ok:
  assumes "tables_ok (fa_table st)" and "mem_ok st"
    and "tx_fields_ok (ft_search_limit (fa_table st ! 3)) (ft_search_limit (fa_table st ! 4)) (fa_tx_cfg st)"
  shows "farch_ok (efx_farch_filter_push_rx_config st)"
  using assms push_rx_fields [OF tables_ok_push_ok [OF assms(1)]] by (simp add: farch_ok_def regs_ok_def mem_ok_def)

subsection \<open>Updates of one hash table\<close>

lemma tables_ok_update:
  assumes t: "tables_ok ts" and tid: "hash_tid tid" and t': "hash_ok t'" "table_shape t' = table_shape (ts ! tid)"
  shows "tables_ok (ts[tid := t'])"
proof -
  have len: "length ts = 5"
    using geometry_nth(1) [OF tables_ok_D(1) [OF t]] .
  have "map table_shape (ts[tid := t']) = (map table_shape ts)[tid := map table_shape ts ! tid]"
    using t'(2) len hash_tid_less [OF tid] by (simp add: map_update)
  then have "map table_shape (ts[tid := t']) = geometry"
    using tables_ok_D(1) [OF t] by simp
  moreover have "hash_ok (ts[tid := t'] ! k)" if "hash_tid k" for k
    using tables_ok_D(2) [OF t that] t'(1) len hash_tid_less [OF tid] by (cases "k = tid") simp_all
  moreover have "def_ok (ts[tid := t'] ! 2)"
    using tables_ok_D(3) [OF t] tid by (auto simp: hash_tid_def)
  ultimately show ?thesis
    by (simp add: tables_ok_def)
qed

lemma mem_ok_update:
  assumes t: "tables_ok (fa_table st)" and m: "mem_ok st" and tid: "hash_tid tid"
    and sh: "table_shape t' = table_shape (fa_table st ! tid)"
    and tab: "fa_table st' = (fa_table st)[tid := t']"
    and other: "\<And>a. (\<And>i. i \<in> is \<Longrightarrow> a \<noteq> entry_addr t' i) \<Longrightarrow> fa_mem st' a = fa_mem st a"
    and own: "\<And>i. i \<in> is \<Longrightarrow> i < ft_size t' \<Longrightarrow> fa_mem st' (entry_addr t' i) = table_mem t' i"
    and rest: "\<And>i. i \<notin> is \<Longrightarrow> table_mem t' i = table_mem (fa_table st ! tid) i"
    and rng: "\<And>i. i \<in> is \<Longrightarrow> i < ft_size t'"
  shows "mem_ok st'"
  unfolding mem_ok_def
proof (intro allI impI)
  fix k i
  assume k: "hash_tid k" "i < ft_size (fa_table st' ! k)"
  note geo = tables_ok_D(1) [OF t]
  have len: "length (fa_table st) = 5" "tid < 5"
    using geometry_nth(1) [OF geo] hash_tid_less [OF tid] by auto
  have shapes: "entry_addr t' j = entry_addr (fa_table st ! tid) j" "ft_size t' = ft_size (fa_table st ! tid)" for j
    using sh by (simp_all add: table_shape_def entry_addr_def)
  show "fa_mem st' (entry_addr (fa_table st' ! k) i) = table_mem (fa_table st' ! k) i"
  proof (cases "k = tid")
    case True
    then have k': "fa_table st' ! k = t'" "i < ft_size t'"
      using k tab len by auto
    show ?thesis
    proof (cases "i \<in> is")
      case True
      with own k' show ?thesis by simp
    next
      case False
      have "entry_addr t' i \<noteq> entry_addr t' j" if "j \<in> is" for j
        using entry_addr_inj [OF geo tid tid, of i j] rng [OF that] k' that False shapes by auto
      then have "fa_mem st' (entry_addr t' i) = fa_mem st (entry_addr (fa_table st ! tid) i)"
        using other shapes by simp
      with m tid k' shapes rest [OF False] show ?thesis
        by (simp add: mem_ok_def)
    qed
  next
    case False
    then have k': "fa_table st' ! k = fa_table st ! k"
      using tab by simp
    have "entry_addr (fa_table st ! k) i \<noteq> entry_addr t' j" if "j \<in> is" for j
      using entry_addr_inj [OF geo k(1) tid, of i j] rng [OF that] k k' False shapes by auto
    then have "fa_mem st' (entry_addr (fa_table st ! k) i) = fa_mem st (entry_addr (fa_table st ! k) i)"
      using other by simp
    with m k k' show ?thesis
      by (simp add: mem_ok_def)
  qed
qed

text \<open>The registers after a change of one hash table: pushed again, or its limits are as before.\<close>

lemma regs_ok_update:
  assumes "length ts = 5" "hash_tid tid" "ft_search_limit t' = ft_search_limit (ts ! tid)"
  shows "regs_ok (ts[tid := t']) rx tx = regs_ok ts rx tx"
  using assms(2) by (rule hash_tid_cases) (use assms in \<open>simp_all add: regs_ok_def del: One_nat_def\<close>)

lemma regs_ok_same_limits:
  assumes t: "tables_ok (fa_table st)" and r: "regs_ok (fa_table st) rx tx" and tid: "hash_tid tid"
    and "ft_search_limit t' = ft_search_limit (fa_table st ! tid)"
  shows "regs_ok ((fa_table st)[tid := t']) rx tx"
  using assms geometry_nth(1) [OF tables_ok_D(1) [OF t]] by (simp add: regs_ok_update)

definition push_for :: "nat \<Rightarrow> farch \<Rightarrow> farch" where
  "push_for tid st = (if tid \<ge> EFX_FARCH_FILTER_TABLE_TX_IP then efx_farch_filter_push_tx_limits st
     else efx_farch_filter_push_rx_config st)"

lemma push_for_frame [simp]: "fa_table (push_for tid st) = fa_table st" "fa_mem (push_for tid st) = fa_mem st"
  by (simp_all add: push_for_def)

lemma regs_ok_push:
  assumes t: "tables_ok (fa_table st)" and t': "push_ok (fa_table st')"
    and r: "regs_ok (fa_table st) (fa_rx_filter_ctl st) (fa_tx_cfg st)" and tid: "hash_tid tid"
    and tab: "fa_table st' = (fa_table st)[tid := t']"
    and same: "fa_rx_filter_ctl st' = fa_rx_filter_ctl st" "fa_tx_cfg st' = fa_tx_cfg st"
  shows "regs_ok (fa_table st') (fa_rx_filter_ctl (push_for tid st')) (fa_tx_cfg (push_for tid st'))"
proof (cases "tid \<ge> 3")
  case True
  then have "rx_fields_ok (ft_search_limit (fa_table st' ! 0)) (ft_search_limit (fa_table st' ! 1)) (ft_spec (fa_table st' ! 2)) (fa_rx_filter_ctl st')"
    using r tab same by (simp add: regs_ok_def)
  with True push_tx_fields [OF t'] show ?thesis
    by (simp add: regs_ok_def push_for_def)
next
  case False
  then have "tx_fields_ok (ft_search_limit (fa_table st' ! 3)) (ft_search_limit (fa_table st' ! 4)) (fa_tx_cfg st')"
    using r tab same by (simp add: regs_ok_def)
  with False push_rx_fields [OF t'] show ?thesis
    by (simp add: regs_ok_def push_for_def)
qed

subsection \<open>Removing an entry\<close>

lemma upd_table_sel [simp]:
  "fa_table (upd_table tid f st) = (fa_table st)[tid := f (fa_table st ! tid)]"
  "fa_mem (upd_table tid f st) = fa_mem st"
  "fa_rx_filter_ctl (upd_table tid f st) = fa_rx_filter_ctl st"
  "fa_tx_cfg (upd_table tid f st) = fa_tx_cfg st"
  by (simp_all add: upd_table_def)

lemma efx_writeo_sel [simp]:
  "fa_table (efx_writeo w a st) = fa_table st"
  "fa_mem (efx_writeo w a st) = (fa_mem st)(a := w)"
  "fa_rx_filter_ctl (efx_writeo w a st) = fa_rx_filter_ctl st"
  "fa_tx_cfg (efx_writeo w a st) = fa_tx_cfg st"
  by (simp_all add: efx_writeo_def)

text \<open>\<open>efx_farch_filter_table_clear_entry\<close> as one step.\<close>

lemma clear_entry_Some:
  assumes t: "tables_ok (fa_table st)" and tid: "hash_tid tid" and used: "used_at (fa_table st ! tid) i"
  shows "\<exists>st'. efx_farch_filter_table_clear_entry tid i st = Some
      (if ft_used (fa_table st ! tid) = 1 then push_for tid st' else st') \<and>
    fa_table st' = (fa_table st)[tid := take_table i (fa_table st ! tid)] \<and>
    fa_mem st' = (fa_mem st)(entry_addr (fa_table st ! tid) i := (0, 0)) \<and>
    fa_rx_filter_ctl st' = fa_rx_filter_ctl st \<and> fa_tx_cfg st' = fa_tx_cfg st"
proof -
  have len: "tid < length (fa_table st)"
    using geometry_nth(1) [OF tables_ok_D(1) [OF t]] hash_tid_less [OF tid] by simp
  have h: "hash_ok (fa_table st ! tid)"
    using tables_ok_D(2) [OF t tid] .
  then have off: "ft_offset (fa_table st ! tid) \<noteq> 0"
    by (simp add: hash_ok_def)
  have "{j. used_at (fa_table st ! tid) j} \<noteq> {}"
    using used by auto
  then have u: "ft_used (fa_table st ! tid) \<noteq> 0"
    using h by (auto simp: hash_ok_def shape_ok_def)
  let ?st1 = "efx_writeo (0, 0) (entry_addr (fa_table st ! tid) i)
    (upd_table tid (\<lambda>t. t\<lparr>ft_used_bitmap := (ft_used_bitmap t)[i := False], ft_used := ft_used t - 1,
       ft_spec := (ft_spec t)[i := zero_farch_spec]\<rparr>) st)"
  let ?st' = "if ft_used (fa_table st ! tid) = 1
    then upd_table tid (\<lambda>t. t\<lparr>ft_search_limit := replicate EFX_FARCH_FILTER_TYPE_COUNT 0\<rparr>) ?st1 else ?st1"
  have "efx_farch_filter_table_clear_entry tid i st =
    Some (if ft_used (fa_table st ! tid) = 1 then push_for tid ?st' else ?st')"
    using off u len by (simp add: efx_farch_filter_table_clear_entry_def Let_def push_for_def)
  moreover have "fa_table ?st' = (fa_table st)[tid := take_table i (fa_table st ! tid)]"
    using len by (simp add: take_table_def)
  moreover have "fa_mem ?st' = (fa_mem st)(entry_addr (fa_table st ! tid) i := (0, 0))"
    by simp
  ultimately show ?thesis
    by (intro exI [of _ ?st']) simp
qed

lemma clear_entry_farch_ok:
  assumes ok: "farch_ok st" and tid: "hash_tid tid" and used: "used_at (fa_table st ! tid) i"
  shows "\<exists>st'. efx_farch_filter_table_clear_entry tid i st = Some st' \<and> farch_ok st' \<and>
    fa_table st' = (fa_table st)[tid := take_table i (fa_table st ! tid)]"
proof -
  let ?t = "fa_table st ! tid"
  have t: "tables_ok (fa_table st)" and m: "mem_ok st"
    and r: "regs_ok (fa_table st) (fa_rx_filter_ctl st) (fa_tx_cfg st)"
    using ok by (auto simp: farch_ok_def)
  have h: "hash_ok ?t"
    using tables_ok_D(2) [OF t tid] .
  obtain st' where st': "efx_farch_filter_table_clear_entry tid i st = Some (if ft_used ?t = 1 then push_for tid st' else st')"
    "fa_table st' = (fa_table st)[tid := take_table i ?t]" "fa_mem st' = (fa_mem st)(entry_addr ?t i := (0, 0))"
    "fa_rx_filter_ctl st' = fa_rx_filter_ctl st" "fa_tx_cfg st' = fa_tx_cfg st"
    using clear_entry_Some [OF t tid used] by blast
  have sh: "table_shape (take_table i ?t) = table_shape ?t"
    by (simp add: table_shape_def)
  have t': "tables_ok (fa_table st')"
    unfolding st'(2) by (rule tables_ok_update [OF t tid hash_ok_take [OF h used] sh])
  have m': "mem_ok st'"
  proof (rule mem_ok_update [OF t m tid sh st'(2), of "{i}"])
    fix j
    assume "j \<notin> {i}"
    then show "table_mem (take_table i ?t) j = table_mem ?t j"
      by (simp add: table_mem_def take_table_def)
  next
    fix j
    assume "j \<in> {i}"
    then show "fa_mem st' (entry_addr (take_table i ?t) j) = table_mem (take_table i ?t) j"
      using used h by (simp add: st' entry_addr_def table_mem_def take_table_def used_at_def hash_ok_def shape_ok_D)
  qed (use used in \<open>auto simp: st' entry_addr_def used_at_def\<close>)
  show ?thesis
  proof (cases "ft_used ?t = 1")
    case True
    have "farch_ok (push_for tid st')"
      using t' m' regs_ok_push [OF t tables_ok_push_ok [OF t'] r tid st'(2,4,5)] by (simp add: farch_ok_def mem_ok_def)
    with st' True show ?thesis by simp
  next
    case False
    then have "regs_ok (fa_table st') (fa_rx_filter_ctl st') (fa_tx_cfg st')"
      unfolding st' by (intro regs_ok_same_limits [OF t r tid]) (simp add: take_table_def)
    with st' False t' m' show ?thesis by (simp add: farch_ok_def)
  qed
qed

subsection \<open>Inserting an entry\<close>

text \<open>The first part of \<open>insert_commit\<close> on a hash table; what is left is to clear the filter replaced.\<close>

definition place_table :: "farch_spec \<Rightarrow> nat \<Rightarrow> nat option \<Rightarrow> nat \<Rightarrow> farch_table \<Rightarrow> farch_table" where
  "place_table s ins rep depth t = t\<lparr>
     ft_used_bitmap := (if rep = Some ins then ft_used_bitmap t else (ft_used_bitmap t)[ins := True]),
     ft_used := (if rep = Some ins then ft_used t else ft_used t + 1),
     ft_spec := (ft_spec t)[ins := s],
     ft_search_limit := (if ft_search_limit t ! fs_type s < depth then (ft_search_limit t)[fs_type s := depth]
       else ft_search_limit t)\<rparr>"

lemma place_table_same [simp]:
  "ft_id (place_table s ins rep depth t) = ft_id t" "ft_offset (place_table s ins rep depth t) = ft_offset t"
  "ft_size (place_table s ins rep depth t) = ft_size t" "ft_step (place_table s ins rep depth t) = ft_step t"
  by (simp_all add: place_table_def)

lemma insert_commit_place:
  assumes t: "tables_ok (fa_table st)" and tid: "hash_tid tid"
    and r: "regs_ok (fa_table st) (fa_rx_filter_ctl st) (fa_tx_cfg st)"
    and f: "0 < depth" "depth \<le> EFX_FARCH_FILTER_CTL_SRCH_MAX"
    and s: "efx_farch_filter_spec_table_id s = tid" "fs_type s < EFX_FARCH_FILTER_TYPE_COUNT"
  shows "\<exists>st'. insert_commit tid s ins rep depth entry st =
      (case rep of Some r \<Rightarrow> if r \<noteq> ins then efx_farch_filter_table_clear_entry tid r st' else Some st' | None \<Rightarrow> Some st') \<and>
    fa_table st' = (fa_table st)[tid := place_table s ins rep depth (fa_table st ! tid)] \<and>
    fa_mem st' = (fa_mem st)(entry_addr (fa_table st ! tid) ins := entry) \<and>
    regs_ok (fa_table st') (fa_rx_filter_ctl st') (fa_tx_cfg st')"
proof -
  let ?t = "fa_table st ! tid" and ?p = "place_table s ins rep depth (fa_table st ! tid)"
  have len: "tid < length (fa_table st)" "length (fa_table st) = 5" "ft_id ?t = tid"
    using geometry_nth(1,2) [OF tables_ok_D(1) [OF t]] hash_tid_less [OF tid] by simp_all
  have h: "hash_ok ?t"
    using tables_ok_D(2) [OF t tid] .
  have tx: "has_flag (fs_flags s) EFX_FILTER_FLAG_TX \<longleftrightarrow> tid \<ge> 3"
    using s by (cases "has_flag (fs_flags s) EFX_FILTER_FLAG_TX") (simp_all add: efx_farch_filter_spec_table_id_def)
  let ?put = "\<lambda>st. upd_table tid (\<lambda>t. t\<lparr>ft_spec := (ft_spec t)[ins := s]\<rparr>)
    (if rep = Some ins then st else upd_table tid (\<lambda>t. t\<lparr>ft_used_bitmap := (ft_used_bitmap t)[ins := True],
       ft_used := ft_used t + 1\<rparr>) st)"
  let ?lim = "upd_table tid (\<lambda>t. t\<lparr>ft_search_limit := (ft_search_limit t)[fs_type s := depth]\<rparr>)"
  let ?pushed = "ft_search_limit ?t ! fs_type s < depth"
  let ?st = "if ?pushed then push_for tid (?lim (?put st)) else ?put st"
  let ?st' = "efx_writeo entry (entry_addr ?t ins) ?st"
  have neq: "tid \<noteq> 2"
    using tid by (auto simp: hash_tid_def)
  have tab: "fa_table (if ?pushed then ?lim (?put st) else ?put st) = (fa_table st)[tid := ?p]"
    using len by (simp add: place_table_def)
  have ent: "entry_addr ((fa_table (?put st)) ! tid) ins = entry_addr ?t ins"
    using len by (simp add: entry_addr_def)
  have "insert_commit tid s ins rep depth entry st =
      (case rep of Some r \<Rightarrow> if r \<noteq> ins then efx_farch_filter_table_clear_entry tid r ?st' else Some ?st' | None \<Rightarrow> Some ?st')"
    unfolding insert_commit_def Let_def push_for_def
    by (cases rep; cases ?pushed) (use len neq tx ent in \<open>auto simp: entry_addr_def\<close>)
  moreover have "fa_table ?st' = (fa_table st)[tid := ?p]"
    using tab by (cases ?pushed) simp_all
  moreover have "fa_mem ?st' = (fa_mem st)(entry_addr ?t ins := entry)"
    by simp
  moreover have "regs_ok (fa_table ?st') (fa_rx_filter_ctl ?st') (fa_tx_cfg ?st')"
  proof (cases ?pushed)
    case False
    have "regs_ok ((fa_table st)[tid := ?p]) (fa_rx_filter_ctl st) (fa_tx_cfg st)"
      by (rule regs_ok_same_limits [OF t r tid]) (use False in \<open>simp add: place_table_def\<close>)
    then show ?thesis
      using False tab by (cases "rep = Some ins") simp_all
  next
    case True
    have lims: "ft_search_limit ?p = (ft_search_limit ?t)[fs_type s := depth]"
      using True by (simp add: place_table_def)
    have "push_ok ((fa_table st)[tid := ?p])"
      unfolding push_ok_def
    proof (intro conjI allI impI)
      have "map table_shape ((fa_table st)[tid := ?p]) = (map table_shape (fa_table st))[tid := map table_shape (fa_table st) ! tid]"
        using len by (simp add: map_update table_shape_def)
      then show "map table_shape ((fa_table st)[tid := ?p]) = geometry"
        using tables_ok_D(1) [OF t] by simp
      show "def_ok ((fa_table st)[tid := ?p] ! 2)"
        using tables_ok_D(3) [OF t] neq by simp
      fix k ty
      assume k: "hash_tid k" "ty < EFX_FARCH_FILTER_TYPE_COUNT"
      show "ft_search_limit ((fa_table st)[tid := ?p] ! k) ! ty \<le> EFX_FARCH_FILTER_CTL_SRCH_MAX"
        using hash_ok_limit [OF tables_ok_D(2) [OF t k(1)] k(2)] f len lims k(2) h
        by (cases "k = tid"; cases "ty = fs_type s") (auto simp: nth_list_update hash_ok_def shape_ok_D)
    qed
    then have "regs_ok (fa_table (?lim (?put st))) (fa_rx_filter_ctl (push_for tid (?lim (?put st))))
        (fa_tx_cfg (push_for tid (?lim (?put st))))"
      by (intro regs_ok_push [OF t _ r tid, of _ ?p]) (use True tab in simp_all)
    with True show ?thesis by simp
  qed
  ultimately show ?thesis by blast
qed

text \<open>The whole of it: the filter is in, the one it replaces is out.\<close>

lemma insert_commit_hash:
  assumes ok: "farch_ok st" and tid: "hash_tid tid"
    and f: "found (fa_table st ! tid) s ins rep depth"
    and s: "efx_farch_filter_spec_table_id s = tid" "fs_type s < EFX_FARCH_FILTER_TYPE_COUNT" "plain s"
  shows "\<exists>st'. insert_commit tid s ins rep depth (spec_entry s) st = Some st' \<and> farch_ok st' \<and>
    fa_table st' = (fa_table st)[tid := put_table s ins rep depth (fa_table st ! tid)]"
proof -
  let ?t = "fa_table st ! tid" and ?put = "put_table s ins rep depth (fa_table st ! tid)"
    and ?place = "place_table s ins rep depth (fa_table st ! tid)"
  have t: "tables_ok (fa_table st)" and m: "mem_ok st"
    and r: "regs_ok (fa_table st) (fa_rx_filter_ctl st) (fa_tx_cfg st)"
    using ok by (auto simp: farch_ok_def)
  have len: "tid < length (fa_table st)" "ft_id ?t = tid"
    using geometry_nth(1,2) [OF tables_ok_D(1) [OF t]] hash_tid_less [OF tid] by simp_all
  have h: "hash_ok ?t"
    using tables_ok_D(2) [OF t tid] .
  then have D: "shape_ok ?t" "ft_offset ?t \<noteq> 0"
    by (simp_all add: hash_ok_def)
  have ins: "ins < ft_size ?t"
    using f by (simp add: found_def)
  have depth: "0 < depth" "depth \<le> EFX_FARCH_FILTER_CTL_SRCH_MAX"
    using f by (simp_all add: found_def)
  have put_ok: "hash_ok ?put"
    by (rule hash_ok_put [OF h f]) (use s len in simp_all)
  have sh: "table_shape ?put = table_shape ?t"
    by (simp add: table_shape_def)
  have t': "tables_ok ((fa_table st)[tid := ?put])"
    by (rule tables_ok_update [OF t tid put_ok sh])
  obtain st1 where st1: "insert_commit tid s ins rep depth (spec_entry s) st =
      (case rep of Some r \<Rightarrow> if r \<noteq> ins then efx_farch_filter_table_clear_entry tid r st1 else Some st1 | None \<Rightarrow> Some st1)"
    "fa_table st1 = (fa_table st)[tid := ?place]"
    "fa_mem st1 = (fa_mem st)(entry_addr ?t ins := spec_entry s)"
    "regs_ok (fa_table st1) (fa_rx_filter_ctl st1) (fa_tx_cfg st1)"
    using insert_commit_place [OF t tid r depth s(1,2), of ins rep "spec_entry s"] by blast
  have regs: "regs_ok ((fa_table st)[tid := ?put]) (fa_rx_filter_ctl st1) (fa_tx_cfg st1)"
    using st1(4) regs_ok_update [of "(fa_table st)[tid := ?place]" tid ?put] len tid
      geometry_nth(1) [OF tables_ok_D(1) [OF t]]
    by (simp add: st1(2) put_table_def place_table_def)
  show ?thesis
  proof (cases "rep = None \<or> rep = Some ins")
    case True
    have eq: "?place = ?put"
      using True by (auto simp: place_table_def put_table_def)
    have "insert_commit tid s ins rep depth (spec_entry s) st = Some st1"
      using True st1(1) by auto
    moreover have "mem_ok st1"
    proof (rule mem_ok_update [OF t m tid sh, of _ "{ins}"])
      show "fa_table st1 = (fa_table st)[tid := ?put]"
        using st1(2) eq by simp
    next
      fix j
      assume "j \<notin> {ins}"
      then show "table_mem ?put j = table_mem ?t j"
        using True by (auto simp: table_mem_def put_table_def)
    next
      fix j
      assume "j \<in> {ins}"
      then show "fa_mem st1 (entry_addr ?put j) = table_mem ?put j"
        using True ins f shape_ok_D [OF D(1)]
        by (auto simp: st1 entry_addr_def table_mem_def put_table_def found_def used_at_def)
    qed (use ins in \<open>auto simp: st1 entry_addr_def\<close>)
    ultimately show ?thesis
      using st1 eq t' regs by (simp add: farch_ok_def)
  next
    case False
    then obtain r where r: "rep = Some r" "r \<noteq> ins"
      by auto
    with f have ru: "used_at ?t r" "\<not> used_at ?t ins"
      by (auto simp: found_def)
    then have "{j. used_at ?t j} \<noteq> {}"
      by auto
    then have u: "ft_used ?t \<noteq> 0"
      using D(1) by (auto simp: shape_ok_def)
    let ?st' = "efx_writeo (0, 0) (entry_addr ?place r)
      (upd_table tid (\<lambda>t. t\<lparr>ft_used_bitmap := (ft_used_bitmap t)[r := False], ft_used := ft_used t - 1,
         ft_spec := (ft_spec t)[r := zero_farch_spec]\<rparr>) st1)"
    have "efx_farch_filter_table_clear_entry tid r st1 = Some ?st'"
      using D(2) u len r by (simp add: efx_farch_filter_table_clear_entry_def Let_def st1(2) place_table_def)
    then have "insert_commit tid s ins rep depth (spec_entry s) st = Some ?st'"
      using st1(1) r by simp
    moreover have rec: "?place\<lparr>ft_used_bitmap := (ft_used_bitmap ?place)[r := False], ft_used := ft_used ?place - 1,
        ft_spec := (ft_spec ?place)[r := zero_farch_spec]\<rparr> = ?put"
      by (rule farch_table.equality) (use r in \<open>simp_all add: place_table_def put_table_def\<close>)
    moreover have tab: "fa_table ?st' = (fa_table st)[tid := ?put]"
      using len rec by (simp add: st1(2))
    moreover have "mem_ok ?st'"
    proof (rule mem_ok_update [OF t m tid sh tab, of "{ins, r}"])
      fix j
      assume "j \<notin> {ins, r}"
      then show "table_mem ?put j = table_mem ?t j"
        using r by (auto simp: table_mem_def put_table_def)
    next
      fix j
      assume j: "j \<in> {ins, r}"
      have "entry_addr ?t ins \<noteq> entry_addr ?t r"
        using entry_addr_inj [OF tables_ok_D(1) [OF t] tid tid] r ru ins by (auto simp: used_at_def)
      with j r ru ins show "fa_mem ?st' (entry_addr ?put j) = table_mem ?put j"
        using shape_ok_D [OF D(1)]
        by (auto simp: st1 entry_addr_def table_mem_def put_table_def used_at_def)
    qed (use ins ru in \<open>auto simp: st1 entry_addr_def used_at_def\<close>)
    ultimately show ?thesis
      using t' regs by (simp add: farch_ok_def)
  qed
qed

end
