(* ===== verification/Farch_Ops.thy ===== *)
theory Farch_Ops
  imports Farch_State
begin

unbundle bit_operations_syntax

section \<open>The operations on filters preserve the invariant and act as on a map\<close>

subsection \<open>Flags\<close>

lemma has_flag_or: "has_flag (a OR b) f \<longleftrightarrow> has_flag a f \<or> has_flag b f"
proof -
  have "(a OR b) AND f = (a AND f) OR (b AND f)"
    by (rule bit_eqI) (auto simp: bit_simps)
  then show ?thesis
    by (auto simp: has_flag_def or_eq_0_iff)
qed

lemma over_auto_flags [simp]:
  "has_flag (f OR EFX_FILTER_FLAG_RX_OVER_AUTO) EFX_FILTER_FLAG_TX = has_flag f EFX_FILTER_FLAG_TX"
  "has_flag (f OR EFX_FILTER_FLAG_RX_OVER_AUTO) EFX_FILTER_FLAG_RX = has_flag f EFX_FILTER_FLAG_RX"
  "has_flag (f OR EFX_FILTER_FLAG_RX_OVER_AUTO) EFX_FILTER_FLAG_RX_RSS = has_flag f EFX_FILTER_FLAG_RX_RSS"
  "has_flag (f OR EFX_FILTER_FLAG_RX_OVER_AUTO) EFX_FILTER_FLAG_RX_SCATTER = has_flag f EFX_FILTER_FLAG_RX_SCATTER"
  "has_flag (f OR EFX_FILTER_FLAG_RX_OVER_AUTO) EFX_FILTER_FLAG_RX_OVER_AUTO"
  by (simp_all add: has_flag_or) (simp_all add: has_flag_def)

text \<open>A filter with other flags, but the same direction.\<close>

definition same_filter :: "farch_spec \<Rightarrow> farch_spec \<Rightarrow> bool" where
  "same_filter s s' \<longleftrightarrow> fs_type s = fs_type s' \<and> fs_data s = fs_data s' \<and>
     has_flag (fs_flags s) EFX_FILTER_FLAG_TX = has_flag (fs_flags s') EFX_FILTER_FLAG_TX \<and>
     (has_flag (fs_flags s) EFX_FILTER_FLAG_TX \<longrightarrow> fs_dmaq_id s = fs_dmaq_id s')"

lemma same_filter_id: "same_filter s s' \<Longrightarrow> efx_farch_filter_spec_table_id s = efx_farch_filter_spec_table_id s'"
  by (simp add: same_filter_def efx_farch_filter_spec_table_id_def)

lemma same_filter_fkey: "same_filter s s' \<Longrightarrow> fkey s = fkey s'"
  using same_filter_id [of s s'] by (auto simp: fkey_def same_filter_def)

lemma found_same_filter:
  assumes "found t s ins rep depth" and "same_filter s s'" and "fs_type s < EFX_FARCH_FILTER_TYPE_COUNT"
  shows "found t s' ins rep depth"
  using assms same_filter_fkey [OF assms(2)] fkey_slot [OF same_filter_fkey [OF assms(2)] assms(3)]
  by (cases rep) (simp_all add: found_def)

subsection \<open>The map of filters\<close>

lemma filters_update:
  assumes len: "length (fa_table st) = 5" and tid: "fst k = tid" "tid < 5"
    and tab: "fa_table st' = (fa_table st)[tid := t']" and l: "lookup t' = (lookup (fa_table st ! tid))(k := v)"
  shows "filters st' = (filters st)(k := v)"
proof
  fix k'
  show "filters st' k' = ((filters st)(k := v)) k'"
    using assms by (cases "fst k' = tid") (auto simp: filters_def)
qed

lemma filters_frame [simp]:
  "filters (efx_farch_filter_push_rx_config st) = filters st"
  "filters (efx_farch_filter_push_tx_limits st) = filters st"
  "filters (efx_writeo w a st) = filters st"
  by (rule ext, simp add: filters_def)+

lemma def_uniq:
  assumes "def_ok t" and "ft_size t = 2"
  shows "\<forall>i j. used_at t i \<longrightarrow> used_at t j \<longrightarrow> fkey (ft_spec t ! i) = fkey (ft_spec t ! j) \<longrightarrow> i = j"
  using assms by (auto simp: used_at_def def_ok_def def_spec_ok_def fkey_def)

lemma used_at_def_table:
  assumes "def_ok t" and "ft_size t = 2"
  shows "used_at t i \<longleftrightarrow> i < 2"
  using assms by (auto simp: used_at_def def_ok_def less_2_cases_iff nth_Cons')

lemma lookup_def_table:
  assumes "def_ok t" and "ft_size t = 2"
  shows "lookup t k = Some s \<longleftrightarrow> (\<exists>i < 2. ft_spec t ! i = s \<and> fkey s = k)"
  using lookup_Some [OF def_uniq [OF assms]] used_at_def_table [OF assms] by auto

lemma fkey_def_spec: "def_spec_ok i s \<Longrightarrow> i < 2 \<Longrightarrow> fkey s = (2, 8 + i, (0, 0, 0), 0)"
  by (auto simp: def_spec_ok_def fkey_def efx_farch_filter_spec_table_id_def)

subsection \<open>A default filter is replaced\<close>

definition set_spec :: "nat \<Rightarrow> nat \<Rightarrow> farch_spec \<Rightarrow> farch \<Rightarrow> farch" where
  "set_spec tid i s st = upd_table tid (\<lambda>t. t\<lparr>ft_spec := (ft_spec t)[i := s]\<rparr>) st"

lemma set_def:
  assumes ok: "farch_ok st" and i: "i < 2" and s: "def_spec_ok i s"
  shows "tables_ok (fa_table (set_spec 2 i s st))" "mem_ok (set_spec 2 i s st)"
    "farch_ok (efx_farch_filter_push_rx_config (set_spec 2 i s st))"
    "filters (set_spec 2 i s st) = (filters st)(fkey s := Some s)"
proof -
  let ?t = "fa_table st ! 2"
  let ?t' = "?t\<lparr>ft_spec := (ft_spec ?t)[i := s]\<rparr>"
  have t: "tables_ok (fa_table st)" and m: "mem_ok st"
    and r: "regs_ok (fa_table st) (fa_rx_filter_ctl st) (fa_tx_cfg st)"
    using ok by (auto simp: farch_ok_def)
  note g = geometry_nth [OF tables_ok_D(1) [OF t]]
  have tab: "fa_table (set_spec 2 i s st) = (fa_table st)[2 := ?t']"
    by (simp add: set_spec_def)
  have def: "def_ok ?t" "ft_size ?t = 2"
    using tables_ok_D(3) [OF t] g by simp_all
  then have def': "def_ok ?t'" "ft_size ?t' = 2"
    using s i by (auto simp: def_ok_def nth_list_update)
  have "map table_shape ((fa_table st)[2 := ?t']) = (map table_shape (fa_table st))[2 := map table_shape (fa_table st) ! 2]"
    using g(1) by (simp add: map_update table_shape_def)
  then have shape: "map table_shape ((fa_table st)[2 := ?t']) = geometry"
    using tables_ok_D(1) [OF t] by simp
  have neq: "hash_tid k \<Longrightarrow> k \<noteq> 2" for k
    by (auto simp: hash_tid_def)
  show t': "tables_ok (fa_table (set_spec 2 i s st))"
    unfolding tab tables_ok_def using shape tables_ok_D(2) [OF t] def' g(1) neq by (auto simp: nth_list_update)
  show m': "mem_ok (set_spec 2 i s st)"
    using m neq g(1) unfolding mem_ok_def tab by (auto simp: set_spec_def nth_list_update)
  show "farch_ok (efx_farch_filter_push_rx_config (set_spec 2 i s st))"
    by (rule push_rx_farch_ok [OF t' m']) (use r in \<open>simp add: set_spec_def regs_ok_def\<close>)
  have l: "lookup ?t' = (lookup ?t)(fkey s := Some s)"
  proof
    fix k
    have old: "fkey (ft_spec ?t ! j) = (2, 8 + j, (0, 0, 0), 0)" if "j < 2" for j
      using def(1) that by (intro fkey_def_spec) (auto simp: def_ok_def)
    have "lookup ?t' k = Some x \<longleftrightarrow> ((lookup ?t)(fkey s := Some s)) k = Some x" for x
    proof (cases "k = fkey s")
      case True
      have "(\<exists>j < 2. ft_spec ?t' ! j = x \<and> fkey x = k) \<longleftrightarrow> x = s"
        using def old i True fkey_def_spec [OF s i]
        by (auto simp: def_ok_def nth_list_update intro!: exI [of _ i] split: if_splits)
      then show ?thesis
        unfolding lookup_def_table [OF def'] using True by auto
    next
      case False
      have "ft_spec ?t' ! j = x \<and> fkey x = k \<longleftrightarrow> ft_spec ?t ! j = x \<and> fkey x = k" if "j < 2" for j
        using def old [OF that] i False fkey_def_spec [OF s i] by (auto simp: def_ok_def nth_list_update)
      then have "(\<exists>j < 2. ft_spec ?t' ! j = x \<and> fkey x = k) \<longleftrightarrow> (\<exists>j < 2. ft_spec ?t ! j = x \<and> fkey x = k)"
        by blast
      then show ?thesis
        using False by (simp add: lookup_def_table [OF def'] lookup_def_table [OF def])
    qed
    then show "lookup ?t' k = ((lookup ?t)(fkey s := Some s)) k"
      by (metis not_Some_eq)
  qed
  show "filters (set_spec 2 i s st) = (filters st)(fkey s := Some s)"
    by (rule filters_update [OF g(1) _ _ tab l]) (simp_all add: fkey_def_spec [OF s i])
qed

subsection \<open>A filter of a hash table is rewritten in place\<close>

lemma found_self:
  assumes t: "hash_ok t" and i: "used_at t i" and k: "fkey (ft_spec t ! i) = fkey s"
  shows "found t s i (Some i) (ft_search_limit t ! fs_type s)"
proof -
  have e: "entry_ok t i (ft_spec t ! i)"
    using t i by (simp add: hash_ok_def)
  then obtain d where d: "0 < d" "d \<le> ft_search_limit t ! fs_type s" "i = spec_slot (ft_size t) s d"
    using k fkey_slot [OF k] by (auto simp: entry_ok_def fkey_def)
  moreover have "fs_type s < EFX_FARCH_FILTER_TYPE_COUNT"
    using e k by (auto simp: entry_ok_def fkey_def)
  ultimately show ?thesis
    using i k t hash_ok_limit [OF t] by (auto simp: found_def used_at_def)
qed

lemma set_hash:
  assumes ok: "farch_ok st" and tid: "hash_tid tid" and i: "used_at (fa_table st ! tid) i"
    and k: "same_filter (ft_spec (fa_table st ! tid) ! i) s" and q: "plain s"
  shows "farch_ok (efx_writeo (spec_entry s) (entry_addr (fa_table st ! tid) i) (set_spec tid i s st))"
    "filters (set_spec tid i s st) = (filters st)(fkey s := Some s)"
    "efx_farch_filter_spec_table_id s = tid"
proof -
  let ?t = "fa_table st ! tid"
  have t: "tables_ok (fa_table st)"
    using ok by (simp add: farch_ok_def)
  note g = geometry_nth [OF tables_ok_D(1) [OF t]]
  have h: "hash_ok ?t"
    using tables_ok_D(2) [OF t tid] .
  have e: "entry_ok ?t i (ft_spec ?t ! i)"
    using h i by (simp add: hash_ok_def)
  have s: "efx_farch_filter_spec_table_id s = tid" "fs_type s < EFX_FARCH_FILTER_TYPE_COUNT"
    using e k same_filter_id [OF k] g(2) [of tid] hash_tid_less [OF tid] by (auto simp: entry_ok_def same_filter_def)
  show "efx_farch_filter_spec_table_id s = tid"
    by (rule s)
  have f: "found ?t s i (Some i) (ft_search_limit ?t ! fs_type s)"
    by (rule found_self [OF h i same_filter_fkey [OF k]])
  have put: "put_table s i (Some i) (ft_search_limit ?t ! fs_type s) ?t = ?t\<lparr>ft_spec := (ft_spec ?t)[i := s]\<rparr>"
    by (simp add: put_table_def)
  have len: "tid < length (fa_table st)" "ft_id ?t = tid" "tid \<noteq> 2"
    using g(1,2) hash_tid_less [OF tid] tid by (auto simp: hash_tid_def)
  have "insert_commit tid s i (Some i) (ft_search_limit ?t ! fs_type s) (spec_entry s) st =
      Some (efx_writeo (spec_entry s) (entry_addr ?t i) (set_spec tid i s st))"
    using len by (simp add: insert_commit_def Let_def set_spec_def entry_addr_def)
  with insert_commit_hash [OF ok tid f s q]
  show "farch_ok (efx_writeo (spec_entry s) (entry_addr ?t i) (set_spec tid i s st))"
    by simp
  have "lookup (?t\<lparr>ft_spec := (ft_spec ?t)[i := s]\<rparr>) = (lookup ?t)(fkey s := Some s)"
    using lookup_put [OF h f _ s(2) q] s(1) len unfolding put by simp
  then show "filters (set_spec tid i s st) = (filters st)(fkey s := Some s)"
    by (intro filters_update [OF g(1)]) (use s hash_tid_less [OF tid] in \<open>simp_all add: set_spec_def fkey_def\<close>)
qed

subsection \<open>Specifications of filters\<close>

definition farch_type :: "nat \<Rightarrow> bool" where
  "farch_type ty \<longleftrightarrow> ty < 6 \<or> ty = EFX_FARCH_FILTER_UC_DEF \<or> ty = EFX_FARCH_FILTER_MC_DEF"

text \<open>What the operations assume of a generic specification.\<close>

definition gen_ok :: "efx_filter_spec \<Rightarrow> bool" where
  "gen_ok g \<longleftrightarrow> unat (gs_dmaq_id g) < 4096 \<and> \<not> has_flag (gs_flags g) EFX_FILTER_FLAG_RX_OVER_AUTO \<and>
     (if gs_match_flags g = EFX_FILTER_MATCH_LOC_MAC_IG then \<not> has_flag (gs_flags g) EFX_FILTER_FLAG_TX
      else gs_priority g mod 16 \<noteq> EFX_FILTER_PRI_AUTO)"

lemma match_distinct:
  "MATCH_IP_FULL \<noteq> EFX_FILTER_MATCH_LOC_MAC_IG" "MATCH_IP_WILD \<noteq> EFX_FILTER_MATCH_LOC_MAC_IG"
  "MATCH_MAC_FULL \<noteq> EFX_FILTER_MATCH_LOC_MAC_IG" "MATCH_IP_WILD \<noteq> MATCH_IP_FULL"
  "MATCH_MAC_FULL \<noteq> MATCH_IP_FULL" "MATCH_MAC_FULL \<noteq> MATCH_IP_WILD"
  "EFX_FILTER_MATCH_LOC_MAC \<noteq> MATCH_IP_FULL" "EFX_FILTER_MATCH_LOC_MAC \<noteq> MATCH_IP_WILD"
  "EFX_FILTER_MATCH_LOC_MAC \<noteq> MATCH_MAC_FULL"
  by (simp_all add: MATCH_IP_FULL_def MATCH_IP_WILD_def MATCH_MAC_FULL_def)

lemma from_gen_ip_type: "from_gen_ip g full = Inr (ty, d) \<Longrightarrow> ty < 4"
  by (auto simp: from_gen_ip_def Let_def split: if_splits prod.splits)

lemma from_gen_spec_props:
  assumes "efx_farch_filter_from_gen_spec g = Inr s"
  shows "fs_priority s = gs_priority g mod 16" "fs_flags s = gs_flags g" "fs_dmaq_id s = gs_dmaq_id g"
    "farch_type (fs_type s)"
    "fs_type s \<ge> 6 \<Longrightarrow> gs_match_flags g = EFX_FILTER_MATCH_LOC_MAC_IG \<and> fs_data s = (0, 0, 0)"
  using assms
  by (auto simp: efx_farch_filter_from_gen_spec_def Let_def farch_type_def from_gen_mac_def match_distinct
      map_sum_def split: if_splits sum.splits prod.splits dest!: from_gen_ip_type)

lemma spec_table_hash: "fs_type s < 8 \<Longrightarrow> hash_tid (efx_farch_filter_spec_table_id s)"
  by (auto simp: efx_farch_filter_spec_table_id_def hash_tid_def)

lemma farch_type_less: "farch_type ty \<Longrightarrow> ty < EFX_FARCH_FILTER_TYPE_COUNT"
  by (auto simp: farch_type_def)

lemma insert_check_same: "insert_check s old r = Inr s' \<Longrightarrow> same_filter s s' \<and> fs_dmaq_id s' = fs_dmaq_id s"
  by (auto simp: insert_check_def same_filter_def split: if_splits)

lemma build_flags [simp]:
  "build_ip (s\<lparr>fs_flags := f\<rparr>) = build_ip s" "build_mac (s\<lparr>fs_flags := f\<rparr>) = build_mac s"
  by (simp_all add: build_ip_def build_mac_def)

lemma entry_over_auto: "spec_entry (s\<lparr>fs_flags := fs_flags s OR EFX_FILTER_FLAG_RX_OVER_AUTO\<rparr>) = spec_entry s"
proof -
  obtain d0 d1 d2 where d: "fs_data s = (d0, d1, d2)"
    by (metis surj_pair)
  have id: "efx_farch_filter_spec_table_id (s\<lparr>fs_flags := fs_flags s OR EFX_FILTER_FLAG_RX_OVER_AUTO\<rparr>) =
      efx_farch_filter_spec_table_id s"
    by (simp add: efx_farch_filter_spec_table_id_def)
  have "efx_farch_filter_build (s\<lparr>fs_flags := fs_flags s OR EFX_FILTER_FLAG_RX_OVER_AUTO\<rparr>) = efx_farch_filter_build s"
    unfolding efx_farch_filter_build_def id by (simp add: d Let_def)
  then show ?thesis
    by (simp add: spec_entry_def)
qed

lemma insert_check_entry: "insert_check s old r = Inr s' \<Longrightarrow> spec_entry s' = spec_entry s"
  using entry_over_auto [of s] by (auto simp: insert_check_def split: if_splits)

lemma insert_check_over:
  "insert_check s old r = Inr s' \<Longrightarrow> fs_priority old = EFX_FILTER_PRI_AUTO \<or> has_flag (fs_flags old) EFX_FILTER_FLAG_RX_OVER_AUTO \<Longrightarrow>
   has_flag (fs_flags s') EFX_FILTER_FLAG_RX_OVER_AUTO"
  by (auto simp: insert_check_def split: if_splits)

subsection \<open>Insertion\<close>

text \<open>
  \<open>efx_farch_filter_insert\<close> on the map of filters: it fails, or the new filter is the one of its key.
  \<open>blocked\<close> and \<open>full\<close> are the two errors that do not depend on the map.
\<close>

definition blocked :: "efx_filter_spec \<Rightarrow> farch_spec \<Rightarrow> farch \<Rightarrow> bool" where
  "blocked g s st \<longleftrightarrow> fs_type s < 8 \<and> fs_priority s \<le> EFX_FILTER_PRI_AUTO \<and>
     (if efx_filter_is_mc_recipient g then fa_blocked_mcast st else fa_blocked_ucast st)"

definition max_depth :: "farch_spec \<Rightarrow> nat" where
  "max_depth s = (if fs_priority s \<le> EFX_FILTER_PRI_HINT then EFX_FARCH_FILTER_CTL_SRCH_HINT_MAX
     else EFX_FARCH_FILTER_CTL_SRCH_MAX)"

text \<open>Every slot that an insertion of the filter may use is taken.\<close>

definition full :: "farch_spec \<Rightarrow> farch \<Rightarrow> bool" where
  "full s st \<longleftrightarrow> fs_type s < 8 \<and> (let t = fa_table st ! efx_farch_filter_spec_table_id s in
     list_all (\<lambda>d. used_at t (spec_slot (ft_size t) s d)) [1..<max_depth s + 1])"

definition insert_new :: "farch_spec \<Rightarrow> bool \<Rightarrow> farch_spec option \<Rightarrow> int + farch_spec" where
  "insert_new s replace_equal old = (case old of None \<Rightarrow> Inr s | Some o' \<Rightarrow> insert_check s o' replace_equal)"

lemma insert_new_props:
  assumes "insert_new s r old = Inr s'"
  shows "same_filter s s' \<and> fs_dmaq_id s' = fs_dmaq_id s \<and> spec_entry s' = spec_entry s"
proof (cases old)
  case None
  with assms show ?thesis
    by (simp add: insert_new_def same_filter_def)
next
  case (Some o')
  then have "insert_check s o' r = Inr s'"
    using assms by (simp add: insert_new_def)
  then show ?thesis
    using insert_check_same insert_check_entry by blast
qed

text \<open>The slots with another key than that of the filter put in stay as they are.\<close>

definition others_stay :: "farch_spec \<Rightarrow> farch \<Rightarrow> farch \<Rightarrow> bool" where
  "others_stay s st st' \<longleftrightarrow> (\<forall>tid i. used_at (fa_table st ! tid) i \<longrightarrow> fkey (ft_spec (fa_table st ! tid) ! i) \<noteq> fkey s \<longrightarrow>
     used_at (fa_table st' ! tid) i \<and> ft_spec (fa_table st' ! tid) ! i = ft_spec (fa_table st ! tid) ! i)"

definition insert_post :: "efx_filter_spec \<Rightarrow> farch_spec \<Rightarrow> bool \<Rightarrow> farch \<Rightarrow> int \<times> farch \<Rightarrow> bool" where
  "insert_post g s replace_equal st res \<longleftrightarrow> (case res of (rc, st') \<Rightarrow>
     if blocked g s st then rc = - EPERM \<and> st' = st
     else rc = - EBUSY \<and> st' = st \<and> full s st \<and> filters st (fkey s) = None \<or>
       (case insert_new s replace_equal (filters st (fkey s)) of
          Inl e \<Rightarrow> rc = e \<and> st' = st
        | Inr s' \<Rightarrow> filters st' = (filters st)(fkey s := Some s') \<and> others_stay s st st' \<and>
            (\<exists>i. used_at (fa_table st' ! efx_farch_filter_spec_table_id s) i \<and>
               ft_spec (fa_table st' ! efx_farch_filter_spec_table_id s) ! i = s' \<and>
               rc = sint (efx_farch_filter_make_id s' i))))"

lemma filters_hash:
  assumes "tables_ok (fa_table st)" and "hash_tid (efx_farch_filter_spec_table_id s)"
  shows "filters st (fkey s) = lookup (fa_table st ! efx_farch_filter_spec_table_id s) (fkey s)"
  using geometry_nth(1) [OF tables_ok_D(1) [OF assms(1)]] hash_tid_less [OF assms(2)]
  by (simp add: filters_def fkey_def)

lemma lookup_None: "lookup t k = None \<longleftrightarrow> (\<forall>j. used_at t j \<longrightarrow> fkey (ft_spec t ! j) \<noteq> k)"
  using set_used_specs [of t] by (auto simp: lookup_def find_None_iff)

lemma lookup_found:
  assumes t: "hash_ok t" and f: "found t s ins rep depth"
  shows "lookup t (fkey s) = map_option (\<lambda>r. ft_spec t ! r) rep"
proof (cases rep)
  case None
  with f show ?thesis
    by (simp add: found_def lookup_None)
next
  case (Some r)
  with f show ?thesis
    by (auto simp: found_def lookup_hash [OF t])
qed

text \<open>A slot of another key is neither the one written nor the one given up.\<close>

lemma put_table_other:
  assumes "found t s ins rep depth" and "used_at t j" and "fkey (ft_spec t ! j) \<noteq> fkey s"
  shows "used_at (put_table s ins rep depth t) j \<and> ft_spec (put_table s ins rep depth t) ! j = ft_spec t ! j"
proof -
  have "j \<noteq> ins" "rep \<noteq> Some j"
    using assms by (cases rep; auto simp: found_def)+
  with assms(2) show ?thesis
    by (cases rep) (auto simp: put_table_def used_at_def)
qed

lemma insert_hash:
  assumes ok: "farch_ok st" and g: "efx_farch_filter_from_gen_spec g = Inr s" and ty: "fs_type s < 8"
    and q: "plain s"
  shows "\<exists>res. efx_farch_filter_insert g r st = Some res \<and> farch_ok (snd res) \<and> insert_post g s r st res"
proof -
  let ?tid = "efx_farch_filter_spec_table_id s"
  let ?t = "fa_table st ! ?tid"
  have tid: "hash_tid ?tid"
    by (rule spec_table_hash [OF ty])
  have t: "tables_ok (fa_table st)"
    using ok by (simp add: farch_ok_def)
  note geo = geometry_nth [OF tables_ok_D(1) [OF t]]
  have h: "hash_ok ?t"
    using tables_ok_D(2) [OF t tid] .
  have len: "?tid < length (fa_table st)" "ft_id ?t = ?tid" "?tid \<noteq> 2" "ft_size ?t \<noteq> 0"
    using geo(1,2) hash_tid_less [OF tid] tid h shape_ok_D(4) [of ?t] by (auto simp: hash_tid_def hash_ok_def)
  note bld = build_Some [OF tid]
  have search: "insert_search g s st = (if blocked g s st then Some (Inl (- EPERM))
      else Some (map_sum id (\<lambda>(ins, rep, depth). (ins, rep, depth, spec_entry s)) (search_for ?t s (max_depth s))))"
    unfolding insert_search_def Let_def bld search_for_def max_depth_def blocked_def using len ty by simp
  have mx: "max_depth s \<le> EFX_FARCH_FILTER_CTL_SRCH_MAX"
    by (simp add: max_depth_def)
  have ty': "fs_type s < EFX_FARCH_FILTER_TYPE_COUNT"
    using ty by simp
  note fl = filters_hash [OF t tid]
  show ?thesis
  proof (cases "blocked g s st")
    case True
    then have "efx_farch_filter_insert g r st = Some (- EPERM, st)"
      using len search g by (simp add: efx_farch_filter_insert_def Let_def)
    with True ok show ?thesis by (simp add: insert_post_def)
  next
    case nb: False
    show ?thesis
    proof (cases "search_for ?t s (max_depth s)")
      case (Inl rc)
      then have "efx_farch_filter_insert g r st = Some (rc, st)"
        using len search g nb by (simp add: efx_farch_filter_insert_def Let_def)
      moreover note search_for_full [OF h len(2) [symmetric] ty' mx Inl]
      moreover have "full s st"
        using calculation(4) ty by (auto simp: full_def list_all_iff Let_def)
      moreover have "filters st (fkey s) = None"
        using calculation(3) fl by (simp add: lookup_None)
      ultimately show ?thesis
        using ok nb by (simp add: insert_post_def)
    next
      case (Inr res)
      obtain ins rep depth where res: "res = (ins, rep, depth)"
        by (cases res) auto
      have f: "found ?t s ins rep depth"
        by (rule search_for_found [OF h len(2) [symmetric] ty' mx]) (use Inr res in simp)
      have old: "filters st (fkey s) = map_option (\<lambda>r. ft_spec ?t ! r) rep"
        using fl lookup_found [OF h f] by simp
      have new: "(case rep of None \<Rightarrow> Inr s | Some j \<Rightarrow> insert_check s (ft_spec ?t ! j) r) = insert_new s r (filters st (fkey s))"
        unfolding old by (cases rep) (simp_all add: insert_new_def)
      have ins: "efx_farch_filter_insert g r st = (case insert_new s r (filters st (fkey s)) of Inl rc \<Rightarrow> Some (rc, st)
          | Inr s' \<Rightarrow> map_option (Pair (sint (efx_farch_filter_make_id s' ins))) (insert_commit ?tid s' ins rep depth (spec_entry s) st))"
        using len search g nb Inr res new by (simp add: efx_farch_filter_insert_def Let_def)
      show ?thesis
      proof (cases "insert_new s r (filters st (fkey s))")
        case Inl
        with ins ok nb show ?thesis by (simp add: insert_post_def)
      next
        case (Inr s')
        have s': "same_filter s s'" "fs_dmaq_id s' = fs_dmaq_id s" "spec_entry s' = spec_entry s"
          using insert_new_props [OF Inr] by simp_all
        have "\<forall>r \<in> set_option rep. plain (ft_spec ?t ! r)"
          using f h by (auto simp: found_def hash_ok_def entry_ok_def)
        then have q': "plain s'"
          using Inr q by (cases rep) (auto simp: insert_new_def insert_check_def old plain_def split: if_splits)
        have f': "found ?t s' ins rep depth"
          by (rule found_same_filter [OF f s'(1) ty'])
        have props: "efx_farch_filter_spec_table_id s' = ?tid" "fs_type s' < EFX_FARCH_FILTER_TYPE_COUNT" "plain s'"
          using same_filter_id [OF s'(1)] s' q' ty' by (simp_all add: same_filter_def)
        obtain st' where st': "insert_commit ?tid s' ins rep depth (spec_entry s') st = Some st'" "farch_ok st'"
          "fa_table st' = (fa_table st)[?tid := put_table s' ins rep depth ?t]"
          using insert_commit_hash [OF ok tid f' props] by blast
        have "lookup (put_table s' ins rep depth ?t) = (lookup ?t)(fkey s := Some s')"
          using lookup_put [OF h f' _ props(2,3)] props(1) len same_filter_fkey [OF s'(1)] by simp
        then have "filters st' = (filters st)(fkey s := Some s')"
          by (intro filters_update [OF geo(1) _ _ st'(3)]) (use hash_tid_less [OF tid] in \<open>simp_all add: fkey_def\<close>)
        moreover have "used_at (put_table s' ins rep depth ?t) ins"
          using used_at_put [OF _ f'] h by (simp add: hash_ok_def)
        moreover have "ft_spec (put_table s' ins rep depth ?t) ! ins = s'"
          using f' h shape_ok_D(2) [of ?t] by (cases rep) (auto simp: hash_ok_def put_table_def found_def)
        moreover have "others_stay s st st'"
        proof -
          have "used_at (fa_table st' ! k) j \<and> ft_spec (fa_table st' ! k) ! j = ft_spec (fa_table st ! k) ! j"
            if "used_at (fa_table st ! k) j" "fkey (ft_spec (fa_table st ! k) ! j) \<noteq> fkey s" for k j
            using that put_table_other [OF f', of j] same_filter_fkey [OF s'(1)] len(1) unfolding st'(3)
            by (cases "k = ?tid") auto
          then show ?thesis
            by (simp add: others_stay_def)
        qed
        ultimately have "insert_post g s r st (sint (efx_farch_filter_make_id s' ins), st')"
          using Inr nb len(1) by (auto simp: insert_post_def st'(3))
        moreover have "efx_farch_filter_insert g r st = Some (sint (efx_farch_filter_make_id s' ins), st')"
          using ins Inr st'(1) s'(3) by simp
        ultimately show ?thesis
          using st'(2) by auto
      qed
    qed
  qed
qed

lemma insert_def_filter:
  assumes ok: "farch_ok st" and g: "efx_farch_filter_from_gen_spec g = Inr s" and ty: "8 \<le> fs_type s"
    and gok: "gen_ok g"
  shows "\<exists>res. efx_farch_filter_insert g r st = Some res \<and> farch_ok (snd res) \<and> insert_post g s r st res"
proof -
  let ?t = "fa_table st ! 2" and ?i = "fs_type s - 8"
  have t: "tables_ok (fa_table st)"
    using ok by (simp add: farch_ok_def)
  note geo = geometry_nth [OF tables_ok_D(1) [OF t]]
  have s: "fs_type s = 8 + ?i" "?i < 2" "fs_data s = (0, 0, 0)" "\<not> has_flag (fs_flags s) EFX_FILTER_FLAG_TX"
    "unat (fs_dmaq_id s) < 4096"
    using from_gen_spec_props [OF g] gok ty by (auto simp: farch_type_def gen_ok_def)
  then have tid: "efx_farch_filter_spec_table_id s = 2"
    by (auto simp: efx_farch_filter_spec_table_id_def less_2_cases_iff)
  have k: "fkey s = (2, 8 + ?i, (0, 0, 0), 0)"
    using s tid by (auto simp: fkey_def)
  have def: "def_ok ?t" "ft_size ?t = 2" "ft_id ?t = 2"
    using tables_ok_D(3) [OF t] geo by simp_all
  have "def_spec_ok ?i (ft_spec ?t ! ?i)"
    using def(1) s(2) by (simp add: def_ok_def)
  then have old: "filters st (fkey s) = Some (ft_spec ?t ! ?i)"
    and over: "fs_priority (ft_spec ?t ! ?i) = EFX_FILTER_PRI_AUTO \<or>
      has_flag (fs_flags (ft_spec ?t ! ?i)) EFX_FILTER_FLAG_RX_OVER_AUTO"
    using s(2) k fkey_def_spec geo(1) by (auto simp: filters_def lookup_def_table [OF def(1,2)] def_spec_ok_def)
  have nb: "\<not> blocked g s st" and nf: "\<not> full s st"
    using ty by (simp_all add: blocked_def full_def)
  have search: "insert_search g s st = Some (Inr (?i, Some ?i, 0, (0, 0)))"
    by (simp add: insert_search_def tid def(3) Let_def)
  show ?thesis
  proof (cases "insert_check s (ft_spec ?t ! ?i) r")
    case (Inl e)
    then have "efx_farch_filter_insert g r st = Some (e, st)"
      using g search geo(1) def by (simp add: efx_farch_filter_insert_def Let_def tid)
    with Inl ok nb old show ?thesis
      by (simp add: insert_post_def insert_new_def)
  next
    case (Inr s')
    have s': "same_filter s s'" "fs_dmaq_id s' = fs_dmaq_id s"
      using insert_check_same [OF Inr] by auto
    have dok: "def_spec_ok ?i s'"
      using s s' insert_check_over [OF Inr over] by (auto simp: def_spec_ok_def same_filter_def)
    have "insert_commit 2 s' ?i (Some ?i) 0 (0, 0) st = Some (efx_farch_filter_push_rx_config (set_spec 2 ?i s' st))"
      using geo(1) def(3) by (simp add: insert_commit_def Let_def set_spec_def)
    then have ins: "efx_farch_filter_insert g r st =
        Some (sint (efx_farch_filter_make_id s' ?i), efx_farch_filter_push_rx_config (set_spec 2 ?i s' st))"
      using g search geo(1) def Inr by (simp add: efx_farch_filter_insert_def Let_def tid)
    have tab: "fa_table (set_spec 2 ?i s' st) ! 2 = ?t\<lparr>ft_spec := (ft_spec ?t)[?i := s']\<rparr>"
      using geo(1) by (simp add: set_spec_def)
    have f: "filters (efx_farch_filter_push_rx_config (set_spec 2 ?i s' st)) = (filters st)(fkey s := Some s')"
      using set_def(4) [OF ok s(2) dok] same_filter_fkey [OF s'(1)] by simp
    have "used_at (?t\<lparr>ft_spec := (ft_spec ?t)[?i := s']\<rparr>) ?i" "(ft_spec ?t)[?i := s'] ! ?i = s'"
      using used_at_def_table [OF def(1,2), of ?i] s(2) def(1) by (auto simp: used_at_def def_ok_def)
    moreover have "others_stay s st (efx_farch_filter_push_rx_config (set_spec 2 ?i s' st))"
    proof -
      have "fkey (ft_spec ?t ! ?i) = fkey s"
        using s(2) k fkey_def_spec [OF \<open>def_spec_ok ?i (ft_spec ?t ! ?i)\<close>] by simp
      then have "used_at (fa_table (set_spec 2 ?i s' st) ! tid) j \<and>
          ft_spec (fa_table (set_spec 2 ?i s' st) ! tid) ! j = ft_spec (fa_table st ! tid) ! j"
        if "used_at (fa_table st ! tid) j" "fkey (ft_spec (fa_table st ! tid) ! j) \<noteq> fkey s" for tid j
        using that geo(1) by (cases "tid = 2"; cases "j = ?i") (auto simp: set_spec_def used_at_def)
      then show ?thesis
        by (simp add: others_stay_def)
    qed
    ultimately have "insert_post g s r st (sint (efx_farch_filter_make_id s' ?i), efx_farch_filter_push_rx_config (set_spec 2 ?i s' st))"
      using nb f Inr old by (auto simp: insert_post_def insert_new_def tid tab)
    with ins set_def(3) [OF ok s(2) dok] show ?thesis
      by auto
  qed
qed

text \<open>Insertion, for every specification.\<close>

lemma insert_ok:
  assumes ok: "farch_ok st" and g: "gen_ok g"
  shows "\<exists>rc st'. efx_farch_filter_insert g r st = Some (rc, st') \<and> farch_ok st' \<and>
    (case efx_farch_filter_from_gen_spec g of Inl e \<Rightarrow> rc = e \<and> st' = st | Inr s \<Rightarrow> insert_post g s r st (rc, st'))"
proof (cases "efx_farch_filter_from_gen_spec g")
  case (Inl e)
  then show ?thesis
    using ok by (simp add: efx_farch_filter_insert_def)
next
  case (Inr s)
  note props = from_gen_spec_props [OF Inr]
  have "\<exists>res. efx_farch_filter_insert g r st = Some res \<and> farch_ok (snd res) \<and> insert_post g s r st res"
  proof (cases "fs_type s < 8")
    case True
    have "gs_match_flags g \<noteq> EFX_FILTER_MATCH_LOC_MAC_IG"
      using Inr True match_distinct
      by (auto simp: efx_farch_filter_from_gen_spec_def Let_def split: if_splits)
    then have "plain s"
      using props g True by (auto simp: plain_def gen_ok_def farch_type_def)
    then show ?thesis
      by (rule insert_hash [OF ok Inr True])
  next
    case False
    then show ?thesis
      by (intro insert_def_filter [OF ok Inr _ g]) simp
  qed
  with Inr show ?thesis by auto
qed

end
