(* ===== verification/Farch_More.thy ===== *)
theory Farch_More
  imports Farch_Ops
begin

unbundle bit_operations_syntax

section \<open>Removal, redirection, restore and set-up of filters\<close>

subsection \<open>Removal\<close>

definition farch_cfg :: "farch \<Rightarrow> bool \<times> bool \<times> bool \<times> bool \<times> nat" where
  "farch_cfg st = (fa_blocked_ucast st, fa_blocked_mcast st, fa_rss_enabled st, fa_rx_scatter st, fa_rx_channels st)"

lemma cfg_frame [simp]:
  "farch_cfg (efx_farch_filter_push_rx_config st) = farch_cfg st"
  "farch_cfg (efx_farch_filter_push_tx_limits st) = farch_cfg st"
  "farch_cfg (upd_table tid f st) = farch_cfg st"
  "farch_cfg (efx_writeo w a st) = farch_cfg st"
  by (simp_all add: farch_cfg_def efx_farch_filter_push_rx_config_def efx_farch_filter_push_tx_limits_def
      upd_table_def efx_writeo_def Let_def)

lemma clear_entry_cfg: "efx_farch_filter_table_clear_entry tid i st = Some st' \<Longrightarrow> farch_cfg st' = farch_cfg st"
  by (auto simp: efx_farch_filter_table_clear_entry_def Let_def split: if_splits)

lemma init_rx_auto_ok: "def_spec_ok i s \<Longrightarrow> def_spec_ok i (efx_farch_filter_init_rx_auto st s)"
  by (simp add: def_spec_ok_def efx_farch_filter_init_rx_auto_def has_flag_or) (simp add: has_flag_def)

lemma init_rx_auto_fkey: "def_spec_ok i s \<Longrightarrow> i < 2 \<Longrightarrow> fkey (efx_farch_filter_init_rx_auto st s) = fkey s"
  using fkey_def_spec init_rx_auto_ok by metis

text \<open>
  What is left of a filter that is removed: nothing, or the automatic filter if it was a default one.
\<close>

definition left_over :: "nat \<Rightarrow> farch \<Rightarrow> farch_spec \<Rightarrow> farch_spec option" where
  "left_over tid st s = (if tid = EFX_FARCH_FILTER_TABLE_RX_DEF then Some (efx_farch_filter_init_rx_auto st s) else None)"

text \<open>One slot: the filter with this priority goes, every other slot stays as it is.\<close>

definition slots_but :: "nat \<Rightarrow> farch_table \<Rightarrow> farch_table \<Rightarrow> bool" where
  "slots_but i t t' \<longleftrightarrow> ft_size t' = ft_size t \<and>
     (\<forall>j. j \<noteq> i \<longrightarrow> used_at t' j = used_at t j \<and> ft_spec t' ! j = ft_spec t ! j)"

lemma remove_hash:
  assumes ok: "farch_ok st" and tid: "hash_tid tid" and i: "used_at (fa_table st ! tid) i"
    and p: "fs_priority (ft_spec (fa_table st ! tid) ! i) = priority"
  shows "\<exists>st'. efx_farch_filter_remove tid i priority st = Some (0, st') \<and> farch_ok st' \<and> farch_cfg st' = farch_cfg st \<and>
    filters st' = (filters st)(fkey (ft_spec (fa_table st ! tid) ! i) := None) \<and>
    \<not> used_at (fa_table st' ! tid) i \<and> slots_but i (fa_table st ! tid) (fa_table st' ! tid)"
proof -
  let ?t = "fa_table st ! tid"
  have t: "tables_ok (fa_table st)"
    using ok by (simp add: farch_ok_def)
  note geo = geometry_nth [OF tables_ok_D(1) [OF t]]
  have h: "hash_ok ?t" and sh: "shape_ok ?t"
    using tables_ok_D(2) [OF t tid] by (auto simp: hash_ok_def)
  have e: "entry_ok ?t i (ft_spec ?t ! i)"
    using h i by (simp add: hash_ok_def)
  have len: "tid < length (fa_table st)" "ft_id ?t = tid"
    using geo(1,2) hash_tid_less [OF tid] by simp_all
  obtain st' where st': "efx_farch_filter_table_clear_entry tid i st = Some st'" "farch_ok st'"
    "fa_table st' = (fa_table st)[tid := take_table i ?t]"
    using clear_entry_farch_ok [OF ok tid i] by blast
  have "efx_farch_filter_remove tid i priority st = Some (0, st')"
    using i p e st'(1) by (simp add: efx_farch_filter_remove_def Let_def used_at_def entry_ok_def plain_def)
  moreover have "filters st' = (filters st)(fkey (ft_spec ?t ! i) := None)"
    using e len by (intro filters_update [OF geo(1) _ _ st'(3) lookup_take [OF h i]])
      (simp_all add: fkey_def entry_ok_def hash_tid_less [OF tid])
  moreover have "slots_but i ?t (take_table i ?t)"
    using used_at_take [OF sh] by (simp add: slots_but_def) (simp add: take_table_def)
  ultimately show ?thesis
    using st' clear_entry_cfg [OF st'(1)] len used_at_take [OF sh, of i i] by simp
qed

lemma remove_def_filter:
  assumes ok: "farch_ok st" and i: "i < 2" and p: "fs_priority (ft_spec (fa_table st ! 2) ! i) = priority"
    and auto: "priority \<noteq> EFX_FILTER_PRI_AUTO"
  shows "\<exists>st'. efx_farch_filter_remove 2 i priority st = Some (0, st') \<and> farch_ok st' \<and> farch_cfg st' = farch_cfg st \<and>
    filters st' = (filters st)(fkey (ft_spec (fa_table st ! 2) ! i) := Some (efx_farch_filter_init_rx_auto st (ft_spec (fa_table st ! 2) ! i))) \<and>
    fs_priority (ft_spec (fa_table st' ! 2) ! i) = EFX_FILTER_PRI_AUTO \<and> slots_but i (fa_table st ! 2) (fa_table st' ! 2)"
proof -
  let ?t = "fa_table st ! 2"
  let ?s = "efx_farch_filter_init_rx_auto st (ft_spec ?t ! i)"
  have t: "tables_ok (fa_table st)"
    using ok by (simp add: farch_ok_def)
  note geo = geometry_nth [OF tables_ok_D(1) [OF t]]
  have def: "def_ok ?t" "ft_size ?t = 2"
    using tables_ok_D(3) [OF t] geo by simp_all
  have d: "def_spec_ok i (ft_spec ?t ! i)"
    using def(1) i by (simp add: def_ok_def)
  note d' = init_rx_auto_ok [OF d, of st]
  note s = set_def [OF ok i d']
  let ?st = "efx_farch_filter_push_rx_config (set_spec 2 i ?s st)"
  have tab: "fa_table ?st ! 2 = ?t\<lparr>ft_spec := (ft_spec ?t)[i := ?s]\<rparr>"
    using geo(1) by (simp add: set_spec_def)
  have "ft_used_bitmap ?t ! i"
    using used_at_def_table [OF def, of i] i by (simp add: used_at_def)
  then have "efx_farch_filter_remove 2 i priority st = Some (0, ?st)"
    using d p auto by (simp add: efx_farch_filter_remove_def Let_def set_spec_def def_spec_ok_def)
  moreover have "filters ?st = (filters st)(fkey (ft_spec ?t ! i) := Some ?s)"
    using s(4) init_rx_auto_fkey [OF d i, of st] by simp
  moreover have "fs_priority (ft_spec (fa_table ?st ! 2) ! i) = EFX_FILTER_PRI_AUTO"
    unfolding tab using i def(1) by (simp add: def_ok_def efx_farch_filter_init_rx_auto_def)
  moreover have "slots_but i ?t (fa_table ?st ! 2)"
    unfolding tab by (simp add: slots_but_def used_at_def)
  ultimately show ?thesis
    using s(3) by (simp add: set_spec_def)
qed

lemma remove_ok:
  assumes ok: "farch_ok st" and tid: "tid < 5" and i: "i < ft_size (fa_table st ! tid)"
    and auto: "tid = 2 \<Longrightarrow> priority \<noteq> EFX_FILTER_PRI_AUTO"
  shows "\<exists>rc st'. efx_farch_filter_remove tid i priority st = Some (rc, st') \<and> farch_ok st' \<and> farch_cfg st' = farch_cfg st \<and>
    (let s = ft_spec (fa_table st ! tid) ! i in
     if used_at (fa_table st ! tid) i \<and> fs_priority s = priority
     then rc = 0 \<and> filters st' = (filters st)(fkey s := left_over tid st s)
     else rc = - ENOENT \<and> st' = st) \<and>
    slots_but i (fa_table st ! tid) (fa_table st' ! tid) \<and>
    \<not> (used_at (fa_table st' ! tid) i \<and> fs_priority (ft_spec (fa_table st' ! tid) ! i) = priority \<and> priority \<noteq> EFX_FILTER_PRI_AUTO)"
proof (cases "used_at (fa_table st ! tid) i \<and> fs_priority (ft_spec (fa_table st ! tid) ! i) = priority")
  case False
  then have "efx_farch_filter_remove tid i priority st = Some (- ENOENT, st)"
    using i by (auto simp: efx_farch_filter_remove_def Let_def used_at_def)
  with False ok show ?thesis by (auto simp: slots_but_def Let_def)
next
  case True
  show ?thesis
  proof (cases "tid = 2")
    case True': True
    have "i < 2"
      using i True' ok geometry_nth(3) [of "fa_table st" 2] by (simp add: farch_ok_def tables_ok_def)
    with True True' auto remove_def_filter [OF ok, of i priority] show ?thesis
      by (auto simp: left_over_def Let_def)
  next
    case False
    then have "hash_tid tid"
      using tid by (auto simp: hash_tid_def)
    with True False remove_hash [OF ok, of tid i priority] show ?thesis
      by (auto simp: left_over_def Let_def)
  qed
qed

subsection \<open>Clearing\<close>

text \<open>No filter of the table has the priority (\<open>none_in\<close>: among some slots).\<close>

definition none_in :: "nat list \<Rightarrow> nat \<Rightarrow> farch_table \<Rightarrow> bool" where
  "none_in is priority t \<longleftrightarrow> (\<forall>i \<in> set is. used_at t i \<longrightarrow> fs_priority (ft_spec t ! i) \<noteq> priority)"

lemma slots_but_none_in:
  "slots_but i t t' \<Longrightarrow> none_in is priority t \<Longrightarrow> i \<notin> set is \<Longrightarrow> none_in is priority t'"
  unfolding slots_but_def none_in_def by metis

lemma table_clear_loop_ok:
  assumes "farch_ok st" and "tid < 5" and "set is \<subseteq> {..<ft_size (fa_table st ! tid)}"
    and "distinct (done @ is)" and "none_in done priority (fa_table st ! tid)" and "priority \<noteq> EFX_FILTER_PRI_AUTO"
  shows "\<exists>st'. table_clear_loop tid priority is st = Some st' \<and> farch_ok st' \<and> farch_cfg st' = farch_cfg st \<and>
    ft_size (fa_table st' ! tid) = ft_size (fa_table st ! tid) \<and> none_in (done @ is) priority (fa_table st' ! tid)"
  using assms
proof (induction "is" arbitrary: st "done")
  case (Cons i "is")
  let ?s = "ft_spec (fa_table st ! tid) ! i"
  show ?case
  proof (cases "fs_priority ?s = EFX_FILTER_PRI_AUTO")
    case True
    have "none_in (done @ [i]) priority (fa_table st ! tid)"
      using Cons.prems(5,6) True by (auto simp: none_in_def)
    with Cons.IH [OF Cons.prems(1,2), of "done @ [i]"] Cons.prems True show ?thesis
      by simp
  next
    case False
    obtain rc st1 where st1: "efx_farch_filter_remove tid i priority st = Some (rc, st1)" "farch_ok st1"
      "farch_cfg st1 = farch_cfg st" "slots_but i (fa_table st ! tid) (fa_table st1 ! tid)"
      "\<not> (used_at (fa_table st1 ! tid) i \<and> fs_priority (ft_spec (fa_table st1 ! tid) ! i) = priority)"
      using remove_ok [OF Cons.prems(1,2), of i priority] Cons.prems(3,6) by auto
    have "none_in (done @ [i]) priority (fa_table st1 ! tid)"
      using slots_but_none_in [OF st1(4) Cons.prems(5)] Cons.prems(4) st1(5) by (auto simp: none_in_def)
    with Cons.IH [OF st1(2) Cons.prems(2), of "done @ [i]"] Cons.prems st1 False show ?thesis
      by (auto simp: slots_but_def)
  qed
qed simp

lemma table_clear_ok:
  assumes "farch_ok st" and "tid < 5" and "priority \<noteq> EFX_FILTER_PRI_AUTO"
  shows "\<exists>st'. efx_farch_filter_table_clear tid priority st = Some st' \<and> farch_ok st' \<and> farch_cfg st' = farch_cfg st \<and>
    none_in [0..<ft_size (fa_table st' ! tid)] priority (fa_table st' ! tid)"
proof -
  have "\<exists>st'. table_clear_loop tid priority [0..<ft_size (fa_table st ! tid)] st = Some st' \<and> farch_ok st' \<and>
      farch_cfg st' = farch_cfg st \<and> ft_size (fa_table st' ! tid) = ft_size (fa_table st ! tid) \<and>
      none_in ([] @ [0..<ft_size (fa_table st ! tid)]) priority (fa_table st' ! tid)"
    by (rule table_clear_loop_ok [OF assms(1,2) _ _ _ assms(3)]) (auto simp: none_in_def)
  then obtain st' where st': "table_clear_loop tid priority [0..<ft_size (fa_table st ! tid)] st = Some st'" "farch_ok st'"
      "farch_cfg st' = farch_cfg st" "ft_size (fa_table st' ! tid) = ft_size (fa_table st ! tid)"
      "none_in [0..<ft_size (fa_table st ! tid)] priority (fa_table st' ! tid)"
    by auto
  then show ?thesis
    by (auto simp: efx_farch_filter_table_clear_def intro!: exI [of _ st'])
qed

text \<open>Removal works on one table only.\<close>

lemma clear_entry_other:
  "efx_farch_filter_table_clear_entry tid i st = Some st' \<Longrightarrow> tid' \<noteq> tid \<Longrightarrow> fa_table st' ! tid' = fa_table st ! tid'"
  by (auto simp: efx_farch_filter_table_clear_entry_def Let_def split: if_splits)

lemma remove_other:
  "efx_farch_filter_remove tid i priority st = Some (rc, st') \<Longrightarrow> tid' \<noteq> tid \<Longrightarrow> fa_table st' ! tid' = fa_table st ! tid'"
  using clear_entry_other [of tid i st _ tid'] by (auto simp: efx_farch_filter_remove_def Let_def split: if_splits)

lemma table_clear_loop_other:
  "table_clear_loop tid priority is st = Some st' \<Longrightarrow> tid' \<noteq> tid \<Longrightarrow> fa_table st' ! tid' = fa_table st ! tid'"
  by (induction "is" arbitrary: st) (auto split: if_splits option.splits dest: remove_other)

lemma all_less_3: "(\<forall>k < (3 :: nat). P k) \<longleftrightarrow> P 0 \<and> P 1 \<and> P 2"
  by (auto simp: numeral_3_eq_3 numeral_2_eq_2 less_Suc_eq)

lemma clear_rx_ok:
  assumes "farch_ok st" and "priority \<noteq> EFX_FILTER_PRI_AUTO"
  shows "\<exists>st'. efx_farch_filter_clear_rx priority st = Some st' \<and> farch_ok st' \<and> farch_cfg st' = farch_cfg st \<and>
    (\<forall>tid < 3. none_in [0..<ft_size (fa_table st' ! tid)] priority (fa_table st' ! tid))"
proof -
  obtain st1 where st1: "efx_farch_filter_table_clear 0 priority st = Some st1" "farch_ok st1" "farch_cfg st1 = farch_cfg st"
    "none_in [0..<ft_size (fa_table st1 ! 0)] priority (fa_table st1 ! 0)"
    using table_clear_ok [OF assms(1) _ assms(2), of 0] by auto
  obtain st2 where st2: "efx_farch_filter_table_clear 1 priority st1 = Some st2" "farch_ok st2" "farch_cfg st2 = farch_cfg st1"
    "none_in [0..<ft_size (fa_table st2 ! 1)] priority (fa_table st2 ! 1)"
    using table_clear_ok [OF st1(2) _ assms(2), of 1] by auto
  obtain st3 where st3: "efx_farch_filter_table_clear 2 priority st2 = Some st3" "farch_ok st3" "farch_cfg st3 = farch_cfg st2"
    "none_in [0..<ft_size (fa_table st3 ! 2)] priority (fa_table st3 ! 2)"
    using table_clear_ok [OF st2(2) _ assms(2), of 2] by auto
  have "fa_table st2 ! 0 = fa_table st1 ! 0"
    using table_clear_loop_other [of 1 priority _ st1 st2 0] st2(1) by (simp add: efx_farch_filter_table_clear_def)
  moreover have "fa_table st3 ! k = fa_table st2 ! k" if "k \<noteq> 2" for k
    using table_clear_loop_other [of 2 priority _ st2 st3 k] st3(1) that by (simp add: efx_farch_filter_table_clear_def)
  ultimately have "\<forall>tid < 3. none_in [0..<ft_size (fa_table st3 ! tid)] priority (fa_table st3 ! tid)"
    using st1(4) st2(4) st3(4) by (simp add: all_less_3 del: One_nat_def)
  with st1 st2 st3 show ?thesis
    by (simp add: efx_farch_filter_clear_rx_def)
qed

subsection \<open>Removal by identifier\<close>

lemma id_index_less: "efx_farch_filter_id_index i < 8192"
proof -
  have "efx_farch_filter_id_index i = take_bit 13 (unat i)"
    by (simp add: efx_farch_filter_id_index_def unsigned_take_bit_eq flip: take_bit_eq_mask)
  then show ?thesis
    by (simp add: take_bit_nat_less_exp [where n = 13, simplified])
qed

lemma remove_safe_ok:
  assumes ok: "farch_ok st" and auto: "priority \<noteq> EFX_FILTER_PRI_AUTO"
  shows "\<exists>rc st'. efx_farch_filter_remove_safe priority fid st = Some (rc, st') \<and> farch_ok st' \<and> farch_cfg st' = farch_cfg st \<and>
    (case efx_farch_filter_get_safe priority fid st of
       Inl e \<Rightarrow> rc = e \<and> st' = st
     | Inr g \<Rightarrow> rc = 0 \<and> (let tid = efx_farch_filter_id_table_id fid; s = ft_spec (fa_table st ! tid) ! efx_farch_filter_id_index fid in
         filters st' = (filters st)(fkey s := left_over tid st s)))"
proof -
  let ?tid = "efx_farch_filter_id_table_id fid" and ?i = "efx_farch_filter_id_index fid"
  show ?thesis
  proof (cases "?tid < 5 \<and> ?i < ft_size (fa_table st ! ?tid)")
    case False
    then show ?thesis
      using ok by (auto simp: efx_farch_filter_remove_safe_def efx_farch_filter_get_safe_def Let_def)
  next
    case True
    obtain rc st' where r: "efx_farch_filter_remove ?tid ?i priority st = Some (rc, st')" "farch_ok st'" "farch_cfg st' = farch_cfg st"
      "let s = ft_spec (fa_table st ! ?tid) ! ?i in
       if used_at (fa_table st ! ?tid) ?i \<and> fs_priority s = priority
       then rc = 0 \<and> filters st' = (filters st)(fkey s := left_over ?tid st s)
       else rc = - ENOENT \<and> st' = st"
      using remove_ok [OF ok, of ?tid ?i priority] True auto by blast
    have "efx_farch_filter_remove_safe priority fid st = Some (rc, st')"
      using True r(1) by (simp add: efx_farch_filter_remove_safe_def Let_def)
    with True r show ?thesis
      by (cases "ft_used_bitmap (fa_table st ! ?tid) ! ?i \<and> fs_priority (ft_spec (fa_table st ! ?tid) ! ?i) = priority")
        (auto simp: efx_farch_filter_get_safe_def Let_def used_at_def)
  qed
qed

subsection \<open>Redirection\<close>

lemma set_def_same_queue:
  assumes ok: "farch_ok st" and i: "i < 2" and s: "def_spec_ok i s"
    and q: "fs_dmaq_id s = fs_dmaq_id (ft_spec (fa_table st ! 2) ! i)"
  shows "farch_ok (set_spec 2 i s st)"
proof -
  have t: "tables_ok (fa_table st)" and r: "regs_ok (fa_table st) (fa_rx_filter_ctl st) (fa_tx_cfg st)"
    using ok by (auto simp: farch_ok_def)
  note geo = geometry_nth [OF tables_ok_D(1) [OF t]]
  have "length (ft_spec (fa_table st ! 2)) = 2"
    using tables_ok_D(3) [OF t] by (simp add: def_ok_def)
  then have "\<forall>j. fs_dmaq_id ((ft_spec (fa_table st ! 2))[i := s] ! j) = fs_dmaq_id (ft_spec (fa_table st ! 2) ! j)"
    using q i by (auto simp: nth_list_update)
  then have "regs_ok (fa_table (set_spec 2 i s st)) (fa_rx_filter_ctl st) (fa_tx_cfg st)"
    using r geo(1) by (simp add: set_spec_def regs_ok_def rx_fields_ok_def del: One_nat_def)
  with set_def(1,2) [OF ok i s] show ?thesis
    by (simp add: farch_ok_def set_spec_def)
qed

lemma redirect_ok:
  assumes ok: "farch_ok st" and q: "unat rxq_i < 4096" and rx: "efx_farch_filter_id_table_id fid \<noteq> 3" "efx_farch_filter_id_table_id fid \<noteq> 4"
  shows "\<exists>rc st'. efx_farch_filter_redirect fid ctx rxq_i st = Some (rc, st') \<and> farch_ok st' \<and> farch_cfg st' = farch_cfg st \<and>
    (let s = ft_spec (fa_table st ! efx_farch_filter_id_table_id fid) ! efx_farch_filter_id_index fid in
     if rc = 0 then filters st' = (filters st)(fkey s := Some (s\<lparr>fs_dmaq_id := rxq_i\<rparr>)) else st' = st)"
proof -
  let ?tid = "efx_farch_filter_id_table_id fid" and ?i = "efx_farch_filter_id_index fid"
  let ?t = "fa_table st ! ?tid"
  let ?s = "(ft_spec ?t ! ?i)\<lparr>fs_dmaq_id := rxq_i\<rparr>"
  have t: "tables_ok (fa_table st)"
    using ok by (simp add: farch_ok_def)
  note geo = geometry_nth [OF tables_ok_D(1) [OF t]]
  let ?fail = "ctx \<noteq> None \<and> ctx \<noteq> Some 0 \<or> ?tid \<ge> 5 \<or> ?i \<ge> ft_size ?t \<or> \<not> ft_used_bitmap ?t ! ?i \<or>
    (\<not> has_flag (fs_flags (ft_spec ?t ! ?i)) EFX_FILTER_FLAG_RX_RSS) \<noteq> (ctx = None)"
  show ?thesis
  proof (cases ?fail)
    case True
    then have "\<exists>rc. rc \<noteq> 0 \<and> efx_farch_filter_redirect fid ctx rxq_i st = Some (rc, st)"
      by (auto simp: efx_farch_filter_redirect_def Let_def errno_defs)
    with ok show ?thesis by auto
  next
    case False
    then have u: "used_at ?t ?i" and tid: "?tid < 5"
      by (auto simp: used_at_def)
    have red: "efx_farch_filter_redirect fid ctx rxq_i st = (if ?tid = 2
        then Some (0, efx_farch_filter_push_rx_config (set_spec ?tid ?i ?s st))
        else (case efx_farch_filter_build ?s of None \<Rightarrow> None
          | Some (entry, _) \<Rightarrow> Some (0, efx_writeo entry (entry_addr ?t ?i) (set_spec ?tid ?i ?s st))))"
      using False by (auto simp: efx_farch_filter_redirect_def Let_def set_spec_def split: option.splits)
    show ?thesis
    proof (cases "?tid = 2")
      case True
      have def: "def_ok ?t" "ft_size ?t = 2"
        using tables_ok_D(3) [OF t] geo True by simp_all
      have i: "?i < 2"
        using u def by (simp add: used_at_def)
      have d: "def_spec_ok ?i ?s"
        using def i q by (simp add: def_ok_def def_spec_ok_def)
      have "fkey ?s = fkey (ft_spec ?t ! ?i)"
        using fkey_def_spec [OF d i] fkey_def_spec [OF _ i, of "ft_spec ?t ! ?i"] def i by (simp add: def_ok_def)
      then show ?thesis
        using red True set_def(3,4) [OF ok i d] by (simp add: Let_def) (simp add: set_spec_def)
    next
      case False
      then have h: "hash_tid ?tid"
        using tid rx by (auto simp: hash_tid_def)
      have e: "entry_ok ?t ?i (ft_spec ?t ! ?i)"
        using tables_ok_D(2) [OF t h] u by (simp add: hash_ok_def)
      have notx: "\<not> has_flag (fs_flags (ft_spec ?t ! ?i)) EFX_FILTER_FLAG_TX"
        using e geo(2) [OF tid] tid rx by (auto simp: entry_ok_def efx_farch_filter_spec_table_id_def split: if_splits)
      have sf: "same_filter (ft_spec ?t ! ?i) ?s"
        using notx by (simp add: same_filter_def)
      have pl: "plain ?s"
        using e q by (simp add: entry_ok_def plain_def)
      note s = set_hash [OF ok h u sf pl]
      have bld: "efx_farch_filter_build ?s = Some (spec_entry ?s, spec_key ?s)"
        by (rule build_Some) (use s(3) h in simp)
      show ?thesis
        using red False s bld same_filter_fkey [OF sf]
        by (simp add: Let_def) (simp add: set_spec_def)
    qed
  qed
qed

subsection \<open>Scatter\<close>

lemma has_flag_and_not: "f AND g = 0 \<Longrightarrow> has_flag (a AND NOT g) f = has_flag a f"
proof -
  assume fg: "f AND g = 0"
  have "(a AND NOT g) AND f = a AND (f AND NOT g)"
    by (rule bit_eqI) (auto simp: bit_simps)
  moreover have "f AND NOT g = f"
  proof (rule bit_eqI)
    fix n
    have "\<not> (bit f n \<and> bit g n)"
      using fg by (metis bit_0_eq bit_and_iff bot_apply bot_bool_def)
    then show "bit (f AND NOT g) n = bit f n"
      by (auto simp: bit_simps dest: bit_imp_le_length)
  qed
  ultimately show ?thesis
    by (simp add: has_flag_def)
qed

definition scatter_spec :: "farch \<Rightarrow> farch_spec \<Rightarrow> farch_spec" where
  "scatter_spec st s = s\<lparr>fs_flags := (if fa_rx_scatter st then fs_flags s OR EFX_FILTER_FLAG_RX_SCATTER
     else fs_flags s AND NOT EFX_FILTER_FLAG_RX_SCATTER)\<rparr>"

lemma scatter_spec_flags [simp]:
  "has_flag (fs_flags (scatter_spec st s)) EFX_FILTER_FLAG_TX = has_flag (fs_flags s) EFX_FILTER_FLAG_TX"
  "has_flag (fs_flags (scatter_spec st s)) EFX_FILTER_FLAG_RX_OVER_AUTO = has_flag (fs_flags s) EFX_FILTER_FLAG_RX_OVER_AUTO"
  "has_flag (fs_flags (scatter_spec st s)) EFX_FILTER_FLAG_RX_SCATTER = fa_rx_scatter st"
  by (simp_all add: scatter_spec_def has_flag_or has_flag_and_not) (simp_all add: has_flag_def and.assoc)

lemma scatter_spec_sel [simp]:
  "fs_type (scatter_spec st s) = fs_type s" "fs_data (scatter_spec st s) = fs_data s"
  "fs_dmaq_id (scatter_spec st s) = fs_dmaq_id s" "fs_priority (scatter_spec st s) = fs_priority s"
  by (simp_all add: scatter_spec_def)

lemma scatter_same: "same_filter s (scatter_spec st s)"
  by (simp add: same_filter_def)

text \<open>The same filters with the same queues and priorities.\<close>

definition same_meta :: "farch \<Rightarrow> farch \<Rightarrow> bool" where
  "same_meta st st' \<longleftrightarrow> (\<forall>k. map_option fs_dmaq_id (filters st' k) = map_option fs_dmaq_id (filters st k) \<and>
     map_option fs_priority (filters st' k) = map_option fs_priority (filters st k))"

lemma same_meta_refl [simp]: "same_meta st st"
  by (simp add: same_meta_def)

lemma same_meta_trans: "same_meta st st1 \<Longrightarrow> same_meta st1 st2 \<Longrightarrow> same_meta st st2"
  by (simp add: same_meta_def)

lemma scatter_entries_Cons:
  "scatter_entries tid (i # is) st =
     (let t = fa_table st ! tid; spec = ft_spec t ! i in
      if \<not> ft_used_bitmap t ! i \<or> unat (fs_dmaq_id spec) \<ge> fa_rx_channels st then scatter_entries tid is st
      else if tid = EFX_FARCH_FILTER_TABLE_RX_DEF then scatter_entries tid is (set_spec tid i (scatter_spec st spec) st)
      else (case efx_farch_filter_build (scatter_spec st spec) of
          None \<Rightarrow> None
        | Some (entry, _) \<Rightarrow> scatter_entries tid is
            (efx_writeo entry (entry_addr t i) (set_spec tid i (scatter_spec st spec) st))))"
  unfolding scatter_entries.simps Let_def scatter_spec_def set_spec_def by (rule refl)

lemma scatter_entries_ok:
  assumes "farch_ok st" and "tid < 3" and "set is \<subseteq> {..<ft_size (fa_table st ! tid)}"
  shows "\<exists>st'. scatter_entries tid is st = Some st' \<and> farch_ok st' \<and> farch_cfg st' = farch_cfg st \<and>
    same_meta st st'"
  using assms
proof (induction "is" arbitrary: st)
  case (Cons i "is")
  let ?t = "fa_table st ! tid"
  let ?s = "scatter_spec st (ft_spec ?t ! i)"
  have t: "tables_ok (fa_table st)"
    using Cons.prems(1) by (simp add: farch_ok_def)
  note geo = geometry_nth [OF tables_ok_D(1) [OF t]]
  show ?case
  proof (cases "\<not> ft_used_bitmap ?t ! i \<or> unat (fs_dmaq_id (ft_spec ?t ! i)) \<ge> fa_rx_channels st")
    case True
    with Cons.IH [OF Cons.prems(1,2)] Cons.prems(3) show ?thesis
      by (auto simp: Let_def)
  next
    case False
    then have u: "used_at ?t i"
      using Cons.prems(3) by (simp add: used_at_def)
    define st1 where "st1 = (if tid = 2 then set_spec tid i ?s st
      else efx_writeo (spec_entry ?s) (entry_addr ?t i) (set_spec tid i ?s st))"
    have step: "farch_ok st1 \<and> filters st1 = (filters st)(fkey (ft_spec ?t ! i) := Some ?s) \<and>
        filters st (fkey (ft_spec ?t ! i)) = Some (ft_spec ?t ! i) \<and>
        scatter_entries tid (i # is) st = scatter_entries tid is st1"
    proof (cases "tid = 2")
      case True
      have def: "def_ok ?t" "ft_size ?t = 2"
        using tables_ok_D(3) [OF t] geo True by simp_all
      have i: "i < 2"
        using u def by (simp add: used_at_def)
      have d0: "def_spec_ok i (ft_spec ?t ! i)"
        using def i by (simp add: def_ok_def)
      then have d: "def_spec_ok i ?s"
        by (simp add: def_spec_ok_def)
      have "farch_ok (set_spec 2 i ?s st)"
        by (rule set_def_same_queue [OF Cons.prems(1) i d]) (simp add: True)
      moreover have "filters st (fkey (ft_spec ?t ! i)) = Some (ft_spec ?t ! i)"
        using fkey_def_spec [OF d0 i] geo(1) True i lookup_def_table [OF def] by (auto simp: filters_def)
      ultimately show ?thesis
        using True False set_def(4) [OF Cons.prems(1) i d] same_filter_fkey [OF scatter_same, of "ft_spec ?t ! i" st]
        by (simp add: st1_def Let_def scatter_entries_Cons del: scatter_entries.simps)
    next
      case nt: False
      then have h: "hash_tid tid"
        using Cons.prems(2) by (auto simp: hash_tid_def)
      have hk: "hash_ok ?t"
        using tables_ok_D(2) [OF t h] .
      have e: "entry_ok ?t i (ft_spec ?t ! i)"
        using hk u by (simp add: hash_ok_def)
      have pl: "plain ?s"
        using e by (simp add: entry_ok_def plain_def)
      note s = set_hash [OF Cons.prems(1) h u scatter_same [of _ st] pl]
      have "efx_farch_filter_build ?s = Some (spec_entry ?s, spec_key ?s)"
        by (rule build_Some) (use s(3) h in simp)
      then have "scatter_entries tid (i # is) st = scatter_entries tid is st1"
        using nt False by (simp add: st1_def Let_def scatter_entries_Cons del: scatter_entries.simps)
      moreover have "lookup ?t (fkey (ft_spec ?t ! i)) = Some (ft_spec ?t ! i)"
        using lookup_hash [OF hk] u by blast
      then have "filters st (fkey (ft_spec ?t ! i)) = Some (ft_spec ?t ! i)"
        using e geo(1) geo(2) [of tid] Cons.prems(2) by (auto simp: filters_def fkey_def entry_ok_def)
      ultimately show ?thesis
        using s nt same_filter_fkey [OF scatter_same, of "ft_spec ?t ! i" st] by (simp add: st1_def)
    qed
    have cfg: "farch_cfg st1 = farch_cfg st" "ft_size (fa_table st1 ! tid) = ft_size ?t"
      using geo(1) Cons.prems(2) by (simp_all add: st1_def set_spec_def)
    obtain st' where "scatter_entries tid is st1 = Some st'" "farch_ok st'" "farch_cfg st' = farch_cfg st1"
      "same_meta st1 st'"
      using Cons.IH [of st1] step Cons.prems(2,3) cfg by auto
    moreover have "same_meta st st1"
      using step by (simp add: same_meta_def)
    ultimately show ?thesis
      using step cfg same_meta_trans by auto
  qed
qed simp

lemma update_rx_scatter_ok:
  assumes ok: "farch_ok st"
  shows "\<exists>st'. efx_farch_filter_update_rx_scatter st = Some st' \<and> farch_ok st' \<and> farch_cfg st' = farch_cfg st \<and>
    same_meta st st'"
proof -
  have push: "farch_ok (efx_farch_filter_push_rx_config st)" if "farch_ok st" for st
    by (rule push_rx_farch_ok) (use that in \<open>simp_all add: farch_ok_def regs_ok_def\<close>)
  have sub: "set [0..<n] \<subseteq> {..<n}" for n :: nat
    by auto
  obtain st1 where st1: "scatter_entries 0 [0..<ft_size (fa_table st ! 0)] st = Some st1" "farch_ok st1" "farch_cfg st1 = farch_cfg st"
    "same_meta st st1"
    using scatter_entries_ok [OF ok _ sub, of 0] by auto
  obtain st2 where st2: "scatter_entries 1 [0..<ft_size (fa_table st1 ! 1)] st1 = Some st2" "farch_ok st2" "farch_cfg st2 = farch_cfg st1"
    "same_meta st1 st2"
    using scatter_entries_ok [OF st1(2) _ sub, of 1] by auto
  obtain st3 where st3: "scatter_entries 2 [0..<ft_size (fa_table st2 ! 2)] st2 = Some st3" "farch_ok st3" "farch_cfg st3 = farch_cfg st2"
    "same_meta st2 st3"
    using scatter_entries_ok [OF st2(2) _ sub, of 2] by auto
  have "efx_farch_filter_update_rx_scatter st = Some (efx_farch_filter_push_rx_config st3)"
    using st1 st2 st3 by (simp add: efx_farch_filter_update_rx_scatter_def del: One_nat_def)
  moreover have "same_meta st (efx_farch_filter_push_rx_config st3)"
    using same_meta_trans [OF st1(4) same_meta_trans [OF st2(4) st3(4)]] by (simp add: same_meta_def)
  ultimately show ?thesis
    using st1(3) st2(3) st3(3) push [OF st3(2)] by simp
qed

subsection \<open>Set-up and restore\<close>

text \<open>The tables of a NIC that was reset: the memory reads as zero, the registers are anything.\<close>

definition reset_hw :: "oword \<Rightarrow> oword \<Rightarrow> farch \<Rightarrow> farch" where
  "reset_hw rx tx st = st\<lparr>fa_rx_filter_ctl := rx, fa_tx_cfg := tx, fa_mem := (\<lambda>_. (0, 0))\<rparr>"

definition restored :: "(nat \<Rightarrow> nat \<Rightarrow> bool) \<Rightarrow> farch \<Rightarrow> farch \<Rightarrow> bool" where
  "restored P st st' \<longleftrightarrow> fa_table st' = fa_table st \<and> farch_cfg st' = farch_cfg st \<and>
     (\<forall>tid i. hash_tid tid \<longrightarrow> i < ft_size (fa_table st ! tid) \<longrightarrow>
        fa_mem st' (entry_addr (fa_table st ! tid) i) =
          (if P tid i \<and> ft_used_bitmap (fa_table st ! tid) ! i then spec_entry (ft_spec (fa_table st ! tid) ! i)
           else fa_mem st (entry_addr (fa_table st ! tid) i)))"

lemma restore_entries_ok:
  assumes "tables_ok (fa_table st)" and "hash_tid tid" and "set is \<subseteq> {..<ft_size (fa_table st ! tid)}"
  shows "\<exists>st'. restore_entries tid is st = Some st' \<and> restored (\<lambda>k i. k = tid \<and> i \<in> set is) st st'"
  using assms
proof (induction "is" arbitrary: st)
  case Nil
  then show ?case by (simp add: restored_def)
next
  case (Cons i "is")
  let ?t = "fa_table st ! tid"
  show ?case
  proof (cases "ft_used_bitmap ?t ! i")
    case False
    then obtain st' where "restore_entries tid is st = Some st'" "restored (\<lambda>k i. k = tid \<and> i \<in> set is) st st'"
      using Cons.IH [OF Cons.prems(1,2)] Cons.prems(3) by auto
    with False show ?thesis
      by (auto simp: restored_def Let_def)
  next
    case True
    then have u: "used_at ?t i"
      using Cons.prems(3) by (simp add: used_at_def)
    have "efx_farch_filter_spec_table_id (ft_spec ?t ! i) = tid"
      using tables_ok_D(2) [OF Cons.prems(1,2)] u geometry_nth(2) [OF tables_ok_D(1) [OF Cons.prems(1)] hash_tid_less [OF Cons.prems(2)]]
      by (simp add: hash_ok_def entry_ok_def)
    then have bld: "efx_farch_filter_build (ft_spec ?t ! i) = Some (spec_entry (ft_spec ?t ! i), spec_key (ft_spec ?t ! i))"
      by (intro build_Some) (simp add: Cons.prems(2))
    let ?st = "efx_writeo (spec_entry (ft_spec ?t ! i)) (entry_addr ?t i) st"
    obtain st' where st': "restore_entries tid is ?st = Some st'" "restored (\<lambda>k i. k = tid \<and> i \<in> set is) ?st st'"
      using Cons.IH [of ?st] Cons.prems by auto
    have inj: "entry_addr (fa_table st ! k) j = entry_addr ?t i \<longleftrightarrow> k = tid \<and> j = i" if "hash_tid k" "j < ft_size (fa_table st ! k)" for k j
      using entry_addr_inj [OF tables_ok_D(1) [OF Cons.prems(1)] that(1) Cons.prems(2) that(2)] u by (auto simp: used_at_def)
    have "restored (\<lambda>k j. k = tid \<and> j \<in> set (i # is)) st st'"
      unfolding restored_def
    proof (intro conjI allI impI)
      fix k j
      assume kj: "hash_tid k" "j < ft_size (fa_table st ! k)"
      have "fa_mem st' (entry_addr (fa_table st ! k) j) =
          (if (k = tid \<and> j \<in> set is) \<and> ft_used_bitmap (fa_table st ! k) ! j then spec_entry (ft_spec (fa_table st ! k) ! j)
           else fa_mem ?st (entry_addr (fa_table st ! k) j))"
        using st'(2) kj unfolding restored_def efx_writeo_sel(1) by blast
      also have "\<dots> = (if (k = tid \<and> j \<in> set (i # is)) \<and> ft_used_bitmap (fa_table st ! k) ! j
          then spec_entry (ft_spec (fa_table st ! k) ! j) else fa_mem st (entry_addr (fa_table st ! k) j))"
        using inj [OF kj] True by auto
      finally show "fa_mem st' (entry_addr (fa_table st ! k) j) =
          (if (k = tid \<and> j \<in> set (i # is)) \<and> ft_used_bitmap (fa_table st ! k) ! j then spec_entry (ft_spec (fa_table st ! k) ! j)
           else fa_mem st (entry_addr (fa_table st ! k) j))" .
    qed (use st'(2) in \<open>simp_all add: restored_def\<close>)
    with bld True st'(1) show ?thesis
      by (simp add: Let_def)
  qed
qed

lemma restored_trans:
  "restored P st st1 \<Longrightarrow> restored Q st1 st2 \<Longrightarrow> restored (\<lambda>k i. P k i \<or> Q k i) st st2"
  unfolding restored_def by auto

lemma restore_tables_ok:
  assumes "tables_ok (fa_table st)" and "set tids \<subseteq> {..<5}"
  shows "\<exists>st'. restore_tables tids st = Some st' \<and> restored (\<lambda>k i. k \<in> set tids \<and> i < ft_size (fa_table st ! k)) st st'"
  using assms
proof (induction tids arbitrary: st)
  case Nil
  then show ?case by (simp add: restored_def)
next
  case (Cons tid tids)
  let ?t = "fa_table st ! tid"
  note geo = geometry_nth [OF tables_ok_D(1) [OF Cons.prems(1)]]
  have tid: "tid < 5"
    using Cons.prems(2) by simp
  show ?case
  proof (cases "tid = 2")
    case True
    then have "ft_step ?t = 0"
      using geo(5) [of 2] by simp
    moreover obtain st' where "restore_tables tids st = Some st'"
      "restored (\<lambda>k i. k \<in> set tids \<and> i < ft_size (fa_table st ! k)) st st'"
      using Cons.IH [OF Cons.prems(1)] Cons.prems(2) by auto
    moreover have "\<not> hash_tid 2"
      by (simp add: hash_tid_def)
    ultimately show ?thesis
      using True by (auto simp: restored_def Let_def)
  next
    case False
    then have h: "hash_tid tid"
      using tid by (auto simp: hash_tid_def)
    have step: "ft_step ?t \<noteq> 0"
      using h geo(5) [of tid] tid by (auto simp: hash_tid_def)
    obtain st1 where st1: "restore_entries tid [0..<ft_size ?t] st = Some st1"
      "restored (\<lambda>k i. k = tid \<and> i \<in> set [0..<ft_size ?t]) st st1"
      using restore_entries_ok [OF Cons.prems(1) h, of "[0..<ft_size ?t]"] by fastforce
    then have tab: "fa_table st1 = fa_table st"
      by (simp add: restored_def)
    obtain st' where st': "restore_tables tids st1 = Some st'"
      "restored (\<lambda>k i. k \<in> set tids \<and> i < ft_size (fa_table st1 ! k)) st1 st'"
      using Cons.IH [of st1] Cons.prems tab by auto
    have "restored (\<lambda>k i. (k = tid \<and> i \<in> set [0..<ft_size ?t]) \<or> (k \<in> set tids \<and> i < ft_size (fa_table st1 ! k))) st st'"
      by (rule restored_trans [OF st1(2) st'(2)])
    then have "restored (\<lambda>k i. k \<in> set (tid # tids) \<and> i < ft_size (fa_table st ! k)) st st'"
      unfolding restored_def tab by auto
    with st1 st' step show ?thesis
      by (simp add: Let_def)
  qed
qed

lemma restore_ok:
  assumes ok: "farch_ok st"
  shows "\<exists>st'. efx_farch_filter_table_restore (reset_hw rx tx st) = Some st' \<and> farch_ok st' \<and>
    fa_table st' = fa_table st \<and> farch_cfg st' = farch_cfg st \<and> filters st' = filters st"
proof -
  let ?st = "reset_hw rx tx st"
  have tab: "fa_table ?st = fa_table st" "farch_cfg ?st = farch_cfg st"
    by (simp_all add: reset_hw_def farch_cfg_def)
  have t: "tables_ok (fa_table ?st)"
    using ok by (simp add: farch_ok_def tab)
  have "set [0..<5] \<subseteq> {..<(5 :: nat)}"
    by auto
  from restore_tables_ok [OF t this]
  obtain st1 where st1: "restore_tables [0..<5] ?st = Some st1"
    "restored (\<lambda>k i. k \<in> set [0..<5] \<and> i < ft_size (fa_table st ! k)) ?st st1"
    using tab by auto
  then have tab1: "fa_table st1 = fa_table st" "farch_cfg st1 = farch_cfg st"
    using tab by (simp_all add: restored_def)
  have mem: "mem_ok st1"
    unfolding mem_ok_def
  proof (intro allI impI)
    fix k i
    assume ki: "hash_tid k" "i < ft_size (fa_table st1 ! k)"
    then have "fa_mem st1 (entry_addr (fa_table st ! k) i) =
      (if ft_used_bitmap (fa_table st ! k) ! i then spec_entry (ft_spec (fa_table st ! k) ! i) else (0, 0))"
      using st1(2) hash_tid_less [OF ki(1)] tab1 unfolding restored_def tab by (simp add: reset_hw_def)
    then show "fa_mem st1 (entry_addr (fa_table st1 ! k) i) = table_mem (fa_table st1 ! k) i"
      by (simp add: tab1 table_mem_def)
  qed
  let ?st' = "efx_farch_filter_push_tx_limits (efx_farch_filter_push_rx_config st1)"
  have p: "push_ok (fa_table st1)"
    using tables_ok_push_ok [OF t] tab tab1 by simp
  have "farch_ok ?st'"
    using push_rx_fields [OF p] push_tx_fields [of "efx_farch_filter_push_rx_config st1"] p mem t tab tab1
    by (simp add: farch_ok_def regs_ok_def mem_ok_def)
  moreover have "filters ?st' = filters st"
    by (rule ext) (simp add: filters_def tab1)
  moreover have "efx_farch_filter_table_restore ?st = Some ?st'"
    using st1(1) by (simp add: efx_farch_filter_table_restore_def)
  ultimately show ?thesis
    using tab1 by simp
qed

lemma init_table_hash:
  assumes "hash_tid tid" and "off \<noteq> 0" and "sz = 2 ^ k"
  shows "hash_ok (init_table tid off sz step)"
proof -
  have nu: "\<not> used_at (init_table tid off sz step) i" for i
    by (simp add: used_at_def init_table_def)
  then have none: "{i. used_at (init_table tid off sz step) i} = {}"
    by simp
  have "shape_ok (init_table tid off sz step)"
    unfolding shape_ok_def none using assms(3) by (auto simp: init_table_def)
  then show ?thesis
    using assms nu by (simp add: hash_ok_def) (simp add: init_table_def)
qed

text \<open>Set-up on a NIC whose filter tables read as zero.\<close>

lemma probe_ok:
  assumes "\<And>a. fa_mem st a = (0, 0)"
  shows "farch_ok (efx_farch_filter_table_probe st)"
    "filters (efx_farch_filter_table_probe st) k = None \<or> fst k = EFX_FARCH_FILTER_TABLE_RX_DEF"
proof -
  let ?auto = "\<lambda>i. efx_farch_filter_init_rx_auto st ((ft_spec (init_table 2 0 2 0) ! i)\<lparr>fs_type := 8 + i\<rparr>)"
  let ?def = "(init_table 2 0 2 0)\<lparr>ft_spec := map ?auto [0..<2], ft_used_bitmap := replicate 2 True\<rparr>"
  let ?ts = "[init_table 0 0xf00000 8192 32, init_table 1 0xf00010 512 32, ?def, init_table 3 0xfc0000 8192 16,
    init_table 4 0xfe0000 512 16]"
  let ?st = "st\<lparr>fa_table := ?ts\<rparr>"
  have pr: "efx_farch_filter_table_probe st = efx_farch_filter_push_rx_config ?st"
    by (simp add: efx_farch_filter_table_probe_def Let_def)
  have h: "hash_ok (?ts ! tid)" if "hash_tid tid" for tid
    using that init_table_hash [of 0 "0xf00000" 8192 13 32]
      init_table_hash [of 1 "0xf00010" 512 9 32]
      init_table_hash [of 3 "0xfc0000" 8192 13 16]
      init_table_hash [of 4 "0xfe0000" 512 9 16]
    by (elim hash_tid_cases) (simp_all add: hash_tid_def)
  have d: "def_spec_ok i (?auto i)" if "i < 2" for i
    using that by (auto simp: def_spec_ok_def efx_farch_filter_init_rx_auto_def init_table_def zero_farch_spec_def
        has_flag_or less_2_cases_iff) (simp_all add: has_flag_def)
  have def: "def_ok ?def"
    using d [of 0] d [of 1] by (auto simp: def_ok_def less_2_cases_iff upt_rec numeral_2_eq_2 less_Suc_eq)
  have t: "tables_ok (fa_table ?st)"
    unfolding tables_ok_def using h def by (simp add: geometry_def table_shape_def) (simp add: init_table_def)
  have nu: "\<not> ft_used_bitmap (?ts ! tid) ! i" if "hash_tid tid" "i < ft_size (?ts ! tid)" for tid i
    using that by (elim hash_tid_cases) (auto simp: init_table_def)
  have m: "mem_ok ?st"
    using assms nu by (simp add: mem_ok_def table_mem_def)
  have tx: "tx_fields_ok (ft_search_limit (?ts ! 3)) (ft_search_limit (?ts ! 4)) (fa_tx_cfg ?st)"
    by (simp add: tx_fields_ok_def init_table_def nth_Cons')
  show "farch_ok (efx_farch_filter_table_probe st)"
    unfolding pr by (rule push_rx_farch_ok [OF t m]) (use tx in simp)
  show "filters (efx_farch_filter_table_probe st) k = None \<or> fst k = EFX_FARCH_FILTER_TABLE_RX_DEF"
  proof (cases "hash_tid (fst k)")
    case True
    then have "lookup (?ts ! fst k) k = None"
      using nu [OF True] unfolding lookup_None used_at_def by blast
    then show ?thesis
      unfolding pr by (simp add: filters_def)
  next
    case False
    then show ?thesis
      unfolding pr by (auto simp: filters_def hash_tid_def)
  qed
qed

end
