(* ===== verification/Farch_Ids.thy ===== *)
theory Farch_Ids
  imports Farch_More
begin

unbundle bit_operations_syntax

section \<open>Identifiers, generic specifications and table entries of filters\<close>

subsection \<open>Identifiers\<close>

lemma id_parts:
  assumes "unat r < 2 ^ 19" and "unat i < 2 ^ 13"
  shows "drop_bit 13 (push_bit 13 r OR i) = (r :: u32)" and "(push_bit 13 r OR i) AND mask 13 = i"
proof -
  have r: "bit r n \<Longrightarrow> n < 19" and i: "bit i n \<Longrightarrow> n < 13" for n
    using unat_less_exp_bit [OF assms(1)] unat_less_exp_bit [OF assms(2)] by blast+
  show "drop_bit 13 (push_bit 13 r OR i) = r"
    by (rule bit_word_eqI) (use r i in \<open>fastforce simp: bit_simps\<close>)
  show "(push_bit 13 r OR i) AND mask 13 = i"
    by (rule bit_word_eqI) (use i in \<open>auto simp: bit_simps\<close>)
qed

text \<open>A filter is received or sent.\<close>

definition one_way :: "farch_spec \<Rightarrow> bool" where
  "one_way s \<longleftrightarrow> has_flag (fs_flags s) EFX_FILTER_FLAG_RX \<noteq> has_flag (fs_flags s) EFX_FILTER_FLAG_TX"

lemma id_decodes:
  assumes ty: "farch_type (fs_type s)" and way: "one_way s" and tid: "efx_farch_filter_spec_table_id s < 5" and i: "i < 8192"
  shows "efx_farch_filter_id_table_id (efx_farch_filter_make_id s i) = efx_farch_filter_spec_table_id s"
    and "efx_farch_filter_id_index (efx_farch_filter_make_id s i) = i"
    and "0 \<le> sint (efx_farch_filter_make_id s i)"
proof -
  define r where "r = efx_farch_filter_type_match_pri ! fs_type s +
    (if has_flag (fs_flags s) EFX_FILTER_FLAG_RX then 0 else EFX_FARCH_FILTER_MATCH_PRI_COUNT)"
  have make: "efx_farch_filter_make_id s i = push_bit 13 (of_nat r) OR of_nat i"
    by (simp add: efx_farch_filter_make_id_def Let_def r_def)
  have cases: "fs_type s \<in> {0, 1, 2, 3, 4, 5, 8, 9}"
    using ty by (auto simp: farch_type_def)
  have r: "r < 9 \<and> efx_farch_filter_range_table ! r = efx_farch_filter_spec_table_id s"
    using cases tid way
    by (auto simp: r_def efx_farch_filter_type_match_pri_def efx_farch_filter_range_table_def
        efx_farch_filter_spec_table_id_def one_way_def split: if_splits)
  have u: "unat (of_nat r :: u32) = r" "unat (of_nat i :: u32) = i"
    using r i by (simp_all add: unat_of_nat)
  have u': "unat (of_nat r :: u32) < 2 ^ 19" "unat (of_nat i :: u32) < 2 ^ 13"
    using r i u by auto
  show "efx_farch_filter_id_table_id (efx_farch_filter_make_id s i) = efx_farch_filter_spec_table_id s"
    unfolding efx_farch_filter_id_table_id_def make id_parts(1) [OF u'] Let_def
    using r u by (simp add: efx_farch_filter_range_table_def)
  show "efx_farch_filter_id_index (efx_farch_filter_make_id s i) = i"
    unfolding efx_farch_filter_id_index_def make id_parts(2) [OF u'] by (rule u)
  have "\<not> bit (efx_farch_filter_make_id s i) 31"
  proof
    assume "bit (efx_farch_filter_make_id s i) 31"
    then have "bit (of_nat r :: u32) 18 \<or> bit (of_nat i :: u32) 31"
      by (simp add: make bit_simps)
    moreover have "\<not> bit (of_nat r :: u32) 18"
      using unat_less_exp_bit [of "of_nat r :: u32" 4 18] u r by auto
    moreover have "\<not> bit (of_nat i :: u32) 31"
      using unat_less_exp_bit [of "of_nat i :: u32" 13 31] u' by auto
    ultimately show False by blast
  qed
  then show "0 \<le> sint (efx_farch_filter_make_id s i)"
    using bit_last_iff [of "efx_farch_filter_make_id s i"] by simp
qed

subsection \<open>Generic specifications\<close>

text \<open>The words of an IP filter give back the two hosts and ports.\<close>

lemma ip_words:
  fixes h :: u32 and p q :: u16
  shows "drop_bit 16 (push_bit 16 h OR ucast p) OR push_bit 16 (push_bit 16 (ucast q) OR drop_bit 16 h) = h"
    and "(ucast (push_bit 16 h OR ucast p :: u32) :: u16) = p"
    and "(ucast (drop_bit 16 (push_bit 16 (ucast q) OR drop_bit 16 h :: u32)) :: u16) = q"
proof -
  show "drop_bit 16 (push_bit 16 h OR ucast p) OR push_bit 16 (push_bit 16 (ucast q) OR drop_bit 16 h) = h"
    by (rule bit_word_eqI) (auto simp: bit_simps not_le dest: bit_imp_le_length)
  show "(ucast (push_bit 16 h OR ucast p :: u32) :: u16) = p"
    by (rule bit_word_eqI) (auto simp: bit_simps)
  show "(ucast (drop_bit 16 (push_bit 16 (ucast q) OR drop_bit 16 h :: u32)) :: u16) = q"
    by (rule bit_word_eqI) (auto simp: bit_simps dest: bit_imp_le_length)
qed

text \<open>The same with a wild remote host and port.\<close>

lemma split_word_16: "drop_bit 16 (push_bit 16 h) OR push_bit 16 (drop_bit 16 h) = (h :: u32)"
proof (rule bit_word_eqI)
  fix n :: nat
  assume "n < LENGTH(32)"
  then show "bit (drop_bit 16 (push_bit 16 h) OR push_bit 16 (drop_bit 16 h)) n = bit h n"
    by (cases "n < 16") (auto simp: bit_simps)
qed

lemma ip_words_wild:
  fixes h :: u32 and p q :: u16
  shows "drop_bit 16 (push_bit 16 h OR ucast p) OR push_bit 16 (drop_bit 16 h) = h"
    and "drop_bit 16 (push_bit 16 h) OR push_bit 16 (push_bit 16 (ucast q) OR drop_bit 16 h) = h"
    and "(ucast (drop_bit 16 (push_bit 16 (ucast q) :: u32)) :: u16) = q"
    and "(ucast (ucast p :: u32) :: u16) = p" and "(ucast (push_bit 16 h) :: u16) = 0"
    and "(ucast (drop_bit 16 (drop_bit 16 h)) :: u16) = 0"
    and "drop_bit 16 (ucast p :: u32) = 0" and "push_bit 16 (push_bit 16 h) = 0"
  using split_word_16 [of h]
  by - (rule bit_word_eqI; auto simp: bit_simps not_le dest: bit_imp_le_length)+

lemma mac_words:
  fixes m0 m1 m2 m3 m4 m5 :: u8 and v :: u16
  defines "d1 \<equiv> push_bit 24 (ucast m2 :: u32) OR push_bit 16 (ucast m3) OR push_bit 8 (ucast m4) OR ucast m5"
    and "d2 \<equiv> push_bit 8 (ucast m0 :: u32) OR ucast m1"
  shows "ucast (drop_bit 8 d2) = m0" "ucast d2 = m1" "ucast (drop_bit 24 d1) = m2" "ucast (drop_bit 16 d1) = m3"
    "ucast (drop_bit 8 d1) = m4" "ucast d1 = m5" "(ucast (ucast v :: u32) :: u16) = v"
  by (rule bit_word_eqI; auto simp: d1_def d2_def bit_simps dest: bit_imp_le_length)+

text \<open>
  Converting a filter to a generic specification and back gives the same filter, for the filters that
  come from a generic specification.
\<close>

lemma to_gen_ip_from:
  assumes d: "from_gen_ip g isf = Inr (ty, d)" and s: "fs_type s = ty" "fs_data s = d"
    and tx: "has_flag (fs_flags s) EFX_FILTER_FLAG_TX = has_flag (gs_flags g) EFX_FILTER_FLAG_TX"
    and g': "gs_flags g' = gs_flags g" "length (gs_loc_host g') = 4" "length (gs_rem_host g') = 4"
  shows "from_gen_ip (to_gen_ip s isf g') isf = Inr (ty, d)"
proof -
  have ok: "gs_ether_type g = ETH_P_IP" "gs_loc_port g \<noteq> 0" "isf \<Longrightarrow> gs_rem_port g \<noteq> 0"
    "gs_ip_proto g = IPPROTO_TCP \<or> gs_ip_proto g = IPPROTO_UDP"
    using d by (auto simp: from_gen_ip_def split: if_splits)
  define tcp where "tcp = (gs_ip_proto g = IPPROTO_TCP)"
  have proto: "gs_ip_proto g = (if tcp then IPPROTO_TCP else IPPROTO_UDP)"
    using ok(4) by (auto simp: tcp_def)
  define t where "t = has_flag (gs_flags g) EFX_FILTER_FLAG_TX"
  obtain d0 d1 d2 where fd: "fs_data s = (d0, d1, d2)"
    by (metis surj_pair)
  have protos: "IPPROTO_UDP \<noteq> IPPROTO_TCP"
    by simp
  have eq: "from_gen_ip g isf = Inr (ty, (d0, d1, d2))"
    using d s fd by simp
  show ?thesis
    unfolding s(2) [symmetric] fd
    by (cases t; cases isf; cases tcp, use eq s(1) ok(1-3) proto tx g' in \<open>auto simp: from_gen_ip_def to_gen_ip_def Let_def ip_words ip_words_wild protos t_def [symmetric] fd simp del: drop_bit_or push_bit_or unsigned_or_eq\<close>)
      (drule sym [of "Suc 0"], simp)+
qed

lemma to_gen_mac_from:
  assumes "from_gen_mac g isf = (fs_type s, fs_data s)"
  shows "from_gen_mac (to_gen_mac s isf g') isf = (fs_type s, fs_data s)"
  using assms by (cases isf)
    (auto simp: from_gen_mac_def to_gen_mac_def Let_def mac_words mac_words(7) [of 0, simplified] split: prod.splits
      simp del: drop_bit_or push_bit_or unsigned_or_eq)

lemma to_gen_flags [simp]:
  "gs_flags (to_gen_ip s isf g) = gs_flags g" "gs_priority (to_gen_ip s isf g) = gs_priority g"
  "gs_dmaq_id (to_gen_ip s isf g) = gs_dmaq_id g" "gs_rss_context (to_gen_ip s isf g) = gs_rss_context g"
  "gs_vport_id (to_gen_ip s isf g) = gs_vport_id g"
  "gs_match_flags (to_gen_ip s isf g) = (if isf then MATCH_IP_FULL else MATCH_IP_WILD)"
  "gs_flags (to_gen_mac s isf g) = gs_flags g" "gs_priority (to_gen_mac s isf g) = gs_priority g"
  "gs_dmaq_id (to_gen_mac s isf g) = gs_dmaq_id g" "gs_rss_context (to_gen_mac s isf g) = gs_rss_context g"
  "gs_vport_id (to_gen_mac s isf g) = gs_vport_id g"
  "gs_match_flags (to_gen_mac s isf g) = (if isf then MATCH_MAC_FULL else EFX_FILTER_MATCH_LOC_MAC)"
  by (simp_all add: to_gen_ip_def to_gen_mac_def Let_def split: prod.splits)

lemma zero_gen_spec_sel [simp]:
  "gs_rss_context zero_gen_spec = 0" "gs_vport_id zero_gen_spec = 0" "length (gs_loc_host zero_gen_spec) = 4"
  "length (gs_rem_host zero_gen_spec) = 4" "length (gs_loc_mac zero_gen_spec) = 6"
  by (simp_all add: zero_gen_spec_def)

text \<open>The type a combination of match flags gives.\<close>

lemma from_gen_shape:
  assumes "efx_farch_filter_from_gen_spec g = Inr s"
  shows "from_gen_ip g True = Inr (fs_type s, fs_data s) \<or> from_gen_ip g False = Inr (fs_type s, fs_data s) \<or>
    from_gen_mac g True = (fs_type s, fs_data s) \<or> from_gen_mac g False = (fs_type s, fs_data s) \<or>
    (fs_type s = EFX_FARCH_FILTER_UC_DEF \<or> fs_type s = EFX_FARCH_FILTER_MC_DEF) \<and> fs_data s = (0, 0, 0)"
  using assms unfolding efx_farch_filter_from_gen_spec_def Let_def
  by (auto simp: map_sum_def split: if_splits sum.splits prod.splits)

lemma from_gen_ip_types:
  "from_gen_ip g True = Inr (ty, d) \<Longrightarrow> ty = EFX_FARCH_FILTER_TCP_FULL \<or> ty = EFX_FARCH_FILTER_UDP_FULL"
  "from_gen_ip g False = Inr (ty, d) \<Longrightarrow> ty = EFX_FARCH_FILTER_TCP_WILD \<or> ty = EFX_FARCH_FILTER_UDP_WILD"
  by (auto simp: from_gen_ip_def Let_def split: if_splits prod.splits)

lemma from_gen_mac_types:
  "from_gen_mac g True = (ty, d) \<Longrightarrow> ty = EFX_FARCH_FILTER_MAC_FULL"
  "from_gen_mac g False = (ty, d) \<Longrightarrow> ty = EFX_FARCH_FILTER_MAC_WILD"
  by (auto simp: from_gen_mac_def Let_def)

lemma farch_spec_eqI:
  "fs_type s = t \<Longrightarrow> fs_priority s = p \<Longrightarrow> fs_flags s = f \<Longrightarrow> fs_dmaq_id s = q \<Longrightarrow> fs_data s = d \<Longrightarrow>
   \<lparr>fs_type = t, fs_priority = p, fs_flags = f, fs_dmaq_id = q, fs_data = d\<rparr> = s"
  by (cases s) simp

lemma from_to_gen:
  assumes g: "efx_farch_filter_from_gen_spec g = Inr s"
  shows "efx_farch_filter_from_gen_spec (efx_farch_filter_to_gen_spec s) = Inr s"
proof -
  note props = from_gen_spec_props [OF g]
  have pri: "fs_priority s mod 16 = fs_priority s"
    using props(1) by simp
  let ?g = "zero_gen_spec\<lparr>gs_priority := fs_priority s, gs_flags := fs_flags s, gs_dmaq_id := fs_dmaq_id s\<rparr>"
  have len: "length (gs_loc_host ?g) = 4" "length (gs_rem_host ?g) = 4" "gs_flags ?g = gs_flags g"
    using props(2) by simp_all
  note ip = to_gen_ip_from [OF _ refl refl _ len(3,1,2), of _ s]
  have tx: "has_flag (fs_flags s) EFX_FILTER_FLAG_TX = has_flag (gs_flags g) EFX_FILTER_FLAG_TX"
    using props(2) by simp
  consider (ipf) "from_gen_ip g True = Inr (fs_type s, fs_data s)" | (ipw) "from_gen_ip g False = Inr (fs_type s, fs_data s)"
    | (macf) "from_gen_mac g True = (fs_type s, fs_data s)" | (macw) "from_gen_mac g False = (fs_type s, fs_data s)"
    | (def) "fs_type s = EFX_FARCH_FILTER_UC_DEF \<or> fs_type s = EFX_FARCH_FILTER_MC_DEF" "fs_data s = (0, 0, 0)"
    using from_gen_shape [OF g] by blast
  then show ?thesis
  proof cases
    case ipf
    have to: "efx_farch_filter_to_gen_spec s = to_gen_ip s True ?g"
      using from_gen_ip_types(1) [OF ipf] by (auto simp: efx_farch_filter_to_gen_spec_def Let_def)
    have "from_gen_ip (to_gen_ip s True ?g) True = Inr (fs_type s, fs_data s)"
      by (rule ip [OF ipf tx])
    then show ?thesis
      unfolding to efx_farch_filter_from_gen_spec_def Let_def by (simp add: pri farch_spec_eqI)
  next
    case ipw
    have to: "efx_farch_filter_to_gen_spec s = to_gen_ip s False ?g"
      using from_gen_ip_types(2) [OF ipw] by (auto simp: efx_farch_filter_to_gen_spec_def Let_def)
    have "from_gen_ip (to_gen_ip s False ?g) False = Inr (fs_type s, fs_data s)"
      by (rule ip [OF ipw tx])
    then show ?thesis
      unfolding to efx_farch_filter_from_gen_spec_def Let_def by (simp add: pri farch_spec_eqI match_distinct)
  next
    case macf
    have to: "efx_farch_filter_to_gen_spec s = to_gen_mac s True ?g"
      using from_gen_mac_types(1) [OF macf] by (auto simp: efx_farch_filter_to_gen_spec_def Let_def)
    show ?thesis
      unfolding to efx_farch_filter_from_gen_spec_def Let_def
      by (simp add: pri farch_spec_eqI match_distinct to_gen_mac_from [OF macf])
  next
    case macw
    have to: "efx_farch_filter_to_gen_spec s = to_gen_mac s False ?g"
      using from_gen_mac_types(2) [OF macw] by (auto simp: efx_farch_filter_to_gen_spec_def Let_def)
    show ?thesis
      unfolding to efx_farch_filter_from_gen_spec_def Let_def
      by (simp add: pri farch_spec_eqI match_distinct to_gen_mac_from [OF macw])
  next
    case def
    then show ?thesis
      by (auto simp: efx_farch_filter_to_gen_spec_def efx_farch_filter_from_gen_spec_def Let_def pri
          match_distinct [symmetric] is_multicast_ether_addr_def zero_gen_spec_def
          MATCH_IP_FULL_def MATCH_IP_WILD_def MATCH_MAC_FULL_def intro!: farch_spec_eqI)
  qed
qed

end
