(* ===== verification/Farch_Props.thy ===== *)
theory Farch_Props
  imports Farch_Ids
begin

unbundle bit_operations_syntax

section \<open>Properties of the filter tables\<close>

text \<open>
  The reachable states of the filter tables, the interface of a store of filters with its laws, and
  the properties of farch.c: the tables stay well formed and no call names a \<open>BUG\<close>; insertion and
  removal refine the update of a map; identifiers, generic specifications and table entries can be
  read back; a reset is undone by restore.
\<close>

subsection \<open>A store of filters\<close>

datatype ('g, 'i) filter_op = Put 'g | Del 'i

primrec run_ops :: "('g \<Rightarrow> 's \<Rightarrow> (int \<times> 's) option) \<Rightarrow> ('i \<Rightarrow> 's \<Rightarrow> (int \<times> 's) option) \<Rightarrow> ('g, 'i) filter_op list
    \<Rightarrow> 's \<Rightarrow> 's option" where
  "run_ops put del [] s = Some s"
| "run_ops put del (op # ops) s =
     Option.bind (case op of Put g \<Rightarrow> put g s | Del i \<Rightarrow> del i s) (\<lambda>(rc, s'). run_ops put del ops s')"

definition op_fits :: "('g \<Rightarrow> bool) \<Rightarrow> ('i \<Rightarrow> bool) \<Rightarrow> ('g, 'i) filter_op \<Rightarrow> bool" where
  "op_fits valid valid_del op \<longleftrightarrow> (case op of Put g \<Rightarrow> valid g | Del i \<Rightarrow> valid_del i)"

text \<open>
  A store keeps values in slots. \<open>key\<close> is the key that a value is put under, \<open>key_of\<close> that of a value in
  a slot; \<open>names i l v\<close> says that a removal by \<open>i\<close> means the value \<open>v\<close> in the slot \<open>l\<close>.
\<close>

definition addressed :: "('g \<Rightarrow> 'k option) \<Rightarrow> ('i \<Rightarrow> 'l \<Rightarrow> 'v \<Rightarrow> bool) \<Rightarrow> ('v \<Rightarrow> 'k) \<Rightarrow> 'l \<Rightarrow> 'v \<Rightarrow> ('g, 'i) filter_op \<Rightarrow> bool" where
  "addressed key names key_of l v op \<longleftrightarrow> (case op of Put g \<Rightarrow> key g = Some (key_of v) | Del i \<Rightarrow> names i l v)"

locale filter_store =
  fixes inv :: "'s \<Rightarrow> bool" and look :: "'s \<Rightarrow> 'l \<Rightarrow> 'v option" and valid :: "'g \<Rightarrow> bool" and valid_del :: "'i \<Rightarrow> bool"
    and key :: "'g \<Rightarrow> 'k option" and key_of :: "'v \<Rightarrow> 'k" and names :: "'i \<Rightarrow> 'l \<Rightarrow> 'v \<Rightarrow> bool"
    and put :: "'g \<Rightarrow> 's \<Rightarrow> (int \<times> 's) option" and del :: "'i \<Rightarrow> 's \<Rightarrow> (int \<times> 's) option"
  assumes put_law: "inv s \<Longrightarrow> valid g \<Longrightarrow> \<exists>rc s'. put g s = Some (rc, s') \<and> inv s' \<and>
      (\<forall>l v. look s l = Some v \<longrightarrow> key g \<noteq> Some (key_of v) \<longrightarrow> look s' l = Some v)"
    and del_law: "inv s \<Longrightarrow> valid_del i \<Longrightarrow> \<exists>rc s'. del i s = Some (rc, s') \<and> inv s' \<and>
      (\<forall>l v. look s l = Some v \<longrightarrow> \<not> names i l v \<longrightarrow> look s' l = Some v)"
begin

lemma run_total:
  assumes "inv s" and "list_all (op_fits valid valid_del) ops"
  shows "\<exists>s'. run_ops put del ops s = Some s' \<and> inv s' \<and>
    (\<forall>l v. look s l = Some v \<longrightarrow> list_all (\<lambda>op. \<not> addressed key names key_of l v op) ops \<longrightarrow> look s' l = Some v)"
  using assms
proof (induction ops arbitrary: s)
  case Nil
  then show ?case by simp
next
  case (Cons op ops)
  have "\<exists>rc s'. (case op of Put g \<Rightarrow> put g s | Del i \<Rightarrow> del i s) = Some (rc, s') \<and> inv s' \<and>
      (\<forall>l v. look s l = Some v \<longrightarrow> \<not> addressed key names key_of l v op \<longrightarrow> look s' l = Some v)"
  proof (cases op)
    case (Put g)
    with Cons.prems put_law [of s g] show ?thesis
      by (simp add: op_fits_def addressed_def)
  next
    case (Del i)
    with Cons.prems del_law [of s i] show ?thesis
      by (simp add: op_fits_def addressed_def)
  qed
  then obtain rc s1 where s1: "(case op of Put g \<Rightarrow> put g s | Del i \<Rightarrow> del i s) = Some (rc, s1)" "inv s1"
    "\<And>l v. look s l = Some v \<Longrightarrow> \<not> addressed key names key_of l v op \<Longrightarrow> look s1 l = Some v"
    by blast
  obtain s' where s': "run_ops put del ops s1 = Some s'" "inv s'"
    "\<And>l v. look s1 l = Some v \<Longrightarrow> list_all (\<lambda>op. \<not> addressed key names key_of l v op) ops \<Longrightarrow> look s' l = Some v"
    using Cons.IH [OF s1(2)] Cons.prems(2) by auto
  with s1 show ?case
    by auto
qed

end

text \<open>The tables of farch.c are such a store, of slots named by table and index.\<close>

definition gen_key :: "efx_filter_spec \<Rightarrow> (nat \<times> nat \<times> (u32 \<times> u32 \<times> u32) \<times> u16) option" where
  "gen_key g = (case efx_farch_filter_from_gen_spec g of Inl _ \<Rightarrow> None | Inr s \<Rightarrow> Some (fkey s))"

definition slot :: "farch \<Rightarrow> nat \<times> nat \<Rightarrow> farch_spec option" where
  "slot st l = (let t = fa_table st ! fst l in if used_at t (snd l) then Some (ft_spec t ! snd l) else None)"

text \<open>A removal means the filter in a slot if its identifier names the slot and its priority is the filter's.\<close>

definition removal_hits :: "nat \<times> u32 \<Rightarrow> nat \<times> nat \<Rightarrow> farch_spec \<Rightarrow> bool" where
  "removal_hits i l v \<longleftrightarrow> fs_priority v = fst i \<and>
     l = (efx_farch_filter_id_table_id (snd i), efx_farch_filter_id_index (snd i))"

lemma farch_put_slots:
  assumes "farch_ok st" and "gen_ok g" and "efx_farch_filter_insert g r st = Some (rc, st')"
    and "slot st l = Some v" and "gen_key g \<noteq> Some (fkey v)"
  shows "slot st' l = Some v"
proof -
  have post: "case efx_farch_filter_from_gen_spec g of Inl e \<Rightarrow> rc = e \<and> st' = st | Inr s \<Rightarrow> insert_post g s r st (rc, st')"
    using insert_ok [OF assms(1,2), of r] assms(3) by auto
  have l: "used_at (fa_table st ! fst l) (snd l)" "ft_spec (fa_table st ! fst l) ! snd l = v"
    using assms(4) by (auto simp: slot_def Let_def split: if_splits)
  show ?thesis
  proof (cases "efx_farch_filter_from_gen_spec g")
    case (Inl e)
    with post assms(4) show ?thesis by simp
  next
    case (Inr s)
    then have "st' = st \<or> others_stay s st st'"
      using post by (auto simp: insert_post_def split: if_splits sum.splits)
    with assms(4,5) Inr l show ?thesis
      by (auto simp: others_stay_def gen_key_def slot_def Let_def)
  qed
qed

lemma farch_del_slots:
  assumes ok: "farch_ok st" and auto: "priority \<noteq> EFX_FILTER_PRI_AUTO"
    and del: "efx_farch_filter_remove_safe priority fid st = Some (rc, st')"
    and l: "slot st l = Some v" and names: "\<not> removal_hits (priority, fid) l v"
  shows "slot st' l = Some v"
proof -
  let ?tid = "efx_farch_filter_id_table_id fid" and ?i = "efx_farch_filter_id_index fid"
  show ?thesis
  proof (cases "?tid < 5 \<and> ?i < ft_size (fa_table st ! ?tid)")
    case False
    then have "st' = st"
      using del by (auto simp: efx_farch_filter_remove_safe_def Let_def split: if_splits)
    with l show ?thesis by simp
  next
    case True
    then have rm: "efx_farch_filter_remove ?tid ?i priority st = Some (rc, st')"
      using del by (simp add: efx_farch_filter_remove_safe_def Let_def)
    have post: "if used_at (fa_table st ! ?tid) ?i \<and> fs_priority (ft_spec (fa_table st ! ?tid) ! ?i) = priority then True
        else st' = st" "slots_but ?i (fa_table st ! ?tid) (fa_table st' ! ?tid)"
      using remove_ok [OF ok, of ?tid ?i priority] True auto rm by (auto simp: Let_def split: if_splits)
    show ?thesis
    proof (cases "l = (?tid, ?i)")
      case at: True
      with l names have "\<not> (used_at (fa_table st ! ?tid) ?i \<and> fs_priority (ft_spec (fa_table st ! ?tid) ! ?i) = priority)"
        by (auto simp: slot_def removal_hits_def Let_def)
      with post(1) l show ?thesis by (auto split: if_splits)
    next
      case False
      then consider "fst l \<noteq> ?tid" | "fst l = ?tid" "snd l \<noteq> ?i"
        by (cases l) auto
      then show ?thesis
        using l post(2) remove_other [OF rm, of "fst l"] by cases (auto simp: slot_def slots_but_def Let_def)
    qed
  qed
qed

lemma get_safe_used:
  assumes "efx_farch_filter_get_safe priority fid st = Inr g"
  defines "tid \<equiv> efx_farch_filter_id_table_id fid" and "i \<equiv> efx_farch_filter_id_index fid"
  shows "tid < 5" "used_at (fa_table st ! tid) i" "fs_priority (ft_spec (fa_table st ! tid) ! i) = priority"
    "g = efx_farch_filter_to_gen_spec (ft_spec (fa_table st ! tid) ! i)"
  using assms by (auto simp: efx_farch_filter_get_safe_def Let_def used_at_def split: if_splits)

text \<open>A used slot holds the filter of its key.\<close>

lemma filters_used:
  assumes ok: "farch_ok st" and tid: "tid < 5" and u: "used_at (fa_table st ! tid) i"
  shows "filters st (fkey (ft_spec (fa_table st ! tid) ! i)) = Some (ft_spec (fa_table st ! tid) ! i)"
proof -
  let ?t = "fa_table st ! tid"
  have t: "tables_ok (fa_table st)"
    using ok by (simp add: farch_ok_def)
  note geo = geometry_nth [OF tables_ok_D(1) [OF t]]
  show ?thesis
  proof (cases "tid = 2")
    case True
    have def: "def_ok ?t" "ft_size ?t = 2"
      using tables_ok_D(3) [OF t] geo True by simp_all
    have i: "i < 2"
      using u def by (simp add: used_at_def)
    then have "fkey (ft_spec ?t ! i) = (2, 8 + i, (0, 0, 0), 0)"
      using def by (intro fkey_def_spec) (simp_all add: def_ok_def)
    with i True geo(1) lookup_def_table [OF def] show ?thesis
      by (auto simp: filters_def)
  next
    case False
    then have h: "hash_tid tid"
      using tid by (auto simp: hash_tid_def)
    have hk: "hash_ok ?t"
      using tables_ok_D(2) [OF t h] .
    then have "efx_farch_filter_spec_table_id (ft_spec ?t ! i) = tid"
      using u geo(2) [OF tid] by (simp add: hash_ok_def entry_ok_def)
    moreover have "lookup ?t (fkey (ft_spec ?t ! i)) = Some (ft_spec ?t ! i)"
      using lookup_hash [OF hk] u by blast
    ultimately show ?thesis
      using tid geo(1) by (simp add: filters_def fkey_def)
  qed
qed

subsection \<open>Reachable states\<close>

text \<open>
  The states from a set-up on: any order of insertions of specifications that fit the hardware,
  removals and clearings by a client other than the automatic filters, redirections of receive
  filters, changes of the scatter mode, and resets followed by a restore.
\<close>

inductive farch_reach :: "farch \<Rightarrow> bool" where
  start: "(\<forall>a. fa_mem st a = (0, 0)) \<Longrightarrow> farch_reach (efx_farch_filter_table_probe st)"
| insert: "farch_reach st \<Longrightarrow> gen_ok g \<Longrightarrow> efx_farch_filter_insert g r st = Some (rc, st') \<Longrightarrow> farch_reach st'"
| remove: "farch_reach st \<Longrightarrow> priority \<noteq> EFX_FILTER_PRI_AUTO \<Longrightarrow>
    efx_farch_filter_remove_safe priority fid st = Some (rc, st') \<Longrightarrow> farch_reach st'"
| clear: "farch_reach st \<Longrightarrow> priority \<noteq> EFX_FILTER_PRI_AUTO \<Longrightarrow> efx_farch_filter_clear_rx priority st = Some st' \<Longrightarrow>
    farch_reach st'"
| redirect: "farch_reach st \<Longrightarrow> unat rxq_i < 4096 \<Longrightarrow> efx_farch_filter_id_table_id fid \<notin> {3, 4} \<Longrightarrow>
    efx_farch_filter_redirect fid ctx rxq_i st = Some (rc, st') \<Longrightarrow> farch_reach st'"
| scatter: "farch_reach st \<Longrightarrow> efx_farch_filter_update_rx_scatter (st\<lparr>fa_rx_scatter := b\<rparr>) = Some st' \<Longrightarrow> farch_reach st'"
| restore: "farch_reach st \<Longrightarrow> efx_farch_filter_table_restore (reset_hw rx tx st) = Some st' \<Longrightarrow> farch_reach st'"

lemma farch_ok_cfg: "farch_ok (st\<lparr>fa_rx_scatter := b\<rparr>) = farch_ok st"
  by (simp add: farch_ok_def mem_ok_def)

lemma reach_farch_ok: "farch_reach st \<Longrightarrow> farch_ok st"
proof (induction rule: farch_reach.induct)
  case (start st)
  then show ?case by (intro probe_ok(1)) simp
next
  case (insert st g r rc st')
  then show ?case using insert_ok [of st g r] by auto
next
  case (remove st priority fid rc st')
  then show ?case using remove_safe_ok [of st priority fid] by auto
next
  case (clear st priority st')
  then show ?case using clear_rx_ok [of st priority] by auto
next
  case (redirect st rxq_i fid ctx rc st')
  then show ?case using redirect_ok [of st rxq_i fid ctx] by auto
next
  case (scatter st b st')
  then show ?case using update_rx_scatter_ok [of "st\<lparr>fa_rx_scatter := b\<rparr>"] by (auto simp: farch_ok_cfg)
next
  case (restore st rx tx st')
  then show ?case using restore_ok [of st rx tx] by auto
qed

interpretation fs: filter_store farch_reach slot gen_ok "\<lambda>i. fst i \<noteq> EFX_FILTER_PRI_AUTO" gen_key fkey removal_hits
  "\<lambda>g. efx_farch_filter_insert g r" "\<lambda>i. efx_farch_filter_remove_safe (fst i) (snd i)" for r
proof
  fix s g
  assume a: "farch_reach s" "gen_ok g"
  then obtain rc s' where "efx_farch_filter_insert g r s = Some (rc, s')"
    using insert_ok [OF reach_farch_ok] by blast
  with farch_reach.insert [OF a] farch_put_slots [OF reach_farch_ok [OF a(1)] a(2)]
  show "\<exists>rc s'. efx_farch_filter_insert g r s = Some (rc, s') \<and> farch_reach s' \<and>
      (\<forall>l v. slot s l = Some v \<longrightarrow> gen_key g \<noteq> Some (fkey v) \<longrightarrow> slot s' l = Some v)"
    by blast
next
  fix s and i :: "nat \<times> u32"
  assume a: "farch_reach s" "fst i \<noteq> EFX_FILTER_PRI_AUTO"
  then obtain rc s' where "efx_farch_filter_remove_safe (fst i) (snd i) s = Some (rc, s')"
    using remove_safe_ok [OF reach_farch_ok] by blast
  with farch_reach.remove [OF a] farch_del_slots [OF reach_farch_ok [OF a(1)] a(2)]
  show "\<exists>rc s'. efx_farch_filter_remove_safe (fst i) (snd i) s = Some (rc, s') \<and> farch_reach s' \<and>
      (\<forall>l v. slot s l = Some v \<longrightarrow> \<not> removal_hits i l v \<longrightarrow> slot s' l = Some v)"
    by (metis prod.collapse)
qed

text \<open>A NIC after reset, and two specifications, for the witnesses.\<close>

definition blank_farch :: farch where
  "blank_farch = \<lparr>fa_table = [], fa_blocked_ucast = False, fa_blocked_mcast = False, fa_rss_enabled = False,
     fa_rx_scatter = False, fa_rx_channels = 4, fa_rx_filter_ctl = (0, 0), fa_tx_cfg = (0, 0), fa_mem = (\<lambda>_. (0, 0))\<rparr>"

definition demo_farch :: farch where
  "demo_farch = efx_farch_filter_table_probe blank_farch"

text \<open>TCP to 10.0.0.1 port 80, to queue 2.\<close>

definition demo_gen :: efx_filter_spec where
  "demo_gen = zero_gen_spec\<lparr>gs_match_flags := MATCH_IP_WILD, gs_priority := EFX_FILTER_PRI_MANUAL,
     gs_flags := EFX_FILTER_FLAG_RX, gs_dmaq_id := 2, gs_ether_type := ETH_P_IP, gs_ip_proto := IPPROTO_TCP,
     gs_loc_host := [0x0a000001, 0, 0, 0], gs_loc_port := 80\<rparr>"

definition demo_filter :: farch_spec where
  "demo_filter = \<lparr>fs_type = EFX_FARCH_FILTER_TCP_WILD, fs_priority = EFX_FILTER_PRI_MANUAL,
     fs_flags = EFX_FILTER_FLAG_RX, fs_dmaq_id = 2, fs_data = (0, 0x00500000, 0x0a000001)\<rparr>"

lemma demo_farch_ok: "farch_ok demo_farch" "farch_reach demo_farch"
  unfolding demo_farch_def by (auto intro!: probe_ok farch_reach.start simp: blank_farch_def)

lemma demo_gen_ok: "gen_ok demo_gen" "efx_farch_filter_from_gen_spec demo_gen = Inr demo_filter"
  by code_simp+

text \<open>The identifier returned on success leads back to the filter.\<close>

lemma insert_id:
  assumes ok: "farch_ok st'" and ty: "farch_type (fs_type s)" and way: "one_way s'" and sf: "same_filter s s'"
    and tid: "efx_farch_filter_spec_table_id s < 5"
    and u: "used_at (fa_table st' ! efx_farch_filter_spec_table_id s) i" "ft_spec (fa_table st' ! efx_farch_filter_spec_table_id s) ! i = s'"
    and rc: "rc = sint (efx_farch_filter_make_id s' i)"
  shows "0 \<le> rc" "efx_farch_filter_id_table_id (word_of_int rc) = efx_farch_filter_spec_table_id s"
    "efx_farch_filter_id_index (word_of_int rc) = i"
    "efx_farch_filter_get_safe (fs_priority s') (word_of_int rc) st' = Inr (efx_farch_filter_to_gen_spec s')"
proof -
  have id: "efx_farch_filter_spec_table_id s' = efx_farch_filter_spec_table_id s"
    using same_filter_id [OF sf] by simp
  have "map table_shape (fa_table st') = geometry"
    using ok by (simp add: farch_ok_def tables_ok_def)
  from geometry_nth(3) [OF this tid] have "ft_size (fa_table st' ! efx_farch_filter_spec_table_id s) \<le> 8192"
    using tid by (auto simp: less_Suc_eq numeral_eq_Suc)
  then have i: "i < 8192"
    using u(1) by (simp add: used_at_def)
  have ty': "farch_type (fs_type s')"
    using ty sf by (simp add: same_filter_def)
  note dec = id_decodes [OF ty' way _ i, unfolded id, OF tid]
  have w: "word_of_int rc = efx_farch_filter_make_id s' i"
    by (simp add: rc)
  show "0 \<le> rc"
    using dec(3) rc by simp
  show d: "efx_farch_filter_id_table_id (word_of_int rc) = efx_farch_filter_spec_table_id s"
    "efx_farch_filter_id_index (word_of_int rc) = i"
    using dec(1,2) by (simp_all add: w)
  show "efx_farch_filter_get_safe (fs_priority s') (word_of_int rc) st' = Inr (efx_farch_filter_to_gen_spec s')"
    using u tid by (simp add: efx_farch_filter_get_safe_def Let_def d used_at_def)
qed

text \<open>The state after the insertion of the demonstration filter, and its identifier.\<close>

definition demo_after :: farch where
  "demo_after = snd (the (efx_farch_filter_insert demo_gen True demo_farch))"

definition demo_rc :: int where
  "demo_rc = fst (the (efx_farch_filter_insert demo_gen True demo_farch))"

definition demo_index :: nat where
  "demo_index = efx_farch_filter_id_index (word_of_int demo_rc)"

lemma demo_filter_table: "efx_farch_filter_spec_table_id demo_filter = 0" "one_way demo_filter"
  by code_simp+

lemma demo_free:
  "\<not> blocked demo_gen demo_filter demo_farch" "\<not> full demo_filter demo_farch" "filters demo_farch (fkey demo_filter) = None"
proof -
  show "\<not> blocked demo_gen demo_filter demo_farch"
    by (simp add: blocked_def demo_filter_def)
  have "\<not> used_at (fa_table demo_farch ! 0) j" for j
    by (auto simp: used_at_def demo_farch_def efx_farch_filter_table_probe_def Let_def init_table_def)
  moreover have "[1..<max_depth demo_filter + 1] = 1 # [2..<max_depth demo_filter + 1]"
    by (simp add: max_depth_def upt_conv_Cons)
  ultimately show "\<not> full demo_filter demo_farch"
    by (simp add: full_def demo_filter_table Let_def)
  show "filters demo_farch (fkey demo_filter) = None"
    using probe_ok(2) [of blank_farch "fkey demo_filter"]
    by (auto simp: demo_farch_def blank_farch_def fkey_def demo_filter_table)
qed

lemma demo_inserted:
  "efx_farch_filter_insert demo_gen True demo_farch = Some (demo_rc, demo_after)" "farch_reach demo_after" "0 \<le> demo_rc"
  "used_at (fa_table demo_after ! 0) demo_index" "ft_spec (fa_table demo_after ! 0) ! demo_index = demo_filter"
  "efx_farch_filter_id_table_id (word_of_int demo_rc) = 0"
proof -
  obtain rc st' where st': "efx_farch_filter_insert demo_gen True demo_farch = Some (rc, st')" "farch_ok st'"
    "insert_post demo_gen demo_filter True demo_farch (rc, st')"
    using insert_ok [OF demo_farch_ok(1) demo_gen_ok(1), of True] by (auto simp: demo_gen_ok(2))
  then show ins: "efx_farch_filter_insert demo_gen True demo_farch = Some (demo_rc, demo_after)"
    by (simp add: demo_rc_def demo_after_def)
  then show "farch_reach demo_after"
    by (rule farch_reach.insert [OF demo_farch_ok(2) demo_gen_ok(1)])
  have eq: "rc = demo_rc" "st' = demo_after"
    using ins st'(1) by simp_all
  obtain i where i: "used_at (fa_table demo_after ! 0) i" "ft_spec (fa_table demo_after ! 0) ! i = demo_filter"
    "demo_rc = sint (efx_farch_filter_make_id demo_filter i)"
    using st'(3) demo_free by (auto simp: insert_post_def insert_new_def demo_filter_table eq)
  have ok: "farch_ok demo_after"
    using st'(2) eq by simp
  have ty: "farch_type (fs_type demo_filter)"
    by (simp add: farch_type_def demo_filter_def)
  note id = insert_id [OF ok ty demo_filter_table(2) _ _ _ _ i(3), unfolded demo_filter_table same_filter_def, OF _ _ i(1,2)]
  show "0 \<le> demo_rc" "efx_farch_filter_id_table_id (word_of_int demo_rc) = 0"
    using id(1,2) by simp_all
  have "demo_index = i"
    using id(3) by (simp add: demo_index_def)
  with i show "used_at (fa_table demo_after ! 0) demo_index" "ft_spec (fa_table demo_after ! 0) ! demo_index = demo_filter"
    by simp_all
qed

subsection \<open>The properties\<close>

text \<open>
  C14: from set-up on, no sequence of calls names a \<open>BUG\<close>, an assertion or an access outside a
  table: in every reachable state each operation of the filter tables returns.
\<close>

theorem farch_never_stuck:
  assumes "farch_reach st" and "gen_ok g" and "priority \<noteq> EFX_FILTER_PRI_AUTO" and "unat rxq_i < 4096"
    and "efx_farch_filter_id_table_id fid \<notin> {3, 4}"
  shows "efx_farch_filter_insert g r st \<noteq> None \<and> efx_farch_filter_remove_safe priority fid' st \<noteq> None \<and>
    efx_farch_filter_clear_rx priority st \<noteq> None \<and> efx_farch_filter_redirect fid ctx rxq_i st \<noteq> None \<and>
    efx_farch_filter_update_rx_scatter (st\<lparr>fa_rx_scatter := b\<rparr>) \<noteq> None \<and>
    efx_farch_filter_table_restore (reset_hw rx tx st) \<noteq> None"
proof -
  have ok: "farch_ok st"
    by (rule reach_farch_ok [OF assms(1)])
  then have "farch_ok (st\<lparr>fa_rx_scatter := b\<rparr>)"
    by (simp add: farch_ok_cfg)
  then show ?thesis
    using insert_ok [OF ok assms(2), of r] remove_safe_ok [OF ok assms(3), of fid'] clear_rx_ok [OF ok assms(3)]
      redirect_ok [OF ok assms(4), of fid ctx] assms(5) update_rx_scatter_ok restore_ok [OF ok, of rx tx]
    by fastforce
qed

lemma farch_never_stuck_witness:
  "efx_farch_filter_insert demo_gen True demo_farch \<noteq> None \<and> efx_farch_filter_clear_rx EFX_FILTER_PRI_MANUAL demo_farch \<noteq> None"
  using farch_never_stuck [OF demo_farch_ok(2) demo_gen_ok(1), of EFX_FILTER_PRI_MANUAL 1 0 True]
  by (simp add: efx_farch_filter_id_table_id_def efx_farch_filter_range_table_def)

text \<open>
  C15: insertion refines the update of a map from match keys to filters. An error leaves everything
  as it was; the table is reported full only when the key is new and every slot of the probe sequence
  is taken; otherwise the filter found under the key decides whether it is replaced, and on success
  exactly the entry of the key changes and the identifier returned names the slot that holds it.
\<close>

theorem farch_insert_refines:
  assumes "farch_reach st" and "gen_ok g"
  shows "\<exists>rc st'. efx_farch_filter_insert g r st = Some (rc, st') \<and> farch_reach st' \<and>
    (case efx_farch_filter_from_gen_spec g of
       Inl e \<Rightarrow> rc = e \<and> st' = st
     | Inr s \<Rightarrow>
         if blocked g s st then rc = - EPERM \<and> st' = st
         else rc = - EBUSY \<and> st' = st \<and> full s st \<and> filters st (fkey s) = None \<or>
           (case insert_new s r (filters st (fkey s)) of
              Inl e \<Rightarrow> rc = e \<and> st' = st
            | Inr s' \<Rightarrow> filters st' = (filters st)(fkey s := Some s') \<and>
                (\<exists>i. used_at (fa_table st' ! efx_farch_filter_spec_table_id s) i \<and>
                   ft_spec (fa_table st' ! efx_farch_filter_spec_table_id s) ! i = s' \<and>
                   rc = sint (efx_farch_filter_make_id s' i))))"
proof -
  obtain rc st' where st': "efx_farch_filter_insert g r st = Some (rc, st')"
    "case efx_farch_filter_from_gen_spec g of Inl e \<Rightarrow> rc = e \<and> st' = st | Inr s \<Rightarrow> insert_post g s r st (rc, st')"
    using insert_ok [OF reach_farch_ok [OF assms(1)] assms(2)] by blast
  moreover have "farch_reach st'"
    by (rule farch_reach.insert [OF assms st'(1)])
  ultimately show ?thesis
    by (intro exI [of _ rc] exI [of _ st'] conjI) (auto simp: insert_post_def split: sum.splits if_splits)
qed

lemma farch_insert_refines_witness:
  "\<exists>rc st'. efx_farch_filter_insert demo_gen True demo_farch = Some (rc, st') \<and>
     (rc = - EBUSY \<or> filters st' (fkey demo_filter) = Some demo_filter)"
  using farch_insert_refines [OF demo_farch_ok(2) demo_gen_ok(1), of True] demo_gen_ok(2) demo_free
  by (fastforce simp: insert_new_def)

text \<open>
  C16: removal by identifier refines the removal from the map: it succeeds exactly when a lookup with
  the identifier and the priority does, and takes the filter out, or puts the automatic one back in
  the place of a default filter; otherwise it changes nothing.
\<close>

theorem farch_remove_refines:
  assumes "farch_reach st" and "priority \<noteq> EFX_FILTER_PRI_AUTO"
  shows "\<exists>rc st'. efx_farch_filter_remove_safe priority fid st = Some (rc, st') \<and>
    (case efx_farch_filter_get_safe priority fid st of
       Inl e \<Rightarrow> rc = e \<and> st' = st
     | Inr g \<Rightarrow> rc = 0 \<and>
         (let tid = efx_farch_filter_id_table_id fid; s = ft_spec (fa_table st ! tid) ! efx_farch_filter_id_index fid in
          filters st (fkey s) = Some s \<and> efx_farch_filter_to_gen_spec s = g \<and>
          filters st' = (filters st)(fkey s := left_over tid st s)))"
proof -
  have ok: "farch_ok st"
    by (rule reach_farch_ok [OF assms(1)])
  show ?thesis
  proof (cases "efx_farch_filter_get_safe priority fid st")
    case (Inl e)
    with remove_safe_ok [OF ok assms(2), of fid] show ?thesis by auto
  next
    case (Inr g)
    note u = get_safe_used [OF Inr]
    show ?thesis
      using remove_safe_ok [OF ok assms(2), of fid] Inr filters_used [OF ok u(1,2)] u(4)
      by (auto simp: Let_def)
  qed
qed

lemma farch_remove_refines_witness:
  "\<exists>st'. efx_farch_filter_remove_safe EFX_FILTER_PRI_MANUAL (word_of_int demo_rc) demo_after = Some (0, st') \<and>
     filters st' (fkey demo_filter) = None"
proof -
  have "efx_farch_filter_get_safe EFX_FILTER_PRI_MANUAL (word_of_int demo_rc) demo_after =
      Inr (efx_farch_filter_to_gen_spec demo_filter)"
    using demo_inserted(4-6)
    by (simp add: efx_farch_filter_get_safe_def demo_index_def used_at_def demo_filter_def Let_def)
  with farch_remove_refines [OF demo_inserted(2), of EFX_FILTER_PRI_MANUAL "word_of_int demo_rc"] demo_inserted(5,6)
  show ?thesis
    by (auto simp: Let_def left_over_def simp flip: demo_index_def)
qed

text \<open>
  C17: the NIC's copy of the tables is right in every reachable state: the memory of each slot holds
  the entry built from the filter in it, or zero if the slot is free.
\<close>

theorem farch_memory_mirrors:
  assumes "farch_reach st" and "tid \<in> {EFX_FARCH_FILTER_TABLE_RX_IP, EFX_FARCH_FILTER_TABLE_RX_MAC,
      EFX_FARCH_FILTER_TABLE_TX_IP, EFX_FARCH_FILTER_TABLE_TX_MAC}"
    and "i < ft_size (fa_table st ! tid)"
  shows "fa_mem st (entry_addr (fa_table st ! tid) i) =
    (if ft_used_bitmap (fa_table st ! tid) ! i
     then fst (the (efx_farch_filter_build (ft_spec (fa_table st ! tid) ! i))) else (0, 0))"
proof -
  have "hash_tid tid"
    using assms(2) by (simp add: hash_tid_def)
  with reach_farch_ok [OF assms(1)] assms(3) show ?thesis
    by (simp add: farch_ok_def mem_ok_def table_mem_def spec_entry_def)
qed

lemma farch_memory_mirrors_witness:
  "fa_mem demo_farch (entry_addr (fa_table demo_farch ! 0) 5) =
    (if ft_used_bitmap (fa_table demo_farch ! 0) ! 5
     then fst (the (efx_farch_filter_build (ft_spec (fa_table demo_farch ! 0) ! 5))) else (0, 0))"
proof (rule farch_memory_mirrors [OF demo_farch_ok(2)])
  show "5 < ft_size (fa_table demo_farch ! 0)"
    by (simp add: demo_farch_def efx_farch_filter_table_probe_def Let_def init_table_def)
qed simp

text \<open>
  C18: the hardware finds every installed filter: its slot is on the probe sequence of its key at a
  depth within the search limit that the control register holds for its type, less the slack that the
  pipeline of the hardware needs.
\<close>

definition limit_field :: "nat \<Rightarrow> nat \<Rightarrow> efx_field" where
  "limit_field tid ty = (if tid < 3
     then [FRF_BZ_TCP_FULL_SRCH_LIMIT, FRF_BZ_TCP_WILD_SRCH_LIMIT, FRF_BZ_UDP_FULL_SRCH_LIMIT, FRF_BZ_UDP_WILD_SRCH_LIMIT,
           FRF_CZ_ETHERNET_FULL_SEARCH_LIMIT, FRF_CZ_ETHERNET_WILDCARD_SEARCH_LIMIT] ! ty
     else [FRF_CZ_TX_TCPIP_FILTER_FULL_SEARCH_RANGE, FRF_CZ_TX_TCPIP_FILTER_WILD_SEARCH_RANGE,
           FRF_CZ_TX_UDPIP_FILTER_FULL_SEARCH_RANGE, FRF_CZ_TX_UDPIP_FILTER_WILD_SEARCH_RANGE,
           FRF_CZ_TX_ETH_FILTER_FULL_SEARCH_RANGE, FRF_CZ_TX_ETH_FILTER_WILD_SEARCH_RANGE] ! ty)"

definition search_fudge :: "nat \<Rightarrow> nat" where
  "search_fudge ty = (if even ty then EFX_FARCH_FILTER_CTL_SRCH_FUDGE_FULL else EFX_FARCH_FILTER_CTL_SRCH_FUDGE_WILD)"

definition limit_reg :: "nat \<Rightarrow> farch \<Rightarrow> oword" where
  "limit_reg tid st = (if tid < 3 then fa_rx_filter_ctl st else fa_tx_cfg st)"

lemma limit_reg_ok:
  assumes ok: "farch_ok st" and tid: "hash_tid tid" and ty: "ty < 6" "tid = ty div 4 \<or> tid = ty div 4 + 3"
    and nz: "ft_search_limit (fa_table st ! tid) ! ty \<noteq> 0"
  shows "unat (EFX_OWORD_FIELD (limit_reg tid st) (limit_field tid ty)) = ft_search_limit (fa_table st ! tid) ! ty + search_fudge ty"
proof -
  let ?l = "ft_search_limit (fa_table st ! tid)"
  have "?l ! ty \<le> EFX_FARCH_FILTER_CTL_SRCH_MAX"
    using ok tid ty(1) hash_ok_limit by (simp add: farch_ok_def tables_ok_def)
  then have "unat (of_nat (?l ! ty + search_fudge ty) :: u64) = ?l ! ty + search_fudge ty"
    by (simp add: unat_of_nat search_fudge_def del: of_nat_add)
  moreover have "EFX_OWORD_FIELD (limit_reg tid st) (limit_field tid ty) = hw_limit ?l ty (search_fudge ty)"
  proof -
    have tys: "ty = 0 \<or> ty = 1 \<or> ty = 2 \<or> ty = 3 \<or> ty = 4 \<or> ty = 5"
      using ty(1) by linarith
    have rx: "rx_fields_ok (ft_search_limit (fa_table st ! 0)) (ft_search_limit (fa_table st ! 1)) (ft_spec (fa_table st ! 2)) (fa_rx_filter_ctl st)"
      and tx: "tx_fields_ok (ft_search_limit (fa_table st ! 3)) (ft_search_limit (fa_table st ! 4)) (fa_tx_cfg st)"
      using ok by (simp_all add: farch_ok_def regs_ok_def)
    note defs = limit_reg_def limit_field_def search_fudge_def
    show ?thesis
    proof (cases "tid = ty div 4")
      case True
      with tys rx show ?thesis
        by (elim disjE) (simp_all add: rx_fields_ok_def defs del: One_nat_def)
    next
      case False
      then have "tid = ty div 4 + 3"
        using ty(2) by blast
      with tys tx nz show ?thesis
        by (elim disjE) (simp_all add: tx_fields_ok_def defs del: One_nat_def)
    qed
  qed
  ultimately show ?thesis
    by (simp add: hw_limit_def)
qed

theorem farch_hardware_finds:
  assumes reach: "farch_reach st" and tid: "tid \<in> {EFX_FARCH_FILTER_TABLE_RX_IP, EFX_FARCH_FILTER_TABLE_RX_MAC,
      EFX_FARCH_FILTER_TABLE_TX_IP, EFX_FARCH_FILTER_TABLE_TX_MAC}"
    and u: "used_at (fa_table st ! tid) i" and s: "s = ft_spec (fa_table st ! tid) ! i"
  shows "\<exists>d. 0 < d \<and> i = spec_slot (ft_size (fa_table st ! tid)) s d \<and>
    d + search_fudge (fs_type s) \<le> unat (EFX_OWORD_FIELD (limit_reg tid st) (limit_field tid (fs_type s)))"
proof -
  have ok: "farch_ok st"
    by (rule reach_farch_ok [OF reach])
  have h: "hash_tid tid"
    using tid by (simp add: hash_tid_def)
  have t: "tables_ok (fa_table st)"
    using ok by (simp add: farch_ok_def)
  have e: "entry_ok (fa_table st ! tid) i s"
    using tables_ok_D(2) [OF t h] u s by (simp add: hash_ok_def)
  then obtain d where d: "0 < d" "d \<le> ft_search_limit (fa_table st ! tid) ! fs_type s" "i = spec_slot (ft_size (fa_table st ! tid)) s d"
    by (auto simp: entry_ok_def)
  have "tid = fs_type s div 4 \<or> tid = fs_type s div 4 + 3"
    using e geometry_nth(2) [OF tables_ok_D(1) [OF t] hash_tid_less [OF h]]
    by (auto simp: entry_ok_def efx_farch_filter_spec_table_id_def split: if_splits)
  moreover have ty: "fs_type s < 6"
    using e by (simp add: entry_ok_def plain_def)
  ultimately have "ft_search_limit (fa_table st ! tid) ! fs_type s \<noteq> 0 \<Longrightarrow>
      unat (EFX_OWORD_FIELD (limit_reg tid st) (limit_field tid (fs_type s))) =
      ft_search_limit (fa_table st ! tid) ! fs_type s + search_fudge (fs_type s)"
    using limit_reg_ok [OF ok h ty] by blast
  with d show ?thesis
    by auto
qed

lemma farch_hardware_finds_witness:
  "\<exists>d. 0 < d \<and> demo_index = spec_slot (ft_size (fa_table demo_after ! 0)) demo_filter d \<and>
    d + 3 \<le> unat (EFX_OWORD_FIELD (fa_rx_filter_ctl demo_after) FRF_BZ_TCP_WILD_SRCH_LIMIT)"
  using farch_hardware_finds [OF demo_inserted(2) _ demo_inserted(4) demo_inserted(5) [symmetric]]
  by (simp add: search_fudge_def limit_reg_def limit_field_def demo_filter_def)

text \<open>A filter that takes the place of an automatic one, or of one that did, is marked.\<close>

definition over_auto :: "farch_spec \<Rightarrow> farch_spec option \<Rightarrow> farch_spec" where
  "over_auto s old = (case old of
      None \<Rightarrow> s
    | Some f \<Rightarrow> if fs_priority f = EFX_FILTER_PRI_AUTO \<or> has_flag (fs_flags f) EFX_FILTER_FLAG_RX_OVER_AUTO
        then s\<lparr>fs_flags := fs_flags s OR EFX_FILTER_FLAG_RX_OVER_AUTO\<rparr> else s)"

lemma insert_new_over_auto: "insert_new s r old = Inr s' \<Longrightarrow> s' = over_auto s old"
  by (auto simp: insert_new_def insert_check_def over_auto_def split: option.splits if_splits)

lemma one_way_over_auto: "one_way (over_auto s old) = one_way s"
  by (auto simp: over_auto_def one_way_def split: option.splits)

lemma insert_new_error: "insert_new s r old = Inl e \<Longrightarrow> e < 0"
  by (auto simp: insert_new_def insert_check_def errno_defs split: option.splits if_splits)

lemma spec_table_less:
  assumes "gen_ok g" and "efx_farch_filter_from_gen_spec g = Inr s"
  shows "efx_farch_filter_spec_table_id s < 5"
proof (cases "fs_type s < 8")
  case True
  then show ?thesis using hash_tid_less [OF spec_table_hash [OF True]] by simp
next
  case False
  then have "\<not> has_flag (fs_flags s) EFX_FILTER_FLAG_TX" "fs_type s < 10"
    using from_gen_spec_props [OF assms(2)] assms(1) by (auto simp: gen_ok_def farch_type_def)
  then show ?thesis by (simp add: efx_farch_filter_spec_table_id_def)
qed

text \<open>
  C19: insertion and lookup. After every successful insertion of a filter for one direction (receive or
  transmit), whether it takes a free slot or replaces the filter of its key, a lookup with the identifier
  returned and the priority of the filter gives back the specification of the filter put in, marked if it
  replaced an automatic one; after one that failed nothing has changed.
\<close>

theorem farch_insert_then_get:
  assumes reach: "farch_reach st" and g: "gen_ok g" and s: "efx_farch_filter_from_gen_spec g = Inr s" and way: "one_way s"
    and ins: "efx_farch_filter_insert g r st = Some (rc, st')"
  shows "if 0 \<le> rc
    then efx_farch_filter_get_safe (fs_priority s) (word_of_int rc) st' =
      Inr (efx_farch_filter_to_gen_spec (over_auto s (filters st (fkey s))))
    else st' = st"
proof -
  let ?old = "filters st (fkey s)" and ?tid = "efx_farch_filter_spec_table_id s"
  have st': "farch_ok st'" "insert_post g s r st (rc, st')"
    using insert_ok [OF reach_farch_ok [OF reach] g, of r] ins s by auto
  note tid = spec_table_less [OF g s] and ty = from_gen_spec_props(4) [OF s]
  show ?thesis
  proof (cases "\<exists>s'. insert_new s r ?old = Inr s' \<and> (\<exists>i. used_at (fa_table st' ! ?tid) i \<and>
      ft_spec (fa_table st' ! ?tid) ! i = s' \<and> rc = sint (efx_farch_filter_make_id s' i))")
    case True
    then obtain s' i where i: "insert_new s r ?old = Inr s'" "used_at (fa_table st' ! ?tid) i"
        "ft_spec (fa_table st' ! ?tid) ! i = s'" "rc = sint (efx_farch_filter_make_id s' i)"
      by blast
    have s': "s' = over_auto s ?old" "same_filter s s'" "fs_priority s' = fs_priority s"
      using insert_new_over_auto [OF i(1)] insert_new_props [OF i(1)] by (auto simp: over_auto_def split: option.splits)
    have "one_way s'"
      using way by (simp add: s'(1) one_way_over_auto)
    from insert_id [OF st'(1) ty this s'(2) tid i(2-4)] s' show ?thesis
      by simp
  next
    case False
    then have "rc < 0 \<and> st' = st"
      using st'(2) insert_new_error by (auto simp: insert_post_def errno_defs split: if_splits sum.splits)
    then show ?thesis by simp
  qed
qed

lemma farch_insert_then_get_witness:
  "efx_farch_filter_get_safe EFX_FILTER_PRI_MANUAL (word_of_int demo_rc) demo_after =
     Inr (efx_farch_filter_to_gen_spec demo_filter)"
  using farch_insert_then_get [OF demo_farch_ok(2) demo_gen_ok demo_filter_table(2) demo_inserted(1)] demo_inserted(3) demo_free(3)
  by (simp add: demo_filter_def over_auto_def)

text \<open>
  C20: converting a filter to a generic specification and back. Whatever specification a filter was
  made from, the specification the driver reports for it describes exactly that filter.
\<close>

theorem farch_gen_spec_roundtrip:
  assumes "efx_farch_filter_from_gen_spec g = Inr s"
  shows "efx_farch_filter_from_gen_spec (efx_farch_filter_to_gen_spec s) = Inr s"
  by (rule from_to_gen [OF assms])

lemma farch_gen_spec_roundtrip_witness:
  "efx_farch_filter_from_gen_spec (efx_farch_filter_to_gen_spec demo_filter) = Inr demo_filter"
  by (rule farch_gen_spec_roundtrip [OF demo_gen_ok(2)])

text \<open>
  C21: a reset of the NIC, which loses the memory and the registers, is undone by restore: the
  filters, the tables, the entries in memory and the search limits are as they were.
\<close>

theorem farch_restore_after_reset:
  assumes reach: "farch_reach st"
  shows "\<exists>st'. efx_farch_filter_table_restore (reset_hw rx tx st) = Some st' \<and> filters st' = filters st \<and>
    fa_table st' = fa_table st \<and> mem_ok st' \<and> regs_ok (fa_table st') (fa_rx_filter_ctl st') (fa_tx_cfg st')"
  using restore_ok [OF reach_farch_ok [OF reach], of rx tx] by (auto simp: farch_ok_def)

lemma farch_restore_after_reset_witness:
  "\<exists>st'. efx_farch_filter_table_restore (reset_hw (0, 0) (1, 1) demo_after) = Some st' \<and>
    filters st' (fkey demo_filter) = filters demo_after (fkey demo_filter)"
  using farch_restore_after_reset [OF demo_inserted(2), of "(0, 0)" "(1, 1)"] by auto

text \<open>
  C22: any sequence of insertions and removals by identifier returns, and every filter that it does not
  address stays in its slot as it is, manual filters included: nothing is inserted under its key, and no
  removal names its slot with its priority.
\<close>

theorem farch_sequences:
  assumes reach: "farch_reach st" and ops: "list_all (op_fits gen_ok (\<lambda>i. fst i \<noteq> EFX_FILTER_PRI_AUTO)) ops"
  shows "\<exists>st'. run_ops (\<lambda>g. efx_farch_filter_insert g r) (\<lambda>i. efx_farch_filter_remove_safe (fst i) (snd i)) ops st = Some st' \<and>
    farch_reach st' \<and>
    (\<forall>l v. slot st l = Some v \<longrightarrow> list_all (\<lambda>op. \<not> addressed gen_key removal_hits fkey l v op) ops \<longrightarrow> slot st' l = Some v)"
  by (rule fs.run_total [OF reach ops])

lemma farch_sequences_witness:
  "\<exists>st'. run_ops (\<lambda>g. efx_farch_filter_insert g True) (\<lambda>i. efx_farch_filter_remove_safe (fst i) (snd i))
     [Del (EFX_FILTER_PRI_MANUAL, 0xffffffff), Del (EFX_FILTER_PRI_HINT, word_of_int demo_rc)] demo_after = Some st' \<and>
     slot st' (0, demo_index) = Some demo_filter"
proof -
  have "slot demo_after (0, demo_index) = Some demo_filter"
    using demo_inserted(4,5) by (simp add: slot_def)
  moreover have "\<not> removal_hits (EFX_FILTER_PRI_MANUAL, 0xffffffff) (0, demo_index) demo_filter"
    "\<not> removal_hits (EFX_FILTER_PRI_HINT, word_of_int demo_rc) (0, demo_index) demo_filter"
    by (simp_all add: removal_hits_def demo_filter_def efx_farch_filter_id_table_id_def efx_farch_filter_range_table_def)
  moreover have "list_all (op_fits gen_ok (\<lambda>i. fst i \<noteq> EFX_FILTER_PRI_AUTO))
      [Del (EFX_FILTER_PRI_MANUAL, 0xffffffff), Del (EFX_FILTER_PRI_HINT, word_of_int demo_rc)]"
    by (simp add: op_fits_def)
  ultimately show ?thesis
    using farch_sequences [OF demo_inserted(2),
        of "[Del (EFX_FILTER_PRI_MANUAL, 0xffffffff), Del (EFX_FILTER_PRI_HINT, word_of_int demo_rc)]" True]
    by (fastforce simp: addressed_def)
qed

subsection \<open>Listing\<close>

text \<open>The receive filters of a priority, as a set of slots, and as a list in the order of the loops.\<close>

definition rx_filters :: "farch \<Rightarrow> nat \<Rightarrow> (nat \<times> nat) set" where
  "rx_filters st priority = {(tid, i). tid < 3 \<and> used_at (fa_table st ! tid) i \<and>
     fs_priority (ft_spec (fa_table st ! tid) ! i) = priority}"

definition slot_list :: "farch_table \<Rightarrow> nat \<Rightarrow> nat list \<Rightarrow> nat list" where
  "slot_list t priority = filter (\<lambda>i. ft_used_bitmap t ! i \<and> fs_priority (ft_spec t ! i) = priority)"

definition table_list :: "farch \<Rightarrow> nat \<Rightarrow> nat list \<Rightarrow> (nat \<times> nat) list" where
  "table_list st priority tids =
     concat (map (\<lambda>tid. map (Pair tid) (slot_list (fa_table st ! tid) priority [0..<ft_size (fa_table st ! tid)])) tids)"

definition slot_id :: "farch \<Rightarrow> nat \<times> nat \<Rightarrow> u32" where
  "slot_id st l = efx_farch_filter_make_id (ft_spec (fa_table st ! fst l) ! snd l) (snd l)"

lemma count_slots_eq: "count_rx_slots t priority is count = count + of_nat (length (slot_list t priority is))"
  by (induction "is" arbitrary: count) (auto simp: slot_list_def)

lemma count_tables_eq: "count_rx_tables st priority tids count = count + of_nat (length (table_list st priority tids))"
  by (induction tids arbitrary: count) (auto simp: table_list_def count_slots_eq Let_def)

lemma ids_slots_eq:
  assumes "length buf \<le> unat sz"
  shows "rx_ids_slots t priority sz is buf =
    (let ids = buf @ map (\<lambda>i. efx_farch_filter_make_id (ft_spec t ! i) i) (slot_list t priority is) in
     if length ids \<le> unat sz then (False, ids) else (True, take (unat sz) ids))"
  using assms
proof (induction "is" arbitrary: buf)
  case Nil
  then show ?case by (simp add: slot_list_def)
next
  case (Cons i "is")
  have "of_nat (length buf) = sz \<longleftrightarrow> length buf = unat sz"
    using Cons.prems unsigned_less [of sz, where ?'a = nat]
    by (auto simp: word_unat_eq_iff unat_of_nat take_bit_nat_eq_self)
  with Cons.IH [of buf] Cons.IH [of "buf @ [efx_farch_filter_make_id (ft_spec t ! i) i]"] Cons.prems show ?case
    by (auto simp: slot_list_def Let_def)
qed

lemma ids_tables_eq:
  assumes "length buf \<le> unat sz"
  shows "rx_ids_tables st priority sz tids buf =
    (let ids = buf @ map (slot_id st) (table_list st priority tids) in
     if length ids \<le> unat sz then (int (length ids), ids) else (- EMSGSIZE, take (unat sz) ids))"
  using assms
proof (induction tids arbitrary: buf)
  case Nil
  then show ?case by (simp add: table_list_def)
next
  case (Cons tid tids)
  let ?t = "fa_table st ! tid"
  let ?ids = "buf @ map (\<lambda>i. efx_farch_filter_make_id (ft_spec ?t ! i) i) (slot_list ?t priority [0..<ft_size ?t])"
  have "slot_id st \<circ> Pair tid = (\<lambda>i. efx_farch_filter_make_id (ft_spec ?t ! i) i)"
    by (auto simp: slot_id_def)
  then have list: "buf @ map (slot_id st) (table_list st priority (tid # tids)) = ?ids @ map (slot_id st) (table_list st priority tids)"
    by (simp add: table_list_def)
  show ?case
    unfolding list rx_ids_tables.simps Let_def ids_slots_eq [OF Cons.prems]
    using Cons.IH [of ?ids] by (auto simp: Let_def)
qed

lemma distinct_table_list: "distinct tids \<Longrightarrow> distinct (table_list st priority tids)"
  by (induction tids) (auto simp: table_list_def slot_list_def distinct_map inj_on_def)

lemma rx_filters_list:
  "set (table_list st priority [0..<3]) = rx_filters st priority" "distinct (table_list st priority [0..<3])"
proof -
  show "set (table_list st priority [0..<3]) = rx_filters st priority"
    by (auto simp: table_list_def slot_list_def rx_filters_def used_at_def)
  show "distinct (table_list st priority [0..<3])"
    by (rule distinct_table_list) simp
qed

lemma rx_filters_card: "length (table_list st priority [0..<3]) = card (rx_filters st priority)"
  using distinct_card [OF rx_filters_list(2)] rx_filters_list(1) by metis

lemma tables_0_1_2: "[0..<3] = [0, 1, 2 :: nat]"
  by (simp add: upt_conv_Cons)

lemma rx_filters_bound:
  assumes "farch_ok st"
  shows "card (rx_filters st priority) \<le> 8706"
proof -
  have "map table_shape (fa_table st) = geometry"
    using assms by (simp add: farch_ok_def tables_ok_def)
  note sz = geometry_nth(3) [OF this]
  have "length (slot_list t priority [0..<n]) \<le> n" for t n
    using length_filter_le [of _ "[0..<n]"] by (simp add: slot_list_def)
  note le = this [of "fa_table st ! 0" 8192] this [of "fa_table st ! 1" 512] this [of "fa_table st ! 2" 2]
  have "length (table_list st priority [0..<3]) = length (slot_list (fa_table st ! 0) priority [0..<8192]) +
      length (slot_list (fa_table st ! 1) priority [0..<512]) + length (slot_list (fa_table st ! 2) priority [0..<2])"
    using sz [of 0] sz [of 1] sz [of 2] unfolding tables_0_1_2 table_list_def
    by (simp del: upt.simps One_nat_def)
  then show ?thesis
    unfolding rx_filters_card using le by linarith
qed

lemma stored_filter:
  assumes ok: "farch_ok st" and tid: "tid < 5" and u: "used_at (fa_table st ! tid) i"
  shows "farch_type (fs_type (ft_spec (fa_table st ! tid) ! i))" "efx_farch_filter_spec_table_id (ft_spec (fa_table st ! tid) ! i) = tid"
proof -
  let ?t = "fa_table st ! tid"
  have t: "tables_ok (fa_table st)"
    using ok by (simp add: farch_ok_def)
  note geo = geometry_nth [OF tables_ok_D(1) [OF t]]
  have "farch_type (fs_type (ft_spec ?t ! i)) \<and> efx_farch_filter_spec_table_id (ft_spec ?t ! i) = tid"
  proof (cases "tid = 2")
    case True
    have def: "def_ok ?t" "ft_size ?t = 2"
      using tables_ok_D(3) [OF t] geo True by simp_all
    then have "i < 2" "def_spec_ok i (ft_spec ?t ! i)"
      using u by (auto simp: used_at_def def_ok_def)
    with True show ?thesis
      by (auto simp: def_spec_ok_def farch_type_def efx_farch_filter_spec_table_id_def less_2_cases_iff)
  next
    case False
    then have "hash_tid tid"
      using tid by (auto simp: hash_tid_def)
    then have "entry_ok ?t i (ft_spec ?t ! i)"
      using tables_ok_D(2) [OF t] u by (simp add: hash_ok_def)
    with geo(2) [OF tid] show ?thesis
      by (auto simp: entry_ok_def plain_def farch_type_def)
  qed
  then show "farch_type (fs_type (ft_spec ?t ! i))" "efx_farch_filter_spec_table_id (ft_spec ?t ! i) = tid"
    by simp_all
qed

text \<open>
  C23: the list of identifiers. The count is the number of receive filters in use that have the priority.
  With a buffer of at least as many places, the call returns this number and one identifier for each of
  them; with a smaller one it returns an error, having filled the buffer and not more. A lookup with the
  identifier of a filter for one direction finds that filter.
\<close>

theorem farch_get_rx_ids:
  assumes reach: "farch_reach st"
  shows "\<exists>ids. unat (efx_farch_filter_count_rx_used priority st) = card (rx_filters st priority) \<and>
    length ids = card (rx_filters st priority) \<and> set ids = slot_id st ` rx_filters st priority \<and>
    efx_farch_filter_get_rx_ids priority sz st =
      (if length ids \<le> unat sz then (int (length ids), ids) else (- EMSGSIZE, take (unat sz) ids)) \<and>
    (\<forall>(tid, i) \<in> rx_filters st priority. let s = ft_spec (fa_table st ! tid) ! i in
       one_way s \<longrightarrow> efx_farch_filter_get_safe priority (slot_id st (tid, i)) st = Inr (efx_farch_filter_to_gen_spec s))"
proof (intro exI [of _ "map (slot_id st) (table_list st priority [0..<3])"] conjI)
  have ok: "farch_ok st"
    by (rule reach_farch_ok [OF reach])
  have rng: "[EFX_FARCH_FILTER_TABLE_RX_IP..<EFX_FARCH_FILTER_TABLE_RX_DEF + 1] = [0..<3]"
    by (simp add: upt_rec)
  show "unat (efx_farch_filter_count_rx_used priority st) = card (rx_filters st priority)"
    using rx_filters_bound [OF ok, of priority] unfolding efx_farch_filter_count_rx_used_def rng
    by (simp add: count_tables_eq rx_filters_card unat_of_nat take_bit_nat_eq_self del: upt.simps)
  show "length (map (slot_id st) (table_list st priority [0..<3])) = card (rx_filters st priority)"
    by (simp add: rx_filters_card del: upt.simps)
  show "set (map (slot_id st) (table_list st priority [0..<3])) = slot_id st ` rx_filters st priority"
    by (simp only: set_map rx_filters_list(1))
  show "efx_farch_filter_get_rx_ids priority sz st =
      (if length (map (slot_id st) (table_list st priority [0..<3])) \<le> unat sz
       then (int (length (map (slot_id st) (table_list st priority [0..<3]))), map (slot_id st) (table_list st priority [0..<3]))
       else (- EMSGSIZE, take (unat sz) (map (slot_id st) (table_list st priority [0..<3]))))"
    unfolding efx_farch_filter_get_rx_ids_def rng by (simp only: ids_tables_eq [of "[]"] list.size le0 append_Nil Let_def)
  show "\<forall>(tid, i) \<in> rx_filters st priority. let s = ft_spec (fa_table st ! tid) ! i in
       one_way s \<longrightarrow> efx_farch_filter_get_safe priority (slot_id st (tid, i)) st = Inr (efx_farch_filter_to_gen_spec s)"
  proof (clarsimp simp: rx_filters_def Let_def)
    fix tid i
    let ?s = "ft_spec (fa_table st ! tid) ! i"
    assume "tid < 3" and u: "used_at (fa_table st ! tid) i" and way: "one_way ?s" and p: "priority = fs_priority ?s"
    then have "tid < 5"
      by simp
    note s = stored_filter [OF ok this u]
    have "efx_farch_filter_get_safe (fs_priority ?s) (word_of_int (sint (efx_farch_filter_make_id ?s i))) st =
        Inr (efx_farch_filter_to_gen_spec ?s)"
      by (rule insert_id(4) [OF ok s(1) way]) (use s u \<open>tid < 5\<close> in \<open>simp_all add: same_filter_def\<close>)
    then show "efx_farch_filter_get_safe (fs_priority ?s) (slot_id st (tid, i)) st = Inr (efx_farch_filter_to_gen_spec ?s)"
      by (simp add: slot_id_def)
  qed
qed

lemma farch_get_rx_ids_witness:
  "\<exists>ids. efx_farch_filter_get_rx_ids EFX_FILTER_PRI_MANUAL 9000 demo_after = (int (length ids), ids) \<and>
     slot_id demo_after (0, demo_index) \<in> set ids"
proof -
  have "(0, demo_index) \<in> rx_filters demo_after EFX_FILTER_PRI_MANUAL"
    using demo_inserted(4,5) by (simp add: rx_filters_def demo_filter_def)
  with farch_get_rx_ids [OF demo_inserted(2), of EFX_FILTER_PRI_MANUAL 9000]
    rx_filters_bound [OF reach_farch_ok [OF demo_inserted(2)], of EFX_FILTER_PRI_MANUAL]
  show ?thesis
    by fastforce
qed

text \<open>
  C24: clearing. After \<open>efx_farch_filter_clear_rx\<close> no receive filter of the priority is counted.
\<close>

theorem farch_clear_rx_clears:
  assumes reach: "farch_reach st" and p: "priority \<noteq> EFX_FILTER_PRI_AUTO"
  shows "\<exists>st'. efx_farch_filter_clear_rx priority st = Some st' \<and> farch_reach st' \<and>
    efx_farch_filter_count_rx_used priority st' = 0"
proof -
  obtain st' where st': "efx_farch_filter_clear_rx priority st = Some st'"
    "\<forall>tid < 3. none_in [0..<ft_size (fa_table st' ! tid)] priority (fa_table st' ! tid)"
    using clear_rx_ok [OF reach_farch_ok [OF reach] p] by blast
  then have "rx_filters st' priority = {}"
    by (auto simp: rx_filters_def none_in_def used_at_def)
  then have "table_list st' priority [0..<3] = []"
    using rx_filters_list(1) [of st' priority] by (metis set_empty)
  then have "efx_farch_filter_count_rx_used priority st' = 0"
    by (simp add: efx_farch_filter_count_rx_used_def count_tables_eq numeral_3_eq_3 del: upt.simps)
  with st'(1) farch_reach.clear [OF reach p st'(1)] show ?thesis
    by blast
qed

lemma farch_clear_rx_clears_witness:
  "\<exists>st'. efx_farch_filter_clear_rx EFX_FILTER_PRI_MANUAL demo_after = Some st' \<and>
     efx_farch_filter_count_rx_used EFX_FILTER_PRI_MANUAL st' = 0"
  using farch_clear_rx_clears [OF demo_inserted(2), of EFX_FILTER_PRI_MANUAL] by auto

text \<open>
  An entry of an IP table, read back field by field, is the filter: queue, protocol and the three
  words of hosts and ports. No field overlaps another.
\<close>

theorem farch_ip_entry_fields:
  assumes b: "efx_farch_filter_build s = Some (entry, key)" and ty: "fs_type s < 4"
    and q: "unat (fs_dmaq_id s) < 4096"
  shows "EFX_OWORD_FIELD entry FRF_BZ_RXQ_ID = ucast (fs_dmaq_id s) \<and>
    EFX_OWORD_FIELD entry FRF_BZ_TCP_UDP = of_bool (fs_type s \<ge> 2) \<and>
    fs_data s = (ucast (EFX_OWORD_FIELD entry EFX_DWORD_0), ucast (EFX_OWORD_FIELD entry EFX_DWORD_1),
      ucast (EFX_OWORD_FIELD entry EFX_DWORD_2))"
proof -
  obtain d0 d1 d2 where d: "fs_data s = (d0, d1, d2)"
    by (metis surj_pair)
  define flags where "flags = (if has_flag (fs_flags s) EFX_FILTER_FLAG_TX then [] else
    [(FRF_BZ_RSS_EN, of_bool (has_flag (fs_flags s) EFX_FILTER_FLAG_RX_RSS) :: u64),
     (FRF_BZ_SCATTER_EN, of_bool (has_flag (fs_flags s) EFX_FILTER_FLAG_RX_SCATTER))])"
  define fs where "fs = flags @ build_ip s"
  have tid: "efx_farch_filter_spec_table_id s = (if has_flag (fs_flags s) EFX_FILTER_FLAG_TX then 3 else 0)"
    using ty by (simp add: efx_farch_filter_spec_table_id_def)
  have e: "entry = EFX_POPULATE_OWORD fs"
    using b unfolding efx_farch_filter_build_def tid
    by (auto simp: d Let_def fs_def flags_def split: if_splits)
  have dw: "ofits (k, 32) (ucast (x :: u32))" if "k \<le> 96" for k x
    using that unsigned_less [of x, where ?'a = nat] by (simp add: ofits_def ofield_ok_def unsigned_ucast_eq take_bit_nat_eq_self)
  have wf: "ofields_wf fs"
    using ofits_dmaq [OF q, of 96] dw ofits_of_bool
    by (simp add: fs_def flags_def build_ip_def d odisjoint_def del: One_nat_def)
  have mem: "(FRF_BZ_RXQ_ID, ucast (fs_dmaq_id s)) \<in> set fs" "(EFX_DWORD_0, ucast d0) \<in> set fs" "(EFX_DWORD_1, ucast d1) \<in> set fs"
    "(EFX_DWORD_2, ucast d2) \<in> set fs"
    "(FRF_BZ_TCP_UDP, of_bool (fs_type s = EFX_FARCH_FILTER_UDP_FULL \<or> fs_type s = EFX_FARCH_FILTER_UDP_WILD)) \<in> set fs"
    by (simp_all add: fs_def build_ip_def d)
  note r = mem [THEN oword_field_populate [OF wf]]
  have uu: "(ucast (ucast x :: u64) :: u32) = x" for x
    by (rule bit_word_eqI) (simp add: bit_simps)
  have udp: "(fs_type s = 2 \<or> fs_type s = 3) = (2 \<le> fs_type s)"
    using ty by auto
  show ?thesis
    using r udp by (simp add: e d uu)
qed

lemma farch_ip_entry_fields_witness:
  "EFX_OWORD_FIELD (fst (the (efx_farch_filter_build demo_filter))) FRF_BZ_RXQ_ID = 2"
proof -
  have b: "efx_farch_filter_build demo_filter = Some (spec_entry demo_filter, spec_key demo_filter)"
    by (rule build_Some) (simp add: demo_filter_table hash_tid_def)
  show ?thesis
    using farch_ip_entry_fields [OF b] by (simp add: demo_filter_def spec_entry_def)
qed

end
