(* ===== verification/Farch_Findings.thy ===== *)
theory Farch_Findings
  imports Farch_Props
begin

unbundle bit_operations_syntax

section \<open>Inputs the filter code does not handle\<close>

text \<open>
  A transmit filter for the default unicast or multicast destination passes
  \<open>efx_farch_filter_from_gen_spec\<close>; its table identifier is 5, one past the array of tables.
\<close>

definition tx_default :: efx_filter_spec where
  "tx_default = zero_gen_spec\<lparr>gs_match_flags := EFX_FILTER_MATCH_LOC_MAC_IG, gs_flags := EFX_FILTER_FLAG_TX\<rparr>"

lemma tx_default_outside_tables:
  assumes "farch_reach st"
  shows "efx_farch_filter_insert tx_default r st = None"
proof -
  obtain s where s: "efx_farch_filter_from_gen_spec tx_default = Inr s" "efx_farch_filter_spec_table_id s = 5"
    using that [of "\<lparr>fs_type = 8, fs_priority = 0, fs_flags = 0x10, fs_dmaq_id = 0, fs_data = (0, 0, 0)\<rparr>"]
    by (simp add: tx_default_def zero_gen_spec_def efx_farch_filter_from_gen_spec_def MATCH_IP_FULL_def MATCH_IP_WILD_def
        MATCH_MAC_FULL_def has_flag_def is_multicast_ether_addr_def efx_farch_filter_spec_table_id_def)
  have "length (fa_table st) = 5"
    using reach_farch_ok [OF assms] geometry_nth(1) by (auto simp: farch_ok_def tables_ok_def)
  with s show ?thesis
    by (simp add: efx_farch_filter_insert_def Let_def)
qed

text \<open>
  Removing the automatic default filter with its own priority reaches
  \<open>efx_farch_filter_table_clear_entry\<close>, whose \<open>BUG_ON\<close> is for the table that has no offset.
\<close>

lemma remove_automatic_default_bugs:
  "efx_farch_filter_remove_safe EFX_FILTER_PRI_AUTO 0x8000 demo_farch = None"
proof -
  have id: "efx_farch_filter_id_table_id 0x8000 = 2" "efx_farch_filter_id_index 0x8000 = 0"
    by code_simp+
  have t: "fa_table demo_farch ! 2 = (init_table 2 0 2 0)\<lparr>ft_spec := map (\<lambda>i. efx_farch_filter_init_rx_auto blank_farch
      ((ft_spec (init_table 2 0 2 0) ! i)\<lparr>fs_type := 8 + i\<rparr>)) [0..<2], ft_used_bitmap := replicate 2 True\<rparr>"
    by (simp add: demo_farch_def efx_farch_filter_table_probe_def Let_def)
  have sp: "ft_spec (fa_table demo_farch ! 2) ! 0 = efx_farch_filter_init_rx_auto blank_farch (zero_farch_spec\<lparr>fs_type := 8\<rparr>)"
    by (simp add: t init_table_def upt_rec)
  have fl: "\<not> has_flag (fs_flags (efx_farch_filter_init_rx_auto blank_farch (zero_farch_spec\<lparr>fs_type := 8\<rparr>)))
      EFX_FILTER_FLAG_RX_OVER_AUTO"
    "fs_priority (efx_farch_filter_init_rx_auto blank_farch (zero_farch_spec\<lparr>fs_type := 8\<rparr>)) = EFX_FILTER_PRI_AUTO"
    by (simp_all add: efx_farch_filter_init_rx_auto_def blank_farch_def has_flag_def)
  have tab: "ft_size (fa_table demo_farch ! 2) = 2" "ft_used_bitmap (fa_table demo_farch ! 2) ! 0" "ft_offset (fa_table demo_farch ! 2) = 0"
    by (simp_all add: t init_table_def)
  show ?thesis
    by (simp add: efx_farch_filter_remove_safe_def efx_farch_filter_remove_def efx_farch_filter_table_clear_entry_def
        Let_def id sp fl tab)
qed

text \<open>The RSS flag is not part of the key, so changing it would not move a filter.\<close>

lemma key_without_rss: "spec_key (s\<lparr>fs_flags := fs_flags s OR EFX_FILTER_FLAG_RX_RSS\<rparr>) = spec_key s"
proof -
  obtain d0 d1 d2 where d: "fs_data s = (d0, d1, d2)"
    by (metis surj_pair)
  have "has_flag (fs_flags s OR EFX_FILTER_FLAG_RX_RSS) EFX_FILTER_FLAG_TX = has_flag (fs_flags s) EFX_FILTER_FLAG_TX"
    by (simp add: has_flag_or) (simp add: has_flag_def)
  then have id: "efx_farch_filter_spec_table_id (s\<lparr>fs_flags := fs_flags s OR EFX_FILTER_FLAG_RX_RSS\<rparr>) =
      efx_farch_filter_spec_table_id s"
    by (simp add: efx_farch_filter_spec_table_id_def)
  show ?thesis
    unfolding spec_key_def efx_farch_filter_build_def id by (simp add: d Let_def)
qed

end
