(* ===== verification/Ring.thy ===== *)
theory Ring
  imports Prelude
begin

section \<open>Rings with free-running counters\<close>

text \<open>
  Every queue of the driver is an array whose size is a power of two, a pointer mask, and 32-bit
  counters that run freely: an entry is added at the tail counter and taken at the head counter, and
  the counter's conjunction with the mask is the index. \<open>ring_view\<close> is the list of the
  entries between two counters, oldest first. The lemmas say what adding, taking and writing
  elsewhere do to it; the counters wrap at 32 bits.
\<close>

lemma unat_and_mask: "unat (x AND mask k :: 'a::len word) = unat x mod 2 ^ k"
  unfolding take_bit_eq_mask [symmetric] by (simp add: unsigned_take_bit_eq take_bit_nat_def)

lemma and_not_mask_word: "(x :: 'a::len word) AND NOT (mask n) = x - (x AND mask n)"
proof -
  have "(x AND NOT (mask n)) + (x AND mask n) = (x AND NOT (mask n)) OR (x AND mask n)"
    by (rule disjunctive_add) (simp add: bit_simps)
  also have "\<dots> = x"
    by (auto intro!: bit_word_eqI simp: bit_simps)
  finally show ?thesis
    by (simp add: algebra_simps)
qed

lemma mod_mod_exp: "(m mod 2 ^ l) mod 2 ^ k = (m::nat) mod 2 ^ k" if "k \<le> l"
  using that by (simp add: le_imp_power_dvd mod_mod_cancel)

lemma unat_add_nat_mod:
  assumes "k \<le> 32"
  shows "unat ((x + of_nat n :: u32) AND mask k) = (unat x + n) mod 2 ^ k"
proof -
  have "unat (x + of_nat n) mod 2 ^ k = ((unat x + n) mod 2 ^ 32) mod 2 ^ k"
    by (simp add: unat_word_ariths unat_of_nat mod_add_right_eq)
  then show ?thesis
    using assms mod_mod_exp [of k 32 "unat x + n"] by (simp add: unat_and_mask)
qed

lemma mod_add_inj_le:
  assumes "(r + n) mod N = (r + m) mod N" and "m \<le> n" and "n < (N::nat)"
  shows "m = n"
proof -
  have "N dvd (r + n) - (r + m)"
    using assms mod_eq_dvd_iff_nat [of "r + m" "r + n" N] by simp
  then have "N dvd n - m"
    by simp
  then show ?thesis
    using assms by (auto dest: dvd_imp_le)
qed

lemma mod_add_inj:
  assumes "(r + m) mod N = (r + n) mod N" and "m < N" and "n < (N::nat)"
  shows "m = n"
  using assms mod_add_inj_le [of r n N m] mod_add_inj_le [of r m N n] by linarith

lemma unat_Suc_bound: "unat (x :: u32) < 2 ^ 32 - 1 \<Longrightarrow> unat (x + 1) = Suc (unat x)"
  by (simp add: unat_word_ariths)

lemma pow_le_31: "k \<le> 31 \<Longrightarrow> (2::nat) ^ k \<le> 2 ^ 31"
  by (rule power_increasing) auto

subsection \<open>The entries between two counters\<close>

definition ring_wf :: "'a list \<Rightarrow> u32 \<Rightarrow> bool" where
  "ring_wf xs m \<longleftrightarrow> (\<exists>k\<le>31. m = mask k \<and> length xs = 2 ^ k)"

definition ring_slot :: "u32 \<Rightarrow> u32 \<Rightarrow> nat \<Rightarrow> nat" where
  "ring_slot m h n = unat ((h + of_nat n) AND m)"

definition ring_view :: "'a list \<Rightarrow> u32 \<Rightarrow> u32 \<Rightarrow> u32 \<Rightarrow> 'a list" where
  "ring_view xs m h t = map (\<lambda>n. xs ! ring_slot m h n) [0..<unat (t - h)]"

lemma length_ring_view [simp]: "length (ring_view xs m h t) = unat (t - h)"
  by (simp add: ring_view_def)

lemma ring_view_nth: "n < unat (t - h) \<Longrightarrow> ring_view xs m h t ! n = xs ! ring_slot m h n"
  by (simp add: ring_view_def)

lemma ring_view_empty [simp]: "ring_view xs m h h = []"
  by (simp add: ring_view_def)

lemma ring_wf_update [simp]: "ring_wf (xs[i := x]) m = ring_wf xs m"
  by (simp add: ring_wf_def)

lemma ring_slot_eq:
  assumes "ring_wf xs m"
  shows "ring_slot m h n = (unat h + n) mod length xs"
  using assms by (auto simp: ring_wf_def ring_slot_def unat_add_nat_mod)

lemma ring_slot_less: "ring_wf xs m \<Longrightarrow> ring_slot m h n < length xs"
  by (auto simp: ring_slot_eq) (auto simp: ring_wf_def)

lemma ring_index_less: "ring_wf xs m \<Longrightarrow> unat (h AND m) < length xs"
  using ring_slot_less [of xs m h 0] by (simp add: ring_slot_def)

lemma ring_slot_inj:
  "ring_wf xs m \<Longrightarrow> ring_slot m h i = ring_slot m h j \<Longrightarrow> i < length xs \<Longrightarrow> j < length xs \<Longrightarrow> i = j"
  by (auto simp: ring_slot_eq dest: mod_add_inj)

lemma ring_slot_0: "ring_slot m h 0 = unat (h AND m)"
  by (simp add: ring_slot_def)

lemma ring_slot_Suc: "ring_slot m h (Suc n) = ring_slot m (h + 1) n"
  by (simp add: ring_slot_def algebra_simps)

lemma ring_slot_tail: "ring_slot m h (unat (t - h)) = unat (t AND m)"
  by (simp add: ring_slot_def)

lemma ring_len_le: "ring_wf xs m \<Longrightarrow> length xs \<le> 2 ^ 31"
  using pow_le_31 by (auto simp: ring_wf_def)

lemma ring_fill_Suc:
  assumes "ring_wf xs m" and "unat (t - h :: u32) < length xs"
  shows "unat (t + 1 - h) = Suc (unat (t - h))"
proof -
  have "unat (t - h) < 2 ^ 32 - 1"
    using ring_len_le [OF assms(1)] assms(2) by simp
  then show ?thesis
    using unat_Suc_bound [of "t - h"] by (simp add: algebra_simps)
qed

lemma ring_fill_pop:
  assumes "h \<noteq> (t :: u32)"
  shows "unat (t - h) = Suc (unat (t - (h + 1)))"
proof -
  have "t - h \<noteq> 0"
    using assms by simp
  then have "unat (t - h - 1) = unat (t - h) - 1" "unat (t - h) \<noteq> 0"
    by (simp_all add: unat_minus_one unat_eq_zero)
  then show ?thesis
    by (simp add: algebra_simps)
qed

lemma ring_push:
  assumes "ring_wf xs m" and "unat (t - h) < length xs"
  shows "ring_view (xs[unat (t AND m) := x]) m h (t + 1) = ring_view xs m h t @ [x]"
proof (rule nth_equalityI)
  show "length (ring_view (xs[unat (t AND m) := x]) m h (t + 1)) = length (ring_view xs m h t @ [x])"
    using ring_fill_Suc [OF assms] by simp
  fix i assume "i < length (ring_view (xs[unat (t AND m) := x]) m h (t + 1))"
  then have i: "i < Suc (unat (t - h))"
    using ring_fill_Suc [OF assms] by simp
  have "(xs[unat (t AND m) := x]) ! ring_slot m h i = (if i = unat (t - h) then x else xs ! ring_slot m h i)"
    using ring_slot_inj [OF assms(1), of h i "unat (t - h)"] ring_slot_less [OF assms(1), of h i] i assms(2)
      ring_slot_tail [of m h t] by (cases "i = unat (t - h)") (auto intro!: nth_list_update_neq)
  then show "ring_view (xs[unat (t AND m) := x]) m h (t + 1) ! i = (ring_view xs m h t @ [x]) ! i"
    using i ring_fill_Suc [OF assms] by (auto simp: ring_view_nth nth_append)
qed

lemma ring_pop:
  assumes "h \<noteq> t"
  shows "ring_view xs m h t = xs ! unat (h AND m) # ring_view xs m (h + 1) t"
  by (simp only: ring_view_def ring_fill_pop [OF assms] upt_conv_Cons [OF zero_less_Suc]
        map_Suc_upt [symmetric] list.map map_map comp_def ring_slot_Suc ring_slot_0)

text \<open>A write to the slot just before the head, the one most recently taken.\<close>

lemma ring_update_taken:
  assumes "ring_wf xs m" and "h \<noteq> t" and "unat (t - h) \<le> length xs"
  shows "ring_view (xs[unat (h AND m) := x]) m (h + 1) t = ring_view xs m (h + 1) t"
proof (rule nth_equalityI)
  fix i assume "i < length (ring_view (xs[unat (h AND m) := x]) m (h + 1) t)"
  then have i: "Suc i < unat (t - h)"
    using ring_fill_pop [OF assms(2)] by simp
  then have "ring_slot m h (Suc i) \<noteq> ring_slot m h 0"
    using ring_slot_inj [OF assms(1), of h "Suc i" 0] assms(3) by (cases xs) auto
  then have "unat (h AND m) \<noteq> ring_slot m (h + 1) i"
    by (simp add: ring_slot_0 ring_slot_Suc)
  then show "ring_view (xs[unat (h AND m) := x]) m (h + 1) t ! i = ring_view xs m (h + 1) t ! i"
    using i ring_fill_pop [OF assms(2)] by (simp add: ring_view_nth)
qed simp

lemma ring_update_other:
  assumes "\<And>n. n < unat (t - h) \<Longrightarrow> ring_slot m h n \<noteq> i"
  shows "ring_view (xs[i := x]) m h t = ring_view xs m h t"
  using assms by (auto simp: ring_view_def intro!: nth_list_update_neq) (metis nth_list_update_neq)

text \<open>The mask and the length.\<close>

lemma unat_mask_Suc: "k \<le> 31 \<Longrightarrow> Suc (unat (mask k :: u32)) = 2 ^ k"
proof -
  assume k: "k \<le> 31"
  then have "(2 :: nat) ^ k < 2 ^ 32"
    by (intro power_strict_increasing) auto
  moreover define x :: u32 where "x = of_nat (2 ^ k)"
  ultimately have n: "unat x = 2 ^ k"
    by (simp only: unat_of_nat take_bit_nat_eq_self x_def) simp
  then have "unat x \<noteq> unat (0 :: u32)"
    by simp
  then have "x \<noteq> 0"
    by blast
  then have "unat (x - 1) = 2 ^ k - 1"
    using unat_minus_one [of x] n by simp
  moreover have "mask k = x - 1"
    by (simp add: mask_eq_exp_minus_1 x_def)
  ultimately show "Suc (unat (mask k :: u32)) = 2 ^ k"
    by simp
qed

lemma ring_wf_mask: "ring_wf xs m \<Longrightarrow> Suc (unat m) = length xs"
  by (auto simp: ring_wf_def unat_mask_Suc)

lemma ring_wf_of_nat: "k \<le> 31 \<Longrightarrow> length xs = 2 ^ k \<Longrightarrow> ring_wf xs (of_nat (2 ^ k) - 1)"
  by (auto simp: ring_wf_def mask_eq_exp_minus_1)

subsection \<open>Sizes\<close>

text \<open>\<open>roundup_pow_of_two\<close> of the kernel's \<open>log2.h\<close>, for arguments above 0.\<close>

fun roundup_pow_of_two_from :: "nat \<Rightarrow> nat \<Rightarrow> nat \<Rightarrow> nat" where
  "roundup_pow_of_two_from 0 p n = p"
| "roundup_pow_of_two_from (Suc k) p n = (if n \<le> p then p else roundup_pow_of_two_from k (2 * p) n)"

definition roundup_pow_of_two :: "nat \<Rightarrow> nat" where
  "roundup_pow_of_two n = roundup_pow_of_two_from n 1 n"

lemma roundup_from_spec:
  assumes "n \<le> p * 2 ^ c"
  shows "\<exists>j. roundup_pow_of_two_from c p n = p * 2 ^ j \<and> n \<le> p * 2 ^ j \<and> (j = 0 \<or> p * 2 ^ j < 2 * n)"
  using assms
proof (induction c arbitrary: p)
  case 0
  then show ?case
    by (auto intro: exI [of _ 0])
next
  case (Suc c)
  show ?case
  proof (cases "n \<le> p")
    case True
    then show ?thesis
      by (auto intro: exI [of _ 0])
  next
    case False
    obtain j where j: "roundup_pow_of_two_from c (2 * p) n = 2 * p * 2 ^ j" "n \<le> 2 * p * 2 ^ j" "j = 0 \<or> 2 * p * 2 ^ j < 2 * n"
      using Suc.IH [of "2 * p"] Suc.prems by (auto simp: ac_simps)
    then show ?thesis
      using False by (intro exI [of _ "Suc j"]) auto
  qed
qed

lemma roundup_pow_of_two_spec:
  assumes "0 < n" and "n \<le> 2 ^ 31"
  obtains k where "k \<le> 31" and "roundup_pow_of_two n = 2 ^ k" and "n \<le> 2 ^ k"
proof -
  have "n \<le> 1 * 2 ^ n"
    using less_exp [of n] by simp
  then obtain j where j: "roundup_pow_of_two n = 2 ^ j" "n \<le> 2 ^ j" "j = 0 \<or> 2 ^ j < 2 * n"
    using roundup_from_spec [of n 1 n] by (auto simp: roundup_pow_of_two_def)
  have "(2 :: nat) ^ j < 2 ^ 32"
    using j(3) assms by auto
  then have "j < 32"
    by (rule power_less_imp_less_exp [rotated]) simp
  then show ?thesis
    using that [of j] j by simp
qed

end
