(* ===== verification/Tx.thy ===== *)
theory Tx
  imports Oword Ring "HOL-Library.Multiset"
begin

section \<open>Transmit queues (tx_common.c)\<close>

text \<open>
  A transmit queue is a ring of buffer records, one per hardware descriptor, with free-running
  32-bit counters: buffers enter at \<open>insert_count\<close>, are copied to the hardware ring up to
  \<open>write_count\<close> and are released at \<open>read_count\<close>. The definitions are the operations of
  \<open>tx_common.c\<close> and the inline helpers of \<open>net_driver.h\<close> and \<open>tx_common.h\<close>.

  The kernel is outside the program. What the driver asks of it is kept in \<open>calls\<close>, the list of
  the calls made, newest first: DMA mappings made and released, socket buffers and heap blocks freed,
  doorbells, the core queue stopped and started. What the kernel answers is a parameter in
  \<open>tx_env\<close>: \<open>dma_map n\<close> is the answer to the \<open>n\<close>th mapping request, \<open>None\<close> where
  \<open>dma_mapping_error\<close> would hold. The model is that of a build without XDP sockets and with
  \<open>EFX_HAVE_SKB_TSTAMP_TX\<close>; \<open>encap_tso\<close> says whether \<open>EFX_CAN_SUPPORT_ENCAP_TSO\<close> is
  defined.
\<close>

subsection \<open>Socket buffers\<close>

record sk_buff =
  skb_id :: nat
  skb_len :: u32
  data_len :: u32
  frags :: "u32 list"
  gso_size :: u32
  gso_segs :: u32
  gso_tcp :: bool
  gso_tcpv6 :: bool
  gso_fixedid :: bool
  encapsulation :: bool
  network_off :: u32
  transport_off :: u32
  inner_transport_off :: u32
  doff :: u32
  inner_doff :: u32
  csum_partial :: bool
  csum_start :: u32
  csum_offset :: u32
  vlan_present :: bool
  vlan_tci :: u16
  tcp_check :: u16

definition skb_headlen :: "sk_buff \<Rightarrow> u32" where
  "skb_headlen skb = skb_len skb - data_len skb"

definition skb_is_gso :: "sk_buff \<Rightarrow> bool" where
  "skb_is_gso skb = (gso_size skb \<noteq> 0)"

subsection \<open>The queue\<close>

datatype tx_obj = No_obj | Skb sk_buff | Heap_buf nat | Xdp_frame nat

abbreviation EFX_TX_BUF_CONT :: u16 where "EFX_TX_BUF_CONT \<equiv> 1"
abbreviation EFX_TX_BUF_SKB :: u16 where "EFX_TX_BUF_SKB \<equiv> 2"
abbreviation EFX_TX_BUF_HEAP :: u16 where "EFX_TX_BUF_HEAP \<equiv> 4"
abbreviation EFX_TX_BUF_MAP_SINGLE :: u16 where "EFX_TX_BUF_MAP_SINGLE \<equiv> 8"
abbreviation EFX_TX_BUF_OPTION :: u16 where "EFX_TX_BUF_OPTION \<equiv> 0x10"
abbreviation EFX_TX_BUF_XDP :: u16 where "EFX_TX_BUF_XDP \<equiv> 0x20"
abbreviation EFX_TX_BUF_TSO_V3 :: u16 where "EFX_TX_BUF_TSO_V3 \<equiv> 0x40"
abbreviation EFX_EMPTY_COUNT_VALID :: u32 where "EFX_EMPTY_COUNT_VALID \<equiv> 0x80000000"

text \<open>
  \<open>tb_obj\<close> is the first union of the C record, \<open>tb_addr\<close> the second (an option descriptor or
  a DMA address, both 64 bits).
\<close>

record efx_tx_buffer =
  tb_obj :: tx_obj
  tb_addr :: u64
  tb_flags :: u16
  tb_len :: u16
  tb_unmap_len :: u16
  tb_dma_offset :: u16

datatype dma_kind = Map_single | Map_page

datatype kcall =
    Dma_map dma_kind u64 nat
  | Dma_unmap dma_kind u64 nat
  | Kfree_skb sk_buff
  | Consume_skb sk_buff
  | Gso_segment sk_buff "sk_buff list"
  | Tstamp_tx sk_buff u32 u32
  | Kmalloc nat
  | Kfree nat
  | Xdp_return nat
  | Writed_page u32 u32
  | Schedule_reset_tx_skip

record efx_tx_queue =
  txq_queue :: u32
  buffer :: "efx_tx_buffer list"
  ptr_mask :: u32
  txd :: "oword list"
  timestamping :: bool
  read_count :: u32
  old_write_count :: u32
  merge_events :: u32
  bytes_compl :: u32
  pkts_compl :: u32
  completed_timestamp_major :: u32
  completed_timestamp_minor :: u32
  insert_count :: u32
  write_count :: u32
  packet_write_count :: u32
  old_read_count :: u32
  notify_count :: u32
  tso_bursts :: u32
  tso_long_headers :: u32
  tso_packets :: u32
  tso_fallbacks :: u32
  pushes :: u32
  doorbell_notify_tx :: u32
  doorbell_notify_comp :: u32
  tx_bytes :: u64
  tx_packets :: u64
  xmit_pending :: bool
  empty_read_count :: u32
  spurious_tx :: nat
  tx_desc_fetch :: nat
  map_seq :: nat
  calls :: "kcall list"

record tx_env =
  rev_ef100 :: bool
  tx_limit_len :: "(u64 \<Rightarrow> u32 \<Rightarrow> u32) option"
  dma_map :: "nat \<Rightarrow> u64 option"
  encap_tso :: bool

subsection \<open>Access to the ring\<close>

definition efx_tx_queue_get_insert_index :: "efx_tx_queue \<Rightarrow> nat" where
  "efx_tx_queue_get_insert_index q = unat (insert_count q AND ptr_mask q)"

definition tx_slot :: "efx_tx_queue \<Rightarrow> nat \<Rightarrow> efx_tx_buffer" where
  "tx_slot q i = buffer q ! i"

definition set_tx_slot :: "nat \<Rightarrow> efx_tx_buffer \<Rightarrow> efx_tx_queue \<Rightarrow> efx_tx_queue" where
  "set_tx_slot i b q = q\<lparr>buffer := (buffer q)[i := b]\<rparr>"

definition efx_tx_buffer_in_use :: "efx_tx_buffer \<Rightarrow> bool" where
  "efx_tx_buffer_in_use b \<longleftrightarrow> tb_len b \<noteq> 0 \<or> tb_flags b AND EFX_TX_BUF_OPTION \<noteq> 0"

definition kernel_call :: "kcall \<Rightarrow> efx_tx_queue \<Rightarrow> efx_tx_queue" where
  "kernel_call c q = q\<lparr>calls := c # calls q\<rparr>"

definition dma_map_call :: "tx_env \<Rightarrow> dma_kind \<Rightarrow> nat \<Rightarrow> efx_tx_queue \<Rightarrow> u64 option \<times> efx_tx_queue" where
  "dma_map_call env k n q =
     (let q' = q\<lparr>map_seq := Suc (map_seq q)\<rparr> in
      case dma_map env (map_seq q) of
        None \<Rightarrow> (None, q')
      | Some a \<Rightarrow> (Some a, kernel_call (Dma_map k a n) q'))"

subsection \<open>Releasing a buffer\<close>

definition tb_kind :: "efx_tx_buffer \<Rightarrow> dma_kind" where
  "tb_kind b = (if tb_flags b AND EFX_TX_BUF_MAP_SINGLE \<noteq> 0 then Map_single else Map_page)"

definition tb_unmap_addr :: "efx_tx_buffer \<Rightarrow> u64" where
  "tb_unmap_addr b = tb_addr b - ucast (tb_dma_offset b)"

definition dequeue_unmap :: "nat \<Rightarrow> efx_tx_queue \<Rightarrow> efx_tx_queue" where
  "dequeue_unmap i q =
     (let b = tx_slot q i in
      if tb_unmap_len b \<noteq> 0
      then set_tx_slot i (b\<lparr>tb_unmap_len := 0\<rparr>)
             (kernel_call (Dma_unmap (tb_kind b) (tb_unmap_addr b) (unat (tb_unmap_len b))) q)
      else q)"

definition complete_skb :: "sk_buff \<Rightarrow> efx_tx_queue \<Rightarrow> efx_tx_queue" where
  "complete_skb skb q =
     kernel_call (Kfree_skb skb)
       (if timestamping q \<and> (completed_timestamp_major q \<noteq> 0 \<or> completed_timestamp_minor q \<noteq> 0)
        then (kernel_call (Tstamp_tx skb (completed_timestamp_major q) (completed_timestamp_minor q)) q)
               \<lparr>completed_timestamp_major := 0, completed_timestamp_minor := 0\<rparr>
        else q)"

definition release_obj :: "efx_tx_buffer \<Rightarrow> u32 \<times> u32 \<Rightarrow> efx_tx_queue \<Rightarrow> (u32 \<times> u32) \<times> efx_tx_queue" where
  "release_obj b pb q =
     (if tb_flags b AND EFX_TX_BUF_SKB \<noteq> 0
      then (case tb_obj b of
              Skb skb \<Rightarrow> ((fst pb + 1, snd pb + skb_len skb), complete_skb skb q)
            | _ \<Rightarrow> (pb, q))
      else if tb_flags b AND EFX_TX_BUF_HEAP \<noteq> 0
      then (pb, case tb_obj b of Heap_buf p \<Rightarrow> kernel_call (Kfree p) q | _ \<Rightarrow> q)
      else if tb_flags b AND EFX_TX_BUF_XDP \<noteq> 0
      then (pb, case tb_obj b of Xdp_frame p \<Rightarrow> kernel_call (Xdp_return p) q | _ \<Rightarrow> q)
      else (pb, q))"

definition efx_dequeue_buffer :: "nat \<Rightarrow> u32 \<times> u32 \<Rightarrow> efx_tx_queue \<Rightarrow> (u32 \<times> u32) \<times> efx_tx_queue" where
  "efx_dequeue_buffer i pb q =
     (let r = release_obj (tx_slot q i) pb (dequeue_unmap i q) in
      (fst r, set_tx_slot i ((tx_slot (snd r) i)\<lparr>tb_len := 0, tb_flags := 0\<rparr>) (snd r)))"

lemma release_obj_frame:
  "read_count (snd (release_obj b pb q)) = read_count q"
  "insert_count (snd (release_obj b pb q)) = insert_count q"
  "ptr_mask (snd (release_obj b pb q)) = ptr_mask q"
  "buffer (snd (release_obj b pb q)) = buffer q"
  by (simp_all add: release_obj_def complete_skb_def kernel_call_def split: tx_obj.splits)

lemma dequeue_buffer_counts:
  "read_count (snd (efx_dequeue_buffer i pb q)) = read_count q"
  "insert_count (snd (efx_dequeue_buffer i pb q)) = insert_count q"
  "ptr_mask (snd (efx_dequeue_buffer i pb q)) = ptr_mask q"
  by (simp_all add: efx_dequeue_buffer_def dequeue_unmap_def set_tx_slot_def kernel_call_def Let_def
      release_obj_frame)

subsection \<open>Completion\<close>

text \<open>The loop of \<open>efx_dequeue_buffers\<close>; it returns early on a spurious completion of a NIC
  other than EF100.\<close>

definition spurious_completion :: "tx_env \<Rightarrow> efx_tx_buffer \<Rightarrow> efx_tx_queue \<Rightarrow> bool \<times> efx_tx_queue" where
  "spurious_completion env b q =
     (if \<not> efx_tx_buffer_in_use b
      then let q' = q\<lparr>spurious_tx := Suc (spurious_tx q)\<rparr> in
           if \<not> rev_ef100 env then (True, kernel_call Schedule_reset_tx_skip q') else (False, q')
      else (False, q))"

lemma spurious_completion_counts:
  "read_count (snd (spurious_completion env b q)) = read_count q"
  "insert_count (snd (spurious_completion env b q)) = insert_count q"
  "ptr_mask (snd (spurious_completion env b q)) = ptr_mask q"
  by (simp_all add: spurious_completion_def kernel_call_def Let_def)

definition advance_read :: "efx_tx_queue \<Rightarrow> efx_tx_queue" where
  "advance_read q = q\<lparr>read_count := read_count q + 1\<rparr>"

function dequeue_loop :: "tx_env \<Rightarrow> u32 \<Rightarrow> u32 \<times> u32 \<Rightarrow> efx_tx_queue \<Rightarrow> (u32 \<times> u32) \<times> efx_tx_queue" where
  "dequeue_loop env index pb q =
     (if read_count q AND ptr_mask q = (index + 1) AND ptr_mask q then (pb, q)
      else let i = unat (read_count q AND ptr_mask q);
               sp = spurious_completion env (tx_slot q i) q in
           if fst sp then (pb, snd sp)
           else let r = efx_dequeue_buffer i pb (snd sp) in
                dequeue_loop env index (fst r) (advance_read (snd r)))"
  by pat_completeness auto

lemma unat_diff_dec: "(a :: 'a::len word) \<noteq> b \<Longrightarrow> unat (a - (b + 1)) < unat (a - b)"
proof -
  assume "a \<noteq> b"
  then have "a - b \<noteq> 0"
    by simp
  then have "unat (a - b - 1) = unat (a - b) - 1"
    by (simp add: unat_minus_one)
  moreover have "unat (a - b) > 0"
    using \<open>a - b \<noteq> 0\<close> by (simp add: unat_gt_0)
  ultimately show ?thesis
    by (simp add: diff_diff_eq)
qed

termination dequeue_loop
proof (relation "measure (\<lambda>(env, index, pb, q). unat (index + 1 - read_count q))", goal_cases)
  case 1
  then show ?case by simp
next
  case (2 env index pb q i sp r)
  then have "index + 1 \<noteq> read_count q"
    by metis
  then show ?case
    using 2 unat_diff_dec [of "index + 1" "read_count q"]
    by (simp add: advance_read_def dequeue_buffer_counts spurious_completion_counts)
qed

declare dequeue_loop.simps [simp del]

definition efx_dequeue_buffers :: "tx_env \<Rightarrow> u32 \<Rightarrow> u32 \<times> u32 \<Rightarrow> efx_tx_queue \<Rightarrow> (u32 \<times> u32) \<times> efx_tx_queue" where
  "efx_dequeue_buffers env index pb q = dequeue_loop env index pb q"

definition efx_xmit_done_check_empty :: "efx_tx_queue \<Rightarrow> efx_tx_queue" where
  "efx_xmit_done_check_empty q =
     (if 0 \<le> sint (read_count q - old_write_count q)
      then let q' = q\<lparr>old_write_count := write_count q\<rparr> in
           if read_count q' = old_write_count q'
           then q'\<lparr>empty_read_count := read_count q' OR EFX_EMPTY_COUNT_VALID\<rparr>
           else q'
      else q)"

definition efx_xmit_done :: "tx_env \<Rightarrow> u32 \<Rightarrow> efx_tx_queue \<Rightarrow> efx_tx_queue" where
  "efx_xmit_done env index q =
     (let ((pkts, bytes), q') = efx_dequeue_buffers env index (0, 0) q;
          q'' = q'\<lparr>pkts_compl := pkts_compl q' + pkts, bytes_compl := bytes_compl q' + bytes\<rparr>;
          q''' = (if 1 < pkts then q''\<lparr>merge_events := merge_events q'' + 1\<rparr> else q'') in
      efx_xmit_done_check_empty q''')"

subsection \<open>Taking buffers back\<close>

text \<open>\<open>efx_enqueue_unwind\<close> releases the buffers inserted since \<open>insert_count\<close> was \<open>target\<close>,
  newest first.\<close>

definition retreat_insert :: "efx_tx_queue \<Rightarrow> efx_tx_queue" where
  "retreat_insert q = q\<lparr>insert_count := insert_count q - 1\<rparr>"

function efx_enqueue_unwind :: "u32 \<Rightarrow> efx_tx_queue \<Rightarrow> efx_tx_queue" where
  "efx_enqueue_unwind target q =
     (if insert_count q = target then q
      else let q' = retreat_insert q in
           efx_enqueue_unwind target
             (snd (efx_dequeue_buffer (efx_tx_queue_get_insert_index q') (0, 0) q')))"
  by pat_completeness auto

termination efx_enqueue_unwind
proof (relation "measure (\<lambda>(target, q). unat (insert_count q - target))", goal_cases)
  case 1
  then show ?case by simp
next
  case (2 target q q')
  then have "unat (insert_count q - target - 1) < unat (insert_count q - target)"
    using unat_diff_dec [of "insert_count q - target" 0] by simp
  then show ?case
    using 2 by (simp add: retreat_insert_def dequeue_buffer_counts algebra_simps)
qed

declare efx_enqueue_unwind.simps [simp del]

function efx_purge_tx_queue :: "efx_tx_queue \<Rightarrow> efx_tx_queue" where
  "efx_purge_tx_queue q =
     (if read_count q = insert_count q then q
      else efx_purge_tx_queue (advance_read (snd (efx_dequeue_buffer
             (unat (read_count q AND ptr_mask q)) (0, 0) q))))"
  by pat_completeness auto

termination efx_purge_tx_queue
proof (relation "measure (\<lambda>q. unat (insert_count q - read_count q))", goal_cases)
  case 1
  then show ?case by simp
next
  case (2 q)
  then show ?case
    using unat_diff_dec [of "insert_count q" "read_count q"]
    by (simp add: advance_read_def dequeue_buffer_counts)
qed

declare efx_purge_tx_queue.simps [simp del]

subsection \<open>Mapping a packet\<close>

text \<open>
  One turn of the loop of \<open>efx_tx_map_chunk\<close>: the length that goes into this descriptor
  (\<open>unsigned int dma_len\<close>) and the descriptor itself, whose \<open>len\<close> field has 16 bits.
\<close>

definition chunk_len :: "tx_env \<Rightarrow> u64 \<Rightarrow> u64 \<Rightarrow> u32" where
  "chunk_len env a len =
     (case tx_limit_len env of Some limit \<Rightarrow> limit a (ucast len) | None \<Rightarrow> ucast len)"

definition put_chunk :: "u64 \<Rightarrow> u32 \<Rightarrow> efx_tx_queue \<Rightarrow> efx_tx_queue" where
  "put_chunk a dma_len q =
     (let i = efx_tx_queue_get_insert_index q in
      set_tx_slot i ((tx_slot q i)\<lparr>tb_len := ucast dma_len, tb_addr := a, tb_flags := EFX_TX_BUF_CONT\<rparr>) q)
        \<lparr>insert_count := insert_count q + 1\<rparr>"

text \<open>
  The loop ends only if the NIC's length limit makes progress, so its termination is not built
  into the definition. The result is the index of the last buffer, or \<open>None\<close> for the NULL of a
  buffer still in use.
\<close>

partial_function (option) efx_tx_map_chunk ::
    "tx_env \<Rightarrow> u64 \<Rightarrow> u64 \<Rightarrow> efx_tx_queue \<Rightarrow> (nat option \<times> efx_tx_queue) option" where
  "efx_tx_map_chunk env a len q =
     (let i = efx_tx_queue_get_insert_index q;
          dma_len = chunk_len env a len;
          q' = put_chunk a dma_len q in
      if efx_tx_buffer_in_use (tx_slot q i)
      then Some (None, q\<lparr>tx_desc_fetch := Suc (tx_desc_fetch q)\<rparr>)
      else if len - ucast dma_len = 0 then Some (Some i, q')
      else efx_tx_map_chunk env (a + ucast dma_len) (len - ucast dma_len) q')"

declare efx_tx_map_chunk.simps [code]

definition efx_tx_tso_header_length :: "tx_env \<Rightarrow> sk_buff \<Rightarrow> int" where
  "efx_tx_tso_header_length env skb =
     (if encapsulation skb
      then if encap_tso env
           then sint (inner_transport_off skb + push_bit 2 (inner_doff skb))
           else - EINVAL
      else sint (transport_off skb + push_bit 2 (doff skb)))"

definition finish_chunk :: "nat \<Rightarrow> u16 \<Rightarrow> u64 \<Rightarrow> u64 \<Rightarrow> efx_tx_queue \<Rightarrow> efx_tx_queue" where
  "finish_chunk i dma_flags unmap_len unmap_addr q =
     set_tx_slot i ((tx_slot q i)\<lparr>tb_flags := EFX_TX_BUF_CONT OR dma_flags, tb_unmap_len := ucast unmap_len,
        tb_dma_offset := ucast (tb_addr (tx_slot q i) - unmap_addr)\<rparr>) q"

definition attach_skb :: "nat \<Rightarrow> sk_buff \<Rightarrow> u16 \<Rightarrow> efx_tx_queue \<Rightarrow> efx_tx_queue" where
  "attach_skb i skb dma_flags q =
     set_tx_slot i ((tx_slot q i)\<lparr>tb_obj := Skb skb, tb_flags := EFX_TX_BUF_SKB OR dma_flags\<rparr>) q"

text \<open>
  The loop over the fragments: \<open>fs\<close> is what is left of the fragments, \<open>len\<close> and \<open>a\<close> the part of
  the current mapping that is still to be put in descriptors, \<open>unmap_len\<close> and \<open>unmap_addr\<close> the
  whole mapping.
\<close>

fun map_fragments :: "tx_env \<Rightarrow> sk_buff \<Rightarrow> u32 list \<Rightarrow> u64 \<Rightarrow> u64 \<Rightarrow> u16 \<Rightarrow> u64 \<Rightarrow> u64 \<Rightarrow> efx_tx_queue
    \<Rightarrow> (int \<times> efx_tx_queue) option" where
  "map_fragments env skb fs a len dma_flags unmap_len unmap_addr q =
     (case efx_tx_map_chunk env a len q of
        None \<Rightarrow> None
      | Some (None, q') \<Rightarrow> Some (- EBUSY, q')
      | Some (Some i, q') \<Rightarrow>
          let q'' = finish_chunk i dma_flags unmap_len unmap_addr q' in
          case fs of
            [] \<Rightarrow> Some (0, attach_skb i skb dma_flags q'')
          | f # fs' \<Rightarrow>
              case dma_map_call env Map_page (unat f) q'' of
                (None, q3) \<Rightarrow> Some (- EIO, q3)
              | (Some a', q3) \<Rightarrow> map_fragments env skb fs' a' (ucast f) 0 (ucast f) a' q3)"

declare map_fragments.simps [simp del]

definition efx_tx_map_data :: "tx_env \<Rightarrow> sk_buff \<Rightarrow> u32 \<Rightarrow> efx_tx_queue \<Rightarrow> (int \<times> efx_tx_queue) option" where
  "efx_tx_map_data env skb segment_count q =
     (let len = ucast (skb_headlen skb) :: u64 in
      case dma_map_call env Map_single (unat len) q of
        (None, q1) \<Rightarrow> Some (- EIO, q1)
      | (Some a, q1) \<Rightarrow>
          if segment_count \<noteq> 0 then
            let header_len = efx_tx_tso_header_length env skb; hl = word_of_int header_len :: u64 in
            if header_len < 0 then Some (- EINVAL, kernel_call (Dma_unmap Map_single a (unat len)) q1)
            else if hl \<noteq> len then
              (case efx_tx_map_chunk env a hl q1 of
                 None \<Rightarrow> None
               | Some (None, q2) \<Rightarrow> Some (- EBUSY, q2)
               | Some (Some _, q2) \<Rightarrow>
                   map_fragments env skb (frags skb) (a + hl) (len - hl) EFX_TX_BUF_MAP_SINGLE len a q2)
            else map_fragments env skb (frags skb) a len EFX_TX_BUF_MAP_SINGLE len a q1
          else map_fragments env skb (frags skb) a len EFX_TX_BUF_MAP_SINGLE len a q1)"

subsection \<open>Length limits of the NICs\<close>

text \<open>EF100 sets no limit. EF10 splits a buffer of more than \<open>0x3fff\<close> bytes at a page boundary,
  the Siena family at every page boundary.\<close>

abbreviation EFX_EF10_MAX_TX_DESCRIPTOR_LEN :: "'a::len word" where
  "EFX_EF10_MAX_TX_DESCRIPTOR_LEN \<equiv> 0x3fff"

definition EFX_PAGE_SIZE :: u64 where
  "EFX_PAGE_SIZE = 4096"

definition efx_ef10_tx_limit_len :: "u64 \<Rightarrow> u32 \<Rightarrow> u32" where
  "efx_ef10_tx_limit_len a len =
     (if EFX_EF10_MAX_TX_DESCRIPTOR_LEN < len
      then ucast (((a + EFX_EF10_MAX_TX_DESCRIPTOR_LEN) AND NOT (EFX_PAGE_SIZE - 1)) - a)
      else len)"

definition efx_farch_tx_limit_len :: "u64 \<Rightarrow> u32 \<Rightarrow> u32" where
  "efx_farch_tx_limit_len a len =
     (let limit = ucast ((NOT a AND (EFX_PAGE_SIZE - 1)) + 1) :: u32 in min limit len)"

subsection \<open>Setting a queue up and tearing it down\<close>

text \<open>The counters that \<open>efx_init_tx_queue\<close> resets; \<open>tstamps\<close> is the test on the PTP channel.\<close>

definition efx_init_tx_queue :: "bool \<Rightarrow> efx_tx_queue \<Rightarrow> efx_tx_queue" where
  "efx_init_tx_queue tstamps q =
     q\<lparr>insert_count := 0, notify_count := 0, write_count := 0, packet_write_count := 0,
       old_write_count := 0, read_count := 0, old_read_count := 0,
       empty_read_count := 0 OR EFX_EMPTY_COUNT_VALID, xmit_pending := False,
       timestamping := tstamps, completed_timestamp_major := 0, completed_timestamp_minor := 0\<rparr>"

text \<open>The ring that \<open>efx_probe_tx_queue\<close> allocates, all zero, with \<open>entries\<close> buffers; \<open>kcalloc\<close>
  failing leaves no ring.\<close>

definition empty_tx_buffer :: efx_tx_buffer where
  "empty_tx_buffer = \<lparr>tb_obj = No_obj, tb_addr = 0, tb_flags = 0, tb_len = 0, tb_unmap_len = 0, tb_dma_offset = 0\<rparr>"

definition efx_probe_tx_queue :: "nat \<Rightarrow> nat \<Rightarrow> bool \<Rightarrow> efx_tx_queue \<Rightarrow> int \<times> efx_tx_queue" where
  "efx_probe_tx_queue txq_entries min_dmaq_size alloc_ok q =
     (let entries = max (roundup_pow_of_two txq_entries) min_dmaq_size;
          q' = q\<lparr>ptr_mask := of_nat entries - 1\<rparr> in
      if \<not> alloc_ok then (- ENOMEM, q'\<lparr>buffer := []\<rparr>)
      else (0, q'\<lparr>buffer := replicate entries empty_tx_buffer, txd := replicate (entries + 1) (0, 0)\<rparr>))"

definition efx_fini_tx_queue :: "efx_tx_queue \<Rightarrow> efx_tx_queue" where
  "efx_fini_tx_queue q = (if buffer q = [] then q else (efx_purge_tx_queue q)\<lparr>xmit_pending := False\<rparr>)"

end
