(* ===== verification/Ef100_Tx.thy ===== *)
theory Ef100_Tx
  imports Tx
begin

section \<open>The EF100 transmit path (ef100_tx.c, ef100_netdev.c, efx_channels.c)\<close>

text \<open>
  The descriptors of the EF100, the enqueue operation of a network packet on a queue of a channel,
  the completion event, and the transmit part of a channel's poll. A channel is the list of its
  transmit queues with the doorbell hold-off flag and the state of the kernel's queue
  (\<open>core_stopped\<close>). The operations run one after the other; the one place where the code allows
  for the completion path to run in between, the memory barrier between stopping the kernel's queue
  and reading the fill level again, takes the completion events handled there as an argument
  (\<open>xi_events\<close>, the events that the hardware has posted for a state of the channel). A result \<open>None\<close> is an access outside an array (or the nesting depth \<open>n\<close> of the
  segmentation fallback exceeded). \<open>core_txq_set\<close> says that the first queue of the channel has its kernel
  queue, which \<open>efx_init_tx_queue\<close> looks up. The model is that of a build without \<open>EFX_C_MODEL\<close>.
\<close>

subsection \<open>The channel and its environment\<close>

record tx_channel =
  tx_queues :: "efx_tx_queue list"
  holdoff_doorbell :: bool
  tx_coalesce_doorbell :: bool
  core_stopped :: bool

record ef100_env =
  efx_tx :: tx_env
  txq_stop_thresh :: u32
  txq_wake_thresh :: u32
  feat_tso :: bool
  feat_hw_csum :: bool
  feat_hw_vlan_tx :: bool
  feat_tso_mangleid :: bool
  tso_max_hdr_len :: u16
  tso_max_payload_num_segs :: u16
  tso_max_frames :: u16
  tso_max_payload_len :: u32
  csum_magic :: "sk_buff \<Rightarrow> u16"
  gso_segment :: "sk_buff \<Rightarrow> int + sk_buff list"
  port_enabled :: bool
  device_present :: bool
  core_txq_set :: bool

record xmit_in =
  xmit_more :: bool
  sent_queue :: bool
  xi_events :: "tx_channel \<Rightarrow> u64 list"

definition chan_q :: "tx_channel \<Rightarrow> nat \<Rightarrow> efx_tx_queue" where
  "chan_q ch i = tx_queues ch ! i"

definition set_chan_q :: "nat \<Rightarrow> efx_tx_queue \<Rightarrow> tx_channel \<Rightarrow> tx_channel" where
  "set_chan_q i q ch = ch\<lparr>tx_queues := (tx_queues ch)[i := q]\<rparr>"

definition efx_channel_tx_fill_level :: "tx_channel \<Rightarrow> u32" where
  "efx_channel_tx_fill_level ch =
     fold (\<lambda>q fill_level. max fill_level (insert_count q - read_count q)) (tx_queues ch) 0"

subsection \<open>Descriptors\<close>

abbreviation ESF_GZ_TX_DESC_TYPE :: efx_field where "ESF_GZ_TX_DESC_TYPE \<equiv> (124, 4)"
abbreviation ESF_GZ_TX_SEND_ADDR :: efx_field where "ESF_GZ_TX_SEND_ADDR \<equiv> (0, 64)"
abbreviation ESF_GZ_TX_SEND_LEN :: efx_field where "ESF_GZ_TX_SEND_LEN \<equiv> (64, 14)"
abbreviation ESF_GZ_TX_SEND_NUM_SEGS :: efx_field where "ESF_GZ_TX_SEND_NUM_SEGS \<equiv> (78, 5)"
abbreviation ESF_GZ_TX_SEND_CSO_PARTIAL_START_W :: efx_field where "ESF_GZ_TX_SEND_CSO_PARTIAL_START_W \<equiv> (83, 9)"
abbreviation ESF_GZ_TX_SEND_CSO_PARTIAL_CSUM_W :: efx_field where "ESF_GZ_TX_SEND_CSO_PARTIAL_CSUM_W \<equiv> (92, 5)"
abbreviation ESF_GZ_TX_SEND_CSO_PARTIAL_EN :: efx_field where "ESF_GZ_TX_SEND_CSO_PARTIAL_EN \<equiv> (97, 2)"
abbreviation ESF_GZ_TX_SEND_VLAN_INSERT_EN :: efx_field where "ESF_GZ_TX_SEND_VLAN_INSERT_EN \<equiv> (107, 1)"
abbreviation ESF_GZ_TX_SEND_VLAN_INSERT_TCI :: efx_field where "ESF_GZ_TX_SEND_VLAN_INSERT_TCI \<equiv> (108, 16)"
abbreviation ESF_GZ_TX_SEG_ADDR :: efx_field where "ESF_GZ_TX_SEG_ADDR \<equiv> (0, 64)"
abbreviation ESF_GZ_TX_SEG_LEN :: efx_field where "ESF_GZ_TX_SEG_LEN \<equiv> (64, 16)"
abbreviation ESF_GZ_TX_PREFIX_EGRESS_MPORT :: efx_field where "ESF_GZ_TX_PREFIX_EGRESS_MPORT \<equiv> (48, 16)"
abbreviation ESF_GZ_TX_PREFIX_EGRESS_MPORT_EN :: efx_field where "ESF_GZ_TX_PREFIX_EGRESS_MPORT_EN \<equiv> (120, 1)"
abbreviation ESF_GZ_TX_TSO_MSS :: efx_field where "ESF_GZ_TX_TSO_MSS \<equiv> (0, 14)"
abbreviation ESF_GZ_TX_TSO_HDR_NUM_SEGS :: efx_field where "ESF_GZ_TX_TSO_HDR_NUM_SEGS \<equiv> (14, 3)"
abbreviation ESF_GZ_TX_TSO_PAYLOAD_NUM_SEGS :: efx_field where "ESF_GZ_TX_TSO_PAYLOAD_NUM_SEGS \<equiv> (17, 10)"
abbreviation ESF_GZ_TX_TSO_HDR_LEN_W :: efx_field where "ESF_GZ_TX_TSO_HDR_LEN_W \<equiv> (34, 8)"
abbreviation ESF_GZ_TX_TSO_PAYLOAD_LEN :: efx_field where "ESF_GZ_TX_TSO_PAYLOAD_LEN \<equiv> (42, 22)"
abbreviation ESF_GZ_TX_TSO_CSO_INNER_L4 :: efx_field where "ESF_GZ_TX_TSO_CSO_INNER_L4 \<equiv> (93, 1)"
abbreviation ESF_GZ_TX_TSO_INNER_L3_OFF_W :: efx_field where "ESF_GZ_TX_TSO_INNER_L3_OFF_W \<equiv> (77, 8)"
abbreviation ESF_GZ_TX_TSO_INNER_L4_OFF_W :: efx_field where "ESF_GZ_TX_TSO_INNER_L4_OFF_W \<equiv> (85, 8)"
abbreviation ESF_GZ_TX_TSO_ED_INNER_IP4_ID :: efx_field where "ESF_GZ_TX_TSO_ED_INNER_IP4_ID \<equiv> (29, 2)"
abbreviation ESF_GZ_TX_TSO_ED_INNER_IP_LEN :: efx_field where "ESF_GZ_TX_TSO_ED_INNER_IP_LEN \<equiv> (32, 1)"
abbreviation ESF_GZ_TX_TSO_VLAN_INSERT_EN :: efx_field where "ESF_GZ_TX_TSO_VLAN_INSERT_EN \<equiv> (107, 1)"
abbreviation ESF_GZ_TX_TSO_VLAN_INSERT_TCI :: efx_field where "ESF_GZ_TX_TSO_VLAN_INSERT_TCI \<equiv> (108, 16)"
abbreviation ESE_GZ_TX_DESC_TYPE_SEND :: u64 where "ESE_GZ_TX_DESC_TYPE_SEND \<equiv> 0"
abbreviation ESE_GZ_TX_DESC_TYPE_PREFIX :: u64 where "ESE_GZ_TX_DESC_TYPE_PREFIX \<equiv> 1"
abbreviation ESE_GZ_TX_DESC_TYPE_TSO :: u64 where "ESE_GZ_TX_DESC_TYPE_TSO \<equiv> 2"
abbreviation ESE_GZ_TX_DESC_TYPE_SEG :: u64 where "ESE_GZ_TX_DESC_TYPE_SEG \<equiv> 3"
abbreviation ESE_GZ_TX_DESC_IP4_ID_NO_OP :: u64 where "ESE_GZ_TX_DESC_IP4_ID_NO_OP \<equiv> 0"
abbreviation ESE_GZ_TX_DESC_IP4_ID_INC_MOD16 :: u64 where "ESE_GZ_TX_DESC_IP4_ID_INC_MOD16 \<equiv> 2"
abbreviation ERF_GZ_TX_RING_PIDX :: efx_field where "ERF_GZ_TX_RING_PIDX \<equiv> (16, 16)"
abbreviation ESF_GZ_EV_TXCMPL_NUM_DESC :: efx_field where "ESF_GZ_EV_TXCMPL_NUM_DESC \<equiv> (0, 16)"
abbreviation ESF_GZ_EV_TXCMPL_Q_LABEL :: efx_field where "ESF_GZ_EV_TXCMPL_Q_LABEL \<equiv> (16, 6)"

definition EFX_OR_OWORD :: "oword \<Rightarrow> oword \<Rightarrow> oword" where
  "EFX_OR_OWORD v w = (fst v OR fst w, snd v OR snd w)"

definition ef100_set_tx_csum_partial :: "sk_buff option \<Rightarrow> oword \<Rightarrow> oword" where
  "ef100_set_tx_csum_partial skb desc =
     (case skb of
        None \<Rightarrow> desc
      | Some s \<Rightarrow>
          if \<not> csum_partial s then desc
          else EFX_OR_OWORD desc (EFX_POPULATE_OWORD
                 [(ESF_GZ_TX_SEND_CSO_PARTIAL_EN, 1),
                  (ESF_GZ_TX_SEND_CSO_PARTIAL_START_W, ucast (drop_bit 1 (csum_start s))),
                  (ESF_GZ_TX_SEND_CSO_PARTIAL_CSUM_W, ucast (drop_bit 1 (csum_offset s)))]))"

definition ef100_set_tx_hw_vlan :: "sk_buff \<Rightarrow> oword \<Rightarrow> oword" where
  "ef100_set_tx_hw_vlan skb desc =
     EFX_OR_OWORD desc (EFX_POPULATE_OWORD
       [(ESF_GZ_TX_SEND_VLAN_INSERT_EN, 1), (ESF_GZ_TX_SEND_VLAN_INSERT_TCI, ucast (vlan_tci skb))])"

definition ef100_make_send_desc :: "ef100_env \<Rightarrow> sk_buff option \<Rightarrow> efx_tx_buffer \<Rightarrow> u32 \<Rightarrow> oword" where
  "ef100_make_send_desc env skb b segment_count =
     (let desc = EFX_POPULATE_OWORD [(ESF_GZ_TX_SEND_NUM_SEGS, ucast segment_count),
                  (ESF_GZ_TX_SEND_LEN, ucast (tb_len b)), (ESF_GZ_TX_SEND_ADDR, tb_addr b)];
          desc' = (if feat_hw_csum env then ef100_set_tx_csum_partial skb desc else desc) in
      case skb of
        Some s \<Rightarrow> if feat_hw_vlan_tx env \<and> vlan_present s then ef100_set_tx_hw_vlan s desc' else desc'
      | None \<Rightarrow> desc')"

definition ef100_make_tso_desc :: "ef100_env \<Rightarrow> sk_buff \<Rightarrow> efx_tx_buffer \<Rightarrow> u32 \<Rightarrow> oword" where
  "ef100_make_tso_desc env skb b segment_count =
     (let mangleid = (if feat_tso_mangleid env \<or> gso_fixedid skb
                      then ESE_GZ_TX_DESC_IP4_ID_NO_OP else ESE_GZ_TX_DESC_IP4_ID_INC_MOD16);
          vlan_enable = (if feat_hw_vlan_tx env then of_bool (vlan_present skb) else 0 :: u16);
          len = skb_len skb - ucast (tb_len b);
          payload_segs = segment_count - 2 in
      EFX_POPULATE_OWORD
        [(ESF_GZ_TX_DESC_TYPE, ESE_GZ_TX_DESC_TYPE_TSO),
         (ESF_GZ_TX_TSO_MSS, ucast (gso_size skb)),
         (ESF_GZ_TX_TSO_HDR_NUM_SEGS, 1),
         (ESF_GZ_TX_TSO_PAYLOAD_NUM_SEGS, ucast payload_segs),
         (ESF_GZ_TX_TSO_HDR_LEN_W, ucast (drop_bit 1 (tb_len b))),
         (ESF_GZ_TX_TSO_PAYLOAD_LEN, ucast len),
         (ESF_GZ_TX_TSO_CSO_INNER_L4, 1),
         (ESF_GZ_TX_TSO_INNER_L3_OFF_W, ucast (drop_bit 1 (network_off skb))),
         (ESF_GZ_TX_TSO_INNER_L4_OFF_W, ucast (drop_bit 1 (transport_off skb))),
         (ESF_GZ_TX_TSO_ED_INNER_IP4_ID, mangleid),
         (ESF_GZ_TX_TSO_ED_INNER_IP_LEN, 1),
         (ESF_GZ_TX_TSO_VLAN_INSERT_EN, ucast vlan_enable),
         (ESF_GZ_TX_TSO_VLAN_INSERT_TCI, ucast (vlan_tci skb))])"

definition ef100_make_seg_desc :: "efx_tx_buffer \<Rightarrow> oword" where
  "ef100_make_seg_desc b =
     EFX_POPULATE_OWORD [(ESF_GZ_TX_DESC_TYPE, ESE_GZ_TX_DESC_TYPE_SEG),
       (ESF_GZ_TX_SEG_LEN, ucast (tb_len b)), (ESF_GZ_TX_SEG_ADDR, tb_addr b)]"

definition ef100_make_prefix_desc :: "u16 \<Rightarrow> oword" where
  "ef100_make_prefix_desc vf_mport =
     EFX_POPULATE_OWORD [(ESF_GZ_TX_DESC_TYPE, ESE_GZ_TX_DESC_TYPE_PREFIX),
       (ESF_GZ_TX_PREFIX_EGRESS_MPORT, ucast vf_mport), (ESF_GZ_TX_PREFIX_EGRESS_MPORT_EN, 1)]"

text \<open>\<open>write_txd\<close> is the store to the ring at a write pointer, with the update of
  \<open>packet_write_count\<close>; \<open>desc_loop\<close> the loop of \<open>ef100_tx_make_descriptors\<close>, whose result carries
  the new write count.\<close>

definition write_txd :: "u32 \<Rightarrow> oword \<Rightarrow> efx_tx_queue \<Rightarrow> efx_tx_queue" where
  "write_txd wc d q =
     q\<lparr>txd := (txd q)[unat (wc AND ptr_mask q) := d], packet_write_count := wc + 1\<rparr>"

definition ef100_desc :: "ef100_env \<Rightarrow> sk_buff option \<Rightarrow> u32 \<Rightarrow> u64 \<Rightarrow> efx_tx_buffer \<Rightarrow> oword" where
  "ef100_desc env skb nr_descs desc_type b =
     (if desc_type = ESE_GZ_TX_DESC_TYPE_SEND then ef100_make_send_desc env skb b nr_descs
      else if desc_type = ESE_GZ_TX_DESC_TYPE_TSO
      then (case skb of Some s \<Rightarrow> ef100_make_tso_desc env s b nr_descs | None \<Rightarrow> (0, 0))
      else ef100_make_seg_desc b)"

function desc_loop :: "ef100_env \<Rightarrow> sk_buff option \<Rightarrow> u32 \<Rightarrow> u64 \<Rightarrow> u32 \<Rightarrow> efx_tx_queue \<Rightarrow> u32 \<times> efx_tx_queue" where
  "desc_loop env skb nr_descs desc_type wc q =
     (let b = tx_slot q (unat (wc AND ptr_mask q));
          q' = write_txd wc (ef100_desc env skb nr_descs desc_type b) q in
      if wc + 1 = insert_count q then (wc + 1, q')
      else desc_loop env skb nr_descs
             (if skb \<noteq> None then ESE_GZ_TX_DESC_TYPE_SEG else ESE_GZ_TX_DESC_TYPE_SEND) (wc + 1) q')"
  by pat_completeness auto

lemma unat_diff_1_dec: "wc + 1 \<noteq> (n :: 'a::len word) \<Longrightarrow> unat (n - wc - 2) < unat (n - wc - 1)"
  using unat_diff_dec [of n "wc + 1"] by (simp add: algebra_simps)

termination desc_loop
  by (relation "measure (\<lambda>(env, skb, nr, ty, wc, q). unat (insert_count q - wc - 1))")
    (simp_all add: write_txd_def unat_diff_1_dec)

declare desc_loop.simps [simp del]

definition ef100_tx_make_descriptors ::
    "ef100_env \<Rightarrow> sk_buff option \<Rightarrow> u32 \<Rightarrow> u16 option \<Rightarrow> efx_tx_queue \<Rightarrow> efx_tx_queue" where
  "ef100_tx_make_descriptors env skb segment_count efv q =
     (let nr_descs = insert_count q - write_count q in
      if nr_descs = 0 then q
      else
        let ty = (if segment_count \<noteq> 0 then ESE_GZ_TX_DESC_TYPE_TSO else ESE_GZ_TX_DESC_TYPE_SEND);
            (wc1, nr1, q1) = (case efv of
               None \<Rightarrow> (write_count q, nr_descs, q)
             | Some mport \<Rightarrow> (write_count q + 1, nr_descs - 1,
                 write_txd (write_count q) (ef100_make_prefix_desc mport) q));
            nr2 = (if skb = None then 1 else nr1);
            (wc2, q2) = desc_loop env skb nr2 ty wc1 q1 in
        q2\<lparr>write_count := wc2\<rparr>)"

subsection \<open>The doorbell\<close>

definition ef100_notify_tx_desc :: "efx_tx_queue \<Rightarrow> efx_tx_queue" where
  "ef100_notify_tx_desc q =
     (if notify_count q = write_count q then q
      else let reg = EFX_POPULATE_DWORD [(ERF_GZ_TX_RING_PIDX, write_count q AND ptr_mask q)];
               q' = kernel_call (Writed_page reg (txq_queue q)) q in
           q'\<lparr>notify_count := write_count q', doorbell_notify_tx := doorbell_notify_tx q' + 1,
             xmit_pending := False\<rparr>)"

definition ef100_tx_push_buffers :: "bool \<Rightarrow> efx_tx_queue \<Rightarrow> efx_tx_queue" where
  "ef100_tx_push_buffers holdoff q =
     (if \<not> holdoff then let q' = ef100_notify_tx_desc q in q'\<lparr>pushes := pushes q' + 1\<rparr> else q)"

definition ef100_tx_write :: "ef100_env \<Rightarrow> bool \<Rightarrow> efx_tx_queue \<Rightarrow> efx_tx_queue" where
  "ef100_tx_write env holdoff q = ef100_tx_push_buffers holdoff (ef100_tx_make_descriptors env None 0 None q)"

subsection \<open>Completion events\<close>

text \<open>\<open>efx_channel_get_tx_queue\<close>: the label of an existing queue. For a label that is out of range
  the code returns NULL or, for the label just above the last, an address behind the array; the
  caller dereferences it in both cases, which is the result \<open>None\<close>.\<close>

definition efx_channel_get_tx_queue :: "tx_channel \<Rightarrow> nat \<Rightarrow> nat option" where
  "efx_channel_get_tx_queue ch label = (if label < length (tx_queues ch) then Some label else None)"

definition ef100_ev_tx :: "ef100_env \<Rightarrow> u64 \<Rightarrow> tx_channel \<Rightarrow> tx_channel option" where
  "ef100_ev_tx env event ch =
     (let tx_done = ucast (EFX_QWORD_FIELD event ESF_GZ_EV_TXCMPL_NUM_DESC) :: u32;
          qlabel = unat (EFX_QWORD_FIELD event ESF_GZ_EV_TXCMPL_Q_LABEL) in
      case efx_channel_get_tx_queue ch qlabel of
        None \<Rightarrow> None
      | Some i \<Rightarrow>
          let q = chan_q ch i;
              tx_index = (read_count q + tx_done - 1) AND ptr_mask q in
          Some (set_chan_q i (efx_xmit_done (efx_tx env) tx_index q) ch))"

fun ef100_ev_txs :: "ef100_env \<Rightarrow> u64 list \<Rightarrow> tx_channel \<Rightarrow> tx_channel option" where
  "ef100_ev_txs env [] ch = Some ch"
| "ef100_ev_txs env (e # es) ch =
     (case ef100_ev_tx env e ch of None \<Rightarrow> None | Some ch' \<Rightarrow> ef100_ev_txs env es ch')"

subsection \<open>Adding a packet to a queue\<close>

text \<open>The tests of \<open>ef100_tx_can_tso\<close> (the header length is compared as a \<open>size_t\<close>), then the
  extra buffer for the TSO descriptor and the adjusted TCP checksum.\<close>

definition ef100_tso_possible :: "ef100_env \<Rightarrow> sk_buff \<Rightarrow> bool" where
  "ef100_tso_possible env skb \<longleftrightarrow>
     gso_tcp skb \<and> feat_tso env \<and> 4 \<le> gso_size skb \<and>
     (word_of_int (efx_tx_tso_header_length (efx_tx env) skb) :: u64) \<le> ucast (tso_max_hdr_len env) \<and>
     gso_segs skb \<le> ucast (tso_max_payload_num_segs env) \<and>
     data_len skb div gso_size skb \<le> ucast (tso_max_frames env) \<and>
     data_len skb \<le> tso_max_payload_len env"

definition tso_v3_buffer :: "tx_env \<Rightarrow> sk_buff \<Rightarrow> efx_tx_buffer \<Rightarrow> efx_tx_buffer" where
  "tso_v3_buffer env skb b =
     b\<lparr>tb_obj := Skb skb, tb_flags := EFX_TX_BUF_TSO_V3 OR EFX_TX_BUF_CONT,
       tb_len := word_of_int (efx_tx_tso_header_length env skb), tb_unmap_len := 0\<rparr>"

definition insert_tx_buffer :: "(efx_tx_buffer \<Rightarrow> efx_tx_buffer) \<Rightarrow> efx_tx_queue \<Rightarrow> efx_tx_queue" where
  "insert_tx_buffer f q =
     (let i = efx_tx_queue_get_insert_index q in
      (set_tx_slot i (f (tx_slot q i)) q)\<lparr>insert_count := insert_count q + 1\<rparr>)"

definition ef100_tx_can_tso :: "ef100_env \<Rightarrow> sk_buff \<Rightarrow> efx_tx_queue \<Rightarrow> (sk_buff \<times> efx_tx_queue) option" where
  "ef100_tx_can_tso env skb q =
     (if ef100_tso_possible env skb
      then Some (skb\<lparr>tcp_check := NOT (csum_magic env skb)\<rparr>, insert_tx_buffer (tso_v3_buffer (efx_tx env) skb) q)
      else None)"

text \<open>The option buffer of a packet that a VF representor sends.\<close>

definition reserve_prefix :: "u16 option \<Rightarrow> efx_tx_queue \<Rightarrow> efx_tx_queue option" where
  "reserve_prefix efv q =
     (case efv of
        None \<Rightarrow> Some q
      | Some _ \<Rightarrow>
          if efx_tx_buffer_in_use (tx_slot q (efx_tx_queue_get_insert_index q)) then None
          else Some (insert_tx_buffer (\<lambda>b. b\<lparr>tb_flags := EFX_TX_BUF_OPTION\<rparr>) q))"

definition ef100_stop_queue :: "ef100_env \<Rightarrow> xmit_in \<Rightarrow> tx_channel \<Rightarrow> tx_channel option" where
  "ef100_stop_queue env inp ch =
     (if txq_stop_thresh env < efx_channel_tx_fill_level ch
      then case ef100_ev_txs env (xi_events inp (ch\<lparr>core_stopped := True\<rparr>)) (ch\<lparr>core_stopped := True\<rparr>) of
             None \<Rightarrow> None
           | Some ch' \<Rightarrow>
               Some (if efx_channel_tx_fill_level ch' < txq_stop_thresh env
                     then ch'\<lparr>core_stopped := False\<rparr> else ch')
      else Some ch)"

definition ef100_ring_doorbell :: "xmit_in \<Rightarrow> nat \<Rightarrow> tx_channel \<Rightarrow> tx_channel" where
  "ef100_ring_doorbell inp i ch =
     (let q = chan_q ch i;
          pend = (if sent_queue inp then False
                  else if 255 < write_count q - notify_count q then False
                  else True);
          q' = q\<lparr>xmit_pending := pend\<rparr> in
      set_chan_q i (if \<not> pend then ef100_tx_push_buffers (holdoff_doorbell ch) q' else q') ch)"

definition ef100_count_packet :: "u32 \<Rightarrow> sk_buff \<Rightarrow> efx_tx_queue \<Rightarrow> efx_tx_queue" where
  "ef100_count_packet segments skb q =
     (let q' = (if segments \<noteq> 0
                then q\<lparr>tso_bursts := tso_bursts q + 1, tso_packets := tso_packets q + segments,
                       tx_packets := tx_packets q + ucast segments\<rparr>
                else q\<lparr>tx_packets := tx_packets q + 1\<rparr>) in
      q'\<lparr>tx_bytes := tx_bytes q' + ucast (skb_len skb)\<rparr>)"

definition ef100_enqueue_error :: "xmit_in \<Rightarrow> nat \<Rightarrow> u32 \<Rightarrow> sk_buff \<Rightarrow> tx_channel \<Rightarrow> tx_channel" where
  "ef100_enqueue_error inp i old_insert_count skb ch =
     (let q = kernel_call (Kfree_skb skb) (efx_enqueue_unwind old_insert_count (chan_q ch i)) in
      set_chan_q i (if xmit_pending q \<and> \<not> xmit_more inp
                    then ef100_tx_push_buffers (holdoff_doorbell ch) q else q) ch)"

definition ef100_segments :: "sk_buff \<Rightarrow> u32" where
  "ef100_segments skb =
     (let segments = (if skb_is_gso skb then gso_segs skb else 0) in if segments = 1 then 0 else segments)"

text \<open>From the mapping of the packet to the end of the operation; \<open>q\<close> is the queue after the TSO
  buffer, if any.\<close>

definition ef100_enqueue_mapped ::
    "ef100_env \<Rightarrow> xmit_in \<Rightarrow> nat \<Rightarrow> u16 option \<Rightarrow> u32 \<Rightarrow> u32 \<Rightarrow> sk_buff \<Rightarrow> efx_tx_queue \<Rightarrow> tx_channel
     \<Rightarrow> (int \<times> tx_channel) option" where
  "ef100_enqueue_mapped env inp i efv old_insert_count segments skb q ch =
     (case reserve_prefix efv q of
        None \<Rightarrow> Some (- ENOSPC, ef100_enqueue_error inp i old_insert_count skb (set_chan_q i q ch))
      | Some q1 \<Rightarrow>
          case efx_tx_map_data (efx_tx env) skb segments q1 of
            None \<Rightarrow> None
          | Some (rc, q2) \<Rightarrow>
              if rc \<noteq> 0
              then Some (rc, ef100_enqueue_error inp i old_insert_count skb (set_chan_q i q2 ch))
              else
                case ef100_stop_queue env inp
                       (set_chan_q i (ef100_tx_make_descriptors env (Some skb) segments efv q2) ch) of
                  None \<Rightarrow> None
                | Some ch1 \<Rightarrow>
                    let ch2 = ef100_ring_doorbell inp i ch1 in
                    Some (0, set_chan_q i (ef100_count_packet segments skb (chan_q ch2 i)) ch2))"

fun run_segments :: "(sk_buff \<Rightarrow> tx_channel \<Rightarrow> (int \<times> tx_channel) option) \<Rightarrow> sk_buff list \<Rightarrow> tx_channel
    \<Rightarrow> tx_channel option" where
  "run_segments f [] ch = Some ch"
| "run_segments f (s # ss) ch =
     (case f s ch of None \<Rightarrow> None | Some (_, ch') \<Rightarrow> run_segments f ss ch')"

definition count_fallback :: "nat \<Rightarrow> tx_channel \<Rightarrow> tx_channel" where
  "count_fallback i ch = set_chan_q i (let q = chan_q ch i in q\<lparr>tso_fallbacks := tso_fallbacks q + 1\<rparr>) ch"

text \<open>\<open>efx_tx_tso_fallback\<close> with the enqueue operation \<open>f\<close>, whose error is ignored.\<close>

definition efx_tx_tso_fallback ::
    "ef100_env \<Rightarrow> (sk_buff \<Rightarrow> tx_channel \<Rightarrow> (int \<times> tx_channel) option) \<Rightarrow> nat \<Rightarrow> sk_buff \<Rightarrow> tx_channel
     \<Rightarrow> (int \<times> tx_channel) option" where
  "efx_tx_tso_fallback env f i skb ch =
     (case gso_segment env skb of
        Inl e \<Rightarrow> Some (e, ch)
      | Inr segs \<Rightarrow>
          (case run_segments f segs
                  (set_chan_q i (kernel_call (Consume_skb skb) (kernel_call (Gso_segment skb segs) (chan_q ch i))) ch) of
             None \<Rightarrow> None
           | Some ch' \<Rightarrow> Some (0, ch')))"

fun ef100_enqueue :: "nat \<Rightarrow> ef100_env \<Rightarrow> xmit_in \<Rightarrow> nat \<Rightarrow> u16 option \<Rightarrow> sk_buff \<Rightarrow> tx_channel
    \<Rightarrow> (int \<times> tx_channel) option" where
  "ef100_enqueue 0 env inp i efv skb ch = None"
| "ef100_enqueue (Suc n) env inp i efv skb ch =
     (let q = chan_q ch i; old_insert_count = insert_count q; segments = ef100_segments skb in
      if buffer q = [] \<or> ptr_mask q = 0
      then Some (- ENODEV, set_chan_q i (kernel_call (Kfree_skb skb) q) (ch\<lparr>core_stopped := True\<rparr>))
      else if segments \<noteq> 0 then
        (case ef100_tx_can_tso env skb q of
           Some (skb', q') \<Rightarrow> ef100_enqueue_mapped env inp i efv old_insert_count segments skb' q' ch
         | None \<Rightarrow>
             (case efx_tx_tso_fallback env (\<lambda>s. ef100_enqueue n env inp i None s) i skb ch of
                None \<Rightarrow> None
              | Some (rc, ch') \<Rightarrow>
                  let ch'' = count_fallback i ch' in
                  if rc \<noteq> 0 then Some (rc, ef100_enqueue_error inp i old_insert_count skb ch'')
                  else Some (0, ch'')))
      else ef100_enqueue_mapped env inp i efv old_insert_count segments skb q ch)"

declare ef100_enqueue.simps [simp del]

text \<open>\<open>__ef100_hard_start_xmit\<close> of the network device: the channel the packet is for, or \<open>None\<close>
  when it has none, and the device's count of dropped packets. The segmentation fallback nests once.\<close>

definition ef100_hard_start_xmit :: "ef100_env \<Rightarrow> xmit_in \<Rightarrow> u16 option \<Rightarrow> sk_buff \<Rightarrow> tx_channel option \<Rightarrow> nat
    \<Rightarrow> (tx_channel option \<times> nat) option" where
  "ef100_hard_start_xmit env inp efv skb channel tx_dropped =
     (case channel of
        None \<Rightarrow> Some (None, Suc tx_dropped)
      | Some ch \<Rightarrow>
          if tx_queues ch = [] then Some (Some (ch\<lparr>core_stopped := True\<rparr>), Suc tx_dropped)
          else case ef100_enqueue 2 env inp 0 efv skb ch of
                 None \<Rightarrow> None
               | Some (rc, ch') \<Rightarrow> Some (Some ch', if rc = 0 then tx_dropped else Suc tx_dropped))"

subsection \<open>The channel's poll\<close>

text \<open>
  The transmit part of \<open>efx_process_channel\<close>: the counters of completed packets are reset, the
  completion events handled, the doorbells rung that the transmit path held back, and the kernel's
  queue woken.
\<close>

definition notify_unsent :: "efx_tx_queue \<Rightarrow> efx_tx_queue" where
  "notify_unsent q =
     (if notify_count q \<noteq> write_count q
      then let q' = ef100_notify_tx_desc q in q'\<lparr>doorbell_notify_comp := doorbell_notify_comp q' + 1\<rparr>
      else q)"

partial_function (option) holdoff_loop :: "tx_channel \<Rightarrow> tx_channel option" where
  "holdoff_loop ch =
     (if holdoff_doorbell ch then
        let ch' = ch\<lparr>tx_queues := map notify_unsent (tx_queues ch), holdoff_doorbell := False\<rparr>;
            unsent = sum_list (map (\<lambda>q. write_count q - notify_count q) (tx_queues ch')) in
        if unsent \<noteq> 0 then holdoff_loop (ch'\<lparr>holdoff_doorbell := True\<rparr>) else holdoff_loop ch'
      else Some ch)"

declare holdoff_loop.simps [code]

definition wake_queue :: "ef100_env \<Rightarrow> tx_channel \<Rightarrow> tx_channel" where
  "wake_queue env ch =
     (if tx_queues ch \<noteq> [] \<and> efx_channel_tx_fill_level ch \<le> txq_wake_thresh env \<and> core_txq_set env \<and> core_stopped ch \<and>
         port_enabled env \<and> device_present env
      then ch\<lparr>core_stopped := False\<rparr> else ch)"

definition efx_process_channel :: "ef100_env \<Rightarrow> u64 list \<Rightarrow> tx_channel \<Rightarrow> tx_channel option" where
  "efx_process_channel env events ch =
     (let ch1 = ch\<lparr>holdoff_doorbell := tx_coalesce_doorbell ch,
                   tx_queues := map (\<lambda>q. q\<lparr>pkts_compl := 0, bytes_compl := 0\<rparr>) (tx_queues ch)\<rparr> in
      case ef100_ev_txs env events ch1 of
        None \<Rightarrow> None
      | Some ch2 \<Rightarrow> (case holdoff_loop ch2 of None \<Rightarrow> None | Some ch3 \<Rightarrow> Some (wake_queue env ch3)))"

subsection \<open>Thresholds\<close>

definition MAX_SKB_FRAGS :: nat where
  "MAX_SKB_FRAGS = 17"

definition ef100_tx_max_skb_descs :: nat where
  "ef100_tx_max_skb_descs = 3 + MAX_SKB_FRAGS"

text \<open>\<open>efx_start_datapath\<close> sets the thresholds from the number of entries.\<close>

definition stop_thresh :: "u32 \<Rightarrow> u32" where
  "stop_thresh txq_entries = txq_entries - of_nat ef100_tx_max_skb_descs"

definition wake_thresh :: "u32 \<Rightarrow> u32" where
  "wake_thresh txq_entries = stop_thresh txq_entries div 2"

end
