(* ===== verification/Tx_Ring.thy ===== *)
theory Tx_Ring
  imports Tx
begin

section \<open>The transmit ring as a first-in first-out list\<close>

text \<open>
  \<open>pending q\<close> is the list of the buffers between \<open>read_count\<close> and \<open>insert_count\<close>, oldest first.
  The ring is well formed (\<open>ring_ok\<close>) when its size is the power of two of the pointer mask, the
  counters are at most a ring apart, every buffer outside that interval is free and every buffer
  inside is in use. On a well formed ring an insertion appends to \<open>pending\<close>, a completion removes
  its head and an unwound insertion its last element; the counters wrap at 32 bits.
\<close>

definition pos :: "efx_tx_queue \<Rightarrow> nat \<Rightarrow> nat" where
  "pos q n = unat ((read_count q + of_nat n) AND ptr_mask q)"

definition fill :: "efx_tx_queue \<Rightarrow> nat" where
  "fill q = unat (insert_count q - read_count q)"

definition pending :: "efx_tx_queue \<Rightarrow> efx_tx_buffer list" where
  "pending q = map (\<lambda>n. buffer q ! pos q n) [0..<fill q]"

definition free_slot :: "efx_tx_buffer \<Rightarrow> bool" where
  "free_slot b \<longleftrightarrow> tb_len b = 0 \<and> tb_flags b = 0 \<and> tb_unmap_len b = 0"

definition obj_ok :: "efx_tx_buffer \<Rightarrow> bool" where
  "obj_ok b \<longleftrightarrow> (tb_flags b AND EFX_TX_BUF_SKB \<noteq> 0 \<longrightarrow> (\<exists>s. tb_obj b = Skb s))"

definition live_slot :: "efx_tx_buffer \<Rightarrow> bool" where
  "live_slot b \<longleftrightarrow> efx_tx_buffer_in_use b \<and> obj_ok b"

definition ring_shape :: "efx_tx_queue \<Rightarrow> bool" where
  "ring_shape q \<longleftrightarrow> (\<exists>k\<le>31. ptr_mask q = mask k \<and> length (buffer q) = 2 ^ k) \<and> fill q \<le> length (buffer q)"

definition ring_ok :: "efx_tx_queue \<Rightarrow> bool" where
  "ring_ok q \<longleftrightarrow> ring_shape q \<and>
     (\<forall>j<length (buffer q). j \<notin> pos q ` {..<fill q} \<longrightarrow> free_slot (buffer q ! j)) \<and>
     (\<forall>n<fill q. live_slot (buffer q ! pos q n))"

lemma ring_shapeE:
  assumes "ring_shape q"
  obtains k where "k \<le> 31" and "ptr_mask q = mask k" and "length (buffer q) = 2 ^ k"
    and "fill q \<le> 2 ^ k" and "\<And>n. pos q n = (unat (read_count q) + n) mod 2 ^ k"
proof -
  obtain k where k: "k \<le> 31" "ptr_mask q = mask k" "length (buffer q) = 2 ^ k" "fill q \<le> 2 ^ k"
    using assms by (auto simp: ring_shape_def)
  then show ?thesis
    using that by (simp add: pos_def unat_add_nat_mod)
qed

lemma pos_less: "ring_shape q \<Longrightarrow> pos q n < length (buffer q)"
  by (erule ring_shapeE) simp

lemma pos_inj:
  assumes "ring_shape q" and "pos q m = pos q n" and "m < length (buffer q)" and "n < length (buffer q)"
  shows "m = n"
  using assms by (elim ring_shapeE) (auto dest: mod_add_inj)

lemma length_pending [simp]: "length (pending q) = fill q"
  by (simp add: pending_def)

lemma pending_nth: "n < fill q \<Longrightarrow> pending q ! n = buffer q ! pos q n"
  by (simp add: pending_def)

subsection \<open>Slots\<close>

lemma insert_count_eq: "insert_count q = read_count q + of_nat (fill q)"
  by (simp add: fill_def)

lemma insert_index_pos: "efx_tx_queue_get_insert_index q = pos q (fill q)"
  by (simp add: efx_tx_queue_get_insert_index_def pos_def insert_count_eq [symmetric])

lemma slot_cases:
  assumes "ring_shape q" and "j < length (buffer q)"
  obtains n where "n < length (buffer q)" and "j = pos q n"
proof -
  have "inj_on (pos q) {..<length (buffer q)}"
    using assms(1) by (auto intro!: inj_onI dest: pos_inj)
  then have "pos q ` {..<length (buffer q)} = {..<length (buffer q)}"
    using assms(1) by (intro endo_inj_surj) (auto simp: pos_less)
  then show ?thesis
    using assms(2) that by blast
qed

lemma ring_okI:
  assumes "ring_shape q"
    and "\<And>n. n < fill q \<Longrightarrow> live_slot (buffer q ! pos q n)"
    and "\<And>n. fill q \<le> n \<Longrightarrow> n < length (buffer q) \<Longrightarrow> free_slot (buffer q ! pos q n)"
  shows "ring_ok q"
  unfolding ring_ok_def
  using assms by (auto elim: slot_cases) (metis imageI lessThan_iff not_le slot_cases)

lemma ring_okD:
  assumes "ring_ok q"
  shows ring_ok_shape: "ring_shape q"
    and ring_ok_fill: "fill q \<le> length (buffer q)"
    and ring_ok_live: "n < fill q \<Longrightarrow> live_slot (buffer q ! pos q n)"
    and ring_ok_free: "fill q \<le> n \<Longrightarrow> n < length (buffer q) \<Longrightarrow> free_slot (buffer q ! pos q n)"
proof -
  show "ring_shape q" "fill q \<le> length (buffer q)" "n < fill q \<Longrightarrow> live_slot (buffer q ! pos q n)"
    using assms by (auto simp: ring_ok_def ring_shape_def)
  assume n: "fill q \<le> n" "n < length (buffer q)"
  have "pos q n \<notin> pos q ` {..<fill q}"
    using n assms by (auto simp: ring_ok_def dest!: pos_inj)
  then show "free_slot (buffer q ! pos q n)"
    using n assms by (auto simp: ring_ok_def pos_less)
qed

lemma nth_update_pos:
  assumes "ring_shape q" and "m < length (buffer q)" and "n < length (buffer q)"
  shows "(buffer q)[pos q m := b] ! pos q n = (if m = n then b else buffer q ! pos q n)"
  using assms pos_less [OF assms(1)] pos_inj [OF assms(1)] by (auto simp: nth_list_update)

subsection \<open>Insertion\<close>

definition push_buffer :: "efx_tx_buffer \<Rightarrow> efx_tx_queue \<Rightarrow> efx_tx_queue" where
  "push_buffer b q =
     (set_tx_slot (efx_tx_queue_get_insert_index q) b q)\<lparr>insert_count := insert_count q + 1\<rparr>"

lemma push_buffer_fields [simp]:
  "read_count (push_buffer b q) = read_count q"
  "ptr_mask (push_buffer b q) = ptr_mask q"
  "insert_count (push_buffer b q) = insert_count q + 1"
  "length (buffer (push_buffer b q)) = length (buffer q)"
  "calls (push_buffer b q) = calls q"
  "buffer (push_buffer b q) = (buffer q)[pos q (fill q) := b]"
  "pos (push_buffer b q) = pos q"
  by (simp_all add: push_buffer_def set_tx_slot_def pos_def [abs_def] insert_index_pos)

lemma ring_size_le: "ring_shape q \<Longrightarrow> length (buffer q) \<le> 2 ^ 31"
  using pow_le_31 by (auto simp: ring_shape_def)

lemma fill_push:
  assumes "ring_shape q" and "fill q < length (buffer q)"
  shows "fill (push_buffer b q) = Suc (fill q)"
proof -
  have "unat (insert_count q - read_count q) < 2 ^ 32 - 1"
    using ring_size_le [OF assms(1)] assms(2) by (simp add: fill_def)
  then show ?thesis
    using unat_Suc_bound [of "insert_count q - read_count q"] by (simp add: fill_def algebra_simps)
qed

lemma ring_shape_push:
  assumes "ring_shape q" and "fill q < length (buffer q)"
  shows "ring_shape (push_buffer b q)"
  using assms(1) fill_push [OF assms] assms(2) by (simp add: ring_shape_def)

lemma ring_ok_push:
  assumes "ring_ok q" and "fill q < length (buffer q)" and "live_slot b"
  shows "ring_ok (push_buffer b q)"
proof (rule ring_okI)
  have shape: "ring_shape q"
    using assms(1) by (rule ring_ok_shape)
  show "ring_shape (push_buffer b q)"
    using shape assms(2) by (rule ring_shape_push)
  show "live_slot (buffer (push_buffer b q) ! pos (push_buffer b q) n)" if "n < fill (push_buffer b q)" for n
    using that assms ring_ok_live [OF assms(1), of n]
    by (auto simp: fill_push [OF shape assms(2)] nth_update_pos [OF shape] less_Suc_eq)
  show "free_slot (buffer (push_buffer b q) ! pos (push_buffer b q) n)"
    if "fill (push_buffer b q) \<le> n" "n < length (buffer (push_buffer b q))" for n
    using that assms ring_ok_free [OF assms(1), of n]
    by (auto simp: fill_push [OF shape assms(2)] nth_update_pos [OF shape])
qed

lemma pending_push:
  assumes "ring_ok q" and "fill q < length (buffer q)"
  shows "pending (push_buffer b q) = pending q @ [b]"
proof -
  have shape: "ring_shape q"
    using assms(1) by (rule ring_ok_shape)
  show ?thesis
    using assms(2) by (auto simp: pending_def fill_push [OF shape assms(2)] nth_update_pos [OF shape])
qed

text \<open>The buffer last inserted, and an update of it.\<close>

definition last_pos :: "efx_tx_queue \<Rightarrow> nat" where
  "last_pos q = pos q (fill q - 1)"

lemma set_tx_slot_fields [simp]:
  "read_count (set_tx_slot i b q) = read_count q"
  "ptr_mask (set_tx_slot i b q) = ptr_mask q"
  "insert_count (set_tx_slot i b q) = insert_count q"
  "calls (set_tx_slot i b q) = calls q"
  "fill (set_tx_slot i b q) = fill q"
  "pos (set_tx_slot i b q) = pos q"
  "buffer (set_tx_slot i b q) = (buffer q)[i := b]"
  by (simp_all add: set_tx_slot_def fill_def pos_def [abs_def])

lemma set_pending:
  assumes "ring_ok q" and "m < fill q"
  shows "pending (set_tx_slot (pos q m) b q) = (pending q)[m := b]"
  using assms ring_ok_fill [OF assms(1)]
  by (auto intro!: nth_equalityI simp: pending_nth nth_update_pos [OF ring_ok_shape [OF assms(1)]] nth_list_update)

lemma ring_ok_set:
  assumes "ring_ok q" and "m < fill q" and "live_slot b"
  shows "ring_ok (set_tx_slot (pos q m) b q)"
proof (rule ring_okI)
  note shape = ring_ok_shape [OF assms(1)] and le = ring_ok_fill [OF assms(1)]
  show "ring_shape (set_tx_slot (pos q m) b q)"
    using shape by (simp add: ring_shape_def)
  show "live_slot (buffer (set_tx_slot (pos q m) b q) ! pos (set_tx_slot (pos q m) b q) n)"
    if "n < fill (set_tx_slot (pos q m) b q)" for n
    using that assms le ring_ok_live [OF assms(1), of n] by (simp add: nth_update_pos [OF shape])
  show "free_slot (buffer (set_tx_slot (pos q m) b q) ! pos (set_tx_slot (pos q m) b q) n)"
    if "fill (set_tx_slot (pos q m) b q) \<le> n" "n < length (buffer (set_tx_slot (pos q m) b q))" for n
    using that assms le ring_ok_free [OF assms(1), of n] by (simp add: nth_update_pos [OF shape])
qed

lemma set_last:
  assumes "ring_ok q" and "pending q = bs @ [b0]" and "live_slot b"
  shows ring_ok_set_last: "ring_ok (set_tx_slot (last_pos q) b q)"
    and pending_set_last: "pending (set_tx_slot (last_pos q) b q) = bs @ [b]"
    and last_slot: "tx_slot q (last_pos q) = b0"
proof -
  have n: "fill q = Suc (length bs)"
    using arg_cong [OF assms(2), of length] by simp
  show "ring_ok (set_tx_slot (last_pos q) b q)"
    using assms n by (simp add: last_pos_def ring_ok_set)
  show "pending (set_tx_slot (last_pos q) b q) = bs @ [b]"
    using assms n by (simp add: last_pos_def set_pending)
  show "tx_slot q (last_pos q) = b0"
    using assms n pending_nth [of "length bs" q] by (simp add: last_pos_def tx_slot_def)
qed

subsection \<open>Release\<close>

definition released :: "efx_tx_buffer \<Rightarrow> efx_tx_buffer" where
  "released b = b\<lparr>tb_unmap_len := 0, tb_len := 0, tb_flags := 0\<rparr>"

lemma free_released [simp]: "free_slot (released b)"
  by (simp add: free_slot_def released_def)

lemma unmap_len_same: "tb_unmap_len b = 0 \<Longrightarrow> b\<lparr>tb_unmap_len := 0\<rparr> = b"
  by (rule efx_tx_buffer.equality) simp_all

lemma buffer_dequeue_unmap:
  "buffer (dequeue_unmap i q) = (buffer q)[i := (tx_slot q i)\<lparr>tb_unmap_len := 0\<rparr>]"
  by (simp add: dequeue_unmap_def Let_def kernel_call_def tx_slot_def set_tx_slot_def unmap_len_same)

lemma buffer_dequeue:
  "buffer (snd (efx_dequeue_buffer i pb q)) = (buffer q)[i := released (tx_slot q i)]"
  by (cases "i < length (buffer q)")
    (auto simp: efx_dequeue_buffer_def Let_def release_obj_frame buffer_dequeue_unmap tx_slot_def
      released_def list_update_beyond)

definition pop_buffer :: "u32 \<times> u32 \<Rightarrow> efx_tx_queue \<Rightarrow> (u32 \<times> u32) \<times> efx_tx_queue" where
  "pop_buffer pb q =
     (let r = efx_dequeue_buffer (pos q 0) pb q in (fst r, advance_read (snd r)))"

definition unpush_buffer :: "efx_tx_queue \<Rightarrow> efx_tx_queue" where
  "unpush_buffer q = snd (efx_dequeue_buffer (last_pos q) (0, 0) (retreat_insert q))"

lemma pop_buffer_fields [simp]:
  "read_count (snd (pop_buffer pb q)) = read_count q + 1"
  "ptr_mask (snd (pop_buffer pb q)) = ptr_mask q"
  "insert_count (snd (pop_buffer pb q)) = insert_count q"
  "buffer (snd (pop_buffer pb q)) = (buffer q)[pos q 0 := released (buffer q ! pos q 0)]"
  by (simp_all add: pop_buffer_def advance_read_def Let_def dequeue_buffer_counts buffer_dequeue tx_slot_def)

lemma unpush_buffer_fields [simp]:
  "read_count (unpush_buffer q) = read_count q"
  "ptr_mask (unpush_buffer q) = ptr_mask q"
  "insert_count (unpush_buffer q) = insert_count q - 1"
  "buffer (unpush_buffer q) = (buffer q)[last_pos q := released (buffer q ! last_pos q)]"
  by (simp_all add: unpush_buffer_def retreat_insert_def dequeue_buffer_counts buffer_dequeue tx_slot_def)

lemma fill_pos_word: "0 < fill q \<Longrightarrow> fill q = Suc (unat (insert_count q - read_count q - 1))"
  by (simp add: fill_def unat_minus_one unat_gt_0)

lemma fill_pop: "0 < fill q \<Longrightarrow> fill (snd (pop_buffer pb q)) = fill q - 1"
  using fill_pos_word [of q] by (simp add: fill_def diff_diff_eq add.commute)

lemma fill_unpush: "0 < fill q \<Longrightarrow> fill (unpush_buffer q) = fill q - 1"
  using fill_pos_word [of q] by (simp add: fill_def algebra_simps)

lemma pos_pop: "pos (snd (pop_buffer pb q)) n = pos q (Suc n)"
  by (simp add: pos_def add.assoc)

lemma pos_unpush [simp]: "pos (unpush_buffer q) = pos q"
  by (simp add: pos_def [abs_def])

lemma pos_wrap:
  assumes "ring_shape q"
  shows "pos q (length (buffer q) + n) = pos q n"
proof (rule ring_shapeE [OF assms])
  fix k
  assume "length (buffer q) = 2 ^ k" and "\<And>n. pos q n = (unat (read_count q) + n) mod 2 ^ k"
  then show ?thesis
    using mod_add_self2 [of "unat (read_count q) + n" "2 ^ k"] by (simp add: ac_simps)
qed

lemma ring_ok_pop:
  assumes "ring_ok q" and "0 < fill q"
  shows "ring_ok (snd (pop_buffer pb q))"
proof (rule ring_okI)
  note shape = ring_ok_shape [OF assms(1)] and le = ring_ok_fill [OF assms(1)]
  have ne: "buffer q \<noteq> []"
    using le assms(2) by auto
  show "ring_shape (snd (pop_buffer pb q))"
    using shape assms(2) by (auto simp: ring_shape_def fill_pop)
  show "live_slot (buffer (snd (pop_buffer pb q)) ! pos (snd (pop_buffer pb q)) n)"
    if "n < fill (snd (pop_buffer pb q))" for n
    using that assms le ne ring_ok_live [OF assms(1), of "Suc n"] nth_update_pos [OF shape, of 0 "Suc n"]
    by (simp add: fill_pop pos_pop)
  show "free_slot (buffer (snd (pop_buffer pb q)) ! pos (snd (pop_buffer pb q)) n)"
    if n: "fill (snd (pop_buffer pb q)) \<le> n" "n < length (buffer (snd (pop_buffer pb q)))" for n
  proof (cases "Suc n = length (buffer q)")
    case True
    then have "pos q (Suc n) = pos q 0"
      using pos_wrap [OF shape, of 0] by simp
    then show ?thesis
      using pos_less [OF shape, of 0] by (simp add: pos_pop)
  next
    case False
    then show ?thesis
      using n assms le ne ring_ok_free [OF assms(1), of "Suc n"] nth_update_pos [OF shape, of 0 "Suc n"]
      by (simp add: fill_pop pos_pop)
  qed
qed

lemma pending_pop:
  assumes "ring_ok q" and "0 < fill q"
  shows "pending q = buffer q ! pos q 0 # pending (snd (pop_buffer pb q))"
proof (rule nth_equalityI)
  note shape = ring_ok_shape [OF assms(1)] and le = ring_ok_fill [OF assms(1)]
  have ne: "buffer q \<noteq> []"
    using le assms(2) by auto
  show "length (pending q) = length (buffer q ! pos q 0 # pending (snd (pop_buffer pb q)))"
    using assms by (simp add: fill_pop)
  show "pending q ! n = (buffer q ! pos q 0 # pending (snd (pop_buffer pb q))) ! n" if "n < length (pending q)" for n
    using that assms le ne
      nth_update_pos [OF shape, of 0 "Suc (n - 1)"]
    by (cases n) (simp_all add: pending_nth fill_pop pos_pop)
qed

lemma ring_ok_unpush:
  assumes "ring_ok q" and "0 < fill q"
  shows "ring_ok (unpush_buffer q)"
proof (rule ring_okI)
  note shape = ring_ok_shape [OF assms(1)] and le = ring_ok_fill [OF assms(1)]
  show "ring_shape (unpush_buffer q)"
    using shape assms(2) by (auto simp: ring_shape_def fill_unpush)
  show "live_slot (buffer (unpush_buffer q) ! pos (unpush_buffer q) n)" if "n < fill (unpush_buffer q)" for n
    using that assms le ring_ok_live [OF assms(1), of n]
    by (simp add: fill_unpush last_pos_def nth_update_pos [OF shape])
  show "free_slot (buffer (unpush_buffer q) ! pos (unpush_buffer q) n)"
    if n: "fill (unpush_buffer q) \<le> n" "n < length (buffer (unpush_buffer q))" for n
    using n assms le ring_ok_free [OF assms(1), of n]
    by (cases "n = fill q - 1") (simp_all add: fill_unpush last_pos_def nth_update_pos [OF shape])
qed

lemma pending_unpush:
  assumes "ring_ok q" and "0 < fill q"
  shows "pending q = pending (unpush_buffer q) @ [buffer q ! last_pos q]"
proof (rule nth_equalityI)
  note shape = ring_ok_shape [OF assms(1)] and le = ring_ok_fill [OF assms(1)]
  show "length (pending q) = length (pending (unpush_buffer q) @ [buffer q ! last_pos q])"
    using assms by (simp add: fill_unpush)
  show "pending q ! n = (pending (unpush_buffer q) @ [buffer q ! last_pos q]) ! n" if "n < length (pending q)" for n
    using that assms le
    by (cases "n = fill q - 1")
      (auto simp: pending_nth nth_append fill_unpush last_pos_def nth_update_pos [OF shape])
qed

text \<open>The unwinding loop in terms of \<open>unpush_buffer\<close>.\<close>

lemma unwind_step:
  "efx_enqueue_unwind target q =
     (if insert_count q = target then q else efx_enqueue_unwind target (unpush_buffer q))"
  if "0 < fill q"
proof -
  have "efx_tx_queue_get_insert_index (retreat_insert q) = last_pos q"
  proof -
    have "insert_count q - 1 = read_count q + of_nat (fill q - 1)"
      using that insert_count_eq [of q] by (simp add: of_nat_diff)
    then show ?thesis
      by (simp add: efx_tx_queue_get_insert_index_def retreat_insert_def last_pos_def pos_def)
  qed
  then show ?thesis
    by (subst efx_enqueue_unwind.simps) (simp add: unpush_buffer_def)
qed

end
