(* ===== verification/Tx_Acct.thy ===== *)
theory Tx_Acct
  imports Tx_Ring
begin

section \<open>Who owns the DMA mappings and the socket buffers of a queue\<close>

text \<open>
  Read from the trace of kernel calls: \<open>live_maps\<close> is the multiset of the DMA mappings made and
  not released, \<open>unmaps_ok\<close> says that every release was of a live mapping with its own address,
  length and kind, \<open>freed\<close> is the multiset of the socket buffers (by \<open>skb_id\<close>) given back to the kernel and
  \<open>created\<close> that of the segments received from \<open>skb_gso_segment\<close>. \<open>acct q X Y\<close> is the
  balance: the live mappings are those held by the pending buffers and the ones in \<open>X\<close>; the
  socket buffers freed or pending, and the segments \<open>snd Y\<close> still to be enqueued, are the packets
  \<open>fst Y\<close> that the queue was given and the segments created.
\<close>

type_synonym mapping_id = "dma_kind \<times> u64 \<times> nat"

fun live_maps :: "kcall list \<Rightarrow> mapping_id multiset" where
  "live_maps [] = {#}"
| "live_maps (Dma_map k a n # cs) = add_mset (k, a, n) (live_maps cs)"
| "live_maps (Dma_unmap k a n # cs) = live_maps cs - {#(k, a, n)#}"
| "live_maps (_ # cs) = live_maps cs"

fun unmaps_ok :: "kcall list \<Rightarrow> bool" where
  "unmaps_ok [] = True"
| "unmaps_ok (Dma_unmap k a n # cs) = ((k, a, n) \<in># live_maps cs \<and> unmaps_ok cs)"
| "unmaps_ok (_ # cs) = unmaps_ok cs"

fun freed :: "kcall list \<Rightarrow> nat multiset" where
  "freed [] = {#}"
| "freed (Kfree_skb s # cs) = add_mset (skb_id s) (freed cs)"
| "freed (Consume_skb s # cs) = add_mset (skb_id s) (freed cs)"
| "freed (_ # cs) = freed cs"

fun created :: "kcall list \<Rightarrow> nat multiset" where
  "created [] = {#}"
| "created (Gso_segment s segs # cs) = mset (map skb_id segs) + created cs"
| "created (_ # cs) = created cs"

definition owned :: "efx_tx_buffer \<Rightarrow> mapping_id multiset" where
  "owned b = (if tb_unmap_len b \<noteq> 0 then {#(tb_kind b, tb_unmap_addr b, unat (tb_unmap_len b))#} else {#})"

definition skb_of :: "efx_tx_buffer \<Rightarrow> nat multiset" where
  "skb_of b = (if tb_flags b AND EFX_TX_BUF_SKB \<noteq> 0 then (case tb_obj b of Skb s \<Rightarrow> {#skb_id s#} | _ \<Rightarrow> {#}) else {#})"

definition maps_held :: "efx_tx_buffer list \<Rightarrow> mapping_id multiset" where
  "maps_held bs = (\<Sum>b\<leftarrow>bs. owned b)"

definition skbs_held :: "efx_tx_buffer list \<Rightarrow> nat multiset" where
  "skbs_held bs = (\<Sum>b\<leftarrow>bs. skb_of b)"

lemma held_simps [simp]:
  "maps_held [] = {#}" "maps_held (b # bs) = owned b + maps_held bs"
  "maps_held (bs @ cs) = maps_held bs + maps_held cs"
  "skbs_held [] = {#}" "skbs_held (b # bs) = skb_of b + skbs_held bs"
  "skbs_held (bs @ cs) = skbs_held bs + skbs_held cs"
  by (simp_all add: maps_held_def skbs_held_def)

type_synonym skb_account = "nat multiset \<times> nat multiset"

definition add_skb :: "sk_buff \<Rightarrow> skb_account \<Rightarrow> skb_account" where
  "add_skb s Y = (add_mset (skb_id s) (fst Y), snd Y)"

definition acct :: "efx_tx_queue \<Rightarrow> mapping_id multiset \<Rightarrow> skb_account \<Rightarrow> bool" where
  "acct q X Y \<longleftrightarrow> unmaps_ok (calls q) \<and> live_maps (calls q) = maps_held (pending q) + X \<and>
     freed (calls q) + skbs_held (pending q) + snd Y = fst Y + created (calls q)"

subsection \<open>Releasing a buffer\<close>

lemma calls_unmap:
  "calls (dequeue_unmap i q) =
     (if tb_unmap_len (tx_slot q i) \<noteq> 0
      then Dma_unmap (tb_kind (tx_slot q i)) (tb_unmap_addr (tx_slot q i)) (unat (tb_unmap_len (tx_slot q i))) # calls q
      else calls q)"
  by (simp add: dequeue_unmap_def Let_def kernel_call_def)

lemma acct_release_obj:
  "live_maps (calls (snd (release_obj b pb q))) = live_maps (calls q)"
  "unmaps_ok (calls (snd (release_obj b pb q))) = unmaps_ok (calls q)"
  "created (calls (snd (release_obj b pb q))) = created (calls q)"
  "freed (calls (snd (release_obj b pb q))) = freed (calls q) + skb_of b"
  by (simp_all add: release_obj_def complete_skb_def kernel_call_def skb_of_def split: tx_obj.splits)

lemma dequeue_trace:
  "live_maps (calls (snd (efx_dequeue_buffer i pb q))) = live_maps (calls q) - owned (tx_slot q i)"
  "unmaps_ok (calls (snd (efx_dequeue_buffer i pb q))) =
     (owned (tx_slot q i) \<subseteq># live_maps (calls q) \<and> unmaps_ok (calls q))"
  "created (calls (snd (efx_dequeue_buffer i pb q))) = created (calls q)"
  "freed (calls (snd (efx_dequeue_buffer i pb q))) = freed (calls q) + skb_of (tx_slot q i)"
  by (simp_all add: efx_dequeue_buffer_def Let_def acct_release_obj calls_unmap owned_def)

lemma pop_trace:
  "calls (snd (pop_buffer pb q)) = calls (snd (efx_dequeue_buffer (pos q 0) pb q))"
  by (simp add: pop_buffer_def advance_read_def Let_def)

lemma unpush_trace:
  "calls (unpush_buffer q) = calls (snd (efx_dequeue_buffer (last_pos q) (0, 0) (retreat_insert q)))"
  by (simp add: unpush_buffer_def)

lemma tx_slot_retreat [simp]: "tx_slot (retreat_insert q) i = tx_slot q i"
  "calls (retreat_insert q) = calls q"
  by (simp_all add: tx_slot_def retreat_insert_def)

lemma acct_pop:
  assumes "ring_ok q" and "0 < fill q" and "acct q X Y"
  shows "acct (snd (pop_buffer pb q)) X Y"
  using assms(3) pending_pop [OF assms(1,2), of pb]
  by (simp add: acct_def pop_trace dequeue_trace tx_slot_def ac_simps)

lemma acct_unpush:
  assumes "ring_ok q" and "0 < fill q" and "acct q X Y"
  shows "acct (unpush_buffer q) X Y"
  using assms(3) pending_unpush [OF assms(1,2)]
  by (simp add: acct_def unpush_trace dequeue_trace) (simp add: tx_slot_def ac_simps)

subsection \<open>What the ring operations leave alone\<close>

definition ring_frame :: "efx_tx_queue \<Rightarrow> efx_tx_queue \<Rightarrow> bool" where
  "ring_frame q q' \<longleftrightarrow> txq_queue q' = txq_queue q \<and> ptr_mask q' = ptr_mask q \<and>
     length (buffer q') = length (buffer q) \<and> txd q' = txd q \<and> write_count q' = write_count q \<and>
     packet_write_count q' = packet_write_count q \<and> notify_count q' = notify_count q \<and>
     xmit_pending q' = xmit_pending q \<and> spurious_tx q' = spurious_tx q"

lemma ring_frame_refl [simp]: "ring_frame q q"
  by (simp add: ring_frame_def)

lemma ring_frame_trans: "ring_frame q q' \<Longrightarrow> ring_frame q' q'' \<Longrightarrow> ring_frame q q''"
  by (simp add: ring_frame_def)

lemma ring_frame_release: "ring_frame q (snd (release_obj b pb q))"
  by (simp add: ring_frame_def release_obj_def complete_skb_def kernel_call_def split: tx_obj.splits)

lemma ring_frame_dequeue: "ring_frame q (snd (efx_dequeue_buffer i pb q))"
proof -
  have "ring_frame q (dequeue_unmap i q)"
    by (simp add: ring_frame_def dequeue_unmap_def set_tx_slot_def kernel_call_def Let_def)
  moreover have "ring_frame q' (set_tx_slot i b q')" for b q'
    by (simp add: ring_frame_def set_tx_slot_def)
  ultimately show ?thesis
    unfolding efx_dequeue_buffer_def Let_def snd_conv
    by (blast intro: ring_frame_trans ring_frame_release)
qed

lemma ring_frame_counts:
  "ring_frame q (advance_read q)" "ring_frame q (retreat_insert q)"
  by (simp_all add: ring_frame_def advance_read_def retreat_insert_def)

lemma ring_frame_pop: "ring_frame q (snd (pop_buffer pb q))"
  unfolding pop_buffer_def Let_def snd_conv by (blast intro: ring_frame_trans ring_frame_dequeue ring_frame_counts)

lemma ring_frame_unpush: "ring_frame q (unpush_buffer q)"
  unfolding unpush_buffer_def by (blast intro: ring_frame_trans ring_frame_dequeue ring_frame_counts)

lemma fetch_dequeue: "tx_desc_fetch (snd (efx_dequeue_buffer i pb q)) = tx_desc_fetch q"
  by (simp add: efx_dequeue_buffer_def release_obj_def complete_skb_def kernel_call_def dequeue_unmap_def
      set_tx_slot_def Let_def split: tx_obj.splits)

lemma fetch_pop [simp]: "tx_desc_fetch (snd (pop_buffer pb q)) = tx_desc_fetch q"
  by (simp add: pop_buffer_def Let_def advance_read_def fetch_dequeue)

lemma fetch_unpush [simp]: "tx_desc_fetch (unpush_buffer q) = tx_desc_fetch q"
  by (simp add: unpush_buffer_def fetch_dequeue retreat_insert_def)

subsection \<open>The unwinding loop\<close>

definition unwound :: "efx_tx_queue \<Rightarrow> efx_tx_buffer list \<Rightarrow> efx_tx_queue \<Rightarrow> bool" where
  "unwound q bs q' \<longleftrightarrow> ring_ok q' \<and> pending q' = bs \<and> read_count q' = read_count q \<and>
     insert_count q' = read_count q + of_nat (length bs) \<and> ring_frame q q' \<and>
     tx_desc_fetch q' = tx_desc_fetch q \<and> (\<forall>X Y. acct q X Y \<longrightarrow> acct q' X Y)"

lemma unwind_pending:
  assumes "ring_ok q" and "pending q = bs @ new"
  shows "unwound q bs (efx_enqueue_unwind (read_count q + of_nat (length bs)) q)"
  using assms
proof (induction new arbitrary: q rule: rev_induct)
  case Nil
  then have "insert_count q = read_count q + of_nat (length bs)"
    using insert_count_eq [of q] length_pending [of q] by simp
  then show ?case
    using Nil by (simp add: efx_enqueue_unwind.simps unwound_def)
next
  case (snoc b new)
  have fill: "fill q = Suc (length bs + length new)"
    using arg_cong [OF snoc.prems(2), of length] by simp
  have less: "length bs < fill q" "fill q < 2 ^ 32"
    using fill unsigned_less [of "insert_count q - read_count q", where ?'a = nat] by (simp_all add: fill_def)
  then have "unat (of_nat (length bs) :: u32) \<noteq> unat (of_nat (fill q) :: u32)"
    by (simp add: unat_of_nat take_bit_nat_eq_self)
  then have "insert_count q \<noteq> read_count q + of_nat (length bs)"
    using insert_count_eq [of q] by auto
  then have step: "efx_enqueue_unwind (read_count q + of_nat (length bs)) q =
      efx_enqueue_unwind (read_count (unpush_buffer q) + of_nat (length bs)) (unpush_buffer q)"
    using fill unwind_step [of q "read_count q + of_nat (length bs)"] by simp
  have "pending (unpush_buffer q) = bs @ new"
    using snoc.prems fill pending_unpush [of q] by simp
  then have "unwound (unpush_buffer q) bs (efx_enqueue_unwind (read_count q + of_nat (length bs)) q)"
    using snoc.IH [of "unpush_buffer q"] snoc.prems(1) fill step ring_ok_unpush [of q] by simp
  then show ?case
    using fill snoc.prems acct_unpush [of q] ring_frame_trans [OF ring_frame_unpush]
    by (auto simp: unwound_def)
qed


subsection \<open>The completion loop\<close>

fun pop_many :: "nat \<Rightarrow> u32 \<times> u32 \<Rightarrow> efx_tx_queue \<Rightarrow> (u32 \<times> u32) \<times> efx_tx_queue" where
  "pop_many 0 pb q = (pb, q)"
| "pop_many (Suc n) pb q = (let r = pop_buffer pb q in pop_many n (fst r) (snd r))"

lemma pop_many_spec:
  assumes "ring_ok q" and "n \<le> fill q"
  shows "ring_ok (snd (pop_many n pb q))"
    and "pending (snd (pop_many n pb q)) = drop n (pending q)"
    and "read_count (snd (pop_many n pb q)) = read_count q + of_nat n"
    and "insert_count (snd (pop_many n pb q)) = insert_count q"
    and "ring_frame q (snd (pop_many n pb q))"
    and "tx_desc_fetch (snd (pop_many n pb q)) = tx_desc_fetch q"
    and "acct q X Y \<longrightarrow> acct (snd (pop_many n pb q)) X Y"
proof -
  have "ring_ok (snd (pop_many n pb q)) \<and> pending (snd (pop_many n pb q)) = drop n (pending q) \<and>
      read_count (snd (pop_many n pb q)) = read_count q + of_nat n \<and>
      insert_count (snd (pop_many n pb q)) = insert_count q \<and> ring_frame q (snd (pop_many n pb q)) \<and>
      tx_desc_fetch (snd (pop_many n pb q)) = tx_desc_fetch q \<and>
      (acct q X Y \<longrightarrow> acct (snd (pop_many n pb q)) X Y)"
    using assms
  proof (induction n arbitrary: pb q)
    case 0
    then show ?case by simp
  next
    case (Suc n)
    then have fill: "0 < fill q" "n \<le> fill (snd (pop_buffer pb q))"
      by (simp_all add: fill_pop)
    have "drop n (pending (snd (pop_buffer pb q))) = drop (Suc n) (pending q)"
      using pending_pop [OF Suc.prems(1) fill(1), of pb] by simp
    then show ?case
      using Suc.IH [OF ring_ok_pop [OF Suc.prems(1) fill(1)] fill(2), of "fst (pop_buffer pb q)"]
        acct_pop [OF Suc.prems(1) fill(1), of X Y] ring_frame_trans [OF ring_frame_pop [of q pb]]
      by (simp add: Let_def ac_simps)
  qed
  then show "ring_ok (snd (pop_many n pb q))" "pending (snd (pop_many n pb q)) = drop n (pending q)"
    "read_count (snd (pop_many n pb q)) = read_count q + of_nat n"
    "insert_count (snd (pop_many n pb q)) = insert_count q"
    "ring_frame q (snd (pop_many n pb q))"
    "tx_desc_fetch (snd (pop_many n pb q)) = tx_desc_fetch q"
    "acct q X Y \<longrightarrow> acct (snd (pop_many n pb q)) X Y"
    by blast+
qed

lemma no_spurious: "efx_tx_buffer_in_use b \<Longrightarrow> spurious_completion env b q = (False, q)"
  by (simp add: spurious_completion_def)

lemma dequeue_loop_pops:
  assumes "ring_ok q" and "n \<le> fill q" and "n < length (buffer q)"
    and "(index + 1) AND ptr_mask q = (read_count q + of_nat n) AND ptr_mask q"
  shows "dequeue_loop env index pb q = pop_many n pb q"
  using assms
proof (induction n arbitrary: pb q)
  case 0
  then show ?case
    by (subst dequeue_loop.simps) simp
next
  case (Suc n)
  note shape = ring_ok_shape [OF Suc.prems(1)]
  have "buffer q \<noteq> []"
    using Suc.prems by auto
  then have "pos q 0 \<noteq> pos q (Suc n)"
    using pos_inj [OF shape, of 0 "Suc n"] Suc.prems by auto
  then have ne: "read_count q AND ptr_mask q \<noteq> (index + 1) AND ptr_mask q"
    using Suc.prems(4) by (auto simp: pos_def)
  have fill: "0 < fill q"
    using Suc.prems by simp
  have slot: "unat (read_count q AND ptr_mask q) = pos q 0"
    by (simp add: pos_def)
  have "efx_tx_buffer_in_use (tx_slot q (pos q 0))"
    using ring_ok_live [OF Suc.prems(1) fill] by (simp add: live_slot_def tx_slot_def)
  then have "dequeue_loop env index pb q =
      dequeue_loop env index (fst (pop_buffer pb q)) (snd (pop_buffer pb q))"
    using ne slot by (subst dequeue_loop.simps) (simp add: no_spurious pop_buffer_def Let_def)
  moreover have "(index + 1) AND ptr_mask q = (read_count q + 1 + of_nat n) AND ptr_mask q"
    using Suc.prems(4) by (simp add: ac_simps)
  ultimately show ?case
    using Suc.IH [OF ring_ok_pop [OF Suc.prems(1) fill], of pb "fst (pop_buffer pb q)"] Suc.prems
    by (simp add: fill_pop [OF fill] Let_def)
qed

text \<open>A completion that names the buffer before the oldest one does nothing.\<close>

lemma dequeue_loop_none:
  "(index + 1) AND ptr_mask q = read_count q AND ptr_mask q \<Longrightarrow> dequeue_loop env index pb q = (pb, q)"
  by (subst dequeue_loop.simps) simp

text \<open>The packets and bytes that the loop counts are those of the socket buffers it frees.\<close>

definition buf_skbs :: "efx_tx_buffer \<Rightarrow> sk_buff list" where
  "buf_skbs b = (if tb_flags b AND EFX_TX_BUF_SKB \<noteq> 0 then (case tb_obj b of Skb s \<Rightarrow> [s] | _ \<Rightarrow> []) else [])"

definition skbs_in :: "efx_tx_buffer list \<Rightarrow> sk_buff list" where
  "skbs_in bs = concat (map buf_skbs bs)"

lemma fst_dequeue:
  "fst (efx_dequeue_buffer i pb q) =
     (fst pb + of_nat (length (buf_skbs (tx_slot q i))), snd pb + sum_list (map skb_len (buf_skbs (tx_slot q i))))"
  by (simp add: efx_dequeue_buffer_def release_obj_def buf_skbs_def Let_def split: tx_obj.splits)

lemma fst_pop_many:
  assumes "ring_ok q" and "n \<le> fill q"
  shows "fst (pop_many n pb q) =
     (fst pb + of_nat (length (skbs_in (take n (pending q)))),
      snd pb + sum_list (map skb_len (skbs_in (take n (pending q)))))"
  using assms
proof (induction n arbitrary: pb q)
  case 0
  then show ?case by (simp add: skbs_in_def)
next
  case (Suc n)
  then have fill: "0 < fill q" "n \<le> fill (snd (pop_buffer pb q))"
    by (simp_all add: fill_pop)
  have "fst (pop_buffer pb q) =
      (fst pb + of_nat (length (buf_skbs (buffer q ! pos q 0))),
       snd pb + sum_list (map skb_len (buf_skbs (buffer q ! pos q 0))))"
    by (simp add: pop_buffer_def Let_def fst_dequeue tx_slot_def)
  then show ?case
    using Suc.IH [OF ring_ok_pop [OF Suc.prems(1) fill(1)] fill(2), of "fst (pop_buffer pb q)"]
      pending_pop [OF Suc.prems(1) fill(1), of pb]
    by (simp add: Let_def skbs_in_def ac_simps)
qed

end
