(* ===== verification/Tx_Map.thy ===== *)
theory Tx_Map
  imports Tx_Acct
begin

section \<open>Mapping a packet into descriptors\<close>

text \<open>
  What \<open>efx_tx_map_chunk\<close>, the fragment loop and \<open>efx_tx_map_data\<close> append to the ring: the DMA
  addresses of the new buffers are, in order, the bytes of the packet's mappings, and the balance of
  mappings and socket buffers is kept on every exit but one, the exit on a full ring, where the
  mapping just made is lost.
\<close>

definition byte_range :: "u64 \<Rightarrow> nat \<Rightarrow> u64 list" where
  "byte_range a n = map (\<lambda>i. a + of_nat i) [0..<n]"

definition desc_bytes :: "efx_tx_buffer \<Rightarrow> u64 list" where
  "desc_bytes b = byte_range (tb_addr b) (unat (tb_len b))"

lemma byte_range_0 [simp]: "byte_range a 0 = []"
  by (simp add: byte_range_def)

lemma byte_range_add: "byte_range a (m + n) = byte_range a m @ byte_range (a + of_nat m) n"
  by (rule nth_equalityI) (auto simp: byte_range_def nth_append of_nat_diff algebra_simps simp flip: of_nat_add)

text \<open>The NIC's length limit makes progress on lengths up to \<open>N\<close> and gives lengths of 16 bits.\<close>

definition chunk_ok :: "tx_env \<Rightarrow> nat \<Rightarrow> bool" where
  "chunk_ok env N \<longleftrightarrow> N < 2 ^ 32 \<and> (\<forall>a len. 0 < unat len \<and> unat len \<le> N \<longrightarrow>
     0 < unat (chunk_len env a len) \<and> unat (chunk_len env a len) \<le> unat len \<and>
     unat (chunk_len env a len) < 2 ^ 16)"

definition plain_chunk :: "efx_tx_buffer \<Rightarrow> bool" where
  "plain_chunk b \<longleftrightarrow> tb_unmap_len b = 0 \<and> tb_flags b = EFX_TX_BUF_CONT \<and> tb_len b \<noteq> 0"

lemma plain_chunk_simps:
  assumes "plain_chunk b"
  shows "live_slot b" and "owned b = {#}" and "skb_of b = {#}"
  using assms by (simp_all add: plain_chunk_def live_slot_def efx_tx_buffer_in_use_def obj_ok_def owned_def skb_of_def)

lemma plain_held:
  "\<forall>b\<in>set bs. plain_chunk b \<Longrightarrow> maps_held bs = {#} \<and> skbs_held bs = {#}"
  by (induction bs) (auto simp: plain_chunk_simps)

text \<open>\<open>extends q new q'\<close>: \<open>q'\<close> is \<open>q\<close> with the buffers \<open>new\<close> inserted.\<close>

definition extends :: "efx_tx_queue \<Rightarrow> efx_tx_buffer list \<Rightarrow> efx_tx_queue \<Rightarrow> bool" where
  "extends q new q' \<longleftrightarrow> ring_ok q' \<and> pending q' = pending q @ new \<and> read_count q' = read_count q \<and>
     ring_frame q q'"

lemma extends_refl [simp]: "extends q [] q \<longleftrightarrow> ring_ok q"
  by (simp add: extends_def)

lemma extends_trans: "extends q new q' \<Longrightarrow> extends q' new' q'' \<Longrightarrow> extends q (new @ new') q''"
  by (auto simp: extends_def intro: ring_frame_trans)

lemma extends_fill: "extends q new q' \<Longrightarrow> fill q' = fill q + length new"
  by (auto simp: extends_def simp flip: length_pending)

lemma insert_slot_free:
  assumes "ring_ok q" and "fill q < length (buffer q)"
  shows "free_slot (tx_slot q (efx_tx_queue_get_insert_index q))"
  using ring_ok_free [OF assms(1), of "fill q"] assms(2) by (simp add: insert_index_pos tx_slot_def)

lemma insert_slot_in_use:
  assumes "ring_ok q"
  shows "efx_tx_buffer_in_use (tx_slot q (efx_tx_queue_get_insert_index q)) \<longleftrightarrow> fill q = length (buffer q)"
proof (cases "fill q < length (buffer q)")
  case True
  then show ?thesis
    using insert_slot_free [OF assms True] by (simp add: free_slot_def efx_tx_buffer_in_use_def)
next
  case False
  then have full: "fill q = length (buffer q)"
    using ring_ok_fill [OF assms] by simp
  have "0 < length (buffer q)"
    using ring_ok_shape [OF assms] by (auto simp: ring_shape_def)
  then show ?thesis
    using full ring_ok_live [OF assms, of 0] pos_wrap [OF ring_ok_shape [OF assms], of 0]
    by (simp add: insert_index_pos tx_slot_def live_slot_def)
qed

lemma put_chunk_push:
  "put_chunk a d q = push_buffer ((tx_slot q (efx_tx_queue_get_insert_index q))
     \<lparr>tb_len := ucast d, tb_addr := a, tb_flags := EFX_TX_BUF_CONT\<rparr>) q"
  by (simp add: put_chunk_def push_buffer_def Let_def)

lemma ring_frame_push: "ring_frame q (push_buffer b q)"
  by (simp add: ring_frame_def push_buffer_def set_tx_slot_def)

lemma extends_push:
  assumes "ring_ok q" and "fill q < length (buffer q)" and "live_slot b"
  shows "extends q [b] (push_buffer b q)"
  using assms by (simp add: extends_def ring_ok_push pending_push ring_frame_push)

lemma extends_chunk:
  assumes "ring_ok q" and "fill q < length (buffer q)" and "0 < unat d" and "unat d < 2 ^ 16"
  obtains b where "extends q [b] (put_chunk a d q)" and "plain_chunk b"
    and "desc_bytes b = byte_range a (unat d)" and "tb_addr b = a" and "tb_len b = ucast d"
proof -
  let ?b = "(tx_slot q (efx_tx_queue_get_insert_index q))\<lparr>tb_len := ucast d, tb_addr := a, tb_flags := EFX_TX_BUF_CONT\<rparr>"
  have len: "unat (ucast d :: u16) = unat d"
    using assms(4) by (simp add: unsigned_ucast_eq take_bit_nat_eq_self)
  then have "(ucast d :: u16) \<noteq> 0"
    using assms(3) by auto
  then have "plain_chunk ?b"
    using insert_slot_free [OF assms(1,2)] by (simp add: plain_chunk_def free_slot_def)
  moreover have "extends q [?b] (put_chunk a d q)"
    unfolding put_chunk_push using assms(1,2) plain_chunk_simps(1) [OF calculation] by (rule extends_push)
  ultimately show ?thesis
    using that [of ?b] len by (simp add: desc_bytes_def)
qed

lemma put_chunk_fields [simp]:
  "calls (put_chunk a d q) = calls q" "map_seq (put_chunk a d q) = map_seq q"
  "tx_desc_fetch (put_chunk a d q) = tx_desc_fetch q"
  by (simp_all add: put_chunk_def Let_def set_tx_slot_def)

lemma insert_index_push:
  assumes "ring_ok q" and "fill q < length (buffer q)"
  shows "last_pos (push_buffer b q) = efx_tx_queue_get_insert_index q"
  using assms by (simp add: last_pos_def fill_push ring_ok_shape insert_index_pos)

subsection \<open>Chunks\<close>

definition chunks_mapped ::
    "tx_env \<Rightarrow> efx_tx_queue \<Rightarrow> u64 \<Rightarrow> u64 \<Rightarrow> nat option \<Rightarrow> efx_tx_queue \<Rightarrow> efx_tx_buffer list \<Rightarrow> bool" where
  "chunks_mapped env q a len r q' new \<longleftrightarrow>
     extends q new q' \<and> calls q' = calls q \<and> map_seq q' = map_seq q \<and> (\<forall>b\<in>set new. plain_chunk b) \<and>
     (tx_limit_len env = None \<longrightarrow> length new = (if r = None then 0 else 1)) \<and>
     (case r of
        None \<Rightarrow> tx_desc_fetch q' = Suc (tx_desc_fetch q) \<and> fill q' = length (buffer q')
      | Some i \<Rightarrow> tx_desc_fetch q' = tx_desc_fetch q \<and> new \<noteq> [] \<and> i = last_pos q' \<and>
          concat (map desc_bytes new) = byte_range a (unat len))"

lemma fetch_extends: "ring_ok q \<Longrightarrow> extends q [] (q\<lparr>tx_desc_fetch := n\<rparr>)"
  by (auto simp: extends_def ring_ok_def ring_shape_def fill_def pending_def pos_def [abs_def] ring_frame_def)

lemma chunks_mapped_Cons:
  assumes "extends q [b] (put_chunk a d q)" and "plain_chunk b" and "desc_bytes b = byte_range a n"
    and "chunks_mapped env (put_chunk a d q) a' len' r q' new"
    and "byte_range a (unat len) = byte_range a n @ byte_range a' (unat len')"
    and "tx_limit_len env \<noteq> None"
  shows "chunks_mapped env q a len r q' (b # new)"
proof -
  have "extends q (b # new) q'"
    using extends_trans [OF assms(1), of new q'] assms(4) by (simp add: chunks_mapped_def)
  then show ?thesis
    using assms(2-6) by (cases r) (simp_all add: chunks_mapped_def)
qed

lemma map_chunk_spec:
  assumes "ring_ok q" and "chunk_ok env N" and "0 < unat len" and "unat len \<le> N"
  shows "\<exists>r q' new. efx_tx_map_chunk env a len q = Some (r, q') \<and> chunks_mapped env q a len r q' new"
  using assms
proof (induction "unat len" arbitrary: a len q rule: less_induct)
  case less
  let ?i = "efx_tx_queue_get_insert_index q" and ?d = "chunk_len env a len"
  let ?q = "put_chunk a ?d q" and ?len = "len - ucast ?d"
  show ?case
  proof (cases "fill q < length (buffer q)")
    case False
    then have "efx_tx_buffer_in_use (tx_slot q ?i)"
      using insert_slot_in_use [OF less.prems(1)] ring_ok_fill [OF less.prems(1)] by simp
    then have "efx_tx_map_chunk env a len q = Some (None, q\<lparr>tx_desc_fetch := Suc (tx_desc_fetch q)\<rparr>)"
      by (subst efx_tx_map_chunk.simps) (simp add: Let_def)
    moreover have "fill q = length (buffer q)"
      using False ring_ok_fill [OF less.prems(1)] by simp
    ultimately show ?thesis
      using fetch_extends [OF less.prems(1), of "Suc (tx_desc_fetch q)"]
      by (intro exI [of _ None] exI [of _ "q\<lparr>tx_desc_fetch := Suc (tx_desc_fetch q)\<rparr>"] exI [of _ "[]"])
        (simp add: chunks_mapped_def fill_def)
  next
    case True
    have d: "0 < unat ?d" "unat ?d \<le> unat len" "unat ?d < 2 ^ 16"
      using less.prems(2-4) by (auto simp: chunk_ok_def)
    have ud: "unat (ucast ?d :: u64) = unat ?d"
      by (simp add: unsigned_ucast_eq take_bit_nat_eq_self unsigned_less order_less_trans [OF unsigned_less])
    have ulen: "unat ?len = unat len - unat ?d"
      using d ud by (simp add: unat_sub word_le_nat_alt)
    have not_use: "\<not> efx_tx_buffer_in_use (tx_slot q ?i)"
      using True insert_slot_in_use [OF less.prems(1)] by simp
    obtain b where b: "extends q [b] ?q" "plain_chunk b" "desc_bytes b = byte_range a (unat ?d)"
      using extends_chunk [OF less.prems(1) True d(1) d(3)] by metis
    have last: "last_pos ?q = ?i"
      unfolding put_chunk_push using less.prems(1) True by (rule insert_index_push)
    show ?thesis
    proof (cases "?len = 0")
      case True
      then have eq: "efx_tx_map_chunk env a len q = Some (Some ?i, ?q)"
        using not_use by (subst efx_tx_map_chunk.simps) (simp add: Let_def)
      have "unat ?d = unat len"
        using True ulen d(2) by simp
      then have "chunks_mapped env q a len (Some ?i) ?q [b]"
        using b last by (simp add: chunks_mapped_def)
      then show ?thesis
        using eq by blast
    next
      case False
      then have eq: "efx_tx_map_chunk env a len q = efx_tx_map_chunk env (a + ucast ?d) ?len ?q"
        using not_use by (subst efx_tx_map_chunk.simps) (simp add: Let_def)
      have "0 < unat ?len"
        using False by (simp add: unat_gt_0)
      moreover have "unat ?len < unat len" "unat ?len \<le> N"
        using ulen d less.prems(4) by simp_all
      moreover have "ring_ok ?q"
        using b(1) by (simp add: extends_def)
      ultimately obtain r q' new where IH: "efx_tx_map_chunk env (a + ucast ?d) ?len ?q = Some (r, q')"
          "chunks_mapped env ?q (a + ucast ?d) ?len r q' new"
        using less.hyps less.prems(2) by blast
      have "byte_range a (unat len) = byte_range a (unat ?d) @ byte_range (a + ucast ?d) (unat ?len)"
        using byte_range_add [of a "unat ?d" "unat ?len"] ulen d(2) by simp
      moreover have "tx_limit_len env \<noteq> None"
      proof
        assume "tx_limit_len env = None"
        then have "unat ?d = unat len"
          using less.prems(2,4) by (simp add: chunk_len_def chunk_ok_def unsigned_ucast_eq take_bit_nat_eq_self)
        then show False
          using ulen False by (simp add: unat_eq_0)
      qed
      ultimately have "chunks_mapped env q a len r q' (b # new)"
        by (rule chunks_mapped_Cons [OF b IH(2)])
      then show ?thesis
        using IH(1) eq by auto
    qed
  qed
qed

subsection \<open>The length limits make progress\<close>

lemma page_mask: "EFX_PAGE_SIZE - 1 = mask 12"
  by (simp add: EFX_PAGE_SIZE_def mask_eq_exp_minus_1)

lemma unat_and_page: "unat (x AND mask 12 :: u64) < 4096"
  by (simp add: unat_and_mask)

lemma ef10_limit_eq:
  "efx_ef10_tx_limit_len a len =
     (if 0x3fff < len then ucast (0x3fff - ((a + 0x3fff) AND mask 12) :: u64) else len)"
  by (simp add: efx_ef10_tx_limit_len_def page_mask and_not_mask_word algebra_simps)

lemma ef10_limit_bounds:
  assumes "0 < len"
  shows "0 < efx_ef10_tx_limit_len a len \<and> efx_ef10_tx_limit_len a len \<le> len \<and> efx_ef10_tx_limit_len a len \<le> 0x3fff"
proof (cases "0x3fff < len")
  case True
  let ?m = "(a + 0x3fff) AND mask 12 :: u64"
  have "?m \<le> 0x3fff"
    using unat_and_page [of "a + 0x3fff"] by (simp add: word_le_nat_alt)
  then have "unat (0x3fff - ?m) = 0x3fff - unat ?m"
    by (simp add: unat_sub)
  then have "unat (efx_ef10_tx_limit_len a len) = 0x3fff - unat ?m"
    using True by (simp add: ef10_limit_eq unsigned_ucast_eq take_bit_nat_eq_self)
  then show ?thesis
    using True unat_and_page [of "a + 0x3fff"] by (auto simp: word_less_nat_alt word_le_nat_alt)
next
  case False
  then have "efx_ef10_tx_limit_len a len = len"
    by (simp only: ef10_limit_eq if_False)
  then show ?thesis
    using assms False by (simp add: not_less)
qed

lemma farch_limit_bounds:
  assumes "0 < len"
  shows "0 < efx_farch_tx_limit_len a len \<and> efx_farch_tx_limit_len a len \<le> len \<and> efx_farch_tx_limit_len a len \<le> 4096"
proof -
  let ?l = "(NOT a AND mask 12) + 1 :: u64"
  have "unat ?l = unat (NOT a AND mask 12 :: u64) + 1"
    using unat_and_page [of "NOT a"] by (simp add: unat_word_ariths)
  then have "0 < unat ?l" "unat ?l \<le> 4096"
    using unat_and_page [of "NOT a"] by simp_all
  then have "0 < (ucast ?l :: u32)" "(ucast ?l :: u32) \<le> 4096"
    by (simp_all add: word_less_nat_alt word_le_nat_alt unsigned_ucast_eq take_bit_nat_eq_self)
  then show ?thesis
    using assms by (auto simp: efx_farch_tx_limit_len_def page_mask Let_def min_def)
qed

lemma chunk_ok_ef100:
  assumes "tx_limit_len env = None"
  shows "chunk_ok env (2 ^ 16 - 1)"
  using assms by (simp add: chunk_ok_def chunk_len_def unsigned_ucast_eq take_bit_nat_eq_self)

text \<open>
  What the transmit path relies on in a NIC's length limit: it makes progress, does not exceed the
  length asked for, and fits the length field of a descriptor.
\<close>

locale length_limit =
  fixes limit :: "u64 \<Rightarrow> u32 \<Rightarrow> u32"
  assumes progress: "0 < len \<Longrightarrow> 0 < limit a len"
    and at_most: "0 < len \<Longrightarrow> limit a len \<le> len"
    and fits: "0 < len \<Longrightarrow> limit a len \<le> 0x3fff"
begin

lemma chunk_progress:
  assumes "tx_limit_len env = Some limit" and "0 < unat len" and "unat len \<le> 2 ^ 32 - 1"
  shows "0 < unat (chunk_len env a len)" and "unat (chunk_len env a len) \<le> unat len"
    and "unat (chunk_len env a len) < 2 ^ 16"
proof -
  have u: "unat (ucast len :: u32) = unat len"
    using assms(3) by (simp add: unsigned_ucast_eq take_bit_nat_eq_self)
  then have pos: "0 < (ucast len :: u32)"
    using assms(2) by (simp add: word_less_nat_alt)
  show "0 < unat (chunk_len env a len)" "unat (chunk_len env a len) \<le> unat len"
    "unat (chunk_len env a len) < 2 ^ 16"
    using progress [OF pos, of a] at_most [OF pos, of a] fits [OF pos, of a] u assms(1)
    by (simp_all add: chunk_len_def word_less_nat_alt word_le_nat_alt)
qed

lemma chunk_ok_limit: "tx_limit_len env = Some limit \<Longrightarrow> chunk_ok env (2 ^ 32 - 1)"
  unfolding chunk_ok_def using chunk_progress by auto

end

interpretation ef10_limit: length_limit efx_ef10_tx_limit_len
  by unfold_locales (simp_all add: ef10_limit_bounds)

lemma farch_limit_fits: "0 < len \<Longrightarrow> efx_farch_tx_limit_len a len \<le> 0x3fff"
  using farch_limit_bounds [of len a] by (auto elim: order.trans)

interpretation farch_limit: length_limit efx_farch_tx_limit_len
  by unfold_locales (simp_all add: farch_limit_bounds farch_limit_fits)

lemmas chunk_ok_ef10 = ef10_limit.chunk_ok_limit
lemmas chunk_ok_farch = farch_limit.chunk_ok_limit

text \<open>Without a limit a mapping takes one descriptor.\<close>

lemma map_chunk_single:
  assumes "tx_limit_len env = None" and "ring_ok q" and "fill q < length (buffer q)" and "0 < unat len" and "unat len < 2 ^ 16"
  obtains b where "efx_tx_map_chunk env a len q = Some (Some (efx_tx_queue_get_insert_index q), put_chunk a (ucast len) q)"
    and "extends q [b] (put_chunk a (ucast len) q)" and "plain_chunk b" and "tb_addr b = a" and "tb_len b = ucast len"
    and "last_pos (put_chunk a (ucast len) q) = efx_tx_queue_get_insert_index q"
proof -
  have u: "unat (ucast len :: u32) = unat len"
    using assms(5) by (simp add: unsigned_ucast_eq take_bit_nat_eq_self)
  then have l: "ucast (ucast len :: u32) = len"
    by (metis of_nat_unat ucast_id)
  have "\<not> efx_tx_buffer_in_use (tx_slot q (efx_tx_queue_get_insert_index q))"
    using insert_slot_in_use [OF assms(2)] assms(3) by simp
  then have eq: "efx_tx_map_chunk env a len q = Some (Some (efx_tx_queue_get_insert_index q), put_chunk a (ucast len) q)"
    using l assms(1) by (subst efx_tx_map_chunk.simps) (simp add: chunk_len_def Let_def)
  have last: "last_pos (put_chunk a (ucast len) q) = efx_tx_queue_get_insert_index q"
    unfolding put_chunk_push using assms(2,3) by (rule insert_index_push)
  obtain b where b: "extends q [b] (put_chunk a (ucast len) q)" "plain_chunk b" "tb_addr b = a"
      "tb_len b = ucast (ucast len :: u32)"
    using extends_chunk [OF assms(2,3), of "ucast len" a] assms(4,5) u by metis
  have "tb_len b = ucast len"
    unfolding b(4) by (rule bit_word_eqI) (auto simp: bit_simps)
  then show ?thesis
    using that [OF eq b(1-3) _ last] by blast
qed

subsection \<open>Fragments\<close>

definition finished :: "efx_tx_buffer \<Rightarrow> u16 \<Rightarrow> u64 \<Rightarrow> u64 \<Rightarrow> efx_tx_buffer" where
  "finished b dma_flags unmap_len unmap_addr =
     b\<lparr>tb_flags := EFX_TX_BUF_CONT OR dma_flags, tb_unmap_len := ucast unmap_len,
       tb_dma_offset := ucast (tb_addr b - unmap_addr)\<rparr>"

definition with_skb :: "efx_tx_buffer \<Rightarrow> sk_buff \<Rightarrow> u16 \<Rightarrow> efx_tx_buffer" where
  "with_skb b skb dma_flags = b\<lparr>tb_obj := Skb skb, tb_flags := EFX_TX_BUF_SKB OR dma_flags\<rparr>"

definition map_flags_ok :: "u16 \<Rightarrow> bool" where
  "map_flags_ok fl \<longleftrightarrow> fl = 0 \<or> fl = EFX_TX_BUF_MAP_SINGLE"

definition kind_of :: "u16 \<Rightarrow> dma_kind" where
  "kind_of fl = (if fl = EFX_TX_BUF_MAP_SINGLE then Map_single else Map_page)"

lemma extends_set_last:
  assumes "extends q new q'" and "new \<noteq> []" and "live_slot b"
  shows "extends q (butlast new @ [b]) (set_tx_slot (last_pos q') b q')"
    and "tx_slot q' (last_pos q') = last new"
proof -
  have q': "ring_ok q'" "pending q' = (pending q @ butlast new) @ [last new]"
    using assms(1,2) by (simp_all add: extends_def)
  have "ring_frame q' (set_tx_slot (last_pos q') b q')"
    by (simp add: ring_frame_def set_tx_slot_def)
  then show "extends q (butlast new @ [b]) (set_tx_slot (last_pos q') b q')"
    using set_last [OF q' assms(3)] assms(1) ring_frame_trans by (auto simp: extends_def)
  show "tx_slot q' (last_pos q') = last new"
    using set_last(3) [OF q' assms(3)] .
qed

lemma fill_word_self: "unat len < 2 ^ 16 \<Longrightarrow> unat (ucast (len :: u64) :: u16) = unat len"
  by (simp add: unsigned_ucast_eq take_bit_nat_eq_self)

lemma ucast_ucast_16: "unat (w :: u64) < 2 ^ 16 \<Longrightarrow> ucast (ucast w :: u16) = w"
  by (metis fill_word_self of_nat_unat ucast_id)

lemma finished_simps:
  assumes "tb_len b \<noteq> 0" and "map_flags_ok fl" and "unat unmap_len < 2 ^ 16" and "unmap_len \<noteq> 0"
    and "unat (tb_addr b - unmap_addr) < 2 ^ 16"
  shows "live_slot (finished b fl unmap_len unmap_addr)"
    and "owned (finished b fl unmap_len unmap_addr) = {#(kind_of fl, unmap_addr, unat unmap_len)#}"
    and "skb_of (finished b fl unmap_len unmap_addr) = {#}"
    and "live_slot (with_skb (finished b fl unmap_len unmap_addr) skb fl)"
    and "owned (with_skb (finished b fl unmap_len unmap_addr) skb fl) = {#(kind_of fl, unmap_addr, unat unmap_len)#}"
    and "skb_of (with_skb (finished b fl unmap_len unmap_addr) skb fl) = {#skb_id skb#}"
proof -
  have len: "(ucast unmap_len :: u16) \<noteq> 0"
    using fill_word_self [OF assms(3)] assms(4) by (metis unat_eq_0)
  have addr: "tb_addr b - ucast (ucast (tb_addr b - unmap_addr) :: u16) = unmap_addr"
    using ucast_ucast_16 [OF assms(5)] by simp
  show "live_slot (finished b fl unmap_len unmap_addr)"
    "owned (finished b fl unmap_len unmap_addr) = {#(kind_of fl, unmap_addr, unat unmap_len)#}"
    "skb_of (finished b fl unmap_len unmap_addr) = {#}"
    "live_slot (with_skb (finished b fl unmap_len unmap_addr) skb fl)"
    "owned (with_skb (finished b fl unmap_len unmap_addr) skb fl) = {#(kind_of fl, unmap_addr, unat unmap_len)#}"
    "skb_of (with_skb (finished b fl unmap_len unmap_addr) skb fl) = {#skb_id skb#}"
    using assms(1,2) len addr fill_word_self [OF assms(3)]
    by (auto simp: finished_def with_skb_def live_slot_def efx_tx_buffer_in_use_def obj_ok_def owned_def
        skb_of_def tb_kind_def tb_unmap_addr_def kind_of_def map_flags_ok_def)
qed

lemma desc_bytes_finished [simp]:
  "desc_bytes (finished b fl ul ua) = desc_bytes b" "desc_bytes (with_skb b skb fl) = desc_bytes b"
  by (simp_all add: desc_bytes_def finished_def with_skb_def)

text \<open>The last buffer of a chunk starts inside it.\<close>

lemma last_chunk_addr:
  assumes "concat (map desc_bytes new) = byte_range a n" and "new \<noteq> []" and "tb_len (last new) \<noteq> 0"
  obtains k where "k < n" and "tb_addr (last new) = a + of_nat k"
proof -
  have "tb_addr (last new) \<in> set (desc_bytes (last new))"
    using assms(3) by (auto simp: desc_bytes_def byte_range_def unat_gt_0 intro!: image_eqI [of _ _ 0])
  then have "tb_addr (last new) \<in> set (concat (map desc_bytes new))"
    using assms(2) by auto
  then show ?thesis
    using that by (auto simp: assms(1) byte_range_def)
qed

lemma finish_step:
  assumes "chunks_mapped env q a len (Some i) q' new" and "ring_ok q" and "map_flags_ok fl"
    and "unat unmap_len < 2 ^ 16" and "unat len \<le> unat unmap_len" and "a = unmap_addr + (unmap_len - len)"
    and "acct q (add_mset (kind_of fl, unmap_addr, unat unmap_len) X) Y" and "len \<noteq> 0"
  defines "b \<equiv> finished (last new) fl unmap_len unmap_addr"
  shows "extends q (butlast new @ [b]) (finish_chunk i fl unmap_len unmap_addr q')"
    and "acct (finish_chunk i fl unmap_len unmap_addr q') X Y"
    and "concat (map desc_bytes (butlast new @ [b])) = byte_range a (unat len)"
    and "extends q (butlast new @ [with_skb b skb fl]) (attach_skb i skb fl (finish_chunk i fl unmap_len unmap_addr q'))"
    and "acct (attach_skb i skb fl (finish_chunk i fl unmap_len unmap_addr q')) X (add_skb skb Y)"
    and "concat (map desc_bytes (butlast new @ [with_skb b skb fl])) = byte_range a (unat len)"
    and "map_seq (finish_chunk i fl unmap_len unmap_addr q') = map_seq q"
    and "tx_desc_fetch (finish_chunk i fl unmap_len unmap_addr q') = tx_desc_fetch q"
    and "tx_desc_fetch (attach_skb i skb fl (finish_chunk i fl unmap_len unmap_addr q')) = tx_desc_fetch q"
proof -
  have cm: "extends q new q'" "calls q' = calls q" "map_seq q' = map_seq q" "\<forall>b\<in>set new. plain_chunk b"
    "tx_desc_fetch q' = tx_desc_fetch q" "new \<noteq> []" "i = last_pos q'" "concat (map desc_bytes new) = byte_range a (unat len)"
    using assms(1) by (simp_all add: chunks_mapped_def)
  have new: "butlast new @ [last new] = new"
    using cm(6) by simp
  have lastlen: "tb_len (last new) \<noteq> 0"
    using cm(4,6) by (simp add: plain_chunk_def)
  obtain k where k: "k < unat len" "tb_addr (last new) = a + of_nat k"
    using last_chunk_addr [OF cm(8,6) lastlen] .
  have "tb_addr (last new) - unmap_addr = of_nat (unat unmap_len - unat len + k)"
    using k(2) assms(5,6) by (simp add: of_nat_diff)
  moreover have less: "unat unmap_len - unat len + k < unat unmap_len"
    using k(1) assms(5) by simp
  ultimately have "unat (tb_addr (last new) - unmap_addr) < 2 ^ 16"
    using assms(4) by (simp add: unat_of_nat take_bit_nat_eq_self del: of_nat_add of_nat_diff)
  moreover have "unmap_len \<noteq> 0"
    using less by auto
  ultimately have b: "live_slot b" "owned b = {#(kind_of fl, unmap_addr, unat unmap_len)#}" "skb_of b = {#}"
      "live_slot (with_skb b skb fl)" "owned (with_skb b skb fl) = {#(kind_of fl, unmap_addr, unat unmap_len)#}"
      "skb_of (with_skb b skb fl) = {#skb_id skb#}"
    unfolding b_def using lastlen assms(3,4) by (simp_all add: finished_simps)
  have fin: "finish_chunk i fl unmap_len unmap_addr q' = set_tx_slot (last_pos q') b q'"
    using extends_set_last(2) [OF cm(1,6) b(1)] by (simp add: finish_chunk_def cm(7) b_def finished_def)
  show e1: "extends q (butlast new @ [b]) (finish_chunk i fl unmap_len unmap_addr q')"
    unfolding fin by (rule extends_set_last(1) [OF cm(1,6) b(1)])
  have lp: "last_pos (set_tx_slot (last_pos q') b q') = last_pos q'"
    by (simp add: last_pos_def)
  have att: "attach_skb i skb fl (finish_chunk i fl unmap_len unmap_addr q') =
      set_tx_slot (last_pos (set_tx_slot (last_pos q') b q')) (with_skb b skb fl) (set_tx_slot (last_pos q') b q')"
    unfolding attach_skb_def fin
    using extends_set_last(2) [OF e1 [unfolded fin] _ b(4)] by (simp add: cm(7) with_skb_def lp)
  show e2: "extends q (butlast new @ [with_skb b skb fl]) (attach_skb i skb fl (finish_chunk i fl unmap_len unmap_addr q'))"
    unfolding att using extends_set_last(1) [OF e1 [unfolded fin] _ b(4)] by simp
  have held: "maps_held (butlast new) = {#}" "skbs_held (butlast new) = {#}"
    using plain_held [of "butlast new"] cm(4) by (auto dest: in_set_butlastD)
  show "acct (finish_chunk i fl unmap_len unmap_addr q') X Y"
    using assms(7) e1 b held by (simp add: acct_def extends_def fin cm(2))
  show "acct (attach_skb i skb fl (finish_chunk i fl unmap_len unmap_addr q')) X (add_skb skb Y)"
    using assms(7) e2 b held by (simp add: acct_def add_skb_def extends_def att cm(2))
  have bytes: "concat (map desc_bytes (butlast new)) @ desc_bytes (last new) = byte_range a (unat len)"
    using cm(8) new by (metis concat_append concat.simps list.simps(8,9) map_append append_Nil2)
  then show "concat (map desc_bytes (butlast new @ [b])) = byte_range a (unat len)"
    "concat (map desc_bytes (butlast new @ [with_skb b skb fl])) = byte_range a (unat len)"
    by (simp_all add: b_def)
  show "map_seq (finish_chunk i fl unmap_len unmap_addr q') = map_seq q"
    "tx_desc_fetch (finish_chunk i fl unmap_len unmap_addr q') = tx_desc_fetch q"
    "tx_desc_fetch (attach_skb i skb fl (finish_chunk i fl unmap_len unmap_addr q')) = tx_desc_fetch q"
    using cm(3,5) by (simp_all add: finish_chunk_def attach_skb_def set_tx_slot_def)
qed


text \<open>The bytes of the fragments, when the mapping requests from number \<open>n\<close> on succeed.\<close>

fun frag_bytes :: "tx_env \<Rightarrow> nat \<Rightarrow> u32 list \<Rightarrow> u64 list" where
  "frag_bytes env n [] = []"
| "frag_bytes env n (f # fs) = byte_range (the (dma_map env n)) (unat f) @ frag_bytes env (Suc n) fs"

text \<open>How the mapping of a packet may end, from a state whose balance owes the mapping \<open>m\<close>.\<close>

definition map_outcome :: "tx_env \<Rightarrow> nat \<Rightarrow> efx_tx_queue \<Rightarrow> sk_buff \<Rightarrow> mapping_id multiset \<Rightarrow> skb_account \<Rightarrow>
    u64 list \<Rightarrow> int \<Rightarrow> efx_tx_queue \<Rightarrow> efx_tx_buffer list \<Rightarrow> bool" where
  "map_outcome env K q skb X Y bytes rc q' new \<longleftrightarrow> extends q new q' \<and>
     (tx_limit_len env = None \<longrightarrow> length new \<le> K \<and> (rc = - EBUSY \<longrightarrow> length new < K)) \<and>
     (rc = 0 \<and> acct q' X (add_skb skb Y) \<and> tx_desc_fetch q' = tx_desc_fetch q \<and>
        concat (map desc_bytes new) = bytes \<or>
      (rc = - EIO \<or> rc = - EINVAL) \<and> acct q' X Y \<and> tx_desc_fetch q' = tx_desc_fetch q \<or>
      rc = - EBUSY \<and> (\<exists>m. acct q' (add_mset m X) Y) \<and> tx_desc_fetch q' = Suc (tx_desc_fetch q) \<and>
        fill q' = length (buffer q'))"

lemma map_outcome_extends:
  assumes "map_outcome env K q1 skb X Y bytes rc q' new" and "extends q pre q1"
    and "tx_desc_fetch q1 = tx_desc_fetch q" and "tx_limit_len env = None \<longrightarrow> length pre \<le> M"
  shows "map_outcome env (M + K) q skb X Y (concat (map desc_bytes pre) @ bytes) rc q' (pre @ new)"
  using assms extends_trans [OF assms(2), of new q'] by (auto simp: map_outcome_def)

lemma dma_map_call_cases:
  obtains "dma_map env (map_seq q) = None" "dma_map_call env k n q = (None, q\<lparr>map_seq := Suc (map_seq q)\<rparr>)"
  | a where "dma_map env (map_seq q) = Some a"
      "dma_map_call env k n q = (Some a, q\<lparr>map_seq := Suc (map_seq q), calls := Dma_map k a n # calls q\<rparr>)"
  by (cases "dma_map env (map_seq q)") (simp_all add: dma_map_call_def kernel_call_def Let_def)

lemma extends_calls: "ring_ok q \<Longrightarrow> extends q [] (q\<lparr>map_seq := n, calls := cs\<rparr>)"
  "ring_ok q \<Longrightarrow> extends q [] (q\<lparr>map_seq := n\<rparr>)" "ring_ok q \<Longrightarrow> extends q [] (q\<lparr>calls := cs\<rparr>)"
  by (auto simp: extends_def ring_ok_def ring_shape_def fill_def pending_def pos_def [abs_def] ring_frame_def)

lemma pending_calls [simp]:
  "pending (q\<lparr>map_seq := n\<rparr>) = pending q" "pending (q\<lparr>calls := cs\<rparr>) = pending q"
  by (simp_all add: pending_def fill_def pos_def [abs_def])

lemma acct_map_seq [simp]: "acct (q\<lparr>map_seq := n\<rparr>) X Y = acct q X Y"
  by (simp add: acct_def)

lemma acct_dma_map:
  "acct q X Y \<Longrightarrow> acct (q\<lparr>map_seq := n, calls := Dma_map k a l # calls q\<rparr>) (add_mset (k, a, l) X) Y"
  by (simp add: acct_def)

definition frag_ok :: "nat \<Rightarrow> u32 \<Rightarrow> bool" where
  "frag_ok N f \<longleftrightarrow> f \<noteq> 0 \<and> unat f < 2 ^ 16 \<and> unat f \<le> N"

lemma ucast_frag: "unat (ucast (f :: u32) :: u64) = unat f"
  by (simp add: unsigned_ucast_eq take_bit_nat_eq_self unsigned_less order_less_trans [OF unsigned_less])

lemma map_fragments_spec:
  assumes "ring_ok q" and "chunk_ok env N" and "len \<noteq> 0" and "unat len \<le> N" and "list_all (frag_ok N) fs"
    and "map_flags_ok fl" and "unat unmap_len < 2 ^ 16" and "unat len \<le> unat unmap_len"
    and "a = unmap_addr + (unmap_len - len)"
    and "acct q (add_mset (kind_of fl, unmap_addr, unat unmap_len) X) Y"
  shows "\<exists>rc q' new. map_fragments env skb fs a len fl unmap_len unmap_addr q = Some (rc, q') \<and>
    map_outcome env (Suc (length fs)) q skb X Y (byte_range a (unat len) @ frag_bytes env (map_seq q) fs) rc q' new"
  using assms
proof (induction fs arbitrary: q a len fl unmap_len unmap_addr)
  case Nil
  have "0 < unat len"
    using Nil.prems by (simp add: unat_gt_0)
  then obtain r q1 new where r: "efx_tx_map_chunk env a len q = Some (r, q1)" "chunks_mapped env q a len r q1 new"
    using map_chunk_spec Nil.prems by blast
  show ?case
  proof (cases r)
    case None
    have "map_outcome env (Suc (length [])) q skb X Y (byte_range a (unat len) @ frag_bytes env (map_seq q) []) (- EBUSY) q1 new"
      using r(2) None Nil.prems(10) plain_held [of new]
      by (auto simp: chunks_mapped_def map_outcome_def acct_def extends_def errno_defs)
    then show ?thesis
      using r(1) None by (subst map_fragments.simps) (simp, blast)
  next
    case (Some i)
    have one: "tx_limit_len env = None \<longrightarrow> length new = 1"
      using r(2) Some by (simp add: chunks_mapped_def)
    note st = finish_step [OF r(2) [unfolded Some] Nil.prems(1,6,7,8,9,10,3)]
    have "map_outcome env (Suc (length [])) q skb X Y (byte_range a (unat len) @ frag_bytes env (map_seq q) []) 0
        (attach_skb i skb fl (finish_chunk i fl unmap_len unmap_addr q1))
        (butlast new @ [with_skb (finished (last new) fl unmap_len unmap_addr) skb fl])"
      using st(4,5,6,9) one by (simp add: map_outcome_def errno_defs)
    then show ?thesis
      using r(1) Some by (subst map_fragments.simps) (simp add: Let_def, blast)
  qed
next
  case (Cons f fs)
  have "0 < unat len"
    using Cons.prems by (simp add: unat_gt_0)
  then obtain r q1 new where r: "efx_tx_map_chunk env a len q = Some (r, q1)" "chunks_mapped env q a len r q1 new"
    using map_chunk_spec Cons.prems by blast
  show ?case
  proof (cases r)
    case None
    have "map_outcome env (Suc (length (f # fs))) q skb X Y (byte_range a (unat len) @ frag_bytes env (map_seq q) (f # fs)) (- EBUSY) q1 new"
      using r(2) None Cons.prems(10) plain_held [of new]
      by (auto simp: chunks_mapped_def map_outcome_def acct_def extends_def errno_defs)
    then show ?thesis
      using r(1) None by (subst map_fragments.simps) (simp, blast)
  next
    case (Some i)
    let ?q2 = "finish_chunk i fl unmap_len unmap_addr q1"
      and ?new = "butlast new @ [finished (last new) fl unmap_len unmap_addr]"
    have one: "tx_limit_len env = None \<longrightarrow> length new = 1"
      using r(2) Some by (simp add: chunks_mapped_def)
    note st = finish_step [OF r(2) [unfolded Some] Cons.prems(1,6,7,8,9,10,3)]
    have ok2: "ring_ok ?q2"
      using st(1) by (simp add: extends_def)
    have unf: "map_fragments env skb (f # fs) a len fl unmap_len unmap_addr q =
        (case dma_map_call env Map_page (unat f) ?q2 of (None, q3) \<Rightarrow> Some (- EIO, q3)
         | (Some a', q3) \<Rightarrow> map_fragments env skb fs a' (ucast f) 0 (ucast f) a' q3)"
      using r(1) Some by (subst map_fragments.simps) (simp add: Let_def)
    show ?thesis
    proof (cases rule: dma_map_call_cases [of env ?q2 Map_page "unat f"])
      case 1
      have "map_outcome env (Suc (length (f # fs))) q skb X Y (byte_range a (unat len) @ frag_bytes env (map_seq q) (f # fs)) (- EIO)
          (?q2\<lparr>map_seq := Suc (map_seq ?q2)\<rparr>) ?new"
        using extends_trans [OF st(1) extends_calls(2) [OF ok2], of "Suc (map_seq ?q2)"] st(2,8) one
        by (simp add: map_outcome_def errno_defs)
      then show ?thesis
        using unf 1(2) by auto
    next
      case (2 a')
      let ?q3 = "?q2\<lparr>map_seq := Suc (map_seq ?q2), calls := Dma_map Map_page a' (unat f) # calls ?q2\<rparr>"
      have f: "frag_ok N f" "list_all (frag_ok N) fs"
        using Cons.prems(5) by simp_all
      have e3: "extends q ?new ?q3"
        using extends_trans [OF st(1) extends_calls(1) [OF ok2]] by simp
      have "\<exists>rc q' new'. map_fragments env skb fs a' (ucast f) 0 (ucast f) a' ?q3 = Some (rc, q') \<and>
          map_outcome env (Suc (length fs)) ?q3 skb X Y (byte_range a' (unat (ucast f :: u64)) @ frag_bytes env (map_seq ?q3) fs) rc q' new'"
      proof (rule Cons.IH)
        show "ring_ok ?q3"
          using e3 by (simp add: extends_def)
        show "acct ?q3 (add_mset (kind_of 0, a', unat (ucast f :: u64)) X) Y"
          using acct_dma_map [OF st(2)] by (simp add: kind_of_def ucast_frag)
        have "unat (ucast f :: u64) \<noteq> 0"
          using f(1) by (simp add: frag_ok_def ucast_frag unat_eq_0)
        then show "ucast f \<noteq> (0 :: u64)"
          by auto
      qed (use Cons.prems(2) f(1) [unfolded frag_ok_def] f(2) in \<open>simp_all add: map_flags_ok_def ucast_frag\<close>)
      then obtain rc q' new' where o: "map_fragments env skb fs a' (ucast f) 0 (ucast f) a' ?q3 = Some (rc, q')"
          "map_outcome env (Suc (length fs)) ?q3 skb X Y (byte_range a' (unat f) @ frag_bytes env (Suc (map_seq q)) fs) rc q' new'"
        using st(7) by (auto simp: ucast_frag)
      have "dma_map env (map_seq q) = Some a'"
        using 2(1) st(7) by simp
      then have "map_outcome env (Suc (length (f # fs))) q skb X Y (byte_range a (unat len) @ frag_bytes env (map_seq q) (f # fs)) rc q' (?new @ new')"
        using map_outcome_extends [OF o(2) e3, unfolded st(3), of 1] st(8) one by simp
      then show ?thesis
        using unf 2(2) o(1) by auto
    qed
  qed
qed


subsection \<open>The whole packet\<close>

text \<open>
  What the kernel guarantees of a packet: a non-empty linear part of fewer than 64 KB that, for a
  packet to be segmented, holds the headers, and non-empty fragments of fewer than 64 KB.
\<close>

definition skb_ok :: "nat \<Rightarrow> sk_buff \<Rightarrow> bool" where
  "skb_ok N skb \<longleftrightarrow> frag_ok N (skb_headlen skb) \<and> list_all (frag_ok N) (frags skb)"

definition tso_header_ok :: "tx_env \<Rightarrow> sk_buff \<Rightarrow> bool" where
  "tso_header_ok env skb \<longleftrightarrow> efx_tx_tso_header_length env skb \<noteq> 0 \<and>
     efx_tx_tso_header_length env skb \<le> int (unat (skb_headlen skb))"

definition packet_bytes :: "tx_env \<Rightarrow> nat \<Rightarrow> sk_buff \<Rightarrow> u64 list" where
  "packet_bytes env n skb =
     byte_range (the (dma_map env n)) (unat (skb_headlen skb)) @ frag_bytes env (Suc n) (frags skb)"

lemma acct_plain:
  assumes "acct q X Y" and "extends q new q'" and "calls q' = calls q" and "\<forall>b\<in>set new. plain_chunk b"
  shows "acct q' X Y"
  using assms plain_held [OF assms(4)] by (simp add: acct_def extends_def)

lemma unat_header:
  assumes "0 < h" and "h \<le> int (unat (l :: u32))"
  shows "unat (word_of_int h :: u64) = nat h" and "nat h \<le> unat (ucast l :: u64)"
proof -
  have "h < 2 ^ 32"
    using assms(2) unsigned_less [of l, where ?'a = int] by simp
  then show "unat (word_of_int h :: u64) = nat h"
    using assms(1) by (simp add: unat_eq_nat_uint uint_word_of_int)
  show "nat h \<le> unat (ucast l :: u64)"
    unfolding ucast_frag using assms(2) by (simp only: nat_le_iff)
qed

theorem map_data_spec:
  assumes "ring_ok q" and "chunk_ok env N" and "skb_ok N skb" and "segs \<noteq> 0 \<longrightarrow> tso_header_ok env skb"
    and "acct q X Y"
  shows "\<exists>rc q' new. efx_tx_map_data env skb segs q = Some (rc, q') \<and>
    map_outcome env (2 + length (frags skb)) q skb X Y (packet_bytes env (map_seq q) skb) rc q' new"
proof (cases rule: dma_map_call_cases [of env q Map_single "unat (ucast (skb_headlen skb) :: u64)"])
  case 1
  have "map_outcome env (2 + length (frags skb)) q skb X Y (packet_bytes env (map_seq q) skb) (- EIO) (q\<lparr>map_seq := Suc (map_seq q)\<rparr>) []"
    using extends_calls(2) [OF assms(1)] assms(5) by (simp add: map_outcome_def errno_defs)
  then show ?thesis
    using 1(2) by (simp add: efx_tx_map_data_def Let_def) blast
next
  case (2 a)
  let ?len = "ucast (skb_headlen skb) :: u64" and ?h = "efx_tx_tso_header_length env skb"
  let ?q1 = "q\<lparr>map_seq := Suc (map_seq q), calls := Dma_map Map_single a (unat ?len) # calls q\<rparr>"
  let ?b = "packet_bytes env (map_seq q) skb"
  have e1: "extends q [] ?q1"
    using assms(1) by (rule extends_calls)
  have ok1: "ring_ok ?q1"
    using e1 by (simp add: extends_def)
  have len: "unat ?len = unat (skb_headlen skb)" "?len \<noteq> 0" "unat ?len < 2 ^ 16" "unat ?len \<le> N"
    and fs: "list_all (frag_ok N) (frags skb)"
  proof -
    show "unat ?len = unat (skb_headlen skb)"
      by (rule ucast_frag)
    then show "?len \<noteq> 0" "unat ?len < 2 ^ 16" "unat ?len \<le> N" "list_all (frag_ok N) (frags skb)"
      using assms(3) by (auto simp: skb_ok_def frag_ok_def unat_eq_0)
  qed
  have ac1: "acct ?q1 (add_mset (kind_of EFX_TX_BUF_MAP_SINGLE, a, unat ?len) X) Y"
    using acct_dma_map [OF assms(5)] by (simp add: kind_of_def)
  have b: "?b = byte_range a (unat ?len) @ frag_bytes env (map_seq ?q1) (frags skb)"
    using 2(1) by (simp add: packet_bytes_def ucast_frag)
  have whole: "\<exists>rc q' new. map_fragments env skb (frags skb) a ?len EFX_TX_BUF_MAP_SINGLE ?len a ?q1 = Some (rc, q') \<and>
      map_outcome env (2 + length (frags skb)) q skb X Y ?b rc q' new"
  proof -
    have "\<exists>rc q' new. map_fragments env skb (frags skb) a ?len EFX_TX_BUF_MAP_SINGLE ?len a ?q1 = Some (rc, q') \<and>
        map_outcome env (Suc (length (frags skb))) ?q1 skb X Y (byte_range a (unat ?len) @ frag_bytes env (map_seq ?q1) (frags skb)) rc q' new"
      by (rule map_fragments_spec [OF ok1 assms(2) len(2,4) fs _ len(3) _ _ ac1]) (simp_all add: map_flags_ok_def)
    then obtain rc q' new where "map_fragments env skb (frags skb) a ?len EFX_TX_BUF_MAP_SINGLE ?len a ?q1 = Some (rc, q')"
        and o: "map_outcome env (Suc (length (frags skb))) ?q1 skb X Y ?b rc q' new"
      unfolding b by blast
    then show ?thesis
      using map_outcome_extends [OF o e1, of 1] by auto
  qed
  consider "segs = 0 \<or> word_of_int ?h = ?len \<and> \<not> ?h < 0" | "segs \<noteq> 0" "?h < 0"
    | "segs \<noteq> 0" "\<not> ?h < 0" "word_of_int ?h \<noteq> ?len"
    by blast
  then show ?thesis
  proof cases
    case 1
    then have "efx_tx_map_data env skb segs q = map_fragments env skb (frags skb) a ?len EFX_TX_BUF_MAP_SINGLE ?len a ?q1"
      using 2(2) by (auto simp: efx_tx_map_data_def Let_def)
    then show ?thesis
      using whole by simp
  next
    case 2: 2
    let ?q2 = "kernel_call (Dma_unmap Map_single a (unat ?len)) ?q1"
    have "map_outcome env (2 + length (frags skb)) q skb X Y ?b (- EINVAL) ?q2 []"
      using assms(5) extends_calls(1) [OF assms(1)]
      by (simp add: map_outcome_def errno_defs acct_def kernel_call_def kind_of_def)
    then show ?thesis
      using 2 \<open>dma_map_call env Map_single (unat ?len) q = _\<close> by (auto simp: efx_tx_map_data_def Let_def)
  next
    case 3
    then have h: "0 < ?h" "?h \<le> int (unat (skb_headlen skb))"
      using assms(4) by (auto simp: tso_header_ok_def)
    let ?hl = "word_of_int ?h :: u64"
    note uh = unat_header [OF h]
    have lt: "unat ?hl < unat ?len"
      using uh 3(3) by (metis le_neq_implies_less word_unat_eq_iff)
    have ulen: "unat (?len - ?hl) = unat ?len - unat ?hl"
      using lt by (simp add: unat_sub word_le_nat_alt)
    have "0 < unat ?hl" "unat ?hl \<le> N"
      using uh h(1) lt len(4) by auto
    then obtain r q2 pre where r: "efx_tx_map_chunk env a ?hl ?q1 = Some (r, q2)" "chunks_mapped env ?q1 a ?hl r q2 pre"
      using map_chunk_spec [OF ok1 assms(2)] by blast
    have unf: "efx_tx_map_data env skb segs q = (case r of None \<Rightarrow> Some (- EBUSY, q2)
        | Some _ \<Rightarrow> map_fragments env skb (frags skb) (a + ?hl) (?len - ?hl) EFX_TX_BUF_MAP_SINGLE ?len a q2)"
      using 2(2) 3 r(1) by (auto simp: efx_tx_map_data_def Let_def split: option.splits)
    have e2: "extends q pre q2" "map_seq q2 = map_seq ?q1" "tx_desc_fetch q2 = (if r = None then Suc (tx_desc_fetch q) else tx_desc_fetch q)"
      using r(2) extends_trans [OF e1, of pre q2] by (auto simp: chunks_mapped_def split: option.splits)
    have ac2: "acct q2 (add_mset (kind_of EFX_TX_BUF_MAP_SINGLE, a, unat ?len) X) Y"
      using r(2) by (auto simp: chunks_mapped_def intro!: acct_plain [OF ac1])
    show ?thesis
    proof (cases r)
      case None
      then have "map_outcome env (2 + length (frags skb)) q skb X Y ?b (- EBUSY) q2 pre"
        using e2 ac2 r(2) by (auto simp: map_outcome_def errno_defs chunks_mapped_def)
      then show ?thesis
        using unf None by auto
    next
      case (Some i)
      have ok2: "ring_ok q2"
        using e2 by (simp add: extends_def)
      have sub: "?len - ?hl \<noteq> 0" "unat (?len - ?hl) \<le> N" "unat (?len - ?hl) \<le> unat ?len"
        using ulen lt len(4) by (auto simp: unat_gt_0 dest: arg_cong [of _ _ unat])
      have "\<exists>rc q' new. map_fragments env skb (frags skb) (a + ?hl) (?len - ?hl) EFX_TX_BUF_MAP_SINGLE ?len a q2 = Some (rc, q') \<and>
          map_outcome env (Suc (length (frags skb))) q2 skb X Y (byte_range (a + ?hl) (unat (?len - ?hl)) @ frag_bytes env (map_seq q2) (frags skb)) rc q' new"
        by (rule map_fragments_spec [OF ok2 assms(2) sub(1,2) fs _ len(3) sub(3) _ ac2]) (simp_all add: map_flags_ok_def)
      then obtain rc q' new where o: "map_fragments env skb (frags skb) (a + ?hl) (?len - ?hl) EFX_TX_BUF_MAP_SINGLE ?len a q2 = Some (rc, q')"
          "map_outcome env (Suc (length (frags skb))) q2 skb X Y (byte_range (a + ?hl) (unat (?len - ?hl)) @ frag_bytes env (map_seq q2) (frags skb)) rc q' new"
        by blast
      have one: "tx_limit_len env = None \<longrightarrow> length pre \<le> 1"
        using r(2) Some by (simp add: chunks_mapped_def)
      have "concat (map desc_bytes pre) = byte_range a (unat ?hl)"
        using r(2) Some by (simp add: chunks_mapped_def)
      moreover have "byte_range a (unat ?len) = byte_range a (unat ?hl) @ byte_range (a + ?hl) (unat (?len - ?hl))"
        using byte_range_add [of a "unat ?hl" "unat (?len - ?hl)"] ulen lt by simp
      ultimately have "map_outcome env (2 + length (frags skb)) q skb X Y ?b rc q' (pre @ new)"
        using map_outcome_extends [OF o(2) e2(1), of 1] one e2(2,3) Some b by simp
      then show ?thesis
        using unf Some o(1) by auto
    qed
  qed
qed

end
