(* ===== verification/Ef100_Tx_Inv.thy ===== *)
theory Ef100_Tx_Inv
  imports Ef100_Tx Tx_Map
begin

section \<open>The EF100 transmit path keeps its rings and its books\<close>

text \<open>
  The invariant of a queue between operations (\<open>queue_ok\<close>): the ring is well formed, every buffer
  inserted has been written to the hardware ring, and the books balance up to mappings lost on a
  full ring, which are at most as many as the counter \<open>tx_desc_fetch\<close> says. The invariant of a
  channel adds that the kernel's queue is stopped whenever the rings are filled above the threshold.
\<close>

subsection \<open>Operations that leave the ring alone\<close>

definition same_ring :: "efx_tx_queue \<Rightarrow> efx_tx_queue \<Rightarrow> bool" where
  "same_ring q q' \<longleftrightarrow> buffer q' = buffer q \<and> read_count q' = read_count q \<and>
     insert_count q' = insert_count q \<and> ptr_mask q' = ptr_mask q"

definition same_books :: "efx_tx_queue \<Rightarrow> efx_tx_queue \<Rightarrow> bool" where
  "same_books q q' \<longleftrightarrow> same_ring q q' \<and> live_maps (calls q') = live_maps (calls q) \<and>
     unmaps_ok (calls q') = unmaps_ok (calls q) \<and> freed (calls q') = freed (calls q) \<and>
     created (calls q') = created (calls q) \<and> tx_desc_fetch q' = tx_desc_fetch q"

lemma same_ring_simps:
  assumes "same_ring q q'"
  shows "pos q' = pos q" and "fill q' = fill q" and "pending q' = pending q" and "ring_ok q' = ring_ok q"
proof -
  show pos: "pos q' = pos q" and fill: "fill q' = fill q"
    using assms by (simp_all add: same_ring_def pos_def [abs_def] fill_def)
  show "pending q' = pending q" "ring_ok q' = ring_ok q"
    using assms pos fill by (simp_all add: same_ring_def pending_def ring_ok_def ring_shape_def)
qed

lemma same_books_trans: "same_books q q' \<Longrightarrow> same_books q' q'' \<Longrightarrow> same_books q q''"
  by (simp add: same_books_def same_ring_def)

lemma same_books_refl [simp]: "same_books q q"
  by (simp add: same_books_def same_ring_def)

lemma same_books_acct: "same_books q q' \<Longrightarrow> acct q' X Y = acct q X Y"
  using same_ring_simps(3) [of q q'] by (simp add: same_books_def acct_def)

lemma same_books_notify: "same_books q (ef100_notify_tx_desc q)"
  by (simp add: ef100_notify_tx_desc_def same_books_def same_ring_def kernel_call_def Let_def)

lemma same_books_push: "same_books q (ef100_tx_push_buffers h q)"
  using same_books_notify [of q]
  by (simp add: ef100_tx_push_buffers_def same_books_def same_ring_def Let_def)

lemma same_books_write_txd: "same_books q (write_txd wc d q)"
  by (simp add: write_txd_def same_books_def same_ring_def)

lemma same_books_desc_loop: "same_books q (snd (desc_loop env skb nr ty wc q))"
proof (induction env skb nr ty wc q rule: desc_loop.induct)
  case (1 env skb nr ty wc q)
  let ?q = "write_txd wc (ef100_desc env skb nr ty (tx_slot q (unat (wc AND ptr_mask q)))) q"
  let ?ty = "if skb \<noteq> None then ESE_GZ_TX_DESC_TYPE_SEG else ESE_GZ_TX_DESC_TYPE_SEND"
  show ?case
  proof (cases "wc + 1 = insert_count q")
    case True
    then show ?thesis
      by (subst desc_loop.simps) (simp add: Let_def same_books_write_txd)
  next
    case False
    then have "desc_loop env skb nr ty wc q = desc_loop env skb nr ?ty (wc + 1) ?q"
      by (subst desc_loop.simps) (simp add: Let_def)
    then show ?thesis
      using same_books_trans [OF same_books_write_txd 1 [OF refl refl False]] by simp
  qed
qed

lemma desc_loop_end: "fst (desc_loop env skb nr ty wc q) = insert_count q"
proof (induction env skb nr ty wc q rule: desc_loop.induct)
  case (1 env skb nr ty wc q)
  then show ?case
    by (subst desc_loop.simps) (simp add: Let_def write_txd_def)
qed

text \<open>\<open>ef100_tx_make_descriptors\<close> without the tuples.\<close>

lemma make_descriptors_eq:
  "ef100_tx_make_descriptors env skb segs efv q =
     (if insert_count q - write_count q = 0 then q
      else let n = insert_count q - write_count q;
               ty = (if segs \<noteq> 0 then ESE_GZ_TX_DESC_TYPE_TSO else ESE_GZ_TX_DESC_TYPE_SEND);
               r = (case efv of
                      None \<Rightarrow> desc_loop env skb (if skb = None then 1 else n) ty (write_count q) q
                    | Some mport \<Rightarrow> desc_loop env skb (if skb = None then 1 else n - 1) ty (write_count q + 1)
                        (write_txd (write_count q) (ef100_make_prefix_desc mport) q)) in
           (snd r)\<lparr>write_count := fst r\<rparr>)"
  by (simp add: ef100_tx_make_descriptors_def Let_def case_prod_beta split: option.splits)

lemma same_books_write_count: "same_books q q' \<Longrightarrow> same_books q (q'\<lparr>write_count := n\<rparr>)"
  by (simp add: same_books_def same_ring_def)

lemma same_books_descriptors: "same_books q (ef100_tx_make_descriptors env skb segs efv q)"
proof (cases efv)
  case None
  then show ?thesis
    by (simp add: make_descriptors_eq Let_def same_books_write_count same_books_desc_loop)
next
  case (Some mport)
  then show ?thesis
    by (simp add: make_descriptors_eq Let_def same_books_write_count
        same_books_trans [OF same_books_write_txd same_books_desc_loop])
qed

lemma descriptors_written: "write_count (ef100_tx_make_descriptors env skb segs efv q) = insert_count q"
  by (simp add: make_descriptors_eq Let_def desc_loop_end write_txd_def split: option.splits)

lemma same_books_count: "same_books q (ef100_count_packet segs skb q)"
  by (simp add: ef100_count_packet_def same_books_def same_ring_def Let_def)

subsection \<open>The queue invariant\<close>

definition queue_ok :: "efx_tx_queue \<Rightarrow> skb_account \<Rightarrow> bool" where
  "queue_ok q Y \<longleftrightarrow> ring_ok q \<and> write_count q = insert_count q \<and>
     (\<exists>L. acct q L Y \<and> size L \<le> tx_desc_fetch q)"

lemma queue_okE:
  assumes "queue_ok q Y"
  obtains L where "ring_ok q" and "write_count q = insert_count q" and "acct q L Y" and "size L \<le> tx_desc_fetch q"
  using assms by (auto simp: queue_ok_def)

lemma queue_ok_same_books:
  assumes "same_books q q'" and "write_count q' = write_count q"
  shows "queue_ok q' Y = queue_ok q Y"
proof -
  have "insert_count q' = insert_count q" "tx_desc_fetch q' = tx_desc_fetch q" "ring_ok q' = ring_ok q"
    using assms(1) by (simp_all add: same_books_def same_ring_def same_ring_simps(4) [of q q'])
  then show ?thesis
    using assms(2) by (simp add: queue_ok_def same_books_acct [OF assms(1)])
qed

lemma write_count_notify [simp]: "write_count (ef100_notify_tx_desc q) = write_count q"
  by (simp add: ef100_notify_tx_desc_def Let_def kernel_call_def)

lemma write_count_push [simp]: "write_count (ef100_tx_push_buffers h q) = write_count q"
  by (simp add: ef100_tx_push_buffers_def Let_def)

lemma queue_ok_push [simp]: "queue_ok (ef100_tx_push_buffers h q) Y = queue_ok q Y"
  by (rule queue_ok_same_books) (simp_all add: same_books_push)

lemma queue_ok_count [simp]: "queue_ok (ef100_count_packet segs skb q) Y = queue_ok q Y"
  by (rule queue_ok_same_books) (simp_all add: same_books_count, simp add: ef100_count_packet_def Let_def)

subsection \<open>Completions\<close>

lemma mask_dec_inc:
  assumes "k \<le> 32"
  shows "(((x :: u32) - 1) AND mask k) + 1 AND mask k = x AND mask k"
proof -
  have "unat ((((x - 1) AND mask k) + 1) AND mask k) = (unat ((x - 1) AND mask k) + 1) mod 2 ^ k"
    using unat_add_nat_mod [OF assms, of "(x - 1) AND mask k" 1] by simp
  also have "\<dots> = (unat (x - 1) + 1) mod 2 ^ k"
    unfolding unat_and_mask by (rule mod_add_left_eq)
  also have "\<dots> = unat (x AND mask k)"
    using unat_add_nat_mod [OF assms, of "x - 1" 1] by simp
  finally show ?thesis
    by (simp only: word_unat_eq_iff)
qed

lemma index_of_done:
  assumes "ring_ok q"
  shows "(((read_count q + n - 1) AND ptr_mask q) + 1) AND ptr_mask q = (read_count q + n) AND ptr_mask q"
  using ring_ok_shape [OF assms] by (elim ring_shapeE) (simp add: mask_dec_inc)

text \<open>\<open>done_count q n\<close>: how many buffers a completion of \<open>n\<close> buffers releases. When the ring is full
  and the hardware completes all of it at once, the index wraps to the one before the oldest buffer
  and nothing is released.\<close>

definition done_count :: "efx_tx_queue \<Rightarrow> nat \<Rightarrow> nat" where
  "done_count q n = (if n = length (buffer q) then 0 else n)"

lemma dequeue_done:
  assumes "ring_ok q" and "n \<le> fill q"
  shows "efx_dequeue_buffers env ((read_count q + of_nat n - 1) AND ptr_mask q) pb q = pop_many (done_count q n) pb q"
proof (cases "n = length (buffer q)")
  case True
  then have "(read_count q + of_nat n) AND ptr_mask q = read_count q AND ptr_mask q"
    using pos_wrap [OF ring_ok_shape [OF assms(1)], of 0] by (simp add: pos_def word_unat_eq_iff)
  then show ?thesis
    using index_of_done [OF assms(1), of "of_nat n"] True
    by (simp add: efx_dequeue_buffers_def dequeue_loop_none done_count_def)
next
  case False
  then have "n < length (buffer q)"
    using assms(2) ring_ok_fill [OF assms(1)] by simp
  then show ?thesis
    using dequeue_loop_pops [OF assms(1,2) _ index_of_done [OF assms(1), of "of_nat n"]] False
    by (simp add: efx_dequeue_buffers_def done_count_def)
qed

lemma same_books_xmit_done:
  "same_books (snd (efx_dequeue_buffers env index (0, 0) q)) (efx_xmit_done env index q)"
  "write_count (efx_xmit_done env index q) = write_count (snd (efx_dequeue_buffers env index (0, 0) q))"
  by (simp_all add: efx_xmit_done_def efx_xmit_done_check_empty_def same_books_def same_ring_def Let_def
      split: prod.splits)

lemma xmit_done_spec:
  assumes "queue_ok q Y" and "n \<le> fill q"
    and q'_def: "q' = efx_xmit_done env ((read_count q + of_nat n - 1) AND ptr_mask q) q"
  shows "queue_ok q' Y" and "pending q' = drop (done_count q n) (pending q)" and "fill q' = fill q - done_count q n"
proof -
  obtain L where L: "ring_ok q" "write_count q = insert_count q" "acct q L Y" "size L \<le> tx_desc_fetch q"
    using assms(1) by (rule queue_okE)
  let ?p = "snd (pop_many (done_count q n) (0, 0) q)"
  have dc: "done_count q n \<le> fill q"
    using assms(2) by (simp add: done_count_def)
  note pm = pop_many_spec [OF L(1) dc, where pb = "(0, 0)"]
  have books: "same_books ?p q'" and wc: "write_count q' = write_count ?p"
    using same_books_xmit_done [of env "(read_count q + of_nat n - 1) AND ptr_mask q" q] dequeue_done [OF L(1) assms(2), of env "(0, 0)"]
    by (simp_all add: q'_def)
  have "acct ?p L Y"
    using L(3) pop_many_spec(7) [OF L(1) dc] by blast
  then have "queue_ok ?p Y"
    using L pop_many_spec(1-6) [OF L(1) dc] by (auto simp: queue_ok_def ring_frame_def)
  then show "queue_ok q' Y"
    using queue_ok_same_books [OF books wc] by simp
  show pend: "pending q' = drop (done_count q n) (pending q)"
    using books pop_many_spec(2) [OF L(1) dc] same_ring_simps(3) [of ?p q'] by (simp add: same_books_def)
  show "fill q' = fill q - done_count q n"
    using arg_cong [OF pend, of length] by simp
qed

subsection \<open>The channel\<close>

definition chan_ok :: "tx_channel \<Rightarrow> (nat \<Rightarrow> skb_account) \<Rightarrow> bool" where
  "chan_ok ch Y \<longleftrightarrow> (\<forall>i<length (tx_queues ch). queue_ok (chan_q ch i) (Y i))"

definition stop_ok :: "ef100_env \<Rightarrow> tx_channel \<Rightarrow> bool" where
  "stop_ok env ch \<longleftrightarrow> core_stopped ch \<or> efx_channel_tx_fill_level ch \<le> txq_stop_thresh env"

definition event_ok :: "tx_channel \<Rightarrow> u64 \<Rightarrow> bool" where
  "event_ok ch e \<longleftrightarrow>
     (let i = unat (EFX_QWORD_FIELD e ESF_GZ_EV_TXCMPL_Q_LABEL) in
      i < length (tx_queues ch) \<and> unat (EFX_QWORD_FIELD e ESF_GZ_EV_TXCMPL_NUM_DESC) \<le> fill (chan_q ch i))"

text \<open>The hardware completes only descriptors it was given, of queues that exist.\<close>

fun events_ok :: "ef100_env \<Rightarrow> u64 list \<Rightarrow> tx_channel \<Rightarrow> bool" where
  "events_ok env [] ch = True"
| "events_ok env (e # es) ch =
     (event_ok ch e \<and> (case ef100_ev_tx env e ch of None \<Rightarrow> False | Some ch' \<Rightarrow> events_ok env es ch'))"

lemma fold_max_le: "fold (\<lambda>q m. max m (f q)) qs (a :: 'a::linorder) \<le> t \<longleftrightarrow> a \<le> t \<and> (\<forall>q\<in>set qs. f q \<le> t)"
  by (induction qs arbitrary: a) auto

lemma fill_level_le:
  "efx_channel_tx_fill_level ch \<le> t \<longleftrightarrow> (\<forall>q\<in>set (tx_queues ch). fill q \<le> unat t)"
  unfolding efx_channel_tx_fill_level_def fold_max_le by (simp add: fill_def word_le_nat_alt)

lemma chan_q_set [simp]:
  "i < length (tx_queues ch) \<Longrightarrow> chan_q (set_chan_q i q ch) j = (if j = i then q else chan_q ch j)"
  "length (tx_queues (set_chan_q i q ch)) = length (tx_queues ch)"
  "core_stopped (set_chan_q i q ch) = core_stopped ch"
  "holdoff_doorbell (set_chan_q i q ch) = holdoff_doorbell ch"
  by (simp_all add: chan_q_def set_chan_q_def nth_list_update)

lemma chan_q_set_same [simp]: "set_chan_q i q' (set_chan_q i q ch) = set_chan_q i q' ch"
  by (simp add: set_chan_q_def)

lemma chan_q_update [simp]: "chan_q (ch\<lparr>core_stopped := b\<rparr>) = chan_q ch"
  by (rule ext) (simp add: chan_q_def)

lemma chan_okD: "chan_ok ch Y \<Longrightarrow> i < length (tx_queues ch) \<Longrightarrow> queue_ok (chan_q ch i) (Y i)"
  by (simp add: chan_ok_def)

lemma chan_ok_stopped [simp]: "chan_ok (ch\<lparr>core_stopped := b\<rparr>) Y = chan_ok ch Y"
  by (simp add: chan_ok_def)

lemma chan_ok_set:
  assumes "\<And>j. j < length (tx_queues ch) \<Longrightarrow> j \<noteq> i \<Longrightarrow> queue_ok (chan_q ch j) (Y j)" and "queue_ok q (Y i)"
    and "i < length (tx_queues ch)"
  shows "chan_ok (set_chan_q i q ch) Y"
  using assms by (simp add: chan_ok_def)

text \<open>\<open>drained ch ch'\<close>: \<open>ch'\<close> is \<open>ch\<close> after completions.\<close>

definition drained :: "tx_channel \<Rightarrow> tx_channel \<Rightarrow> bool" where
  "drained ch ch' \<longleftrightarrow> length (tx_queues ch') = length (tx_queues ch) \<and> core_stopped ch' = core_stopped ch \<and>
     holdoff_doorbell ch' = holdoff_doorbell ch \<and> (\<forall>i<length (tx_queues ch). fill (chan_q ch' i) \<le> fill (chan_q ch i))"

lemma drained_refl [simp]: "drained ch ch"
  by (simp add: drained_def)

lemma drained_trans: "drained ch ch' \<Longrightarrow> drained ch' ch'' \<Longrightarrow> drained ch ch''"
  by (auto simp: drained_def intro: order.trans)

lemma drained_level:
  assumes "drained ch ch'"
  shows "efx_channel_tx_fill_level ch' \<le> efx_channel_tx_fill_level ch"
proof -
  have "\<forall>q\<in>set (tx_queues ch). fill q \<le> unat (efx_channel_tx_fill_level ch)"
    using fill_level_le [of ch "efx_channel_tx_fill_level ch"] by simp
  then have "fill (tx_queues ch' ! i) \<le> unat (efx_channel_tx_fill_level ch)" if "i < length (tx_queues ch')" for i
    using that assms by (auto simp: drained_def chan_q_def intro: order.trans)
  then show ?thesis
    by (auto simp: fill_level_le in_set_conv_nth)
qed

lemma ev_tx_spec:
  assumes "chan_ok ch Y" and "event_ok ch e"
  obtains ch' where "ef100_ev_tx env e ch = Some ch'" and "chan_ok ch' Y" and "drained ch ch'"
proof -
  let ?i = "unat (EFX_QWORD_FIELD e ESF_GZ_EV_TXCMPL_Q_LABEL)"
    and ?n = "unat (EFX_QWORD_FIELD e ESF_GZ_EV_TXCMPL_NUM_DESC)"
  let ?q = "chan_q ch ?i"
  have i: "?i < length (tx_queues ch)" and n: "?n \<le> fill ?q"
    using assms(2) by (simp_all add: event_ok_def Let_def)
  let ?q' = "efx_xmit_done (efx_tx env) ((read_count ?q + of_nat ?n - 1) AND ptr_mask ?q) ?q"
  have "queue_ok ?q' (Y ?i)" "fill ?q' \<le> fill ?q"
    using xmit_done_spec [OF chan_okD [OF assms(1) i] n refl] by simp_all
  then have "chan_ok (set_chan_q ?i ?q' ch) Y" "drained ch (set_chan_q ?i ?q' ch)"
    using assms(1) i by (auto intro!: chan_ok_set simp: chan_ok_def drained_def)
  moreover have "ef100_ev_tx env e ch = Some (set_chan_q ?i ?q' ch)"
    using i by (simp add: ef100_ev_tx_def efx_channel_get_tx_queue_def Let_def)
  ultimately show ?thesis
    using that by blast
qed

lemma ev_txs_spec:
  assumes "chan_ok ch Y" and "events_ok env es ch"
  obtains ch' where "ef100_ev_txs env es ch = Some ch'" and "chan_ok ch' Y" and "drained ch ch'"
  using assms
proof (induction es arbitrary: ch thesis)
  case Nil
  then show ?case by simp
next
  case (Cons e es)
  obtain ch1 where 1: "ef100_ev_tx env e ch = Some ch1" "chan_ok ch1 Y" "drained ch ch1"
    using ev_tx_spec [of ch Y e env] Cons.prems by auto
  obtain ch2 where "ef100_ev_txs env es ch1 = Some ch2" "chan_ok ch2 Y" "drained ch1 ch2"
    using Cons.IH [of ch1] 1 Cons.prems by auto
  then show ?case
    using Cons.prems(1) [of ch2] 1 drained_trans [OF 1(3)] by simp
qed

subsection \<open>Inserting the extra buffers\<close>

lemma insert_tx_buffer_push:
  "insert_tx_buffer f q = push_buffer (f (tx_slot q (efx_tx_queue_get_insert_index q))) q"
  by (simp add: insert_tx_buffer_def push_buffer_def Let_def)

lemma insert_tx_buffer_fields [simp]:
  "calls (insert_tx_buffer f q) = calls q" "tx_desc_fetch (insert_tx_buffer f q) = tx_desc_fetch q"
  "map_seq (insert_tx_buffer f q) = map_seq q"
  by (simp_all add: insert_tx_buffer_def set_tx_slot_def Let_def)

text \<open>A buffer that holds no mapping and no socket buffer.\<close>

definition bare :: "efx_tx_buffer \<Rightarrow> bool" where
  "bare b \<longleftrightarrow> live_slot b \<and> owned b = {#} \<and> skb_of b = {#}"

lemma bare_held: "\<forall>b\<in>set bs. bare b \<Longrightarrow> maps_held bs = {#} \<and> skbs_held bs = {#}"
  by (induction bs) (auto simp: bare_def)

lemma bare_tso_v3:
  assumes "(word_of_int (efx_tx_tso_header_length env skb) :: u16) \<noteq> 0"
  shows "bare (tso_v3_buffer env skb b)"
  using assms by (simp add: bare_def tso_v3_buffer_def live_slot_def efx_tx_buffer_in_use_def obj_ok_def owned_def skb_of_def)

lemma bare_option: "free_slot b \<Longrightarrow> bare (b\<lparr>tb_flags := EFX_TX_BUF_OPTION\<rparr>)"
  by (simp add: bare_def free_slot_def live_slot_def efx_tx_buffer_in_use_def obj_ok_def owned_def skb_of_def)

lemma header_16:
  assumes "tso_header_ok env skb" and "skb_ok N skb" and "\<not> efx_tx_tso_header_length env skb < 0"
  shows "(word_of_int (efx_tx_tso_header_length env skb) :: u16) \<noteq> 0"
proof -
  have "efx_tx_tso_header_length env skb \<le> int (unat (skb_headlen skb))" "unat (skb_headlen skb) < 65536"
    using assms(1,2) by (simp_all add: tso_header_ok_def skb_ok_def frag_ok_def)
  then have "efx_tx_tso_header_length env skb < 65536"
    by linarith
  moreover have "0 < efx_tx_tso_header_length env skb"
    using assms(1,3) by (simp add: tso_header_ok_def)
  ultimately have "uint (word_of_int (efx_tx_tso_header_length env skb) :: u16) \<noteq> 0"
    by (simp add: uint_word_of_int)
  then show ?thesis
    by auto
qed

text \<open>\<open>begun q0 pre q\<close>: \<open>q\<close> is \<open>q0\<close> with the extra buffers \<open>pre\<close>.\<close>

definition begun :: "efx_tx_queue \<Rightarrow> efx_tx_buffer list \<Rightarrow> efx_tx_queue \<Rightarrow> bool" where
  "begun q0 pre q \<longleftrightarrow> extends q0 pre q \<and> calls q = calls q0 \<and> tx_desc_fetch q = tx_desc_fetch q0 \<and>
     map_seq q = map_seq q0 \<and> (\<forall>b\<in>set pre. bare b)"

lemma begun_refl [simp]: "begun q [] q \<longleftrightarrow> ring_ok q"
  by (simp add: begun_def)

lemma begun_insert:
  assumes "begun q0 pre q" and "fill q < length (buffer q)"
    and "bare (f (tx_slot q (efx_tx_queue_get_insert_index q)))"
  shows "begun q0 (pre @ [f (tx_slot q (efx_tx_queue_get_insert_index q))]) (insert_tx_buffer f q)"
proof -
  have "extends q [f (tx_slot q (efx_tx_queue_get_insert_index q))] (insert_tx_buffer f q)"
    unfolding insert_tx_buffer_push using assms by (intro extends_push) (auto simp: begun_def extends_def bare_def)
  then show ?thesis
    using assms extends_trans by (auto simp: begun_def)
qed

lemma reserve_prefix_spec:
  assumes "begun q0 pre q" and "reserve_prefix efv q = Some q1"
  obtains opt where "begun q0 (pre @ opt) q1" and "length opt = (if efv = None then 0 else 1)"
proof (cases efv)
  case None
  then show ?thesis
    using assms that [of "[]"] by (simp add: reserve_prefix_def)
next
  case (Some mport)
  have ok: "ring_ok q"
    using assms(1) by (simp add: begun_def extends_def)
  have q1: "\<not> efx_tx_buffer_in_use (tx_slot q (efx_tx_queue_get_insert_index q))"
    "q1 = insert_tx_buffer (\<lambda>b. b\<lparr>tb_flags := EFX_TX_BUF_OPTION\<rparr>) q"
    using assms(2) Some by (auto simp: reserve_prefix_def split: if_splits)
  then have "fill q < length (buffer q)"
    using insert_slot_in_use [OF ok] ring_ok_fill [OF ok] by simp
  then show ?thesis
    using begun_insert [OF assms(1), of "\<lambda>b. b\<lparr>tb_flags := EFX_TX_BUF_OPTION\<rparr>"] bare_option insert_slot_free [OF ok]
      that Some q1(2) by simp
qed

subsection \<open>Errors\<close>

definition in_flight :: "efx_tx_queue \<Rightarrow> efx_tx_buffer list \<Rightarrow> efx_tx_queue \<Rightarrow> skb_account \<Rightarrow> bool" where
  "in_flight q0 new q Y \<longleftrightarrow> extends q0 new q \<and> (\<exists>L. acct q L Y \<and> size L \<le> tx_desc_fetch q)"

lemma in_flight_begun:
  assumes "queue_ok q0 Y" and "begun q0 pre q"
  shows "in_flight q0 pre q Y"
  using assms bare_held [of pre] by (auto simp: queue_ok_def begun_def in_flight_def acct_def extends_def)

lemma error_queue:
  assumes "queue_ok q0 Y0" and "in_flight q0 new q Y"
    and q'_def: "q' = kernel_call (Kfree_skb skb) (efx_enqueue_unwind (insert_count q0) q)"
  shows "queue_ok q' (add_skb skb Y)" and "pending q' = pending q0" and "insert_count q' = insert_count q0"
    and "tx_desc_fetch q' = tx_desc_fetch q" and "live_maps (calls q') + maps_held new = live_maps (calls q)"
proof -
  have ext: "ring_ok q" "pending q = pending q0 @ new" "read_count q = read_count q0" "ring_frame q0 q"
    using assms(2) by (auto simp: in_flight_def extends_def)
  obtain L where L: "acct q L Y" "size L \<le> tx_desc_fetch q"
    using assms(2) by (auto simp: in_flight_def)
  have ic: "insert_count q0 = read_count q + of_nat (length (pending q0))"
    using insert_count_eq [of q0] ext(3) by simp
  have u: "unwound q (pending q0) (efx_enqueue_unwind (insert_count q0) q)"
    unfolding ic by (rule unwind_pending [OF ext(1,2)])
  then have a: "acct (efx_enqueue_unwind (insert_count q0) q) L Y"
    using L(1) unfolding unwound_def by blast
  have w: "write_count q0 = insert_count q0"
    using assms(1) by (simp add: queue_ok_def)
  have ring: "same_ring (efx_enqueue_unwind (insert_count q0) q) q'"
    by (simp add: q'_def kernel_call_def same_ring_def)
  have "acct q' L (add_skb skb Y)"
    using a same_ring_simps(3) [OF ring] by (simp add: acct_def q'_def kernel_call_def add_skb_def)
  moreover have "ring_ok q'" "insert_count q' = insert_count q0" "write_count q' = write_count q0"
    "tx_desc_fetch q' = tx_desc_fetch q" "pending q' = pending q0"
    using u ext(3,4) ic same_ring_simps(3,4) [OF ring]
    by (simp_all add: unwound_def ring_frame_def) (simp_all add: q'_def kernel_call_def)
  ultimately show "queue_ok q' (add_skb skb Y)" "pending q' = pending q0" "insert_count q' = insert_count q0"
    "tx_desc_fetch q' = tx_desc_fetch q"
    using w L(2) by (auto simp: queue_ok_def)
  show "live_maps (calls q') + maps_held new = live_maps (calls q)"
    using L(1) a u ext(2) by (simp add: acct_def q'_def kernel_call_def unwound_def ac_simps)
qed

subsection \<open>Enqueueing a packet\<close>

definition honest_events :: "ef100_env \<Rightarrow> xmit_in \<Rightarrow> bool" where
  "honest_events env inp \<longleftrightarrow> (\<forall>ch. events_ok env (xi_events inp ch) ch)"

definition chan_inv :: "ef100_env \<Rightarrow> tx_channel \<Rightarrow> (nat \<Rightarrow> skb_account) \<Rightarrow> bool" where
  "chan_inv env ch Y \<longleftrightarrow> chan_ok ch Y \<and> stop_ok env ch"

definition credit :: "nat \<Rightarrow> sk_buff \<Rightarrow> (nat \<Rightarrow> skb_account) \<Rightarrow> nat \<Rightarrow> skb_account" where
  "credit i skb Y = Y(i := add_skb skb (Y i))"

lemma fill_level_bound:
  "efx_channel_tx_fill_level ch \<le> t \<longleftrightarrow> (\<forall>i<length (tx_queues ch). fill (chan_q ch i) \<le> unat t)"
  by (auto simp: fill_level_le chan_q_def all_set_conv_all_nth)

lemma stop_ok_fill:
  assumes "stop_ok env ch" and "core_stopped ch' = core_stopped ch" and "length (tx_queues ch') = length (tx_queues ch)"
    and "\<And>i. i < length (tx_queues ch) \<Longrightarrow> fill (chan_q ch' i) \<le> fill (chan_q ch i)"
  shows "stop_ok env ch'"
  using assms by (auto simp: stop_ok_def fill_level_bound intro: order.trans)

lemma fill_push_buffers [simp]: "fill (ef100_tx_push_buffers h q) = fill q"
  using same_books_push [of q h] same_ring_simps(2) by (simp add: same_books_def)

lemma pending_push_buffers [simp]: "pending (ef100_tx_push_buffers h q) = pending q"
  using same_books_push [of q h] same_ring_simps(3) by (simp add: same_books_def)

lemma enqueue_error_spec:
  assumes "chan_inv env ch Y" and "i < length (tx_queues ch)" and "in_flight (chan_q ch i) new q (Y i)"
    and ch'_def: "ch' = ef100_enqueue_error inp i (insert_count (chan_q ch i)) skb (set_chan_q i q ch)"
  shows "chan_inv env ch' (credit i skb Y)" and "length (tx_queues ch') = length (tx_queues ch)"
    and "pending (chan_q ch' i) = pending (chan_q ch i)" and "core_stopped ch' = core_stopped ch"
proof -
  let ?q0 = "chan_q ch i"
  let ?q' = "kernel_call (Kfree_skb skb) (efx_enqueue_unwind (insert_count ?q0) q)"
  have ok: "queue_ok ?q0 (Y i)"
    using assms(1,2) by (simp add: chan_inv_def chan_okD)
  note e = error_queue [OF ok assms(3) refl, of skb]
  define qq where "qq = (if xmit_pending ?q' \<and> \<not> xmit_more inp then ef100_tx_push_buffers (holdoff_doorbell ch) ?q' else ?q')"
  have ch': "ch' = set_chan_q i qq ch"
    using assms(2) by (simp add: ch'_def ef100_enqueue_error_def Let_def qq_def)
  have qq: "queue_ok qq (add_skb skb (Y i))" "pending qq = pending ?q0"
    using e by (simp_all add: qq_def)
  then have fill: "fill qq = fill ?q0"
    using length_pending by metis
  have "chan_ok ch' (credit i skb Y)"
    using assms(1,2) qq(1) unfolding ch' by (intro chan_ok_set) (auto simp: chan_inv_def chan_ok_def credit_def)
  moreover have "stop_ok env ch'"
    using assms(1,2) fill by (auto simp: ch' chan_inv_def intro!: stop_ok_fill [of env ch])
  ultimately show "chan_inv env ch' (credit i skb Y)"
    by (simp add: chan_inv_def)
  show "length (tx_queues ch') = length (tx_queues ch)" "pending (chan_q ch' i) = pending ?q0"
    "core_stopped ch' = core_stopped ch"
    using assms(2) qq(2) by (simp_all add: ch')
qed

text \<open>Stopping the kernel's queue: afterwards it is stopped, or the rings are below the threshold.\<close>

lemma stop_queue_spec:
  assumes "chan_ok ch Y" and "honest_events env inp"
  obtains ch' where "ef100_stop_queue env inp ch = Some ch'" and "chan_inv env ch' Y"
    and "length (tx_queues ch') = length (tx_queues ch)"
    and "\<And>i. i < length (tx_queues ch) \<Longrightarrow> fill (chan_q ch' i) \<le> fill (chan_q ch i)"
    and "core_stopped ch' \<Longrightarrow> core_stopped ch \<or> txq_stop_thresh env \<le> efx_channel_tx_fill_level ch'"
proof (cases "txq_stop_thresh env < efx_channel_tx_fill_level ch")
  case False
  then have "stop_ok env ch"
    by (simp add: stop_ok_def not_less)
  then show ?thesis
    using that [of ch] False assms(1) by (simp add: ef100_stop_queue_def chan_inv_def)
next
  case True
  let ?ch = "ch\<lparr>core_stopped := True\<rparr>"
  have "chan_ok ?ch Y" "events_ok env (xi_events inp ?ch) ?ch"
    using assms by (simp_all add: honest_events_def)
  then obtain ch1 where ch1: "ef100_ev_txs env (xi_events inp ?ch) ?ch = Some ch1" "chan_ok ch1 Y" "drained ?ch ch1"
    by (rule ev_txs_spec)
  let ?ch' = "if efx_channel_tx_fill_level ch1 < txq_stop_thresh env then ch1\<lparr>core_stopped := False\<rparr> else ch1"
  have "ef100_stop_queue env inp ch = Some ?ch'"
    using True ch1(1) by (simp add: ef100_stop_queue_def)
  moreover have level: "efx_channel_tx_fill_level (ch1\<lparr>core_stopped := b\<rparr>) = efx_channel_tx_fill_level ch1" for b
    by (simp add: efx_channel_tx_fill_level_def)
  have "chan_inv env ?ch' Y"
    using ch1 level by (auto simp: chan_inv_def stop_ok_def drained_def)
  moreover have "core_stopped ?ch' \<Longrightarrow> txq_stop_thresh env \<le> efx_channel_tx_fill_level ?ch'"
    by (auto split: if_splits)
  ultimately show ?thesis
    using that [of ?ch'] ch1(3) by (auto simp: drained_def)
qed

lemma doorbell_spec:
  assumes "chan_inv env ch Y" and "i < length (tx_queues ch)"
    and ch'_def: "ch' = set_chan_q i (ef100_count_packet segs skb (chan_q (ef100_ring_doorbell inp i ch) i)) (ef100_ring_doorbell inp i ch)"
  shows "chan_inv env ch' Y" and "length (tx_queues ch') = length (tx_queues ch)"
    and "core_stopped ch' = core_stopped ch" and "pending (chan_q ch' j) = pending (chan_q ch j)"
proof -
  define q1 where "q1 = (chan_q ch i)\<lparr>xmit_pending := (if sent_queue inp then False
      else if 255 < write_count (chan_q ch i) - notify_count (chan_q ch i) then False else True)\<rparr>"
  define q2 where "q2 = (if \<not> xmit_pending q1 then ef100_tx_push_buffers (holdoff_doorbell ch) q1 else q1)"
  have db: "ef100_ring_doorbell inp i ch = set_chan_q i q2 ch"
    by (simp add: ef100_ring_doorbell_def Let_def q1_def q2_def)
  have ch': "ch' = set_chan_q i (ef100_count_packet segs skb q2) ch"
    using assms(2) by (simp add: ch'_def db)
  have b1: "same_books (chan_q ch i) q1" "write_count q1 = write_count (chan_q ch i)"
    by (simp_all add: q1_def same_books_def same_ring_def)
  then have b2: "same_books (chan_q ch i) (ef100_count_packet segs skb q2)"
    unfolding q2_def using same_books_trans [OF same_books_trans [OF b1(1) same_books_push] same_books_count]
      same_books_trans [OF b1(1) same_books_count] by simp
  have ok: "queue_ok (ef100_count_packet segs skb q2) (Y i)"
    using chan_okD [of ch Y i] queue_ok_same_books [OF b1] assms(1,2) by (simp add: q2_def chan_inv_def)
  have pend: "pending (ef100_count_packet segs skb q2) = pending (chan_q ch i)"
    using b2 same_ring_simps(3) by (simp add: same_books_def)
  then have fill: "fill (ef100_count_packet segs skb q2) = fill (chan_q ch i)"
    using length_pending by metis
  have "chan_ok ch' Y"
    using assms(1,2) ok unfolding ch' by (intro chan_ok_set) (auto simp: chan_inv_def chan_ok_def)
  moreover have "stop_ok env ch'"
    using assms(1,2) fill by (auto simp: ch' chan_inv_def intro!: stop_ok_fill [of env ch])
  ultimately show "chan_inv env ch' Y"
    by (simp add: chan_inv_def)
  show "length (tx_queues ch') = length (tx_queues ch)" "core_stopped ch' = core_stopped ch"
    "pending (chan_q ch' j) = pending (chan_q ch j)"
    using assms(2) pend by (simp_all add: ch')
qed

text \<open>How an enqueue ends: the invariant holds with the packet credited to queue \<open>i\<close>; after an
  error the ring is as it was.\<close>

definition enqueued :: "ef100_env \<Rightarrow> tx_channel \<Rightarrow> nat \<Rightarrow> sk_buff \<Rightarrow> (nat \<Rightarrow> skb_account) \<Rightarrow> int \<Rightarrow> tx_channel \<Rightarrow> bool" where
  "enqueued env ch i skb Y rc ch' \<longleftrightarrow> chan_inv env ch' (credit i skb Y) \<and>
     length (tx_queues ch') = length (tx_queues ch) \<and> rc \<in> {0, - EIO, - EINVAL, - EBUSY, - ENOSPC} \<and>
     (rc \<noteq> 0 \<longrightarrow> pending (chan_q ch' i) = pending (chan_q ch i) \<and> core_stopped ch' = core_stopped ch)"

lemma map_outcome_in_flight:
  assumes "in_flight q0 pre q1 Y" and "acct q1 L Y" and "size L \<le> tx_desc_fetch q1"
    and "map_outcome env K q1 skb L Y bytes rc q2 new" and "rc \<noteq> 0"
  shows "in_flight q0 (pre @ new) q2 Y"
proof -
  have "extends q0 (pre @ new) q2"
    using assms(1,4) extends_trans by (auto simp: in_flight_def map_outcome_def)
  moreover have "\<exists>L. acct q2 L Y \<and> size L \<le> tx_desc_fetch q2"
    using assms(3-5) by (auto simp: map_outcome_def intro: exI [of _ L])
  ultimately show ?thesis
    by (simp add: in_flight_def)
qed

lemma written_queue:
  assumes "same_books q q'" and "write_count q' = insert_count q" and "ring_ok q" and "acct q L Y"
    and "size L \<le> tx_desc_fetch q"
  shows "queue_ok q' Y"
proof -
  have "same_ring q q'" and eq: "tx_desc_fetch q' = tx_desc_fetch q" "insert_count q' = insert_count q"
    using assms(1) by (simp_all add: same_books_def same_ring_def)
  then have "ring_ok q'"
    using assms(3) same_ring_simps(4) by blast
  then show ?thesis
    using assms(2,4,5) eq same_books_acct [OF assms(1)] by (auto simp: queue_ok_def)
qed

lemma enqueue_mapped_spec:
  assumes inv: "chan_inv env ch Y" and i: "i < length (tx_queues ch)" and pre: "begun (chan_q ch i) pre q"
    and env: "chunk_ok (efx_tx env) N" "honest_events env inp"
    and skb: "skb_ok N skb" "segs \<noteq> 0 \<longrightarrow> tso_header_ok (efx_tx env) skb"
  shows "\<exists>rc ch'. ef100_enqueue_mapped env inp i efv (insert_count (chan_q ch i)) segs skb q ch = Some (rc, ch') \<and>
    enqueued env ch i skb Y rc ch'"
proof (cases "reserve_prefix efv q")
  case None
  have fl: "in_flight (chan_q ch i) pre q (Y i)"
    using inv i pre by (intro in_flight_begun) (auto simp: chan_inv_def chan_okD)
  show ?thesis
    using None enqueue_error_spec [OF inv i fl refl, of inp skb]
    by (simp add: ef100_enqueue_mapped_def enqueued_def errno_defs)
next
  case (Some q1)
  let ?q0 = "chan_q ch i"
  obtain opt where q1: "begun ?q0 (pre @ opt) q1"
    using reserve_prefix_spec [OF pre Some] .
  have qok: "queue_ok ?q0 (Y i)"
    using inv i by (simp add: chan_inv_def chan_okD)
  then obtain L where L: "acct ?q0 L (Y i)" "size L \<le> tx_desc_fetch ?q0"
    by (rule queue_okE)
  have fl1: "in_flight ?q0 (pre @ opt) q1 (Y i)"
    using qok q1 by (rule in_flight_begun)
  have a1: "acct q1 L (Y i)" "size L \<le> tx_desc_fetch q1" "ring_ok q1"
    using L q1 bare_held [of "pre @ opt"] by (auto simp: begun_def acct_def extends_def)
  obtain rc q2 new where m: "efx_tx_map_data (efx_tx env) skb segs q1 = Some (rc, q2)"
      "map_outcome (efx_tx env) (2 + length (frags skb)) q1 skb L (Y i) (packet_bytes (efx_tx env) (map_seq q1) skb) rc q2 new"
    using map_data_spec [OF a1(3) env(1) skb a1(1)] by blast
  show ?thesis
  proof (cases "rc = 0")
    case False
    then have fl: "in_flight ?q0 ((pre @ opt) @ new) q2 (Y i)"
      using map_outcome_in_flight [OF fl1 a1(1,2) m(2)] by simp
    have "rc \<in> {0, - EIO, - EINVAL, - EBUSY, - ENOSPC}"
      using m(2) False by (auto simp: map_outcome_def)
    then show ?thesis
      using Some m(1) False enqueue_error_spec [OF inv i fl refl, of inp skb]
      by (simp add: ef100_enqueue_mapped_def enqueued_def)
  next
    case True
    let ?q3 = "ef100_tx_make_descriptors env (Some skb) segs efv q2"
    let ?ch3 = "set_chan_q i ?q3 ch"
    have a2: "acct q2 L (add_skb skb (Y i))" "tx_desc_fetch q2 = tx_desc_fetch q1" "ring_ok q2"
      using m(2) True by (auto simp: map_outcome_def errno_defs extends_def)
    have "queue_ok ?q3 (add_skb skb (Y i))"
      using a2(3,1) a1(2) a2(2) by (intro written_queue [OF same_books_descriptors descriptors_written]) simp_all
    then have "chan_ok ?ch3 (credit i skb Y)"
      using inv i by (intro chan_ok_set) (auto simp: credit_def chan_inv_def chan_ok_def)
    then obtain ch1 where ch1: "ef100_stop_queue env inp ?ch3 = Some ch1" "chan_inv env ch1 (credit i skb Y)"
        "length (tx_queues ch1) = length (tx_queues ?ch3)"
      using env(2) by (rule stop_queue_spec)
    define ch2 where "ch2 = set_chan_q i (ef100_count_packet segs skb (chan_q (ef100_ring_doorbell inp i ch1) i))
      (ef100_ring_doorbell inp i ch1)"
    have "ef100_enqueue_mapped env inp i efv (insert_count (chan_q ch i)) segs skb q ch = Some (0, ch2)"
      using Some m(1) True ch1(1) by (simp add: ef100_enqueue_mapped_def Let_def ch2_def)
    moreover have "enqueued env ch i skb Y 0 ch2"
      using doorbell_spec(1,2) [OF ch1(2) _ ch2_def] i ch1(3) by (simp add: enqueued_def)
    ultimately show ?thesis
      by blast
  qed
qed

subsection \<open>Segmentation in software and the whole operation\<close>

lemma acct_settle: "acct q L (add_skb s (A, add_mset (skb_id s) B)) = acct q L (A, B)"
  by (simp add: acct_def add_skb_def)

lemma queue_ok_settle: "queue_ok q (add_skb s (A, add_mset (skb_id s) B)) = queue_ok q (A, B)"
  by (simp add: queue_ok_def acct_settle)

lemma chan_inv_cong:
  assumes "\<And>j q. queue_ok q (Y j) = queue_ok q (Z j)"
  shows "chan_inv env ch Y = chan_inv env ch Z"
  using assms by (simp add: chan_inv_def chan_ok_def)

lemma run_segments_spec:
  assumes "chan_inv env ch (Y(i := (A, mset (map skb_id ss) + B)))" and "i < length (tx_queues ch)"
    and "\<And>s ch Y. s \<in> set ss \<Longrightarrow> chan_inv env ch Y \<Longrightarrow> i < length (tx_queues ch) \<Longrightarrow>
      \<exists>rc ch'. f s ch = Some (rc, ch') \<and> chan_inv env ch' (credit i s Y) \<and> length (tx_queues ch') = length (tx_queues ch)"
  shows "\<exists>ch'. run_segments f ss ch = Some ch' \<and> chan_inv env ch' (Y(i := (A, B))) \<and>
    length (tx_queues ch') = length (tx_queues ch)"
  using assms
proof (induction ss arbitrary: ch)
  case Nil
  then show ?case by simp
next
  case (Cons s ss)
  have "s \<in> set (s # ss)"
    by simp
  then obtain rc ch1 where 1: "f s ch = Some (rc, ch1)"
      "chan_inv env ch1 (credit i s (Y(i := (A, mset (map skb_id (s # ss)) + B))))"
      "length (tx_queues ch1) = length (tx_queues ch)"
    using Cons.prems(3) [OF _ Cons.prems(1,2)] by blast
  have "chan_inv env ch1 (Y(i := (A, mset (map skb_id ss) + B)))"
    using 1(2) by (subst chan_inv_cong [where Z = "credit i s (Y(i := (A, mset (map skb_id (s # ss)) + B)))"])
      (auto simp: credit_def queue_ok_settle)
  moreover have "i < length (tx_queues ch1)"
    using 1(3) Cons.prems(2) by simp
  ultimately obtain ch2 where 2: "run_segments f ss ch1 = Some ch2" "chan_inv env ch2 (Y(i := (A, B)))"
      "length (tx_queues ch2) = length (tx_queues ch1)"
    using Cons.IH Cons.prems(3) by fastforce
  have "run_segments f (s # ss) ch = Some ch2"
    using 1(1) 2(1) by simp
  moreover have "length (tx_queues ch2) = length (tx_queues ch)"
    using 1(3) 2(3) by simp
  ultimately show ?case
    using 2(2) by blast
qed

definition segment_ok :: "nat \<Rightarrow> sk_buff \<Rightarrow> bool" where
  "segment_ok N s \<longleftrightarrow> skb_ok N s \<and> ef100_segments s = 0"

text \<open>
  What the kernel hands to the transmit function of queue \<open>q\<close>: well formed lengths; for a packet to
  be segmented, headers in the linear part and room for one more buffer if the hardware can segment
  it (the kernel does not transmit on a stopped queue); and \<open>skb_gso_segment\<close> gives plain packets or
  an error.
\<close>

definition packet_ok :: "ef100_env \<Rightarrow> nat \<Rightarrow> sk_buff \<Rightarrow> efx_tx_queue \<Rightarrow> bool" where
  "packet_ok env N skb q \<longleftrightarrow> skb_ok N skb \<and>
     (ef100_segments skb \<noteq> 0 \<longrightarrow> tso_header_ok (efx_tx env) skb \<and>
        (ef100_tso_possible env skb \<longrightarrow> fill q < length (buffer q)) \<and>
        (case gso_segment env skb of Inl e \<Rightarrow> e \<noteq> 0 | Inr segs \<Rightarrow> list_all (segment_ok N) segs))"

definition enqueue_done :: "ef100_env \<Rightarrow> tx_channel \<Rightarrow> nat \<Rightarrow> sk_buff \<Rightarrow> (nat \<Rightarrow> skb_account) \<Rightarrow> tx_channel \<Rightarrow> bool" where
  "enqueue_done env ch i skb Y ch' \<longleftrightarrow> chan_inv env ch' (credit i skb Y) \<and>
     length (tx_queues ch') = length (tx_queues ch)"

lemma tso_possible_header:
  assumes "ef100_tso_possible env skb"
  shows "\<not> efx_tx_tso_header_length (efx_tx env) skb < 0"
proof
  let ?h = "efx_tx_tso_header_length (efx_tx env) skb"
  assume neg: "?h < 0"
  have lower: "- 2147483648 \<le> ?h"
    using sint_ge [of "inner_transport_off skb + push_bit 2 (inner_doff skb)"]
      sint_ge [of "transport_off skb + push_bit 2 (doff skb)"]
    by (simp add: efx_tx_tso_header_length_def errno_defs)
  have "?h mod 18446744073709551616 = (?h + 18446744073709551616) mod 18446744073709551616"
    by (rule mod_add_self2 [symmetric])
  also have "\<dots> = ?h + 18446744073709551616"
    using neg lower by (intro mod_pos_pos_trivial) linarith+
  finally have "uint (word_of_int ?h :: u64) = ?h + 18446744073709551616"
    by (simp add: uint_word_of_int)
  moreover have "uint (ucast (tso_max_hdr_len env) :: u64) < 65536"
    using unsigned_less [of "tso_max_hdr_len env", where ?'a = int] by (simp add: unsigned_ucast_eq take_bit_int_eq_self)
  moreover have "uint (word_of_int ?h :: u64) \<le> uint (ucast (tso_max_hdr_len env) :: u64)"
    using assms by (simp add: ef100_tso_possible_def word_le_def)
  ultimately show False
    using lower by linarith
qed


lemma stop_ok_stopped [simp]: "stop_ok env (ch\<lparr>core_stopped := True\<rparr>)"
  by (simp add: stop_ok_def)

lemma queue_ok_kfree: "queue_ok q Y \<Longrightarrow> queue_ok (kernel_call (Kfree_skb skb) q) (add_skb skb Y)"
proof (erule queue_okE)
  fix L
  assume a: "ring_ok q" "write_count q = insert_count q" "acct q L Y" "size L \<le> tx_desc_fetch q"
  have r: "same_ring q (kernel_call (Kfree_skb skb) q)"
    by (simp add: same_ring_def kernel_call_def)
  have "acct (kernel_call (Kfree_skb skb) q) L (add_skb skb Y)"
    using a(3) same_ring_simps(3) [OF r] by (simp add: acct_def kernel_call_def add_skb_def)
  then show ?thesis
    using a same_ring_simps(4) [OF r] by (auto simp: queue_ok_def kernel_call_def)
qed

lemma queue_ok_gso:
  assumes "queue_ok q (A, B)"
  shows "queue_ok (kernel_call (Consume_skb skb) (kernel_call (Gso_segment skb segs) q))
    (add_mset (skb_id skb) A, mset (map skb_id segs) + B)"
proof -
  let ?q = "kernel_call (Consume_skb skb) (kernel_call (Gso_segment skb segs) q)"
  obtain L where a: "ring_ok q" "write_count q = insert_count q" "acct q L (A, B)" "size L \<le> tx_desc_fetch q"
    using assms by (rule queue_okE)
  have r: "same_ring q ?q"
    by (simp add: same_ring_def kernel_call_def)
  have "acct ?q L (add_mset (skb_id skb) A, mset (map skb_id segs) + B)"
    using a(3) same_ring_simps(3) [OF r] by (simp add: acct_def kernel_call_def ac_simps)
  then show ?thesis
    using a same_ring_simps(4) [OF r] by (auto simp: queue_ok_def kernel_call_def)
qed

lemma count_fallback_spec:
  assumes "chan_inv env ch Y" and "i < length (tx_queues ch)"
  shows "chan_inv env (count_fallback i ch) Y" and "length (tx_queues (count_fallback i ch)) = length (tx_queues ch)"
    and "same_books (chan_q ch i) (chan_q (count_fallback i ch) i)"
proof -
  let ?q = "(chan_q ch i)\<lparr>tso_fallbacks := tso_fallbacks (chan_q ch i) + 1\<rparr>"
  have b: "same_books (chan_q ch i) ?q"
    by (simp add: same_books_def same_ring_def)
  have "queue_ok ?q (Y i)"
    using assms queue_ok_same_books [OF b] by (simp add: chan_inv_def chan_okD)
  moreover have "fill ?q = fill (chan_q ch i)"
    using b same_ring_simps(2) by (simp add: same_books_def)
  moreover have eq: "count_fallback i ch = set_chan_q i ?q ch"
    by (simp add: count_fallback_def Let_def)
  ultimately show "chan_inv env (count_fallback i ch) Y"
    using assms by (auto simp: chan_inv_def chan_ok_def intro!: stop_ok_fill [of env ch])
  show "length (tx_queues (count_fallback i ch)) = length (tx_queues ch)"
    "same_books (chan_q ch i) (chan_q (count_fallback i ch) i)"
    using assms(2) b by (simp_all add: eq)
qed

lemma enqueue_plain_spec:
  assumes "chan_inv env ch Y" and "i < length (tx_queues ch)" and "chunk_ok (efx_tx env) N" and "honest_events env inp"
    and "segment_ok N skb"
  shows "\<exists>rc ch'. ef100_enqueue (Suc n) env inp i efv skb ch = Some (rc, ch') \<and> enqueue_done env ch i skb Y ch'"
proof (cases "buffer (chan_q ch i) = [] \<or> ptr_mask (chan_q ch i) = 0")
  case True
  let ?ch = "set_chan_q i (kernel_call (Kfree_skb skb) (chan_q ch i)) (ch\<lparr>core_stopped := True\<rparr>)"
  have "ef100_enqueue (Suc n) env inp i efv skb ch = Some (- ENODEV, ?ch)"
    using True by (simp add: ef100_enqueue.simps Let_def)
  moreover have "chan_ok ?ch (credit i skb Y)"
    using assms(1,2) by (intro chan_ok_set) (auto simp: chan_inv_def chan_ok_def credit_def queue_ok_kfree)
  ultimately show ?thesis
    by (simp add: enqueue_done_def chan_inv_def stop_ok_def)
next
  case False
  have "begun (chan_q ch i) [] (chan_q ch i)"
    using assms(1,2) by (auto simp: chan_inv_def dest!: chan_okD elim: queue_okE)
  then obtain rc ch' where e: "ef100_enqueue_mapped env inp i efv (insert_count (chan_q ch i)) 0 skb (chan_q ch i) ch = Some (rc, ch')"
      "enqueued env ch i skb Y rc ch'"
    using enqueue_mapped_spec [OF assms(1,2) _ assms(3,4), of "[]" "chan_q ch i" skb 0 efv] assms(5) by (auto simp: segment_ok_def)
  then have "ef100_enqueue (Suc n) env inp i efv skb ch = Some (rc, ch')"
    using False assms(5) by (simp add: ef100_enqueue.simps Let_def segment_ok_def)
  then show ?thesis
    using e(2) by (simp add: enqueue_done_def enqueued_def)
qed

text \<open>A packet that the hardware segments: the TSO buffer, then the mapped packet.\<close>

lemma tcp_check_same [simp]:
  "skb_ok N (skb\<lparr>tcp_check := c\<rparr>) = skb_ok N skb" "tso_header_ok env (skb\<lparr>tcp_check := c\<rparr>) = tso_header_ok env skb"
  "credit i (skb\<lparr>tcp_check := c\<rparr>) Y = credit i skb Y"
  by (simp_all add: skb_ok_def skb_headlen_def tso_header_ok_def efx_tx_tso_header_length_def credit_def add_skb_def)

lemma enqueue_tso_spec:
  assumes inv: "chan_inv env ch Y" and i: "i < length (tx_queues ch)" and env: "chunk_ok (efx_tx env) N" "honest_events env inp"
    and pk: "packet_ok env N skb (chan_q ch i)" and tso: "ef100_segments skb \<noteq> 0" "ef100_tso_possible env skb"
    and ring: "\<not> (buffer (chan_q ch i) = [] \<or> ptr_mask (chan_q ch i) = 0)"
  shows "\<exists>rc ch'. ef100_enqueue (Suc n) env inp i efv skb ch = Some (rc, ch') \<and> enqueue_done env ch i skb Y ch'"
proof -
  let ?q0 = "chan_q ch i" and ?skb = "skb\<lparr>tcp_check := NOT (csum_magic env skb)\<rparr>"
  let ?b = "tso_v3_buffer (efx_tx env) skb (tx_slot ?q0 (efx_tx_queue_get_insert_index ?q0))"
  have h: "skb_ok N skb" "tso_header_ok (efx_tx env) skb" "fill ?q0 < length (buffer ?q0)"
    using pk tso by (simp_all add: packet_ok_def)
  have "begun ?q0 [] ?q0"
    using inv i by (auto simp: chan_inv_def dest!: chan_okD elim: queue_okE)
  moreover have "bare ?b"
    by (rule bare_tso_v3 [OF header_16 [OF h(2,1) tso_possible_header [OF tso(2)]]])
  ultimately have "begun ?q0 [?b] (insert_tx_buffer (tso_v3_buffer (efx_tx env) skb) ?q0)"
    using begun_insert [of ?q0 "[]" ?q0 "tso_v3_buffer (efx_tx env) skb"] h(3) by simp
  then have "\<exists>rc ch'. ef100_enqueue_mapped env inp i efv (insert_count ?q0) (ef100_segments skb) ?skb
      (insert_tx_buffer (tso_v3_buffer (efx_tx env) skb) ?q0) ch = Some (rc, ch') \<and> enqueued env ch i ?skb Y rc ch'"
    using h(1,2) by (intro enqueue_mapped_spec [OF inv i _ env, of "[?b]"]) simp_all
  then obtain rc ch' where e: "ef100_enqueue_mapped env inp i efv (insert_count ?q0) (ef100_segments skb) ?skb
        (insert_tx_buffer (tso_v3_buffer (efx_tx env) skb) ?q0) ch = Some (rc, ch')" "enqueued env ch i ?skb Y rc ch'"
    by blast
  then have "ef100_enqueue (Suc n) env inp i efv skb ch = Some (rc, ch')"
    using ring tso by (simp add: ef100_enqueue.simps Let_def ef100_tx_can_tso_def)
  moreover have "enqueue_done env ch i skb Y ch'"
    using e(2) by (simp add: enqueue_done_def enqueued_def)
  ultimately show ?thesis
    by blast
qed

text \<open>A packet that is segmented in software.\<close>

lemma enqueue_gso_spec:
  assumes inv: "chan_inv env ch Y" and i: "i < length (tx_queues ch)" and env: "chunk_ok (efx_tx env) N" "honest_events env inp"
    and pk: "packet_ok env N skb (chan_q ch i)" and gso: "ef100_segments skb \<noteq> 0" "\<not> ef100_tso_possible env skb"
    and ring: "\<not> (buffer (chan_q ch i) = [] \<or> ptr_mask (chan_q ch i) = 0)"
  shows "\<exists>rc ch'. ef100_enqueue (Suc (Suc n)) env inp i efv skb ch = Some (rc, ch') \<and> enqueue_done env ch i skb Y ch'"
proof -
  let ?q0 = "chan_q ch i"
  have can: "ef100_tx_can_tso env skb ?q0 = None"
    using gso(2) by (simp add: ef100_tx_can_tso_def)
  show ?thesis
  proof (cases "gso_segment env skb")
    case (Inl e)
    then have e: "e \<noteq> 0"
      using pk gso(1) by (simp add: packet_ok_def)
    let ?ch1 = "count_fallback i ch"
    have eq: "ef100_enqueue (Suc (Suc n)) env inp i efv skb ch =
        Some (e, ef100_enqueue_error inp i (insert_count ?q0) skb ?ch1)"
      using ring gso(1) can e Inl by (simp add: ef100_enqueue.simps(2) [where n = "Suc n"] Let_def efx_tx_tso_fallback_def)
    note cf = count_fallback_spec [OF inv i]
    have "queue_ok (chan_q ?ch1 i) (Y i)"
      using cf(1,2) i by (simp add: chan_inv_def chan_okD)
    then have "in_flight (chan_q ?ch1 i) [] (chan_q ?ch1 i) (Y i)"
      using in_flight_begun [of "chan_q ?ch1 i" "Y i" "[]" "chan_q ?ch1 i"] by (auto elim: queue_okE)
    moreover have "insert_count (chan_q ?ch1 i) = insert_count ?q0"
      using cf(3) by (simp add: same_books_def same_ring_def)
    moreover have "set_chan_q i (chan_q ?ch1 i) ?ch1 = ?ch1"
      by (simp add: set_chan_q_def chan_q_def)
    ultimately have "chan_inv env (ef100_enqueue_error inp i (insert_count ?q0) skb ?ch1) (credit i skb Y)"
      "length (tx_queues (ef100_enqueue_error inp i (insert_count ?q0) skb ?ch1)) = length (tx_queues ?ch1)"
      using enqueue_error_spec(1,2) [OF cf(1), of i "[]" "chan_q ?ch1 i" _ inp skb] i cf(2) by simp_all
    then show ?thesis
      using eq cf(2) by (simp add: enqueue_done_def)
  next
    case (Inr segs)
    have segs: "\<And>s. s \<in> set segs \<Longrightarrow> segment_ok N s"
      using pk gso(1) Inr by (simp add: packet_ok_def list_all_iff)
    let ?q1 = "kernel_call (Consume_skb skb) (kernel_call (Gso_segment skb segs) ?q0)"
    let ?ch1 = "set_chan_q i ?q1 ch"
    obtain A B where Y: "Y i = (A, B)"
      by (cases "Y i")
    have "queue_ok ?q1 (add_mset (skb_id skb) A, mset (map skb_id segs) + B)"
      using inv i Y by (intro queue_ok_gso) (auto simp: chan_inv_def dest: chan_okD)
    moreover have "fill ?q1 = fill ?q0"
      by (simp add: fill_def kernel_call_def)
    ultimately have inv1: "chan_inv env ?ch1 (Y(i := (add_mset (skb_id skb) A, mset (map skb_id segs) + B)))"
      using inv i by (auto simp: chan_inv_def chan_ok_def intro!: stop_ok_fill [of env ch])
    have "\<exists>ch2. run_segments (\<lambda>s. ef100_enqueue (Suc n) env inp i None s) segs ?ch1 = Some ch2 \<and>
        chan_inv env ch2 (Y(i := (add_mset (skb_id skb) A, B))) \<and> length (tx_queues ch2) = length (tx_queues ?ch1)"
    proof (rule run_segments_spec [OF inv1])
      show "i < length (tx_queues ?ch1)"
        using i by simp
      show "\<exists>rc ch'. ef100_enqueue (Suc n) env inp i None s ch = Some (rc, ch') \<and>
          chan_inv env ch' (credit i s Y) \<and> length (tx_queues ch') = length (tx_queues ch)"
        if "s \<in> set segs" "chan_inv env ch Y" "i < length (tx_queues ch)" for s ch Y
        using enqueue_plain_spec [OF that(2,3) env segs [OF that(1)], of n None] by (simp add: enqueue_done_def)
    qed
    then obtain ch2 where ch2: "run_segments (\<lambda>s. ef100_enqueue (Suc n) env inp i None s) segs ?ch1 = Some ch2"
        "chan_inv env ch2 (Y(i := (add_mset (skb_id skb) A, B)))" "length (tx_queues ch2) = length (tx_queues ch)"
      by auto
    have "ef100_enqueue (Suc (Suc n)) env inp i efv skb ch = Some (0, count_fallback i ch2)"
      using ring gso(1) can ch2(1) Inr by (simp add: ef100_enqueue.simps(2) [where n = "Suc n"] Let_def efx_tx_tso_fallback_def)
    moreover have "credit i skb Y = Y(i := (add_mset (skb_id skb) A, B))"
      using Y by (simp add: credit_def add_skb_def)
    ultimately show ?thesis
      using count_fallback_spec [OF ch2(2), of i] i ch2(3) by (simp add: enqueue_done_def)
  qed
qed

theorem enqueue_spec:
  assumes "chan_inv env ch Y" and "i < length (tx_queues ch)" and "chunk_ok (efx_tx env) N" and "honest_events env inp"
    and "packet_ok env N skb (chan_q ch i)"
  shows "\<exists>rc ch'. ef100_enqueue (Suc (Suc n)) env inp i efv skb ch = Some (rc, ch') \<and> enqueue_done env ch i skb Y ch'"
proof (cases "buffer (chan_q ch i) = [] \<or> ptr_mask (chan_q ch i) = 0 \<or> ef100_segments skb = 0")
  case False
  then show ?thesis
    using enqueue_tso_spec [OF assms] enqueue_gso_spec [OF assms] by (cases "ef100_tso_possible env skb") auto
next
  case True
  show ?thesis
  proof (cases "ef100_segments skb = 0")
    case True
    then show ?thesis
      using enqueue_plain_spec [OF assms(1-4)] assms(5) by (simp add: segment_ok_def packet_ok_def)
  next
    case False
    let ?ch = "set_chan_q i (kernel_call (Kfree_skb skb) (chan_q ch i)) (ch\<lparr>core_stopped := True\<rparr>)"
    have "ef100_enqueue (Suc (Suc n)) env inp i efv skb ch = Some (- ENODEV, ?ch)"
      using True False by (simp add: ef100_enqueue.simps(2) [where n = "Suc n"] Let_def)
    moreover have "chan_ok ?ch (credit i skb Y)"
      using assms(1,2) by (intro chan_ok_set) (auto simp: chan_inv_def chan_ok_def credit_def queue_ok_kfree)
    ultimately show ?thesis
      by (simp add: enqueue_done_def chan_inv_def stop_ok_def)
  qed
qed

end
