(* ===== verification/Ef100_Tx_Size.thy ===== *)
theory Ef100_Tx_Size
  imports Ef100_Tx_Inv
begin

section \<open>The rings keep their size\<close>

text \<open>
  No operation of the transmit path changes the length of a ring or the number of queues of a
  channel.
\<close>

named_theorems ring_len "operations that keep the length of the ring"

lemma len_set [ring_len]: "length (buffer (set_tx_slot i b q)) = length (buffer q)"
  by simp

lemma len_call [ring_len]: "length (buffer (kernel_call c q)) = length (buffer q)"
  by (simp add: kernel_call_def)

lemma len_dequeue [ring_len]: "length (buffer (snd (efx_dequeue_buffer i pb q))) = length (buffer q)"
  by (simp add: buffer_dequeue)

lemma len_spurious [ring_len]: "length (buffer (snd (spurious_completion env b q))) = length (buffer q)"
  by (simp add: spurious_completion_def kernel_call_def Let_def)

lemma len_counts [ring_len]:
  "length (buffer (advance_read q)) = length (buffer q)" "length (buffer (retreat_insert q)) = length (buffer q)"
  by (simp_all add: advance_read_def retreat_insert_def)

lemma len_dequeue_loop [ring_len]: "length (buffer (snd (dequeue_loop env index pb q))) = length (buffer q)"
proof (induction env index pb q rule: dequeue_loop.induct)
  case (1 env index pb q)
  then show ?case
    by (subst dequeue_loop.simps) (simp add: Let_def ring_len)
qed

lemma len_xmit_done [ring_len]: "length (buffer (efx_xmit_done env index q)) = length (buffer q)"
  using len_dequeue_loop [of env index "(0, 0)" q]
  by (cases "dequeue_loop env index (0, 0) q")
    (simp add: efx_xmit_done_def efx_dequeue_buffers_def efx_xmit_done_check_empty_def Let_def case_prod_beta)

lemma len_unwind [ring_len]: "length (buffer (efx_enqueue_unwind target q)) = length (buffer q)"
proof (induction target q rule: efx_enqueue_unwind.induct)
  case (1 target q)
  then show ?case
    by (subst efx_enqueue_unwind.simps) (simp add: Let_def ring_len)
qed

lemma len_put_chunk [ring_len]: "length (buffer (put_chunk a d q)) = length (buffer q)"
  by (simp add: put_chunk_def Let_def set_tx_slot_def)

lemma len_map_chunk:
  assumes "efx_tx_map_chunk env a len q = Some rq"
  shows "length (buffer (snd rq)) = length (buffer q)"
proof (rule efx_tx_map_chunk.raw_induct [where P = "\<lambda>env a len q rq. length (buffer (snd rq)) = length (buffer q)", OF _ assms])
  fix f :: "tx_env \<Rightarrow> u64 \<Rightarrow> u64 \<Rightarrow> efx_tx_queue \<Rightarrow> (nat option \<times> efx_tx_queue) option" and env a len q rq
  assume 1: "\<And>env a len q rq. f env a len q = Some rq \<Longrightarrow> length (buffer (snd rq)) = length (buffer q)"
    "(let i = efx_tx_queue_get_insert_index q; dma_len = chunk_len env a len; q' = put_chunk a dma_len q in
      if efx_tx_buffer_in_use (tx_slot q i) then Some (None, q\<lparr>tx_desc_fetch := Suc (tx_desc_fetch q)\<rparr>)
      else if len - ucast dma_len = 0 then Some (Some i, q')
      else f env (a + ucast dma_len) (len - ucast dma_len) q') = Some rq"
  show "length (buffer (snd rq)) = length (buffer q)"
  proof (cases "efx_tx_buffer_in_use (tx_slot q (efx_tx_queue_get_insert_index q)) \<or> len - ucast (chunk_len env a len) = 0")
    case True
    then show ?thesis
      using 1(2) by (auto simp: Let_def ring_len split: if_splits)
  next
    case False
    then have "f env (a + ucast (chunk_len env a len)) (len - ucast (chunk_len env a len)) (put_chunk a (chunk_len env a len) q) = Some rq"
      using 1(2) by (simp add: Let_def)
    then show ?thesis
      using 1(1) by (metis len_put_chunk)
  qed
qed

lemma len_map_fragments:
  "map_fragments env skb fs a len fl ul ua q = Some (rc, q') \<Longrightarrow> length (buffer q') = length (buffer q)"
proof (induction fs arbitrary: a len fl ul ua q)
  case Nil
  then show ?case
    by (subst (asm) map_fragments.simps)
      (auto simp: finish_chunk_def attach_skb_def ring_len Let_def dest!: len_map_chunk split: option.splits)
next
  case (Cons f fs)
  show ?case
  proof (cases "efx_tx_map_chunk env a len q")
    case None
    then show ?thesis
      using Cons.prems by (subst (asm) map_fragments.simps) simp
  next
    case (Some rq)
    obtain r q1 where rq: "rq = (r, q1)"
      by (cases rq)
    have len1: "length (buffer q1) = length (buffer q)"
      using len_map_chunk [OF Some] rq by simp
    show ?thesis
    proof (cases r)
      case None
      then show ?thesis
        using Cons.prems Some rq len1 by (subst (asm) map_fragments.simps) simp
    next
      case r: (Some i)
      let ?q2 = "finish_chunk i fl ul ua q1"
      have len2: "length (buffer ?q2) = length (buffer q)"
        using len1 by (simp add: finish_chunk_def)
      have "(case dma_map_call env Map_page (unat f) ?q2 of (None, q3) \<Rightarrow> Some (- EIO, q3)
          | (Some a', q3) \<Rightarrow> map_fragments env skb fs a' (ucast f) 0 (ucast f) a' q3) = Some (rc, q')"
        using Cons.prems Some rq r by (subst (asm) map_fragments.simps) (simp add: Let_def)
      then show ?thesis
        using len2 by (cases rule: dma_map_call_cases [of env ?q2 Map_page "unat f"]) (auto dest!: Cons.IH)
    qed
  qed
qed

lemma len_map_data:
  assumes "efx_tx_map_data env skb segs q = Some (rc, q')"
  shows "length (buffer q') = length (buffer q)"
proof (cases rule: dma_map_call_cases [of env q Map_single "unat (ucast (skb_headlen skb) :: u64)"])
  case 1
  then show ?thesis
    using assms by (auto simp: efx_tx_map_data_def Let_def)
next
  case (2 a)
  then show ?thesis
    using assms by (auto simp: efx_tx_map_data_def Let_def ring_len dest!: len_map_fragments len_map_chunk
        split: if_splits option.splits prod.splits)
qed

lemma same_books_len: "same_books q q' \<Longrightarrow> length (buffer q') = length (buffer q)"
  by (simp add: same_books_def same_ring_def)

lemma len_push [ring_len]: "length (buffer (ef100_tx_push_buffers h q)) = length (buffer q)"
  by (rule same_books_len [OF same_books_push])

lemma len_descriptors [ring_len]: "length (buffer (ef100_tx_make_descriptors env skb segs efv q)) = length (buffer q)"
  by (rule same_books_len [OF same_books_descriptors])

lemma len_count [ring_len]: "length (buffer (ef100_count_packet segs skb q)) = length (buffer q)"
  by (rule same_books_len [OF same_books_count])

lemma len_unsent [ring_len]: "length (buffer (ef100_notify_tx_desc q)) = length (buffer q)"
  by (rule same_books_len [OF same_books_notify])

lemma len_insert [ring_len]: "length (buffer (insert_tx_buffer f q)) = length (buffer q)"
  by (simp add: insert_tx_buffer_def set_tx_slot_def Let_def)

subsection \<open>Channels\<close>

definition ring_sizes :: "tx_channel \<Rightarrow> nat list" where
  "ring_sizes ch = map (\<lambda>q. length (buffer q)) (tx_queues ch)"

lemma sizes_set [simp]:
  "length (buffer q) = length (buffer (chan_q ch i)) \<Longrightarrow> ring_sizes (set_chan_q i q ch) = ring_sizes ch"
  by (cases "i < length (tx_queues ch)")
    (auto simp: ring_sizes_def set_chan_q_def chan_q_def map_update list_update_same_conv list_update_beyond)

lemma sizes_stopped [simp]: "ring_sizes (ch\<lparr>core_stopped := b\<rparr>) = ring_sizes ch"
  by (simp add: ring_sizes_def)

lemma sizes_nth: "i < length (tx_queues ch) \<Longrightarrow> length (buffer (chan_q ch i)) = ring_sizes ch ! i"
  by (simp add: ring_sizes_def chan_q_def)

lemma sizes_length: "ring_sizes ch' = ring_sizes ch \<Longrightarrow> length (tx_queues ch') = length (tx_queues ch)"
  by (metis length_map ring_sizes_def)

lemma sizes_ev_tx: "ef100_ev_tx env e ch = Some ch' \<Longrightarrow> ring_sizes ch' = ring_sizes ch"
  by (auto simp: ef100_ev_tx_def Let_def ring_len split: option.splits)

lemma sizes_ev_txs: "ef100_ev_txs env es ch = Some ch' \<Longrightarrow> ring_sizes ch' = ring_sizes ch"
  by (induction es arbitrary: ch) (auto dest: sizes_ev_tx split: option.splits)

lemma sizes_stop_queue: "ef100_stop_queue env inp ch = Some ch' \<Longrightarrow> ring_sizes ch' = ring_sizes ch"
  by (auto simp: ef100_stop_queue_def dest!: sizes_ev_txs split: if_splits option.splits)

lemma sizes_doorbell [simp]: "ring_sizes (ef100_ring_doorbell inp i ch) = ring_sizes ch"
  by (simp add: ef100_ring_doorbell_def Let_def ring_len)

lemma sizes_count_packet [simp]: "ring_sizes (set_chan_q i (ef100_count_packet segs skb (chan_q ch i)) ch) = ring_sizes ch"
  by (simp add: ring_len)

lemma sizes_error:
  "length (buffer q) = length (buffer (chan_q ch i)) \<Longrightarrow> i < length (tx_queues ch) \<Longrightarrow>
   ring_sizes (ef100_enqueue_error inp i n skb (set_chan_q i q ch)) = ring_sizes ch"
  by (simp add: ef100_enqueue_error_def Let_def ring_len)

lemma sizes_enqueue_mapped:
  assumes "ef100_enqueue_mapped env inp i efv n segs skb q ch = Some (rc, ch')"
    and "length (buffer q) = length (buffer (chan_q ch i))" and "i < length (tx_queues ch)"
  shows "ring_sizes ch' = ring_sizes ch"
proof -
  have pre: "reserve_prefix efv q = Some q1 \<Longrightarrow> length (buffer q1) = length (buffer q)" for q1
    by (auto simp: reserve_prefix_def ring_len split: option.splits if_splits)
  show ?thesis
    using assms by (auto simp: ef100_enqueue_mapped_def Let_def sizes_error ring_len
        dest!: pre len_map_data sizes_stop_queue split: option.splits prod.splits if_splits)
qed

lemma sizes_run_segments:
  assumes "run_segments f ss ch = Some ch'" and "i < length (tx_queues ch)"
    and "\<And>s ch rc ch'. i < length (tx_queues ch) \<Longrightarrow> f s ch = Some (rc, ch') \<Longrightarrow> ring_sizes ch' = ring_sizes ch"
  shows "ring_sizes ch' = ring_sizes ch"
  using assms
proof (induction ss arbitrary: ch)
  case Nil
  then show ?case by simp
next
  case (Cons s ss)
  then obtain rc ch1 where 1: "f s ch = Some (rc, ch1)" "run_segments f ss ch1 = Some ch'"
    by (auto split: option.splits)
  then have "ring_sizes ch1 = ring_sizes ch"
    using Cons.prems by blast
  then show ?case
    using Cons.IH [OF 1(2) _ Cons.prems(3)] Cons.prems(2) sizes_length [of ch1 ch] by simp
qed

lemma sizes_fallback [simp]: "ring_sizes (count_fallback i ch) = ring_sizes ch"
  by (simp add: count_fallback_def Let_def)

lemma sizes_enqueue:
  "ef100_enqueue n env inp i efv skb ch = Some (rc, ch') \<Longrightarrow> i < length (tx_queues ch) \<Longrightarrow> ring_sizes ch' = ring_sizes ch"
proof (induction n arbitrary: efv skb ch rc ch')
  case 0
  then show ?case by (simp add: ef100_enqueue.simps)
next
  case (Suc n)
  let ?q = "chan_q ch i"
  consider "buffer ?q = [] \<or> ptr_mask ?q = 0" | "\<not> (buffer ?q = [] \<or> ptr_mask ?q = 0)" "ef100_segments skb = 0"
    | skb' q' where "\<not> (buffer ?q = [] \<or> ptr_mask ?q = 0)" "ef100_segments skb \<noteq> 0" "ef100_tx_can_tso env skb ?q = Some (skb', q')"
    | "\<not> (buffer ?q = [] \<or> ptr_mask ?q = 0)" "ef100_segments skb \<noteq> 0" "ef100_tx_can_tso env skb ?q = None"
    by (cases "ef100_tx_can_tso env skb ?q") auto
  then show ?case
  proof cases
    case 1
    then show ?thesis
      using Suc.prems by (auto simp: ef100_enqueue.simps Let_def chan_q_def ring_len)
  next
    case 2
    then show ?thesis
      using Suc.prems by (auto simp: ef100_enqueue.simps Let_def dest: sizes_enqueue_mapped)
  next
    case 3
    then have "length (buffer q') = length (buffer ?q)"
      by (auto simp: ef100_tx_can_tso_def ring_len split: if_splits)
    then show ?thesis
      using 3 Suc.prems by (auto simp: ef100_enqueue.simps Let_def dest: sizes_enqueue_mapped)
  next
    case 4
    have run: "run_segments (\<lambda>s. ef100_enqueue n env inp i None s) segs ch1 = Some ch2 \<Longrightarrow> i < length (tx_queues ch1)
        \<Longrightarrow> ring_sizes ch2 = ring_sizes ch1" for segs ch1 ch2
      by (rule sizes_run_segments) (auto intro: Suc.IH)
    have err: "ring_sizes (ef100_enqueue_error inp i n' skb ch1) = ring_sizes ch1" if "i < length (tx_queues ch1)" for n' ch1
      using that by (simp add: ef100_enqueue_error_def Let_def ring_len)
    have "i < length (tx_queues (count_fallback i ch))"
      using Suc.prems(2) sizes_length [of "count_fallback i ch" ch] by simp
    then show ?thesis
      using 4 Suc.prems err
      by (auto simp: ef100_enqueue.simps Let_def efx_tx_tso_fallback_def ring_len dest!: run
          split: sum.splits option.splits prod.splits if_splits)
  qed
qed

end
