(* ===== verification/Ef100_Tx_Sys.thy ===== *)
theory Ef100_Tx_Sys
  imports Ef100_Tx_Size
begin

section \<open>A channel of the EF100 over time\<close>

text \<open>
  The states that a channel reaches from freshly initialised rings by transmissions, from the
  network device or from VF representors, and polls. The pair of the state counts the packets given
  to each queue.
\<close>

subsection \<open>The poll\<close>

lemma notify_notified [simp]: "notify_count (ef100_notify_tx_desc q) = write_count q"
  by (simp add: ef100_notify_tx_desc_def Let_def kernel_call_def)

lemma notify_unsent_counts [simp]:
  "notify_count (notify_unsent q) = write_count q" "write_count (notify_unsent q) = write_count q"
  by (simp_all add: notify_unsent_def Let_def)

lemma same_books_unsent: "same_books q (notify_unsent q)"
  using same_books_notify [of q] by (simp add: notify_unsent_def same_books_def same_ring_def Let_def)

lemma sum_list_zero: "(\<forall>q\<in>set qs. f q = 0) \<Longrightarrow> sum_list (map f qs) = (0 :: 'a::monoid_add)"
  by (induction qs) auto

text \<open>The loop that rings the doorbells held back ends after one turn, with nothing unsent.\<close>

lemma holdoff_loop_ends:
  "holdoff_loop ch =
     Some (if holdoff_doorbell ch then ch\<lparr>tx_queues := map notify_unsent (tx_queues ch), holdoff_doorbell := False\<rparr> else ch)"
proof (cases "holdoff_doorbell ch")
  case False
  then show ?thesis
    by (subst holdoff_loop.simps) simp
next
  case True
  let ?ch = "ch\<lparr>tx_queues := map notify_unsent (tx_queues ch), holdoff_doorbell := False\<rparr>"
  have "sum_list (map (\<lambda>q. write_count q - notify_count q) (tx_queues ?ch)) = 0"
    by (rule sum_list_zero) auto
  then have "holdoff_loop ch = holdoff_loop ?ch"
    using True by (subst holdoff_loop.simps) (simp add: Let_def)
  also have "\<dots> = Some ?ch"
    by (subst holdoff_loop.simps) simp
  finally show ?thesis
    using True by simp
qed

lemma chan_ok_map:
  assumes "chan_ok ch Y" and "\<And>q. same_books q (f q)" and "\<And>q. write_count (f q) = write_count q"
  shows "chan_ok (ch\<lparr>tx_queues := map f (tx_queues ch)\<rparr>) Y"
  using assms queue_ok_same_books [OF assms(2,3)] by (simp add: chan_ok_def chan_q_def)

lemma fill_map:
  assumes "\<And>q. same_books q (f q)" and "i < length (tx_queues ch)"
  shows "fill (chan_q (ch\<lparr>tx_queues := map f (tx_queues ch)\<rparr>) i) = fill (chan_q ch i)"
proof -
  have "same_ring (chan_q ch i) (f (chan_q ch i))"
    using assms(1) by (simp add: same_books_def)
  then show ?thesis
    using assms(2) same_ring_simps(2) by (simp add: chan_q_def)
qed

definition begin_poll :: "tx_channel \<Rightarrow> tx_channel" where
  "begin_poll ch = ch\<lparr>holdoff_doorbell := tx_coalesce_doorbell ch,
     tx_queues := map (\<lambda>q. q\<lparr>pkts_compl := 0, bytes_compl := 0\<rparr>) (tx_queues ch)\<rparr>"

lemma chan_ok_holdoff [simp]: "chan_ok (ch\<lparr>holdoff_doorbell := b\<rparr>) Y = chan_ok ch Y"
  by (simp add: chan_ok_def chan_q_def)

lemma chan_inv_map:
  assumes "chan_inv env ch Y" and "\<And>q. same_books q (f q)" and "\<And>q. write_count (f q) = write_count q"
  shows "chan_inv env (ch\<lparr>tx_queues := map f (tx_queues ch), holdoff_doorbell := b\<rparr>) Y"
proof -
  have "chan_ok (ch\<lparr>tx_queues := map f (tx_queues ch), holdoff_doorbell := b\<rparr>) Y"
    using assms by (simp add: chan_inv_def chan_ok_map [OF _ assms(2,3)] chan_ok_def chan_q_def queue_ok_same_books [OF assms(2,3)])
  moreover have "stop_ok env (ch\<lparr>tx_queues := map f (tx_queues ch), holdoff_doorbell := b\<rparr>)"
  proof (rule stop_ok_fill [of env ch])
    show "fill (chan_q (ch\<lparr>tx_queues := map f (tx_queues ch), holdoff_doorbell := b\<rparr>) i) \<le> fill (chan_q ch i)"
      if "i < length (tx_queues ch)" for i
      using fill_map [OF assms(2) that] that by (simp add: chan_q_def)
  qed (use assms(1) in \<open>simp_all add: chan_inv_def\<close>)
  ultimately show ?thesis
    by (simp add: chan_inv_def)
qed

lemma begin_poll_inv:
  assumes "chan_inv env ch Y"
  shows "chan_inv env (begin_poll ch) Y" and "length (tx_queues (begin_poll ch)) = length (tx_queues ch)"
    and "core_stopped (begin_poll ch) = core_stopped ch"
proof -
  have "begin_poll ch = ch\<lparr>tx_queues := map (\<lambda>q. q\<lparr>pkts_compl := 0, bytes_compl := 0\<rparr>) (tx_queues ch),
      holdoff_doorbell := tx_coalesce_doorbell ch\<rparr>"
    by (simp add: begin_poll_def)
  then show "chan_inv env (begin_poll ch) Y"
    using chan_inv_map [OF assms, of "\<lambda>q. q\<lparr>pkts_compl := 0, bytes_compl := 0\<rparr>"]
    by (simp add: same_books_def same_ring_def)
qed (simp_all add: begin_poll_def)

lemma chan_inv_drained:
  assumes "chan_inv env ch Y" and "chan_ok ch' Y" and "drained ch ch'"
  shows "chan_inv env ch' Y"
  using assms drained_level [OF assms(3)] by (auto simp: chan_inv_def stop_ok_def drained_def intro: order.trans)

text \<open>The kernel's queue is there, the port enabled and the device present.\<close>

definition can_wake :: "ef100_env \<Rightarrow> bool" where
  "can_wake env \<longleftrightarrow> core_txq_set env \<and> port_enabled env \<and> device_present env"

lemma wake_inv:
  assumes "chan_inv env ch Y" and "txq_wake_thresh env \<le> txq_stop_thresh env"
  shows "chan_inv env (wake_queue env ch) Y"
  using assms by (auto simp: wake_queue_def chan_inv_def stop_ok_def efx_channel_tx_fill_level_def intro: order.trans)

text \<open>A poll returns and keeps the invariant; afterwards no doorbell is held back and the kernel's
  queue runs if the rings are filled up to the wake threshold at most.\<close>

lemma poll_spec:
  assumes "chan_inv env ch Y" and "events_ok env events (begin_poll ch)" and "txq_wake_thresh env \<le> txq_stop_thresh env"
  obtains ch' where "efx_process_channel env events ch = Some ch'" and "chan_inv env ch' Y"
    and "length (tx_queues ch') = length (tx_queues ch)" and "\<not> holdoff_doorbell ch'"
    and "tx_coalesce_doorbell ch \<Longrightarrow> \<forall>q\<in>set (tx_queues ch'). notify_count q = write_count q"
    and "tx_queues ch \<noteq> [] \<Longrightarrow> can_wake env \<Longrightarrow> efx_channel_tx_fill_level ch' \<le> txq_wake_thresh env \<Longrightarrow> \<not> core_stopped ch'"
proof -
  note b = begin_poll_inv [OF assms(1)]
  obtain ch2 where 2: "ef100_ev_txs env events (begin_poll ch) = Some ch2" "chan_ok ch2 Y" "drained (begin_poll ch) ch2"
    using ev_txs_spec [of "begin_poll ch" Y env events] b(1) assms(2) by (auto simp: chan_inv_def)
  have inv2: "chan_inv env ch2 Y"
    using chan_inv_drained [OF b(1) 2(2,3)] .
  define ch3 where "ch3 = (if holdoff_doorbell ch2 then ch2\<lparr>tx_queues := map notify_unsent (tx_queues ch2), holdoff_doorbell := False\<rparr> else ch2)"
  have inv3: "chan_inv env ch3 Y"
    using chan_inv_map [OF inv2 same_books_unsent, of False] inv2 by (simp add: ch3_def)
  have eq: "efx_process_channel env events ch = Some (wake_queue env ch3)"
    using 2(1) by (simp add: efx_process_channel_def Let_def begin_poll_def [symmetric] holdoff_loop_ends ch3_def)
  have len: "length (tx_queues ch3) = length (tx_queues ch)"
    using 2(3) b(2) by (simp add: drained_def ch3_def)
  have hold: "holdoff_doorbell ch2 = tx_coalesce_doorbell ch"
    using 2(3) by (simp add: drained_def begin_poll_def)
  have wake: "tx_queues (wake_queue env ch3) = tx_queues ch3" "holdoff_doorbell (wake_queue env ch3) = holdoff_doorbell ch3"
    by (simp_all add: wake_queue_def)
  show ?thesis
  proof (rule that [OF eq])
    show "chan_inv env (wake_queue env ch3) Y"
      using wake_inv [OF inv3 assms(3)] .
    show "length (tx_queues (wake_queue env ch3)) = length (tx_queues ch)" "\<not> holdoff_doorbell (wake_queue env ch3)"
      using len wake by (simp_all add: ch3_def)
    show "\<forall>q\<in>set (tx_queues (wake_queue env ch3)). notify_count q = write_count q" if "tx_coalesce_doorbell ch"
      using that wake(1) hold by (auto simp: ch3_def)
    show "\<not> core_stopped (wake_queue env ch3)"
      if "tx_queues ch \<noteq> []" "can_wake env" "efx_channel_tx_fill_level (wake_queue env ch3) \<le> txq_wake_thresh env"
      using that len by (auto simp: wake_queue_def can_wake_def efx_channel_tx_fill_level_def split: if_splits)
  qed
qed

lemma sizes_poll:
  assumes "efx_process_channel env events ch = Some ch'"
  shows "ring_sizes ch' = ring_sizes ch"
proof -
  obtain ch2 where 2: "ef100_ev_txs env events (begin_poll ch) = Some ch2"
      "ch' = wake_queue env (if holdoff_doorbell ch2 then ch2\<lparr>tx_queues := map notify_unsent (tx_queues ch2), holdoff_doorbell := False\<rparr> else ch2)"
    using assms by (auto simp: efx_process_channel_def Let_def begin_poll_def [symmetric] holdoff_loop_ends split: option.splits)
  have "ring_sizes (wake_queue env c) = ring_sizes c" for c
    by (simp add: wake_queue_def)
  moreover have "ring_sizes (c\<lparr>tx_queues := map notify_unsent (tx_queues c), holdoff_doorbell := False\<rparr>) = ring_sizes c" for c
    by (simp add: ring_sizes_def same_books_len [OF same_books_unsent])
  moreover have "ring_sizes (begin_poll ch) = ring_sizes ch"
    by (simp add: ring_sizes_def begin_poll_def)
  ultimately show ?thesis
    using 2 sizes_ev_txs [OF 2(1)] by auto
qed

subsection \<open>Setting up\<close>

text \<open>A queue as allocated: all of the structure is zero.\<close>

definition blank_queue :: "u32 \<Rightarrow> efx_tx_queue" where
  "blank_queue n =
     \<lparr>txq_queue = n, buffer = [], ptr_mask = 0, txd = [], timestamping = False,
      read_count = 0, old_write_count = 0, merge_events = 0, bytes_compl = 0, pkts_compl = 0,
      completed_timestamp_major = 0, completed_timestamp_minor = 0, insert_count = 0, write_count = 0,
      packet_write_count = 0, old_read_count = 0, notify_count = 0, tso_bursts = 0, tso_long_headers = 0,
      tso_packets = 0, tso_fallbacks = 0, pushes = 0, doorbell_notify_tx = 0, doorbell_notify_comp = 0,
      tx_bytes = 0, tx_packets = 0, xmit_pending = False, empty_read_count = 0,
      spurious_tx = 0, tx_desc_fetch = 0, map_seq = 0, calls = []\<rparr>"

definition fresh_queue :: "nat \<Rightarrow> nat \<Rightarrow> u32 \<Rightarrow> efx_tx_queue" where
  "fresh_queue txq_entries min_dmaq_size n =
     efx_init_tx_queue False (snd (efx_probe_tx_queue txq_entries min_dmaq_size True (blank_queue n)))"

definition fresh_channel :: "nat \<Rightarrow> nat \<Rightarrow> nat \<Rightarrow> bool \<Rightarrow> tx_channel" where
  "fresh_channel n txq_entries min_dmaq_size coalesce =
     \<lparr>tx_queues = map (\<lambda>i. fresh_queue txq_entries min_dmaq_size (of_nat i)) [0..<n],
      holdoff_doorbell = False, tx_coalesce_doorbell = coalesce, core_stopped = False\<rparr>"

lemma fresh_queue_ok:
  assumes "0 < txq_entries" and "txq_entries \<le> 2 ^ 31" and "m \<le> 31"
  shows "queue_ok (fresh_queue txq_entries (2 ^ m) n) ({#}, {#})"
    and "txq_entries \<le> length (buffer (fresh_queue txq_entries (2 ^ m) n))"
    and "fill (fresh_queue txq_entries (2 ^ m) n) = 0"
proof -
  obtain k where k: "k \<le> 31" "roundup_pow_of_two txq_entries = 2 ^ k" "txq_entries \<le> 2 ^ k"
    using roundup_pow_of_two_spec [OF assms(1,2)] .
  let ?q = "fresh_queue txq_entries (2 ^ m) n"
  have e: "max (2 ^ k) (2 ^ m) = (2 :: nat) ^ max k m"
    by (simp add: max_def)
  have q: "read_count ?q = 0" "insert_count ?q = 0" "write_count ?q = 0" "calls ?q = []" "tx_desc_fetch ?q = 0"
    "buffer ?q = replicate (2 ^ max k m) empty_tx_buffer" "ptr_mask ?q = of_nat (2 ^ max k m) - 1"
    by (simp_all add: fresh_queue_def efx_init_tx_queue_def efx_probe_tx_queue_def blank_queue_def Let_def k(2) e)
  have "ptr_mask ?q = mask (max k m)"
    unfolding q(7) by (simp add: mask_eq_exp_minus_1)
  moreover show fill: "fill ?q = 0"
    using q by (simp add: fill_def)
  ultimately have shape: "ring_shape ?q"
    using k(1) assms(3) q(6) by (auto simp: ring_shape_def intro!: exI [of _ "max k m"])
  have "ring_ok ?q"
  proof (rule ring_okI [OF shape])
    show "live_slot (buffer ?q ! pos ?q i)" if "i < fill ?q" for i
      using that fill by simp
    show "free_slot (buffer ?q ! pos ?q i)" if "i < length (buffer ?q)" for i
      using pos_less [OF shape, of i] q(6) by (simp add: free_slot_def empty_tx_buffer_def)
  qed
  moreover have "acct ?q {#} ({#}, {#})"
    using fill by (simp add: acct_def pending_def q)
  ultimately show "queue_ok ?q ({#}, {#})"
    using q by (auto simp: queue_ok_def)
  have "txq_entries \<le> 2 ^ max k m"
    using k(3) by (metis e max.coboundedI1)
  then show "txq_entries \<le> length (buffer ?q)"
    using q(6) by simp
qed

subsection \<open>Reachable states\<close>

definition ef100_setup :: "ef100_env \<Rightarrow> nat \<Rightarrow> bool" where
  "ef100_setup env txq_entries \<longleftrightarrow> tx_limit_len (efx_tx env) = None \<and>
     2 * ef100_tx_max_skb_descs \<le> txq_entries \<and> txq_entries \<le> 2 ^ 31 \<and>
     txq_stop_thresh env = stop_thresh (of_nat txq_entries) \<and>
     txq_wake_thresh env = wake_thresh (of_nat txq_entries)"

text \<open>What the kernel guarantees of a packet, whatever the state of the queue.\<close>

definition valid_packet :: "ef100_env \<Rightarrow> sk_buff \<Rightarrow> bool" where
  "valid_packet env skb \<longleftrightarrow> skb_ok 65535 skb \<and> length (frags skb) \<le> MAX_SKB_FRAGS \<and>
     (ef100_segments skb \<noteq> 0 \<longrightarrow> tso_header_ok (efx_tx env) skb \<and>
        (case gso_segment env skb of Inl e \<Rightarrow> e \<noteq> 0 | Inr segs \<Rightarrow> list_all (segment_ok 65535) segs))"

text \<open>
  The network device transmits when the kernel's queue is not stopped; a VF representor transmits
  at any time, on the parent's queues, packets that are not to be segmented. \<open>S i\<close> is the multiset
  of the packets given to queue \<open>i\<close>.
\<close>

inductive tx_reach :: "ef100_env \<Rightarrow> nat \<Rightarrow> tx_channel \<Rightarrow> (nat \<Rightarrow> nat multiset) \<Rightarrow> bool"
  for env :: ef100_env and txq_entries :: nat where
  tx_init: "ef100_setup env txq_entries \<Longrightarrow> m \<le> 31 \<Longrightarrow>
    tx_reach env txq_entries (fresh_channel n txq_entries (2 ^ m) coalesce) (\<lambda>_. {#})"
| tx_xmit: "tx_reach env txq_entries ch S \<Longrightarrow> i < length (tx_queues ch) \<Longrightarrow> \<not> core_stopped ch \<Longrightarrow>
    valid_packet env skb \<Longrightarrow> honest_events env inp \<Longrightarrow>
    ef100_enqueue 2 env inp i None skb ch = Some (rc, ch') \<Longrightarrow>
    tx_reach env txq_entries ch' (S(i := add_mset (skb_id skb) (S i)))"
| tx_rep_xmit: "tx_reach env txq_entries ch S \<Longrightarrow> i < length (tx_queues ch) \<Longrightarrow>
    valid_packet env skb \<Longrightarrow> ef100_segments skb = 0 \<Longrightarrow> honest_events env inp \<Longrightarrow>
    ef100_enqueue 2 env inp i (Some mport) skb ch = Some (rc, ch') \<Longrightarrow>
    tx_reach env txq_entries ch' (S(i := add_mset (skb_id skb) (S i)))"
| tx_poll: "tx_reach env txq_entries ch S \<Longrightarrow> events_ok env events (begin_poll ch) \<Longrightarrow>
    efx_process_channel env events ch = Some ch' \<Longrightarrow> tx_reach env txq_entries ch' S"

definition books :: "(nat \<Rightarrow> nat multiset) \<Rightarrow> nat \<Rightarrow> skb_account" where
  "books S i = (S i, {#})"

lemma credit_books: "credit i skb (books S) = books (S(i := add_mset (skb_id skb) (S i)))"
  by (rule ext) (simp add: credit_def books_def add_skb_def)

definition chan_safe :: "ef100_env \<Rightarrow> nat \<Rightarrow> tx_channel \<Rightarrow> (nat \<Rightarrow> nat multiset) \<Rightarrow> bool" where
  "chan_safe env txq_entries ch S \<longleftrightarrow> ef100_setup env txq_entries \<and> chan_inv env ch (books S) \<and>
     (\<forall>s\<in>set (ring_sizes ch). txq_entries \<le> s)"

lemma stop_thresh_unat:
  assumes "ef100_setup env txq_entries"
  shows "unat (txq_stop_thresh env) = txq_entries - 20" and "40 \<le> txq_entries"
    and "txq_wake_thresh env \<le> txq_stop_thresh env" and "chunk_ok (efx_tx env) 65535"
proof -
  have n: "40 \<le> txq_entries" "txq_entries \<le> 2 ^ 31" "tx_limit_len (efx_tx env) = None"
    "txq_stop_thresh env = stop_thresh (of_nat txq_entries)" "txq_wake_thresh env = wake_thresh (of_nat txq_entries)"
    using assms by (simp_all add: ef100_setup_def ef100_tx_max_skb_descs_def MAX_SKB_FRAGS_def)
  have "unat (of_nat txq_entries :: u32) = txq_entries"
    using n(2) by (simp add: unat_of_nat take_bit_nat_eq_self)
  then show "unat (txq_stop_thresh env) = txq_entries - 20"
    using n(1,4) by (simp add: stop_thresh_def ef100_tx_max_skb_descs_def MAX_SKB_FRAGS_def unat_sub word_le_nat_alt)
  show "40 \<le> txq_entries" "chunk_ok (efx_tx env) 65535"
    using n(1) chunk_ok_ef100 [OF n(3)] by simp_all
  show "txq_wake_thresh env \<le> txq_stop_thresh env"
    unfolding n(4,5) wake_thresh_def by (simp add: word_le_nat_alt unat_div_distrib)
qed

text \<open>On a queue that is not stopped there is room for the largest packet.\<close>

lemma room_unstopped:
  assumes "chan_safe env txq_entries ch S" and "\<not> core_stopped ch" and "i < length (tx_queues ch)"
  shows "fill (chan_q ch i) + 20 \<le> length (buffer (chan_q ch i))"
proof -
  have s: "ef100_setup env txq_entries" "chan_inv env ch (books S)"
    using assms(1) by (simp_all add: chan_safe_def)
  have "fill (chan_q ch i) \<le> unat (txq_stop_thresh env)"
    using s(2) assms(2,3) by (auto simp: chan_inv_def stop_ok_def fill_level_bound)
  moreover have "txq_entries \<le> length (buffer (chan_q ch i))"
    using assms(1,3) by (auto simp: chan_safe_def sizes_nth ring_sizes_def)
  ultimately show ?thesis
    using stop_thresh_unat(1,2) [OF s(1)] by simp
qed

lemma packet_ok_room:
  assumes "valid_packet env skb" and "ef100_segments skb \<noteq> 0 \<longrightarrow> fill q < length (buffer q)"
  shows "packet_ok env 65535 skb q"
  using assms by (simp add: valid_packet_def packet_ok_def)

lemma enqueue_safe:
  assumes "chan_safe env txq_entries ch S" and "i < length (tx_queues ch)" and "valid_packet env skb"
    and "honest_events env inp" and "core_stopped ch \<longrightarrow> ef100_segments skb = 0"
  shows "\<exists>rc ch'. ef100_enqueue 2 env inp i efv skb ch = Some (rc, ch') \<and>
    chan_safe env txq_entries ch' (S(i := add_mset (skb_id skb) (S i)))"
proof -
  have s: "ef100_setup env txq_entries" "chan_inv env ch (books S)"
    using assms(1) by (simp_all add: chan_safe_def)
  have "packet_ok env 65535 skb (chan_q ch i)"
    using room_unstopped [OF assms(1) _ assms(2)] assms(5) by (intro packet_ok_room [OF assms(3)]) auto
  then have "\<exists>rc ch'. ef100_enqueue (Suc (Suc 0)) env inp i efv skb ch = Some (rc, ch') \<and> enqueue_done env ch i skb (books S) ch'"
    by (rule enqueue_spec [OF s(2) assms(2) stop_thresh_unat(4) [OF s(1)] assms(4)])
  then obtain rc ch' where e: "ef100_enqueue 2 env inp i efv skb ch = Some (rc, ch')" "enqueue_done env ch i skb (books S) ch'"
    unfolding numeral_2_eq_2 by blast
  then show ?thesis
    using sizes_enqueue [OF e(1) assms(2)] assms(1)
    by (auto simp: chan_safe_def enqueue_done_def credit_books)
qed

lemma enqueue_safe_step:
  assumes "chan_safe env txq_entries ch S" and "i < length (tx_queues ch)" and "valid_packet env skb"
    and "honest_events env inp" and "core_stopped ch \<longrightarrow> ef100_segments skb = 0"
    and "ef100_enqueue 2 env inp i efv skb ch = Some (rc, ch')"
  shows "chan_safe env txq_entries ch' (S(i := add_mset (skb_id skb) (S i)))"
  using enqueue_safe [OF assms(1-5), of efv] assms(6) by (metis Pair_inject option.inject)

lemma poll_safe:
  assumes "chan_safe env txq_entries ch S" and "events_ok env events (begin_poll ch)"
  shows "\<exists>ch'. efx_process_channel env events ch = Some ch' \<and> chan_safe env txq_entries ch' S"
proof -
  have s: "ef100_setup env txq_entries" "chan_inv env ch (books S)"
    using assms(1) by (simp_all add: chan_safe_def)
  obtain ch' where "efx_process_channel env events ch = Some ch'" "chan_inv env ch' (books S)"
    using poll_spec [OF s(2) assms(2) stop_thresh_unat(3) [OF s(1)]] .
  then show ?thesis
    using assms(1) sizes_poll by (auto simp: chan_safe_def)
qed

lemma fresh_safe:
  assumes "ef100_setup env txq_entries" and "m \<le> 31"
  shows "chan_safe env txq_entries (fresh_channel n txq_entries (2 ^ m) coalesce) (\<lambda>_. {#})"
proof -
  have n: "0 < txq_entries" "txq_entries \<le> 2 ^ 31"
    using assms(1) stop_thresh_unat(2) [OF assms(1)] by (simp_all add: ef100_setup_def)
  note f = fresh_queue_ok [OF n assms(2)]
  have "chan_ok (fresh_channel n txq_entries (2 ^ m) coalesce) (books (\<lambda>_. {#}))"
    using f(1) by (simp add: chan_ok_def chan_q_def fresh_channel_def books_def)
  moreover have "stop_ok env (fresh_channel n txq_entries (2 ^ m) coalesce)"
    using f(3) by (simp add: stop_ok_def fill_level_bound chan_q_def fresh_channel_def)
  moreover have "\<forall>s\<in>set (ring_sizes (fresh_channel n txq_entries (2 ^ m) coalesce)). txq_entries \<le> s"
    using f(2) by (simp add: ring_sizes_def fresh_channel_def)
  ultimately show ?thesis
    using assms(1) by (simp add: chan_safe_def chan_inv_def)
qed

lemma tx_reach_safe: "tx_reach env txq_entries ch S \<Longrightarrow> chan_safe env txq_entries ch S"
proof (induction rule: tx_reach.induct)
  case (tx_init m n coalesce)
  then show ?case by (rule fresh_safe)
next
  case (tx_xmit ch S i skb inp rc ch')
  then show ?case
    using enqueue_safe_step [of env txq_entries ch S i skb inp None rc ch'] by blast
next
  case (tx_rep_xmit ch S i skb inp mport rc ch')
  then show ?case
    using enqueue_safe_step [of env txq_entries ch S i skb inp "Some mport" rc ch'] by blast
next
  case (tx_poll ch S events ch')
  then show ?case
    using poll_safe [of env txq_entries ch S events] by auto
qed

subsection \<open>No packet finds the ring full\<close>

lemma mapped_not_busy:
  assumes inv: "chan_inv env ch Y" and i: "i < length (tx_queues ch)" and pre: "begun (chan_q ch i) pre q"
    and lim: "tx_limit_len (efx_tx env) = None" and N: "chunk_ok (efx_tx env) N"
    and skb: "skb_ok N skb" "segs \<noteq> 0 \<longrightarrow> tso_header_ok (efx_tx env) skb"
    and room: "fill (chan_q ch i) + length pre + (if efv = None then 0 else 1) + 2 + length (frags skb) \<le> length (buffer (chan_q ch i))"
    and enq: "ef100_enqueue_mapped env inp i efv n segs skb q ch = Some (rc, ch')"
  shows "rc \<noteq> - EBUSY \<and> rc \<noteq> - ENOSPC"
proof (cases "reserve_prefix efv q")
  case None
  have q: "ring_ok q" "fill q = fill (chan_q ch i) + length pre" "length (buffer q) = length (buffer (chan_q ch i))"
    using pre extends_fill by (auto simp: begun_def extends_def ring_frame_def)
  have "efx_tx_buffer_in_use (tx_slot q (efx_tx_queue_get_insert_index q))"
    using None by (auto simp: reserve_prefix_def split: option.splits if_splits)
  then show ?thesis
    using insert_slot_in_use [OF q(1)] q(2,3) room by simp
next
  case (Some q1)
  let ?q0 = "chan_q ch i"
  obtain opt where q1: "begun ?q0 (pre @ opt) q1" "length opt = (if efv = None then 0 else 1)"
    using reserve_prefix_spec [OF pre Some] .
  have "queue_ok ?q0 (Y i)"
    using inv i by (simp add: chan_inv_def chan_okD)
  then obtain L where L: "acct ?q0 L (Y i)"
    by (rule queue_okE)
  have a1: "acct q1 L (Y i)" "ring_ok q1"
    using L q1(1) bare_held [of "pre @ opt"] by (auto simp: begun_def acct_def extends_def)
  obtain rc' q2 new where m: "efx_tx_map_data (efx_tx env) skb segs q1 = Some (rc', q2)"
      "map_outcome (efx_tx env) (2 + length (frags skb)) q1 skb L (Y i) (packet_bytes (efx_tx env) (map_seq q1) skb) rc' q2 new"
    using map_data_spec [OF a1(2) N skb a1(1)] by blast
  have "rc' \<noteq> - EBUSY"
  proof
    assume "rc' = - EBUSY"
    then have b: "length new < 2 + length (frags skb)" "fill q2 = length (buffer q2)"
      using m(2) lim by (auto simp: map_outcome_def errno_defs)
    have "fill q1 = fill ?q0 + length (pre @ opt)" "length (buffer q1) = length (buffer ?q0)"
      using q1(1) extends_fill by (auto simp: begun_def extends_def ring_frame_def)
    moreover have "fill q2 = fill q1 + length new" "length (buffer q2) = length (buffer q1)"
      using m(2) extends_fill by (auto simp: map_outcome_def extends_def ring_frame_def)
    ultimately show False
      using b room q1(2) by (simp split: if_splits)
  qed
  moreover have "rc = rc'"
    using enq Some m(1) by (auto simp: ef100_enqueue_mapped_def Let_def split: if_splits option.splits)
  moreover have "rc' \<noteq> - ENOSPC"
    using m(2) by (auto simp: map_outcome_def errno_defs)
  ultimately show ?thesis
    by simp
qed

end
