(* ===== verification/Ef100_Tx_Desc.thy ===== *)
theory Ef100_Tx_Desc
  imports Ef100_Tx_Inv
begin

section \<open>What the descriptors in the hardware ring say\<close>

text \<open>
  \<open>parse_desc\<close> reads a descriptor the way the register definitions give its fields;
  \<open>expected_descs\<close> is the list of descriptors that a packet's buffers are to have. The lemmas show
  that the loop of \<open>ef100_tx_make_descriptors\<close> stores one descriptor for each new buffer, in ring
  order across the wrap, and leaves the others alone.
\<close>

datatype descriptor =
    Prefix_desc u64
  | Send_desc u64 u64 u64
  | Tso_desc u64 u64 u64 u64
  | Seg_desc u64 u64

definition parse_desc :: "oword \<Rightarrow> descriptor" where
  "parse_desc d =
     (let ty = EFX_OWORD_FIELD d ESF_GZ_TX_DESC_TYPE in
      if ty = ESE_GZ_TX_DESC_TYPE_PREFIX then Prefix_desc (EFX_OWORD_FIELD d ESF_GZ_TX_PREFIX_EGRESS_MPORT)
      else if ty = ESE_GZ_TX_DESC_TYPE_TSO
      then Tso_desc (EFX_OWORD_FIELD d ESF_GZ_TX_TSO_MSS) (EFX_OWORD_FIELD d ESF_GZ_TX_TSO_HDR_LEN_W)
             (EFX_OWORD_FIELD d ESF_GZ_TX_TSO_PAYLOAD_NUM_SEGS) (EFX_OWORD_FIELD d ESF_GZ_TX_TSO_PAYLOAD_LEN)
      else if ty = ESE_GZ_TX_DESC_TYPE_SEG
      then Seg_desc (EFX_OWORD_FIELD d ESF_GZ_TX_SEG_ADDR) (EFX_OWORD_FIELD d ESF_GZ_TX_SEG_LEN)
      else Send_desc (EFX_OWORD_FIELD d ESF_GZ_TX_SEND_ADDR) (EFX_OWORD_FIELD d ESF_GZ_TX_SEND_LEN)
             (EFX_OWORD_FIELD d ESF_GZ_TX_SEND_NUM_SEGS))"

definition seg_of :: "efx_tx_buffer \<Rightarrow> descriptor" where
  "seg_of b = Seg_desc (tb_addr b) (ucast (tb_len b))"

text \<open>The first of the buffers is the TSO buffer when the hardware is to segment the packet.\<close>

definition packet_descs :: "sk_buff \<Rightarrow> u32 \<Rightarrow> efx_tx_buffer list \<Rightarrow> descriptor list" where
  "packet_descs skb segs bs =
     (if segs \<noteq> 0
      then Tso_desc (ucast (gso_size skb)) (ucast (tb_len (hd bs) div 2)) (of_nat (length bs - 2))
             (ucast (skb_len skb - ucast (tb_len (hd bs))))
      else Send_desc (tb_addr (hd bs)) (ucast (tb_len (hd bs))) (of_nat (length bs)))
     # map seg_of (tl bs)"

definition expected_descs :: "sk_buff \<Rightarrow> u32 \<Rightarrow> u16 option \<Rightarrow> efx_tx_buffer list \<Rightarrow> descriptor list" where
  "expected_descs skb segs efv bs =
     (case efv of
        None \<Rightarrow> packet_descs skb segs bs
      | Some mport \<Rightarrow> Prefix_desc (ucast mport) # packet_descs skb segs (tl bs))"

subsection \<open>One descriptor\<close>

lemma insert_fields_append:
  "EFX_INSERT_FIELDS64 mn mx (fs @ gs) = EFX_INSERT_FIELDS64 mn mx fs OR EFX_INSERT_FIELDS64 mn mx gs"
  by (induction fs) (auto simp: or.assoc)

lemma or_populate: "EFX_OR_OWORD (EFX_POPULATE_OWORD fs) (EFX_POPULATE_OWORD gs) = EFX_POPULATE_OWORD (fs @ gs)"
  by (simp add: EFX_OR_OWORD_def EFX_POPULATE_OWORD_def insert_fields_append)

lemma populate_zero: "EFX_POPULATE_OWORD ((f, 0) # fs) = EFX_POPULATE_OWORD fs"
  by (simp add: EFX_POPULATE_OWORD_def EFX_INSERT_NATIVE64_def)

definition csum_fields :: "sk_buff \<Rightarrow> (efx_field \<times> u64) list" where
  "csum_fields s = (if csum_partial s
     then [(ESF_GZ_TX_SEND_CSO_PARTIAL_EN, 1),
           (ESF_GZ_TX_SEND_CSO_PARTIAL_START_W, ucast (drop_bit 1 (csum_start s))),
           (ESF_GZ_TX_SEND_CSO_PARTIAL_CSUM_W, ucast (drop_bit 1 (csum_offset s)))] else [])"

definition vlan_fields :: "sk_buff \<Rightarrow> (efx_field \<times> u64) list" where
  "vlan_fields s = [(ESF_GZ_TX_SEND_VLAN_INSERT_EN, 1), (ESF_GZ_TX_SEND_VLAN_INSERT_TCI, ucast (vlan_tci s))]"

definition send_fields :: "ef100_env \<Rightarrow> sk_buff \<Rightarrow> efx_tx_buffer \<Rightarrow> u32 \<Rightarrow> (efx_field \<times> u64) list" where
  "send_fields env s b n =
     [(ESF_GZ_TX_DESC_TYPE, 0), (ESF_GZ_TX_SEND_NUM_SEGS, ucast n), (ESF_GZ_TX_SEND_LEN, ucast (tb_len b)),
      (ESF_GZ_TX_SEND_ADDR, tb_addr b)]
     @ (if feat_hw_csum env then csum_fields s else [])
     @ (if feat_hw_vlan_tx env \<and> vlan_present s then vlan_fields s else [])"

lemma send_desc_fields: "ef100_make_send_desc env (Some s) b n = EFX_POPULATE_OWORD (send_fields env s b n)"
  by (simp add: ef100_make_send_desc_def send_fields_def populate_zero ef100_set_tx_csum_partial_def
      ef100_set_tx_hw_vlan_def or_populate csum_fields_def vlan_fields_def Let_def)

definition send_fits :: "sk_buff \<Rightarrow> efx_tx_buffer \<Rightarrow> bool" where
  "send_fits s b \<longleftrightarrow> unat (tb_len b) < 2 ^ 14 \<and> unat (csum_start s) < 2 ^ 10 \<and> unat (csum_offset s) < 2 ^ 6"

definition tso_fits :: "sk_buff \<Rightarrow> efx_tx_buffer \<Rightarrow> bool" where
  "tso_fits s b \<longleftrightarrow> unat (gso_size s) < 2 ^ 14 \<and> unat (tb_len b) < 2 ^ 9 \<and>
     unat (skb_len s - ucast (tb_len b)) < 2 ^ 22 \<and> unat (network_off s) < 2 ^ 9 \<and> unat (transport_off s) < 2 ^ 9"

lemma unat_half: "unat (ucast (drop_bit 1 (w :: 'a::len word)) :: 'b::len word) \<le> unat w div 2"
proof -
  have "unat w < 2 ^ LENGTH('a)"
    by (rule unsigned_less)
  then have "unat w div 2 = 0" if "LENGTH('a) = 1"
    using that by (metis div_less power_one_right)
  then have "unat (drop_bit 1 w) = unat w div 2"
    by (auto simp: drop_bit_eq_div unat_div_distrib)
  then show ?thesis
    using take_bit_nat_less_eq_self [of "LENGTH('b)" "unat (drop_bit 1 w)"] by (simp add: unsigned_ucast_eq)
qed

lemma unat_ucast_le: "unat (ucast (w :: 'a::len word) :: 'b::len word) \<le> unat w"
  by (simp add: unsigned_ucast_eq take_bit_nat_less_eq_self)

lemma half_fits: "unat (w :: 'a::len word) < 2 ^ Suc n \<Longrightarrow> unat (ucast (drop_bit 1 w) :: 'b::len word) < 2 ^ n"
  using unat_half [of w, where 'b = 'b] by simp

lemma ucast_fits: "unat (w :: 'a::len word) < 2 ^ n \<Longrightarrow> unat (ucast w :: 'b::len word) < 2 ^ n"
  using unat_ucast_le [of w, where 'b = 'b] by simp

lemma unat64_less: "unat (w :: u64) < 18446744073709551616"
  by (rule order_less_le_trans [OF unsigned_less]) simp

lemma ucast16_fits: "unat (ucast (w :: u16) :: u64) < 65536"
proof -
  have "unat w < 65536"
    by (rule order_less_le_trans [OF unsigned_less]) simp
  then show ?thesis
    using unat_ucast_le [of w, where 'b = 64] by (rule le_less_trans [rotated])
qed

lemma send_wf:
  assumes "send_fits s b" and "unat n < 32"
  shows "ofields_wf (send_fields env s b n)"
proof -
  have "unat (ucast (tb_len b) :: u64) < 16384" "unat (ucast n :: u64) < 32"
    "unat (ucast (drop_bit 1 (csum_start s)) :: u64) < 512" "unat (ucast (drop_bit 1 (csum_offset s)) :: u64) < 32"
    using assms ucast_fits [of "tb_len b" 14] ucast_fits [of n 5] half_fits [of "csum_start s" 9] half_fits [of "csum_offset s" 5]
    by (simp_all add: send_fits_def)
  then show ?thesis
    using ucast16_fits [of "vlan_tci s"] unat64_less [of "tb_addr b"]
    by (simp add: send_fields_def csum_fields_def vlan_fields_def ofits_def ofield_ok_def odisjoint_def)
qed

lemma parse_send:
  assumes "send_fits s b" and "unat n < 32"
  shows "parse_desc (ef100_make_send_desc env (Some s) b n) = Send_desc (tb_addr b) (ucast (tb_len b)) (ucast n)"
proof -
  note f = oword_field_populate [OF send_wf [OF assms, of env]]
  have "EFX_OWORD_FIELD (EFX_POPULATE_OWORD (send_fields env s b n)) ESF_GZ_TX_DESC_TYPE = 0"
    "EFX_OWORD_FIELD (EFX_POPULATE_OWORD (send_fields env s b n)) ESF_GZ_TX_SEND_ADDR = tb_addr b"
    "EFX_OWORD_FIELD (EFX_POPULATE_OWORD (send_fields env s b n)) ESF_GZ_TX_SEND_LEN = ucast (tb_len b)"
    "EFX_OWORD_FIELD (EFX_POPULATE_OWORD (send_fields env s b n)) ESF_GZ_TX_SEND_NUM_SEGS = ucast n"
    by (rule f, simp add: send_fields_def)+
  then show ?thesis
    by (simp add: send_desc_fields parse_desc_def)
qed

lemma parse_seg: "parse_desc (ef100_make_seg_desc b) = seg_of b"
proof -
  let ?fs = "[(ESF_GZ_TX_DESC_TYPE, ESE_GZ_TX_DESC_TYPE_SEG), (ESF_GZ_TX_SEG_LEN, ucast (tb_len b)), (ESF_GZ_TX_SEG_ADDR, tb_addr b)]"
  have wf: "ofields_wf ?fs"
    using ucast16_fits [of "tb_len b"] unat64_less [of "tb_addr b"] by (simp add: ofits_def ofield_ok_def odisjoint_def)
  have "EFX_OWORD_FIELD (EFX_POPULATE_OWORD ?fs) ESF_GZ_TX_DESC_TYPE = ESE_GZ_TX_DESC_TYPE_SEG"
    "EFX_OWORD_FIELD (EFX_POPULATE_OWORD ?fs) ESF_GZ_TX_SEG_LEN = ucast (tb_len b)"
    "EFX_OWORD_FIELD (EFX_POPULATE_OWORD ?fs) ESF_GZ_TX_SEG_ADDR = tb_addr b"
    by (rule oword_field_populate [OF wf], simp)+
  then show ?thesis
    by (simp add: ef100_make_seg_desc_def parse_desc_def seg_of_def)
qed

lemma parse_prefix: "parse_desc (ef100_make_prefix_desc mport) = Prefix_desc (ucast mport)"
proof -
  let ?fs = "[(ESF_GZ_TX_DESC_TYPE, ESE_GZ_TX_DESC_TYPE_PREFIX), (ESF_GZ_TX_PREFIX_EGRESS_MPORT, ucast mport),
    (ESF_GZ_TX_PREFIX_EGRESS_MPORT_EN, 1)]"
  have wf: "ofields_wf ?fs"
    using ucast16_fits [of mport] by (simp add: ofits_def ofield_ok_def odisjoint_def)
  have "EFX_OWORD_FIELD (EFX_POPULATE_OWORD ?fs) ESF_GZ_TX_DESC_TYPE = ESE_GZ_TX_DESC_TYPE_PREFIX"
    "EFX_OWORD_FIELD (EFX_POPULATE_OWORD ?fs) ESF_GZ_TX_PREFIX_EGRESS_MPORT = ucast mport"
    by (rule oword_field_populate [OF wf], simp)+
  then show ?thesis
    by (simp add: ef100_make_prefix_desc_def parse_desc_def)
qed

lemma parse_tso:
  assumes "tso_fits s b" and "unat (n - 2) < 2 ^ 10"
  shows "parse_desc (ef100_make_tso_desc env s b n) =
    Tso_desc (ucast (gso_size s)) (ucast (drop_bit 1 (tb_len b))) (ucast (n - 2)) (ucast (skb_len s - ucast (tb_len b)))"
proof -
  define fs where "fs = [(ESF_GZ_TX_DESC_TYPE, ESE_GZ_TX_DESC_TYPE_TSO),
     (ESF_GZ_TX_TSO_MSS, ucast (gso_size s)), (ESF_GZ_TX_TSO_HDR_NUM_SEGS, 1),
     (ESF_GZ_TX_TSO_PAYLOAD_NUM_SEGS, ucast (n - 2)),
     (ESF_GZ_TX_TSO_HDR_LEN_W, ucast (drop_bit 1 (tb_len b))),
     (ESF_GZ_TX_TSO_PAYLOAD_LEN, ucast (skb_len s - ucast (tb_len b))), (ESF_GZ_TX_TSO_CSO_INNER_L4, 1),
     (ESF_GZ_TX_TSO_INNER_L3_OFF_W, ucast (drop_bit 1 (network_off s))),
     (ESF_GZ_TX_TSO_INNER_L4_OFF_W, ucast (drop_bit 1 (transport_off s))),
     (ESF_GZ_TX_TSO_ED_INNER_IP4_ID, if feat_tso_mangleid env \<or> gso_fixedid s
        then ESE_GZ_TX_DESC_IP4_ID_NO_OP else ESE_GZ_TX_DESC_IP4_ID_INC_MOD16),
     (ESF_GZ_TX_TSO_ED_INNER_IP_LEN, 1),
     (ESF_GZ_TX_TSO_VLAN_INSERT_EN, ucast (if feat_hw_vlan_tx env then of_bool (vlan_present s) else 0 :: u16)),
     (ESF_GZ_TX_TSO_VLAN_INSERT_TCI, ucast (vlan_tci s) :: u64)]"
  have "unat (ucast (gso_size s) :: u64) < 16384" "unat (ucast (n - 2) :: u64) < 1024"
    "unat (ucast (drop_bit 1 (tb_len b)) :: u64) < 256" "unat (ucast (skb_len s - ucast (tb_len b)) :: u64) < 4194304"
    "unat (ucast (drop_bit 1 (network_off s)) :: u64) < 256" "unat (ucast (drop_bit 1 (transport_off s)) :: u64) < 256"
    using assms ucast_fits [of "gso_size s" 14] ucast_fits [of "n - 2" 10] half_fits [of "tb_len b" 8]
      ucast_fits [of "skb_len s - ucast (tb_len b)" 22] half_fits [of "network_off s" 8] half_fits [of "transport_off s" 8]
    by (simp_all add: tso_fits_def)
  then have wf: "ofields_wf fs"
    using ucast16_fits [of "vlan_tci s"] by (simp add: fs_def ofits_def ofield_ok_def odisjoint_def)
  have "EFX_OWORD_FIELD (EFX_POPULATE_OWORD fs) ESF_GZ_TX_DESC_TYPE = ESE_GZ_TX_DESC_TYPE_TSO"
    "EFX_OWORD_FIELD (EFX_POPULATE_OWORD fs) ESF_GZ_TX_TSO_MSS = ucast (gso_size s)"
    "EFX_OWORD_FIELD (EFX_POPULATE_OWORD fs) ESF_GZ_TX_TSO_HDR_LEN_W = ucast (drop_bit 1 (tb_len b))"
    "EFX_OWORD_FIELD (EFX_POPULATE_OWORD fs) ESF_GZ_TX_TSO_PAYLOAD_NUM_SEGS = ucast (n - 2)"
    "EFX_OWORD_FIELD (EFX_POPULATE_OWORD fs) ESF_GZ_TX_TSO_PAYLOAD_LEN = ucast (skb_len s - ucast (tb_len b))"
    by (rule oword_field_populate [OF wf], simp add: fs_def)+
  moreover have "ef100_make_tso_desc env s b n = EFX_POPULATE_OWORD fs"
    by (simp add: ef100_make_tso_desc_def fs_def Let_def)
  ultimately show ?thesis
    by (simp add: parse_desc_def)
qed

subsection \<open>The loop over the new buffers\<close>

definition ring_index :: "efx_tx_queue \<Rightarrow> u32 \<Rightarrow> nat \<Rightarrow> nat" where
  "ring_index q wc j = unat ((wc + of_nat j) AND ptr_mask q)"

definition ring_descs :: "u32 \<Rightarrow> nat \<Rightarrow> efx_tx_queue \<Rightarrow> oword list" where
  "ring_descs wc n q = map (\<lambda>j. txd q ! ring_index q wc j) [0..<n]"

definition txd_shape :: "efx_tx_queue \<Rightarrow> nat \<Rightarrow> bool" where
  "txd_shape q k \<longleftrightarrow> k \<le> 31 \<and> ptr_mask q = mask k \<and> 2 ^ k \<le> length (txd q)"

lemma ring_index_mod: "txd_shape q k \<Longrightarrow> ring_index q wc j = (unat wc + j) mod 2 ^ k"
  by (simp add: ring_index_def txd_shape_def unat_add_nat_mod)

lemma ring_index_Suc: "ring_index q (wc + 1) j = ring_index q wc (Suc j)"
  by (simp add: ring_index_def ac_simps)

lemma write_txd_fields [simp]:
  "ptr_mask (write_txd wc d q) = ptr_mask q" "insert_count (write_txd wc d q) = insert_count q"
  "buffer (write_txd wc d q) = buffer q" "tx_slot (write_txd wc d q) i = tx_slot q i"
  "length (txd (write_txd wc d q)) = length (txd q)" "write_count (write_txd wc d q) = write_count q"
  "txd (write_txd wc d q) = (txd q)[ring_index q wc 0 := d]"
  by (simp_all add: write_txd_def tx_slot_def ring_index_def)

lemma txd_shape_write [simp]: "txd_shape (write_txd wc d q) k = txd_shape q k"
  by (simp add: txd_shape_def)

lemma ring_index_write [simp]: "ring_index (write_txd wc d q) = ring_index q"
  by (simp add: ring_index_def [abs_def])

definition written :: "(nat \<Rightarrow> oword) \<Rightarrow> u32 \<Rightarrow> nat \<Rightarrow> efx_tx_queue \<Rightarrow> efx_tx_queue \<Rightarrow> bool" where
  "written f wc n q q' \<longleftrightarrow> ptr_mask q' = ptr_mask q \<and> (\<forall>j<n. txd q' ! ring_index q wc j = f j) \<and>
     (\<forall>x. x \<notin> ring_index q wc ` {..<n} \<longrightarrow> txd q' ! x = txd q ! x)"

lemma written_Suc:
  assumes "txd_shape q k" and "Suc n \<le> 2 ^ k" and "written f (wc + 1) n (write_txd wc d q) q'"
  shows "written (\<lambda>j. if j = 0 then d else f (j - 1)) wc (Suc n) q q'"
proof -
  have other: "txd q' ! x = (txd q)[ring_index q wc 0 := d] ! x" if "x \<notin> ring_index q (wc + 1) ` {..<n}" for x
    using assms(3) that by (simp add: written_def)
  have "ring_index q wc 0 \<noteq> ring_index q wc (Suc j)" if "j < n" for j
    using mod_add_inj [of "unat wc" 0 "2 ^ k" "Suc j"] that assms(1,2) by (auto simp: ring_index_mod)
  then have "txd q' ! ring_index q wc 0 = (txd q)[ring_index q wc 0 := d] ! ring_index q wc 0"
    by (intro other) (auto simp: ring_index_Suc)
  moreover have "ring_index q wc 0 < length (txd q)"
    using assms(1) by (simp add: ring_index_mod) (simp add: txd_shape_def order_less_le_trans [OF mod_less_divisor])
  ultimately have first: "txd q' ! ring_index q wc 0 = d"
    by simp
  have rest: "txd q' ! ring_index q wc (Suc j) = f j" if "j < n" for j
    using assms(3) that by (simp add: written_def ring_index_Suc)
  have out: "txd q' ! x = txd q ! x" if "x \<notin> ring_index q wc ` {..<Suc n}" for x
  proof -
    have "x \<notin> ring_index q (wc + 1) ` {..<n}" "ring_index q wc 0 \<noteq> x"
      using that by (auto simp: ring_index_Suc)
    then show ?thesis
      using other [of x] by simp
  qed
  show ?thesis
    using first rest out assms(3) by (auto simp: written_def gr0_conv_Suc split: if_splits)
qed

lemma small_nat: "n < 2 ^ 32 \<Longrightarrow> unat (of_nat n :: u32) = n"
  by (simp add: unat_of_nat take_bit_nat_eq_self)

lemma of_nat_nonzero:
  assumes "Suc n < 2 ^ 32"
  shows "of_nat (Suc n) \<noteq> (0 :: u32)"
proof -
  define m where "m = Suc n"
  then have "unat (of_nat m :: u32) = m"
    using assms by (intro small_nat) simp
  then show ?thesis
    by (metis m_def nat.distinct(2) unsigned_0)
qed

definition loop_desc :: "ef100_env \<Rightarrow> sk_buff option \<Rightarrow> u32 \<Rightarrow> u64 \<Rightarrow> u32 \<Rightarrow> efx_tx_queue \<Rightarrow> nat \<Rightarrow> oword" where
  "loop_desc env skb nr ty wc q j =
     ef100_desc env skb nr
       (if j = 0 then ty else if skb \<noteq> None then ESE_GZ_TX_DESC_TYPE_SEG else ESE_GZ_TX_DESC_TYPE_SEND)
       (tx_slot q (ring_index q wc j))"

lemma desc_loop_written:
  assumes "txd_shape q k" and "Suc n \<le> 2 ^ k" and "insert_count q = wc + of_nat (Suc n)"
  shows "written (loop_desc env skb nr ty wc q) wc (Suc n) q (snd (desc_loop env skb nr ty wc q))"
  using assms
proof (induction n arbitrary: ty wc q)
  case 0
  let ?q = "write_txd wc (ef100_desc env skb nr ty (tx_slot q (ring_index q wc 0))) q"
  have "snd (desc_loop env skb nr ty wc q) = ?q"
    using 0 by (subst desc_loop.simps) (simp add: Let_def ring_index_def)
  moreover have "written (loop_desc env skb nr ty wc q) (wc + 1) 0 ?q ?q"
    by (simp add: written_def)
  note written_Suc [OF 0(1,2) this]
  ultimately show ?case
    by (simp add: written_def loop_desc_def)
next
  case (Suc n)
  let ?ty = "if skb \<noteq> None then ESE_GZ_TX_DESC_TYPE_SEG else ESE_GZ_TX_DESC_TYPE_SEND"
  let ?d = "ef100_desc env skb nr ty (tx_slot q (ring_index q wc 0))"
  let ?q = "write_txd wc ?d q"
  have "Suc n < 2 ^ 32"
    using Suc.prems(1,2) power_increasing [of k 31 "2 :: nat"] by (simp add: txd_shape_def)
  then have "of_nat (Suc n) \<noteq> (0 :: u32)"
    by (rule of_nat_nonzero)
  then have "wc + 1 \<noteq> insert_count q"
    using Suc.prems(3) by simp
  then have "desc_loop env skb nr ty wc q = desc_loop env skb nr ?ty (wc + 1) ?q"
    by (subst desc_loop.simps) (simp add: Let_def ring_index_def)
  moreover have "written (loop_desc env skb nr ?ty (wc + 1) ?q) (wc + 1) (Suc n) ?q (snd (desc_loop env skb nr ?ty (wc + 1) ?q))"
    using Suc.prems by (intro Suc.IH) simp_all
  moreover have "(\<lambda>j. if j = 0 then ?d else loop_desc env skb nr ?ty (wc + 1) ?q (j - 1)) = loop_desc env skb nr ty wc q"
    by (rule ext) (auto simp: loop_desc_def ring_index_Suc gr0_conv_Suc)
  ultimately show ?case
    using written_Suc [OF Suc.prems(1,2), of "loop_desc env skb nr ?ty (wc + 1) ?q" wc ?d] by simp
qed

subsection \<open>The descriptors of a packet\<close>

text \<open>The values of a packet's first descriptor fit in their fields.\<close>

definition first_fits :: "sk_buff \<Rightarrow> u32 \<Rightarrow> efx_tx_buffer list \<Rightarrow> bool" where
  "first_fits skb segs bs \<longleftrightarrow> bs \<noteq> [] \<and>
     (if segs \<noteq> 0 then 2 \<le> length bs \<and> length bs < 1026 \<and> tso_fits skb (hd bs)
      else length bs < 32 \<and> send_fits skb (hd bs))"

lemma ucast_of_nat: "n < 2 ^ 32 \<Longrightarrow> ucast (of_nat n :: u32) = (of_nat n :: u64)"
  by (rule word_unat_eq_iff [THEN iffD2])
    (simp add: unsigned_ucast_eq unat_of_nat take_bit_nat_eq_self)

lemma map_upt_nth:
  assumes "\<And>j. j < length cs \<Longrightarrow> f (Suc j) = g (cs ! j)"
  shows "map f [0..<Suc (length cs)] = f 0 # map g cs"
proof -
  have "map (\<lambda>j. f (Suc j)) [0..<length cs] = map g cs"
    using assms by (intro nth_equalityI) simp_all
  then show ?thesis
    by (simp only: map_upt_Suc)
qed

lemma parse_loop:
  assumes "first_fits skb segs bs" and "\<And>j. j < length bs \<Longrightarrow> tx_slot q (ring_index q wc j) = bs ! j"
  shows "map (\<lambda>j. parse_desc (loop_desc env (Some skb) (of_nat (length bs))
      (if segs \<noteq> 0 then ESE_GZ_TX_DESC_TYPE_TSO else ESE_GZ_TX_DESC_TYPE_SEND) wc q j)) [0..<length bs] = packet_descs skb segs bs"
proof -
  obtain b cs where bs: "bs = b # cs"
    using assms(1) by (cases bs) (auto simp: first_fits_def)
  let ?ty = "if segs \<noteq> 0 then ESE_GZ_TX_DESC_TYPE_TSO else ESE_GZ_TX_DESC_TYPE_SEND"
  let ?f = "\<lambda>j. parse_desc (loop_desc env (Some skb) (of_nat (length bs)) ?ty wc q j)"
  have len: "length bs < 2 ^ 32"
    using assms(1) by (auto simp: first_fits_def split: if_splits)
  have n: "unat (of_nat (length bs) :: u32) = length bs" "ucast (of_nat (length bs) :: u32) = (of_nat (length bs) :: u64)"
    using len by (simp_all add: unat_of_nat take_bit_nat_eq_self ucast_of_nat del: length_greater_0_conv)
  have "?f (Suc j) = seg_of (cs ! j)" if "j < length cs" for j
    using assms(2) [of "Suc j"] that by (simp add: loop_desc_def ef100_desc_def parse_seg bs)
  then have all: "map ?f [0..<Suc (length cs)] = ?f 0 # map seg_of cs"
    by (rule map_upt_nth)
  have slot: "tx_slot q (ring_index q wc 0) = b"
    using assms(2) [of 0] by (simp add: bs)
  have hd: "?f 0 = hd (packet_descs skb segs bs)"
  proof (cases "segs = 0")
    case True
    then have "send_fits skb b" "unat (of_nat (length bs) :: u32) < 32"
      using assms(1) unfolding n(1) by (simp_all add: first_fits_def bs)
    note parse_send [OF this, of env]
    then show ?thesis
      using True slot n(2) by (simp add: loop_desc_def ef100_desc_def packet_descs_def bs)
  next
    case False
    then have fits: "tso_fits skb b" "2 \<le> length bs" "length bs < 1026"
      using assms(1) by (simp_all add: first_fits_def bs)
    have m: "of_nat (length bs) - 2 = (of_nat (length bs - 2) :: u32)"
      using fits(2) by (simp add: of_nat_diff)
    have "unat (of_nat (length bs - 2) :: u32) = length bs - 2"
      using len by (intro small_nat) simp
    then have "unat (of_nat (length bs) - 2 :: u32) < 2 ^ 10"
      unfolding m using fits(3) by simp
    note p = parse_tso [OF fits(1) this, of env]
    have "ucast (of_nat (length bs) - 2 :: u32) = (of_nat (length bs - 2) :: u64)"
      unfolding m using len by (intro ucast_of_nat) simp
    with p show ?thesis
      using False slot by (simp add: loop_desc_def ef100_desc_def packet_descs_def bs drop_bit_eq_div)
  qed
  then show ?thesis
    using all by (simp only: bs list.size) (simp add: packet_descs_def)
qed

lemma new_slots:
  assumes "ring_ok q" and "pending q = old @ bs" and "write_count q = read_count q + of_nat (length old)"
  shows "insert_count q = write_count q + of_nat (length bs)"
    and "j < length bs \<Longrightarrow> tx_slot q (ring_index q (write_count q) j) = bs ! j"
proof -
  have fill: "fill q = length old + length bs"
    using arg_cong [OF assms(2), of length] by simp
  then show "insert_count q = write_count q + of_nat (length bs)"
    using insert_count_eq [of q] assms(3) by simp
  assume j: "j < length bs"
  have "tx_slot q (ring_index q (write_count q) j) = buffer q ! pos q (length old + j)"
    by (simp add: tx_slot_def ring_index_def pos_def assms(3) ac_simps)
  also have "\<dots> = pending q ! (length old + j)"
    using j fill by (simp add: pending_nth)
  finally show "tx_slot q (ring_index q (write_count q) j) = bs ! j"
    by (simp add: assms(2) nth_append)
qed

lemma written_descs:
  "written f wc n q q' \<Longrightarrow> ring_descs wc n (q'\<lparr>write_count := m\<rparr>) = map f [0..<n]"
  by (simp add: ring_descs_def written_def ring_index_def)

lemma descriptors_written_as:
  assumes "ring_ok q" and "length (buffer q) \<le> length (txd q)" and "pending q = old @ bs"
    and "write_count q = read_count q + of_nat (length old)"
    and "case efv of None \<Rightarrow> first_fits skb segs bs | Some _ \<Rightarrow> bs \<noteq> [] \<and> first_fits skb segs (tl bs)"
    and q'_def: "q' = ef100_tx_make_descriptors env (Some skb) segs efv q"
  shows "map parse_desc (ring_descs (write_count q) (length bs) q') = expected_descs skb segs efv bs"
    and "x \<notin> ring_index q (write_count q) ` {..<length bs} \<Longrightarrow> txd q' ! x = txd q ! x"
proof -
  define ty where "ty = (if segs \<noteq> 0 then ESE_GZ_TX_DESC_TYPE_TSO else ESE_GZ_TX_DESC_TYPE_SEND)"
  obtain k where k: "txd_shape q k" "length (buffer q) = 2 ^ k"
    using assms(1,2) ring_ok_shape [OF assms(1)] by (auto simp: ring_shape_def txd_shape_def)
  have le: "length bs \<le> 2 ^ k" "length bs < 2 ^ 32"
    using arg_cong [OF assms(3), of length] ring_ok_fill [OF assms(1)] k
      power_increasing [of k 31 "2 :: nat"] by (simp_all add: txd_shape_def)
  note ins = new_slots(1) [OF assms(1,3,4)] and slot = new_slots(2) [OF assms(1,3,4)]
  have res: "map parse_desc (ring_descs (write_count q) (length bs) q') = expected_descs skb segs efv bs \<and>
      (\<forall>x. x \<notin> ring_index q (write_count q) ` {..<length bs} \<longrightarrow> txd q' ! x = txd q ! x)"
  proof (cases efv)
    case None
    then have fits: "first_fits skb segs bs"
      using assms(5) by simp
    then obtain n where n: "length bs = Suc n"
      by (cases bs) (auto simp: first_fits_def)
    let ?r = "desc_loop env (Some skb) (of_nat (length bs)) ty (write_count q) q"
    have "of_nat (length bs) \<noteq> (0 :: u32)"
      using of_nat_nonzero [of n] le(2) n by simp
    then have q': "q' = (snd ?r)\<lparr>write_count := fst ?r\<rparr>"
      using None ins by (simp add: q'_def make_descriptors_eq Let_def ty_def)
    have w: "written (loop_desc env (Some skb) (of_nat (length bs)) ty (write_count q) q) (write_count q) (length bs) q (snd ?r)"
      using desc_loop_written [OF k(1), of n "write_count q"] le(1) ins n by simp
    show ?thesis
      using parse_loop [OF fits, of q "write_count q" env, folded ty_def] slot w None
      by (simp add: q' written_descs [OF w] comp_def expected_descs_def) (simp add: written_def)
  next
    case (Some mport)
    then obtain p cs where bs: "bs = p # cs" and fits: "first_fits skb segs cs"
      using assms(5) by (cases bs) auto
    then obtain n where n: "length cs = Suc n"
      by (cases cs) (auto simp: first_fits_def)
    let ?q = "write_txd (write_count q) (ef100_make_prefix_desc mport) q" and ?wc = "write_count q + 1"
    let ?r = "desc_loop env (Some skb) (of_nat (length cs)) ty ?wc ?q"
    have "of_nat (Suc (length cs)) \<noteq> (0 :: u32)"
      using of_nat_nonzero [of "length cs"] le(2) bs by simp
    then have q': "q' = (snd ?r)\<lparr>write_count := fst ?r\<rparr>"
      using Some ins bs by (simp add: q'_def make_descriptors_eq Let_def ty_def)
    let ?f = "loop_desc env (Some skb) (of_nat (length cs)) ty ?wc ?q"
    have "written ?f ?wc (length cs) ?q (snd ?r)"
      using desc_loop_written [of ?q k n ?wc] k(1) le(1) ins n bs by simp
    then have w: "written (\<lambda>j. if j = 0 then ef100_make_prefix_desc mport else ?f (j - 1)) (write_count q) (length bs) q (snd ?r)"
      using written_Suc [OF k(1), of "length cs"] le(1) bs by simp
    have "tx_slot ?q (ring_index ?q ?wc j) = cs ! j" if "j < length cs" for j
      using slot [of "Suc j"] that by (simp add: ring_index_Suc bs)
    note pl = parse_loop [OF fits this, of env, folded ty_def]
    have "map parse_desc (ring_descs (write_count q) (length bs) q') =
        map (\<lambda>j. parse_desc (if j = 0 then ef100_make_prefix_desc mport else ?f (j - 1))) [0..<Suc (length cs)]"
      by (simp only: q' written_descs [OF w]) (simp add: bs comp_def)
    also have "\<dots> = Prefix_desc (ucast mport) # packet_descs skb segs cs"
      by (simp only: map_upt_Suc pl [symmetric]) (simp add: parse_prefix)
    finally show ?thesis
      using w Some bs by (simp add: expected_descs_def q') (simp add: written_def)
  qed
  then show "map parse_desc (ring_descs (write_count q) (length bs) q') = expected_descs skb segs efv bs"
    "x \<notin> ring_index q (write_count q) ` {..<length bs} \<Longrightarrow> txd q' ! x = txd q ! x"
    by blast+
qed

end
