(* ===== verification/Ef100_Tx_Facts.thy ===== *)
theory Ef100_Tx_Facts
  imports Ef100_Tx_Sys Ef100_Tx_Desc
begin

section \<open>Facts for the properties of the transmit path\<close>

text \<open>
  The enqueue operation without its case distinctions, the counters of a completion, the teardown
  of a queue, and a small channel on which the properties are instantiated.
\<close>

subsection \<open>The ring of a reachable channel\<close>

lemma reach_queue:
  assumes "tx_reach env n ch S" and "i < length (tx_queues ch)"
  shows "queue_ok (chan_q ch i) (S i, {#})" and "buffer (chan_q ch i) \<noteq> []" and "ptr_mask (chan_q ch i) \<noteq> 0"
proof -
  have safe: "chan_safe env n ch S"
    using tx_reach_safe [OF assms(1)] .
  then show q: "queue_ok (chan_q ch i) (S i, {#})"
    using assms(2) by (auto simp: chan_safe_def chan_inv_def chan_ok_def books_def)
  have n: "40 \<le> n"
    using safe stop_thresh_unat(2) by (auto simp: chan_safe_def)
  moreover have "n \<le> length (buffer (chan_q ch i))"
    using safe assms(2) by (auto simp: chan_safe_def sizes_nth ring_sizes_def)
  ultimately have len: "40 \<le> length (buffer (chan_q ch i))"
    by simp
  then show "buffer (chan_q ch i) \<noteq> []"
    by auto
  obtain k where k: "k \<le> 31" "ptr_mask (chan_q ch i) = mask k" "length (buffer (chan_q ch i)) = 2 ^ k"
    using q by (auto simp: queue_ok_def ring_ok_def ring_shape_def)
  have "k \<noteq> 0"
    using k(3) len by (intro notI) simp
  then have "bit (mask k :: u32) 0"
    by (simp add: bit_mask_iff)
  then show "ptr_mask (chan_q ch i) \<noteq> 0"
    unfolding k(2) by (metis bit_0_eq bot_apply bot_bool_def)
qed

lemma enqueue_direct:
  assumes "buffer (chan_q ch i) \<noteq> []" and "ptr_mask (chan_q ch i) \<noteq> 0" and "ef100_segments skb = 0"
  shows "ef100_enqueue 2 env inp i efv skb ch =
    ef100_enqueue_mapped env inp i efv (insert_count (chan_q ch i)) 0 skb (chan_q ch i) ch"
  unfolding numeral_2_eq_2 using assms by (simp add: ef100_enqueue.simps Let_def)

definition with_check :: "ef100_env \<Rightarrow> sk_buff \<Rightarrow> sk_buff" where
  "with_check env skb = skb\<lparr>tcp_check := NOT (csum_magic env skb)\<rparr>"

lemma enqueue_tso:
  assumes "buffer (chan_q ch i) \<noteq> []" and "ptr_mask (chan_q ch i) \<noteq> 0" and "ef100_segments skb \<noteq> 0"
    and "ef100_tso_possible env skb"
  shows "ef100_enqueue 2 env inp i efv skb ch =
    ef100_enqueue_mapped env inp i efv (insert_count (chan_q ch i)) (ef100_segments skb) (with_check env skb)
      (insert_tx_buffer (tso_v3_buffer (efx_tx env) skb) (chan_q ch i)) ch"
  unfolding numeral_2_eq_2 using assms by (simp add: ef100_enqueue.simps Let_def ef100_tx_can_tso_def with_check_def)

text \<open>Up to the mapping: the buffers put into the ring first, the packet and its segment count.\<close>

lemma enqueue_begun:
  assumes reach: "tx_reach env n ch S" and i: "i < length (tx_queues ch)" and skb: "valid_packet env skb"
    and kind: "ef100_segments skb = 0 \<or> \<not> core_stopped ch \<and> ef100_tso_possible env skb"
  obtains pre q s where "begun (chan_q ch i) pre q" and "length pre = (if ef100_segments skb = 0 then 0 else 1)"
    and "skb_ok 65535 s" and "frags s = frags skb" and "skb_id s = skb_id skb"
    and "ef100_segments skb \<noteq> 0 \<longrightarrow> tso_header_ok (efx_tx env) s"
    and "\<And>inp efv. ef100_enqueue 2 env inp i efv skb ch =
      ef100_enqueue_mapped env inp i efv (insert_count (chan_q ch i)) (ef100_segments skb) s q ch"
proof -
  note ring = reach_queue [OF reach i]
  have ok: "ring_ok (chan_q ch i)"
    using ring(1) by (rule queue_okE)
  show ?thesis
  proof (cases "ef100_segments skb = 0")
    case True
    then show ?thesis
      using that [of "[]" "chan_q ch i" skb] enqueue_direct [OF ring(2,3) True] ok skb by (simp add: valid_packet_def)
  next
    case False
    then have tso: "\<not> core_stopped ch" "ef100_tso_possible env skb"
      using kind by auto
    let ?q0 = "chan_q ch i"
    let ?b = "tso_v3_buffer (efx_tx env) skb (tx_slot ?q0 (efx_tx_queue_get_insert_index ?q0))"
    have v: "skb_ok 65535 skb" "tso_header_ok (efx_tx env) skb"
      using skb False by (simp_all add: valid_packet_def)
    have "fill ?q0 < length (buffer ?q0)"
      using room_unstopped [OF tx_reach_safe [OF reach] tso(1) i] by simp
    moreover have "bare ?b"
      by (rule bare_tso_v3 [OF header_16 [OF v(2,1) tso_possible_header [OF tso(2)]]])
    ultimately have "begun ?q0 [?b] (insert_tx_buffer (tso_v3_buffer (efx_tx env) skb) ?q0)"
      using begun_insert [of ?q0 "[]" ?q0 "tso_v3_buffer (efx_tx env) skb"] ok by simp
    then show ?thesis
      using that [of "[?b]" _ "with_check env skb"] enqueue_tso [OF ring(2,3) False tso(2)] v False
      by (simp add: with_check_def)
  qed
qed

subsection \<open>What a completion counts\<close>

definition same_counts :: "efx_tx_queue \<Rightarrow> efx_tx_queue \<Rightarrow> bool" where
  "same_counts q q' \<longleftrightarrow> pkts_compl q' = pkts_compl q \<and> bytes_compl q' = bytes_compl q"

lemma same_counts_pop: "same_counts q (snd (pop_buffer pb q))"
  by (simp add: same_counts_def pop_buffer_def advance_read_def efx_dequeue_buffer_def dequeue_unmap_def release_obj_def
      complete_skb_def set_tx_slot_def kernel_call_def Let_def split: tx_obj.splits)

lemma same_counts_pops: "same_counts q (snd (pop_many n pb q))"
proof (induction n arbitrary: pb q)
  case 0
  then show ?case by (simp add: same_counts_def)
next
  case (Suc n)
  then show ?case
    using same_counts_pop [of q pb] by (simp add: Let_def same_counts_def)
qed

lemma xmit_done_counts:
  assumes "ring_ok q" and "n \<le> fill q"
    and q'_def: "q' = efx_xmit_done env ((read_count q + of_nat n - 1) AND ptr_mask q) q"
    and done_def: "done = skbs_in (take (done_count q n) (pending q))"
  shows "pkts_compl q' = pkts_compl q + of_nat (length done)"
    and "bytes_compl q' = bytes_compl q + sum_list (map skb_len done)"
proof -
  have n: "done_count q n \<le> fill q"
    using assms(2) by (simp add: done_count_def)
  let ?r = "pop_many (done_count q n) (0, 0) q"
  have c: "same_counts q (snd ?r)" "fst ?r = (of_nat (length done), sum_list (map skb_len done))"
    using same_counts_pops fst_pop_many [OF assms(1) n, of "(0, 0)"] by (simp_all add: done_def)
  have "efx_dequeue_buffers env ((read_count q + of_nat n - 1) AND ptr_mask q) (0, 0) q = ?r"
    using dequeue_done [OF assms(1,2)] .
  then have "pkts_compl q' = pkts_compl (snd ?r) + fst (fst ?r)" "bytes_compl q' = bytes_compl (snd ?r) + snd (fst ?r)"
    by (simp_all add: q'_def efx_xmit_done_def efx_xmit_done_check_empty_def Let_def split: prod.splits)
  then show "pkts_compl q' = pkts_compl q + of_nat (length done)"
    "bytes_compl q' = bytes_compl q + sum_list (map skb_len done)"
    using c by (simp_all add: same_counts_def)
qed

subsection \<open>Teardown\<close>

lemma fill_zero: "fill q = 0 \<longleftrightarrow> read_count q = insert_count q"
  by (auto simp: fill_def unat_eq_0)

lemma snd_pop: "snd (pop_buffer pb q) = snd (pop_buffer (0, 0) q)"
  by (simp add: pop_buffer_def efx_dequeue_buffer_def release_obj_def Let_def split: tx_obj.splits)

lemma snd_pop_many: "snd (pop_many n pb q) = snd (pop_many n (0, 0) q)"
proof (induction n arbitrary: pb q)
  case (Suc n)
  show ?case
    using Suc [of "fst (pop_buffer pb q)" "snd (pop_buffer pb q)"]
      Suc [of "fst (pop_buffer (0, 0) q)" "snd (pop_buffer (0, 0) q)"] snd_pop [of pb q] by (simp add: Let_def)
qed simp

lemma purge_pops:
  assumes "ring_ok q"
  shows "efx_purge_tx_queue q = snd (pop_many (fill q) (0, 0) q)"
  using assms
proof (induction "fill q" arbitrary: q)
  case 0
  then show ?case
    using fill_zero [of q] by (subst efx_purge_tx_queue.simps) simp
next
  case (Suc m)
  let ?q = "snd (pop_buffer (0, 0) q)"
  have fill: "0 < fill q" "fill ?q = m"
    using Suc.hyps(2) fill_pop [of q] by simp_all
  have "efx_purge_tx_queue ?q = snd (pop_many m (0, 0) ?q)"
    using Suc.hyps(1) [of ?q] ring_ok_pop [OF Suc.prems fill(1)] fill(2) by simp
  moreover have "read_count q \<noteq> insert_count q"
    using fill(1) fill_zero [of q] by simp
  then have "efx_purge_tx_queue q = efx_purge_tx_queue ?q"
    by (subst efx_purge_tx_queue.simps) (simp add: pop_buffer_def pos_def Let_def)
  moreover have "snd (pop_many (fill q) (0, 0) q) = snd (pop_many m (0, 0) ?q)"
    using snd_pop_many [of m "fst (pop_buffer (0, 0) q)" ?q] by (simp add: Suc.hyps(2) [symmetric] Let_def)
  ultimately show ?case
    by simp
qed

lemma purge_spec:
  assumes "queue_ok q Y" and q'_def: "q' = efx_purge_tx_queue q"
  shows "ring_ok q'" and "pending q' = []" and "\<exists>L. acct q' L Y \<and> size L \<le> tx_desc_fetch q"
proof -
  obtain L where L: "ring_ok q" "acct q L Y" "size L \<le> tx_desc_fetch q"
    using assms(1) by (rule queue_okE)
  note p = pop_many_spec [OF L(1) order_refl, where pb = "(0, 0)"]
  have "acct (snd (pop_many (fill q) (0, 0) q)) L Y"
    using L(2) pop_many_spec(7) [OF L(1) order_refl] by blast
  then show "ring_ok q'" "pending q' = []" "\<exists>L. acct q' L Y \<and> size L \<le> tx_desc_fetch q"
    using L(3) pop_many_spec(1,2) [OF L(1) order_refl, of "(0, 0)"] by (auto simp: q'_def purge_pops [OF L(1)])
qed

end
