(* ===== verification/Ef100_Tx_Demo.thy ===== *)
theory Ef100_Tx_Demo
  imports Ef100_Tx_Facts
begin

section \<open>A small channel\<close>

text \<open>
  The concrete inputs at which the properties of the transmit path are applied: a channel with one
  queue of 64 descriptors, a packet of 1600 bytes in three parts, and the channel after it was sent.
\<close>

definition txdemo_skb :: sk_buff where
  "txdemo_skb = \<lparr>skb_id = 7, skb_len = 1600, data_len = 1500, frags = [1000, 500], gso_size = 0, gso_segs = 0,
     gso_tcp = False, gso_tcpv6 = False, gso_fixedid = False, encapsulation = False, network_off = 14,
     transport_off = 34, inner_transport_off = 0, doff = 5, inner_doff = 0, csum_partial = True,
     csum_start = 34, csum_offset = 16, vlan_present = False, vlan_tci = 0, tcp_check = 0\<rparr>"

definition txdemo_tx_env :: tx_env where
  "txdemo_tx_env = \<lparr>rev_ef100 = True, tx_limit_len = None, dma_map = (\<lambda>n. Some (0x1000 * (of_nat n + 1))),
     encap_tso = True\<rparr>"

definition txdemo_env :: ef100_env where
  "txdemo_env = \<lparr>efx_tx = txdemo_tx_env, txq_stop_thresh = stop_thresh 40, txq_wake_thresh = wake_thresh 40,
    feat_tso = True, feat_hw_csum = True, feat_hw_vlan_tx = True, feat_tso_mangleid = False, tso_max_hdr_len = 256,
    tso_max_payload_num_segs = 16, tso_max_frames = 64, tso_max_payload_len = 65535, csum_magic = (\<lambda>_. 0x1234),
    gso_segment = (\<lambda>s. Inr []), port_enabled = True,
    device_present = True, core_txq_set = True\<rparr>"

definition txdemo_in :: xmit_in where
  "txdemo_in = \<lparr>xmit_more = False, sent_queue = True, xi_events = (\<lambda>_. [])\<rparr>"

definition txdemo_channel :: tx_channel where
  "txdemo_channel = fresh_channel 1 40 (2 ^ 0) True"

definition txdemo_sent :: tx_channel where
  "txdemo_sent = snd (the (ef100_enqueue 2 txdemo_env txdemo_in 0 None txdemo_skb txdemo_channel))"

lemma txdemo_setup: "ef100_setup txdemo_env 40"
  by (simp add: ef100_setup_def txdemo_env_def txdemo_tx_env_def ef100_tx_max_skb_descs_def MAX_SKB_FRAGS_def)

lemma txdemo_valid: "valid_packet txdemo_env txdemo_skb"
  by (simp add: valid_packet_def skb_ok_def frag_ok_def skb_headlen_def txdemo_skb_def MAX_SKB_FRAGS_def
      ef100_segments_def skb_is_gso_def)

lemma txdemo_plain: "ef100_segments txdemo_skb = 0"
  by (simp add: txdemo_skb_def ef100_segments_def skb_is_gso_def)

lemma txdemo_honest: "honest_events txdemo_env txdemo_in"
  by (simp add: honest_events_def txdemo_in_def)

lemma txdemo_channel_shape [simp]: "length (tx_queues txdemo_channel) = 1" "\<not> core_stopped txdemo_channel"
  by (simp_all add: txdemo_channel_def fresh_channel_def)

lemma txdemo_reach: "tx_reach txdemo_env 40 txdemo_channel (\<lambda>_. {#})"
  unfolding txdemo_channel_def by (rule tx_init [OF txdemo_setup]) simp

lemma txdemo_result:
  "map_option (\<lambda>(rc, ch). (rc, length (tx_queues ch), core_stopped ch, holdoff_doorbell ch,
       map (\<lambda>q. (fill q, tx_desc_fetch q, map skb_id (skbs_in (pending q)))) (tx_queues ch)))
     (ef100_enqueue 2 txdemo_env txdemo_in 0 None txdemo_skb txdemo_channel) =
   Some (0, 1, False, False, [(3, 0, [7])])"
  by code_simp

lemma txdemo_enqueue: "ef100_enqueue 2 txdemo_env txdemo_in 0 None txdemo_skb txdemo_channel = Some (0, txdemo_sent)"
  using txdemo_result by (auto simp: txdemo_sent_def)

lemma txdemo_sent_shape:
  "length (tx_queues txdemo_sent) = 1" "\<not> core_stopped txdemo_sent" "fill (chan_q txdemo_sent 0) = 3"
  "tx_desc_fetch (chan_q txdemo_sent 0) = 0" "map skb_id (skbs_in (pending (chan_q txdemo_sent 0))) = [7]"
proof -
  have r: "length (tx_queues txdemo_sent) = 1 \<and> \<not> core_stopped txdemo_sent \<and>
      map (\<lambda>q. (fill q, tx_desc_fetch q, map skb_id (skbs_in (pending q)))) (tx_queues txdemo_sent) = [(3, 0, [7])]"
    using txdemo_result by (simp add: txdemo_enqueue)
  then show "length (tx_queues txdemo_sent) = 1" "\<not> core_stopped txdemo_sent" "fill (chan_q txdemo_sent 0) = 3"
    "tx_desc_fetch (chan_q txdemo_sent 0) = 0" "map skb_id (skbs_in (pending (chan_q txdemo_sent 0))) = [7]"
    by (auto simp: chan_q_def)
qed

lemma txdemo_sent_reach: "tx_reach txdemo_env 40 txdemo_sent ((\<lambda>_. {#})(0 := {#7#}))"
  using tx_xmit [OF txdemo_reach _ _ txdemo_valid txdemo_honest txdemo_enqueue] by (simp add: txdemo_skb_def)

end
