(* ===== verification/Ef100_Tx_Props.thy ===== *)
theory Ef100_Tx_Props
  imports Ef100_Tx_Demo
begin

section \<open>Properties of the transmit path\<close>

text \<open>
  The properties of tx_common.c, ef100_tx.c and the transmit part of the channel's poll, over the
  channels that packets and polls reach (\<open>tx_reach\<close>), each with its instance on the small channel.
\<close>

text \<open>C26. Whatever packets are sent and completed, the driver's books balance on every queue: it
  releases only DMA mappings it has made and not yet released, with the same address, length and
  kind; the mappings alive are those of the buffers in the ring and at most one for each time a
  buffer was found in use (\<open>tx_desc_fetch\<close>); and every packet or segment it was given is either in
  the ring or has been freed, exactly once.\<close>

theorem tx_books_balance:
  assumes "tx_reach env n ch S" and "i < length (tx_queues ch)"
  shows "unmaps_ok (calls (chan_q ch i)) \<and>
    (\<exists>L. live_maps (calls (chan_q ch i)) = maps_held (pending (chan_q ch i)) + L \<and> size L \<le> tx_desc_fetch (chan_q ch i)) \<and>
    freed (calls (chan_q ch i)) + skbs_held (pending (chan_q ch i)) = S i + created (calls (chan_q ch i))"
  using reach_queue(1) [OF assms] by (auto simp: queue_ok_def acct_def)

lemma tx_books_balance_witness:
  "live_maps (calls (chan_q txdemo_sent 0)) = maps_held (pending (chan_q txdemo_sent 0)) \<and>
   freed (calls (chan_q txdemo_sent 0)) + skbs_held (pending (chan_q txdemo_sent 0)) = {#7#} + created (calls (chan_q txdemo_sent 0))"
  using tx_books_balance [OF txdemo_sent_reach, of 0] txdemo_sent_shape by auto

text \<open>C27. While the kernel's queue is not stopped, no packet of at most \<open>MAX_SKB_FRAGS\<close> fragments
  finds the ring full, whether it goes out as it is, for a VF representor, or is segmented by the
  hardware: the stop threshold leaves room for the largest packet.\<close>

theorem tx_never_busy:
  assumes "tx_reach env n ch S" and "i < length (tx_queues ch)" and "\<not> core_stopped ch"
    and "valid_packet env skb"
    and "ef100_segments skb = 0 \<or> efv = None \<and> ef100_tso_possible env skb"
    and "ef100_enqueue 2 env inp i efv skb ch = Some (rc, ch')"
  shows "rc \<noteq> - EBUSY \<and> rc \<noteq> - ENOSPC"
proof -
  have safe: "chan_safe env n ch S"
    using tx_reach_safe [OF assms(1)] .
  then have s: "ef100_setup env n" "chan_inv env ch (books S)"
    by (simp_all add: chan_safe_def)
  have kind: "ef100_segments skb = 0 \<or> \<not> core_stopped ch \<and> ef100_tso_possible env skb"
    using assms(3,5) by auto
  obtain pre q s' where b: "begun (chan_q ch i) pre q" "length pre = (if ef100_segments skb = 0 then 0 else 1)"
    "skb_ok 65535 s'" "frags s' = frags skb" "ef100_segments skb \<noteq> 0 \<longrightarrow> tso_header_ok (efx_tx env) s'"
    "\<And>inp efv. ef100_enqueue 2 env inp i efv skb ch =
      ef100_enqueue_mapped env inp i efv (insert_count (chan_q ch i)) (ef100_segments skb) s' q ch"
    using enqueue_begun [OF assms(1,2,4) kind] by metis
  have "length (frags s') \<le> 17"
    using assms(4) b(4) by (simp add: valid_packet_def MAX_SKB_FRAGS_def)
  then have "length pre + (if efv = None then 0 else 1) + 2 + length (frags s') \<le> 20"
    using b(2) assms(5) by auto
  then have room: "fill (chan_q ch i) + length pre + (if efv = None then 0 else 1) + 2 + length (frags s') \<le> length (buffer (chan_q ch i))"
    using room_unstopped [OF safe assms(3,2)] by linarith
  have lim: "tx_limit_len (efx_tx env) = None"
    using s(1) by (simp add: ef100_setup_def)
  show ?thesis
    using mapped_not_busy [OF s(2) assms(2) b(1) lim stop_thresh_unat(4) [OF s(1)] b(3,5) room] assms(6) b(6) by simp
qed

lemma tx_never_busy_witness:
  "\<exists>rc ch'. ef100_enqueue 2 txdemo_env txdemo_in 0 None txdemo_skb txdemo_channel = Some (rc, ch') \<and> rc \<noteq> - EBUSY \<and> rc \<noteq> - ENOSPC"
  using tx_never_busy [OF txdemo_reach _ _ txdemo_valid _ txdemo_enqueue] txdemo_plain txdemo_enqueue by simp

text \<open>C28. Transmission and polling never get stuck: on every reachable channel, for every valid
  packet (sent while the kernel's queue runs, or by a representor) and every completion that the
  hardware may report, both operations return, with segmentation in software nested once.\<close>

theorem tx_always_returns:
  assumes "tx_reach env n ch S"
  shows "(i < length (tx_queues ch) \<longrightarrow> valid_packet env skb \<longrightarrow> honest_events env inp \<longrightarrow>
      (core_stopped ch \<longrightarrow> ef100_segments skb = 0) \<longrightarrow> (\<exists>rc ch'. ef100_enqueue 2 env inp i efv skb ch = Some (rc, ch'))) \<and>
    (events_ok env events (begin_poll ch) \<longrightarrow> (\<exists>ch'. efx_process_channel env events ch = Some ch'))"
  using enqueue_safe [OF tx_reach_safe [OF assms], of i skb inp efv] poll_safe [OF tx_reach_safe [OF assms], of events] by blast

lemma tx_always_returns_witness:
  "(\<exists>rc ch'. ef100_enqueue 2 txdemo_env txdemo_in 0 (Some 3) txdemo_skb txdemo_sent = Some (rc, ch')) \<and>
   (\<exists>ch'. efx_process_channel txdemo_env [] txdemo_sent = Some ch')"
  using tx_always_returns [OF txdemo_sent_reach, of 0 txdemo_skb txdemo_in "Some 3" "[]"] txdemo_sent_shape txdemo_valid txdemo_honest
  by (simp add: txdemo_plain)

lemma chunk_ok_less: "chunk_ok env (2 ^ 32 - 1) \<Longrightarrow> chunk_ok env 65535"
  by (auto simp: chunk_ok_def)

text \<open>C29. \<open>efx_tx_map_data\<close> always returns, under the length limits of all three NIC families. The
  buffers it adds go behind those already in the ring. When it succeeds, their address ranges are,
  byte by byte and in order, the linear part and the fragments of the packet at the addresses where
  they were mapped, and the last buffer of each mapping carries what is needed to release it.\<close>

theorem tx_map_covers_packet:
  assumes "ring_ok q" and "skb_ok 65535 skb" and "segs \<noteq> 0 \<longrightarrow> tso_header_ok env skb" and "acct q X Y"
    and "tx_limit_len env \<in> {None, Some efx_ef10_tx_limit_len, Some efx_farch_tx_limit_len}"
  shows "\<exists>rc q' new. efx_tx_map_data env skb segs q = Some (rc, q') \<and> rc \<in> {0, - EIO, - EINVAL, - EBUSY} \<and>
    ring_ok q' \<and> pending q' = pending q @ new \<and>
    (rc = 0 \<longrightarrow> concat (map desc_bytes new) = packet_bytes env (map_seq q) skb \<and> acct q' X (add_skb skb Y))"
proof -
  have "chunk_ok env 65535"
    using assms(5) chunk_ok_ef100 [of env] chunk_ok_less [OF chunk_ok_ef10] chunk_ok_less [OF chunk_ok_farch] by auto
  from map_data_spec [OF assms(1) this assms(2-4)] show ?thesis
    unfolding map_outcome_def extends_def by (auto simp: errno_defs)
qed

lemma txdemo_queue_ok: "ring_ok (chan_q txdemo_channel 0)" "acct (chan_q txdemo_channel 0) {#} ({#}, {#})"
  "pending (chan_q txdemo_channel 0) = []"
proof -
  have q: "queue_ok (chan_q txdemo_channel 0) ({#}, {#})" "fill (chan_q txdemo_channel 0) = 0"
    using fresh_queue_ok(1,3) [of 40 0] by (simp_all add: txdemo_channel_def fresh_channel_def chan_q_def)
  then show "ring_ok (chan_q txdemo_channel 0)"
    by (simp add: queue_ok_def)
  show "pending (chan_q txdemo_channel 0) = []"
    using q(2) by (simp flip: length_0_conv)
  obtain L where L: "acct (chan_q txdemo_channel 0) L ({#}, {#})" "size L \<le> tx_desc_fetch (chan_q txdemo_channel 0)"
    using q(1) by (rule queue_okE)
  have "tx_desc_fetch (chan_q txdemo_channel 0) = 0"
    by (simp add: txdemo_channel_def fresh_channel_def chan_q_def fresh_queue_def efx_init_tx_queue_def
        efx_probe_tx_queue_def blank_queue_def Let_def)
  then show "acct (chan_q txdemo_channel 0) {#} ({#}, {#})"
    using L by simp
qed

lemma tx_map_covers_packet_witness:
  "\<exists>rc q' new. efx_tx_map_data (txdemo_tx_env\<lparr>tx_limit_len := Some efx_farch_tx_limit_len\<rparr>) txdemo_skb 0 (chan_q txdemo_channel 0) = Some (rc, q') \<and>
     rc \<in> {0, - EIO, - EINVAL, - EBUSY} \<and> ring_ok q' \<and> pending q' = pending (chan_q txdemo_channel 0) @ new \<and>
     (rc = 0 \<longrightarrow> concat (map desc_bytes new) = packet_bytes (txdemo_tx_env\<lparr>tx_limit_len := Some efx_farch_tx_limit_len\<rparr>)
        (map_seq (chan_q txdemo_channel 0)) txdemo_skb \<and> acct q' {#} (add_skb txdemo_skb ({#}, {#})))"
  using txdemo_valid
  by (intro tx_map_covers_packet [OF txdemo_queue_ok(1) _ _ txdemo_queue_ok(2)]) (simp_all add: valid_packet_def)

text \<open>C30. An enqueue that fails, at whatever point, leaves the ring as it found it: the buffers of
  the packet are taken back, those of earlier packets stay, the kernel's queue keeps its state, and
  the error is one of those the code names.\<close>

theorem tx_error_rolls_back:
  assumes "tx_reach env n ch S" and "i < length (tx_queues ch)" and "valid_packet env skb" and "honest_events env inp"
    and "ef100_segments skb = 0 \<or> \<not> core_stopped ch \<and> ef100_tso_possible env skb"
    and "ef100_enqueue 2 env inp i efv skb ch = Some (rc, ch')" and "rc \<noteq> 0"
  shows "rc \<in> {- EIO, - EINVAL, - EBUSY, - ENOSPC} \<and> pending (chan_q ch' i) = pending (chan_q ch i) \<and>
    core_stopped ch' = core_stopped ch"
proof -
  have s: "ef100_setup env n" "chan_inv env ch (books S)"
    using tx_reach_safe [OF assms(1)] by (simp_all add: chan_safe_def)
  obtain pre q s' where b: "begun (chan_q ch i) pre q" "skb_ok 65535 s'" "ef100_segments skb \<noteq> 0 \<longrightarrow> tso_header_ok (efx_tx env) s'"
    "\<And>inp efv. ef100_enqueue 2 env inp i efv skb ch =
      ef100_enqueue_mapped env inp i efv (insert_count (chan_q ch i)) (ef100_segments skb) s' q ch"
    using enqueue_begun [OF assms(1,2,3,5)] by metis
  then show ?thesis
    using enqueue_mapped_spec [OF s(2) assms(2) b(1) stop_thresh_unat(4) [OF s(1)] assms(4) b(2,3), of efv] assms(6,7)
    by (auto simp: enqueued_def)
qed

definition deaf_env :: ef100_env where
  "deaf_env = txdemo_env\<lparr>efx_tx := txdemo_tx_env\<lparr>dma_map := (\<lambda>n. if n = 0 then Some 0x1000 else None)\<rparr>\<rparr>"

lemma deaf_result:
  "map_option fst (ef100_enqueue 2 deaf_env txdemo_in 0 None txdemo_skb txdemo_channel) = Some (- EIO)"
  by code_simp

lemma deaf_reach: "tx_reach deaf_env 40 txdemo_channel (\<lambda>_. {#})"
proof -
  have "ef100_setup deaf_env 40"
    using txdemo_setup by (simp add: ef100_setup_def deaf_env_def txdemo_tx_env_def)
  then show ?thesis
    unfolding txdemo_channel_def by (rule tx_init) simp
qed

lemma tx_error_rolls_back_witness:
  "pending (chan_q (snd (the (ef100_enqueue 2 deaf_env txdemo_in 0 None txdemo_skb txdemo_channel))) 0) = []"
proof -
  obtain ch' where e: "ef100_enqueue 2 deaf_env txdemo_in 0 None txdemo_skb txdemo_channel = Some (- EIO, ch')"
    using deaf_result by auto
  have "valid_packet deaf_env txdemo_skb" "honest_events deaf_env txdemo_in"
    using txdemo_valid by (simp_all add: valid_packet_def txdemo_plain honest_events_def txdemo_in_def)
  then show ?thesis
    using tx_error_rolls_back [OF deaf_reach _ _ _ _ e] txdemo_plain txdemo_queue_ok(3) by (simp add: e errno_defs)
qed

text \<open>C31. A completion event that counts fewer buffers than the ring has retires exactly the oldest
  buffers it counts, in the order in which they were inserted, on the queue it names only, and adds to the
  counters the packets among them and their bytes. An event that counts the whole of a full ring retires
  none: the stop index comes out at the oldest buffer, and the loop ends before it began.\<close>

theorem tx_completion_exact:
  assumes "tx_reach env m ch S" and "event_ok ch e"
    and "i = unat (EFX_QWORD_FIELD e ESF_GZ_EV_TXCMPL_Q_LABEL)"
    and "n = unat (EFX_QWORD_FIELD e ESF_GZ_EV_TXCMPL_NUM_DESC)"
    and "sent = skbs_in (take n (pending (chan_q ch i)))"
  shows "\<exists>q'. ef100_ev_tx env e ch = Some (set_chan_q i q' ch) \<and>
    (if n < length (buffer (chan_q ch i))
     then pending q' = drop n (pending (chan_q ch i)) \<and>
       pkts_compl q' = pkts_compl (chan_q ch i) + of_nat (length sent) \<and>
       bytes_compl q' = bytes_compl (chan_q ch i) + sum_list (map skb_len sent)
     else pending q' = pending (chan_q ch i) \<and> pkts_compl q' = pkts_compl (chan_q ch i) \<and>
       bytes_compl q' = bytes_compl (chan_q ch i))"
proof -
  let ?q = "chan_q ch i"
  have i: "i < length (tx_queues ch)" and n: "n \<le> fill ?q"
    using assms(2-4) by (simp_all add: event_ok_def Let_def)
  define q' where "q' = efx_xmit_done (efx_tx env) ((read_count ?q + of_nat n - 1) AND ptr_mask ?q) ?q"
  have q: "queue_ok ?q (S i, {#})"
    using reach_queue(1) [OF assms(1) i] .
  then have r: "ring_ok ?q"
    by (rule queue_okE)
  note c = xmit_done_counts [OF r n q'_def refl] and p = xmit_done_spec [OF q n q'_def]
  have ev: "ef100_ev_tx env e ch = Some (set_chan_q i q' ch)"
    using i assms(3,4) by (simp add: ef100_ev_tx_def efx_channel_get_tx_queue_def Let_def q'_def)
  show ?thesis
  proof (cases "n < length (buffer ?q)")
    case True
    then have "done_count ?q n = n"
      by (simp add: done_count_def)
    with True ev c p(2) assms(5) show ?thesis
      by auto
  next
    case False
    then have "done_count ?q n = 0"
      using n ring_ok_fill [OF r] by (simp add: done_count_def)
    with False ev c p(2) show ?thesis
      by (auto simp: skbs_in_def)
  qed
qed

lemma tx_completion_exact_witness:
  "\<exists>q'. ef100_ev_tx txdemo_env 3 txdemo_sent = Some (set_chan_q 0 q' txdemo_sent) \<and> pending q' = [] \<and>
    pkts_compl q' = pkts_compl (chan_q txdemo_sent 0) + 1"
proof -
  have f: "unat (EFX_QWORD_FIELD 3 ESF_GZ_EV_TXCMPL_Q_LABEL) = 0" "unat (EFX_QWORD_FIELD 3 ESF_GZ_EV_TXCMPL_NUM_DESC) = 3"
    by code_simp+
  have dc: "3 < length (buffer (chan_q txdemo_sent 0))"
    using room_unstopped [OF tx_reach_safe [OF txdemo_sent_reach] txdemo_sent_shape(2), of 0] txdemo_sent_shape(1)
    by auto
  have ok: "event_ok txdemo_sent 3"
    using txdemo_sent_shape f by (simp add: event_ok_def)
  have p: "take 3 (pending (chan_q txdemo_sent 0)) = pending (chan_q txdemo_sent 0)" "drop 3 (pending (chan_q txdemo_sent 0)) = []"
    using txdemo_sent_shape(3) by simp_all
  have "length (skbs_in (pending (chan_q txdemo_sent 0))) = 1"
    using arg_cong [OF txdemo_sent_shape(5), of length] by simp
  moreover obtain q' where "ef100_ev_tx txdemo_env 3 txdemo_sent = Some (set_chan_q 0 q' txdemo_sent)" "pending q' = []"
      "pkts_compl q' = pkts_compl (chan_q txdemo_sent 0) + of_nat (length (skbs_in (pending (chan_q txdemo_sent 0))))"
    using tx_completion_exact [OF txdemo_sent_reach ok refl refl refl] unfolding f if_P [OF dc] p by blast
  ultimately show ?thesis
    by auto
qed

text \<open>C32. A poll leaves no work behind: it returns with no doorbell held back, every descriptor
  written by a transmission whose doorbell the poll held back has been announced to the NIC, and, on an
  enabled port of a device that is present, the kernel's queue runs again once the rings are filled to the
  wake threshold at most.\<close>

theorem tx_poll_wakes_and_rings:
  assumes "tx_reach env n ch S" and "events_ok env events (begin_poll ch)"
  shows "\<exists>ch'. efx_process_channel env events ch = Some ch' \<and> \<not> holdoff_doorbell ch' \<and>
    (tx_coalesce_doorbell ch \<longrightarrow> (\<forall>q\<in>set (tx_queues ch'). notify_count q = write_count q \<and> write_count q = insert_count q)) \<and>
    (tx_queues ch \<noteq> [] \<and> core_txq_set env \<and> port_enabled env \<and> device_present env \<and>
      efx_channel_tx_fill_level ch' \<le> txq_wake_thresh env \<longrightarrow> \<not> core_stopped ch')"
proof -
  have s: "ef100_setup env n" "chan_inv env ch (books S)"
    using tx_reach_safe [OF assms(1)] by (simp_all add: chan_safe_def)
  obtain ch' where ch': "efx_process_channel env events ch = Some ch'" "chan_inv env ch' (books S)" "\<not> holdoff_doorbell ch'"
      "tx_coalesce_doorbell ch \<Longrightarrow> \<forall>q\<in>set (tx_queues ch'). notify_count q = write_count q"
      "tx_queues ch \<noteq> [] \<Longrightarrow> can_wake env \<Longrightarrow> efx_channel_tx_fill_level ch' \<le> txq_wake_thresh env \<Longrightarrow> \<not> core_stopped ch'"
    using poll_spec [OF s(2) assms(2) stop_thresh_unat(3) [OF s(1)]] by metis
  have "\<forall>q\<in>set (tx_queues ch'). write_count q = insert_count q"
    using ch'(2) by (auto simp: chan_inv_def chan_ok_def queue_ok_def chan_q_def all_set_conv_all_nth)
  then show ?thesis
    using ch' by (auto simp: can_wake_def)
qed

lemma tx_poll_wakes_and_rings_witness:
  "\<exists>ch'. efx_process_channel txdemo_env [] txdemo_sent = Some ch' \<and> \<not> holdoff_doorbell ch'"
  using tx_poll_wakes_and_rings [OF txdemo_sent_reach, of "[]"] by auto

text \<open>C33. The descriptors that a packet's buffers are turned into say what the buffers hold: read
  back through the register fields, the hardware ring has one descriptor for each buffer, from the
  old write pointer on and across the end of the ring: the egress port of a representor's packet,
  then the send or segmentation request with the number of segments, then address and length of
  every further segment. The other entries of the ring are not touched.\<close>

theorem tx_descriptors_describe_buffers:
  assumes "ring_ok q" and "length (buffer q) \<le> length (txd q)" and "pending q = old @ bs"
    and "write_count q = read_count q + of_nat (length old)"
    and "case efv of None \<Rightarrow> first_fits skb segs bs | Some _ \<Rightarrow> bs \<noteq> [] \<and> first_fits skb segs (tl bs)"
    and "q' = ef100_tx_make_descriptors env (Some skb) segs efv q"
  shows "map parse_desc (ring_descs (write_count q) (length bs) q') = expected_descs skb segs efv bs \<and>
    (\<forall>x. x \<notin> ring_index q (write_count q) ` {..<length bs} \<longrightarrow> txd q' ! x = txd q ! x)"
  using descriptors_written_as [OF assms] by blast

definition txdemo_mapped :: efx_tx_queue where
  "txdemo_mapped = snd (the (efx_tx_map_data txdemo_tx_env txdemo_skb 0 (chan_q txdemo_channel 0)))"

lemma txdemo_mapped_result:
  "map_option (\<lambda>(rc, q). (rc, write_count q, length (txd q), map (\<lambda>b. (tb_addr b, tb_len b)) (pending q)))
     (efx_tx_map_data txdemo_tx_env txdemo_skb 0 (chan_q txdemo_channel 0)) =
   Some (0, 0, 65, [(0x1000, 100), (0x2000, 1000), (0x3000, 500)])"
  by code_simp

lemma txdemo_mapped_shape:
  "efx_tx_map_data txdemo_tx_env txdemo_skb 0 (chan_q txdemo_channel 0) = Some (0, txdemo_mapped)"
  "write_count txdemo_mapped = 0" "length (txd txdemo_mapped) = 65"
  "map (\<lambda>b. (tb_addr b, tb_len b)) (pending txdemo_mapped) = [(0x1000, 100), (0x2000, 1000), (0x3000, 500)]"
proof -
  obtain q where q: "efx_tx_map_data txdemo_tx_env txdemo_skb 0 (chan_q txdemo_channel 0) = Some (0, q)"
    using txdemo_mapped_result by auto
  then have "q = txdemo_mapped"
    by (simp add: txdemo_mapped_def)
  with q txdemo_mapped_result show "efx_tx_map_data txdemo_tx_env txdemo_skb 0 (chan_q txdemo_channel 0) = Some (0, txdemo_mapped)"
    "write_count txdemo_mapped = 0" "length (txd txdemo_mapped) = 65"
    "map (\<lambda>b. (tb_addr b, tb_len b)) (pending txdemo_mapped) = [(0x1000, 100), (0x2000, 1000), (0x3000, 500)]"
    by simp_all
qed

lemma tx_descriptors_describe_buffers_witness:
  "map parse_desc (ring_descs 0 3 (ef100_tx_make_descriptors txdemo_env (Some txdemo_skb) 0 None txdemo_mapped)) =
     [Send_desc 0x1000 100 3, Seg_desc 0x2000 1000, Seg_desc 0x3000 500]"
proof -
  have v: "skb_ok 65535 txdemo_skb" "chunk_ok txdemo_tx_env 65535"
    using txdemo_valid chunk_ok_ef100 [of txdemo_tx_env] by (simp_all add: valid_packet_def txdemo_tx_env_def)
  have "\<exists>new. map_outcome txdemo_tx_env (2 + length (frags txdemo_skb)) (chan_q txdemo_channel 0) txdemo_skb {#} ({#}, {#})
      (packet_bytes txdemo_tx_env (map_seq (chan_q txdemo_channel 0)) txdemo_skb) 0 txdemo_mapped new"
    using map_data_spec [OF txdemo_queue_ok(1) v(2,1) _ txdemo_queue_ok(2), of 0] txdemo_mapped_shape(1) by auto
  then obtain new where e: "extends (chan_q txdemo_channel 0) new txdemo_mapped"
    by (auto simp: map_outcome_def)
  have ring: "ring_ok txdemo_mapped" "read_count txdemo_mapped = read_count (chan_q txdemo_channel 0)"
      "length (buffer txdemo_mapped) = length (buffer (chan_q txdemo_channel 0))"
    using e by (simp_all add: extends_def ring_frame_def)
  have zero: "read_count (chan_q txdemo_channel 0) = 0" "length (buffer (chan_q txdemo_channel 0)) = 64"
    by code_simp+
  obtain a b c where p: "pending txdemo_mapped = [a, b, c]" "tb_addr a = 0x1000" "tb_len a = 100" "tb_addr b = 0x2000"
      "tb_len b = 1000" "tb_addr c = 0x3000" "tb_len c = 500"
    using txdemo_mapped_shape(4) by auto
  have "first_fits txdemo_skb 0 [a, b, c]"
    using p by (simp add: first_fits_def send_fits_def txdemo_skb_def)
  then show ?thesis
    using tx_descriptors_describe_buffers [OF ring(1) _ _ _ _ refl, where old = "[]" and bs = "[a, b, c]" and efv = None and skb = txdemo_skb and segs = 0 and env = txdemo_env] ring zero p txdemo_mapped_shape
    by (simp add: expected_descs_def packet_descs_def seg_of_def numeral_3_eq_3)
qed

text \<open>C34. The rings stay well formed: their size is the power of two of the pointer mask, the
  counters are at most a ring apart, the buffers in use are exactly those between the read and the
  insert count, every descriptor has been written, and unless the kernel's queue is stopped there is
  room for 20 more.\<close>

theorem tx_rings_well_formed:
  assumes "tx_reach env n ch S"
  shows "\<forall>i<length (tx_queues ch). ring_ok (chan_q ch i) \<and> write_count (chan_q ch i) = insert_count (chan_q ch i) \<and>
    n \<le> length (buffer (chan_q ch i)) \<and>
    (core_stopped ch \<or> fill (chan_q ch i) + ef100_tx_max_skb_descs \<le> length (buffer (chan_q ch i)))"
proof (intro allI impI)
  fix i
  assume i: "i < length (tx_queues ch)"
  have safe: "chan_safe env n ch S"
    using tx_reach_safe [OF assms] .
  then have "n \<le> length (buffer (chan_q ch i))"
    using i by (auto simp: chan_safe_def sizes_nth ring_sizes_def)
  moreover have "ring_ok (chan_q ch i)" "write_count (chan_q ch i) = insert_count (chan_q ch i)"
    using reach_queue(1) [OF assms i] by (simp_all add: queue_ok_def)
  moreover have "core_stopped ch \<or> fill (chan_q ch i) + ef100_tx_max_skb_descs \<le> length (buffer (chan_q ch i))"
    using room_unstopped [OF safe _ i] by (auto simp: ef100_tx_max_skb_descs_def MAX_SKB_FRAGS_def)
  ultimately show "ring_ok (chan_q ch i) \<and> write_count (chan_q ch i) = insert_count (chan_q ch i) \<and>
    n \<le> length (buffer (chan_q ch i)) \<and>
    (core_stopped ch \<or> fill (chan_q ch i) + ef100_tx_max_skb_descs \<le> length (buffer (chan_q ch i)))"
    by blast
qed

lemma tx_rings_well_formed_witness:
  "ring_ok (chan_q txdemo_sent 0) \<and> fill (chan_q txdemo_sent 0) + ef100_tx_max_skb_descs \<le> length (buffer (chan_q txdemo_sent 0))"
  using tx_rings_well_formed [OF txdemo_sent_reach] txdemo_sent_shape by auto

text \<open>C35. Taking a queue down releases everything in its ring: afterwards the ring is empty, no
  mapping is left but those of the buffers found in use, and every packet and segment that the queue
  was given has been freed.\<close>

theorem tx_fini_releases_all:
  assumes "tx_reach env n ch S" and "i < length (tx_queues ch)" and "q' = efx_fini_tx_queue (chan_q ch i)"
  shows "pending q' = [] \<and> unmaps_ok (calls q') \<and> size (live_maps (calls q')) \<le> tx_desc_fetch (chan_q ch i) \<and>
    freed (calls q') = S i + created (calls q') \<and> \<not> xmit_pending q'"
proof -
  let ?q = "efx_purge_tx_queue (chan_q ch i)"
  note p = purge_spec [OF reach_queue(1) [OF assms(1,2)] refl]
  have q': "q' = ?q\<lparr>xmit_pending := False\<rparr>"
    using assms(3) reach_queue(2) [OF assms(1,2)] by (simp add: efx_fini_tx_queue_def)
  have "pending q' = pending ?q"
    by (rule same_ring_simps(3)) (simp add: q' same_ring_def)
  moreover obtain L where "acct ?q L (S i, {#})" "size L \<le> tx_desc_fetch (chan_q ch i)"
    using p(3) by blast
  ultimately show ?thesis
    using p(2) by (simp add: q' acct_def)
qed

lemma tx_fini_releases_all_witness:
  "live_maps (calls (efx_fini_tx_queue (chan_q txdemo_sent 0))) = {#}"
  using tx_fini_releases_all [OF txdemo_sent_reach _ refl, of 0] txdemo_sent_shape by simp

end
