(* ===== verification/Rx.thy ===== *)
theory Rx
  imports Oword Ring "HOL-Library.Monad_Syntax"
begin

section \<open>Receive queues (rx_common.c, net_driver.h, efx_common.c)\<close>

text \<open>
  A receive queue is a ring of buffers that the driver posts to the controller. Buffers are cut from
  pages: a page is allocated and mapped for DMA once, split into \<open>rx_bufs_per_page\<close> buffers that
  hold a reference each, and after its last buffer was received it goes to the recycle ring, from
  where it is posted again when nobody else holds a reference.

  The pages are the heap here: \<open>host_pages\<close> maps the number of a live page to its reference count,
  the DMA address that the driver keeps at its start, the address under which it is mapped, and the
  number of references that socket buffers of the kernel hold. An operation returns \<open>None\<close> where the
  C code would touch a page that was freed, release a mapping that does not exist, free a page that
  is still mapped, index outside an array, follow a null pointer or divide by zero; so that a
  result is also the statement that none of this happens.

  The model is that of a 64-bit host with pages of 4096 bytes, cache lines of 64 bytes and
  \<open>NET_IP_ALIGN\<close> 0, with \<open>EFX_RX_PAGE_SHARE\<close>, on channels without zero-copy sockets.
\<close>

abbreviation (input) PAGE_SIZE :: u64 where "PAGE_SIZE \<equiv> 4096"
abbreviation (input) L1_CACHE_BYTES :: u64 where "L1_CACHE_BYTES \<equiv> 64"
abbreviation (input) XDP_PACKET_HEADROOM :: u64 where "XDP_PACKET_HEADROOM \<equiv> 256"
abbreviation (input) sizeof_rx_page_state :: u64 where "sizeof_rx_page_state \<equiv> 64"
abbreviation (input) EFX_RX_PREFERRED_BATCH :: u32 where "EFX_RX_PREFERRED_BATCH \<equiv> 8"
abbreviation EFX_RX_BUF_LAST_IN_PAGE :: u16 where "EFX_RX_BUF_LAST_IN_PAGE \<equiv> 1"
abbreviation EFX_RX_PKT_CSUMMED :: u16 where "EFX_RX_PKT_CSUMMED \<equiv> 2"
abbreviation EFX_RX_PAGE_IN_RECYCLE_RING :: u16 where "EFX_RX_PAGE_IN_RECYCLE_RING \<equiv> 0x100"

definition align_up :: "'a::len word \<Rightarrow> 'a word \<Rightarrow> 'a word" where
  "align_up x a = (x + (a - 1)) AND NOT (a - 1)"

subsection \<open>Sizes of the buffers\<close>

text \<open>The fields of \<open>struct efx_nic\<close> and of its type that size the receive buffers, and the module
  parameters.\<close>

record rx_nic =
  rx_prefix_size :: u32
  rx_buffer_padding :: u32
  can_rx_scatter :: bool
  always_rx_scatter :: bool
  rx_ip_align :: u32
  rx_dma_len :: u32
  rx_scatter :: bool
  rx_buffer_order :: u32
  rx_buffer_truesize :: u32
  rx_page_buf_step :: u32
  rx_bufs_per_page :: u32
  rx_pages_per_batch :: u32
  rxq_entries :: u32
  rx_refill_threshold :: u32
  rx_recycle_ring_size :: u32

abbreviation (input) EFX_MAX_MTU :: u32 where "EFX_MAX_MTU \<equiv> 9 * 1024"

definition EFX_MAX_FRAME_LEN :: "u32 \<Rightarrow> u32" where
  "EFX_MAX_FRAME_LEN mtu = ((mtu + 14 + 4 + 4 + 7) AND NOT 7) + 16"

definition EFX_RX_USR_BUF_SIZE :: u32 where
  "EFX_RX_USR_BUF_SIZE = 2048 - 256 - ucast XDP_PACKET_HEADROOM"

definition EFX_RX_MAX_FRAGS :: u32 where
  "EFX_RX_MAX_FRAGS = (EFX_MAX_FRAME_LEN EFX_MAX_MTU + EFX_RX_USR_BUF_SIZE - 1) div EFX_RX_USR_BUF_SIZE"

definition EFX_RXD_HEAD_ROOM :: u32 where
  "EFX_RXD_HEAD_ROOM = 1 + EFX_RX_MAX_FRAGS"

definition efx_rx_buffer_step :: "rx_nic \<Rightarrow> u64" where
  "efx_rx_buffer_step c =
     align_up (sizeof_rx_page_state + XDP_PACKET_HEADROOM + ucast (rx_dma_len c) + ucast (rx_ip_align c))
       L1_CACHE_BYTES"

text \<open>\<open>get_order\<close> of the kernel: the least order of a block of pages that holds the size.\<close>

definition get_order :: "u64 \<Rightarrow> nat" where
  "get_order bytes = length (takeWhile (\<lambda>n. unat PAGE_SIZE * 2 ^ n < unat bytes) [0..<52])"

definition efx_rx_config_page_split :: "rx_nic \<Rightarrow> rx_nic option" where
  "efx_rx_config_page_split c =
     (let c1 = c\<lparr>rx_page_buf_step := ucast (efx_rx_buffer_step c)\<rparr> in
      if rx_buffer_order c1 = 0 \<and> rx_page_buf_step c1 = 0 then None
      else let c2 = c1\<lparr>rx_bufs_per_page :=
                  (if rx_buffer_order c1 \<noteq> 0 then 1
                   else ucast ((PAGE_SIZE - sizeof_rx_page_state) div ucast (rx_page_buf_step c1)))\<rparr> in
        if rx_bufs_per_page c2 = 0 then None
        else Some (c2\<lparr>rx_buffer_truesize :=
                        ucast (push_bit (unat (rx_buffer_order c2)) PAGE_SIZE div ucast (rx_bufs_per_page c2)),
                      rx_pages_per_batch :=
                        (EFX_RX_PREFERRED_BATCH + rx_bufs_per_page c2 - 1) div rx_bufs_per_page c2\<rparr>))"

text \<open>The part of \<open>efx_start_datapath\<close> that sizes the buffers for the device's MTU.\<close>

definition efx_start_datapath_rx :: "u32 \<Rightarrow> rx_nic \<Rightarrow> rx_nic option" where
  "efx_start_datapath_rx mtu c =
     (let c1 = c\<lparr>rx_dma_len := rx_prefix_size c + EFX_MAX_FRAME_LEN mtu + rx_buffer_padding c\<rparr>;
          step = efx_rx_buffer_step c1;
          c2 = (if step \<le> PAGE_SIZE then c1\<lparr>rx_scatter := always_rx_scatter c1, rx_buffer_order := 0\<rparr>
                else if can_rx_scatter c1
                then c1\<lparr>rx_scatter := True, rx_dma_len := EFX_RX_USR_BUF_SIZE, rx_buffer_order := 0\<rparr>
                else c1\<lparr>rx_scatter := False, rx_buffer_order := of_nat (get_order step)\<rparr>) in
      efx_rx_config_page_split c2)"

subsection \<open>State\<close>

record rx_page =
  pg_count :: nat
  pg_dma_addr :: u64
  pg_mapped :: "u64 option"
  pg_skb_refs :: nat

datatype ip_summed = Checksum_none | Checksum_unnecessary | Checksum_complete

text \<open>A socket buffer as \<open>efx_rx_packet_gro\<close> fills it: its fragments are page, offset and length.\<close>

record rx_skb =
  rs_frags :: "(nat \<times> u16 \<times> u16) list"
  rs_len :: u32
  rs_truesize :: u32
  rs_hash :: "u32 option"
  rs_csum :: u32
  rs_summed :: ip_summed

text \<open>What became of a received packet, with the page of its buffer where it was not passed on.\<close>

datatype rx_outcome =
    Rx_gro rx_skb
  | Rx_no_skb nat
  | Rx_bad_fcs nat
  | Rx_short nat
  | Rx_to_rep u16 nat
  | Rx_rep_down nat
  | Rx_bad_port nat
  | Rx_no_receiver nat

record rx_host =
  host_pages :: "nat \<Rightarrow> rx_page option"
  host_tries :: nat
  host_maps :: nat
  rx_log :: "rx_outcome list"
  rx_doorbells :: "u32 list"

record efx_rx_buffer =
  rb_dma_addr :: u64
  rb_page :: "nat option"
  rb_page_offset :: u16
  rb_len :: u16
  rb_flags :: u16
  rb_vlan_tci :: u16

text \<open>\<open>struct efx_rx_queue\<close>: an array that is not allocated is the empty list, \<open>page_ring\<close>
  is \<open>None\<close> where the pointer is null; \<open>slow_fill_work\<close> and \<open>grant_work\<close> say whether
  the work item is queued.\<close>

record efx_rx_queue = rx_host +
  rxq_buffer :: "efx_rx_buffer list"
  rxd :: "u64 list"
  rxq_ptr_mask :: u32
  refill_enabled :: bool
  grant_credits :: bool
  added_count :: u32
  notified_count :: u32
  granted_count :: u32
  removed_count :: u32
  page_ring :: "nat option list option"
  page_add :: u32
  page_remove :: u32
  page_recycle_count :: u32
  page_recycle_failed :: u32
  page_recycle_full :: u32
  page_repost_count :: u32
  page_ptr_mask :: u32
  max_fill :: u32
  fast_fill_trigger :: u32
  min_fill :: u32
  recycle_count :: u32
  slow_fill_count :: u32
  slow_fill_work :: bool
  grant_work :: bool
  rx_packets :: u64
  failed_flush_count :: u32

text \<open>The queue within its channel; the channel's fields that the receive path uses.\<close>

record rx_channel = efx_rx_queue +
  rx_pkt_n_frags :: u32
  rx_pkt_index :: nat
  irq_mod_score :: u32
  n_rx_merge_events :: u32
  n_rx_eth_crc_err :: u32
  n_rx_frm_trunc :: u32
  n_rx_mport_bad :: u32
  n_rx_ip_hdr_chksum_err :: u32

text \<open>
  What the rest of the system answers: whether the \<open>n\<close>th attempt to allocate a page succeeds, the
  \<open>n\<close>th mapping (\<open>None\<close> where \<open>dma_mapping_error\<close> would hold), the bytes that the controller
  wrote into a page, whether \<open>napi_get_frags\<close> finds memory and \<open>napi_gro_frags\<close> returns
  \<open>GRO_DROP\<close>, the features and ports of the device,
  and the representor of a port with whether it is up.
\<close>

record rx_env =
  env_page :: "nat \<Rightarrow> bool"
  env_dma :: "nat \<Rightarrow> u64 option"
  env_mem :: "nat \<Rightarrow> nat \<Rightarrow> u8"
  env_skb :: "nat \<Rightarrow> bool"
  env_gro_drop :: "nat \<Rightarrow> bool"
  feat_rxall :: bool
  feat_rxhash :: bool
  feat_rxcsum :: bool
  have_mport :: bool
  base_mport :: u32
  have_old_mport :: bool
  old_base_mport :: u32
  env_rep :: "u16 \<Rightarrow> bool option"
  receive_skb :: bool

subsection \<open>Pages\<close>

definition set_page :: "nat \<Rightarrow> rx_page option \<Rightarrow> rx_channel \<Rightarrow> rx_channel" where
  "set_page p g s = s\<lparr>host_pages := (host_pages s)(p := g)\<rparr>"

definition put_page :: "nat \<Rightarrow> rx_channel \<Rightarrow> rx_channel option" where
  "put_page p s =
     (case host_pages s p of
        None \<Rightarrow> None
      | Some g \<Rightarrow>
          if pg_count g = 0 then None
          else if pg_count g = 1 then (if pg_mapped g = None then Some (set_page p None s) else None)
          else Some (set_page p (Some (g\<lparr>pg_count := pg_count g - 1\<rparr>)) s))"

definition page_ref_add :: "nat \<Rightarrow> nat \<Rightarrow> rx_channel \<Rightarrow> rx_channel option" where
  "page_ref_add p n s =
     (case host_pages s p of
        None \<Rightarrow> None
      | Some g \<Rightarrow> Some (set_page p (Some (g\<lparr>pg_count := pg_count g + n\<rparr>)) s))"

text \<open>\<open>dma_unmap_page\<close> with the address kept at the start of the page.\<close>

definition unmap_page :: "nat \<Rightarrow> rx_channel \<Rightarrow> rx_channel option" where
  "unmap_page p s =
     (case host_pages s p of
        None \<Rightarrow> None
      | Some g \<Rightarrow>
          if pg_mapped g = Some (pg_dma_addr g) then Some (set_page p (Some (g\<lparr>pg_mapped := None\<rparr>)) s)
          else None)"

subsection \<open>Access to the ring\<close>

definition efx_rx_buffer_at :: "rx_channel \<Rightarrow> nat \<Rightarrow> efx_rx_buffer option" where
  "efx_rx_buffer_at s i = (if i < length (rxq_buffer s) then Some (rxq_buffer s ! i) else None)"

definition set_rx_buffer :: "nat \<Rightarrow> efx_rx_buffer \<Rightarrow> rx_channel \<Rightarrow> rx_channel option" where
  "set_rx_buffer i b s =
     (if i < length (rxq_buffer s) then Some (s\<lparr>rxq_buffer := (rxq_buffer s)[i := b]\<rparr>) else None)"

definition efx_rx_buf_next :: "rx_channel \<Rightarrow> nat \<Rightarrow> nat" where
  "efx_rx_buf_next s i = (if i = unat (rxq_ptr_mask s) then 0 else Suc i)"

definition rx_add_index :: "rx_channel \<Rightarrow> nat" where
  "rx_add_index s = unat (added_count s AND rxq_ptr_mask s)"

subsection \<open>Releasing buffers\<close>

definition efx_unmap_rx_buffer :: "efx_rx_buffer \<Rightarrow> rx_channel \<Rightarrow> rx_channel option" where
  "efx_unmap_rx_buffer b s =
     (if rb_flags b AND EFX_RX_PAGE_IN_RECYCLE_RING \<noteq> 0 then Some s
      else case rb_page b of None \<Rightarrow> Some s | Some p \<Rightarrow> unmap_page p s)"

fun efx_free_rx_buffers :: "nat \<Rightarrow> nat \<Rightarrow> rx_channel \<Rightarrow> rx_channel option" where
  "efx_free_rx_buffers i 0 s = Some s"
| "efx_free_rx_buffers i (Suc n) s =
     do {
       b \<leftarrow> efx_rx_buffer_at s i;
       s \<leftarrow> (case rb_page b of
               None \<Rightarrow> Some s
             | Some p \<Rightarrow> do { s \<leftarrow> put_page p s; set_rx_buffer i (b\<lparr>rb_page := None\<rparr>) s });
       efx_free_rx_buffers (efx_rx_buf_next s i) n s
     }"

text \<open>\<open>efx_fini_rx_buffer\<close>, of a channel without zero-copy sockets: \<open>efx_fini_rx_buffer_nzc\<close>.\<close>

definition efx_fini_rx_buffer :: "nat \<Rightarrow> rx_channel \<Rightarrow> rx_channel option" where
  "efx_fini_rx_buffer i s =
     do {
       b \<leftarrow> efx_rx_buffer_at s i;
       s \<leftarrow> (case rb_page b of None \<Rightarrow> Some s | Some p \<Rightarrow> put_page p s);
       s \<leftarrow> (if rb_flags b AND EFX_RX_BUF_LAST_IN_PAGE \<noteq> 0
             then do {
               s \<leftarrow> efx_unmap_rx_buffer b s;
               if rb_flags b AND EFX_RX_PAGE_IN_RECYCLE_RING = 0 then efx_free_rx_buffers i 1 s else Some s }
             else Some s);
       b \<leftarrow> efx_rx_buffer_at s i;
       set_rx_buffer i (b\<lparr>rb_page := None\<rparr>) s
     }"

subsection \<open>The recycle ring\<close>

definition efx_reuse_page :: "rx_nic \<Rightarrow> rx_channel \<Rightarrow> (nat option \<times> rx_channel) option" where
  "efx_reuse_page c s =
     (if rx_recycle_ring_size c = 0 then Some (None, s)
      else case page_ring s of
        None \<Rightarrow> Some (None, s)
      | Some ring \<Rightarrow>
          let index = unat (page_remove s AND page_ptr_mask s);
              s1 = s\<lparr>page_remove := page_remove s + 1\<rparr> in
          if length ring \<le> index then None
          else case ring ! index of
            None \<Rightarrow> Some (None, s1)
          | Some p \<Rightarrow>
              (case host_pages s1 p of
                 None \<Rightarrow> None
               | Some g \<Rightarrow>
                   if pg_count g \<noteq> 1
                   then Some (None, s1\<lparr>page_recycle_failed := page_recycle_failed s1 + 1\<rparr>)
                   else Some (Some p, s1\<lparr>page_recycle_count := page_recycle_count s1 + 1\<rparr>)))"

definition recycle_full :: "nat \<Rightarrow> rx_channel \<Rightarrow> rx_channel option" where
  "recycle_full i s =
     do {
       s \<leftarrow> Some (s\<lparr>page_recycle_full := page_recycle_full s + 1\<rparr>);
       b \<leftarrow> efx_rx_buffer_at s i;
       s \<leftarrow> efx_unmap_rx_buffer b s;
       case rb_page b of None \<Rightarrow> None | Some p \<Rightarrow> put_page p s
     }"

definition efx_recycle_rx_page :: "rx_nic \<Rightarrow> nat \<Rightarrow> rx_channel \<Rightarrow> rx_channel option" where
  "efx_recycle_rx_page c i s =
     do {
       b \<leftarrow> efx_rx_buffer_at s i;
       if rb_flags b AND EFX_RX_PAGE_IN_RECYCLE_RING \<noteq> 0 then Some s
       else if rb_flags b AND EFX_RX_BUF_LAST_IN_PAGE = 0 then Some s
       else if rx_recycle_ring_size c \<noteq> 0 \<and> page_add s \<noteq> rx_recycle_ring_size c
       then (case page_ring s of
               None \<Rightarrow> None
             | Some ring \<Rightarrow>
                 let index = unat (page_add s AND page_ptr_mask s) in
                 if length ring \<le> index then None
                 else if ring ! index = None
                 then Some (s\<lparr>page_ring := Some (ring[index := rb_page b]), page_add := page_add s + 1\<rparr>)
                 else recycle_full i s)
       else recycle_full i s
     }"

text \<open>The loop runs at least once; a count of 0 would wrap and run out of the ring.\<close>

fun efx_recycle_rx_pages :: "rx_nic \<Rightarrow> nat \<Rightarrow> nat \<Rightarrow> rx_channel \<Rightarrow> rx_channel option" where
  "efx_recycle_rx_pages c i 0 s = None"
| "efx_recycle_rx_pages c i (Suc n) s =
     do {
       s \<leftarrow> efx_recycle_rx_page c i s;
       if n = 0 then Some s else efx_recycle_rx_pages c (efx_rx_buf_next s i) n s
     }"

text \<open>The allocation of the ring succeeds or not (\<open>ok\<close>).\<close>

definition efx_init_rx_recycle_ring :: "rx_nic \<Rightarrow> bool \<Rightarrow> rx_channel \<Rightarrow> rx_channel option" where
  "efx_init_rx_recycle_ring c ok s =
     (if rx_recycle_ring_size c = 0 then Some s
      else if rx_bufs_per_page c = 0 then None
      else let page_ring_size = roundup_pow_of_two (unat (rx_recycle_ring_size c div rx_bufs_per_page c)) in
        Some (s\<lparr>page_ring := (if ok then Some (replicate page_ring_size None) else None),
                page_ptr_mask := of_nat page_ring_size - 1\<rparr>))"

fun release_pages :: "nat option list \<Rightarrow> rx_channel \<Rightarrow> rx_channel option" where
  "release_pages [] s = Some s"
| "release_pages (None # ps) s = release_pages ps s"
| "release_pages (Some p # ps) s = do { s \<leftarrow> unmap_page p s; s \<leftarrow> put_page p s; release_pages ps s }"

definition efx_fini_rx_recycle_ring :: "rx_nic \<Rightarrow> rx_channel \<Rightarrow> rx_channel option" where
  "efx_fini_rx_recycle_ring c s =
     (if rx_recycle_ring_size c = 0 then Some s
      else case page_ring s of
        None \<Rightarrow> Some s
      | Some ring \<Rightarrow>
          if length ring \<le> unat (page_ptr_mask s) then None
          else do {
            s \<leftarrow> release_pages (take (Suc (unat (page_ptr_mask s))) ring) s;
            Some (s\<lparr>page_ring := None\<rparr>)
          })"

end
