(* ===== verification/Ef100_Rx.thy ===== *)
theory Ef100_Rx
  imports Rx
begin

section \<open>Filling and emptying the receive ring (rx_common.c, ef100_rx.c)\<close>

text \<open>
  \<open>efx_fast_push_rx_descriptors\<close> posts pages until the ring holds its fill level; a receive event
  counts packets, each of which takes the oldest buffer. Delivery is pipelined: a packet is passed on
  when the next one arrives or the poll ends. A packet goes to the kernel through GRO, to the
  representor of the virtual function it came from, or is dropped.
\<close>

subsection \<open>Posting pages\<close>

definition efx_init_rx_buffer :: "rx_nic \<Rightarrow> nat \<Rightarrow> u32 \<Rightarrow> u16 \<Rightarrow> rx_channel \<Rightarrow> rx_channel option" where
  "efx_init_rx_buffer c p page_offset flags s =
     do {
       g \<leftarrow> host_pages s p;
       let off = page_offset + ucast sizeof_rx_page_state + ucast XDP_PACKET_HEADROOM;
       s \<leftarrow> set_rx_buffer (rx_add_index s)
              \<lparr>rb_dma_addr = pg_dma_addr g + ucast off + ucast (rx_ip_align c),
               rb_page = Some p,
               rb_page_offset = ucast (align_up (off + rx_ip_align c) (ucast L1_CACHE_BYTES)),
               rb_len = ucast (rx_dma_len c), rb_flags = flags, rb_vlan_tci = 0\<rparr> s;
       Some (s\<lparr>added_count := added_count s + 1\<rparr>)
     }"

text \<open>The inner loop of \<open>efx_init_rx_buffers_nzc\<close>; it runs at least once.\<close>

function rx_fill_page :: "rx_nic \<Rightarrow> nat \<Rightarrow> nat \<Rightarrow> u32 \<Rightarrow> u16 \<Rightarrow> rx_channel \<Rightarrow> rx_channel option" where
  "rx_fill_page c p i page_offset flags s =
     do {
       let flags = (if of_nat i = rx_bufs_per_page c - 1 then flags OR EFX_RX_BUF_LAST_IN_PAGE else flags);
       s \<leftarrow> efx_init_rx_buffer c p page_offset flags s;
       if Suc i < unat (rx_bufs_per_page c)
       then rx_fill_page c p (Suc i) (page_offset + rx_page_buf_step c) flags s
       else Some s
     }"
  by pat_completeness auto
termination
  by (relation "measure (\<lambda>(c, p, i, _). unat (rx_bufs_per_page c) - i)") auto

declare rx_fill_page.simps [simp del]

definition rx_post_page :: "rx_nic \<Rightarrow> nat \<Rightarrow> u16 \<Rightarrow> rx_channel \<Rightarrow> rx_channel option" where
  "rx_post_page c p flags s =
     do { s \<leftarrow> rx_fill_page c p 0 0 flags s; page_ref_add p (unat (rx_bufs_per_page c)) s }"

text \<open>A new page is known by the number of the attempt that allocated it.\<close>

definition rx_alloc_page :: "rx_env \<Rightarrow> rx_channel \<Rightarrow> (int + nat) \<times> rx_channel" where
  "rx_alloc_page env s =
     (let p = host_tries s; s1 = s\<lparr>host_tries := Suc p\<rparr> in
      if \<not> env_page env p then (Inl (- ENOMEM), s1)
      else let s2 = s1\<lparr>host_maps := Suc (host_maps s1)\<rparr> in
        case env_dma env (host_maps s1) of
          None \<Rightarrow> (Inl (- EIO), set_page p None s2)
        | Some a \<Rightarrow>
            (Inr p, set_page p (Some \<lparr>pg_count = 1, pg_dma_addr = a, pg_mapped = Some a, pg_skb_refs = 0\<rparr>) s2))"

definition rx_get_page :: "rx_env \<Rightarrow> rx_nic \<Rightarrow> rx_channel \<Rightarrow> ((int + nat \<times> u16) \<times> rx_channel) option" where
  "rx_get_page env c s =
     do {
       (reused, s) \<leftarrow> efx_reuse_page c s;
       case reused of
         Some p \<Rightarrow> Some (Inr (p, EFX_RX_PAGE_IN_RECYCLE_RING), s)
       | None \<Rightarrow>
           (case rx_alloc_page env s of
              (Inl rc, s) \<Rightarrow> Some (Inl rc, s)
            | (Inr p, s) \<Rightarrow> Some (Inr (p, 0), s))
     }"

function rx_init_pages :: "rx_env \<Rightarrow> rx_nic \<Rightarrow> nat \<Rightarrow> rx_channel \<Rightarrow> (int \<times> rx_channel) option" where
  "rx_init_pages env c count s =
     do {
       (r, s) \<leftarrow> rx_get_page env c s;
       case r of
         Inl rc \<Rightarrow> Some (rc, s)
       | Inr (p, flags) \<Rightarrow>
           do {
             s \<leftarrow> rx_post_page c p flags s;
             if Suc count < unat (rx_pages_per_batch c) then rx_init_pages env c (Suc count) s else Some (0, s)
           }
     }"
  by pat_completeness auto
termination
  by (relation "measure (\<lambda>(_, c, count, _). unat (rx_pages_per_batch c) - count)") auto

declare rx_init_pages.simps [simp del]

text \<open>\<open>efx_init_rx_buffers\<close>, of a channel without zero-copy sockets: \<open>efx_init_rx_buffers_nzc\<close>.\<close>

definition efx_init_rx_buffers :: "rx_env \<Rightarrow> rx_nic \<Rightarrow> rx_channel \<Rightarrow> (int \<times> rx_channel) option" where
  "efx_init_rx_buffers env c s = rx_init_pages env c 0 s"

definition efx_schedule_slow_fill :: "rx_channel \<Rightarrow> rx_channel" where
  "efx_schedule_slow_fill s = s\<lparr>slow_fill_work := True\<rparr>"

definition efx_cancel_slow_fill :: "rx_channel \<Rightarrow> rx_channel" where
  "efx_cancel_slow_fill s = s\<lparr>slow_fill_work := False\<rparr>"

text \<open>The work item calls the type's \<open>rx_defer_refill\<close>, given here by what it returns if the type
  has one; the EF100 has none.\<close>

definition ef100_rx_defer_refill :: "int option" where
  "ef100_rx_defer_refill = None"

definition efx_rx_slow_fill :: "int option \<Rightarrow> rx_channel \<Rightarrow> rx_channel option" where
  "efx_rx_slow_fill rx_defer_refill s =
     (case rx_defer_refill of
        None \<Rightarrow> None
      | Some rc \<Rightarrow>
          let s1 = s\<lparr>slow_fill_work := False\<rparr>;
              s2 = (if rc \<noteq> 0 then efx_schedule_slow_fill s1 else s1) in
          Some (s2\<lparr>slow_fill_count := slow_fill_count s2 + 1\<rparr>))"

subsection \<open>Descriptors\<close>

abbreviation ESF_GZ_RX_BUF_ADDR :: efx_field where "ESF_GZ_RX_BUF_ADDR \<equiv> (0, 64)"
abbreviation ERF_GZ_RX_RING_PIDX :: efx_field where "ERF_GZ_RX_RING_PIDX \<equiv> (16, 16)"

function rx_write_loop :: "u32 \<Rightarrow> rx_channel \<Rightarrow> rx_channel option" where
  "rx_write_loop n s =
     (if n = added_count s then Some s
      else do {
        let i = unat (n AND rxq_ptr_mask s);
        b \<leftarrow> efx_rx_buffer_at s i;
        if length (rxd s) \<le> i then None
        else rx_write_loop (n + 1)
               (s\<lparr>rxd := (rxd s)[i := EFX_POPULATE_QWORD [(ESF_GZ_RX_BUF_ADDR, rb_dma_addr b)]]\<rparr>)
      })"
  by pat_completeness auto
termination
proof (relation "measure (\<lambda>(n, s). unat (added_count s - n))")
  fix n :: u32 and s :: rx_channel and i b
  assume "n \<noteq> added_count s"
  then show "((n + 1, s\<lparr>rxd := (rxd s)[i := EFX_POPULATE_QWORD [(ESF_GZ_RX_BUF_ADDR, rb_dma_addr b)]]\<rparr>), n, s)
      \<in> measure (\<lambda>(n, s). unat (added_count s - n))"
    using ring_fill_pop [of n "added_count s"] by simp
qed simp

declare rx_write_loop.simps [simp del]

definition ef100_rx_write :: "rx_channel \<Rightarrow> rx_channel option" where
  "ef100_rx_write s =
     do {
       s \<leftarrow> rx_write_loop (notified_count s) s;
       let rxdb = EFX_POPULATE_DWORD [(ERF_GZ_RX_RING_PIDX, added_count s AND rxq_ptr_mask s)];
       let s = s\<lparr>rx_doorbells := rxdb # rx_doorbells s, notified_count := added_count s\<rparr>;
       Some (if grant_credits s then s\<lparr>grant_work := True\<rparr> else s)
     }"

subsection \<open>Filling\<close>

text \<open>\<open>space\<close> is an \<open>int\<close> that the loop compares as unsigned.\<close>

partial_function (option) rx_push_loop ::
    "rx_env \<Rightarrow> rx_nic \<Rightarrow> u32 \<Rightarrow> u32 \<Rightarrow> rx_channel \<Rightarrow> rx_channel option" where
  "rx_push_loop env c batch_size space s =
     (if batch_size \<le> space
      then Option.bind (efx_init_rx_buffers env c s) (\<lambda>r.
             if fst r \<noteq> 0 then Some (efx_schedule_slow_fill (snd r))
             else rx_push_loop env c batch_size (space - batch_size) (snd r))
      else Some s)"

declare rx_push_loop.simps [code]

definition efx_fast_push_rx_descriptors :: "rx_env \<Rightarrow> rx_nic \<Rightarrow> rx_channel \<Rightarrow> rx_channel option" where
  "efx_fast_push_rx_descriptors env c s =
     (if \<not> refill_enabled s then Some s
      else
        let fill_level = added_count s - removed_count s in
        do {
          s \<leftarrow> (if fast_fill_trigger s \<le> fill_level then Some s
                else
                  let s1 = (if fill_level < min_fill s \<and> fill_level \<noteq> 0 then s\<lparr>min_fill := fill_level\<rparr> else s);
                      batch_size = rx_pages_per_batch c * rx_bufs_per_page c;
                      space = max_fill s1 - fill_level in
                  rx_push_loop env c batch_size space s1);
          if notified_count s \<noteq> added_count s then ef100_rx_write s else Some s
        })"

end
