(* ===== verification/Ef100_Rx_Path.thy ===== *)
theory Ef100_Rx_Path
  imports Ef100_Rx
begin

section \<open>Received packets and the life of a receive queue (ef100_rx.c, rx_common.c, efx.h)\<close>

text \<open>
  The controller writes a prefix of 22 bytes before each packet. The model reads it from the bytes of
  the page (\<open>env_mem\<close>), as the macros of \<open>ef100_rx.c\<close> do. The channel is one without handlers of
  its own for received packets (\<open>receive_raw\<close>) and without an XDP program, so that
  \<open>efx_xdp_rx\<close> lets every packet pass.
\<close>

subsection \<open>The prefix\<close>

abbreviation (input) ESE_GZ_RX_PKT_PREFIX_LEN :: nat where "ESE_GZ_RX_PKT_PREFIX_LEN \<equiv> 22"
abbreviation (input) ESF_GZ_RX_PREFIX_CSUM_FRAME :: "nat \<times> nat" where "ESF_GZ_RX_PREFIX_CSUM_FRAME \<equiv> (144, 16)"
abbreviation (input) ESF_GZ_RX_PREFIX_INGRESS_VPORT :: "nat \<times> nat" where "ESF_GZ_RX_PREFIX_INGRESS_VPORT \<equiv> (128, 16)"
abbreviation (input) ESF_GZ_RX_PREFIX_CLASS :: "nat \<times> nat" where "ESF_GZ_RX_PREFIX_CLASS \<equiv> (16, 16)"
abbreviation (input) ESF_GZ_RX_PREFIX_NT_OR_INNER_L3_CLASS :: "nat \<times> nat" where
  "ESF_GZ_RX_PREFIX_NT_OR_INNER_L3_CLASS \<equiv> (24, 2)"
abbreviation (input) ESF_GZ_RX_PREFIX_HCLASS_L2_STATUS :: "nat \<times> nat" where "ESF_GZ_RX_PREFIX_HCLASS_L2_STATUS \<equiv> (0, 2)"
abbreviation (input) ESF_GZ_RX_PREFIX_RSS_HASH_VALID :: "nat \<times> nat" where "ESF_GZ_RX_PREFIX_RSS_HASH_VALID \<equiv> (14, 1)"
abbreviation (input) ESF_GZ_RX_PREFIX_LENGTH :: "nat \<times> nat" where "ESF_GZ_RX_PREFIX_LENGTH \<equiv> (0, 14)"
abbreviation (input) ESE_GZ_RH_HCLASS_L2_STATUS_OK :: u32 where "ESE_GZ_RH_HCLASS_L2_STATUS_OK \<equiv> 0"
abbreviation (input) ESE_GZ_RH_HCLASS_L2_STATUS_FCS_ERR :: u32 where "ESE_GZ_RH_HCLASS_L2_STATUS_FCS_ERR \<equiv> 2"
abbreviation (input) ETH_HLEN :: u16 where "ETH_HLEN \<equiv> 14"

text \<open>\<open>PREFIX_FIELD\<close> on an array given as a function from indices to its elements: the macro indexes
  with the type of the pointer it is given.\<close>

definition PREFIX_FIELD :: "(nat \<Rightarrow> u32) \<Rightarrow> nat \<times> nat \<Rightarrow> u32" where
  "PREFIX_FIELD w f = drop_bit (fst f mod 32) (w (fst f div 32)) AND mask (snd f)"

definition mem_le32 :: "rx_env \<Rightarrow> nat \<Rightarrow> nat \<Rightarrow> u32" where
  "mem_le32 env p a =
     ucast (env_mem env p a) OR push_bit 8 (ucast (env_mem env p (a + 1)))
       OR push_bit 16 (ucast (env_mem env p (a + 2))) OR push_bit 24 (ucast (env_mem env p (a + 3)))"

text \<open>The 32-bit words of the prefix of a packet whose frame starts at offset \<open>a\<close>.\<close>

definition prefix_words :: "rx_env \<Rightarrow> nat \<Rightarrow> nat \<Rightarrow> nat \<Rightarrow> u32" where
  "prefix_words env p a j = mem_le32 env p (a - ESE_GZ_RX_PKT_PREFIX_LEN + 4 * j)"

text \<open>The argument is a pointer to bytes, so the macro reads a single byte.\<close>

definition ef100_rx_buf_hash_valid :: "(nat \<Rightarrow> u8) \<Rightarrow> bool" where
  "ef100_rx_buf_hash_valid prefix = (PREFIX_FIELD (\<lambda>j. ucast (prefix j)) ESF_GZ_RX_PREFIX_RSS_HASH_VALID \<noteq> 0)"

definition be16_to_cpu :: "u16 \<Rightarrow> u16" where
  "be16_to_cpu x = push_bit 8 x OR drop_bit 8 x"

text \<open>\<open>get_csum\<close> without \<open>BUG85159_CSUM_FRAME\<close>.\<close>

definition get_csum :: "(nat \<Rightarrow> u32) \<Rightarrow> u32" where
  "get_csum w = ucast (be16_to_cpu (ucast (PREFIX_FIELD w ESF_GZ_RX_PREFIX_CSUM_FRAME)))"

definition check_fcs :: "(nat \<Rightarrow> u32) \<Rightarrow> rx_channel \<Rightarrow> bool \<times> rx_channel" where
  "check_fcs w s =
     (let cls = ucast (PREFIX_FIELD w ESF_GZ_RX_PREFIX_CLASS) :: u16;
          fcsum = PREFIX_FIELD (\<lambda>_. ucast cls) ESF_GZ_RX_PREFIX_HCLASS_L2_STATUS in
      if fcsum = ESE_GZ_RH_HCLASS_L2_STATUS_OK then (False, s)
      else if fcsum = ESE_GZ_RH_HCLASS_L2_STATUS_FCS_ERR
      then (True, s\<lparr>n_rx_eth_crc_err := n_rx_eth_crc_err s + 1\<rparr>)
      else (True, s))"

subsection \<open>Passing a packet to the kernel\<close>

definition log_rx :: "rx_outcome \<Rightarrow> rx_channel \<Rightarrow> rx_channel" where
  "log_rx out s = s\<lparr>rx_log := out # rx_log s\<rparr>"

text \<open>The reference of a buffer becomes one of a socket buffer.\<close>

definition skb_take_page :: "nat \<Rightarrow> rx_channel \<Rightarrow> rx_channel option" where
  "skb_take_page p s =
     (case host_pages s p of
        None \<Rightarrow> None
      | Some g \<Rightarrow> Some (set_page p (Some (g\<lparr>pg_skb_refs := pg_skb_refs g + 1\<rparr>)) s))"

fun gro_frags :: "nat \<Rightarrow> nat \<Rightarrow> rx_skb \<Rightarrow> rx_channel \<Rightarrow> (rx_skb \<times> rx_channel) option" where
  "gro_frags i 0 skb s = None"
| "gro_frags i (Suc n) skb s =
     do {
       b \<leftarrow> efx_rx_buffer_at s i;
       p \<leftarrow> rb_page b;
       let skb = skb\<lparr>rs_frags := rs_frags skb @ [(p, rb_page_offset b, rb_len b)]\<rparr>;
       s \<leftarrow> skb_take_page p s;
       s \<leftarrow> set_rx_buffer i (b\<lparr>rb_page := None\<rparr>) s;
       let skb = skb\<lparr>rs_len := rs_len skb + ucast (rb_len b)\<rparr>;
       if n = 0 then Some (skb, s) else gro_frags (efx_rx_buf_next s i) n skb s
     }"

definition efx_rx_packet_gro ::
    "rx_env \<Rightarrow> rx_nic \<Rightarrow> nat \<Rightarrow> nat \<Rightarrow> u32 \<Rightarrow> rx_channel \<Rightarrow> rx_channel option" where
  "efx_rx_packet_gro env c i n_frags csum s =
     do {
       b \<leftarrow> efx_rx_buffer_at s i;
       p \<leftarrow> rb_page b;
       let eh = unat (rb_page_offset b);
       if \<not> env_skb env (length (rx_log s))
       then do { s \<leftarrow> efx_free_rx_buffers i n_frags s; Some (log_rx (Rx_no_skb p) s) }
       else do {
         let skb = \<lparr>rs_frags = [], rs_len = 0, rs_truesize = 0,
                    rs_hash = (if feat_rxhash env \<and> ef100_rx_buf_hash_valid (\<lambda>j. env_mem env p (eh + j))
                               then Some (mem_le32 env p (eh + 8 - ESE_GZ_RX_PKT_PREFIX_LEN)) else None),
                    rs_csum = csum,
                    rs_summed = (if csum \<noteq> 0 then Checksum_complete
                                 else if rb_flags b AND EFX_RX_PKT_CSUMMED \<noteq> 0 then Checksum_unnecessary
                                 else Checksum_none)\<rparr>;
         (skb, s) \<leftarrow> gro_frags i n_frags skb s;
         let skb = skb\<lparr>rs_truesize := rs_truesize skb + of_nat n_frags * rx_buffer_truesize c\<rparr>;
         let score = (if env_gro_drop env (length (rx_log s)) then 0 else 2);
         Some (log_rx (Rx_gro skb) (s\<lparr>irq_mod_score := irq_mod_score s + score\<rparr>))
       }
     }"

definition foreign_port :: "rx_env \<Rightarrow> u16 \<Rightarrow> bool" where
  "foreign_port env ing_port \<longleftrightarrow>
     have_mport env \<and> ucast ing_port \<noteq> base_mport env \<and> have_old_mport env \<and> ucast ing_port \<noteq> old_base_mport env"

text \<open>A packet for a virtual function: its representor copies it, or it is dropped.\<close>

definition rx_foreign :: "rx_env \<Rightarrow> nat \<Rightarrow> nat \<Rightarrow> u16 \<Rightarrow> rx_channel \<Rightarrow> rx_channel option" where
  "rx_foreign env i p ing_port s =
     (case env_rep env ing_port of
        Some True \<Rightarrow> Some (log_rx (Rx_to_rep ing_port p) s)
      | Some False \<Rightarrow> do { s \<leftarrow> efx_free_rx_buffers i 1 s; Some (log_rx (Rx_rep_down p) s) }
      | None \<Rightarrow>
          do {
            s \<leftarrow> efx_free_rx_buffers i 1 (s\<lparr>n_rx_mport_bad := n_rx_mport_bad s + 1\<rparr>);
            Some (log_rx (Rx_bad_port p) s) })"

definition rx_checksum :: "rx_env \<Rightarrow> (nat \<Rightarrow> u32) \<Rightarrow> rx_channel \<Rightarrow> u32 \<times> rx_channel" where
  "rx_checksum env w s =
     (if \<not> feat_rxcsum env then (0, s)
      else if PREFIX_FIELD w ESF_GZ_RX_PREFIX_NT_OR_INNER_L3_CLASS = 1
      then (0, s\<lparr>n_rx_ip_hdr_chksum_err := n_rx_ip_hdr_chksum_err s + 1\<rparr>)
      else (get_csum w, s))"

definition rx_deliver :: "rx_env \<Rightarrow> rx_nic \<Rightarrow> nat \<Rightarrow> nat \<Rightarrow> (nat \<Rightarrow> u32) \<Rightarrow> rx_channel \<Rightarrow> rx_channel option" where
  "rx_deliver env c i p w s =
     (let ing_port = ucast (PREFIX_FIELD w ESF_GZ_RX_PREFIX_INGRESS_VPORT) :: u16 in
      if foreign_port env ing_port then rx_foreign env i p ing_port s
      else let (csum, s) = rx_checksum env w s in
        if receive_skb env
        then do { s \<leftarrow> efx_free_rx_buffers i 1 s; Some (log_rx (Rx_no_receiver p) s) }
        else efx_rx_packet_gro env c i (unat (rx_pkt_n_frags s)) csum s)"

text \<open>\<open>__ef100_rx_packet\<close>, the packet that the channel holds back.\<close>

definition ef100_deliver_packet :: "rx_env \<Rightarrow> rx_nic \<Rightarrow> rx_channel \<Rightarrow> rx_channel option" where
  "ef100_deliver_packet env c s =
     do {
       let i = rx_pkt_index s;
       b \<leftarrow> efx_rx_buffer_at s i;
       p \<leftarrow> rb_page b;
       g \<leftarrow> host_pages s p;
       if unat (rb_page_offset b) < ESE_GZ_RX_PKT_PREFIX_LEN then None
       else do {
         let w = prefix_words env p (unat (rb_page_offset b));
         let (bad, s) = check_fcs w s;
         s \<leftarrow> (if bad \<and> \<not> feat_rxall env then Some (log_rx (Rx_bad_fcs p) s)
               else do {
                 let len = (ucast (PREFIX_FIELD w ESF_GZ_RX_PREFIX_LENGTH) :: u16);
                 s \<leftarrow> set_rx_buffer i (b\<lparr>rb_len := len\<rparr>) s;
                 if len \<le> ETH_HLEN
                 then Some (log_rx (Rx_short p) (s\<lparr>n_rx_frm_trunc := n_rx_frm_trunc s + 1\<rparr>))
                 else rx_deliver env c i p w s
               });
         Some (s\<lparr>rx_pkt_n_frags := 0\<rparr>)
       }
     }"

definition efx_rx_flush_packet :: "rx_env \<Rightarrow> rx_nic \<Rightarrow> rx_channel \<Rightarrow> rx_channel option" where
  "efx_rx_flush_packet env c s = (if rx_pkt_n_frags s \<noteq> 0 then ef100_deliver_packet env c s else Some s)"

subsection \<open>Receive events\<close>

abbreviation ESF_GZ_EV_RXPKTS_NUM_PKT :: efx_field where "ESF_GZ_EV_RXPKTS_NUM_PKT \<equiv> (0, 16)"

text \<open>\<open>dma_sync_single_for_cpu\<close> is for memory that is mapped.\<close>

definition efx_sync_rx_buffer :: "efx_rx_buffer \<Rightarrow> rx_channel \<Rightarrow> rx_channel option" where
  "efx_sync_rx_buffer b s =
     do { p \<leftarrow> rb_page b; g \<leftarrow> host_pages s p; if pg_mapped g = None then None else Some s }"

definition ef100_rx_packet :: "rx_env \<Rightarrow> rx_nic \<Rightarrow> nat \<Rightarrow> rx_channel \<Rightarrow> rx_channel option" where
  "ef100_rx_packet env c i s =
     do {
       let s = s\<lparr>rx_packets := rx_packets s + 1\<rparr>;
       b \<leftarrow> efx_rx_buffer_at s i;
       s \<leftarrow> efx_sync_rx_buffer b s;
       s \<leftarrow> set_rx_buffer i (b\<lparr>rb_page_offset := rb_page_offset b + ucast (rx_prefix_size c)\<rparr>) s;
       s \<leftarrow> efx_recycle_rx_pages c i 1 s;
       s \<leftarrow> efx_rx_flush_packet env c s;
       Some (s\<lparr>rx_pkt_n_frags := 1, rx_pkt_index := i\<rparr>)
     }"

fun ef100_rx_loop :: "rx_env \<Rightarrow> rx_nic \<Rightarrow> nat \<Rightarrow> rx_channel \<Rightarrow> rx_channel option" where
  "ef100_rx_loop env c 0 s = Some s"
| "ef100_rx_loop env c (Suc n) s =
     do {
       s \<leftarrow> ef100_rx_packet env c (unat (removed_count s AND rxq_ptr_mask s)) s;
       ef100_rx_loop env c n (s\<lparr>removed_count := removed_count s + 1\<rparr>)
     }"

definition efx_ef100_ev_rx :: "rx_env \<Rightarrow> rx_nic \<Rightarrow> u64 \<Rightarrow> rx_channel \<Rightarrow> rx_channel option" where
  "efx_ef100_ev_rx env c event s =
     (let n_packets = EFX_QWORD_FIELD event ESF_GZ_EV_RXPKTS_NUM_PKT;
          s1 = (if 1 < n_packets then s\<lparr>n_rx_merge_events := n_rx_merge_events s + 1\<rparr> else s);
          s2 = s1\<lparr>irq_mod_score := irq_mod_score s1 + 2 * ucast n_packets\<rparr> in
      ef100_rx_loop env c (unat n_packets) s2)"

text \<open>The receive part of \<open>efx_process_channel\<close>, after events that \<open>spent\<close> some of the budget.\<close>

definition rx_end_of_poll :: "rx_env \<Rightarrow> rx_nic \<Rightarrow> nat \<Rightarrow> rx_channel \<Rightarrow> rx_channel option" where
  "rx_end_of_poll env c spent s =
     (if spent \<noteq> 0
      then do { s \<leftarrow> efx_rx_flush_packet env c s; efx_fast_push_rx_descriptors env c s }
      else Some s)"

subsection \<open>The life of a queue\<close>

definition empty_rx_buffer :: efx_rx_buffer where
  "empty_rx_buffer = \<lparr>rb_dma_addr = 0, rb_page = None, rb_page_offset = 0, rb_len = 0, rb_flags = 0, rb_vlan_tci = 0\<rparr>"

text \<open>The hardware ring is allocated by \<open>efx_nic_probe_rx\<close>, which returns \<open>rc\<close>.\<close>

definition efx_probe_rx_queue :: "rx_nic \<Rightarrow> nat \<Rightarrow> bool \<Rightarrow> int \<Rightarrow> rx_channel \<Rightarrow> int \<times> rx_channel" where
  "efx_probe_rx_queue c min_dmaq_size ok rc s =
     (let entries = max (roundup_pow_of_two (unat (rxq_entries c))) min_dmaq_size;
          s1 = s\<lparr>rxq_ptr_mask := of_nat entries - 1\<rparr> in
      if \<not> ok then (- ENOMEM, s1\<lparr>rxq_buffer := []\<rparr>)
      else if rc \<noteq> 0 then (rc, s1\<lparr>rxq_buffer := []\<rparr>)
      else (0, s1\<lparr>rxq_buffer := replicate entries empty_rx_buffer, rxd := replicate entries 0\<rparr>))"

text \<open>\<open>rc_xdp\<close> is what \<open>xdp_rxq_info_reg\<close> returns, \<open>rc_init\<close> what \<open>efx_nic_init_rx\<close> does.\<close>

definition efx_init_rx_queue :: "rx_nic \<Rightarrow> bool \<Rightarrow> int \<Rightarrow> int \<Rightarrow> rx_channel \<Rightarrow> (int \<times> rx_channel) option" where
  "efx_init_rx_queue c ring_ok rc_xdp rc_init s =
     do {
       let s = s\<lparr>added_count := 0, notified_count := 0, granted_count := 0, removed_count := 0,
                 min_fill := - 1, failed_flush_count := 0\<rparr>;
       s \<leftarrow> efx_init_rx_recycle_ring c ring_ok s;
       let s = s\<lparr>page_remove := 1, page_add := 0, page_recycle_count := 0, page_recycle_failed := 0,
                 page_recycle_full := 0, page_repost_count := 0\<rparr>;
       let max_fill_0 = rxq_entries c - EFX_RXD_HEAD_ROOM;
       let max_trigger = max_fill_0 - rx_pages_per_batch c * rx_bufs_per_page c;
       let trigger = (if rx_refill_threshold c \<noteq> 0
                      then min (max_fill_0 * min (rx_refill_threshold c) 100 div 100) max_trigger
                      else max_trigger);
       let s = s\<lparr>max_fill := max_fill_0, fast_fill_trigger := trigger, refill_enabled := False\<rparr>;
       if rc_xdp \<noteq> 0 then Some (rc_xdp, s) else Some (rc_init, s)
     }"

text \<open>The steps of \<open>efx_start_channels\<close> for a receive queue.\<close>

definition efx_start_rx_queue :: "rx_env \<Rightarrow> rx_nic \<Rightarrow> bool \<Rightarrow> int \<Rightarrow> int \<Rightarrow> rx_channel \<Rightarrow> (int \<times> rx_channel) option" where
  "efx_start_rx_queue env c ring_ok rc_xdp rc_init s =
     do {
       (rc, s) \<leftarrow> efx_init_rx_queue c ring_ok rc_xdp rc_init s;
       if rc \<noteq> 0 then Some (rc, s)
       else do {
         s \<leftarrow> efx_fast_push_rx_descriptors env c (s\<lparr>refill_enabled := True\<rparr>);
         Some (0, s)
       }
     }"

text \<open>The loop of \<open>efx_fini_rx_queue\<close>, up to \<open>fin\<close>, which is \<open>added_count\<close>. The index is an \<open>int\<close>
  that is compared as unsigned.\<close>

function fini_buffers :: "u32 \<Rightarrow> u32 \<Rightarrow> rx_channel \<Rightarrow> rx_channel option" where
  "fini_buffers i fin s =
     (if i < fin
      then do { s \<leftarrow> efx_fini_rx_buffer (unat (i AND rxq_ptr_mask s)) s; fini_buffers (i + 1) fin s }
      else Some s)"
  by pat_completeness auto
termination
proof (relation "measure (\<lambda>(i, fin, s). unat fin - unat i)")
  fix i fin :: u32 and s s1 :: rx_channel
  assume "i < fin"
  moreover have "unat fin < 2 ^ 32"
    by (rule order_less_le_trans [OF unsigned_less]) simp
  ultimately show "((i + 1, fin, s1), i, fin, s) \<in> measure (\<lambda>(i, fin, s). unat fin - unat i)"
    using unat_Suc_bound [of i] by (simp add: word_less_nat_alt)
qed simp

declare fini_buffers.simps [simp del]

definition efx_fini_rx_queue :: "rx_nic \<Rightarrow> rx_channel \<Rightarrow> rx_channel option" where
  "efx_fini_rx_queue c s =
     do {
       let s = efx_cancel_slow_fill s;
       let s = (if grant_credits s then s\<lparr>grant_work := False\<rparr> else s);
       s \<leftarrow> (if rxq_buffer s = [] then Some s else fini_buffers (removed_count s) (added_count s) s);
       efx_fini_rx_recycle_ring c s
     }"

definition efx_destroy_rx_queue :: "rx_channel \<Rightarrow> rx_channel" where
  "efx_destroy_rx_queue s = s\<lparr>rxq_buffer := []\<rparr>"

end
