(* ===== verification/Rx_Ledger.thy ===== *)
theory Rx_Ledger
  imports Ef100_Rx_Path "HOL-Library.Multiset"
begin

section \<open>Who owns the pages of a receive queue\<close>

text \<open>
  \<open>ledger W A R H t\<close>: in the heap \<open>H\<close> of pages, the pages \<open>W\<close> are owned by the queue, each with
  one base reference and mapped at the address \<open>A\<close> gives; \<open>R\<close> are the references of single buffers;
  every other reference belongs to a socket buffer; no page is mapped that the queue does not own,
  and no live page has a number that is still to be given out. The lemmas are the moves: a
  buffer's reference is dropped or handed to the kernel, the base reference is dropped together with
  the mapping, a page is allocated, a page is split.
\<close>

definition page_ledger :: "nat \<Rightarrow> u64 \<Rightarrow> nat \<Rightarrow> rx_page option \<Rightarrow> bool" where
  "page_ledger w a r pg =
     (case pg of
        None \<Rightarrow> w = 0 \<and> r = 0
      | Some g \<Rightarrow>
          pg_count g = w + r + pg_skb_refs g \<and> 0 < pg_count g \<and> w \<le> 1 \<and>
          pg_mapped g = (if w = 0 then None else Some a) \<and> (w \<noteq> 0 \<longrightarrow> pg_dma_addr g = a))"

definition ledger :: "nat multiset \<Rightarrow> (nat \<Rightarrow> u64) \<Rightarrow> nat multiset \<Rightarrow> (nat \<Rightarrow> rx_page option) \<Rightarrow> nat \<Rightarrow> bool" where
  "ledger W A R H t \<longleftrightarrow> (\<forall>p. page_ledger (count W p) (A p) (count R p) (H p) \<and> (H p \<noteq> None \<longrightarrow> p < t))"

lemma ledger_page: "ledger W A R H t \<Longrightarrow> page_ledger (count W p) (A p) (count R p) (H p)"
  by (simp add: ledger_def)

lemma ledger_live:
  assumes "ledger W A R H t" and "p \<in># W + R"
  obtains g where "H p = Some g" and "page_ledger (count W p) (A p) (count R p) (Some g)" and "p < t"
proof -
  have "H p \<noteq> None"
  proof
    assume "H p = None"
    then have "count W p = 0" "count R p = 0"
      using ledger_page [OF assms(1), of p] by (auto simp: page_ledger_def)
    then show False
      using assms(2) by (auto simp flip: not_in_iff)
  qed
  then show ?thesis
    using assms(1) ledger_page [OF assms(1), of p] that by (auto simp: ledger_def)
qed

lemma ledger_mapped:
  assumes "ledger W A R H t" and "p \<in># W"
  obtains g where "H p = Some g" and "page_ledger (count W p) (A p) (count R p) (Some g)" and "pg_mapped g = Some (A p)"
    and "pg_dma_addr g = A p" and "p < t"
proof -
  obtain g where g: "H p = Some g" "page_ledger (count W p) (A p) (count R p) (Some g)" "p < t"
    using ledger_live [OF assms(1), of p] assms(2) by auto
  moreover have "count W p \<noteq> 0"
    using assms(2) by simp
  ultimately show ?thesis
    using that [of g] by (simp add: page_ledger_def)
qed

text \<open>A change of one page and of the accounts of that page only.\<close>

lemma ledger_update:
  assumes "ledger W A R H t"
    and "\<And>q. q \<noteq> p \<Longrightarrow> count W' q = count W q \<and> count R' q = count R q \<and> A' q = A q"
    and "page_ledger (count W' p) (A' p) (count R' p) pg" and "t \<le> t'" and "pg \<noteq> None \<Longrightarrow> p < t'"
  shows "ledger W' A' R' (H(p := pg)) t'"
  unfolding ledger_def
proof
  fix q
  show "page_ledger (count W' q) (A' q) (count R' q) ((H(p := pg)) q) \<and> ((H(p := pg)) q \<noteq> None \<longrightarrow> q < t')"
  proof (cases "q = p")
    case True
    then show ?thesis
      using assms(3,5) by simp
  next
    case False
    then show ?thesis
      using assms(1,4) assms(2) [OF False] by (auto simp: ledger_def intro: order_less_le_trans)
  qed
qed

lemma host_pages_set_page [simp]: "host_pages (set_page p pg s) = (host_pages s)(p := pg)"
  by (simp add: set_page_def)

text \<open>The page after one reference less.\<close>

definition less_ref :: "rx_page \<Rightarrow> rx_page option" where
  "less_ref g = (if pg_count g = 1 then None else Some (g\<lparr>pg_count := pg_count g - 1\<rparr>))"

lemma put_page_eq:
  assumes "host_pages s p = Some g" and "pg_count g \<noteq> 0" and "pg_count g = 1 \<Longrightarrow> pg_mapped g = None"
  shows "put_page p s = Some (s\<lparr>host_pages := (host_pages s)(p := less_ref g)\<rparr>)"
  using assms by (simp add: put_page_def set_page_def less_ref_def)

lemma page_ledger_less:
  assumes "pg_count g = Suc (w + r + pg_skb_refs g)" and "w \<le> 1"
    and "pg_mapped g = (if w = 0 then None else Some a)" and "w \<noteq> 0 \<Longrightarrow> pg_dma_addr g = a"
  shows "page_ledger w a r (less_ref g)"
  using assms by (auto simp: page_ledger_def less_ref_def)

lemma put_ref:
  assumes "ledger W A (add_mset p R) (host_pages s) t"
  obtains H where "put_page p s = Some (s\<lparr>host_pages := H\<rparr>)" and "ledger W A R H t"
proof -
  obtain g where g: "host_pages s p = Some g" "page_ledger (count W p) (A p) (Suc (count R p)) (Some g)" "p < t"
    using ledger_live [OF assms, of p] by auto
  have c: "pg_count g = Suc (count W p + count R p + pg_skb_refs g)" "count W p \<le> 1"
      "pg_mapped g = (if count W p = 0 then None else Some (A p))" "count W p \<noteq> 0 \<Longrightarrow> pg_dma_addr g = A p"
    using g(2) unfolding page_ledger_def by simp_all
  have "put_page p s = Some (s\<lparr>host_pages := (host_pages s)(p := less_ref g)\<rparr>)"
    using c(1,3) by (intro put_page_eq [OF g(1)]) simp_all
  moreover have "ledger W A R ((host_pages s)(p := less_ref g)) t"
  proof (rule ledger_update [OF assms])
    show "page_ledger (count W p) (A p) (count R p) (less_ref g)"
      using c by (rule page_ledger_less)
  qed (use g(3) in auto)
  ultimately show ?thesis
    by (rule that)
qed

lemma put_base:
  assumes "ledger (add_mset p W) A R (host_pages s) t"
  obtains H H' where "unmap_page p s = Some (s\<lparr>host_pages := H\<rparr>)"
    and "put_page p (s\<lparr>host_pages := H\<rparr>) = Some (s\<lparr>host_pages := H'\<rparr>)" and "ledger W A R H' t"
proof -
  obtain g where g: "host_pages s p = Some g" "page_ledger (Suc (count W p)) (A p) (count R p) (Some g)" "p < t"
      "pg_mapped g = Some (A p)" "pg_dma_addr g = A p"
    using ledger_mapped [OF assms, of p] by auto
  define g1 where "g1 = g\<lparr>pg_mapped := None\<rparr>"
  define H where "H = (host_pages s)(p := Some g1)"
  have c: "pg_count g1 = Suc (count W p + count R p + pg_skb_refs g1)" "count W p \<le> 1" "count W p = 0" "pg_mapped g1 = None"
    using g(2) unfolding page_ledger_def by (simp_all add: g1_def)
  have "unmap_page p s = Some (s\<lparr>host_pages := H\<rparr>)"
    using g by (simp add: unmap_page_def set_page_def H_def g1_def)
  moreover have "put_page p (s\<lparr>host_pages := H\<rparr>) = Some (s\<lparr>host_pages := H(p := less_ref g1)\<rparr>)"
    using put_page_eq [of "s\<lparr>host_pages := H\<rparr>" p g1] c by (simp add: H_def)
  moreover have "ledger W A R ((host_pages s)(p := less_ref g1)) t"
    by (rule ledger_update [OF assms _ page_ledger_less]) (use g(3) c in auto)
  ultimately show ?thesis
    by (intro that [of H "H(p := less_ref g1)"]) (simp_all add: H_def)
qed

lemma skb_take:
  assumes "ledger W A (add_mset p R) (host_pages s) t"
  obtains H where "skb_take_page p s = Some (s\<lparr>host_pages := H\<rparr>)" and "ledger W A R H t"
proof -
  obtain g where g: "host_pages s p = Some g" "page_ledger (count W p) (A p) (Suc (count R p)) (Some g)" "p < t"
    using ledger_live [OF assms, of p] by auto
  have "ledger W A R ((host_pages s)(p := Some (g\<lparr>pg_skb_refs := pg_skb_refs g + 1\<rparr>))) t"
    by (rule ledger_update [OF assms]) (use g in \<open>simp_all add: page_ledger_def\<close>)
  then show ?thesis
    using g(1) by (intro that) (simp_all add: skb_take_page_def set_page_def)
qed

lemma split_page:
  assumes "ledger W A R (host_pages s) t" and "p \<in># W"
  obtains H where "page_ref_add p n s = Some (s\<lparr>host_pages := H\<rparr>)" and "ledger W A (R + replicate_mset n p) H t"
proof -
  obtain g where g: "host_pages s p = Some g" "page_ledger (count W p) (A p) (count R p) (Some g)" "p < t"
    using ledger_live [OF assms(1), of p] assms(2) by auto
  have "ledger W A (R + replicate_mset n p) ((host_pages s)(p := Some (g\<lparr>pg_count := pg_count g + n\<rparr>))) t"
    by (rule ledger_update [OF assms(1)]) (use g assms(2) in \<open>simp_all add: page_ledger_def\<close>)
  then show ?thesis
    using g(1) by (intro that) (simp_all add: page_ref_add_def set_page_def)
qed

lemma alloc_page:
  assumes "ledger W A R (host_pages s) (host_tries s)"
  obtains (fail) rc H m where "rx_alloc_page env s = (Inl rc, s\<lparr>host_tries := Suc (host_tries s), host_maps := m, host_pages := H\<rparr>)"
      and "rc < 0" and "ledger W A R H (Suc (host_tries s))"
  | (ok) a H m where "rx_alloc_page env s = (Inr (host_tries s), s\<lparr>host_tries := Suc (host_tries s), host_maps := m, host_pages := H\<rparr>)"
      and "ledger (add_mset (host_tries s) W) (A(host_tries s := a)) R H (Suc (host_tries s))"
      and "host_tries s \<notin># W + R"
proof -
  define p where "p = host_tries s"
  have none: "host_pages s p = None"
    using assms by (auto simp: ledger_def p_def)
  then have free: "page_ledger (count W p) (A p) (count R p) None" and fresh: "count W p = 0" "count R p = 0"
    using ledger_page [OF assms, of p] by (auto simp: page_ledger_def)
  have same: "(host_pages s)(p := None) = host_pages s"
    using none by auto
  have "ledger W A R ((host_pages s)(p := None)) (Suc p)"
    by (rule ledger_update [OF assms]) (use free in \<open>simp_all add: p_def\<close>)
  then have up: "ledger W A R (host_pages s) (Suc p)"
    by (simp only: same)
  show ?thesis
  proof (cases "env_page env p")
    case False
    show ?thesis
      by (rule fail [where rc = "- ENOMEM" and m = "host_maps s" and H = "host_pages s"])
        (use False up in \<open>simp_all add: rx_alloc_page_def p_def errno_defs\<close>)
  next
    case True
    show ?thesis
    proof (cases "env_dma env (host_maps s)")
      case None
      show ?thesis
        by (rule fail [where rc = "- EIO" and m = "Suc (host_maps s)" and H = "host_pages s"])
          (use None True up same in \<open>simp_all add: rx_alloc_page_def p_def errno_defs set_page_def Let_def\<close>)
    next
      case (Some a)
      define g where "g = \<lparr>pg_count = 1, pg_dma_addr = a, pg_mapped = Some a, pg_skb_refs = 0\<rparr>"
      have "ledger (add_mset p W) (A(p := a)) R ((host_pages s)(p := Some g)) (Suc p)"
        by (rule ledger_update [OF assms]) (use fresh in \<open>simp_all add: page_ledger_def g_def p_def\<close>)
      then show ?thesis
        using True Some fresh by (intro ok [where m = "Suc (host_maps s)" and H = "(host_pages s)(p := Some g)" and a = a])
          (simp_all add: rx_alloc_page_def p_def [symmetric] set_page_def g_def Let_def not_in_iff)
    qed
  qed
qed

lemma sole_owner:
  assumes "ledger W A R H t" and "H p = Some g" and "pg_count g = 1" and "p \<in># W"
  shows "p \<notin># R"
proof -
  have "page_ledger (count W p) (A p) (count R p) (Some g)"
    using ledger_page [OF assms(1), of p] assms(2) by simp
  moreover have "count W p \<noteq> 0"
    using assms(4) by simp
  ultimately have "count R p = 0"
    using assms(3) unfolding page_ledger_def option.case by linarith
  then show ?thesis
    by (simp add: not_in_iff)
qed

end
