(* ===== verification/Rx_Inv.thy ===== *)
theory Rx_Inv
  imports Rx_Ledger
begin

section \<open>The receive ring as a list of pages\<close>

text \<open>
  The buffers between \<open>removed_count\<close> and \<open>added_count\<close> are those of a list of pages, each page
  with all its buffers one after the other, less the first \<open>k\<close> buffers of the oldest page
  (\<open>posted\<close>). The invariant \<open>rx_inv\<close> states this for a head counter \<open>h\<close>, with the slots
  \<open>pipe\<close> whose packets were received and not yet passed on, the recycle ring, and the ledger of all
  references.
\<close>

datatype rx_grp = Grp (grp_page: nat) (grp_ring: bool)

abbreviation bpp :: "rx_nic \<Rightarrow> nat" where "bpp c \<equiv> unat (rx_bufs_per_page c)"

definition grp_off :: "rx_nic \<Rightarrow> nat \<Rightarrow> u32" where
  "grp_off c i = of_nat i * rx_page_buf_step c"

definition grp_flags :: "rx_nic \<Rightarrow> bool \<Rightarrow> nat \<Rightarrow> u16" where
  "grp_flags c ring i =
     (let flags = (if ring then EFX_RX_PAGE_IN_RECYCLE_RING else 0) in
      if of_nat i = rx_bufs_per_page c - 1 then flags OR EFX_RX_BUF_LAST_IN_PAGE else flags)"

definition grp_buf :: "rx_nic \<Rightarrow> (nat \<Rightarrow> u64) \<Rightarrow> rx_grp \<Rightarrow> nat \<Rightarrow> efx_rx_buffer" where
  "grp_buf c A g i =
     (let off = grp_off c i + ucast sizeof_rx_page_state + ucast XDP_PACKET_HEADROOM in
      \<lparr>rb_dma_addr = A (grp_page g) + ucast off + ucast (rx_ip_align c), rb_page = Some (grp_page g),
       rb_page_offset = ucast (align_up (off + rx_ip_align c) (ucast L1_CACHE_BYTES)),
       rb_len = ucast (rx_dma_len c), rb_flags = grp_flags c (grp_ring g) i, rb_vlan_tci = 0\<rparr>)"

definition grp_bufs :: "rx_nic \<Rightarrow> (nat \<Rightarrow> u64) \<Rightarrow> rx_grp \<Rightarrow> efx_rx_buffer list" where
  "grp_bufs c A g = map (grp_buf c A g) [0..<bpp c]"

definition posted :: "rx_nic \<Rightarrow> (nat \<Rightarrow> u64) \<Rightarrow> nat \<Rightarrow> rx_grp list \<Rightarrow> efx_rx_buffer list" where
  "posted c A k gs = drop k (concat (map (grp_bufs c A) gs))"

lemma grp_buf_simps [simp]:
  "rb_page (grp_buf c A g i) = Some (grp_page g)"
  "rb_flags (grp_buf c A g i) = grp_flags c (grp_ring g) i"
  by (simp_all add: grp_buf_def Let_def)

lemma length_grp_bufs [simp]: "length (grp_bufs c A g) = bpp c"
  by (simp add: grp_bufs_def)

lemma posted_Nil [simp]: "posted c A k [] = []"
  by (simp add: posted_def)

lemma posted_Cons:
  assumes "k < bpp c"
  shows "posted c A k (g # gs) =
     grp_buf c A g k # (if Suc k = bpp c then posted c A 0 gs else posted c A (Suc k) (g # gs))"
proof -
  have "drop k (grp_bufs c A g) = grp_buf c A g k # drop (Suc k) (grp_bufs c A g)"
    using assms by (simp add: grp_bufs_def Cons_nth_drop_Suc [symmetric])
  then show ?thesis
    using assms by (simp add: posted_def)
qed

lemma posted_append:
  assumes "k < bpp c" and "gs = [] \<longrightarrow> k = 0"
  shows "posted c A k (gs @ [g]) = posted c A k gs @ grp_bufs c A g"
  using assms by (cases gs) (simp_all add: posted_def)

lemma posted_cong:
  assumes "\<And>g. g \<in> set gs \<Longrightarrow> A (grp_page g) = A' (grp_page g)"
  shows "posted c A k gs = posted c A' k gs"
proof -
  have "map (grp_bufs c A) gs = map (grp_bufs c A') gs"
    using assms by (simp add: grp_bufs_def grp_buf_def)
  then show ?thesis
    by (simp only: posted_def)
qed

text \<open>The last buffer of a page.\<close>

lemma last_index: "i < bpp c \<Longrightarrow> of_nat i = rx_bufs_per_page c - 1 \<longleftrightarrow> Suc i = bpp c"
proof -
  assume i: "i < bpp c"
  have small: "bpp c < 2 ^ 32"
    by (rule order_less_le_trans [OF unsigned_less]) simp
  have "rx_bufs_per_page c \<noteq> 0"
    using i by auto
  then have "unat (rx_bufs_per_page c - 1) = bpp c - 1"
    by (rule unat_minus_one)
  moreover have "unat (of_nat i :: u32) = i"
    using i small by (simp add: unat_of_nat)
  ultimately show ?thesis
    using i by (auto simp: word_unat_eq_iff)
qed

lemma grp_flags_bits:
  assumes "i < bpp c"
  shows "grp_flags c ring i AND EFX_RX_PAGE_IN_RECYCLE_RING \<noteq> 0 \<longleftrightarrow> ring"
    and "grp_flags c ring i AND EFX_RX_BUF_LAST_IN_PAGE \<noteq> 0 \<longleftrightarrow> Suc i = bpp c"
  using last_index [OF assms] by (simp_all add: grp_flags_def)

subsection \<open>Owners\<close>

definition ring_owners :: "nat option list option \<Rightarrow> nat multiset" where
  "ring_owners pr = (case pr of None \<Rightarrow> {#} | Some r \<Rightarrow> mset (map the (filter (\<lambda>x. x \<noteq> None) r)))"

definition group_owners :: "rx_grp list \<Rightarrow> nat multiset" where
  "group_owners gs = mset (map grp_page (filter (\<lambda>g. \<not> grp_ring g) gs))"

definition buf_page :: "efx_rx_buffer \<Rightarrow> nat" where
  "buf_page b = the (rb_page b)"

fun lost_page :: "rx_outcome \<Rightarrow> nat option" where
  "lost_page (Rx_bad_fcs p) = Some p"
| "lost_page (Rx_short p) = Some p"
| "lost_page (Rx_to_rep _ p) = Some p"
| "lost_page _ = None"

definition lost_refs :: "rx_outcome list \<Rightarrow> nat multiset" where
  "lost_refs log = mset (List.map_filter lost_page log)"

definition post_refs :: "rx_nic \<Rightarrow> nat \<Rightarrow> rx_grp list \<Rightarrow> nat multiset" where
  "post_refs c k gs = mset (map buf_page (posted c (\<lambda>_. 0) k gs))"

lemma buf_page_grp [simp]: "buf_page (grp_buf c A g i) = grp_page g"
  by (simp add: buf_page_def)

lemma map_buf_page_posted: "map buf_page (posted c A k gs) = map buf_page (posted c A' k gs)"
proof -
  have "map buf_page (grp_bufs c A g) = map buf_page (grp_bufs c A' g)" for g
    by (simp add: grp_bufs_def)
  then have "map buf_page (concat (map (grp_bufs c A) gs)) = map buf_page (concat (map (grp_bufs c A') gs))"
    by (induction gs) simp_all
  then show ?thesis
    by (simp add: posted_def drop_map [symmetric])
qed

lemma post_refs_Nil [simp]: "post_refs c k [] = {#}"
  by (simp add: post_refs_def)

lemma post_refs_Cons:
  "k < bpp c \<Longrightarrow> post_refs c k (g # gs) =
     add_mset (grp_page g) (if Suc k = bpp c then post_refs c 0 gs else post_refs c (Suc k) (g # gs))"
  by (simp add: post_refs_def posted_Cons)

lemma post_refs_append:
  assumes "k < bpp c" and "gs = [] \<longrightarrow> k = 0"
  shows "post_refs c k (gs @ [g]) = post_refs c k gs + replicate_mset (bpp c) (grp_page g)"
  using posted_append [OF assms, of "\<lambda>_. 0" g]
  by (simp add: post_refs_def grp_bufs_def comp_def map_replicate_const)

lemma group_owners_simps [simp]:
  "group_owners [] = {#}"
  "group_owners (g # gs) = (if grp_ring g then group_owners gs else add_mset (grp_page g) (group_owners gs))"
  "group_owners (gs @ hs) = group_owners gs + group_owners hs"
  by (simp_all add: group_owners_def)

lemma lost_refs_simps [simp]:
  "lost_refs [] = {#}"
  "lost_refs (x # log) = (case lost_page x of None \<Rightarrow> lost_refs log | Some p \<Rightarrow> add_mset p (lost_refs log))"
  by (simp_all add: lost_refs_def List.map_filter_simps split: option.split)

lemma ring_owners_add:
  assumes "i < length r" and "r ! i = None"
  shows "ring_owners (Some (r[i := Some p])) = add_mset p (ring_owners (Some r))"
proof -
  have "r = take i r @ None # drop (Suc i) r"
    using id_take_nth_drop [OF assms(1)] assms(2) by simp
  then have "filter (\<lambda>x. x \<noteq> None) r = filter (\<lambda>x. x \<noteq> None) (take i r @ None # drop (Suc i) r)"
    by (rule arg_cong)
  then have "filter (\<lambda>x. x \<noteq> None) r = filter (\<lambda>x. x \<noteq> None) (take i r) @ filter (\<lambda>x. x \<noteq> None) (drop (Suc i) r)"
    by (simp only: filter_append filter.simps if_False simp_thms)
  then show ?thesis
    using assms(1) by (simp add: ring_owners_def upd_conv_take_nth_drop)
qed

lemma ring_owners_mem:
  assumes "i < length r" and "r ! i = Some p"
  shows "p \<in># ring_owners (Some r)"
  using assms by (force simp: ring_owners_def set_conv_nth image_iff)

subsection \<open>The invariant\<close>

definition rx_shape :: "rx_nic \<Rightarrow> (nat \<Rightarrow> u64) \<Rightarrow> rx_grp list \<Rightarrow> nat \<Rightarrow> u32 \<Rightarrow> efx_rx_buffer list \<Rightarrow> u32 \<Rightarrow> u32 \<Rightarrow> bool" where
  "rx_shape c A gs k h buf m added \<longleftrightarrow>
     ring_wf buf m \<and> unat (added - h) \<le> length buf \<and> ring_view buf m h added = posted c A k gs \<and>
     k < bpp c \<and> (gs = [] \<longrightarrow> k = 0)"

text \<open>The slots of packets not passed on: outside the posted part, with a page and room for the prefix.\<close>

definition pipe_ok :: "u32 \<Rightarrow> nat list \<Rightarrow> efx_rx_buffer list \<Rightarrow> u32 \<Rightarrow> u32 \<Rightarrow> bool" where
  "pipe_ok h pipe buf m added \<longleftrightarrow>
     distinct pipe \<and>
     (\<forall>i\<in>set pipe. i < length buf \<and> (\<forall>n<unat (added - h). ring_slot m h n \<noteq> i) \<and>
        rb_page (buf ! i) \<noteq> None \<and> 22 \<le> unat (rb_page_offset (buf ! i)))"

definition pipe_refs :: "efx_rx_buffer list \<Rightarrow> nat list \<Rightarrow> nat multiset" where
  "pipe_refs buf pipe = mset (map (\<lambda>i. buf_page (buf ! i)) pipe)"

definition recycle_ok :: "rx_nic \<Rightarrow> rx_grp list \<Rightarrow> nat option list option \<Rightarrow> u32 \<Rightarrow> bool" where
  "recycle_ok c gs pr pm \<longleftrightarrow>
     (if rx_recycle_ring_size c = 0 then pr = None else \<exists>r. pr = Some r \<and> ring_wf r pm) \<and>
     (\<forall>g\<in>set gs. grp_ring g \<longrightarrow> grp_page g \<in># ring_owners pr) \<and> distinct (map grp_page gs)"

definition rx_inv :: "rx_nic \<Rightarrow> (nat \<Rightarrow> u64) \<Rightarrow> rx_grp list \<Rightarrow> nat \<Rightarrow> u32 \<Rightarrow> nat list \<Rightarrow> rx_channel \<Rightarrow> bool" where
  "rx_inv c A gs k h pipe s \<longleftrightarrow>
     rx_shape c A gs k h (rxq_buffer s) (rxq_ptr_mask s) (added_count s) \<and>
     pipe_ok h pipe (rxq_buffer s) (rxq_ptr_mask s) (added_count s) \<and>
     recycle_ok c gs (page_ring s) (page_ptr_mask s) \<and>
     ledger (ring_owners (page_ring s) + group_owners gs) A
       (post_refs c k gs + pipe_refs (rxq_buffer s) pipe + lost_refs (rx_log s)) (host_pages s) (host_tries s)"

lemma rx_invD:
  assumes "rx_inv c A gs k h pipe s"
  shows "rx_shape c A gs k h (rxq_buffer s) (rxq_ptr_mask s) (added_count s)"
    and "pipe_ok h pipe (rxq_buffer s) (rxq_ptr_mask s) (added_count s)"
    and "recycle_ok c gs (page_ring s) (page_ptr_mask s)"
    and "ledger (ring_owners (page_ring s) + group_owners gs) A
       (post_refs c k gs + pipe_refs (rxq_buffer s) pipe + lost_refs (rx_log s)) (host_pages s) (host_tries s)"
  using assms by (simp_all add: rx_inv_def)

lemma rx_inv_cong:
  assumes "rx_inv c A gs k h pipe s"
    and "rxq_buffer s' = rxq_buffer s" "rxq_ptr_mask s' = rxq_ptr_mask s" "added_count s' = added_count s"
      "page_ring s' = page_ring s" "page_ptr_mask s' = page_ptr_mask s" "rx_log s' = rx_log s"
      "host_pages s' = host_pages s" "host_tries s' = host_tries s"
  shows "rx_inv c A gs k h pipe s'"
  using assms by (simp add: rx_inv_def)

subsection \<open>Sizes\<close>

text \<open>
  What the operations need of the sizes: a page has a buffer, a batch of pages fits in 16 bits, the
  buffers lie one after the other within the block of pages, and the offsets fit the 16-bit fields
  with the prefix added.
\<close>

definition block_size :: "rx_nic \<Rightarrow> nat" where
  "block_size c = 4096 * 2 ^ unat (rx_buffer_order c)"

definition batch :: "rx_nic \<Rightarrow> nat" where
  "batch c = unat (rx_pages_per_batch c) * bpp c"

definition nic_ok :: "rx_nic \<Rightarrow> bool" where
  "nic_ok c \<longleftrightarrow>
     0 < bpp c \<and> 0 < unat (rx_pages_per_batch c) \<and> batch c < 2 ^ 16 \<and>
     rx_prefix_size c = 22 \<and> rx_ip_align c = 0 \<and>
     320 + unat (rx_dma_len c) \<le> unat (rx_page_buf_step c) \<and>
     64 dvd unat (rx_page_buf_step c) \<and>
     bpp c * unat (rx_page_buf_step c) \<le> block_size c \<and> block_size c \<le> 2 ^ 15"

lemma nic_okD:
  assumes "nic_ok c"
  shows "0 < bpp c" "0 < unat (rx_pages_per_batch c)" "batch c < 2 ^ 16" "rx_prefix_size c = 22" "rx_ip_align c = 0"
    "320 + unat (rx_dma_len c) \<le> unat (rx_page_buf_step c)" "bpp c * unat (rx_page_buf_step c) \<le> block_size c"
    "block_size c \<le> 2 ^ 15"
  using assms by (simp_all add: nic_ok_def)

lemma unat_grp_off:
  assumes "nic_ok c" and "i < bpp c"
  shows "unat (grp_off c i) = i * unat (rx_page_buf_step c)"
    and "(i + 1) * unat (rx_page_buf_step c) \<le> block_size c"
proof -
  show le: "(i + 1) * unat (rx_page_buf_step c) \<le> block_size c"
    using nic_okD(7) [OF assms(1)] assms(2) mult_le_mono1 [of "i + 1" "bpp c" "unat (rx_page_buf_step c)"] by linarith
  have "i < 2 ^ 32"
    using assms(2) by (rule less_trans) (rule order_less_le_trans [OF unsigned_less], simp)
  moreover have "i * unat (rx_page_buf_step c) < 2 ^ 32"
    using le nic_okD(8) [OF assms(1)] by simp
  ultimately show "unat (grp_off c i) = i * unat (rx_page_buf_step c)"
    by (simp add: grp_off_def unat_word_ariths unat_of_nat)
qed

end
