(* ===== verification/Rx_Fill.thy ===== *)
theory Rx_Fill
  imports Rx_Inv
begin

section \<open>Posting pages keeps the invariant\<close>

text \<open>
  From a single buffer to a full refill: the loops of \<open>efx_init_rx_buffers\<close> append the buffers of
  new pages to the posted ones, whether the pages are new or recycled, and a failed allocation leaves
  whole pages only.
\<close>

subsection \<open>A page\<close>

lemma init_rx_buffer_eq:
  assumes "ring_wf (rxq_buffer s) (rxq_ptr_mask s)" and "host_pages s p = Some g" and "pg_dma_addr g = A p"
  shows "efx_init_rx_buffer c p (grp_off c i) (grp_flags c r i) s =
     Some (s\<lparr>rxq_buffer := (rxq_buffer s)[rx_add_index s := grp_buf c A (Grp p r) i], added_count := added_count s + 1\<rparr>)"
  using ring_index_less [OF assms(1), of "added_count s"] assms(2,3)
  by (simp add: efx_init_rx_buffer_def set_rx_buffer_def rx_add_index_def grp_buf_def Let_def)

lemma fill_page_ok:
  assumes "i < bpp c" and "ring_wf (rxq_buffer s) (rxq_ptr_mask s)"
    and "unat (added_count s - h) + (bpp c - i) \<le> length (rxq_buffer s)"
    and "host_pages s p = Some g" and "pg_dma_addr g = A p"
  shows "\<exists>X. rx_fill_page c p i (grp_off c i) (if r then EFX_RX_PAGE_IN_RECYCLE_RING else 0) s =
       Some (s\<lparr>rxq_buffer := X, added_count := added_count s + of_nat (bpp c - i)\<rparr>) \<and>
     ring_wf X (rxq_ptr_mask s) \<and> length X = length (rxq_buffer s) \<and>
     unat (added_count s + of_nat (bpp c - i) - h) = unat (added_count s - h) + (bpp c - i) \<and>
     ring_view X (rxq_ptr_mask s) h (added_count s + of_nat (bpp c - i)) =
       ring_view (rxq_buffer s) (rxq_ptr_mask s) h (added_count s) @ map (grp_buf c A (Grp p r)) [i..<bpp c]"
  using assms
proof (induction "bpp c - i" arbitrary: i s)
  case 0
  then show ?case
    by simp
next
  case (Suc n)
  note i = Suc.prems(1) and wf = Suc.prems(2) and room = Suc.prems(3)
  define b where "b = grp_buf c A (Grp p r) i"
  define s1 where "s1 = s\<lparr>rxq_buffer := (rxq_buffer s)[rx_add_index s := b], added_count := added_count s + 1\<rparr>"
  have space: "unat (added_count s - h) < length (rxq_buffer s)"
    using room i by linarith
  have fill1: "unat (added_count s + 1 - h) = Suc (unat (added_count s - h))"
    by (rule ring_fill_Suc [OF wf space])
  have view1: "ring_view (rxq_buffer s1) (rxq_ptr_mask s) h (added_count s1) = ring_view (rxq_buffer s) (rxq_ptr_mask s) h (added_count s) @ [b]"
    using ring_push [OF wf space, of b] by (simp add: s1_def rx_add_index_def)
  have flags: "(if of_nat i = rx_bufs_per_page c - 1 then (if r then EFX_RX_PAGE_IN_RECYCLE_RING else 0) OR EFX_RX_BUF_LAST_IN_PAGE
      else (if r then EFX_RX_PAGE_IN_RECYCLE_RING else 0)) = grp_flags c r i"
    by (simp add: grp_flags_def)
  have off: "grp_off c i + rx_page_buf_step c = grp_off c (Suc i)"
    by (simp add: grp_off_def algebra_simps)
  have init: "efx_init_rx_buffer c p (grp_off c i) (grp_flags c r i) s = Some s1"
    using init_rx_buffer_eq [where A = A, OF wf Suc.prems(4,5)] by (simp add: s1_def b_def)
  have unfold: "rx_fill_page c p i (grp_off c i) (if r then EFX_RX_PAGE_IN_RECYCLE_RING else 0) s =
      (if Suc i < bpp c then rx_fill_page c p (Suc i) (grp_off c (Suc i)) (grp_flags c r i) s1 else Some s1)"
    by (subst rx_fill_page.simps) (simp only: flags Let_def init Option.bind.simps off)
  show ?case
  proof (cases "Suc i < bpp c")
    case False
    then have "bpp c - i = 1" "[i..<bpp c] = [i]"
      using i by (auto simp: upt_conv_Cons)
    then show ?thesis
      using False unfold view1 fill1 wf
      by (intro exI [of _ "(rxq_buffer s)[rx_add_index s := b]"]) (simp add: s1_def b_def)
  next
    case True
    have n: "n = bpp c - Suc i" "bpp c - i = Suc (bpp c - Suc i)"
      using Suc.hyps(2) i by auto
    have fl: "grp_flags c r i = (if r then EFX_RX_PAGE_IN_RECYCLE_RING else 0)"
      using last_index [OF i] True by (simp add: grp_flags_def)
    have pre: "ring_wf (rxq_buffer s1) (rxq_ptr_mask s1)" "host_pages s1 p = Some g"
        "unat (added_count s1 - h) + (bpp c - Suc i) \<le> length (rxq_buffer s1)"
      using wf Suc.prems(4) room fill1 n(2) by (simp_all add: s1_def)
    obtain X where X: "rx_fill_page c p (Suc i) (grp_off c (Suc i)) (if r then EFX_RX_PAGE_IN_RECYCLE_RING else 0) s1 =
         Some (s1\<lparr>rxq_buffer := X, added_count := added_count s1 + of_nat (bpp c - Suc i)\<rparr>)"
        "ring_wf X (rxq_ptr_mask s1)" "length X = length (rxq_buffer s1)"
        "unat (added_count s1 + of_nat (bpp c - Suc i) - h) = unat (added_count s1 - h) + (bpp c - Suc i)"
        "ring_view X (rxq_ptr_mask s1) h (added_count s1 + of_nat (bpp c - Suc i)) =
           ring_view (rxq_buffer s1) (rxq_ptr_mask s1) h (added_count s1) @ map (grp_buf c A (Grp p r)) [Suc i..<bpp c]"
      using Suc.hyps(1) [OF n(1) True pre(1,3,2) Suc.prems(5)] by blast
    have sum: "added_count s1 + of_nat (bpp c - Suc i) = added_count s + of_nat (bpp c - i)"
      by (simp add: s1_def n(2))
    show ?thesis
    proof (intro exI [of _ X] conjI)
      show "rx_fill_page c p i (grp_off c i) (if r then EFX_RX_PAGE_IN_RECYCLE_RING else 0) s =
         Some (s\<lparr>rxq_buffer := X, added_count := added_count s + of_nat (bpp c - i)\<rparr>)"
        using unfold True fl X(1) sum by (simp add: s1_def)
      show "ring_wf X (rxq_ptr_mask s)" "length X = length (rxq_buffer s)"
        using X(2,3) by (simp_all add: s1_def)
      show "unat (added_count s + of_nat (bpp c - i) - h) = unat (added_count s - h) + (bpp c - i)"
        using X(4) fill1 n(2) unfolding sum by (simp add: s1_def)
      show "ring_view X (rxq_ptr_mask s) h (added_count s + of_nat (bpp c - i)) =
         ring_view (rxq_buffer s) (rxq_ptr_mask s) h (added_count s) @ map (grp_buf c A (Grp p r)) [i..<bpp c]"
        using X(5) view1 upt_conv_Cons [OF i] unfolding sum by (simp add: s1_def b_def)
    qed
  qed
qed

text \<open>
  \<open>pre_post\<close> is the invariant when the page to be posted has its owner but no buffers yet, the
  pipeline being empty.
\<close>

definition pre_post :: "rx_nic \<Rightarrow> (nat \<Rightarrow> u64) \<Rightarrow> rx_grp list \<Rightarrow> rx_grp \<Rightarrow> nat \<Rightarrow> u32 \<Rightarrow> rx_channel \<Rightarrow> bool" where
  "pre_post c A gs g k h s \<longleftrightarrow>
     rx_shape c A gs k h (rxq_buffer s) (rxq_ptr_mask s) (added_count s) \<and>
     recycle_ok c (gs @ [g]) (page_ring s) (page_ptr_mask s) \<and>
     ledger (ring_owners (page_ring s) + group_owners (gs @ [g])) A
       (post_refs c k gs + lost_refs (rx_log s)) (host_pages s) (host_tries s)"

lemma group_owned:
  assumes "recycle_ok c gs pr pm" and "g \<in> set gs"
  shows "grp_page g \<in># ring_owners pr + group_owners gs"
  using assms by (cases "grp_ring g") (auto simp: recycle_ok_def group_owners_def)

lemma pipe_ok_Nil [simp]: "pipe_ok h [] buf m added"
  by (simp add: pipe_ok_def)

lemma pipe_refs_simps [simp]:
  "pipe_refs buf [] = {#}"
  "pipe_refs buf (i # pipe) = add_mset (buf_page (buf ! i)) (pipe_refs buf pipe)"
  by (simp_all add: pipe_refs_def)

text \<open>What posting leaves alone.\<close>

definition fill_frame :: "rx_channel \<Rightarrow> rx_channel \<Rightarrow> bool" where
  "fill_frame s s' \<longleftrightarrow>
     rxq_ptr_mask s' = rxq_ptr_mask s \<and> removed_count s' = removed_count s \<and>
     notified_count s' = notified_count s \<and> rxd s' = rxd s \<and> length (rxq_buffer s') = length (rxq_buffer s) \<and>
     page_ring s' = page_ring s \<and> page_ptr_mask s' = page_ptr_mask s \<and> rx_log s' = rx_log s \<and>
     max_fill s' = max_fill s \<and> fast_fill_trigger s' = fast_fill_trigger s \<and>
     refill_enabled s' = refill_enabled s \<and> rx_pkt_n_frags s' = rx_pkt_n_frags s \<and>
     rx_pkt_index s' = rx_pkt_index s \<and> grant_credits s' = grant_credits s \<and> rx_packets s' = rx_packets s"

lemma fill_frame_refl [simp]: "fill_frame s s"
  by (simp add: fill_frame_def)

lemma fill_frame_trans: "fill_frame s t \<Longrightarrow> fill_frame t u \<Longrightarrow> fill_frame s u"
  by (simp add: fill_frame_def)

definition posted_view :: "u32 \<Rightarrow> rx_channel \<Rightarrow> efx_rx_buffer list" where
  "posted_view h s = ring_view (rxq_buffer s) (rxq_ptr_mask s) h (added_count s)"

definition fill_of :: "u32 \<Rightarrow> rx_channel \<Rightarrow> nat" where
  "fill_of h s = unat (added_count s - h)"

lemma length_posted_view [simp]: "length (posted_view h s) = fill_of h s"
  by (simp add: posted_view_def fill_of_def)

text \<open>\<open>grown m h s s'\<close>: \<open>m\<close> buffers were appended and nothing else changed.\<close>

definition grown :: "nat \<Rightarrow> u32 \<Rightarrow> rx_channel \<Rightarrow> rx_channel \<Rightarrow> bool" where
  "grown m h s s' \<longleftrightarrow>
     fill_frame s s' \<and> (\<exists>new. length new = m \<and> posted_view h s' = posted_view h s @ new)"

lemma grown_refl: "fill_frame s s' \<Longrightarrow> rxq_buffer s' = rxq_buffer s \<Longrightarrow> added_count s' = added_count s \<Longrightarrow> grown 0 h s s'"
  by (simp add: grown_def posted_view_def fill_frame_def)

lemma grown_trans: "grown m h s t \<Longrightarrow> grown n h t u \<Longrightarrow> grown (m + n) h s u"
  unfolding grown_def by (auto intro: fill_frame_trans)

lemma grown_fill:
  assumes "grown m h s s'"
  shows "fill_of h s' = fill_of h s + m"
proof -
  obtain new where "length new = m" "posted_view h s' = posted_view h s @ new"
    using assms by (auto simp: grown_def)
  then have "length (posted_view h s') = length (posted_view h s) + m"
    by simp
  then show ?thesis
    by simp
qed

lemma post_page_ok:
  assumes "pre_post c A gs g k h s" and "fill_of h s + bpp c \<le> length (rxq_buffer s)"
  obtains s' where "rx_post_page c (grp_page g) (if grp_ring g then EFX_RX_PAGE_IN_RECYCLE_RING else 0) s = Some s'"
    and "rx_inv c A (gs @ [g]) k h [] s'" and "grown (bpp c) h s s'" and "host_tries s' = host_tries s"
proof -
  define p r where "p = grp_page g" and "r = grp_ring g"
  have g: "g = Grp p r"
    by (simp add: p_def r_def)
  have shape: "ring_wf (rxq_buffer s) (rxq_ptr_mask s)" "ring_view (rxq_buffer s) (rxq_ptr_mask s) h (added_count s) = posted c A k gs"
      "k < bpp c" "gs = [] \<longrightarrow> k = 0"
    using assms(1) by (auto simp: pre_post_def rx_shape_def)
  have rec: "recycle_ok c (gs @ [g]) (page_ring s) (page_ptr_mask s)"
    and led: "ledger (ring_owners (page_ring s) + group_owners (gs @ [g])) A
       (post_refs c k gs + lost_refs (rx_log s)) (host_pages s) (host_tries s)"
    using assms(1) by (auto simp: pre_post_def)
  have own: "p \<in># ring_owners (page_ring s) + group_owners (gs @ [g])"
    using group_owned [OF rec, of g] by (simp add: p_def)
  obtain pg where pg: "host_pages s p = Some pg" "pg_dma_addr pg = A p"
    using ledger_mapped [OF led own] by metis
  have pos: "0 < bpp c"
    using shape(3) by simp
  obtain X where X: "rx_fill_page c p 0 (grp_off c 0) (if r then EFX_RX_PAGE_IN_RECYCLE_RING else 0) s =
       Some (s\<lparr>rxq_buffer := X, added_count := added_count s + of_nat (bpp c)\<rparr>)"
      "ring_wf X (rxq_ptr_mask s)" "length X = length (rxq_buffer s)"
      "unat (added_count s + of_nat (bpp c) - h) = unat (added_count s - h) + bpp c"
      "ring_view X (rxq_ptr_mask s) h (added_count s + of_nat (bpp c)) =
         ring_view (rxq_buffer s) (rxq_ptr_mask s) h (added_count s) @ grp_bufs c A g"
    using fill_page_ok [where A = A and h = h and r = r, OF pos shape(1) _ pg] assms(2)
    by (auto simp: fill_of_def grp_bufs_def g)
  define s1 where "s1 = s\<lparr>rxq_buffer := X, added_count := added_count s + of_nat (bpp c)\<rparr>"
  have led1: "ledger (ring_owners (page_ring s) + group_owners (gs @ [g])) A
       (post_refs c k gs + lost_refs (rx_log s)) (host_pages s1) (host_tries s)"
    using led by (simp add: s1_def)
  obtain H where H: "page_ref_add p (bpp c) s1 = Some (s1\<lparr>host_pages := H\<rparr>)"
      "ledger (ring_owners (page_ring s) + group_owners (gs @ [g])) A
        (post_refs c k gs + lost_refs (rx_log s) + replicate_mset (bpp c) p) H (host_tries s)"
    by (rule split_page [OF led1 own, of "bpp c"])
  show ?thesis
  proof (rule that [of "s1\<lparr>host_pages := H\<rparr>"])
    show "rx_post_page c (grp_page g) (if grp_ring g then EFX_RX_PAGE_IN_RECYCLE_RING else 0) s = Some (s1\<lparr>host_pages := H\<rparr>)"
      using X(1) H(1) by (simp add: rx_post_page_def p_def [symmetric] r_def [symmetric] grp_off_def s1_def)
    show "grown (bpp c) h s (s1\<lparr>host_pages := H\<rparr>)"
      unfolding grown_def
    proof
      show "fill_frame s (s1\<lparr>host_pages := H\<rparr>)"
        using X(3) by (simp add: fill_frame_def s1_def)
      show "\<exists>new. length new = bpp c \<and> posted_view h (s1\<lparr>host_pages := H\<rparr>) = posted_view h s @ new"
        using X(5) by (intro exI [of _ "grp_bufs c A g"]) (simp add: posted_view_def s1_def)
    qed
    have "post_refs c k (gs @ [g]) = post_refs c k gs + replicate_mset (bpp c) p"
      using post_refs_append [OF shape(3,4)] by (simp add: p_def)
    then have "ledger (ring_owners (page_ring s) + group_owners (gs @ [g])) A
        (post_refs c k (gs @ [g]) + lost_refs (rx_log s)) H (host_tries s)"
      using H(2) by (simp add: ac_simps)
    then show "rx_inv c A (gs @ [g]) k h [] (s1\<lparr>host_pages := H\<rparr>)"
      using X(2,3,4,5) shape rec assms(2) posted_append [OF shape(3,4)]
      by (simp add: rx_inv_def rx_shape_def s1_def fill_of_def)
  qed (simp add: s1_def)
qed

end
