(* ===== verification/Rx_Push.thy ===== *)
theory Rx_Push
  imports Rx_Fill
begin

section \<open>Refilling keeps the invariant\<close>

subsection \<open>Choosing a page\<close>

lemma post_refs_mem:
  assumes "k < bpp c" and "g \<in> set gs"
  shows "grp_page g \<in># post_refs c k gs"
  using assms
proof (induction gs arbitrary: k)
  case (Cons x gs)
  show ?case
  proof (cases "g = x")
    case True
    then show ?thesis
      using Cons.prems(1) by (simp add: post_refs_Cons)
  next
    case False
    have "0 < bpp c"
      using Cons.prems(1) by simp
    then have "grp_page g \<in># post_refs c 0 gs"
      using Cons.IH [of 0] Cons.prems(2) False by simp
    moreover have "post_refs c 0 gs \<subseteq># post_refs c k (x # gs)"
      using Cons.prems(1) by (simp add: post_refs_def posted_def drop_map [symmetric])
    ultimately show ?thesis
      by (rule mset_subset_eqD [rotated])
  qed
qed simp

lemma rx_inv_pre:
  assumes "rx_inv c A gs k h [] s"
  shows "rx_shape c A gs k h (rxq_buffer s) (rxq_ptr_mask s) (added_count s)"
    and "recycle_ok c gs (page_ring s) (page_ptr_mask s)"
    and "ledger (ring_owners (page_ring s) + group_owners gs) A (post_refs c k gs + lost_refs (rx_log s)) (host_pages s) (host_tries s)"
    and "k < bpp c"
  using assms by (auto simp: rx_inv_def rx_shape_def)

lemma reuse_page_ok:
  assumes "rx_inv c A gs k h [] s"
  obtains (none) s' where "efx_reuse_page c s = Some (None, s')" and "rx_inv c A gs k h [] s'" and "grown 0 h s s'"
  | (some) p s' where "efx_reuse_page c s = Some (Some p, s')" and "pre_post c A gs (Grp p True) k h s'" and "grown 0 h s s'"
proof (cases "rx_recycle_ring_size c = 0")
  case True
  then show ?thesis
    using none [of s] assms by (simp add: efx_reuse_page_def grown_refl)
next
  case False
  note inv = rx_inv_pre [OF assms]
  obtain r where r: "page_ring s = Some r" "ring_wf r (page_ptr_mask s)"
    using inv(2) False by (auto simp: recycle_ok_def)
  define i where "i = unat (page_remove s AND page_ptr_mask s)"
  have i: "i < length r"
    using ring_index_less [OF r(2)] by (simp add: i_def)
  define s1 where "s1 = s\<lparr>page_remove := page_remove s + 1\<rparr>"
  have same: "rx_inv c A gs k h [] t" "grown 0 h s t"
    if "t = s1 \<or> t = s1\<lparr>page_recycle_failed := page_recycle_failed s1 + 1\<rparr>" for t
    using that assms by (auto simp: s1_def fill_frame_def intro: rx_inv_cong grown_refl)
  show ?thesis
  proof (cases "r ! i")
    case None
    then show ?thesis
      using none [of s1] same [of s1] False r i by (simp add: efx_reuse_page_def i_def [symmetric] s1_def Let_def)
  next
    case (Some p)
    have own: "p \<in># ring_owners (page_ring s) + group_owners gs" and mem: "p \<in># ring_owners (page_ring s)"
      using ring_owners_mem [OF i Some] r(1) by auto
    obtain g where g: "host_pages s p = Some g"
      using ledger_mapped [OF inv(3) own] by metis
    show ?thesis
    proof (cases "pg_count g = 1")
      case False
      then show ?thesis
        using none [of "s1\<lparr>page_recycle_failed := page_recycle_failed s1 + 1\<rparr>"]
          same [of "s1\<lparr>page_recycle_failed := page_recycle_failed s1 + 1\<rparr>"] \<open>rx_recycle_ring_size c \<noteq> 0\<close> r i Some g
        by (simp add: efx_reuse_page_def i_def [symmetric] s1_def Let_def)
    next
      case True
      define s2 where "s2 = s1\<lparr>page_recycle_count := page_recycle_count s1 + 1\<rparr>"
      have "p \<notin># post_refs c k gs + lost_refs (rx_log s)"
        by (rule sole_owner [OF inv(3) g True own])
      then have "p \<notin> set (map grp_page gs)"
        using post_refs_mem [OF inv(4)] by auto
      then have "pre_post c A gs (Grp p True) k h s2"
        using inv mem by (auto simp: pre_post_def s2_def s1_def recycle_ok_def)
      moreover have "grown 0 h s s2"
        by (intro grown_refl) (simp_all add: s2_def s1_def fill_frame_def)
      ultimately show ?thesis
        using some [of p s2] False r i Some g True
        by (simp add: efx_reuse_page_def i_def [symmetric] s1_def s2_def Let_def)
    qed
  qed
qed

lemma get_page_ok:
  assumes "rx_inv c A gs k h [] s"
  obtains (fail) rc s' where "rx_get_page env c s = Some (Inl rc, s')" and "rc < 0" and "rx_inv c A gs k h [] s'" and "grown 0 h s s'"
  | (ok) g A' s' where "rx_get_page env c s = Some (Inr (grp_page g, if grp_ring g then EFX_RX_PAGE_IN_RECYCLE_RING else 0), s')"
      and "pre_post c A' gs g k h s'" and "grown 0 h s s'"
  using assms
proof (cases rule: reuse_page_ok)
  case (some p s')
  then show ?thesis
    using ok [of "Grp p True" s'] by (simp add: rx_get_page_def)
next
  case (none s1)
  note inv = rx_inv_pre [OF none(2)]
  show ?thesis
    using inv(3)
  proof (cases rule: alloc_page [of _ _ _ s1 env])
    case (fail rc H m)
    define s2 where "s2 = s1\<lparr>host_tries := Suc (host_tries s1), host_maps := m, host_pages := H\<rparr>"
    have "rx_inv c A gs k h [] s2"
      using inv fail(3) by (simp add: rx_inv_def s2_def)
    moreover have "grown 0 h s s2"
      using grown_trans [OF none(3), of 0 s2] by (simp add: s2_def fill_frame_def grown_refl)
    ultimately show ?thesis
      using \<open>\<And>s' rc. \<lbrakk>rx_get_page env c s = Some (Inl rc, s'); rc < 0; rx_inv c A gs k h [] s'; grown 0 h s s'\<rbrakk> \<Longrightarrow> thesis\<close>
        none(1) fail(1,2) by (simp add: rx_get_page_def s2_def)
  next
    case (ok a H m)
    define p where "p = host_tries s1"
    define s2 where "s2 = s1\<lparr>host_tries := Suc p, host_maps := m, host_pages := H\<rparr>"
    have new: "p \<notin># ring_owners (page_ring s1) + group_owners gs + (post_refs c k gs + lost_refs (rx_log s1))"
      using ok(3) by (simp add: p_def)
    then have fresh: "p \<notin> set (map grp_page gs)"
      using post_refs_mem [OF inv(4)] by auto
    then have "posted c (A(p := a)) k gs = posted c A k gs"
      by (intro posted_cong) auto
    then have "pre_post c (A(p := a)) gs (Grp p False) k h s2"
      using inv(1,2) ok(2) fresh by (auto simp: pre_post_def rx_shape_def recycle_ok_def s2_def p_def)
    moreover have "grown 0 h s s2"
      using grown_trans [OF none(3), of 0 s2] by (simp add: s2_def fill_frame_def grown_refl)
    ultimately show ?thesis
      using \<open>\<And>g s' A'. \<lbrakk>rx_get_page env c s = Some (Inr (grp_page g, if grp_ring g then EFX_RX_PAGE_IN_RECYCLE_RING else 0), s');
          pre_post c A' gs g k h s'; grown 0 h s s'\<rbrakk> \<Longrightarrow> thesis\<close> [of "Grp p False"]
        none(1) ok(1) by (simp add: rx_get_page_def s2_def p_def)
  qed
qed

subsection \<open>Batches and refills\<close>

lemma init_pages_ok:
  assumes "rx_inv c A gs k h [] s" and "n < unat (rx_pages_per_batch c)"
    and "fill_of h s + (unat (rx_pages_per_batch c) - n) * bpp c \<le> length (rxq_buffer s)"
  obtains rc A' gs' m s' where "rx_init_pages env c n s = Some (rc, s')" and "rx_inv c A' gs' k h [] s'" and "grown m h s s'"
    and "rc = 0 \<Longrightarrow> m = (unat (rx_pages_per_batch c) - n) * bpp c" and "m \<le> (unat (rx_pages_per_batch c) - n) * bpp c"
proof -
  have "\<exists>rc A' gs' m s'. rx_init_pages env c n s = Some (rc, s') \<and> rx_inv c A' gs' k h [] s' \<and> grown m h s s' \<and>
      (rc = 0 \<longrightarrow> m = (unat (rx_pages_per_batch c) - n) * bpp c) \<and> m \<le> (unat (rx_pages_per_batch c) - n) * bpp c"
    using assms
  proof (induction "unat (rx_pages_per_batch c) - n" arbitrary: n s A gs)
    case 0
    then show ?case
      by simp
  next
    case (Suc d)
    define t where "t = unat (rx_pages_per_batch c)"
    note inv = Suc.prems(1) and n = Suc.prems(2) [folded t_def] and room = Suc.prems(3) [folded t_def]
    have d: "t - n = Suc (t - Suc n)" "d = t - Suc n"
      using Suc.hyps(2) n by (simp_all add: t_def)
    from inv show ?case
    proof (cases rule: get_page_ok [of c A gs k h s env])
      case (fail rc s1)
      then show ?thesis
        by (subst rx_init_pages.simps) (auto intro!: exI [of _ 0])
    next
      case (ok g A1 s1)
      have eq: "fill_of h s1 = fill_of h s" "length (rxq_buffer s1) = length (rxq_buffer s)"
        using grown_fill [OF ok(3)] ok(3) by (simp_all add: grown_def fill_frame_def)
      have "fill_of h s1 + bpp c \<le> length (rxq_buffer s1)"
        using room unfolding d(1) eq by simp
      from post_page_ok [OF ok(2) this] obtain s2 where s2:
        "rx_post_page c (grp_page g) (if grp_ring g then EFX_RX_PAGE_IN_RECYCLE_RING else 0) s1 = Some s2"
        "rx_inv c A1 (gs @ [g]) k h [] s2" "grown (bpp c) h s1 s2"
        by metis
      have grow: "grown (bpp c) h s s2"
        using grown_trans [OF ok(3) s2(3)] by simp
      have step: "rx_init_pages env c n s = (if Suc n < t then rx_init_pages env c (Suc n) s2 else Some (0, s2))"
        by (subst rx_init_pages.simps) (simp add: ok(1) s2(1) t_def)
      show ?thesis
      proof (cases "Suc n < t")
        case False
        then have one: "t - n = 1"
          using n by simp
        show ?thesis
          unfolding t_def [symmetric] step one using False s2(2) grow by auto
      next
        case True
        have "fill_of h s2 + (t - Suc n) * bpp c \<le> length (rxq_buffer s2)"
          using room grown_fill [OF grow] grow unfolding d(1) by (simp add: grown_def fill_frame_def)
        then obtain rc A' gs' m s' where IH: "rx_init_pages env c (Suc n) s2 = Some (rc, s')" "rx_inv c A' gs' k h [] s'"
            "grown m h s2 s'" "rc = 0 \<longrightarrow> m = (t - Suc n) * bpp c" "m \<le> (t - Suc n) * bpp c"
          using Suc.hyps(1) [of "Suc n" A1 "gs @ [g]" s2] s2(2) True d(2) unfolding t_def by blast
        have "grown (bpp c + m) h s s'"
          by (rule grown_trans [OF grow IH(3)])
        then show ?thesis
          unfolding t_def [symmetric] step d(1) using True IH by (auto intro!: exI [of _ "bpp c + m"])
      qed
    qed
  qed
  then show ?thesis
    using that by blast
qed

lemma rx_inv_slow_fill [simp]: "rx_inv c A gs k h pipe (efx_schedule_slow_fill s) = rx_inv c A gs k h pipe s"
  by (simp add: rx_inv_def efx_schedule_slow_fill_def)

lemma grown_slow_fill: "grown m h s s' \<Longrightarrow> grown m h s (efx_schedule_slow_fill s')"
  by (rule grown_trans [of m h s s' 0, simplified])
    (simp_all add: grown_refl fill_frame_def efx_schedule_slow_fill_def)

lemma batch_word:
  assumes "nic_ok c"
  shows "unat (rx_pages_per_batch c * rx_bufs_per_page c) = batch c"
  using nic_okD(3) [OF assms] by (simp add: batch_def unat_word_ariths)

text \<open>An attempt to get a page failed between two states of the queue: no memory, or no DMA mapping.\<close>

definition page_failed :: "rx_env \<Rightarrow> rx_channel \<Rightarrow> rx_channel \<Rightarrow> bool" where
  "page_failed env s s' \<longleftrightarrow>
     (\<exists>n. host_tries s \<le> n \<and> n < host_tries s' \<and> \<not> env_page env n) \<or>
     (\<exists>n. host_maps s \<le> n \<and> n < host_maps s' \<and> env_dma env n = None)"

text \<open>The attempts are counted upwards, and only a failure schedules the slow fill.\<close>

definition tried :: "rx_channel \<Rightarrow> rx_channel \<Rightarrow> bool" where
  "tried s s' \<longleftrightarrow> host_tries s \<le> host_tries s' \<and> host_maps s \<le> host_maps s' \<and> slow_fill_work s' = slow_fill_work s"

lemma tried_refl [simp]: "tried s s"
  by (simp add: tried_def)

lemma tried_trans: "tried s t \<Longrightarrow> tried t u \<Longrightarrow> tried s u"
  by (simp add: tried_def)

lemma page_failed_later: "tried s t \<Longrightarrow> page_failed env t u \<Longrightarrow> page_failed env s u"
  unfolding page_failed_def tried_def by (meson le_trans)

lemma page_failed_earlier: "page_failed env s t \<Longrightarrow> tried t u \<Longrightarrow> page_failed env s u"
  unfolding page_failed_def tried_def by (meson less_le_trans)

lemma same_tries: "host_tries s' = host_tries s \<Longrightarrow> host_maps s' = host_maps s \<Longrightarrow> slow_fill_work s' = slow_fill_work s \<Longrightarrow> tried s s'"
  by (simp add: tried_def)

lemma set_rx_buffer_tries: "set_rx_buffer i b s = Some s' \<Longrightarrow> tried s s'"
  by (auto simp: set_rx_buffer_def tried_def split: if_splits)

lemma init_buffer_tries: "efx_init_rx_buffer c p off flags s = Some s' \<Longrightarrow> tried s s'"
  by (auto simp: efx_init_rx_buffer_def Let_def bind_eq_Some_conv dest!: set_rx_buffer_tries) (simp add: tried_def)

lemma fill_page_tries: "rx_fill_page c p i off flags s = Some s' \<Longrightarrow> tried s s'"
proof (induction c p i off flags s arbitrary: s' rule: rx_fill_page.induct)
  case (1 c p i off flags s)
  define fl where "fl = (if of_nat i = rx_bufs_per_page c - 1 then flags OR EFX_RX_BUF_LAST_IN_PAGE else flags)"
  obtain t where t: "efx_init_rx_buffer c p off fl s = Some t"
      "(if Suc i < unat (rx_bufs_per_page c) then rx_fill_page c p (Suc i) (off + rx_page_buf_step c) fl t else Some t) = Some s'"
    using 1(2) by (subst (asm) rx_fill_page.simps) (auto simp: bind_eq_Some_conv Let_def fl_def [symmetric])
  have "tried t s'"
    using t(2) 1(1) [OF fl_def t(1)] by (auto split: if_splits)
  then show ?case
    using init_buffer_tries [OF t(1)] by (auto intro: tried_trans)
qed

lemma post_page_tries: "rx_post_page c p flags s = Some s' \<Longrightarrow> tried s s'"
  by (auto simp: rx_post_page_def bind_eq_Some_conv page_ref_add_def set_page_def dest!: fill_page_tries
      split: option.splits) (simp add: tried_def)

lemma get_page_tries:
  assumes "rx_get_page env c s = Some (r, s')"
  shows "tried s s'" and "\<And>rc. r = Inl rc \<Longrightarrow> page_failed env s s'"
proof -
  obtain q t where t: "efx_reuse_page c s = Some (q, t)" "tried s t"
    using assms by (auto simp: rx_get_page_def bind_eq_Some_conv efx_reuse_page_def tried_def Let_def
        split: if_splits option.splits)
  have "tried t s' \<and> (\<forall>rc. r = Inl rc \<longrightarrow> page_failed env t s')"
    using assms t(1) by (auto simp: rx_get_page_def rx_alloc_page_def tried_def page_failed_def set_page_def Let_def
        split: if_splits option.splits)
  then show "tried s s'" "\<And>rc. r = Inl rc \<Longrightarrow> page_failed env s s'"
    using t(2) by (auto intro: tried_trans page_failed_later)
qed

lemma init_pages_tries:
  assumes "rx_init_pages env c n s = Some (rc, s')"
  shows "tried s s' \<and> (rc \<noteq> 0 \<longrightarrow> page_failed env s s')"
  using assms
proof (induction env c n s arbitrary: rc s' rule: rx_init_pages.induct)
  case (1 env c n s)
  from 1(2) obtain r t where r: "rx_get_page env c s = Some (r, t)"
    by (subst (asm) rx_init_pages.simps) (auto simp: bind_eq_Some_conv)
  show ?case
  proof (cases r)
    case (Inl e)
    then show ?thesis
      using 1(2) r get_page_tries [OF r] by (subst (asm) rx_init_pages.simps) simp
  next
    case (Inr b)
    then obtain p flags where b: "r = Inr (p, flags)"
      by (cases b) simp
    obtain u where u: "rx_post_page c p flags t = Some u"
        "(if Suc n < unat (rx_pages_per_batch c) then rx_init_pages env c (Suc n) u else Some (0, u)) = Some (rc, s')"
      using 1(2) r b by (subst (asm) rx_init_pages.simps) (auto simp: bind_eq_Some_conv)
    have "tried s u"
      using get_page_tries(1) [OF r] post_page_tries [OF u(1)] by (rule tried_trans)
    moreover have "tried u s' \<and> (rc \<noteq> 0 \<longrightarrow> page_failed env u s')"
      using u(2) 1(1) [OF r refl b refl u(1)] by (auto split: if_splits)
    ultimately show ?thesis
      by (auto intro: tried_trans page_failed_later)
  qed
qed

text \<open>The loop ends, because a batch is not empty, and stays within the space it was given.\<close>

lemma push_loop_ok:
  assumes "nic_ok c" and "rx_inv c A gs k h [] s" and "fill_of h s + unat space \<le> length (rxq_buffer s)"
  obtains A' gs' m s' where "rx_push_loop env c (rx_pages_per_batch c * rx_bufs_per_page c) space s = Some s'"
    and "rx_inv c A' gs' k h [] s'" and "grown m h s s'" and "m \<le> unat space"
    and "slow_fill_work s' = slow_fill_work s \<and> unat space < m + batch c \<or> slow_fill_work s' \<and> page_failed env s s'"
    and "host_tries s \<le> host_tries s'" and "host_maps s \<le> host_maps s'"
proof -
  define b where "b = rx_pages_per_batch c * rx_bufs_per_page c"
  have b: "unat b = batch c" "0 < batch c"
    using batch_word [OF assms(1)] nic_okD(1,2) [OF assms(1)] by (simp_all add: b_def batch_def)
  have "\<exists>A' gs' m s'. rx_push_loop env c b space s = Some s' \<and> rx_inv c A' gs' k h [] s' \<and> grown m h s s' \<and> m \<le> unat space \<and>
      (slow_fill_work s' = slow_fill_work s \<and> unat space < m + batch c \<or> slow_fill_work s' \<and> page_failed env s s') \<and>
      host_tries s \<le> host_tries s' \<and> host_maps s \<le> host_maps s'"
    using assms(2,3)
  proof (induction "unat space" arbitrary: space s A gs rule: less_induct)
    case less
    show ?case
    proof (cases "b \<le> space")
      case False
      then have "unat space < batch c"
        using b by (simp add: word_le_nat_alt)
      then show ?thesis
        using False less.prems by (subst rx_push_loop.simps) (auto intro!: exI [of _ 0] grown_refl)
    next
      case True
      then have le: "batch c \<le> unat space"
        using b by (simp add: word_le_nat_alt)
      obtain rc A1 gs1 m s1 where 1: "rx_init_pages env c 0 s = Some (rc, s1)" "rx_inv c A1 gs1 k h [] s1" "grown m h s s1"
          "rc = 0 \<Longrightarrow> m = batch c" "m \<le> batch c"
      proof (rule init_pages_ok [OF less.prems(1), of 0 env])
        show "0 < unat (rx_pages_per_batch c)"
          by (rule nic_okD(2) [OF assms(1)])
        show "fill_of h s + (unat (rx_pages_per_batch c) - 0) * bpp c \<le> length (rxq_buffer s)"
          using less.prems(2) le by (simp add: batch_def)
      qed (simp_all add: batch_def)
      note tries = init_pages_tries [OF 1(1)]
      have step: "rx_push_loop env c b space s =
          (if rc \<noteq> 0 then Some (efx_schedule_slow_fill s1) else rx_push_loop env c b (space - b) s1)"
        using True 1(1) by (subst rx_push_loop.simps) (simp add: efx_init_rx_buffers_def)
      show ?thesis
      proof (cases "rc = 0")
        case False
        then have "rx_push_loop env c b space s = Some (efx_schedule_slow_fill s1)" "m \<le> unat space"
          using step 1(5) le by simp_all
        moreover have "rx_inv c A1 gs1 k h [] (efx_schedule_slow_fill s1)" "slow_fill_work (efx_schedule_slow_fill s1)"
          using 1(2) by (simp, simp add: efx_schedule_slow_fill_def)
        moreover have "page_failed env s (efx_schedule_slow_fill s1)"
          using tries False by (simp add: page_failed_def efx_schedule_slow_fill_def)
        moreover have "host_tries s \<le> host_tries (efx_schedule_slow_fill s1)" "host_maps s \<le> host_maps (efx_schedule_slow_fill s1)"
          using tries by (simp_all add: tried_def efx_schedule_slow_fill_def)
        ultimately show ?thesis
          using grown_slow_fill [OF 1(3)] by blast
      next
        case True
        then have m: "m = batch c"
          using 1(4) by simp
        have sp: "unat (space - b) = unat space - batch c"
          using \<open>b \<le> space\<close> b(1) by (simp add: unat_sub)
        then have "unat (space - b) < unat space"
          using le b(2) by simp
        moreover have "fill_of h s1 + unat (space - b) \<le> length (rxq_buffer s1)"
          using grown_fill [OF 1(3)] less.prems(2) le 1(3) by (simp add: m sp grown_def fill_frame_def)
        ultimately obtain A' gs' m' s' where IH: "rx_push_loop env c b (space - b) s1 = Some s'" "rx_inv c A' gs' k h [] s'"
            "grown m' h s1 s'" "m' \<le> unat (space - b)"
            "slow_fill_work s' = slow_fill_work s1 \<and> unat (space - b) < m' + batch c \<or> slow_fill_work s' \<and> page_failed env s1 s'"
            "host_tries s1 \<le> host_tries s'" "host_maps s1 \<le> host_maps s'"
          using less.hyps [OF _ 1(2)] by blast
        have "grown (m + m') h s s'"
          by (rule grown_trans [OF 1(3) IH(3)])
        moreover have "m + m' \<le> unat space"
          using IH(4) le by (simp add: sp m)
        moreover have "slow_fill_work s' = slow_fill_work s \<and> unat space < m + m' + batch c \<or> slow_fill_work s' \<and> page_failed env s s'"
          using IH(5) tries page_failed_later [of s s1 env s'] by (auto simp: sp m tried_def)
        moreover have "host_tries s \<le> host_tries s'" "host_maps s \<le> host_maps s'"
          using IH(6,7) tries by (simp_all add: tried_def)
        moreover have "rx_push_loop env c b space s = Some s'"
          using step True IH(1) by simp
        ultimately show ?thesis
          using IH(2) by blast
      qed
    qed
  qed
  then show ?thesis
    using that unfolding b_def by metis
qed

subsection \<open>Descriptors\<close>

text \<open>The hardware ring holds the addresses of the posted buffers up to the counter \<open>n\<close>.\<close>

definition descs_ok :: "u32 \<Rightarrow> u32 \<Rightarrow> rx_channel \<Rightarrow> bool" where
  "descs_ok h n s \<longleftrightarrow>
     length (rxd s) = length (rxq_buffer s) \<and> unat (n - h) \<le> fill_of h s \<and>
     ring_view (rxd s) (rxq_ptr_mask s) h n = map rb_dma_addr (take (unat (n - h)) (posted_view h s))"

lemma descs_ok_grown:
  assumes "descs_ok h n s" and "grown m h s s'"
  shows "descs_ok h n s'"
proof -
  obtain new where "posted_view h s' = posted_view h s @ new"
    using assms(2) by (auto simp: grown_def)
  then show ?thesis
    using assms grown_fill [OF assms(2)] by (simp add: descs_ok_def grown_def fill_frame_def)
qed

lemma populate_qword_whole: "EFX_POPULATE_QWORD [(ESF_GZ_RX_BUF_ADDR, x)] = x"
  by (simp add: EFX_INSERT_NATIVE64_def EFX_MASK64_eq EFX_LOW_BIT_def EFX_HIGH_BIT_def
      EFX_WIDTH_def mask_eq_exp_minus_1)

lemma write_loop_ok:
  assumes "ring_wf (rxq_buffer s) (rxq_ptr_mask s)" and "fill_of h s \<le> length (rxq_buffer s)" and "descs_ok h n s"
  shows "\<exists>X. rx_write_loop n s = Some (s\<lparr>rxd := X\<rparr>) \<and> descs_ok h (added_count s) (s\<lparr>rxd := X\<rparr>)"
  using assms
proof (induction n s rule: rx_write_loop.induct)
  case (1 n s)
  note wf = "1.prems"(1) and le = "1.prems"(2) and descs = "1.prems"(3)
  show ?case
  proof (cases "n = added_count s")
    case True
    then show ?thesis
      using descs by (subst rx_write_loop.simps) (auto intro!: exI [of _ "rxd s"])
  next
    case False
    define i j where "i = unat (n AND rxq_ptr_mask s)" and "j = unat (n - h)"
    have "j \<noteq> fill_of h s"
      using False by (simp add: j_def fill_of_def word_unat_eq_iff [symmetric])
    then have j: "j < fill_of h s"
      using descs by (simp add: descs_ok_def j_def)
    have i: "i < length (rxq_buffer s)"
      using ring_index_less [OF wf] by (simp add: i_def)
    have slot: "i = ring_slot (rxq_ptr_mask s) h j"
      by (simp add: i_def j_def ring_slot_tail)
    have len: "length (rxd s) = length (rxq_buffer s)"
      using descs by (simp add: descs_ok_def)
    then have wfd: "ring_wf (rxd s) (rxq_ptr_mask s)"
      using wf by (simp add: ring_wf_def)
    define b where "b = rxq_buffer s ! i"
    have b: "posted_view h s ! j = b"
      using j by (simp add: posted_view_def fill_of_def ring_view_nth b_def slot)
    define s1 where "s1 = s\<lparr>rxd := (rxd s)[i := rb_dma_addr b]\<rparr>"
    have room: "unat (n - h) < length (rxd s)"
      using j le len by (simp add: j_def)
    have "ring_view (rxd s1) (rxq_ptr_mask s) h (n + 1) = map rb_dma_addr (take j (posted_view h s)) @ [rb_dma_addr b]"
      using ring_push [OF wfd room, of "rb_dma_addr b"] descs by (simp add: s1_def i_def j_def descs_ok_def)
    also have "\<dots> = map rb_dma_addr (take (Suc j) (posted_view h s))"
      using j b by (simp add: take_Suc_conv_app_nth)
    finally have "descs_ok h (n + 1) s1"
      using ring_fill_Suc [OF wfd room] j len by (simp add: descs_ok_def s1_def j_def fill_of_def posted_view_def)
    then have descs1: "descs_ok h (n + 1) s1" .
    have s1: "s\<lparr>rxd := (rxd s)[i := EFX_POPULATE_QWORD [(ESF_GZ_RX_BUF_ADDR, rb_dma_addr b)]]\<rparr> = s1"
      by (simp only: s1_def populate_qword_whole)
    have at: "efx_rx_buffer_at s i = Some b" and "\<not> length (rxd s) \<le> i"
      using i len by (simp_all add: efx_rx_buffer_at_def b_def)
    note IH = "1.IH" [OF False i_def this, unfolded s1]
    have "ring_wf (rxq_buffer s1) (rxq_ptr_mask s1)" "fill_of h s1 \<le> length (rxq_buffer s1)"
      using wf le by (simp_all add: s1_def fill_of_def)
    from IH [OF this descs1] obtain X where
      X: "rx_write_loop (n + 1) s1 = Some (s1\<lparr>rxd := X\<rparr>)" "descs_ok h (added_count s1) (s1\<lparr>rxd := X\<rparr>)"
      by auto
    have "rx_write_loop n s = rx_write_loop (n + 1) s1"
      using False i len at s1 by (subst rx_write_loop.simps) (simp add: i_def [symmetric] Let_def)
    then show ?thesis
      using X by (auto simp: s1_def)
  qed
qed

end
