(* ===== verification/Rx_Pop.thy ===== *)
theory Rx_Pop
  imports Rx_Push
begin

section \<open>Received packets keep the invariant\<close>

subsection \<open>Passing on a packet\<close>

text \<open>What the delivery of a packet leaves alone.\<close>

definition rx_frame :: "rx_channel \<Rightarrow> rx_channel \<Rightarrow> bool" where
  "rx_frame s s' \<longleftrightarrow>
     rxq_ptr_mask s' = rxq_ptr_mask s \<and> added_count s' = added_count s \<and> removed_count s' = removed_count s \<and>
     notified_count s' = notified_count s \<and> rxd s' = rxd s \<and> page_ring s' = page_ring s \<and>
     page_ptr_mask s' = page_ptr_mask s \<and> max_fill s' = max_fill s \<and>
     fast_fill_trigger s' = fast_fill_trigger s \<and> refill_enabled s' = refill_enabled s \<and>
     rx_pkt_n_frags s' = rx_pkt_n_frags s \<and> rx_pkt_index s' = rx_pkt_index s \<and> host_tries s' = host_tries s \<and>
     host_maps s' = host_maps s \<and> slow_fill_work s' = slow_fill_work s \<and> grant_credits s' = grant_credits s \<and> rx_packets s' = rx_packets s"

lemma rx_frame_refl [simp]: "rx_frame s s"
  by (simp add: rx_frame_def)

lemma rx_frame_trans: "rx_frame s t \<Longrightarrow> rx_frame t u \<Longrightarrow> rx_frame s u"
  by (simp add: rx_frame_def)

text \<open>The outcome of a packet names the page of its buffer; a socket buffer also where the frame starts.\<close>

definition buf_place :: "efx_rx_buffer \<Rightarrow> nat option \<times> u16" where
  "buf_place b = (rb_page b, rb_page_offset b)"

fun from_place :: "nat option \<times> u16 \<Rightarrow> rx_outcome \<Rightarrow> bool" where
  "from_place (pg, off) (Rx_gro skb) = (map (\<lambda>(p, a, _). (Some p, a)) (rs_frags skb) = [(pg, off)])"
| "from_place (pg, off) (Rx_no_skb p) = (pg = Some p)"
| "from_place (pg, off) (Rx_bad_fcs p) = (pg = Some p)"
| "from_place (pg, off) (Rx_short p) = (pg = Some p)"
| "from_place (pg, off) (Rx_to_rep _ p) = (pg = Some p)"
| "from_place (pg, off) (Rx_rep_down p) = (pg = Some p)"
| "from_place (pg, off) (Rx_bad_port p) = (pg = Some p)"
| "from_place (pg, off) (Rx_no_receiver p) = (pg = Some p)"

text \<open>
  \<open>passed W A R i s s'\<close>: the packet in slot \<open>i\<close> was passed on or dropped with one entry in the log;
  the reference of its buffer is gone or lost.
\<close>

definition passed :: "nat multiset \<Rightarrow> (nat \<Rightarrow> u64) \<Rightarrow> nat multiset \<Rightarrow> nat \<Rightarrow> rx_channel \<Rightarrow> rx_channel \<Rightarrow> bool" where
  "passed W A R i s s' \<longleftrightarrow>
     rx_frame s s' \<and> (\<exists>b. rxq_buffer s' = (rxq_buffer s)[i := b]) \<and>
     (\<exists>out. rx_log s' = out # rx_log s \<and> from_place (buf_place (rxq_buffer s ! i)) out \<and>
        ledger W A (R + (case lost_page out of None \<Rightarrow> {#} | Some p \<Rightarrow> {#p#})) (host_pages s') (host_tries s'))"

lemma passedI:
  assumes "rx_frame s s'" and "rxq_buffer s' = (rxq_buffer s)[i := b]" and "rx_log s' = out # rx_log s"
    and "from_place (buf_place (rxq_buffer s ! i)) out"
    and "ledger W A (R + (case lost_page out of None \<Rightarrow> {#} | Some p \<Rightarrow> {#p#})) (host_pages s') (host_tries s')"
  shows "passed W A R i s s'"
  using assms by (auto simp: passed_def)

lemma passed_frame:
  assumes "passed W A R i s s'" and "rx_frame r s" and "rxq_buffer s = (rxq_buffer r)[i := b]" and "rx_log s = rx_log r"
    and "buf_place (rxq_buffer s ! i) = buf_place (rxq_buffer r ! i)"
  shows "passed W A R i r s'"
  using assms unfolding passed_def by (auto intro: rx_frame_trans)

lemma free_buffer_ok:
  assumes "ledger W A (add_mset p R) (host_pages s) t" and "i < length (rxq_buffer s)" and "rb_page (rxq_buffer s ! i) = Some p"
  obtains H where "efx_free_rx_buffers i 1 s =
      Some (s\<lparr>host_pages := H, rxq_buffer := (rxq_buffer s)[i := (rxq_buffer s ! i)\<lparr>rb_page := None\<rparr>]\<rparr>)"
    and "ledger W A R H t"
proof -
  obtain H where "put_page p s = Some (s\<lparr>host_pages := H\<rparr>)" "ledger W A R H t"
    using put_ref [OF assms(1)] .
  then show ?thesis
    using assms(2,3) by (intro that [of H]) (simp_all add: efx_rx_buffer_at_def set_rx_buffer_def)
qed

lemma gro_ok:
  assumes "ledger W A (add_mset p R) (host_pages s) (host_tries s)" and "i < length (rxq_buffer s)"
    and "rb_page (rxq_buffer s ! i) = Some p"
  obtains s' where "efx_rx_packet_gro env c i 1 csum s = Some s'" and "passed W A R i s s'"
proof (cases "env_skb env (length (rx_log s))")
  case False
  obtain H where H: "efx_free_rx_buffers i 1 s =
      Some (s\<lparr>host_pages := H, rxq_buffer := (rxq_buffer s)[i := (rxq_buffer s ! i)\<lparr>rb_page := None\<rparr>]\<rparr>)" "ledger W A R H (host_tries s)"
    using free_buffer_ok [OF assms] .
  show ?thesis
    by (rule that [of "log_rx (Rx_no_skb p) (s\<lparr>host_pages := H, rxq_buffer := (rxq_buffer s)[i := (rxq_buffer s ! i)\<lparr>rb_page := None\<rparr>]\<rparr>)"])
      (use False H assms(2,3) in \<open>auto simp: buf_place_def efx_rx_packet_gro_def efx_rx_buffer_at_def Let_def log_rx_def rx_frame_def
          simp del: efx_free_rx_buffers.simps intro!: passedI\<close>)
next
  case True
  obtain H where H: "skb_take_page p s = Some (s\<lparr>host_pages := H\<rparr>)" "ledger W A R H (host_tries s)"
    using skb_take [OF assms(1)] .
  define s1 where "s1 = s\<lparr>host_pages := H, rxq_buffer := (rxq_buffer s)[i := (rxq_buffer s ! i)\<lparr>rb_page := None\<rparr>]\<rparr>"
  have "\<exists>skb. efx_rx_packet_gro env c i 1 csum s = Some (log_rx (Rx_gro skb) (s1\<lparr>irq_mod_score := irq_mod_score s1 + (if env_gro_drop env (length (rx_log s)) then 0 else 2)\<rparr>)) \<and>
      rs_frags skb = [(p, rb_page_offset (rxq_buffer s ! i), rb_len (rxq_buffer s ! i))]"
    using True H(1) assms(2,3)
    by (auto simp: efx_rx_packet_gro_def efx_rx_buffer_at_def set_rx_buffer_def Let_def s1_def)
  then obtain skb where skb: "efx_rx_packet_gro env c i 1 csum s = Some (log_rx (Rx_gro skb) (s1\<lparr>irq_mod_score := irq_mod_score s1 + (if env_gro_drop env (length (rx_log s)) then 0 else 2)\<rparr>))"
    and frags: "rs_frags skb = [(p, rb_page_offset (rxq_buffer s ! i), rb_len (rxq_buffer s ! i))]"
    by blast
  show ?thesis
    by (rule that [OF skb]) (use H(2) frags assms(3) in \<open>auto simp: buf_place_def log_rx_def s1_def rx_frame_def intro!: passedI\<close>)
qed

lemma foreign_ok:
  assumes "ledger W A (add_mset p R) (host_pages s) (host_tries s)" and "i < length (rxq_buffer s)"
    and "rb_page (rxq_buffer s ! i) = Some p"
  obtains s' where "rx_foreign env i p port s = Some s'" and "passed W A R i s s'"
proof -
  define t where "t = (if env_rep env port = None then s\<lparr>n_rx_mport_bad := n_rx_mport_bad s + 1\<rparr> else s)"
  have t: "ledger W A (add_mset p R) (host_pages t) (host_tries t)" "i < length (rxq_buffer t)" "rb_page (rxq_buffer t ! i) = Some p"
    using assms by (simp_all add: t_def)
  obtain H where H: "efx_free_rx_buffers i 1 t =
      Some (t\<lparr>host_pages := H, rxq_buffer := (rxq_buffer t)[i := (rxq_buffer t ! i)\<lparr>rb_page := None\<rparr>]\<rparr>)" "ledger W A R H (host_tries t)"
    using free_buffer_ok [OF t] .
  note simps = buf_place_def assms(3) rx_foreign_def log_rx_def rx_frame_def t_def
  show ?thesis
  proof (cases "env_rep env port")
    case None
    show ?thesis
      by (rule that [of "log_rx (Rx_bad_port p) (t\<lparr>host_pages := H, rxq_buffer := (rxq_buffer t)[i := (rxq_buffer t ! i)\<lparr>rb_page := None\<rparr>]\<rparr>)"])
        (use None H in \<open>auto simp: simps simp del: efx_free_rx_buffers.simps intro!: passedI\<close>)
  next
    case (Some up)
    show ?thesis
    proof (cases up)
      case True
      show ?thesis
        by (rule that [of "log_rx (Rx_to_rep port p) s"])
          (use Some True assms in \<open>auto simp: simps intro!: passedI [where b = "rxq_buffer s ! i"]\<close>)
    next
      case False
      show ?thesis
        by (rule that [of "log_rx (Rx_rep_down p) (t\<lparr>host_pages := H, rxq_buffer := (rxq_buffer t)[i := (rxq_buffer t ! i)\<lparr>rb_page := None\<rparr>]\<rparr>)"])
          (use Some False H in \<open>auto simp: simps simp del: efx_free_rx_buffers.simps intro!: passedI\<close>)
    qed
  qed
qed

lemma checksum_frame:
  "rx_frame s (snd (rx_checksum env w s))" "rxq_buffer (snd (rx_checksum env w s)) = rxq_buffer s"
  "rx_log (snd (rx_checksum env w s)) = rx_log s" "host_pages (snd (rx_checksum env w s)) = host_pages s"
  by (simp_all add: rx_checksum_def rx_frame_def)

lemma fcs_frame:
  "rx_frame s (snd (check_fcs w s))" "rxq_buffer (snd (check_fcs w s)) = rxq_buffer s"
  "rx_log (snd (check_fcs w s)) = rx_log s" "host_pages (snd (check_fcs w s)) = host_pages s"
  by (simp_all add: check_fcs_def rx_frame_def Let_def)

lemma rx_frame_tries: "rx_frame s s' \<Longrightarrow> host_tries s' = host_tries s"
  by (simp add: rx_frame_def)

lemma deliver_ok:
  assumes "ledger W A (add_mset p R) (host_pages s) (host_tries s)" and "i < length (rxq_buffer s)"
    and "rb_page (rxq_buffer s ! i) = Some p" and "rx_pkt_n_frags s = 1"
  obtains s' where "rx_deliver env c i p w s = Some s'" and "passed W A R i s s'"
proof -
  define port where "port = (ucast (PREFIX_FIELD w ESF_GZ_RX_PREFIX_INGRESS_VPORT) :: u16)"
  define s1 where "s1 = snd (rx_checksum env w s)"
  note fr = checksum_frame [where s = s and env = env and w = w, folded s1_def]
  have s1: "ledger W A (add_mset p R) (host_pages s1) (host_tries s1)" "i < length (rxq_buffer s1)"
      "rb_page (rxq_buffer s1 ! i) = Some p"
    using assms(1,2,3) fr rx_frame_tries [OF fr(1)] by simp_all
  have n: "rx_pkt_n_frags s1 = 1"
    using fr(1) assms(4) by (simp add: rx_frame_def)
  have buf: "rxq_buffer s1 = (rxq_buffer s)[i := rxq_buffer s ! i]"
    using fr(2) by simp
  have eq: "rx_deliver env c i p w s =
      (if foreign_port env port then rx_foreign env i p port s
       else if receive_skb env then do { s \<leftarrow> efx_free_rx_buffers i 1 s1; Some (log_rx (Rx_no_receiver p) s) }
       else efx_rx_packet_gro env c i 1 (fst (rx_checksum env w s)) s1)"
    using n by (simp add: rx_deliver_def port_def s1_def Let_def split_beta del: efx_free_rx_buffers.simps)
  consider "foreign_port env port" | "\<not> foreign_port env port" "receive_skb env" | "\<not> foreign_port env port" "\<not> receive_skb env"
    by auto
  then show ?thesis
  proof cases
    case 1
    then show ?thesis
      using foreign_ok [OF assms(1,2,3), of env port] that eq by auto
  next
    case 2
    obtain H where H: "efx_free_rx_buffers i 1 s1 =
        Some (s1\<lparr>host_pages := H, rxq_buffer := (rxq_buffer s1)[i := (rxq_buffer s1 ! i)\<lparr>rb_page := None\<rparr>]\<rparr>)" "ledger W A R H (host_tries s1)"
      using free_buffer_ok [OF s1] .
    show ?thesis
      by (rule that [of "log_rx (Rx_no_receiver p) (s1\<lparr>host_pages := H, rxq_buffer := (rxq_buffer s1)[i := (rxq_buffer s1 ! i)\<lparr>rb_page := None\<rparr>]\<rparr>)"])
        (use 2 H eq fr assms(3) in \<open>auto simp: buf_place_def log_rx_def rx_frame_def simp del: efx_free_rx_buffers.simps intro!: passedI\<close>)
  next
    case 3
    obtain s' where "efx_rx_packet_gro env c i 1 (fst (rx_checksum env w s)) s1 = Some s'" "passed W A R i s1 s'"
      using gro_ok [OF s1] .
    then show ?thesis
      using 3 that eq passed_frame [OF _ fr(1) buf fr(3)] fr(2) by simp
  qed
qed

lemma inv_after_pass:
  assumes "rx_inv c A gs k h (i # rest) s"
    and "passed (ring_owners (page_ring s) + group_owners gs) A
       (post_refs c k gs + pipe_refs (rxq_buffer s) rest + lost_refs (rx_log s)) i s s'"
  shows "rx_inv c A gs k h rest s'" and "\<And>j. j \<in> set rest \<Longrightarrow> rxq_buffer s' ! j = rxq_buffer s ! j"
proof -
  obtain b where b: "rxq_buffer s' = (rxq_buffer s)[i := b]"
    using assms(2) by (auto simp: passed_def)
  obtain out where out: "rx_log s' = out # rx_log s"
      "ledger (ring_owners (page_ring s) + group_owners gs) A
         (post_refs c k gs + pipe_refs (rxq_buffer s) rest + lost_refs (rx_log s) +
          (case lost_page out of None \<Rightarrow> {#} | Some p \<Rightarrow> {#p#})) (host_pages s') (host_tries s')"
    using assms(2) by (auto simp: passed_def)
  have fr: "rxq_ptr_mask s' = rxq_ptr_mask s" "added_count s' = added_count s" "page_ring s' = page_ring s"
      "page_ptr_mask s' = page_ptr_mask s"
    using assms(2) by (auto simp: passed_def rx_frame_def)
  note inv = rx_invD [OF assms(1)]
  have i: "i \<notin> set rest" "\<forall>n<unat (added_count s - h). ring_slot (rxq_ptr_mask s) h n \<noteq> i"
    using inv(2) by (auto simp: pipe_ok_def)
  have "ring_view (rxq_buffer s') (rxq_ptr_mask s) h (added_count s) = ring_view (rxq_buffer s) (rxq_ptr_mask s) h (added_count s)"
    unfolding b by (rule ring_update_other) (use i(2) in simp)
  then have shape: "rx_shape c A gs k h (rxq_buffer s') (rxq_ptr_mask s') (added_count s')"
    using inv(1) by (simp add: rx_shape_def fr b)
  show same: "rxq_buffer s' ! j = rxq_buffer s ! j" if "j \<in> set rest" for j
    unfolding b using that i(1) by (intro nth_list_update_neq) auto
  have pipe: "pipe_ok h rest (rxq_buffer s') (rxq_ptr_mask s') (added_count s')"
    using inv(2) same by (auto simp: pipe_ok_def fr b)
  have "pipe_refs (rxq_buffer s') rest = pipe_refs (rxq_buffer s) rest"
    unfolding pipe_refs_def using same by (intro arg_cong [of _ _ mset] map_cong) simp_all
  then have "ledger (ring_owners (page_ring s') + group_owners gs) A
      (post_refs c k gs + pipe_refs (rxq_buffer s') rest + lost_refs (rx_log s')) (host_pages s') (host_tries s')"
    using out by (auto simp: fr ac_simps split: option.splits)
  then show "rx_inv c A gs k h rest s'"
    using shape pipe inv(3) by (simp add: rx_inv_def fr)
qed

lemma deliver_packet_ok:
  assumes "rx_inv c A gs k h (i # rest) s" and "rx_pkt_index s = i" and "rx_pkt_n_frags s = 1"
  obtains s' out where "ef100_deliver_packet env c s = Some (s'\<lparr>rx_pkt_n_frags := 0\<rparr>)" and "rx_inv c A gs k h rest s'"
    and "rx_frame s s'" and "rx_log s' = out # rx_log s" and "length (rxq_buffer s') = length (rxq_buffer s)"
    and "from_place (buf_place (rxq_buffer s ! i)) out" and "\<And>j. j \<in> set rest \<Longrightarrow> rxq_buffer s' ! j = rxq_buffer s ! j"
proof -
  note inv = rx_invD [OF assms(1)]
  define W R where "W = ring_owners (page_ring s) + group_owners gs"
    and "R = post_refs c k gs + pipe_refs (rxq_buffer s) rest + lost_refs (rx_log s)"
  define b where "b = rxq_buffer s ! i"
  obtain p where p: "rb_page b = Some p" "i < length (rxq_buffer s)" "22 \<le> unat (rb_page_offset b)"
    using inv(2) by (auto simp: pipe_ok_def b_def)
  have led: "ledger W A (add_mset p R) (host_pages s) (host_tries s)"
    using inv(4) p(1) by (simp add: W_def R_def b_def buf_page_def)
  obtain g where g: "host_pages s p = Some g"
    using ledger_live [OF led, of p] by auto
  define w where "w = prefix_words env p (unat (rb_page_offset b))"
  define s1 where "s1 = snd (check_fcs w s)"
  note fr = fcs_frame [where s = s and w = w, folded s1_def]
  define len where "len = (ucast (PREFIX_FIELD w ESF_GZ_RX_PREFIX_LENGTH) :: u16)"
  define s2 where "s2 = s1\<lparr>rxq_buffer := (rxq_buffer s1)[i := b\<lparr>rb_len := len\<rparr>]\<rparr>"
  define s3 where "s3 = s2\<lparr>n_rx_frm_trunc := n_rx_frm_trunc s2 + 1\<rparr>"
  have fr2: "rx_frame s s2" "rxq_buffer s2 = (rxq_buffer s)[i := b\<lparr>rb_len := len\<rparr>]" "rx_log s2 = rx_log s"
    using fr by (simp_all add: s2_def rx_frame_def)
  have s2: "ledger W A (add_mset p R) (host_pages s2) (host_tries s2)" "i < length (rxq_buffer s2)"
      "rb_page (rxq_buffer s2 ! i) = Some p" "rx_pkt_n_frags s2 = 1"
    using led p(1,2) fr rx_frame_tries [OF fr(1)] assms(3) by (simp_all add: s2_def rx_frame_def)
  have place: "buf_place (rxq_buffer s2 ! i) = buf_place (rxq_buffer s ! i)"
    using p(2) by (simp add: fr2(2) buf_place_def b_def)
  have step: "ef100_deliver_packet env c s =
      map_option (\<lambda>t. t\<lparr>rx_pkt_n_frags := 0\<rparr>)
        (if fst (check_fcs w s) \<and> \<not> feat_rxall env then Some (log_rx (Rx_bad_fcs p) s1)
         else if len \<le> ETH_HLEN then Some (log_rx (Rx_short p) s3)
         else rx_deliver env c i p w s2)"
    using assms(2) p g fr(2)
    by (auto simp: ef100_deliver_packet_def efx_rx_buffer_at_def b_def [symmetric] w_def [symmetric] s1_def
        len_def s2_def s3_def set_rx_buffer_def Let_def split_beta map_option_case split: option.splits)
  have "\<exists>s'. (if fst (check_fcs w s) \<and> \<not> feat_rxall env then Some (log_rx (Rx_bad_fcs p) s1)
         else if len \<le> ETH_HLEN then Some (log_rx (Rx_short p) s3)
         else rx_deliver env c i p w s2) = Some s' \<and> passed W A R i s s'"
  proof -
    consider "fst (check_fcs w s) \<and> \<not> feat_rxall env" | "\<not> (fst (check_fcs w s) \<and> \<not> feat_rxall env)" "len \<le> ETH_HLEN"
      | "\<not> (fst (check_fcs w s) \<and> \<not> feat_rxall env)" "\<not> len \<le> ETH_HLEN"
      by blast
    then show ?thesis
    proof cases
      case 1
      have "passed W A R i s (log_rx (Rx_bad_fcs p) s1)"
        using fr led rx_frame_tries [OF fr(1)]
        by (intro passedI [where b = b and out = "Rx_bad_fcs p"]) (simp_all add: log_rx_def rx_frame_def b_def [symmetric] buf_place_def p(1), simp add: b_def)
      then show ?thesis
        using 1 by simp
    next
      case 2
      have "passed W A R i s (log_rx (Rx_short p) s3)"
        using fr2 s2(1) by (intro passedI [where b = "b\<lparr>rb_len := len\<rparr>" and out = "Rx_short p"])
          (simp_all add: log_rx_def rx_frame_def s3_def b_def [symmetric] buf_place_def p(1))
      then show ?thesis
        using 2 by (simp only: if_False if_True) blast
    next
      case 3
      obtain s' where "rx_deliver env c i p w s2 = Some s'" "passed W A R i s2 s'"
        using deliver_ok [OF s2] .
      then show ?thesis
        using 3 passed_frame [OF _ fr2] place by (simp only: if_False) blast
    qed
  qed
  then obtain s' where s': "ef100_deliver_packet env c s = Some (s'\<lparr>rx_pkt_n_frags := 0\<rparr>)" "passed W A R i s s'"
    using step by auto
  obtain out where out: "rx_log s' = out # rx_log s" "from_place (buf_place (rxq_buffer s ! i)) out"
    using s'(2) by (auto simp: passed_def)
  note after = inv_after_pass [OF assms(1) s'(2) [unfolded W_def R_def]]
  show ?thesis
    by (rule that [OF s'(1) after(1) _ out(1) _ out(2) after(2)]) (use s'(2) in \<open>auto simp: passed_def\<close>)
qed

end
