(* ===== verification/Rx_Poll.thy ===== *)
theory Rx_Poll
  imports Rx_Pop
begin

section \<open>Receive events keep the invariant\<close>

subsection \<open>Recycling\<close>

lemma recycle_page_ok:
  assumes "ledger (ring_owners (page_ring s) + (if \<not> ring \<and> fin then add_mset p G else G)) A R (host_pages s) (host_tries s)"
    and "if rx_recycle_ring_size c = 0 then page_ring s = None else \<exists>r. page_ring s = Some r \<and> ring_wf r (page_ptr_mask s)"
    and "i < length (rxq_buffer s)" and "rb_page (rxq_buffer s ! i) = Some p"
    and "rb_flags (rxq_buffer s ! i) AND EFX_RX_PAGE_IN_RECYCLE_RING \<noteq> 0 \<longleftrightarrow> ring"
    and "rb_flags (rxq_buffer s ! i) AND EFX_RX_BUF_LAST_IN_PAGE \<noteq> 0 \<longleftrightarrow> fin"
  obtains H pr a f where
    "efx_recycle_rx_pages c i 1 s = Some (s\<lparr>host_pages := H, page_ring := pr, page_add := a, page_recycle_full := f\<rparr>)"
    and "ledger (ring_owners pr + G) A R H (host_tries s)"
    and "if rx_recycle_ring_size c = 0 then pr = None else \<exists>r. pr = Some r \<and> ring_wf r (page_ptr_mask s)"
    and "ring_owners (page_ring s) \<subseteq># ring_owners pr"
proof -
  note result = that
  have once: "efx_recycle_rx_pages c i 1 s = efx_recycle_rx_page c i s"
    by (cases "efx_recycle_rx_page c i s") simp_all
  have at: "efx_rx_buffer_at s i = Some (rxq_buffer s ! i)"
    using assms(3) by (simp add: efx_rx_buffer_at_def)
  show ?thesis
  proof (cases "\<not> ring \<and> fin")
    case False
    then have "efx_recycle_rx_page c i s = Some s"
      using assms(5,6) at by (auto simp: efx_recycle_rx_page_def)
    then show ?thesis
      using result [where H = "host_pages s" and pr = "page_ring s" and a = "page_add s" and f = "page_recycle_full s"] assms(1,2) once False by auto
  next
    case True
    have flags: "rb_flags (rxq_buffer s ! i) AND EFX_RX_PAGE_IN_RECYCLE_RING = 0"
        "rb_flags (rxq_buffer s ! i) AND EFX_RX_BUF_LAST_IN_PAGE \<noteq> 0"
      using True assms(5,6) by auto
    have led: "ledger (add_mset p (ring_owners (page_ring s) + G)) A R (host_pages s) (host_tries s)"
      using assms(1) True by simp
    define s1 where "s1 = s\<lparr>page_recycle_full := page_recycle_full s + 1\<rparr>"
    have led1: "ledger (add_mset p (ring_owners (page_ring s) + G)) A R (host_pages s1) (host_tries s)"
      using led by (simp add: s1_def)
    obtain H H' where H: "unmap_page p s1 = Some (s1\<lparr>host_pages := H\<rparr>)"
        "put_page p (s1\<lparr>host_pages := H\<rparr>) = Some (s1\<lparr>host_pages := H'\<rparr>)"
        "ledger (ring_owners (page_ring s) + G) A R H' (host_tries s)"
      using put_base [OF led1] .
    have at1: "efx_rx_buffer_at s1 i = Some (rxq_buffer s ! i)"
      using assms(3) by (simp add: efx_rx_buffer_at_def s1_def)
    have full: "recycle_full i s = Some (s1\<lparr>host_pages := H'\<rparr>)"
      using H(1,2) at1 flags(1) assms(4) by (simp add: recycle_full_def s1_def [symmetric] efx_unmap_rx_buffer_def)
    have done_full: ?thesis if "efx_recycle_rx_page c i s = recycle_full i s"
      using result [where H = H' and pr = "page_ring s" and a = "page_add s" and f = "page_recycle_full s + 1"] H(3) assms(2) once that full
      by (simp add: s1_def)
    show ?thesis
    proof (cases "rx_recycle_ring_size c \<noteq> 0 \<and> page_add s \<noteq> rx_recycle_ring_size c")
      case False
      then show ?thesis
        using flags at by (intro done_full) (auto simp: efx_recycle_rx_page_def)
    next
      case room: True
      obtain r where r: "page_ring s = Some r" "ring_wf r (page_ptr_mask s)"
        using assms(2) room by auto
      define j where "j = unat (page_add s AND page_ptr_mask s)"
      have j: "j < length r"
        using ring_index_less [OF r(2)] by (simp add: j_def)
      have step: "efx_recycle_rx_page c i s =
          (if r ! j = None then Some (s\<lparr>page_ring := Some (r[j := Some p]), page_add := page_add s + 1\<rparr>) else recycle_full i s)"
        using flags at room r j assms(4) by (simp add: efx_recycle_rx_page_def j_def [symmetric] Let_def)
      show ?thesis
      proof (cases "r ! j = None")
        case False
        then show ?thesis
          using step by (intro done_full) auto
      next
        case True
        have own: "ring_owners (Some (r[j := Some p])) = add_mset p (ring_owners (page_ring s))"
          using ring_owners_add [OF j True] r(1) by simp
        show ?thesis
          by (rule result [where H = "host_pages s" and pr = "Some (r[j := Some p])" and a = "page_add s + 1" and f = "page_recycle_full s"])
            (use step True once led own r room in simp_all)
      qed
    qed
  qed
qed

subsection \<open>Offsets\<close>

lemma align_up_64:
  assumes "64 dvd unat (x :: u32)"
  shows "align_up x 64 = x"
proof -
  have "unat (x AND mask 6) = 0"
    using assms by (simp add: unat_and_mask dvd_eq_mod_eq_0)
  then have low: "x AND mask 6 = 0"
    by (simp add: unat_eq_0)
  have "(x + 63) AND NOT 63 = x"
  proof -
    have "x + 63 = x OR 63"
    proof (rule disjunctive_add)
      fix n
      have "\<not> bit (x AND mask 6) n"
        by (simp add: low)
      then show "\<not> bit x n \<or> \<not> bit (63 :: u32) n"
        using bit_mask_iff [of 6 n, where ?'a = "32 word"] by (auto simp: bit_and_iff mask_eq_exp_minus_1)
    qed
    moreover have "(x OR 63) AND NOT 63 = x AND NOT (mask 6)"
      by (auto intro!: bit_word_eqI simp: bit_simps mask_eq_exp_minus_1)
    moreover have "x AND NOT (mask 6) = x"
      by (simp add: and_not_mask_word low)
    ultimately show ?thesis
      by simp
  qed
  then show ?thesis
    by (simp add: align_up_def)
qed

text \<open>Where a posted buffer lies: its address in the page and its address on the bus agree.\<close>

lemma grp_buf_place:
  assumes "nic_ok c" and "i < bpp c"
  shows "unat (rb_page_offset (grp_buf c A g i)) = i * unat (rx_page_buf_step c) + 320"
    and "rb_dma_addr (grp_buf c A g i) = A (grp_page g) + of_nat (i * unat (rx_page_buf_step c) + 320)"
    and "i * unat (rx_page_buf_step c) + 320 + unat (rx_dma_len c) \<le> (i + 1) * unat (rx_page_buf_step c)"
    and "unat (rb_len (grp_buf c A g i)) = unat (rx_dma_len c)"
proof -
  define step where "step = unat (rx_page_buf_step c)"
  note off = unat_grp_off [OF assms, folded step_def] and ok = nic_okD [OF assms(1), folded step_def]
  have le: "i * step + step \<le> 2 ^ 15"
    using off(2) ok(8) by simp
  have small: "i * step + 320 \<le> 2 ^ 15"
    using le ok(6) by linarith
  define x where "x = grp_off c i + 320"
  have x: "unat x = i * step + 320"
    using small by (simp add: x_def unat_word_ariths off(1))
  have "64 dvd step"
    using assms(1) by (simp add: nic_ok_def step_def)
  then have "64 dvd unat x"
    unfolding x by (intro dvd_add dvd_mult) simp_all
  then have al: "align_up x 64 = x"
    by (rule align_up_64)
  have sum: "grp_off c i + 64 + 256 = x"
    by (simp add: x_def)
  have "unat (ucast x :: u16) = i * step + 320"
    using small x by (simp add: unsigned_ucast_eq take_bit_nat_def)
  then show "unat (rb_page_offset (grp_buf c A g i)) = i * unat (rx_page_buf_step c) + 320"
    using al ok(5) by (simp add: grp_buf_def Let_def sum step_def)
  define m where "m = i * step + 320"
  have "(ucast x :: u64) = of_nat m"
    using small by (simp add: word_unat_eq_iff unsigned_ucast_eq take_bit_nat_def unat_of_nat x m_def [symmetric])
  then show "rb_dma_addr (grp_buf c A g i) = A (grp_page g) + of_nat (i * unat (rx_page_buf_step c) + 320)"
    unfolding step_def [symmetric] m_def [symmetric] using ok(5) by (simp add: grp_buf_def Let_def sum)
  show "i * unat (rx_page_buf_step c) + 320 + unat (rx_dma_len c) \<le> (i + 1) * unat (rx_page_buf_step c)"
    using ok(6) by (simp add: step_def)
  have "unat (rx_dma_len c) < 2 ^ 16"
    using ok(6) le by simp
  then show "unat (rb_len (grp_buf c A g i)) = unat (rx_dma_len c)"
    by (simp add: grp_buf_def Let_def unsigned_ucast_eq take_bit_nat_def)
qed

subsection \<open>Taking a buffer\<close>

text \<open>The page list after the oldest buffer is taken.\<close>

definition drop_buf :: "rx_nic \<Rightarrow> rx_grp list \<Rightarrow> nat \<Rightarrow> rx_grp list \<times> nat" where
  "drop_buf c gs k = (if Suc k = bpp c then (tl gs, 0) else (gs, Suc k))"

lemma drop_buf_posted:
  assumes "k < bpp c"
  shows "posted c A k (g # gs) = grp_buf c A g k # (case drop_buf c (g # gs) k of (gs2, k2) \<Rightarrow> posted c A k2 gs2)"
    and "post_refs c k (g # gs) = add_mset (grp_page g) (case drop_buf c (g # gs) k of (gs2, k2) \<Rightarrow> post_refs c k2 gs2)"
  using assms by (simp_all add: drop_buf_def posted_Cons post_refs_Cons)

lemma drop_buf_bound:
  "k < bpp c \<Longrightarrow> drop_buf c (g # gs) k = (gs2, k2) \<Longrightarrow> k2 < bpp c \<and> (gs2 = [] \<longrightarrow> k2 = 0) \<and> set gs2 \<subseteq> set (g # gs)"
  by (auto simp: drop_buf_def split: if_splits)

text \<open>The slot of the buffer taken joins the pipeline, its page offset moved past the prefix.\<close>

definition taken_buf :: "rx_nic \<Rightarrow> efx_rx_buffer \<Rightarrow> efx_rx_buffer" where
  "taken_buf c b = b\<lparr>rb_page_offset := rb_page_offset b + ucast (rx_prefix_size c)\<rparr>"

lemma taken_offset:
  assumes "nic_ok c" and "i < bpp c"
  shows "22 \<le> unat (rb_page_offset (taken_buf c (grp_buf c A g i)))"
proof -
  have "(i + 1) * unat (rx_page_buf_step c) \<le> 2 ^ 15"
    using unat_grp_off(2) [OF assms] nic_okD(8) [OF assms(1)] by linarith
  then have "unat (rb_page_offset (grp_buf c A g i)) + 22 < 2 ^ 16"
    using grp_buf_place(1) [OF assms, of A g] grp_buf_place(3) [OF assms] by simp
  then show ?thesis
    using nic_okD(4) [OF assms(1)] by (simp add: taken_buf_def unat_word_ariths)
qed

lemma pop_shape:
  assumes "rx_inv c A gs k h pipe s" and "h \<noteq> added_count s"
  obtains g gs' where "gs = g # gs'" and "rxq_buffer s ! unat (h AND rxq_ptr_mask s) = grp_buf c A g k"
    and "ring_view (rxq_buffer s) (rxq_ptr_mask s) (h + 1) (added_count s) =
      (case drop_buf c gs k of (gs2, k2) \<Rightarrow> posted c A k2 gs2)"
proof -
  note shape = rx_invD(1) [OF assms(1)]
  have pop: "ring_view (rxq_buffer s) (rxq_ptr_mask s) h (added_count s) =
      rxq_buffer s ! unat (h AND rxq_ptr_mask s) # ring_view (rxq_buffer s) (rxq_ptr_mask s) (h + 1) (added_count s)"
    by (rule ring_pop [OF assms(2)])
  have view: "ring_view (rxq_buffer s) (rxq_ptr_mask s) h (added_count s) = posted c A k gs" and k: "k < bpp c"
    using shape by (simp_all add: rx_shape_def)
  obtain g gs' where gs: "gs = g # gs'"
    using pop view by (cases gs) simp_all
  show ?thesis
    by (rule that [OF gs]) (use pop view drop_buf_posted(1) [OF k, of A g gs'] gs in simp_all)
qed

lemma pop_ok:
  assumes "nic_ok c" and "rx_inv c A gs k h pipe s" and "h \<noteq> added_count s"
    and "i = unat (h AND rxq_ptr_mask s)" and "drop_buf c gs k = (gs2, k2)"
  obtains H pr a f where
    "efx_recycle_rx_pages c i 1 (s\<lparr>rxq_buffer := (rxq_buffer s)[i := taken_buf c (rxq_buffer s ! i)]\<rparr>) =
      Some (s\<lparr>rxq_buffer := (rxq_buffer s)[i := taken_buf c (rxq_buffer s ! i)],
              host_pages := H, page_ring := pr, page_add := a, page_recycle_full := f\<rparr>)"
    and "rx_inv c A gs2 k2 (h + 1) (pipe @ [i])
      (s\<lparr>rxq_buffer := (rxq_buffer s)[i := taken_buf c (rxq_buffer s ! i)],
         host_pages := H, page_ring := pr, page_add := a, page_recycle_full := f\<rparr>)"
    and "i < length (rxq_buffer s)" and "efx_sync_rx_buffer (rxq_buffer s ! i) s = Some s"
proof -
  note inv = rx_invD [OF assms(2)]
  have wf: "ring_wf (rxq_buffer s) (rxq_ptr_mask s)" and le: "unat (added_count s - h) \<le> length (rxq_buffer s)" and k: "k < bpp c"
    using inv(1) by (simp_all add: rx_shape_def)
  have i: "i < length (rxq_buffer s)"
    using ring_index_less [OF wf] by (simp add: assms(4))
  obtain g gs' where gs: "gs = g # gs'" and b: "rxq_buffer s ! i = grp_buf c A g k"
    and rest: "ring_view (rxq_buffer s) (rxq_ptr_mask s) (h + 1) (added_count s) = posted c A k2 gs2"
    using pop_shape [OF assms(2,3)] assms(4,5) by (metis case_prod_conv)
  define p where "p = grp_page g"
  define s1 where "s1 = s\<lparr>rxq_buffer := (rxq_buffer s)[i := taken_buf c (rxq_buffer s ! i)]\<rparr>"
  have fill: "unat (added_count s - h) = Suc (unat (added_count s - (h + 1)))"
    by (rule ring_fill_pop [OF assms(3)])
  have not_posted: "ring_slot (rxq_ptr_mask s) (h + 1) n \<noteq> i" if "n < unat (added_count s - (h + 1))" for n
  proof
    assume "ring_slot (rxq_ptr_mask s) (h + 1) n = i"
    then have "ring_slot (rxq_ptr_mask s) h (Suc n) = ring_slot (rxq_ptr_mask s) h 0"
      by (simp add: ring_slot_Suc ring_slot_0 assms(4))
    then have "Suc n = 0"
      by (rule ring_slot_inj [OF wf]) (use that fill le in linarith)+
    then show False
      by simp
  qed
  have not_pipe: "i \<notin> set pipe"
    using inv(2) fill ring_slot_0 [of "rxq_ptr_mask s" h] by (auto simp: pipe_ok_def assms(4))
  have owned: "p \<in># ring_owners (page_ring s) + group_owners gs"
    using group_owned [OF inv(3), of g] by (simp add: gs p_def)
  obtain pg where pg: "host_pages s p = Some pg" "pg_mapped pg = Some (A p)"
    using ledger_mapped [OF inv(4) owned] by metis
  have sync: "efx_sync_rx_buffer (rxq_buffer s ! i) s = Some s"
    using pg by (simp add: efx_sync_rx_buffer_def b p_def)
  have group: "group_owners gs = (if \<not> grp_ring g \<and> Suc k = bpp c then add_mset p (group_owners gs2) else group_owners gs2)"
    using assms(5) by (auto simp: gs drop_buf_def p_def split: if_splits)
  have refs: "post_refs c k gs = add_mset p (post_refs c k2 gs2)"
    using drop_buf_posted(2) [OF k, of g gs'] assms(5) by (simp add: gs p_def)
  define R where "R = post_refs c k2 gs2 + pipe_refs (rxq_buffer s1) (pipe @ [i]) + lost_refs (rx_log s)"
  have "pipe_refs (rxq_buffer s1) (pipe @ [i]) = add_mset p (pipe_refs (rxq_buffer s) pipe)"
  proof -
    have "map (\<lambda>j. buf_page (rxq_buffer s1 ! j)) pipe = map (\<lambda>j. buf_page (rxq_buffer s ! j)) pipe"
      using not_pipe by (auto simp: s1_def intro!: arg_cong [of _ _ buf_page] nth_list_update_neq)
    moreover have "buf_page (rxq_buffer s1 ! i) = p"
      using i by (simp add: s1_def b taken_buf_def p_def buf_page_def)
    ultimately have eq: "map (\<lambda>j. buf_page (rxq_buffer s1 ! j)) (pipe @ [i]) = map (\<lambda>j. buf_page (rxq_buffer s ! j)) pipe @ [p]"
      by (simp only: map_append list.map)
    show ?thesis
      unfolding pipe_refs_def eq by simp
  qed
  then have R: "post_refs c k gs + pipe_refs (rxq_buffer s) pipe + lost_refs (rx_log s) = R"
    by (simp add: R_def refs)
  have led: "ledger (ring_owners (page_ring s1) + (if \<not> grp_ring g \<and> Suc k = bpp c then add_mset p (group_owners gs2) else group_owners gs2))
      A R (host_pages s1) (host_tries s1)"
    using inv(4) unfolding R group by (simp add: s1_def)
  have f1: "if rx_recycle_ring_size c = 0 then page_ring s1 = None else \<exists>r. page_ring s1 = Some r \<and> ring_wf r (page_ptr_mask s1)"
    using inv(3) by (simp add: recycle_ok_def s1_def)
  have f2: "i < length (rxq_buffer s1)" and f3: "rb_page (rxq_buffer s1 ! i) = Some p"
    using i by (simp_all add: s1_def b taken_buf_def p_def)
  have f4: "rb_flags (rxq_buffer s1 ! i) AND EFX_RX_PAGE_IN_RECYCLE_RING \<noteq> 0 \<longleftrightarrow> grp_ring g"
    and f5: "rb_flags (rxq_buffer s1 ! i) AND EFX_RX_BUF_LAST_IN_PAGE \<noteq> 0 \<longleftrightarrow> Suc k = bpp c"
    using i grp_flags_bits [OF k] by (simp_all add: s1_def b taken_buf_def)
  obtain H pr a f where rec:
      "efx_recycle_rx_pages c i 1 s1 = Some (s1\<lparr>host_pages := H, page_ring := pr, page_add := a, page_recycle_full := f\<rparr>)"
      "ledger (ring_owners pr + group_owners gs2) A R H (host_tries s1)"
      "if rx_recycle_ring_size c = 0 then pr = None else \<exists>r. pr = Some r \<and> ring_wf r (page_ptr_mask s1)"
      "ring_owners (page_ring s1) \<subseteq># ring_owners pr"
    by (rule recycle_page_ok [OF led f1 f2 f3 f4 f5])
  define s2 where "s2 = s1\<lparr>host_pages := H, page_ring := pr, page_add := a, page_recycle_full := f\<rparr>"
  have bound: "k2 < bpp c" "gs2 = [] \<longrightarrow> k2 = 0" "set gs2 \<subseteq> set gs"
    using drop_buf_bound [OF k assms(5) [unfolded gs]] by (auto simp: gs)
  have "ring_view (rxq_buffer s1) (rxq_ptr_mask s) (h + 1) (added_count s) = posted c A k2 gs2"
    unfolding s1_def using not_posted rest by (simp add: ring_update_other)
  then have "rx_shape c A gs2 k2 (h + 1) (rxq_buffer s2) (rxq_ptr_mask s2) (added_count s2)"
    using wf le fill bound by (simp add: rx_shape_def s2_def s1_def)
  moreover have "pipe_ok (h + 1) (pipe @ [i]) (rxq_buffer s2) (rxq_ptr_mask s2) (added_count s2)"
  proof -
    have fields: "rxq_buffer s2 = rxq_buffer s1" "rxq_ptr_mask s2 = rxq_ptr_mask s" "added_count s2 = added_count s"
      by (simp_all add: s2_def s1_def)
    have new: "i < length (rxq_buffer s1) \<and> (\<forall>n<unat (added_count s - (h + 1)). ring_slot (rxq_ptr_mask s) (h + 1) n \<noteq> i) \<and>
        rb_page (rxq_buffer s1 ! i) \<noteq> None \<and> 22 \<le> unat (rb_page_offset (rxq_buffer s1 ! i))"
      using f2 f3 not_posted i taken_offset [OF assms(1) k, of A g] by (simp add: s1_def b)
    have old: "j < length (rxq_buffer s1) \<and> (\<forall>n<unat (added_count s - (h + 1)). ring_slot (rxq_ptr_mask s) (h + 1) n \<noteq> j) \<and>
        rb_page (rxq_buffer s1 ! j) \<noteq> None \<and> 22 \<le> unat (rb_page_offset (rxq_buffer s1 ! j))" if j: "j \<in> set pipe" for j
    proof -
      have "rxq_buffer s1 ! j = rxq_buffer s ! j"
        using j not_pipe unfolding s1_def by (auto intro!: nth_list_update_neq)
      moreover have "j < length (rxq_buffer s)" "rb_page (rxq_buffer s ! j) \<noteq> None" "22 \<le> unat (rb_page_offset (rxq_buffer s ! j))"
        using inv(2) j by (simp_all add: pipe_ok_def)
      moreover have "ring_slot (rxq_ptr_mask s) (h + 1) n \<noteq> j" if "n < unat (added_count s - (h + 1))" for n
      proof -
        have "Suc n < unat (added_count s - h)"
          using that fill by simp
        then show ?thesis
          using inv(2) j unfolding pipe_ok_def by (metis ring_slot_Suc)
      qed
      ultimately show ?thesis
        by (simp add: s1_def)
    qed
    have "distinct (pipe @ [i])"
      using inv(2) not_pipe by (simp add: pipe_ok_def)
    then show ?thesis
      using new old unfolding pipe_ok_def fields by simp
  qed
  moreover have "recycle_ok c gs2 (page_ring s2) (page_ptr_mask s2)"
  proof -
    have "distinct (map grp_page gs2)"
      using inv(3) assms(5) by (auto simp: recycle_ok_def drop_buf_def gs split: if_splits)
    then show ?thesis
      using rec(3,4) inv(3) bound(3) by (auto simp: recycle_ok_def s2_def s1_def dest: mset_subset_eqD)
  qed
  moreover have "ledger (ring_owners (page_ring s2) + group_owners gs2) A
      (post_refs c k2 gs2 + pipe_refs (rxq_buffer s2) (pipe @ [i]) + lost_refs (rx_log s2)) (host_pages s2) (host_tries s2)"
    using rec(2) by (simp add: R_def s2_def s1_def)
  ultimately have "rx_inv c A gs2 k2 (h + 1) (pipe @ [i]) s2"
    by (simp add: rx_inv_def)
  then show ?thesis
    using rec(1) i sync unfolding s2_def s1_def by (rule_tac that)
qed

end
