(* ===== verification/Rx_System.thy ===== *)
theory Rx_System
  imports Rx_Poll
begin

section \<open>A receive queue over time\<close>

text \<open>
  The states that a receive queue reaches from its start by receive events, ends of polls, and the
  kernel taking and dropping references of the pages it was given. The controller is trusted to
  report no more packets than it has buffers.
\<close>

subsection \<open>Between operations\<close>

definition pipe_of :: "rx_channel \<Rightarrow> nat list" where
  "pipe_of s = (if rx_pkt_n_frags s = 0 then [] else [rx_pkt_index s])"

definition limits_ok :: "rx_nic \<Rightarrow> rx_channel \<Rightarrow> bool" where
  "limits_ok c s \<longleftrightarrow>
     unat (max_fill s) \<le> length (rxq_buffer s) \<and> batch c \<le> unat (max_fill s) \<and>
     unat (fast_fill_trigger s) + batch c \<le> unat (max_fill s) \<and> fill_of (removed_count s) s \<le> unat (max_fill s)"

definition rx_good :: "rx_nic \<Rightarrow> (nat \<Rightarrow> u64) \<Rightarrow> rx_grp list \<Rightarrow> nat \<Rightarrow> rx_channel \<Rightarrow> bool" where
  "rx_good c A gs k s \<longleftrightarrow>
     rx_inv c A gs k (removed_count s) (pipe_of s) s \<and> descs_ok (removed_count s) (added_count s) s \<and>
     notified_count s = added_count s \<and> rx_pkt_n_frags s \<le> 1 \<and> limits_ok c s \<and>
     rx_packets s = of_nat (length (rx_log s) + length (pipe_of s))"

lemma rx_goodD:
  assumes "rx_good c A gs k s"
  shows "rx_inv c A gs k (removed_count s) (pipe_of s) s" "descs_ok (removed_count s) (added_count s) s"
    "notified_count s = added_count s" "rx_pkt_n_frags s \<le> 1" "limits_ok c s"
    "rx_packets s = of_nat (length (rx_log s) + length (pipe_of s))"
  using assms by (simp_all add: rx_good_def)

lemma posted_view_posted: "rx_inv c A gs k h pipe s \<Longrightarrow> posted_view h s = posted c A k gs"
  by (simp add: rx_inv_def rx_shape_def posted_view_def)

lemma fill_of_le: "rx_inv c A gs k h pipe s \<Longrightarrow> fill_of h s \<le> length (rxq_buffer s)"
  by (simp add: rx_inv_def rx_shape_def fill_of_def)

lemma n_frags_cases: "rx_pkt_n_frags s \<le> 1 \<Longrightarrow> rx_pkt_n_frags s = 0 \<or> rx_pkt_n_frags s = 1"
proof -
  assume "rx_pkt_n_frags s \<le> 1"
  then have "unat (rx_pkt_n_frags s) \<le> 1"
    by (simp add: word_le_nat_alt)
  then have "unat (rx_pkt_n_frags s) = unat (0 :: u32) \<or> unat (rx_pkt_n_frags s) = unat (1 :: u32)"
    by auto
  then show ?thesis
    by (simp only: word_unat_eq_iff)
qed

text \<open>Posted buffers and descriptors depend on a few fields only.\<close>

lemma descs_ok_same:
  assumes "descs_ok h n s" and "posted_view h s' = posted_view h s" and "rxd s' = rxd s" and "rxq_ptr_mask s' = rxq_ptr_mask s"
    and "length (rxq_buffer s') = length (rxq_buffer s)"
  shows "descs_ok h n s'"
proof -
  have "fill_of h s' = fill_of h s"
    using arg_cong [OF assms(2), of length] by simp
  then show ?thesis
    using assms by (simp add: descs_ok_def)
qed

text \<open>
  \<open>delivers P s s'\<close>: the packets held back in \<open>s\<close> and then those received at the places \<open>P\<close> are passed
  on in this order, except those that are held back in \<open>s'\<close>.
\<close>

definition pipe_places :: "rx_channel \<Rightarrow> (nat option \<times> u16) list" where
  "pipe_places s = map (\<lambda>i. buf_place (rxq_buffer s ! i)) (pipe_of s)"

definition delivers :: "(nat option \<times> u16) list \<Rightarrow> rx_channel \<Rightarrow> rx_channel \<Rightarrow> bool" where
  "delivers P s s' \<longleftrightarrow>
     (\<exists>fin outs. rx_log s' = rev outs @ rx_log s \<and> pipe_places s @ P = fin @ pipe_places s' \<and> list_all2 from_place fin outs)"

lemma delivers_refl: "rx_log s' = rx_log s \<Longrightarrow> pipe_places s' = pipe_places s \<Longrightarrow> delivers [] s s'"
  by (simp add: delivers_def)

lemma delivers_trans:
  assumes "delivers P s t" and "delivers Q t u"
  shows "delivers (P @ Q) s u"
proof -
  obtain f o1 where 1: "rx_log t = rev o1 @ rx_log s" "pipe_places s @ P = f @ pipe_places t" "list_all2 from_place f o1"
    using assms(1) by (auto simp: delivers_def)
  obtain g o2 where 2: "rx_log u = rev o2 @ rx_log t" "pipe_places t @ Q = g @ pipe_places u" "list_all2 from_place g o2"
    using assms(2) by (auto simp: delivers_def)
  have "pipe_places s @ P @ Q = (f @ g) @ pipe_places u"
    using 1(2) 2(2) by (metis append.assoc)
  moreover have "list_all2 from_place (f @ g) (o1 @ o2)"
    using 1(3) 2(3) by (rule list_all2_appendI)
  ultimately show ?thesis
    using 1(1) 2(1) unfolding delivers_def by (intro exI [of _ "f @ g"] exI [of _ "o1 @ o2"]) simp
qed

lemma pipe_places_cong:
  "rx_pkt_n_frags s' = rx_pkt_n_frags s \<Longrightarrow> rx_pkt_index s' = rx_pkt_index s \<Longrightarrow> rxq_buffer s' = rxq_buffer s \<Longrightarrow>
   pipe_places s' = pipe_places s"
  by (simp add: pipe_places_def pipe_of_def)

text \<open>Where the packets of the next \<open>n\<close> buffers will start.\<close>

definition next_places :: "rx_nic \<Rightarrow> nat \<Rightarrow> rx_channel \<Rightarrow> (nat option \<times> u16) list" where
  "next_places c n s = map (\<lambda>b. buf_place (taken_buf c b)) (take n (posted_view (removed_count s) s))"

lemma flush_ok:
  assumes "rx_inv c A gs k h (pipe_of s @ rest) s" and "rx_pkt_n_frags s \<le> 1"
  obtains s' new where "efx_rx_flush_packet env c s = Some (s'\<lparr>rx_pkt_n_frags := 0\<rparr>)" and "rx_inv c A gs k h rest s'"
    and "rx_frame s s'" and "length (rxq_buffer s') = length (rxq_buffer s)"
    and "rx_log s' = rev new @ rx_log s" and "list_all2 from_place (pipe_places s) new"
    and "\<And>j. j \<in> set rest \<Longrightarrow> rxq_buffer s' ! j = rxq_buffer s ! j"
proof (cases "rx_pkt_n_frags s = 0")
  case True
  then have "s\<lparr>rx_pkt_n_frags := 0\<rparr> = s"
    by simp
  then show ?thesis
    using that [of s "[]"] assms(1) True by (simp add: efx_rx_flush_packet_def pipe_of_def pipe_places_def)
next
  case False
  then have one: "rx_pkt_n_frags s = 1"
    using n_frags_cases [OF assms(2)] by simp
  have "rx_inv c A gs k h (rx_pkt_index s # rest) s"
    using assms(1) False by (simp add: pipe_of_def)
  then obtain s' out where "ef100_deliver_packet env c s = Some (s'\<lparr>rx_pkt_n_frags := 0\<rparr>)" "rx_inv c A gs k h rest s'"
      "rx_frame s s'" "rx_log s' = out # rx_log s" "length (rxq_buffer s') = length (rxq_buffer s)"
      "from_place (buf_place (rxq_buffer s ! rx_pkt_index s)) out" "\<And>j. j \<in> set rest \<Longrightarrow> rxq_buffer s' ! j = rxq_buffer s ! j"
    using deliver_packet_ok [OF _ refl one] by metis
  then show ?thesis
    using that [of s' "[out]"] False by (simp add: efx_rx_flush_packet_def pipe_of_def pipe_places_def)
qed

lemma rx_inv_n_frags [simp]: "rx_inv c A gs k h pipe (s\<lparr>rx_pkt_n_frags := n\<rparr>) = rx_inv c A gs k h pipe s"
  by (simp add: rx_inv_def)

subsection \<open>A packet\<close>

lemma tl_view:
  assumes "h \<noteq> added_count s"
  shows "posted_view (h + 1) s = tl (posted_view h s)"
  by (simp add: posted_view_def ring_pop [OF assms])

lemma rx_packet_ok:
  assumes "nic_ok c" and "rx_good c A gs k s" and "0 < fill_of (removed_count s) s" and "drop_buf c gs k = (gs2, k2)"
  obtains s' where "ef100_rx_packet env c (unat (removed_count s AND rxq_ptr_mask s)) s = Some s'"
    and "rx_good c A gs2 k2 (s'\<lparr>removed_count := removed_count s' + 1\<rparr>)"
    and "fill_of (removed_count s) s = Suc (fill_of (removed_count s' + 1) s')"
    and "rx_pkt_n_frags s' = 1" and "added_count s' = added_count s \<and> refill_enabled s' = refill_enabled s"
    and "posted_view (removed_count s' + 1) s' = tl (posted_view (removed_count s) s)" and "delivers (next_places c 1 s) s s'"
proof -
  define h where "h = removed_count s"
  define i where "i = unat (h AND rxq_ptr_mask s)"
  define s0 where "s0 = s\<lparr>rx_packets := rx_packets s + 1\<rparr>"
  note good = rx_goodD [OF assms(2), folded h_def]
  have ne: "h \<noteq> added_count s0"
    using assms(3) by (auto simp: s0_def h_def fill_of_def)
  have inv0: "rx_inv c A gs k h (pipe_of s) s0"
    using good(1) by (simp add: s0_def rx_inv_def)
  have i0: "i = unat (h AND rxq_ptr_mask s0)"
    by (simp add: i_def s0_def)
  define b where "b = rxq_buffer s0 ! i"
  define s1 where "s1 = s0\<lparr>rxq_buffer := (rxq_buffer s0)[i := taken_buf c b]\<rparr>"
  obtain H pr a f where pop: "efx_recycle_rx_pages c i 1 s1 =
        Some (s1\<lparr>host_pages := H, page_ring := pr, page_add := a, page_recycle_full := f\<rparr>)"
      "rx_inv c A gs2 k2 (h + 1) (pipe_of s @ [i]) (s1\<lparr>host_pages := H, page_ring := pr, page_add := a, page_recycle_full := f\<rparr>)"
      "i < length (rxq_buffer s0)" "efx_sync_rx_buffer b s0 = Some s0"
    using pop_ok [OF assms(1) inv0 ne i0 assms(4)] unfolding b_def [symmetric] s1_def by metis
  define s2 where "s2 = s1\<lparr>host_pages := H, page_ring := pr, page_add := a, page_recycle_full := f\<rparr>"
  have pipe2: "pipe_of s2 = pipe_of s" "rx_pkt_n_frags s2 \<le> 1"
    using good(4) by (simp_all add: pipe_of_def s2_def s1_def s0_def)
  obtain s3 new where fl: "efx_rx_flush_packet env c s2 = Some (s3\<lparr>rx_pkt_n_frags := 0\<rparr>)" "rx_inv c A gs2 k2 (h + 1) [i] s3"
      "rx_frame s2 s3" "length (rxq_buffer s3) = length (rxq_buffer s2)" "rx_log s3 = rev new @ rx_log s2"
      "list_all2 from_place (pipe_places s2) new" "rxq_buffer s3 ! i = rxq_buffer s2 ! i"
    using flush_ok [of c A gs2 k2 "h + 1" s2 "[i]" env] pop(2) pipe2 by (auto simp: s2_def [symmetric])
  define s' where "s' = s3\<lparr>rx_pkt_n_frags := 1, rx_pkt_index := i\<rparr>"
  have run: "ef100_rx_packet env c (unat (removed_count s AND rxq_ptr_mask s)) s = Some s'"
    using pop(1,3,4) fl(1) unfolding h_def [symmetric] i_def [symmetric]
    by (simp add: ef100_rx_packet_def s0_def [symmetric] efx_rx_buffer_at_def b_def [symmetric] set_rx_buffer_def
        taken_buf_def [symmetric] s1_def [symmetric] s2_def [symmetric] s'_def Let_def del: efx_recycle_rx_pages.simps)
  have fields: "removed_count s' = h" "added_count s' = added_count s" "rxd s' = rxd s" "rxq_ptr_mask s' = rxq_ptr_mask s"
      "length (rxq_buffer s') = length (rxq_buffer s)" "notified_count s' = notified_count s" "max_fill s' = max_fill s"
      "fast_fill_trigger s' = fast_fill_trigger s" "rx_packets s' = rx_packets s + 1" "rx_log s' = rev new @ rx_log s"
      "refill_enabled s' = refill_enabled s"
    using fl(3,4,5) by (simp_all add: s'_def rx_frame_def s2_def s1_def s0_def h_def)
  define t where "t = s'\<lparr>removed_count := removed_count s' + 1\<rparr>"
  have inv: "rx_inv c A gs2 k2 (h + 1) [i] t"
    using fl(2) by (rule rx_inv_cong) (simp_all add: t_def s'_def)
  have fill: "fill_of h s = Suc (fill_of (h + 1) t)"
    using ring_fill_pop [of h "added_count s"] ne by (simp add: fill_of_def t_def fields s0_def)
  obtain g gs' where gs: "gs = g # gs'"
    using pop_shape [OF inv0 ne] by metis
  have k: "k < bpp c"
    using inv0 by (simp add: rx_inv_def rx_shape_def)
  have view: "posted_view (h + 1) t = tl (posted_view h s)"
    using drop_buf_posted(1) [OF k, of A g gs'] assms(4)
    by (simp add: posted_view_posted [OF inv] posted_view_posted [OF good(1)] gs)
  have ne': "h \<noteq> added_count s"
    using ne by (simp add: s0_def)
  have "ring_view (rxd s) (rxq_ptr_mask s) (h + 1) (added_count s) = tl (ring_view (rxd s) (rxq_ptr_mask s) h (added_count s))"
    using ring_pop [OF ne', of "rxd s" "rxq_ptr_mask s"] by simp
  then have descs: "descs_ok (h + 1) (added_count s) t"
    using good(2) view fill by (simp add: descs_ok_def t_def fields fill_of_def map_tl [symmetric])
  have "limits_ok c t"
    using good(5) fill by (auto simp: limits_ok_def t_def fields h_def [symmetric])
  moreover have pipe: "pipe_of t = [i]" "rx_pkt_n_frags t = 1"
    by (simp_all add: pipe_of_def t_def s'_def)
  moreover have "i \<notin> set (pipe_of s)"
    using pop(2) by (auto simp: rx_inv_def pipe_ok_def)
  then have places: "pipe_places s2 = pipe_places s"
    unfolding pipe_places_def pipe2 by (auto simp: s2_def s1_def s0_def intro!: arg_cong [of _ _ buf_place] nth_list_update_neq)
  then have "length new = length (pipe_of s)"
    using list_all2_lengthD [OF fl(6)] by (simp add: pipe_places_def)
  ultimately have "rx_good c A gs2 k2 t"
    using inv descs good(3,6) by (simp add: rx_good_def t_def fields)
  moreover have "delivers (next_places c 1 s) s s'"
  proof -
    have "hd (posted_view h s) = b"
      using ring_pop [OF ne', of "rxq_buffer s" "rxq_ptr_mask s"] by (simp add: posted_view_def b_def i_def s0_def)
    moreover have "posted_view h s \<noteq> []"
      using assms(3) by (auto simp flip: length_greater_0_conv simp: h_def)
    ultimately have next_b: "next_places c 1 s = [buf_place (taken_buf c b)]"
      unfolding next_places_def h_def [symmetric] by (cases "posted_view h s") simp_all
    have "pipe_places s' = [buf_place (rxq_buffer s' ! i)]"
      by (simp add: pipe_places_def pipe_of_def s'_def)
    also have "rxq_buffer s' ! i = taken_buf c b"
      using fl(7) pop(3) by (simp add: s'_def s2_def s1_def)
    finally show ?thesis
      using fl(6) fields(10) unfolding places next_b delivers_def by auto
  qed
  ultimately show ?thesis
    using that [OF run] fill view by (simp add: t_def fields h_def [symmetric] fill_of_def posted_view_def) (simp add: s'_def)
qed

subsection \<open>Events\<close>

lemma rx_loop_ok:
  assumes "nic_ok c" and "rx_good c A gs k s" and "n \<le> fill_of (removed_count s) s"
  obtains gs' k' s' where "ef100_rx_loop env c n s = Some s'" and "rx_good c A gs' k' s'"
    and "fill_of (removed_count s) s = n + fill_of (removed_count s') s'" and "n \<noteq> 0 \<Longrightarrow> rx_pkt_n_frags s' = 1"
    and "added_count s' = added_count s \<and> refill_enabled s' = refill_enabled s" and "delivers (next_places c n s) s s'"
proof -
  have "\<exists>gs' k' s'. ef100_rx_loop env c n s = Some s' \<and> rx_good c A gs' k' s' \<and>
      fill_of (removed_count s) s = n + fill_of (removed_count s') s' \<and> (n \<noteq> 0 \<longrightarrow> rx_pkt_n_frags s' = 1) \<and>
      added_count s' = added_count s \<and> refill_enabled s' = refill_enabled s \<and> delivers (next_places c n s) s s'"
    using assms(2,3)
  proof (induction n arbitrary: s gs k)
    case 0
    then show ?case
      by (auto simp: next_places_def intro: delivers_refl)
  next
    case (Suc n)
    obtain gs2 k2 where d: "drop_buf c gs k = (gs2, k2)"
      by (cases "drop_buf c gs k")
    have "0 < fill_of (removed_count s) s"
      using Suc.prems(2) by simp
    from rx_packet_ok [OF assms(1) Suc.prems(1) this d, of env] obtain s1 where s1:
      "ef100_rx_packet env c (unat (removed_count s AND rxq_ptr_mask s)) s = Some s1"
      "rx_good c A gs2 k2 (s1\<lparr>removed_count := removed_count s1 + 1\<rparr>)"
      "fill_of (removed_count s) s = Suc (fill_of (removed_count s1 + 1) s1)" "rx_pkt_n_frags s1 = 1"
      "added_count s1 = added_count s \<and> refill_enabled s1 = refill_enabled s"
      "posted_view (removed_count s1 + 1) s1 = tl (posted_view (removed_count s) s)" "delivers (next_places c 1 s) s s1"
      by metis
    define t where "t = s1\<lparr>removed_count := removed_count s1 + 1\<rparr>"
    have t: "fill_of (removed_count s) s = Suc (fill_of (removed_count t) t)" "rx_pkt_n_frags t = 1" "added_count t = added_count s \<and> refill_enabled t = refill_enabled s"
      using s1(3,4,5) by (simp_all add: t_def fill_of_def)
    have "pipe_places t = pipe_places s1" "rx_log t = rx_log s1"
      by (auto simp: t_def intro: pipe_places_cong)
    then have "delivers (next_places c 1 s) s t"
      using s1(7) unfolding delivers_def by simp
    moreover have "posted_view (removed_count t) t = tl (posted_view (removed_count s) s)"
      using s1(6) by (simp add: t_def posted_view_def)
    then have "next_places c (Suc n) s = next_places c 1 s @ next_places c n t"
      by (cases "posted_view (removed_count s) s") (simp_all add: next_places_def)
    ultimately have dl: "delivers (next_places c (Suc n) s) s u" if "delivers (next_places c n t) t u" for u
      using delivers_trans that by metis
    have step: "ef100_rx_loop env c (Suc n) s = ef100_rx_loop env c n t"
      using s1(1) by (simp add: t_def)
    show ?case
    proof (cases "n = 0")
      case True
      then have "delivers (next_places c (Suc n) s) s t"
        by (intro dl) (simp add: next_places_def delivers_refl)
      then show ?thesis
        using True step s1(2) t unfolding t_def [symmetric] by auto
    next
      case False
      have "n \<le> fill_of (removed_count t) t"
        using Suc.prems(2) t(1) by simp
      from Suc.IH [OF s1(2) [folded t_def] this] show ?thesis
        using step t False dl by auto
    qed
  qed
  then show ?thesis
    using that by blast
qed

lemma rx_good_cong:
  assumes "rx_good c A gs k s"
    and "rxq_buffer s' = rxq_buffer s" "rxq_ptr_mask s' = rxq_ptr_mask s" "added_count s' = added_count s"
      "page_ring s' = page_ring s" "page_ptr_mask s' = page_ptr_mask s" "rx_log s' = rx_log s"
      "host_pages s' = host_pages s" "host_tries s' = host_tries s" "removed_count s' = removed_count s"
      "notified_count s' = notified_count s" "rxd s' = rxd s" "rx_pkt_n_frags s' = rx_pkt_n_frags s"
      "rx_pkt_index s' = rx_pkt_index s" "max_fill s' = max_fill s" "fast_fill_trigger s' = fast_fill_trigger s"
      "rx_packets s' = rx_packets s"
  shows "rx_good c A gs k s'"
proof -
  have pipe: "pipe_of s' = pipe_of s"
    using assms by (simp add: pipe_of_def)
  have "rx_inv c A gs k (removed_count s) (pipe_of s) s'"
    by (rule rx_inv_cong [OF rx_goodD(1) [OF assms(1)] assms(2-9)])
  then show ?thesis
    using assms by (simp add: rx_good_def pipe descs_ok_def posted_view_def fill_of_def limits_ok_def)
qed

definition event_packets :: "u64 \<Rightarrow> nat" where
  "event_packets event = unat (EFX_QWORD_FIELD event ESF_GZ_EV_RXPKTS_NUM_PKT)"

lemma ev_rx_ok:
  assumes "nic_ok c" and "rx_good c A gs k s" and "event_packets event \<le> fill_of (removed_count s) s"
  obtains gs' k' s' where "efx_ef100_ev_rx env c event s = Some s'" and "rx_good c A gs' k' s'"
    and "fill_of (removed_count s) s = event_packets event + fill_of (removed_count s') s'"
    and "event_packets event \<noteq> 0 \<Longrightarrow> rx_pkt_n_frags s' = 1" and "added_count s' = added_count s \<and> refill_enabled s' = refill_enabled s"
    and "delivers (next_places c (event_packets event) s) s s'"
proof -
  define n where "n = EFX_QWORD_FIELD event ESF_GZ_EV_RXPKTS_NUM_PKT"
  define s1 where "s1 = (if 1 < n then s\<lparr>n_rx_merge_events := n_rx_merge_events s + 1\<rparr> else s)"
  define s2 where "s2 = s1\<lparr>irq_mod_score := irq_mod_score s1 + 2 * ucast n\<rparr>"
  have good: "rx_good c A gs k s2"
    by (rule rx_good_cong [OF assms(2)]) (simp_all add: s2_def s1_def)
  have fill: "fill_of (removed_count s2) s2 = fill_of (removed_count s) s" "added_count s2 = added_count s" "refill_enabled s2 = refill_enabled s"
    by (simp_all add: s2_def s1_def fill_of_def)
  have dl: "delivers (next_places c m s2) s2 u = delivers (next_places c m s) s u" for m u
    by (simp add: s2_def s1_def delivers_def pipe_places_def pipe_of_def next_places_def posted_view_def)
  have "efx_ef100_ev_rx env c event s = ef100_rx_loop env c (event_packets event) s2"
    by (simp add: efx_ef100_ev_rx_def event_packets_def n_def [symmetric] s1_def [symmetric] s2_def [symmetric] Let_def)
  then show ?thesis
    using rx_loop_ok [OF assms(1) good, of "event_packets event" env] assms(3) that unfolding fill dl by metis
qed

subsection \<open>Refilling\<close>

lemma rx_write_ok:
  assumes "rx_inv c A gs k h pipe s" and "descs_ok h (notified_count s) s"
  obtains s' where "ef100_rx_write s = Some s'" and "rx_inv c A gs k h pipe s'" and "descs_ok h (added_count s') s'"
    and "notified_count s' = added_count s'" and "fill_frame (s\<lparr>rxd := rxd s', notified_count := notified_count s'\<rparr>) s'"
    and "added_count s' = added_count s" and "slow_fill_work s' = slow_fill_work s"
    and "host_tries s' = host_tries s" and "host_maps s' = host_maps s"
proof -
  have wf: "ring_wf (rxq_buffer s) (rxq_ptr_mask s)"
    using rx_invD(1) [OF assms(1)] by (simp add: rx_shape_def)
  obtain X where X: "rx_write_loop (notified_count s) s = Some (s\<lparr>rxd := X\<rparr>)" "descs_ok h (added_count s) (s\<lparr>rxd := X\<rparr>)"
    using write_loop_ok [OF wf fill_of_le [OF assms(1)] assms(2)] by auto
  define s1 where "s1 = (s\<lparr>rxd := X\<rparr>)\<lparr>rx_doorbells := EFX_POPULATE_DWORD [(ERF_GZ_RX_RING_PIDX, added_count s AND rxq_ptr_mask s)] # rx_doorbells s,
      notified_count := added_count s\<rparr>"
  define s2 where "s2 = (if grant_credits s1 then s1\<lparr>grant_work := True\<rparr> else s1)"
  have run: "ef100_rx_write s = Some s2"
    using X(1) by (simp add: ef100_rx_write_def s2_def s1_def Let_def del: EFX_POPULATE_DWORD.simps)
  show ?thesis
  proof (rule that [OF run])
    show "rx_inv c A gs k h pipe s2"
      by (rule rx_inv_cong [OF assms(1)]) (simp_all add: s2_def s1_def)
    show "descs_ok h (added_count s2) s2"
      using X(2) by (simp add: s2_def s1_def descs_ok_def posted_view_def fill_of_def)
  qed (simp_all add: s2_def s1_def fill_frame_def)
qed

text \<open>What a refill comes to: a ring at its trigger or above is left as it is; below it, the ring is
  filled until another batch would not fit below \<open>max_fill\<close>, unless a page could not be had, and
  then the slow fill is scheduled.\<close>

definition refilled :: "rx_env \<Rightarrow> rx_nic \<Rightarrow> rx_channel \<Rightarrow> rx_channel \<Rightarrow> bool" where
  "refilled env c s s' \<longleftrightarrow>
     (if unat (fast_fill_trigger s) \<le> fill_of (removed_count s) s
      then added_count s' = added_count s \<and> slow_fill_work s' = slow_fill_work s
      else slow_fill_work s' = slow_fill_work s \<and> unat (max_fill s') < fill_of (removed_count s') s' + batch c \<or>
           slow_fill_work s' \<and> page_failed env s s')"

lemma refilled_trigger:
  assumes "refilled env c s s'" and "limits_ok c s'" and "\<not> slow_fill_work s'" and "removed_count s' = removed_count s"
    and "fast_fill_trigger s' = fast_fill_trigger s"
  shows "unat (fast_fill_trigger s') \<le> fill_of (removed_count s') s'"
  using assms by (auto simp: refilled_def limits_ok_def fill_of_def split: if_splits)

lemma fast_push_ok:
  assumes "nic_ok c" and "rx_good c A gs k s" and "rx_pkt_n_frags s = 0"
  obtains A' gs' s' where "efx_fast_push_rx_descriptors env c s = Some s'" and "rx_good c A' gs' k s'"
    and "rx_pkt_n_frags s' = 0" and "fill_of (removed_count s) s \<le> fill_of (removed_count s') s'"
    and "refill_enabled s \<Longrightarrow> \<not> slow_fill_work s' \<Longrightarrow> unat (fast_fill_trigger s') \<le> fill_of (removed_count s') s'"
    and "refill_enabled s' = refill_enabled s" and "rx_log s' = rx_log s"
    and "refill_enabled s \<Longrightarrow> refilled env c s s'"
proof (cases "refill_enabled s")
  case False
  then show ?thesis
    using that [of s A gs] assms(2,3) by (simp add: efx_fast_push_rx_descriptors_def)
next
  case True
  define h where "h = removed_count s"
  define space where "space = max_fill s - (added_count s - h)"
  define s1 where "s1 = (if added_count s - h < min_fill s \<and> added_count s - h \<noteq> 0 then s\<lparr>min_fill := added_count s - h\<rparr> else s)"
  note good = rx_goodD [OF assms(2), folded h_def]
  have inv: "rx_inv c A gs k h [] s"
    using good(1) assms(3) by (simp add: pipe_of_def)
  note lim = good(5) [unfolded limits_ok_def, folded h_def]
  have space: "unat space = unat (max_fill s) - fill_of h s"
    using lim by (simp add: space_def fill_of_def unat_sub word_le_nat_alt)
  have inv1: "rx_inv c A gs k h [] s1"
    by (rule rx_inv_cong [OF inv]) (simp_all add: s1_def)
  have s1: "fill_of h s1 = fill_of h s" "rxq_buffer s1 = rxq_buffer s" "grown 0 h s s1" "max_fill s1 = max_fill s"
      "slow_fill_work s1 = slow_fill_work s" and tries: "host_tries s1 = host_tries s" "host_maps s1 = host_maps s"
    by (simp_all add: s1_def fill_of_def grown_refl fill_frame_def)
  obtain A' gs' m s2 where 2: "(if fast_fill_trigger s \<le> added_count s - h then Some s
        else rx_push_loop env c (rx_pages_per_batch c * rx_bufs_per_page c) space s1) = Some s2"
      "rx_inv c A' gs' k h [] s2" "grown m h s s2" "fill_of h s + m \<le> unat (max_fill s)"
      "if unat (fast_fill_trigger s) \<le> fill_of h s then m = 0 \<and> slow_fill_work s2 = slow_fill_work s
       else slow_fill_work s2 = slow_fill_work s \<and> unat (max_fill s) < fill_of h s + m + batch c \<or>
            slow_fill_work s2 \<and> page_failed env s s2"
  proof (cases "fast_fill_trigger s \<le> added_count s - h")
    case True
    then show ?thesis
      using that [of s A gs 0] inv lim by (simp add: grown_refl word_le_nat_alt fill_of_def)
  next
    case False
    have "fill_of h s1 + unat space \<le> length (rxq_buffer s1)"
      using lim by (simp add: space s1)
    from push_loop_ok [OF assms(1) inv1 this, of env] obtain A' gs' m s2 where
      p: "rx_push_loop env c (rx_pages_per_batch c * rx_bufs_per_page c) space s1 = Some s2" "rx_inv c A' gs' k h [] s2"
        "grown m h s1 s2" "m \<le> unat space"
        "slow_fill_work s2 = slow_fill_work s1 \<and> unat space < m + batch c \<or> slow_fill_work s2 \<and> page_failed env s1 s2"
      by metis
    have "grown m h s s2"
      using grown_trans [OF s1(3) p(3)] by simp
    moreover have "fill_of h s + m \<le> unat (max_fill s)"
      using p(4) lim unfolding space by linarith
    moreover have "slow_fill_work s2 = slow_fill_work s \<and> unat (max_fill s) < fill_of h s + m + batch c \<or>
        slow_fill_work s2 \<and> page_failed env s s2"
      using p(5) lim s1(5) tries unfolding space by (auto simp: page_failed_def)
    ultimately show ?thesis
      using that [of s2 A' gs' m] p(1,2) False by (simp add: word_le_nat_alt fill_of_def)
  qed
  have fr: "fill_frame s s2" and fill2: "fill_of h s2 = fill_of h s + m"
    using 2(3) grown_fill [OF 2(3)] by (simp_all add: grown_def)
  have descs2: "descs_ok h (notified_count s2) s2"
    using descs_ok_grown [OF good(2) 2(3)] good(3) fr by (simp add: fill_frame_def)
  have run: "efx_fast_push_rx_descriptors env c s = (if notified_count s2 \<noteq> added_count s2 then ef100_rx_write s2 else Some s2)"
  proof -
    have "max_fill s1 - (added_count s - h) = space"
      using s1(4) by (simp add: space_def)
    then show ?thesis
      using True 2(1) unfolding efx_fast_push_rx_descriptors_def h_def [symmetric] Let_def s1_def [symmetric]
      by (simp split: if_splits)
  qed
  obtain s' where s': "efx_fast_push_rx_descriptors env c s = Some s'" "rx_inv c A' gs' k h [] s'" "descs_ok h (added_count s') s'"
      "notified_count s' = added_count s'" "fill_frame (s2\<lparr>rxd := rxd s', notified_count := notified_count s'\<rparr>) s'"
      "added_count s' = added_count s2" "slow_fill_work s' = slow_fill_work s2"
      "host_tries s' = host_tries s2" "host_maps s' = host_maps s2"
  proof (cases "notified_count s2 = added_count s2")
    case True
    then have "fill_frame (s2\<lparr>rxd := rxd s2, notified_count := notified_count s2\<rparr>) s2"
      by (simp add: fill_frame_def)
    with True show ?thesis
      using that [of s2] run 2(2) descs2 by simp
  next
    case False
    then show ?thesis
      using rx_write_ok [OF 2(2) descs2] that run by auto
  qed
  have fields: "removed_count s' = h" "max_fill s' = max_fill s" "fast_fill_trigger s' = fast_fill_trigger s"
      "rx_pkt_n_frags s' = 0" "length (rxq_buffer s') = length (rxq_buffer s)" "rx_log s' = rx_log s" "rx_packets s' = rx_packets s"
      "refill_enabled s' = refill_enabled s"
    using s'(5) fr assms(3) by (simp_all add: fill_frame_def h_def)
  have fill: "fill_of h s' = fill_of h s + m"
    using fill2 s'(6) by (simp add: fill_of_def)
  have "limits_ok c s'"
    using lim 2(4) fill by (simp add: limits_ok_def fields)
  moreover have "rx_packets s = of_nat (length (rx_log s))"
    using good(6) assms(3) by (simp add: pipe_of_def)
  ultimately have good': "rx_good c A' gs' k s'" and lim': "limits_ok c s'"
    using s'(2,3,4) by (simp_all add: rx_good_def fields pipe_of_def)
  have failed: "page_failed env s s' = page_failed env s s2"
    by (simp add: page_failed_def s'(8,9))
  have none: "added_count s' = added_count s" if "m = 0"
  proof -
    have "added_count s' - h = added_count s - h"
      using fill that by (simp add: fill_of_def word_unat_eq_iff)
    then show ?thesis
      by simp
  qed
  have ref: "refilled env c s s'"
  proof (cases "unat (fast_fill_trigger s) \<le> fill_of h s")
    case True
    then show ?thesis
      using 2(5) none by (simp add: refilled_def s'(7) h_def [symmetric])
  next
    case False
    then show ?thesis
      using 2(5) fill failed by (simp add: refilled_def s'(7) fields h_def [symmetric])
  qed
  show ?thesis
    by (rule that [OF s'(1) good'])
      (use fill ref refilled_trigger [OF ref lim'] in \<open>simp_all add: fields h_def [symmetric]\<close>)
qed

lemma flush_good:
  assumes "rx_good c A gs k s"
  obtains s' where "efx_rx_flush_packet env c s = Some s'" and "rx_good c A gs k s'" and "rx_pkt_n_frags s' = 0"
    and "fill_of (removed_count s') s' = fill_of (removed_count s) s" and "refill_enabled s' = refill_enabled s"
    and "delivers [] s s'" and "\<And>u. refilled env c s' u \<Longrightarrow> refilled env c s u"
proof -
  note good = rx_goodD [OF assms]
  obtain s1 new where fl: "efx_rx_flush_packet env c s = Some (s1\<lparr>rx_pkt_n_frags := 0\<rparr>)" "rx_inv c A gs k (removed_count s) [] s1"
      "rx_frame s s1" "length (rxq_buffer s1) = length (rxq_buffer s)" "rx_log s1 = rev new @ rx_log s"
      "list_all2 from_place (pipe_places s) new"
    using flush_ok [of c A gs k "removed_count s" s "[]" env] good(1,4) by auto
  define t where "t = s1\<lparr>rx_pkt_n_frags := 0\<rparr>"
  have inv: "rx_inv c A gs k (removed_count s) [] t"
    using fl(2) by (simp add: t_def)
  have fields: "removed_count t = removed_count s" "added_count t = added_count s" "rxd t = rxd s" "rxq_ptr_mask t = rxq_ptr_mask s"
      "length (rxq_buffer t) = length (rxq_buffer s)" "notified_count t = notified_count s" "max_fill t = max_fill s"
      "fast_fill_trigger t = fast_fill_trigger s" "rx_packets t = rx_packets s" "rx_log t = rev new @ rx_log s"
      "refill_enabled t = refill_enabled s" "rx_pkt_n_frags t = 0"
      "slow_fill_work t = slow_fill_work s" "host_tries t = host_tries s" "host_maps t = host_maps s"
    using fl(3,4,5) by (simp_all add: t_def rx_frame_def)
  have view: "posted_view (removed_count s) t = posted_view (removed_count s) s"
    by (simp add: posted_view_posted [OF inv] posted_view_posted [OF good(1)])
  have "descs_ok (removed_count s) (added_count s) t"
    by (rule descs_ok_same [OF good(2) view]) (simp_all add: fields)
  moreover have "limits_ok c t"
    using good(5) by (simp add: limits_ok_def fields fill_of_def)
  moreover have "length new = length (pipe_of s)"
    using list_all2_lengthD [OF fl(6)] by (simp add: pipe_places_def)
  ultimately have "rx_good c A gs k t"
    using inv good(3,6) by (simp add: rx_good_def fields pipe_of_def)
  moreover have "refilled env c s u" if "refilled env c t u" for u
    using that by (simp add: refilled_def page_failed_def fill_of_def fields cong: if_cong)
  moreover have "pipe_places t = []"
    by (simp add: pipe_places_def pipe_of_def fields)
  then have "delivers [] s t"
    using fl(6) fields(10) by (auto simp: delivers_def)
  ultimately show ?thesis
    using that [of t] fl(1) by (simp add: t_def [symmetric] fields fill_of_def)
qed

lemma end_of_poll_ok:
  assumes "nic_ok c" and "rx_good c A gs k s"
  obtains A' gs' s' where "rx_end_of_poll env c spent s = Some s'" and "rx_good c A' gs' k s'"
    and "spent \<noteq> 0 \<Longrightarrow> rx_pkt_n_frags s' = 0" and "fill_of (removed_count s) s \<le> fill_of (removed_count s') s'"
    and "spent \<noteq> 0 \<Longrightarrow> refill_enabled s \<Longrightarrow> \<not> slow_fill_work s' \<Longrightarrow> unat (fast_fill_trigger s') \<le> fill_of (removed_count s') s'"
    and "refill_enabled s' = refill_enabled s" and "delivers [] s s'"
    and "spent \<noteq> 0 \<Longrightarrow> refill_enabled s \<Longrightarrow> refilled env c s s'"
proof (cases "spent = 0")
  case True
  then show ?thesis
    using that [of s A gs] assms(2) by (simp add: rx_end_of_poll_def delivers_refl)
next
  case False
  obtain s1 where 1: "efx_rx_flush_packet env c s = Some s1" "rx_good c A gs k s1" "rx_pkt_n_frags s1 = 0"
      "fill_of (removed_count s1) s1 = fill_of (removed_count s) s" "refill_enabled s1 = refill_enabled s"
      "delivers [] s s1" "\<And>u. refilled env c s1 u \<Longrightarrow> refilled env c s u"
    using flush_good [OF assms(2), where env = env] by metis
  from fast_push_ok [OF assms(1) 1(2,3), of env] obtain A' gs' s' where
    push: "efx_fast_push_rx_descriptors env c s1 = Some s'" "rx_good c A' gs' k s'" "rx_pkt_n_frags s' = 0"
    "fill_of (removed_count s1) s1 \<le> fill_of (removed_count s') s'"
    "refill_enabled s1 \<Longrightarrow> \<not> slow_fill_work s' \<Longrightarrow> unat (fast_fill_trigger s') \<le> fill_of (removed_count s') s'"
    "refill_enabled s' = refill_enabled s1" "rx_log s' = rx_log s1" "refill_enabled s1 \<Longrightarrow> refilled env c s1 s'"
    by metis
  have "delivers [] s1 s'"
    using push(3,7) 1(3) by (intro delivers_refl) (simp_all add: pipe_places_def pipe_of_def)
  then have "delivers [] s s'"
    using delivers_trans [OF 1(6)] by simp
  then show ?thesis
    using that [of s' A' gs'] False 1 push by (simp add: rx_end_of_poll_def)
qed

end
