(* ===== verification/Rx_Life.thy ===== *)
theory Rx_Life
  imports Rx_System
begin

section \<open>The life of a receive queue\<close>

text \<open>
  Tear-down releases what the queue owns, set-up establishes the invariant, and the states reached
  in between by receive events, ends of polls and the kernel's own use of the pages satisfy it.
\<close>

subsection \<open>Tear-down\<close>

lemma fini_buffer_ok:
  assumes "rx_inv c A gs k h [] s" and "h \<noteq> added_count s"
    and "i = unat (h AND rxq_ptr_mask s)" and "drop_buf c gs k = (gs2, k2)"
  obtains b H where "efx_fini_rx_buffer i s = Some (s\<lparr>rxq_buffer := (rxq_buffer s)[i := b], host_pages := H\<rparr>)"
    and "rx_inv c A gs2 k2 (h + 1) [] (s\<lparr>rxq_buffer := (rxq_buffer s)[i := b], host_pages := H\<rparr>)"
proof -
  note result = that
  note inv = rx_invD [OF assms(1)]
  have wf: "ring_wf (rxq_buffer s) (rxq_ptr_mask s)" and le: "unat (added_count s - h) \<le> length (rxq_buffer s)" and k: "k < bpp c"
    using inv(1) by (simp_all add: rx_shape_def)
  have i: "i < length (rxq_buffer s)"
    using ring_index_less [OF wf] by (simp add: assms(3))
  obtain g gs' where gs: "gs = g # gs'" and b: "rxq_buffer s ! i = grp_buf c A g k"
    and rest: "ring_view (rxq_buffer s) (rxq_ptr_mask s) (h + 1) (added_count s) = posted c A k2 gs2"
    using pop_shape [OF assms(1,2)] assms(3,4) by (metis case_prod_conv)
  define p where "p = grp_page g"
  define b' where "b' = (rxq_buffer s ! i)\<lparr>rb_page := None\<rparr>"
  define W where "W = ring_owners (page_ring s) + group_owners gs2"
  define R where "R = post_refs c k2 gs2 + lost_refs (rx_log s)"
  have fill: "unat (added_count s - h) = Suc (unat (added_count s - (h + 1)))"
    by (rule ring_fill_pop [OF assms(2)])
  have group: "ring_owners (page_ring s) + group_owners gs = (if \<not> grp_ring g \<and> Suc k = bpp c then add_mset p W else W)"
    using assms(4) by (auto simp: gs drop_buf_def p_def W_def split: if_splits)
  have refs: "post_refs c k gs + pipe_refs (rxq_buffer s) [] + lost_refs (rx_log s) = add_mset p R"
    using drop_buf_posted(2) [OF k, of g gs'] assms(4) by (simp add: gs p_def R_def)
  obtain H where H: "put_page p s = Some (s\<lparr>host_pages := H\<rparr>)"
      "ledger (ring_owners (page_ring s) + group_owners gs) A R H (host_tries s)"
    using put_ref [OF inv(4) [unfolded refs]] .
  have rb: "rb_page (rxq_buffer s ! i) = Some p" and
    fl: "rb_flags (rxq_buffer s ! i) AND EFX_RX_PAGE_IN_RECYCLE_RING \<noteq> 0 \<longleftrightarrow> grp_ring g"
      "rb_flags (rxq_buffer s ! i) AND EFX_RX_BUF_LAST_IN_PAGE \<noteq> 0 \<longleftrightarrow> Suc k = bpp c"
    using grp_flags_bits [OF k] by (simp_all add: b p_def)
  have "\<exists>H'. efx_fini_rx_buffer i s = Some (s\<lparr>rxq_buffer := (rxq_buffer s)[i := b'], host_pages := H'\<rparr>) \<and>
      ledger W A R H' (host_tries s)"
  proof (cases "\<not> grp_ring g \<and> Suc k = bpp c")
    case True
    then have flags: "rb_flags (rxq_buffer s ! i) AND EFX_RX_PAGE_IN_RECYCLE_RING = 0"
        "rb_flags (rxq_buffer s ! i) AND EFX_RX_BUF_LAST_IN_PAGE \<noteq> 0"
      using fl by auto
    define s1 where "s1 = s\<lparr>host_pages := H\<rparr>"
    have "ledger (add_mset p W) A R (host_pages s1) (host_tries s)"
      using H(2) group True by (simp add: s1_def)
    then obtain H1 H2 where H1: "unmap_page p s1 = Some (s1\<lparr>host_pages := H1\<rparr>)"
        "put_page p (s1\<lparr>host_pages := H1\<rparr>) = Some (s1\<lparr>host_pages := H2\<rparr>)" "ledger W A R H2 (host_tries s)"
      by (rule put_base)
    have "efx_fini_rx_buffer i s = Some (s\<lparr>rxq_buffer := (rxq_buffer s)[i := b'], host_pages := H2\<rparr>)"
      using H(1) H1(1,2) i rb flags unfolding s1_def
      by (simp add: efx_fini_rx_buffer_def efx_rx_buffer_at_def efx_unmap_rx_buffer_def set_rx_buffer_def b'_def)
    then show ?thesis
      using H1(3) by blast
  next
    case False
    then have "efx_fini_rx_buffer i s = Some (s\<lparr>rxq_buffer := (rxq_buffer s)[i := b'], host_pages := H\<rparr>)"
      using H(1) i rb fl
      by (auto simp: efx_fini_rx_buffer_def efx_rx_buffer_at_def efx_unmap_rx_buffer_def set_rx_buffer_def b'_def)
    then show ?thesis
      using H(2) group False by auto
  qed
  then obtain H' where run: "efx_fini_rx_buffer i s = Some (s\<lparr>rxq_buffer := (rxq_buffer s)[i := b'], host_pages := H'\<rparr>)"
    and led: "ledger W A R H' (host_tries s)"
    by blast
  have bound: "k2 < bpp c" "gs2 = [] \<longrightarrow> k2 = 0" "set gs2 \<subseteq> set gs"
    using drop_buf_bound [OF k assms(4) [unfolded gs]] by (auto simp: gs)
  have "ring_view ((rxq_buffer s)[i := b']) (rxq_ptr_mask s) (h + 1) (added_count s) = posted c A k2 gs2"
    using rest by (simp add: assms(3) ring_update_taken [OF wf assms(2) le])
  then have "rx_shape c A gs2 k2 (h + 1) ((rxq_buffer s)[i := b']) (rxq_ptr_mask s) (added_count s)"
    using wf le fill bound by (simp add: rx_shape_def)
  moreover have "recycle_ok c gs2 (page_ring s) (page_ptr_mask s)"
    using inv(3) bound(3) assms(4) by (auto simp: recycle_ok_def drop_buf_def gs split: if_splits)
  ultimately have "rx_inv c A gs2 k2 (h + 1) [] (s\<lparr>rxq_buffer := (rxq_buffer s)[i := b'], host_pages := H'\<rparr>)"
    using led by (simp add: rx_inv_def W_def R_def)
  then show ?thesis
    by (rule result [OF run])
qed

lemma fini_buffers_ok:
  assumes "rx_inv c A gs k i [] s" and "unat i \<le> unat (added_count s)"
  obtains X H where "fini_buffers i (added_count s) s = Some (s\<lparr>rxq_buffer := X, host_pages := H\<rparr>)"
    and "rx_inv c A [] 0 (added_count s) [] (s\<lparr>rxq_buffer := X, host_pages := H\<rparr>)"
proof -
  have "\<exists>X H. fini_buffers i (added_count s) s = Some (s\<lparr>rxq_buffer := X, host_pages := H\<rparr>) \<and>
      rx_inv c A [] 0 (added_count s) [] (s\<lparr>rxq_buffer := X, host_pages := H\<rparr>)"
    using assms
  proof (induction "unat (added_count s) - unat i" arbitrary: i s gs k)
    case 0
    then have i: "i = added_count s"
      by (simp add: word_unat_eq_iff)
    have "length (posted c A k gs) = 0" and k: "k < bpp c" "gs = [] \<longrightarrow> k = 0"
      using "0.prems"(1) arg_cong [of "[]" "posted c A k gs" length] by (simp_all add: rx_inv_def rx_shape_def i)
    then have gs: "gs = []" "k = 0"
      using posted_Cons [OF k(1), of A] by (cases gs; simp)+
    have "s\<lparr>rxq_buffer := rxq_buffer s, host_pages := host_pages s\<rparr> = s"
      by simp
    then show ?case
      using "0.prems"(1) unfolding gs i by (intro exI [of _ "rxq_buffer s"] exI [of _ "host_pages s"]) (simp add: fini_buffers.simps)
  next
    case (Suc n)
    have lt: "unat i < unat (added_count s)"
      using Suc.hyps(2) by simp
    have ne: "i \<noteq> added_count s"
      using lt by auto
    obtain gs2 k2 where d: "drop_buf c gs k = (gs2, k2)"
      by (cases "drop_buf c gs k")
    obtain b H where 1: "efx_fini_rx_buffer (unat (i AND rxq_ptr_mask s)) s =
          Some (s\<lparr>rxq_buffer := (rxq_buffer s)[unat (i AND rxq_ptr_mask s) := b], host_pages := H\<rparr>)"
        "rx_inv c A gs2 k2 (i + 1) [] (s\<lparr>rxq_buffer := (rxq_buffer s)[unat (i AND rxq_ptr_mask s) := b], host_pages := H\<rparr>)"
      using fini_buffer_ok [OF Suc.prems(1) ne refl d] .
    define s1 where "s1 = s\<lparr>rxq_buffer := (rxq_buffer s)[unat (i AND rxq_ptr_mask s) := b], host_pages := H\<rparr>"
    have "unat (added_count s) < 2 ^ 32"
      by (rule order_less_le_trans [OF unsigned_less]) simp
    then have i1: "unat (i + 1) = Suc (unat i)"
      using lt by (intro unat_Suc_bound) simp
    have a: "added_count s1 = added_count s"
      by (simp add: s1_def)
    have "\<exists>X H. fini_buffers (i + 1) (added_count s1) s1 = Some (s1\<lparr>rxq_buffer := X, host_pages := H\<rparr>) \<and>
        rx_inv c A [] 0 (added_count s1) [] (s1\<lparr>rxq_buffer := X, host_pages := H\<rparr>)"
      by (rule Suc.hyps(1) [OF _ 1(2) [folded s1_def]]) (use Suc.hyps(2) i1 lt a in simp_all)
    moreover have "fini_buffers i (added_count s) s = fini_buffers (i + 1) (added_count s1) s1"
      using 1(1) lt by (subst fini_buffers.simps) (simp add: s1_def word_less_nat_alt)
    moreover have "s1\<lparr>rxq_buffer := X, host_pages := H'\<rparr> = s\<lparr>rxq_buffer := X, host_pages := H'\<rparr>" for X H'
      by (simp add: s1_def)
    ultimately show ?case
      by (simp add: a)
  qed
  then show ?thesis
    using that by blast
qed

lemma release_pages_ok:
  assumes "ledger (ring_owners (Some r) + W) A R (host_pages s) t"
  obtains H where "release_pages r s = Some (s\<lparr>host_pages := H\<rparr>)" and "ledger W A R H t"
proof -
  have "\<exists>H. release_pages r s = Some (s\<lparr>host_pages := H\<rparr>) \<and> ledger W A R H t"
    using assms
  proof (induction r arbitrary: s)
    case Nil
    then show ?case
      by (intro exI [of _ "host_pages s"]) (simp add: ring_owners_def)
  next
    case (Cons x r)
    show ?case
    proof (cases x)
      case None
      then show ?thesis
        using Cons by (simp add: ring_owners_def)
    next
      case (Some p)
      then have "ledger (add_mset p (ring_owners (Some r) + W)) A R (host_pages s) t"
        using Cons.prems by (simp add: ring_owners_def)
      then obtain H1 H2 where H: "unmap_page p s = Some (s\<lparr>host_pages := H1\<rparr>)"
          "put_page p (s\<lparr>host_pages := H1\<rparr>) = Some (s\<lparr>host_pages := H2\<rparr>)" "ledger (ring_owners (Some r) + W) A R H2 t"
        by (rule put_base)
      have "\<exists>H. release_pages r (s\<lparr>host_pages := H2\<rparr>) = Some (s\<lparr>host_pages := H2\<rparr>\<lparr>host_pages := H\<rparr>) \<and> ledger W A R H t"
        by (rule Cons.IH) (use H(3) in simp)
      then show ?thesis
        using H(1,2) Some by simp
    qed
  qed
  then show ?thesis
    using that by blast
qed

text \<open>When the counters have not wrapped, everything the queue owns is released.\<close>

text \<open>The references of the posted buffers that \<open>efx_fini_rx_queue\<close> does not reach: none, unless
  \<open>added_count\<close> has wrapped and \<open>removed_count\<close> has not.\<close>

definition unreleased :: "rx_channel \<Rightarrow> nat multiset" where
  "unreleased s =
     (if removed_count s \<le> added_count s then {#}
      else mset (map buf_page (posted_view (removed_count s) s)))"

lemma fini_buffers_wrapped:
  "added_count s < removed_count s \<Longrightarrow> fini_buffers (removed_count s) (added_count s) s = Some s"
  by (simp add: fini_buffers.simps order_less_not_sym)

lemma fini_queue_ok:
  assumes "rx_good c A gs k s" and "rx_pkt_n_frags s = 0"
  obtains W s' where "efx_fini_rx_queue c s = Some s'"
    and "ledger W A (lost_refs (rx_log s) + unreleased s) (host_pages s') (host_tries s')" and "set_mset W \<subseteq> set_mset (unreleased s)"
    and "page_ring s' = None" and "rx_log s' = rx_log s"
proof -
  define s1 where "s1 = (if grant_credits (efx_cancel_slow_fill s) then (efx_cancel_slow_fill s)\<lparr>grant_work := False\<rparr> else efx_cancel_slow_fill s)"
  have fields: "removed_count s1 = removed_count s" "added_count s1 = added_count s" "rxq_buffer s1 = rxq_buffer s" "rx_log s1 = rx_log s"
      "page_ring s1 = page_ring s" "page_ptr_mask s1 = page_ptr_mask s" "host_pages s1 = host_pages s" "host_tries s1 = host_tries s"
    by (simp_all add: s1_def efx_cancel_slow_fill_def)
  have inv0: "rx_inv c A gs k (removed_count s) [] s"
    using rx_goodD(1) [OF assms(1)] assms(2) by (simp add: pipe_of_def)
  then have inv: "rx_inv c A gs k (removed_count s1) [] s1"
    unfolding fields(1) by (rule rx_inv_cong) (simp_all add: s1_def efx_cancel_slow_fill_def)
  have "ring_wf (rxq_buffer s) (rxq_ptr_mask s)"
    using rx_goodD(1) [OF assms(1)] by (simp add: rx_inv_def rx_shape_def)
  then have ne: "rxq_buffer s \<noteq> []"
    by (auto simp: ring_wf_def)
  have posted: "mset (map buf_page (posted_view (removed_count s) s)) = post_refs c k gs"
    unfolding posted_view_posted [OF inv0] post_refs_def map_buf_page_posted [of c A k gs "\<lambda>_. 0"] ..
  obtain X H gs2 where 1: "fini_buffers (removed_count s1) (added_count s1) s1 = Some (s1\<lparr>rxq_buffer := X, host_pages := H\<rparr>)"
      "recycle_ok c gs2 (page_ring s) (page_ptr_mask s)"
      "ledger (ring_owners (page_ring s) + group_owners gs2) A (lost_refs (rx_log s) + unreleased s) H (host_tries s)"
      "set_mset (group_owners gs2) \<subseteq> set_mset (unreleased s)"
  proof (cases "removed_count s \<le> added_count s")
    case True
    obtain X H where 1: "fini_buffers (removed_count s1) (added_count s1) s1 = Some (s1\<lparr>rxq_buffer := X, host_pages := H\<rparr>)"
        "rx_inv c A [] 0 (added_count s1) [] (s1\<lparr>rxq_buffer := X, host_pages := H\<rparr>)"
      by (rule fini_buffers_ok [OF inv]) (use True in \<open>simp_all add: fields word_le_nat_alt\<close>)
    show ?thesis
      by (rule that [OF 1(1), of "[]"]) (use rx_invD(3,4) [OF 1(2)] True in \<open>simp_all add: unreleased_def fields\<close>)
  next
    case False
    have own: "set_mset (group_owners gs) \<subseteq> set_mset (post_refs c k gs)"
      using post_refs_mem [OF rx_inv_pre(4) [OF inv0]] by (auto simp: group_owners_def)
    have "s1\<lparr>rxq_buffer := rxq_buffer s1, host_pages := host_pages s1\<rparr> = s1"
      by simp
    then have "fini_buffers (removed_count s1) (added_count s1) s1 =
        Some (s1\<lparr>rxq_buffer := rxq_buffer s1, host_pages := host_pages s1\<rparr>)"
      using fini_buffers_wrapped [of s1] False by (simp add: fields)
    then show ?thesis
      by (rule that [of _ _ gs]) (use rx_inv_pre(2,3) [OF inv0] False own posted in
          \<open>simp_all add: unreleased_def fields add.commute\<close>)
  qed
  define s2 where "s2 = s1\<lparr>rxq_buffer := X, host_pages := H\<rparr>"
  have keep: "page_ring s2 = page_ring s" "page_ptr_mask s2 = page_ptr_mask s" "host_pages s2 = H" "host_tries s2 = host_tries s"
    by (simp_all add: s2_def fields)
  note inv2 = 1(2,3) [folded keep]
  have run: "efx_fini_rx_queue c s = efx_fini_rx_recycle_ring c s2"
    using 1(1) ne unfolding efx_fini_rx_queue_def Let_def s1_def [symmetric] s2_def fields by simp
  have log: "rx_log s2 = rx_log s"
    by (simp add: s2_def fields)
  show ?thesis
  proof (cases "page_ring s2")
    case None
    then have "efx_fini_rx_recycle_ring c s2 = Some s2"
        "ledger (group_owners gs2) A (lost_refs (rx_log s) + unreleased s) (host_pages s2) (host_tries s2)"
      using inv2(2) by (simp_all add: efx_fini_rx_recycle_ring_def ring_owners_def)
    then show ?thesis
      using that [of s2] 1(4) run None log by simp
  next
    case (Some r)
    then have size: "rx_recycle_ring_size c \<noteq> 0" "ring_wf r (page_ptr_mask s2)"
      using inv2(1) by (auto simp: recycle_ok_def split: if_splits)
    then have len: "Suc (unat (page_ptr_mask s2)) = length r"
      by (simp add: ring_wf_mask [OF size(2)])
    obtain H' where H': "release_pages r s2 = Some (s2\<lparr>host_pages := H'\<rparr>)" "ledger (group_owners gs2) A (lost_refs (rx_log s) + unreleased s) H' (host_tries s2)"
      by (rule release_pages_ok [where W = "group_owners gs2"]) (use inv2(2) in \<open>simp_all add: Some\<close>)
    have "efx_fini_rx_recycle_ring c s2 = Some (s2\<lparr>host_pages := H', page_ring := None\<rparr>)"
      using H'(1) size(1) len Some by (simp add: efx_fini_rx_recycle_ring_def)
    then show ?thesis
      using that [OF _ _ 1(4)] run H'(2) log by simp
  qed
qed

end
