(* ===== verification/Rx_Sizes.thy ===== *)
theory Rx_Sizes
  imports Rx_Poll
begin

section \<open>The sizes of the receive buffers\<close>

text \<open>
  \<open>efx_start_datapath\<close> derives the layout of a page from the MTU. For every MTU up to 9216 bytes
  outside a small range the layout is one that the queue's operations are safe with (\<open>nic_ok\<close>).
\<close>

lemma unat_align_up_64:
  assumes "unat (x :: u64) < 2 ^ 32"
  shows "unat (align_up x 64) = (unat x + 63) div 64 * 64"
proof -
  define y where "y = x + 63"
  have y: "unat y = unat x + 63"
    using assms by (simp add: y_def unat_word_ariths)
  have "align_up x 64 = y AND NOT (mask 6)"
    by (simp add: align_up_def y_def mask_eq_exp_minus_1)
  then have "align_up x 64 = y - (y AND mask 6)"
    by (simp only: and_not_mask_word)
  moreover have "y AND mask 6 \<le> y"
    by (simp add: word_and_le2)
  ultimately have "unat (align_up x 64) = unat y - unat y mod 2 ^ 6"
    by (simp add: unat_sub unat_and_mask)
  then show ?thesis
    by (simp add: y minus_mod_eq_div_mult)
qed

text \<open>The length of a frame.\<close>

lemma frame_len:
  assumes "mtu \<le> 9216"
  shows "unat (EFX_MAX_FRAME_LEN mtu) = (unat mtu + 29) div 8 * 8 + 16"
proof -
  define y where "y = mtu + 29"
  have mtu: "unat mtu \<le> 9216"
    using assms by (simp add: word_le_nat_alt)
  then have y: "unat y = unat mtu + 29"
    by (simp add: y_def unat_word_ariths)
  have "y AND NOT 7 = y AND NOT (mask 3)"
    by (simp add: mask_eq_exp_minus_1)
  then have "y AND NOT 7 = y - (y AND mask 3)"
    by (simp only: and_not_mask_word)
  moreover have "y AND mask 3 \<le> y"
    by (simp add: word_and_le2)
  ultimately have "unat (y AND NOT 7) = unat y - unat y mod 2 ^ 3"
    by (simp add: unat_sub unat_and_mask)
  then have z: "unat (y AND NOT 7) = (unat mtu + 29) div 8 * 8"
    by (simp add: y minus_mod_eq_div_mult)
  have "EFX_MAX_FRAME_LEN mtu = (y AND NOT 7) + 16"
    by (simp add: EFX_MAX_FRAME_LEN_def y_def algebra_simps)
  moreover have "(unat mtu + 29) div 8 * 8 \<le> unat mtu + 29"
    by simp
  ultimately show ?thesis
    using mtu z by (simp add: unat_word_ariths)
qed

text \<open>The part of \<open>struct efx_nic\<close> that the EF100 fixes: a prefix of 22 bytes, no padding, no scatter.\<close>

definition ef100_rx_nic :: "rx_nic \<Rightarrow> bool" where
  "ef100_rx_nic c \<longleftrightarrow>
     rx_prefix_size c = 22 \<and> rx_buffer_padding c = 0 \<and> rx_ip_align c = 0 \<and> \<not> can_rx_scatter c \<and> \<not> always_rx_scatter c"

definition frame_of :: "u32 \<Rightarrow> nat" where
  "frame_of mtu = (unat mtu + 29) div 8 * 8 + 16"

definition step_of :: "u32 \<Rightarrow> nat" where
  "step_of mtu = (342 + frame_of mtu + 63) div 64 * 64"

lemma step_of_bounds:
  assumes "mtu \<le> 9216"
  shows "frame_of mtu \<le> 9256" "342 + frame_of mtu \<le> step_of mtu" "step_of mtu \<le> 9600" "64 dvd step_of mtu" "320 \<le> step_of mtu"
proof -
  have "unat mtu \<le> 9216"
    using assms by (simp add: word_le_nat_alt)
  then have "(unat mtu + 29) div 8 \<le> 9245 div 8"
    by (intro div_le_mono) simp
  then show f: "frame_of mtu \<le> 9256"
    by (simp add: frame_of_def)
  show "342 + frame_of mtu \<le> step_of mtu" "320 \<le> step_of mtu"
    unfolding step_of_def by linarith+
  show "64 dvd step_of mtu"
    by (simp add: step_of_def)
  have "(342 + frame_of mtu + 63) div 64 \<le> 9661 div 64"
    using f by (intro div_le_mono) simp
  then show "step_of mtu \<le> 9600"
    by (simp add: step_of_def)
qed

lemma buffer_step:
  assumes "ef100_rx_nic c" and "mtu \<le> 9216" and "rx_dma_len c = 22 + EFX_MAX_FRAME_LEN mtu"
  shows "unat (rx_dma_len c) = 22 + frame_of mtu" and "unat (efx_rx_buffer_step c) = step_of mtu"
proof -
  note b = step_of_bounds [OF assms(2)]
  show d: "unat (rx_dma_len c) = 22 + frame_of mtu"
    using b(1) frame_len [OF assms(2)] by (simp add: assms(3) unat_word_ariths frame_of_def)
  define x :: u64 where "x = 320 + ucast (rx_dma_len c)"
  have "unat (ucast (rx_dma_len c) :: u64) = 22 + frame_of mtu"
    using d b(1) by (simp add: unsigned_ucast_eq take_bit_nat_def)
  then have x: "unat x = 342 + frame_of mtu"
    using b(1) by (simp add: x_def unat_word_ariths)
  have "efx_rx_buffer_step c = align_up x 64"
    using assms(1) by (simp add: efx_rx_buffer_step_def x_def ef100_rx_nic_def)
  then show "unat (efx_rx_buffer_step c) = step_of mtu"
    using x b(1) by (simp add: unat_align_up_64 step_of_def)
qed

lemma get_order_small:
  assumes "4096 < unat bytes" and "unat bytes \<le> 16384"
  shows "get_order bytes = (if unat bytes \<le> 8192 then 1 else 2)"
proof -
  have "[0..<52] = 0 # 1 # 2 # [3..<52]"
    by (simp add: upt_conv_Cons)
  then show ?thesis
    using assms by (simp add: get_order_def)
qed

text \<open>The layout: one page cut into buffers, or a block of pages for one buffer.\<close>

lemma page_split_ok:
  assumes "unat (efx_rx_buffer_step c) = step" and "320 \<le> step" and "step \<le> 9600"
    and "n = (if rx_buffer_order c = 0 then 4032 div step else 1)" and "0 < n"
  obtains c' where "efx_rx_config_page_split c = Some c'" and "bpp c' = n" and "unat (rx_page_buf_step c') = step"
    and "unat (rx_pages_per_batch c') = (7 + n) div n" and "rx_dma_len c' = rx_dma_len c" and "rx_buffer_order c' = rx_buffer_order c"
    and "rx_prefix_size c' = rx_prefix_size c" and "rx_ip_align c' = rx_ip_align c"
    and "rxq_entries c' = rxq_entries c" and "rx_recycle_ring_size c' = rx_recycle_ring_size c"
proof -
  define st where "st = efx_rx_buffer_step c"
  define w :: u32 where "w = (if rx_buffer_order c \<noteq> 0 then 1 else ucast ((4096 - 64 :: u64) div ucast (ucast st :: u32)))"
  have st: "unat st = step"
    using assms(1) by (simp add: st_def)
  have st32: "unat (ucast st :: u32) = step"
  proof -
    have "unat (ucast st :: u32) = unat st mod 2 ^ 32"
      by (simp add: unsigned_ucast_eq take_bit_nat_def)
    then show ?thesis
      using assms(3) unfolding st by simp
  qed
  have "unat (ucast y :: u64) = unat y" for y :: u32
  proof -
    have "unat y < 2 ^ 32"
      by (rule order_less_le_trans [OF unsigned_less]) simp
    then show ?thesis
      by (simp add: unsigned_ucast_eq take_bit_nat_def)
  qed
  then have st64: "unat (ucast (ucast st :: u32) :: u64) = step"
    by (simp only: st32)
  have "n \<le> 4032"
    using assms(2,4) by (simp split: if_splits)
  moreover have "4032 div step \<le> 4032"
    by simp
  ultimately have w: "unat w = n"
    using assms(4) st64 by (simp add: w_def unsigned_ucast_eq take_bit_nat_def unat_div del: div_le_dividend)
  have st0: "(ucast st :: u32) \<noteq> 0"
    using st32 assms(2) by (metis not_numeral_le_zero unsigned_0)
  have w0: "w \<noteq> 0"
    using w assms(5) by auto
  define c' where "c' = c\<lparr>rx_page_buf_step := ucast st, rx_bufs_per_page := w,
      rx_buffer_truesize := ucast (push_bit (unat (rx_buffer_order c)) 4096 div ucast w :: u64),
      rx_pages_per_batch := (8 + w - 1) div w\<rparr>"
  have run: "efx_rx_config_page_split c = Some c'"
  proof (cases "rx_buffer_order c = 0")
    case True
    then show ?thesis
      using st0 w0 by (simp add: efx_rx_config_page_split_def Let_def st_def [symmetric] c'_def w_def)
  next
    case False
    then show ?thesis
      using st0 w0 by (simp add: efx_rx_config_page_split_def Let_def st_def [symmetric] c'_def w_def)
  qed
  have "unat (8 + w - 1) = 7 + n"
    using w \<open>n \<le> 4032\<close> by (simp add: unat_word_ariths)
  then have "unat (rx_pages_per_batch c') = (7 + n) div n"
    using w by (simp add: c'_def unat_div)
  then show ?thesis
    by (intro that [OF run]) (use w st32 in \<open>simp_all add: c'_def\<close>)
qed

lemma layout_ok:
  assumes "bpp c = n" and "unat (rx_page_buf_step c) = step" and "unat (rx_pages_per_batch c) = (7 + n) div n"
    and "0 < n" and "n \<le> 12" and "rx_prefix_size c = 22" and "rx_ip_align c = 0" and "320 + unat (rx_dma_len c) \<le> step"
    and "64 dvd step" and "n * step \<le> 4096 * 2 ^ unat (rx_buffer_order c)" and "unat (rx_buffer_order c) \<le> 2"
  shows "nic_ok c" and "batch c \<le> 19"
proof -
  have "n \<le> 7 + n"
    by simp
  then have pos: "0 < (7 + n) div n"
    using assms(4) by (simp add: div_greater_zero_iff)
  have "(7 + n) div n * n \<le> 7 + n"
    by (rule div_times_less_eq_dividend)
  also have "\<dots> \<le> 19"
    using assms(5) by simp
  finally show b: "batch c \<le> 19"
    using assms(1,3) by (simp add: batch_def)
  have "(4096 :: nat) * 2 ^ unat (rx_buffer_order c) \<le> 4096 * 2 ^ 2"
    using assms(11) by (intro mult_le_mono2 power_increasing) simp_all
  then show "nic_ok c"
    using assms b pos by (simp add: nic_ok_def block_size_def)
qed

lemma start_datapath_ok:
  assumes "ef100_rx_nic c" and "mtu \<le> 9216" and "\<not> (3651 \<le> mtu \<and> mtu \<le> 3714)"
  obtains c' where "efx_start_datapath_rx mtu c = Some c'" and "nic_ok c'" and "batch c' \<le> 19"
    and "unat (rx_dma_len c') = 22 + frame_of mtu" and "rxq_entries c' = rxq_entries c"
    and "rx_recycle_ring_size c' = rx_recycle_ring_size c" and "bpp c' \<le> 12"
proof -
  note result = that
  note b = step_of_bounds [OF assms(2)]
  define step where "step = step_of mtu"
  define c1 where "c1 = c\<lparr>rx_dma_len := 22 + EFX_MAX_FRAME_LEN mtu\<rparr>"
  have c1: "ef100_rx_nic c1" "rx_dma_len c1 = 22 + EFX_MAX_FRAME_LEN mtu"
    using assms(1) by (simp_all add: c1_def ef100_rx_nic_def)
  note st1 = buffer_step [OF c1(1) assms(2) c1(2), folded step_def]
  define q where "q = (if efx_rx_buffer_step c1 \<le> 4096 then 0 else of_nat (get_order (efx_rx_buffer_step c1)) :: u32)"
  define c2 where "c2 = c1\<lparr>rx_scatter := False, rx_buffer_order := q\<rparr>"
  have run: "efx_start_datapath_rx mtu c = efx_rx_config_page_split c2"
    using assms(1) by (simp add: efx_start_datapath_rx_def Let_def c2_def q_def c1_def ef100_rx_nic_def)
  have st2: "unat (efx_rx_buffer_step c2) = step"
    using st1(2) by (simp add: c2_def efx_rx_buffer_step_def)
  have le: "efx_rx_buffer_step c1 \<le> 4096 \<longleftrightarrow> step \<le> 4096"
    using st1(2) by (simp add: word_le_nat_alt)
  have no4096: "step \<noteq> 4096"
  proof
    assume "step = 4096"
    then have "4096 \<le> 405 + frame_of mtu" "405 + frame_of mtu < 4160"
      unfolding step_def step_of_def by linarith+
    then have "3651 \<le> unat mtu \<and> unat mtu \<le> 3714"
      unfolding frame_of_def by presburger
    then show False
      using assms(3) by (simp add: word_le_nat_alt)
  qed
  define n where "n = (if rx_buffer_order c2 = 0 then 4032 div step else 1)"
  have q: "unat q = (if step \<le> 4096 then 0 else if step \<le> 8192 then 1 else 2)"
    using get_order_small [of "efx_rx_buffer_step c1"] st1(2) b(3) le by (auto simp: q_def step_def)
  have "q = 0 \<longleftrightarrow> step \<le> 4096"
    using q by (auto simp: unat_eq_0 [symmetric] split: if_splits)
  then have n: "n = (if step \<le> 4096 then 4032 div step else 1)"
    by (simp add: n_def c2_def)
  have le4032: "step \<le> 4032" if "step \<le> 4096"
  proof -
    have "64 dvd step"
      using b(4) by (simp add: step_def)
    then show ?thesis
      using that no4096 by presburger
  qed
  have big: "320 \<le> step" "step \<le> 9600"
    using b(3,5) by (simp_all add: step_def)
  have n0: "0 < n" "n \<le> 12"
  proof -
    show "0 < n"
      using le4032 big by (simp add: n div_greater_zero_iff)
    have "4032 div step \<le> 4032 div 320"
      using big by (intro div_le_mono2) simp_all
    then show "n \<le> 12"
      by (simp add: n)
  qed
  have room: "n * step \<le> 4096 * 2 ^ unat q"
  proof (cases "step \<le> 4096")
    case True
    have "4032 div step * step \<le> 4032"
      by (rule div_times_less_eq_dividend)
    also have "\<dots> \<le> 4096"
      by simp
    finally show ?thesis
      using True by (simp add: n q)
  next
    case False
    then show ?thesis
      using big(2) by (simp add: n q)
  qed
  obtain c' where c': "efx_rx_config_page_split c2 = Some c'" "bpp c' = n" "unat (rx_page_buf_step c') = step"
    "unat (rx_pages_per_batch c') = (7 + n) div n" "rx_dma_len c' = rx_dma_len c2" "rx_buffer_order c' = rx_buffer_order c2"
    "rx_prefix_size c' = rx_prefix_size c2" "rx_ip_align c' = rx_ip_align c2"
    "rxq_entries c' = rxq_entries c2" "rx_recycle_ring_size c' = rx_recycle_ring_size c2"
    using page_split_ok [OF st2 big n_def n0(1)] .
  have dma: "unat (rx_dma_len c') = 22 + frame_of mtu" "rx_buffer_order c' = q"
    using st1(1) c'(5,6) by (simp_all add: c2_def)
  have fixed: "rx_prefix_size c' = 22" "rx_ip_align c' = 0"
    using assms(1) c'(7,8) by (simp_all add: c2_def c1_def ef100_rx_nic_def)
  have "320 + unat (rx_dma_len c') \<le> step" "64 dvd step" "n * step \<le> 4096 * 2 ^ unat (rx_buffer_order c')" "unat (rx_buffer_order c') \<le> 2"
    using dma b(2,4) room q by (simp_all add: step_def)
  note ok = layout_ok [OF c'(2,3,4) n0 fixed this]
  show ?thesis
    using result [OF _ ok dma(1)] run c'(1,2,9,10) n0(2) by (simp add: c2_def c1_def)
qed

text \<open>In the range the step is a whole page, no buffer fits behind the page's state, and the code divides by zero.\<close>

lemma start_datapath_divides_by_zero:
  assumes "ef100_rx_nic c" and "3651 \<le> mtu" and "mtu \<le> 3714"
  shows "efx_start_datapath_rx mtu c = None"
proof -
  have mtu: "3651 \<le> unat mtu" "unat mtu \<le> 3714"
    using assms(2,3) by (simp_all add: word_le_nat_alt)
  have le: "mtu \<le> 9216"
    using mtu by (simp add: word_le_nat_alt)
  define f where "f = (unat mtu + 29) div 8"
  have "3680 div 8 \<le> f" "f \<le> 3743 div 8"
    unfolding f_def using mtu by (auto intro!: div_le_mono)
  then have "(421 + 8 * f) div 64 = 64"
    by (intro div_nat_eqI) simp_all
  then have "step_of mtu = 4096"
    by (simp add: step_of_def frame_of_def f_def [symmetric] algebra_simps)
  define c1 where "c1 = c\<lparr>rx_dma_len := 22 + EFX_MAX_FRAME_LEN mtu\<rparr>"
  have "ef100_rx_nic c1" "rx_dma_len c1 = 22 + EFX_MAX_FRAME_LEN mtu"
    using assms(1) by (simp_all add: c1_def ef100_rx_nic_def)
  then have "unat (efx_rx_buffer_step c1) = unat (4096 :: u64)"
    using buffer_step(2) [of c1 mtu] le \<open>step_of mtu = 4096\<close> by simp
  then have st: "efx_rx_buffer_step c1 = 4096"
    by (simp only: word_unat_eq_iff)
  define c2 where "c2 = c1\<lparr>rx_scatter := False, rx_buffer_order := 0\<rparr>"
  have "efx_start_datapath_rx mtu c = efx_rx_config_page_split c2"
    using assms(1) st by (simp add: efx_start_datapath_rx_def Let_def c2_def c1_def ef100_rx_nic_def)
  moreover have "efx_rx_buffer_step c2 = 4096" "rx_buffer_order c2 = 0"
    using st by (simp_all add: c2_def efx_rx_buffer_step_def)
  ultimately show ?thesis
    by (simp add: efx_rx_config_page_split_def Let_def)
qed

end
