(* ===== verification/Rx_Reach.thy ===== *)
theory Rx_Reach
  imports Rx_Life Rx_Sizes
begin

section \<open>The states a receive queue reaches\<close>

subsection \<open>The kernel's use of the pages\<close>

text \<open>A socket buffer that holds a page is cloned or freed; \<open>None\<close> where there is none.\<close>

definition kernel_get :: "nat \<Rightarrow> rx_channel \<Rightarrow> rx_channel option" where
  "kernel_get p s =
     (case host_pages s p of
        None \<Rightarrow> None
      | Some g \<Rightarrow>
          if pg_skb_refs g = 0 then None
          else Some (set_page p (Some (g\<lparr>pg_count := pg_count g + 1, pg_skb_refs := pg_skb_refs g + 1\<rparr>)) s))"

definition kernel_put :: "nat \<Rightarrow> rx_channel \<Rightarrow> rx_channel option" where
  "kernel_put p s =
     (case host_pages s p of
        None \<Rightarrow> None
      | Some g \<Rightarrow>
          if pg_skb_refs g = 0 then None
          else put_page p (set_page p (Some (g\<lparr>pg_skb_refs := pg_skb_refs g - 1\<rparr>)) s))"

definition skb_holds :: "nat \<Rightarrow> rx_channel \<Rightarrow> bool" where
  "skb_holds p s = (case host_pages s p of None \<Rightarrow> False | Some g \<Rightarrow> 0 < pg_skb_refs g)"

lemma kernel_get_ledger:
  assumes "ledger W A R (host_pages s) t" and "kernel_get p s = Some s'"
  obtains H where "s' = s\<lparr>host_pages := H\<rparr>" and "ledger W A R H t"
proof -
  obtain g where g: "host_pages s p = Some g" "pg_skb_refs g \<noteq> 0"
      "s' = set_page p (Some (g\<lparr>pg_count := pg_count g + 1, pg_skb_refs := pg_skb_refs g + 1\<rparr>)) s"
    using assms(2) by (auto simp: kernel_get_def split: option.splits if_splits)
  have "page_ledger (count W p) (A p) (count R p) (Some g)" "p < t"
    using assms(1) g(1) ledger_page [OF assms(1), of p] by (auto simp: ledger_def)
  then have "ledger W A R ((host_pages s)(p := Some (g\<lparr>pg_count := pg_count g + 1, pg_skb_refs := pg_skb_refs g + 1\<rparr>))) t"
    by (intro ledger_update [OF assms(1)]) (simp_all add: page_ledger_def)
  then show ?thesis
    by (intro that) (simp_all add: g(3) set_page_def)
qed

lemma kernel_put_ok:
  assumes "ledger W A R (host_pages s) t" and "skb_holds p s"
  obtains H where "kernel_put p s = Some (s\<lparr>host_pages := H\<rparr>)" and "ledger W A R H t"
proof -
  obtain g where g: "host_pages s p = Some g" "0 < pg_skb_refs g"
    using assms(2) by (auto simp: skb_holds_def split: option.splits)
  define s1 where "s1 = set_page p (Some (g\<lparr>pg_skb_refs := pg_skb_refs g - 1\<rparr>)) s"
  have "page_ledger (count W p) (A p) (count R p) (Some g)" "p < t"
    using assms(1) g(1) ledger_page [OF assms(1), of p] by (auto simp: ledger_def)
  then have "ledger W A (add_mset p R) ((host_pages s)(p := Some (g\<lparr>pg_skb_refs := pg_skb_refs g - 1\<rparr>))) t"
    using g(2) by (intro ledger_update [OF assms(1)]) (simp_all add: page_ledger_def)
  then have "ledger W A (add_mset p R) (host_pages s1) t"
    by (simp add: s1_def)
  then obtain H where H: "put_page p s1 = Some (s1\<lparr>host_pages := H\<rparr>)" "ledger W A R H t"
    by (rule put_ref)
  have "kernel_put p s = Some (s\<lparr>host_pages := H\<rparr>)"
    using H(1) g by (simp add: kernel_put_def s1_def [symmetric]) (simp add: s1_def set_page_def)
  then show ?thesis
    using H(2) by (rule that)
qed

lemma kernel_put_holds: "kernel_put p s = Some s' \<Longrightarrow> skb_holds p s"
  by (auto simp: kernel_put_def skb_holds_def split: option.splits if_splits)

lemma rx_good_pages:
  assumes "rx_good c A gs k s"
    and "ledger (ring_owners (page_ring s) + group_owners gs) A
       (post_refs c k gs + pipe_refs (rxq_buffer s) (pipe_of s) + lost_refs (rx_log s)) H (host_tries s)"
  shows "rx_good c A gs k (s\<lparr>host_pages := H\<rparr>)"
proof -
  have "pipe_of (s\<lparr>host_pages := H\<rparr>) = pipe_of s"
    by (simp add: pipe_of_def)
  then show ?thesis
    using assms by (simp add: rx_good_def rx_inv_def descs_ok_def posted_view_def fill_of_def limits_ok_def)
qed

lemma kernel_ok:
  assumes "rx_good c A gs k s"
  shows "kernel_get p s = Some s' \<Longrightarrow> rx_good c A gs k s'"
    and "kernel_put p s = Some s' \<Longrightarrow> rx_good c A gs k s'"
proof -
  note led = rx_invD(4) [OF rx_goodD(1) [OF assms]]
  show "rx_good c A gs k s'" if "kernel_get p s = Some s'"
    using kernel_get_ledger [OF led that] rx_good_pages [OF assms] by metis
  show "rx_good c A gs k s'" if "kernel_put p s = Some s'"
    using kernel_put_ok [OF led kernel_put_holds [OF that]] rx_good_pages [OF assms] that by (metis option.inject)
qed

subsection \<open>Set-up\<close>

text \<open>The sizes that the driver configures: room for a batch above the head room, powers of two
  within the range of the counters.\<close>

definition conf_ok :: "rx_nic \<Rightarrow> nat \<Rightarrow> bool" where
  "conf_ok c min_dmaq_size \<longleftrightarrow>
     nic_ok c \<and> 8 + batch c \<le> unat (rxq_entries c) \<and> unat (rxq_entries c) \<le> 2 ^ 31 \<and>
     (\<exists>j\<le>31. min_dmaq_size = 2 ^ j) \<and>
     (rx_recycle_ring_size c = 0 \<or> bpp c \<le> unat (rx_recycle_ring_size c) \<and> unat (rx_recycle_ring_size c) \<le> 2 ^ 31)"

text \<open>A channel that has received nothing.\<close>

definition rx_blank :: "rx_channel \<Rightarrow> bool" where
  "rx_blank s \<longleftrightarrow> host_pages s = (\<lambda>_. None) \<and> rx_log s = [] \<and> rx_packets s = 0 \<and> rx_pkt_n_frags s = 0 \<and> page_ring s = None"

text \<open>The queue is probed and started, and the allocations of its rings and the firmware succeed.\<close>

definition efx_open_rx :: "rx_env \<Rightarrow> rx_nic \<Rightarrow> nat \<Rightarrow> rx_channel \<Rightarrow> (int \<times> rx_channel) option" where
  "efx_open_rx env c min_dmaq_size s = efx_start_rx_queue env c True 0 0 (snd (efx_probe_rx_queue c min_dmaq_size True 0 s))"

lemma head_room: "EFX_RXD_HEAD_ROOM = 8"
  by code_simp

lemma recycle_ring_init:
  assumes "conf_ok c m" and "page_ring s = None"
  obtains pr pm where "efx_init_rx_recycle_ring c True s = Some (s\<lparr>page_ring := pr, page_ptr_mask := pm\<rparr>)"
    and "recycle_ok c [] pr pm" and "ring_owners pr = {#}"
proof (cases "rx_recycle_ring_size c = 0")
  case True
  then show ?thesis
    using assms(2) by (intro that [where pr = None and pm = "page_ptr_mask s"]) (simp_all add: efx_init_rx_recycle_ring_def recycle_ok_def ring_owners_def)
next
  case False
  define n where "n = unat (rx_recycle_ring_size c div rx_bufs_per_page c)"
  have b: "0 < bpp c" "bpp c \<le> unat (rx_recycle_ring_size c)" "unat (rx_recycle_ring_size c) \<le> 2 ^ 31"
    using assms(1) False nic_okD(1) by (auto simp: conf_ok_def)
  have "n = unat (rx_recycle_ring_size c) div bpp c"
    by (simp add: n_def unat_div)
  then have "0 < n" "n \<le> 2 ^ 31"
    using b div_le_dividend [of "unat (rx_recycle_ring_size c)" "bpp c"] by (simp_all only: div_greater_zero_iff)
  then obtain k where k: "k \<le> 31" "roundup_pow_of_two n = 2 ^ k"
    by (rule roundup_pow_of_two_spec)
  define r :: "nat option list" where "r = replicate (2 ^ k) None"
  have "rx_bufs_per_page c \<noteq> 0"
    using b(1) by auto
  then have run: "efx_init_rx_recycle_ring c True s = Some (s\<lparr>page_ring := Some r, page_ptr_mask := of_nat (2 ^ k) - 1\<rparr>)"
    using False k(2) by (simp add: efx_init_rx_recycle_ring_def n_def [symmetric] r_def)
  have "ring_wf r (of_nat (2 ^ k) - 1)"
    by (rule ring_wf_of_nat [OF k(1)]) (simp add: r_def)
  then show ?thesis
    using False by (intro that [OF run]) (simp_all add: recycle_ok_def ring_owners_def r_def)
qed

lemma open_ok:
  assumes "conf_ok c m" and "rx_blank s"
  obtains A gs s' where "efx_open_rx env c m s = Some (0, s')" and "rx_good c A gs 0 s'" and "rx_pkt_n_frags s' = 0"
    and "refill_enabled s'" and "\<not> slow_fill_work s' \<Longrightarrow> unat (fast_fill_trigger s') \<le> fill_of (removed_count s') s'"
proof -
  have nic: "nic_ok c" and room: "8 + batch c \<le> unat (rxq_entries c)" and le31: "unat (rxq_entries c) \<le> 2 ^ 31"
    using assms(1) by (simp_all add: conf_ok_def)
  obtain j where j: "j \<le> 31" "m = 2 ^ j"
    using assms(1) by (auto simp: conf_ok_def)
  have "0 < unat (rxq_entries c)"
    using room by simp
  then obtain k where k: "k \<le> 31" "roundup_pow_of_two (unat (rxq_entries c)) = 2 ^ k" "unat (rxq_entries c) \<le> 2 ^ k"
    using le31 by (rule roundup_pow_of_two_spec)
  define q where "q = max k j"
  define entries where "entries = max (roundup_pow_of_two (unat (rxq_entries c))) m"
  have "(2 :: nat) ^ k \<le> 2 ^ q" "(2 :: nat) ^ j \<le> 2 ^ q" "q = k \<or> q = j"
    by (auto simp: q_def intro!: power_increasing)
  then have e: "entries = 2 ^ q" "q \<le> 31" "unat (rxq_entries c) \<le> entries"
    using k j by (auto simp: entries_def q_def)
  define s1 where "s1 = s\<lparr>rxq_ptr_mask := of_nat entries - 1, rxq_buffer := replicate entries empty_rx_buffer, rxd := replicate entries 0\<rparr>"
  have probe: "snd (efx_probe_rx_queue c m True 0 s) = s1"
    by (simp add: efx_probe_rx_queue_def entries_def [symmetric] Let_def s1_def)
  define s2 where "s2 = s1\<lparr>added_count := 0, notified_count := 0, granted_count := 0, removed_count := 0,
                 min_fill := - 1, failed_flush_count := 0\<rparr>"
  have "page_ring s2 = None"
    using assms(2) by (simp add: s2_def s1_def rx_blank_def)
  then obtain pr pm where rr: "efx_init_rx_recycle_ring c True s2 = Some (s2\<lparr>page_ring := pr, page_ptr_mask := pm\<rparr>)"
      "recycle_ok c [] pr pm" "ring_owners pr = {#}"
    by (rule recycle_ring_init [OF assms(1)])
  define mf where "mf = rxq_entries c - 8"
  define mt where "mt = mf - rx_pages_per_batch c * rx_bufs_per_page c"
  define tr where "tr = (if rx_refill_threshold c \<noteq> 0 then min (mf * min (rx_refill_threshold c) 100 div 100) mt else mt)"
  define s3 where "s3 = s2\<lparr>page_ring := pr, page_ptr_mask := pm, page_remove := 1, page_add := 0, page_recycle_count := 0,
      page_recycle_failed := 0, page_recycle_full := 0, page_repost_count := 0, max_fill := mf, fast_fill_trigger := tr, refill_enabled := True\<rparr>"
  have "efx_init_rx_queue c True 0 0 s1 = Some (0, s3\<lparr>refill_enabled := False\<rparr>)"
    using rr(1) unfolding efx_init_rx_queue_def Let_def s2_def [symmetric] head_room
    by (simp add: s3_def mf_def mt_def tr_def)
  then have run: "efx_open_rx env c m s = Option.bind (efx_fast_push_rx_descriptors env c s3) (\<lambda>s. Some (0, s))"
    unfolding efx_open_rx_def probe efx_start_rx_queue_def by (simp add: s3_def)
  have mf: "unat mf = unat (rxq_entries c) - 8"
    using room by (simp add: mf_def unat_sub word_le_nat_alt)
  have mt: "unat mt = unat mf - batch c"
    using batch_word [OF nic] room mf by (simp add: mt_def unat_sub word_le_nat_alt)
  have "tr \<le> mt"
    by (simp add: tr_def)
  then have tr: "unat tr \<le> unat mf - batch c"
    by (simp add: mt [symmetric] word_le_nat_alt)
  have fields: "removed_count s3 = 0" "added_count s3 = 0" "notified_count s3 = 0" "rxq_buffer s3 = replicate entries empty_rx_buffer"
      "rxq_ptr_mask s3 = of_nat entries - 1" "rxd s3 = replicate entries 0" "page_ring s3 = pr" "page_ptr_mask s3 = pm"
      "rx_log s3 = []" "rx_pkt_n_frags s3 = 0" "rx_packets s3 = 0" "host_pages s3 = (\<lambda>_. None)" "max_fill s3 = mf"
      "fast_fill_trigger s3 = tr" "refill_enabled s3"
    using assms(2) by (simp_all add: s3_def s2_def s1_def rx_blank_def)
  have wf: "ring_wf (rxq_buffer s3) (rxq_ptr_mask s3)"
    unfolding fields e(1) by (rule ring_wf_of_nat [OF e(2)]) simp
  have "ledger {#} A {#} (host_pages s3) (host_tries s3)" for A
    by (simp add: ledger_def page_ledger_def fields)
  then have "rx_inv c (\<lambda>_. 0) [] 0 (removed_count s3) (pipe_of s3) s3"
    using wf nic_okD(1) [OF nic] rr(2,3) by (simp add: rx_inv_def rx_shape_def pipe_of_def fields)
  moreover have "limits_ok c s3"
    using e(3) mf tr room unfolding limits_ok_def fields fill_of_def length_replicate by simp linarith
  ultimately have "rx_good c (\<lambda>_. 0) [] 0 s3"
    by (simp add: rx_good_def pipe_of_def fields descs_ok_def fill_of_def)
  from fast_push_ok [OF nic this fields(10), of env] obtain A' gs' s' where
    s': "efx_fast_push_rx_descriptors env c s3 = Some s'" "rx_good c A' gs' 0 s'" "rx_pkt_n_frags s' = 0"
      "refill_enabled s3 \<Longrightarrow> \<not> slow_fill_work s' \<Longrightarrow> unat (fast_fill_trigger s') \<le> fill_of (removed_count s') s'"
      "refill_enabled s' = refill_enabled s3"
    by metis
  show ?thesis
    by (rule that [OF _ s'(2,3)]) (use s'(1,4,5) run fields(15) in simp_all)
qed

subsection \<open>Reachable states\<close>

text \<open>Opening the queue assumes that its ring and its recycle ring are allocated (the code does not test the
  second: \<open>recycle_ring_not_tested\<close>, \<open>recycle_ring_null\<close>); every page and DMA mapping asked for then and
  later may be refused. The environment may be another one at each step, and the adaptation of the interrupt moderation sets
  \<open>irq_mod_score\<close>; the device does not report more packets than it
  was given buffers.\<close>

inductive rx_reach :: "rx_nic \<Rightarrow> rx_channel \<Rightarrow> bool" for c where
  reach_open: "conf_ok c m \<Longrightarrow> rx_blank s \<Longrightarrow> efx_open_rx env c m s = Some (rc, s') \<Longrightarrow> rx_reach c s'"
| reach_event: "rx_reach c s \<Longrightarrow> event_packets event \<le> fill_of (removed_count s) s \<Longrightarrow>
    efx_ef100_ev_rx env c event s = Some s' \<Longrightarrow> rx_reach c s'"
| reach_poll: "rx_reach c s \<Longrightarrow> rx_end_of_poll env c spent s = Some s' \<Longrightarrow> rx_reach c s'"
| reach_get: "rx_reach c s \<Longrightarrow> kernel_get p s = Some s' \<Longrightarrow> rx_reach c s'"
| reach_put: "rx_reach c s \<Longrightarrow> kernel_put p s = Some s' \<Longrightarrow> rx_reach c s'"
| reach_score: "rx_reach c s \<Longrightarrow> rx_reach c (s\<lparr>irq_mod_score := n\<rparr>)"

lemma rx_reach_good:
  assumes "rx_reach c s"
  shows "nic_ok c \<and> refill_enabled s \<and> (\<exists>A gs k. rx_good c A gs k s)"
  using assms
proof induction
  case (reach_open m s env rc s')
  then show ?case
    using open_ok [OF reach_open(1,2), of env] by (metis conf_ok_def option.inject prod.inject)
next
  case (reach_event s event env s')
  then obtain A gs k where good: "rx_good c A gs k s" and nic: "nic_ok c"
    by auto
  from ev_rx_ok [OF nic good reach_event(2), of env] show ?case
    using reach_event(3,4) by (metis option.inject)
next
  case (reach_poll s env spent s')
  then obtain A gs k where good: "rx_good c A gs k s" and nic: "nic_ok c"
    by auto
  from end_of_poll_ok [OF nic good, of env spent] show ?case
    using reach_poll by (metis option.inject)
next
  case (reach_get s p s')
  moreover have "refill_enabled s' = refill_enabled s"
    using reach_get(2) by (auto simp: kernel_get_def set_page_def split: option.splits if_splits)
  ultimately show ?case
    using kernel_ok(1) by metis
next
  case (reach_put s p s')
  moreover have "refill_enabled s' = refill_enabled s"
    using reach_put(2) by (auto simp: kernel_put_def put_page_def set_page_def split: option.splits if_splits)
  ultimately show ?case
    using kernel_ok(2) by metis
next
  case (reach_score s n)
  then obtain A gs k where good: "rx_good c A gs k s" and rest: "nic_ok c" "refill_enabled s"
    by blast
  have "rx_good c A gs k (s\<lparr>irq_mod_score := n\<rparr>)"
    by (rule rx_good_cong [OF good]) simp_all
  with rest show ?case
    by auto
qed

end
