(* ===== verification/Rx_Demo.thy ===== *)
theory Rx_Demo
  imports Rx_Reach
begin

section \<open>A small receive queue\<close>

text \<open>
  A queue with 20 entries at an MTU of 1500 bytes, on a host that is short of memory: one page can be
  allocated, mapped at \<open>2 ^ 16\<close>, and the next attempt fails. The queue as it is opened, with the two
  buffers of that page, after an event for two packets, and after the poll that follows.
\<close>

definition rx_demo_nic :: rx_nic where
  "rx_demo_nic =
     \<lparr>rx_prefix_size = 22, rx_buffer_padding = 0, can_rx_scatter = False, always_rx_scatter = False, rx_ip_align = 0,
      rx_dma_len = 1566, rx_scatter = False, rx_buffer_order = 0, rx_buffer_truesize = 2048, rx_page_buf_step = 1920,
      rx_bufs_per_page = 2, rx_pages_per_batch = 4, rxq_entries = 20, rx_refill_threshold = 0, rx_recycle_ring_size = 16\<rparr>"

definition rx_demo_env :: rx_env where
  "rx_demo_env =
     \<lparr>env_page = (\<lambda>n. n = 0), env_dma = (\<lambda>n. Some (of_nat (Suc n) * 2 ^ 16)),
      env_mem = (\<lambda>p a. if a mod 1920 = 320 then 200 else 0), env_skb = (\<lambda>_. True), env_gro_drop = (\<lambda>_. False), feat_rxall = False, feat_rxhash = True,
      feat_rxcsum = True, have_mport = False, base_mport = 0, have_old_mport = False, old_base_mport = 0,
      env_rep = (\<lambda>_. None), receive_skb = False\<rparr>"

definition rx_demo_blank :: rx_channel where
  "rx_demo_blank =
     \<lparr>host_pages = (\<lambda>_. None), host_tries = 0, host_maps = 0, rx_log = [], rx_doorbells = [],
      rxq_buffer = [], rxd = [], rxq_ptr_mask = 0, refill_enabled = False, grant_credits = False,
      added_count = 0, notified_count = 0, granted_count = 0, removed_count = 0, page_ring = None, page_add = 0,
      page_remove = 0, page_recycle_count = 0, page_recycle_failed = 0, page_recycle_full = 0, page_repost_count = 0,
      page_ptr_mask = 0, max_fill = 0, fast_fill_trigger = 0, min_fill = 0, recycle_count = 0, slow_fill_count = 0,
      slow_fill_work = False, grant_work = False, rx_packets = 0, failed_flush_count = 0,
      rx_pkt_n_frags = 0, rx_pkt_index = 0, irq_mod_score = 0, n_rx_merge_events = 0, n_rx_eth_crc_err = 0,
      n_rx_frm_trunc = 0, n_rx_mport_bad = 0, n_rx_ip_hdr_chksum_err = 0\<rparr>"

definition rx_demo :: rx_channel where
  "rx_demo = snd (the (efx_open_rx rx_demo_env rx_demo_nic 16 rx_demo_blank))"

definition rx_demo_event :: rx_channel where
  "rx_demo_event = the (efx_ef100_ev_rx rx_demo_env rx_demo_nic 2 rx_demo)"

definition rx_demo_polled :: rx_channel where
  "rx_demo_polled = the (rx_end_of_poll rx_demo_env rx_demo_nic 1 rx_demo_event)"

lemma rx_demo_conf: "conf_ok rx_demo_nic 16"
proof -
  have "\<exists>j\<le>31. (16 :: nat) = 2 ^ j"
    by (rule exI [of _ 4]) simp
  then show ?thesis
    by (simp add: conf_ok_def nic_ok_def batch_def block_size_def rx_demo_nic_def)
qed

lemma rx_demo_is_blank: "rx_blank rx_demo_blank"
  by (simp add: rx_blank_def rx_demo_blank_def)

lemma rx_demo_open: "efx_open_rx rx_demo_env rx_demo_nic 16 rx_demo_blank = Some (0, rx_demo)"
  using open_ok [OF rx_demo_conf rx_demo_is_blank, of rx_demo_env] unfolding rx_demo_def by (metis option.sel snd_conv)

lemma rx_demo_reach: "rx_reach rx_demo_nic rx_demo"
  by (rule reach_open [OF rx_demo_conf rx_demo_is_blank rx_demo_open])

lemma rx_demo_fill: "fill_of (removed_count rx_demo) rx_demo = 2"
  by code_simp

lemma rx_demo_packets: "event_packets 2 = 2"
  by code_simp

lemma rx_demo_good:
  obtains A gs k where "rx_good rx_demo_nic A gs k rx_demo" and "nic_ok rx_demo_nic"
  using rx_reach_good [OF rx_demo_reach] by auto

lemma rx_demo_event_run: "efx_ef100_ev_rx rx_demo_env rx_demo_nic 2 rx_demo = Some rx_demo_event"
proof -
  obtain A gs k where "rx_good rx_demo_nic A gs k rx_demo" "nic_ok rx_demo_nic"
    by (rule rx_demo_good)
  then show ?thesis
    using ev_rx_ok [of rx_demo_nic A gs k rx_demo 2 rx_demo_env] rx_demo_fill rx_demo_packets
    unfolding rx_demo_event_def by (metis option.sel order_refl)
qed

lemma rx_demo_event_reach: "rx_reach rx_demo_nic rx_demo_event"
  by (rule reach_event [OF rx_demo_reach _ rx_demo_event_run]) (simp add: rx_demo_fill rx_demo_packets)

lemma rx_demo_polled_run: "rx_end_of_poll rx_demo_env rx_demo_nic 1 rx_demo_event = Some rx_demo_polled"
proof -
  obtain A gs k where "rx_good rx_demo_nic A gs k rx_demo_event" "nic_ok rx_demo_nic"
    using rx_reach_good [OF rx_demo_event_reach] by auto
  then show ?thesis
    using end_of_poll_ok [of rx_demo_nic A gs k rx_demo_event rx_demo_env 1]
    unfolding rx_demo_polled_def by (metis option.sel)
qed

lemma rx_demo_polled_reach: "rx_reach rx_demo_nic rx_demo_polled"
  by (rule reach_poll [OF rx_demo_event_reach rx_demo_polled_run])

end
