(* ===== verification/Rx_Facts.thy ===== *)
theory Rx_Facts
  imports Rx_Demo
begin

section \<open>What the invariant says of a reachable queue\<close>

subsection \<open>References and owners\<close>

text \<open>The references that the driver's buffers hold: posted, of packets held back, or lost with a packet
  that was dropped without releasing its page.\<close>

definition rx_held :: "rx_channel \<Rightarrow> nat multiset" where
  "rx_held s =
     mset (map buf_page (posted_view (removed_count s) s)) + pipe_refs (rxq_buffer s) (pipe_of s) + lost_refs (rx_log s)"

text \<open>The queue owns the pages in the recycle ring and those with posted buffers.\<close>

definition rx_owned :: "rx_channel \<Rightarrow> nat \<Rightarrow> bool" where
  "rx_owned s p \<longleftrightarrow> p \<in># ring_owners (page_ring s) \<or> p \<in> buf_page ` set (posted_view (removed_count s) s)"

lemma posted_pages:
  assumes "k < bpp c"
  shows "buf_page ` set (posted c A k gs) = grp_page ` set gs"
proof (cases gs)
  case Nil
  then show ?thesis
    by simp
next
  case (Cons g gs')
  have all: "buf_page ` set (grp_bufs c A x) = {grp_page x}" for x
    using assms by (auto simp: grp_bufs_def image_image)
  have "drop k (grp_bufs c A g) \<noteq> []"
    using assms by simp
  then have "buf_page ` set (drop k (grp_bufs c A g)) = {grp_page g}"
    using all [of g] set_drop_subset [of k "grp_bufs c A g"] by (metis image_is_empty image_mono set_empty subset_singletonD)
  then show ?thesis
    using assms all by (auto simp: Cons posted_def image_Un image_UN)
qed

lemma good_held:
  assumes "rx_good c A gs k s"
  shows "ledger (ring_owners (page_ring s) + group_owners gs) A (rx_held s) (host_pages s) (host_tries s)"
    and "rx_owned s p \<longleftrightarrow> p \<in># ring_owners (page_ring s) + group_owners gs"
proof -
  note inv = rx_goodD(1) [OF assms]
  have k: "k < bpp c" and view: "posted_view (removed_count s) s = posted c A k gs"
    using posted_view_posted [OF inv] inv by (simp_all add: rx_inv_def rx_shape_def)
  have "post_refs c k gs = mset (map buf_page (posted_view (removed_count s) s))"
    by (simp only: post_refs_def view map_buf_page_posted [of c "\<lambda>_. 0" k gs A])
  then show "ledger (ring_owners (page_ring s) + group_owners gs) A (rx_held s) (host_pages s) (host_tries s)"
    using rx_invD(4) [OF inv] by (simp add: rx_held_def)
  show "rx_owned s p \<longleftrightarrow> p \<in># ring_owners (page_ring s) + group_owners gs"
    using group_owned [OF rx_invD(3) [OF inv]] unfolding rx_owned_def view posted_pages [OF k]
    by (auto simp: group_owners_def)
qed

text \<open>The balance of a page.\<close>

definition page_balanced :: "rx_channel \<Rightarrow> nat \<Rightarrow> bool" where
  "page_balanced s p \<longleftrightarrow>
     (case host_pages s p of
        None \<Rightarrow> \<not> rx_owned s p \<and> p \<notin># rx_held s
      | Some g \<Rightarrow>
          pg_count g = (if rx_owned s p then 1 else 0) + count (rx_held s) p + pg_skb_refs g \<and> 0 < pg_count g \<and>
          pg_mapped g = (if rx_owned s p then Some (pg_dma_addr g) else None) \<and>
          count (ring_owners (page_ring s)) p \<le> 1)"

lemma good_balanced:
  assumes "rx_good c A gs k s"
  shows "page_balanced s p"
proof -
  define W where "W = ring_owners (page_ring s) + group_owners gs"
  have led: "page_ledger (count W p) (A p) (count (rx_held s) p) (host_pages s p)"
    using good_held(1) [OF assms] by (simp add: ledger_def W_def)
  have own: "rx_owned s p \<longleftrightarrow> count W p \<noteq> 0"
    using good_held(2) [OF assms, of p] by (simp add: W_def)
  show ?thesis
  proof (cases "host_pages s p")
    case None
    then show ?thesis
      using led own by (simp add: page_balanced_def page_ledger_def not_in_iff)
  next
    case (Some g)
    have "count (ring_owners (page_ring s)) p \<le> count W p"
      by (simp add: W_def)
    moreover have "count W p \<le> 1"
      using led Some by (simp add: page_ledger_def)
    then have "count W p = 0 \<or> count W p = 1"
      by linarith
    then have "count W p = (if rx_owned s p then 1 else 0)"
      using own by metis
    then have "page_ledger (if rx_owned s p then 1 else 0) (A p) (count (rx_held s) p) (Some g)"
      using led Some by simp
    moreover have "count (ring_owners (page_ring s)) p \<le> 1"
      using \<open>count (ring_owners (page_ring s)) p \<le> count W p\<close> \<open>count W p \<le> 1\<close> by linarith
    moreover have "0 < pg_count g"
      using led unfolding Some page_ledger_def option.case by blast
    ultimately show ?thesis
      unfolding page_balanced_def Some option.case page_ledger_def
      by (cases "rx_owned s p") (simp_all only: if_True if_False simp_thms one_neq_zero)
  qed
qed

subsection \<open>Where the buffers lie\<close>

lemma concat_nth:
  assumes "\<And>x. x \<in> set xs \<Longrightarrow> length x = n" and "j < n * length xs"
  shows "concat xs ! j = xs ! (j div n) ! (j mod n) \<and> j div n < length xs"
  using assms
proof (induction xs arbitrary: j)
  case Nil
  then show ?case
    by simp
next
  case (Cons x xs)
  have x: "length x = n"
    using Cons.prems(1) by simp
  show ?case
  proof (cases "j < n")
    case True
    then show ?thesis
      using x by (simp add: nth_append)
  next
    case False
    have n: "0 < n"
      using Cons.prems(2) by (cases n) simp_all
    have "j - n < n * length xs"
      using False Cons.prems(2) by simp
    then have IH: "concat xs ! (j - n) = xs ! ((j - n) div n) ! ((j - n) mod n) \<and> (j - n) div n < length xs"
      using Cons.IH Cons.prems(1) by simp
    moreover have "j div n = Suc ((j - n) div n)" "j mod n = (j - n) mod n"
      using False n by (simp_all add: le_div_geq le_mod_geq)
    ultimately show ?thesis
      using False x by (simp add: nth_append)
  qed
qed

lemma length_concat_grp_bufs: "length (concat (map (grp_bufs c A) gs)) = bpp c * length gs"
  by (induction gs) simp_all

lemma posted_nth:
  assumes "i < length (posted c A k gs)"
  shows "posted c A k gs ! i = grp_buf c A (gs ! ((k + i) div bpp c)) ((k + i) mod bpp c)"
    and "(k + i) div bpp c < length gs" and "0 < bpp c"
proof -
  have lt: "k + i < bpp c * length gs"
    using assms by (simp add: posted_def length_concat_grp_bufs)
  show n: "0 < bpp c"
    using lt by (cases "bpp c") simp_all
  have c: "concat (map (grp_bufs c A) gs) ! (k + i) = map (grp_bufs c A) gs ! ((k + i) div bpp c) ! ((k + i) mod bpp c) \<and>
      (k + i) div bpp c < length (map (grp_bufs c A) gs)"
    by (rule concat_nth) (use lt in auto)
  then show "(k + i) div bpp c < length gs"
    by simp
  then show "posted c A k gs ! i = grp_buf c A (gs ! ((k + i) div bpp c)) ((k + i) mod bpp c)"
    using c lt n by (simp add: posted_def grp_bufs_def length_concat_grp_bufs)
qed

text \<open>A buffer lies in a mapped page, behind the page's state and the head room, at the address the page
  is mapped at; two buffers share no byte.\<close>

definition buf_in_page :: "rx_nic \<Rightarrow> rx_channel \<Rightarrow> efx_rx_buffer \<Rightarrow> bool" where
  "buf_in_page c s b \<longleftrightarrow>
     (case rb_page b of
        None \<Rightarrow> False
      | Some p \<Rightarrow>
          (case host_pages s p of
             None \<Rightarrow> False
           | Some g \<Rightarrow>
               pg_mapped g = Some (pg_dma_addr g) \<and>
               rb_dma_addr b = pg_dma_addr g + of_nat (unat (rb_page_offset b)) \<and>
               320 \<le> unat (rb_page_offset b) \<and> unat (rb_len b) = unat (rx_dma_len c) \<and>
               unat (rb_page_offset b) + unat (rb_len b) \<le> block_size c))"

definition bufs_apart :: "efx_rx_buffer \<Rightarrow> efx_rx_buffer \<Rightarrow> bool" where
  "bufs_apart a b \<longleftrightarrow>
     rb_page a \<noteq> rb_page b \<or> unat (rb_page_offset a) + unat (rb_len a) \<le> unat (rb_page_offset b) \<or>
     unat (rb_page_offset b) + unat (rb_len b) \<le> unat (rb_page_offset a)"

lemma grp_bufs_apart:
  assumes "nic_ok c" and "i < j" and "j < bpp c"
  shows "bufs_apart (grp_buf c A g i) (grp_buf c A g' j)" and "bufs_apart (grp_buf c A g j) (grp_buf c A g' i)"
proof -
  have "(i + 1) * unat (rx_page_buf_step c) \<le> j * unat (rx_page_buf_step c)"
    using assms(2) by (intro mult_le_mono1) simp
  then show "bufs_apart (grp_buf c A g i) (grp_buf c A g' j)" and "bufs_apart (grp_buf c A g j) (grp_buf c A g' i)"
    using grp_buf_place [OF assms(1), of i] grp_buf_place [OF assms(1), of j] assms(2,3) by (simp_all add: bufs_apart_def)
qed

lemma good_buffer:
  assumes "nic_ok c" and "rx_good c A gs k s" and "i < fill_of (removed_count s) s"
  shows "buf_in_page c s (posted_view (removed_count s) s ! i)"
    and "rxd s ! ring_slot (rxq_ptr_mask s) (removed_count s) i = rb_dma_addr (posted_view (removed_count s) s ! i)"
    and "j < fill_of (removed_count s) s \<Longrightarrow> i \<noteq> j \<Longrightarrow>
      bufs_apart (posted_view (removed_count s) s ! i) (posted_view (removed_count s) s ! j)"
proof -
  note good = rx_goodD [OF assms(2)]
  note inv = rx_invD [OF good(1)]
  define h where "h = removed_count s"
  define n where "n = bpp c"
  have view: "posted_view h s = posted c A k gs"
    using posted_view_posted [OF good(1)] by (simp add: h_def)
  have len: "length (posted c A k gs) = fill_of h s"
    by (simp flip: view)
  have dist: "distinct (map grp_page gs)"
    using inv(3) by (simp add: recycle_ok_def)
  have at: "posted_view h s ! l = grp_buf c A (gs ! ((k + l) div n)) ((k + l) mod n) \<and> (k + l) div n < length gs \<and> (k + l) mod n < bpp c"
    if "l < fill_of h s" for l
    using posted_nth [of l c A k gs] that by (simp add: view len n_def)
  define g where "g = gs ! ((k + i) div n)"
  define m where "m = (k + i) mod n"
  have b: "posted_view h s ! i = grp_buf c A g m" and m: "m < bpp c" and "g \<in> set gs"
    using at [of i] assms(3) by (simp_all add: g_def m_def h_def)
  then have "grp_page g \<in># ring_owners (page_ring s) + group_owners gs"
    using group_owned [OF inv(3)] by simp
  then obtain pg where pg: "host_pages s (grp_page g) = Some pg" "pg_mapped pg = Some (A (grp_page g))" "pg_dma_addr pg = A (grp_page g)"
    using ledger_mapped [OF inv(4)] by metis
  note place = grp_buf_place [OF assms(1) m]
  have "(m + 1) * unat (rx_page_buf_step c) \<le> block_size c"
    using unat_grp_off(2) [OF assms(1) m] .
  then show "buf_in_page c s (posted_view (removed_count s) s ! i)"
    using pg place unfolding h_def [symmetric] b by (simp add: buf_in_page_def)
  have n: "unat (added_count s - h) = fill_of h s"
    by (simp add: fill_of_def)
  have "ring_view (rxd s) (rxq_ptr_mask s) h (added_count s) ! i = map rb_dma_addr (posted_view h s) ! i"
    using good(2) by (simp add: descs_ok_def h_def fill_of_def)
  then show "rxd s ! ring_slot (rxq_ptr_mask s) (removed_count s) i = rb_dma_addr (posted_view (removed_count s) s ! i)"
    using assms(3) n by (simp add: ring_view_nth h_def)
  assume j: "j < fill_of (removed_count s) s" "i \<noteq> j"
  define g' where "g' = gs ! ((k + j) div n)"
  define m' where "m' = (k + j) mod n"
  have b': "posted_view h s ! j = grp_buf c A g' m'" and m': "m' < bpp c"
    using at [of j] j by (simp_all add: g'_def m'_def h_def)
  show "bufs_apart (posted_view (removed_count s) s ! i) (posted_view (removed_count s) s ! j)"
  proof (cases "(k + i) div n = (k + j) div n")
    case True
    have "m \<noteq> m'"
    proof
      assume "m = m'"
      then have "k + i = k + j"
        using True unfolding m_def m'_def by (metis div_mult_mod_eq)
      then show False
        using j(2) by simp
    qed
    then consider "m < m'" | "m' < m"
      by linarith
    then show ?thesis
      using grp_bufs_apart [OF assms(1)] m m' unfolding h_def [symmetric] b b' by cases simp_all
  next
    case False
    have "(k + i) div n < length gs" "(k + j) div n < length gs"
      using at [of i] at [of j] assms(3) j(1) by (simp_all add: h_def)
    then have "grp_page g \<noteq> grp_page g'"
      using nth_eq_iff_index_eq [OF dist, of "(k + i) div n" "(k + j) div n"] False by (simp add: g_def g'_def)
    then show ?thesis
      unfolding h_def [symmetric] b b' bufs_apart_def by simp
  qed
qed

end
