(* ===== verification/Rx_Props.thy ===== *)
theory Rx_Props
  imports Rx_Facts
begin

section \<open>Properties of the receive path\<close>

text \<open>
  The properties of rx_common.c, ef100_rx.c and the receive part of the channel's poll, over the
  queues that receive events, polls and the kernel's use of the pages reach (\<open>rx_reach\<close>), each with
  its instance on the small queue.
\<close>

text \<open>C13. For every MTU up to 9216 bytes, except 3651 to 3714, \<open>efx_start_datapath\<close> sizes the receive
  buffers of an EF100 such that a buffer holds the longest frame with its prefix, head room and the
  page's state, the buffers of a page lie within it one after the other, and offsets fit 16 bits.\<close>

theorem rx_sizes_fit:
  assumes "ef100_rx_nic c" and "mtu \<le> 9216" and "\<not> (3651 \<le> mtu \<and> mtu \<le> 3714)"
  shows "\<exists>c'. efx_start_datapath_rx mtu c = Some c' \<and> nic_ok c' \<and>
     unat (rx_dma_len c') = 22 + unat (EFX_MAX_FRAME_LEN mtu) \<and> 1 \<le> bpp c' \<and> bpp c' \<le> 12 \<and>
     320 + unat (rx_dma_len c') \<le> unat (rx_page_buf_step c') \<and> bpp c' * unat (rx_page_buf_step c') \<le> block_size c'"
proof -
  obtain c' where c': "efx_start_datapath_rx mtu c = Some c'" "nic_ok c'" "unat (rx_dma_len c') = 22 + frame_of mtu" "bpp c' \<le> 12"
    by (rule start_datapath_ok [OF assms])
  show ?thesis
    using c' nic_okD(1,6,7) [OF c'(2)] frame_len [OF assms(2)]
    by (intro exI [of _ c']) (simp add: frame_of_def Suc_le_eq)
qed

lemma rx_sizes_fit_witness:
  "\<exists>c'. efx_start_datapath_rx 9000 rx_demo_nic = Some c' \<and> nic_ok c' \<and> unat (rx_dma_len c') = 22 + unat (EFX_MAX_FRAME_LEN 9000)"
proof -
  have "ef100_rx_nic rx_demo_nic"
    by (simp add: ef100_rx_nic_def rx_demo_nic_def)
  then show ?thesis
    using rx_sizes_fit [of rx_demo_nic 9000] by auto
qed

text \<open>C36. In every state a receive queue reaches, the reference count of every page is that of its
  holders (the queue, its posted buffers, the packet held back, socket buffers of the kernel, and
  buffers dropped without a release), a page is mapped exactly while the queue owns it, no freed page
  is referred to; and a receive event for buffers that the queue posted, the end of a poll and the
  release of a page by the kernel return: they access no freed page and no index out of range.\<close>

theorem rx_pages_safe:
  assumes "rx_reach c s"
  shows "page_balanced s p \<and>
    (event_packets event \<le> fill_of (removed_count s) s \<longrightarrow> efx_ef100_ev_rx env c event s \<noteq> None) \<and>
    rx_end_of_poll env c spent s \<noteq> None \<and> (skb_holds p s \<longrightarrow> kernel_put p s \<noteq> None)"
proof -
  obtain A gs k where good: "rx_good c A gs k s" and nic: "nic_ok c"
    using rx_reach_good [OF assms] by auto
  have "efx_ef100_ev_rx env c event s \<noteq> None" if "event_packets event \<le> fill_of (removed_count s) s"
    using ev_rx_ok [OF nic good that, of env] by auto
  moreover have "rx_end_of_poll env c spent s \<noteq> None"
    using end_of_poll_ok [OF nic good, of env spent] by auto
  moreover have "kernel_put p s \<noteq> None" if "skb_holds p s"
    using kernel_put_ok [OF rx_invD(4) [OF rx_goodD(1) [OF good]] that] by auto
  ultimately show ?thesis
    using good_balanced [OF good] by blast
qed

lemma rx_pages_safe_witness:
  "page_balanced rx_demo_event 0 \<and> rx_end_of_poll rx_demo_env rx_demo_nic 1 rx_demo_event \<noteq> None \<and>
   efx_ef100_ev_rx rx_demo_env rx_demo_nic 2 rx_demo \<noteq> None"
  using rx_pages_safe [OF rx_demo_event_reach, of 0 0 rx_demo_env 1] rx_pages_safe [OF rx_demo_reach, of 0 2 rx_demo_env 1]
    rx_demo_fill rx_demo_packets by simp

text \<open>C37. Every buffer that the controller may write to lies in a page that is mapped and that the queue
  owns, behind the page's state and head room and within the block of pages; the hardware ring holds
  its address; and no two buffers overlap.\<close>

theorem rx_buffers_placed:
  assumes "rx_reach c s" and "i < fill_of (removed_count s) s"
  shows "buf_in_page c s (posted_view (removed_count s) s ! i) \<and>
    rxd s ! ring_slot (rxq_ptr_mask s) (removed_count s) i = rb_dma_addr (posted_view (removed_count s) s ! i) \<and>
    (\<forall>j<fill_of (removed_count s) s. i \<noteq> j \<longrightarrow>
       bufs_apart (posted_view (removed_count s) s ! i) (posted_view (removed_count s) s ! j))"
proof -
  obtain A gs k where "rx_good c A gs k s" and "nic_ok c"
    using rx_reach_good [OF assms(1)] by auto
  then show ?thesis
    using good_buffer [where c = c and s = s and i = i and gs = gs and A = A and k = k] assms(2) by blast
qed

lemma rx_buffers_placed_witness:
  "buf_in_page rx_demo_nic rx_demo (posted_view (removed_count rx_demo) rx_demo ! 0) \<and>
   bufs_apart (posted_view (removed_count rx_demo) rx_demo ! 0) (posted_view (removed_count rx_demo) rx_demo ! 1)"
  using rx_buffers_placed [OF rx_demo_reach, of 0] rx_demo_fill by simp

text \<open>C38. A poll accounts for every packet that its event reports, once and in the order of the ring:
  the log grows by one outcome for each, delivered, given to a representor or dropped, which names the
  page of the packet's buffer, and for a socket buffer the place where the frame starts. Nothing is held
  back, and the counters advance by the number of packets. A ring that the event leaves at its trigger or
  above is not refilled. One below it is filled until another batch would not fit under its fill limit,
  or a page could not be had during this refill, and then the slow fill is scheduled. (With 16 entries the
  trigger is 0, and the first of these cases is the only one.)\<close>

theorem rx_poll_in_order:
  assumes "rx_reach c s" and "rx_pkt_n_frags s = 0" and "event_packets event \<le> fill_of (removed_count s) s" and "spent \<noteq> 0"
  shows "\<exists>t s' outs. efx_ef100_ev_rx env c event s = Some t \<and> rx_end_of_poll env c spent t = Some s' \<and>
    rx_log s' = rev outs @ rx_log s \<and> list_all2 from_place (next_places c (event_packets event) s) outs \<and>
    rx_pkt_n_frags s' = 0 \<and> rx_packets s' = of_nat (length (rx_log s')) \<and> notified_count s' = added_count s' \<and>
    fill_of (removed_count s) s = event_packets event + fill_of (removed_count t) t \<and>
    refilled env c t s' \<and> fill_of (removed_count s') s' \<le> unat (max_fill s')"
proof -
  obtain A gs k where good: "rx_good c A gs k s" and nic: "nic_ok c" and refill: "refill_enabled s"
    using rx_reach_good [OF assms(1)] by auto
  obtain gs1 k1 t where t: "efx_ef100_ev_rx env c event s = Some t" "rx_good c A gs1 k1 t"
      "fill_of (removed_count s) s = event_packets event + fill_of (removed_count t) t"
      "refill_enabled t" "delivers (next_places c (event_packets event) s) s t"
    using ev_rx_ok [OF nic good assms(3), of env] refill by metis
  from end_of_poll_ok [OF nic t(2), of env spent] obtain A' gs' s' where s': "rx_end_of_poll env c spent t = Some s'"
      "rx_good c A' gs' k1 s'" "rx_pkt_n_frags s' = 0" "refilled env c t s'" "delivers [] t s'"
    using assms(4) t(4) by metis
  have places: "pipe_places s = []" "pipe_of s' = []" "pipe_places s' = []"
    using assms(2) s'(3) by (simp_all add: pipe_places_def pipe_of_def)
  have "delivers (next_places c (event_packets event) s) s s'"
    using delivers_trans [OF t(5) s'(5)] by simp
  then obtain outs where "rx_log s' = rev outs @ rx_log s" "list_all2 from_place (next_places c (event_packets event) s) outs"
    by (auto simp: delivers_def places)
  moreover have "rx_packets s' = of_nat (length (rx_log s'))" "notified_count s' = added_count s'"
    using rx_goodD(3,6) [OF s'(2)] by (simp_all add: places)
  moreover have "fill_of (removed_count s') s' \<le> unat (max_fill s')"
    using rx_goodD(5) [OF s'(2)] by (simp add: limits_ok_def)
  ultimately show ?thesis
    using t(1,3) s'(1,3,4) by blast
qed

lemma rx_demo_no_frags: "rx_pkt_n_frags rx_demo = 0"
  using open_ok [OF rx_demo_conf rx_demo_is_blank, of rx_demo_env] rx_demo_open by (metis option.inject prod.inject)

lemma rx_poll_in_order_witness:
  "\<exists>s' outs. rx_end_of_poll rx_demo_env rx_demo_nic 1 rx_demo_event = Some s' \<and> rx_log s' = rev outs @ rx_log rx_demo \<and>
     list_all2 from_place (next_places rx_demo_nic 2 rx_demo) outs"
  using rx_poll_in_order [OF rx_demo_reach rx_demo_no_frags, of 2 1 rx_demo_env] rx_demo_fill rx_demo_packets rx_demo_event_run
  by auto

lemma page_ledger_left:
  assumes "page_ledger (count W p) a (count R p) pg" and "set_mset W \<subseteq> U"
  shows "case pg of
       None \<Rightarrow> p \<notin># R
     | Some g \<Rightarrow> 0 < pg_count g \<and> (p \<notin> U \<longrightarrow> pg_mapped g = None) \<and>
         pg_count g = count R p + pg_skb_refs g + (if pg_mapped g = None then 0 else 1)"
proof (cases pg)
  case None
  then show ?thesis
    using assms(1) by (simp add: page_ledger_def not_in_iff)
next
  case (Some g)
  have "count W p = 0" if "p \<notin> U"
    using assms(2) that by (meson not_in_iff subsetD)
  then show ?thesis
    using assms(1) unfolding Some page_ledger_def option.case
    by (cases "count W p") (auto simp: count_eq_zero_iff [symmetric] simp del: count_eq_zero_iff)
qed

text \<open>C39. Taking a queue down while no packet is held back, as every completed poll leaves it, succeeds,
  and accounts for every page: the references left are those of socket buffers, of the packets that were
  dropped without a release and of the buffers the loop did not reach. While the counters have not wrapped
  there are none of the last kind, so that no page stays mapped. Once \<open>added_count\<close> has wrapped and
  \<open>removed_count\<close> has not, they are all the posted buffers: each keeps its reference, and only their
  pages may stay mapped, with one more reference.\<close>

theorem rx_fini_releases:
  assumes "rx_reach c s" and "rx_pkt_n_frags s = 0"
  shows "\<exists>s'. efx_fini_rx_queue c s = Some s' \<and> page_ring s' = None \<and> rx_log s' = rx_log s \<and>
    unreleased s = (if removed_count s \<le> added_count s then {#} else mset (map buf_page (posted_view (removed_count s) s))) \<and>
    (\<forall>p. case host_pages s' p of
       None \<Rightarrow> p \<notin># lost_refs (rx_log s) + unreleased s
     | Some g \<Rightarrow> 0 < pg_count g \<and> (p \<notin># unreleased s \<longrightarrow> pg_mapped g = None) \<and>
         pg_count g = count (lost_refs (rx_log s) + unreleased s) p + pg_skb_refs g + (if pg_mapped g = None then 0 else 1))"
proof -
  obtain A gs k where "rx_good c A gs k s"
    using rx_reach_good [OF assms(1)] by auto
  then obtain W s' where s': "efx_fini_rx_queue c s = Some s'" "page_ring s' = None" "rx_log s' = rx_log s"
    and led: "ledger W A (lost_refs (rx_log s) + unreleased s) (host_pages s') (host_tries s')"
    and W: "set_mset W \<subseteq> set_mset (unreleased s)"
    using fini_queue_ok [OF _ assms(2)] by metis
  have "case host_pages s' p of
       None \<Rightarrow> p \<notin># lost_refs (rx_log s) + unreleased s
     | Some g \<Rightarrow> 0 < pg_count g \<and> (p \<notin># unreleased s \<longrightarrow> pg_mapped g = None) \<and>
         pg_count g = count (lost_refs (rx_log s) + unreleased s) p + pg_skb_refs g + (if pg_mapped g = None then 0 else 1)" for p
    by (rule page_ledger_left [OF ledger_page [OF led] W])
  then show ?thesis
    using s' unreleased_def by blast
qed

lemma rx_fini_releases_witness:
  "\<exists>s'. efx_fini_rx_queue rx_demo_nic rx_demo = Some s' \<and> page_ring s' = None"
  using rx_fini_releases [OF rx_demo_reach rx_demo_no_frags] by blast

end
