(* ===== verification/Rx_Findings.thy ===== *)
theory Rx_Findings
  imports Rx_Facts
begin

section \<open>Inputs that the receive path does not handle\<close>

text \<open>
  Runs outside the assumptions of \<open>rx_reach\<close>, or within them with a result the code does not mean:
  each lemma is a behaviour of the definitions for the code as it is written. The MTUs for which
  the sizes divide by zero are in \<open>Rx_Sizes\<close> (\<open>start_datapath_divides_by_zero\<close>).
\<close>

text \<open>The EF100 types have no \<open>rx_defer_refill\<close>; the slow fill work item that a failed allocation schedules
  calls it.\<close>

lemma slow_fill_calls_null: "efx_rx_slow_fill ef100_rx_defer_refill s = None"
  by (simp add: efx_rx_slow_fill_def ef100_rx_defer_refill_def)

text \<open>\<open>ef100_rx_buf_hash_valid\<close> gives the macro a pointer to bytes, so that a byte is shifted by 14: the
  RSS hash is never valid.\<close>

lemma hash_never_valid: "\<not> ef100_rx_buf_hash_valid prefix"
proof -
  define y :: u32 where "y = ucast (prefix 0)"
  have "unat (prefix 0) < 2 ^ 8"
    by (rule order_less_le_trans [OF unsigned_less]) simp
  then have "unat y < 2 ^ 14"
    by (simp add: y_def unsigned_ucast_eq take_bit_nat_def)
  then have "unat (y div 2 ^ 14) = 0"
    by (simp add: unat_div)
  then have "drop_bit 14 y = 0"
    by (simp only: unat_eq_0 drop_bit_eq_div)
  then show ?thesis
    by (simp add: ef100_rx_buf_hash_valid_def PREFIX_FIELD_def y_def)
qed

text \<open>A frame with a checksum error, or too short, is dropped without releasing its buffer: the pages stay as
  they are and the packet is forgotten.\<close>

lemma bad_frame_leaks:
  assumes "b = rxq_buffer s ! rx_pkt_index s" and "rx_pkt_index s < length (rxq_buffer s)" and "rb_page b = Some p"
    and "host_pages s p = Some g" and "22 \<le> unat (rb_page_offset b)" and "w = prefix_words env p (unat (rb_page_offset b))"
    and "fst (check_fcs w s) \<and> \<not> feat_rxall env \<or> (ucast (PREFIX_FIELD w ESF_GZ_RX_PREFIX_LENGTH) :: u16) \<le> ETH_HLEN"
  shows "\<exists>s'. ef100_deliver_packet env c s = Some s' \<and> host_pages s' = host_pages s \<and> rx_pkt_n_frags s' = 0"
proof -
  obtain bad t where fcs: "check_fcs w s = (bad, t)"
    by (cases "check_fcs w s")
  then have t: "host_pages t = host_pages s" "rxq_buffer t = rxq_buffer s"
    using fcs_frame [where s = s and w = w] by simp_all
  have at: "efx_rx_buffer_at s (rx_pkt_index s) = Some b"
    using assms(1,2) by (simp add: efx_rx_buffer_at_def)
  have set: "set_rx_buffer (rx_pkt_index s) x t = Some (t\<lparr>rxq_buffer := (rxq_buffer t)[rx_pkt_index s := x]\<rparr>)" for x
    using assms(2) t(2) by (simp add: set_rx_buffer_def)
  show ?thesis
    using assms(3-5,7) at set fcs t(1)
    by (simp add: ef100_deliver_packet_def assms(6) [symmetric] Let_def log_rx_def) auto
qed

text \<open>The result of \<open>kcalloc\<close> for the recycle ring is not tested: the last buffer of a page is then recycled
  through a null pointer.\<close>

lemma recycle_ring_null:
  assumes "page_ring s = None" and "rx_recycle_ring_size c \<noteq> 0" and "page_add s \<noteq> rx_recycle_ring_size c"
    and "i < length (rxq_buffer s)" and "rb_flags (rxq_buffer s ! i) = EFX_RX_BUF_LAST_IN_PAGE"
  shows "efx_recycle_rx_page c i s = None"
  using assms by (simp add: efx_recycle_rx_page_def efx_rx_buffer_at_def)

lemma recycle_ring_not_tested:
  assumes "rx_recycle_ring_size c \<noteq> 0" and "rx_bufs_per_page c \<noteq> 0"
  shows "\<exists>s'. efx_init_rx_recycle_ring c False s = Some s' \<and> page_ring s' = None"
  using assms by (simp add: efx_init_rx_recycle_ring_def Let_def)

text \<open>Once \<open>added_count\<close> has wrapped and \<open>removed_count\<close> has not, the loop of \<open>efx_fini_rx_queue\<close> ends at once:
  no posted buffer is released.\<close>

lemma fini_after_wrap:
  assumes "added_count s < removed_count s"
  shows "fini_buffers (removed_count s) (added_count s) s = Some s"
  by (rule fini_buffers_wrapped [OF assms])

text \<open>With the least number of entries that ethtool accepts, 16, and a batch of 8, the trigger is 0 and the
  ring is never filled.\<close>

lemma sixteen_entries_never_fill:
  assumes "rxq_entries c = 16" and "rx_recycle_ring_size c = 0" and "rx_pages_per_batch c * rx_bufs_per_page c = 8"
  shows "\<exists>s'. efx_start_rx_queue env c ok 0 0 s = Some (0, s') \<and> added_count s' = 0 \<and> removed_count s' = 0"
  using assms by (simp add: efx_start_rx_queue_def efx_init_rx_queue_def efx_init_rx_recycle_ring_def head_room Let_def
      efx_fast_push_rx_descriptors_def)

end
