(* ===== verification/Evq.thy ===== *)
theory Evq
  imports Oword Ring "HOL-Library.Monad_Syntax"
begin

section \<open>Event queues (ef100_nic.c, efx_channels.c, mcdi_functions.c, nic.h)\<close>

text \<open>
  A channel's event queue is a ring that the controller writes and the driver reads. Each event has a
  phase bit that the controller inverts every time round, so the driver knows an event that it has
  not seen yet by its phase; \<open>evq_phase\<close> is the channel's bit of \<open>nic_data->evq_phases\<close>. The
  functions that events are handed to act on a state of their own type and are an argument.
  Results are \<open>None\<close> where the queue is read out of its memory, a handler fails, or a loop does not
  end.
\<close>

abbreviation ESF_GZ_E_TYPE :: efx_field where "ESF_GZ_E_TYPE \<equiv> (60, 4)"
abbreviation ESF_GZ_EV_RXPKTS_PHASE :: efx_field where "ESF_GZ_EV_RXPKTS_PHASE \<equiv> (59, 1)"
abbreviation ERF_GZ_EVQ_ID :: efx_field where "ERF_GZ_EVQ_ID \<equiv> (0, 16)"
abbreviation ERF_GZ_IDX :: efx_field where "ERF_GZ_IDX \<equiv> (16, 16)"
abbreviation (input) ESE_GZ_EF100_EV_RX_PKTS :: u64 where "ESE_GZ_EF100_EV_RX_PKTS \<equiv> 0"
abbreviation (input) ESE_GZ_EF100_EV_TX_COMPLETION :: u64 where "ESE_GZ_EF100_EV_TX_COMPLETION \<equiv> 1"
abbreviation (input) ESE_GZ_EF100_EV_MCDI :: u64 where "ESE_GZ_EF100_EV_MCDI \<equiv> 4"

record ev_queue =
  evq_buf :: "u64 list"
  eventq_mask :: u32
  eventq_read_ptr :: u32
  evq_phase :: bool
  evq_channel :: u32
  evq_enabled :: bool
  eventq_init :: bool
  evq_primes :: "u32 list"

definition efx_event :: "ev_queue \<Rightarrow> u32 \<Rightarrow> u64 option" where
  "efx_event q index =
     (let i = unat (index AND eventq_mask q) in if i < length (evq_buf q) then Some (evq_buf q ! i) else None)"

definition ev_phase :: "u64 \<Rightarrow> bool" where
  "ev_phase e = (EFX_QWORD_FIELD e ESF_GZ_EV_RXPKTS_PHASE \<noteq> 0)"

definition ev_type :: "u64 \<Rightarrow> u64" where
  "ev_type e = EFX_QWORD_FIELD e ESF_GZ_E_TYPE"

subsection \<open>Set-up\<close>

text \<open>One entry more than the ring has, for the status completion.\<close>

definition ef100_ev_probe :: "bool \<Rightarrow> ev_queue \<Rightarrow> int \<times> ev_queue" where
  "ef100_ev_probe ok q =
     (if ok then (0, q\<lparr>evq_buf := replicate (unat (eventq_mask q + 2)) 0\<rparr>) else (- ENOMEM, q))"

text \<open>The firmware's answer to \<open>MC_CMD_INIT_EVQ\<close> is \<open>rc\<close>; the memory of the ring is set to ones before.\<close>

definition efx_mcdi_ev_init :: "bool \<Rightarrow> int \<Rightarrow> ev_queue \<Rightarrow> int \<times> ev_queue" where
  "efx_mcdi_ev_init ok rc q =
     (if \<not> ok then (- ENOMEM, q) else (rc, q\<lparr>evq_buf := replicate (length (evq_buf q)) (- 1)\<rparr>))"

definition ef100_ev_init :: "bool \<Rightarrow> int \<Rightarrow> ev_queue \<Rightarrow> int \<times> ev_queue" where
  "ef100_ev_init ok rc q = efx_mcdi_ev_init ok rc (q\<lparr>evq_phase := False\<rparr>)"

definition efx_init_eventq :: "bool \<Rightarrow> int \<Rightarrow> ev_queue \<Rightarrow> int \<times> ev_queue" where
  "efx_init_eventq ok rc q =
     (let (r, q') = ef100_ev_init ok rc q in
      if r = 0 then (0, q'\<lparr>eventq_read_ptr := 0, eventq_init := True\<rparr>) else (r, q'))"

definition ef100_ev_read_ack :: "ev_queue \<Rightarrow> ev_queue" where
  "ef100_ev_read_ack q =
     q\<lparr>evq_primes := EFX_POPULATE_DWORD [(ERF_GZ_EVQ_ID, evq_channel q), (ERF_GZ_IDX, eventq_read_ptr q AND eventq_mask q)]
                      # evq_primes q\<rparr>"

definition efx_start_eventq :: "ev_queue \<Rightarrow> ev_queue" where
  "efx_start_eventq q = ef100_ev_read_ack (q\<lparr>evq_enabled := True\<rparr>)"

definition efx_stop_eventq :: "ev_queue \<Rightarrow> ev_queue" where
  "efx_stop_eventq q = (if \<not> evq_enabled q then q else q\<lparr>evq_enabled := False\<rparr>)"

definition efx_fini_eventq :: "bool \<Rightarrow> ev_queue \<Rightarrow> ev_queue" where
  "efx_fini_eventq hw_unavailable q =
     (if \<not> eventq_init q \<or> hw_unavailable then q else q\<lparr>eventq_init := False\<rparr>)"

subsection \<open>Handling events\<close>

text \<open>Receive and transmit completion handlers, \<open>efx_mcdi_process_event\<close> with whether the event was
  handled, and \<open>efx_mcdi_port_process_event_common\<close> with whether and what it adds to the work done.\<close>

record 'a ev_handlers =
  handle_rx :: "u64 \<Rightarrow> 'a \<Rightarrow> 'a option"
  handle_tx :: "u64 \<Rightarrow> 'a \<Rightarrow> 'a option"
  handle_mcdi :: "u64 \<Rightarrow> 'a \<Rightarrow> (bool \<times> 'a) option"
  handle_port :: "u64 \<Rightarrow> int \<Rightarrow> 'a \<Rightarrow> (bool \<times> int \<times> 'a) option"

definition ef100_ev_mcdi :: "'a ev_handlers \<Rightarrow> u64 \<Rightarrow> int \<Rightarrow> 'a \<Rightarrow> (int \<times> 'a) option" where
  "ef100_ev_mcdi H e quota s =
     do {
       (handled, s) \<leftarrow> handle_mcdi H e s;
       (rc, s) \<leftarrow> (if handled then Some (0, s)
                   else do { (_, rc, s) \<leftarrow> handle_port H e quota s; Some (rc, s) });
       Some (if 0 < rc then rc else if rc < 0 then 1 else 0, s)
     }"

text \<open>The switch of \<open>ef100_ev_process\<close>, with the work it adds; other events are only logged.\<close>

definition ef100_ev_dispatch :: "'a ev_handlers \<Rightarrow> int \<Rightarrow> u64 \<Rightarrow> 'a \<Rightarrow> (int \<times> 'a) option" where
  "ef100_ev_dispatch H quota e s =
     (if ev_type e = ESE_GZ_EF100_EV_RX_PKTS then map_option (Pair 1) (handle_rx H e s)
      else if ev_type e = ESE_GZ_EF100_EV_MCDI then ef100_ev_mcdi H e quota s
      else if ev_type e = ESE_GZ_EF100_EV_TX_COMPLETION then map_option (Pair 0) (handle_tx H e s)
      else Some (0, s))"

definition evq_advance :: "ev_queue \<Rightarrow> ev_queue" where
  "evq_advance q =
     (let p = eventq_read_ptr q + 1 in
      q\<lparr>eventq_read_ptr := p, evq_phase := (if p AND eventq_mask q = 0 then \<not> evq_phase q else evq_phase q)\<rparr>)"

text \<open>The loop keeps the pointer and the phase in locals and stores them at the end.\<close>

partial_function (option) ev_loop ::
    "'a ev_handlers \<Rightarrow> int \<Rightarrow> int \<Rightarrow> ev_queue \<Rightarrow> 'a \<Rightarrow> (int \<times> ev_queue \<times> 'a) option" where
  "ev_loop H quota spent q s =
     (if spent < quota
      then Option.bind (efx_event q (eventq_read_ptr q)) (\<lambda>e.
             if ev_phase e \<noteq> evq_phase q then Some (spent, q, s)
             else Option.bind (ef100_ev_dispatch H (quota - spent) e s) (\<lambda>r.
                    ev_loop H quota (spent + fst r) (evq_advance q) (snd r)))
      else Some (spent, q, s))"

declare ev_loop.simps [code]

definition ef100_ev_process :: "'a ev_handlers \<Rightarrow> int \<Rightarrow> ev_queue \<Rightarrow> 'a \<Rightarrow> (int \<times> ev_queue \<times> 'a) option" where
  "ef100_ev_process H quota q s = (if \<not> evq_enabled q then Some (0, q, s) else ev_loop H quota 0 q s)"

text \<open>The search for a pending event of the management controller does not invert the phase at the end of
  the ring.\<close>

partial_function (option) mcdi_pending_loop :: "ev_queue \<Rightarrow> u32 \<Rightarrow> bool option" where
  "mcdi_pending_loop q p =
     Option.bind (efx_event q p) (\<lambda>e.
       if ev_phase e \<noteq> evq_phase q then Some False
       else if ev_type e = ESE_GZ_EF100_EV_MCDI then Some True
       else mcdi_pending_loop q (p + 1))"

declare mcdi_pending_loop.simps [code]

definition ef100_ev_mcdi_pending :: "ev_queue \<Rightarrow> bool option" where
  "ef100_ev_mcdi_pending q = (if \<not> evq_enabled q then Some False else mcdi_pending_loop q (eventq_read_ptr q))"

text \<open>The end of \<open>efx_poll\<close>: interrupts are armed again when the work stayed below the budget and the
  kernel agrees that the poll is complete.\<close>

definition efx_poll_rearm :: "int \<Rightarrow> bool \<Rightarrow> int \<Rightarrow> ev_queue \<Rightarrow> ev_queue" where
  "efx_poll_rearm budget complete spent q = (if spent < budget \<and> complete then ef100_ev_read_ack q else q)"

subsection \<open>The events that the controller has posted\<close>

text \<open>
  \<open>evq_inv h r q\<close>: the controller has posted the events \<open>h\<close>, oldest first, of which the driver has
  handled \<open>r\<close>; at most a ring full is unhandled. Slots that were not written yet hold ones.
\<close>

definition evq_size :: "ev_queue \<Rightarrow> nat" where
  "evq_size q = Suc (unat (eventq_mask q))"

definition evq_inv :: "u64 list \<Rightarrow> nat \<Rightarrow> ev_queue \<Rightarrow> bool" where
  "evq_inv h r q \<longleftrightarrow>
     (\<exists>k\<le>31. eventq_mask q = mask k) \<and> length (evq_buf q) = Suc (evq_size q) \<and>
     r \<le> length h \<and> length h \<le> r + evq_size q \<and>
     eventq_read_ptr q = of_nat r \<and> evq_phase q = odd (r div evq_size q) \<and>
     (\<forall>j<length h. ev_phase (h ! j) = odd (j div evq_size q)) \<and>
     (\<forall>j<length h. length h \<le> j + evq_size q \<longrightarrow> evq_buf q ! (j mod evq_size q) = h ! j) \<and>
     (\<forall>j<evq_size q. length h \<le> j \<longrightarrow> ev_phase (evq_buf q ! j))"

text \<open>The controller posts an event.\<close>

definition nic_post_event :: "nat \<Rightarrow> u64 \<Rightarrow> ev_queue \<Rightarrow> ev_queue" where
  "nic_post_event j e q = q\<lparr>evq_buf := (evq_buf q)[j mod evq_size q := e]\<rparr>"

lemma evq_invD:
  assumes "evq_inv h r q"
  shows "length (evq_buf q) = Suc (evq_size q)" "r \<le> length h" "length h \<le> r + evq_size q"
    "eventq_read_ptr q = of_nat r" "evq_phase q = odd (r div evq_size q)"
    "\<And>j. j < length h \<Longrightarrow> ev_phase (h ! j) = odd (j div evq_size q)"
    "\<And>j. j < length h \<Longrightarrow> length h \<le> j + evq_size q \<Longrightarrow> evq_buf q ! (j mod evq_size q) = h ! j"
    "\<And>j. j < evq_size q \<Longrightarrow> length h \<le> j \<Longrightarrow> ev_phase (evq_buf q ! j)"
  using assms by (simp_all add: evq_inv_def)

lemma evq_index:
  assumes "evq_inv h r q"
  shows "unat (of_nat n AND eventq_mask q) = n mod evq_size q"
proof -
  obtain k where k: "k \<le> 31" "eventq_mask q = mask k"
    using assms by (auto simp: evq_inv_def)
  then have "evq_size q = 2 ^ k"
    using unat_mask_Suc by (simp add: evq_size_def)
  moreover have "unat ((0 + of_nat n :: u32) AND mask k) = (unat (0 :: u32) + n) mod 2 ^ k"
    by (rule unat_add_nat_mod) (use k in simp)
  ultimately show ?thesis
    by (simp add: k(2))
qed

lemma evq_event:
  assumes "evq_inv h r q"
  shows "efx_event q (of_nat n) = Some (evq_buf q ! (n mod evq_size q))"
proof -
  have "n mod evq_size q < length (evq_buf q)"
    using evq_invD(1) [OF assms] by (simp add: evq_size_def less_SucI)
  then show ?thesis
    by (simp add: efx_event_def evq_index [OF assms])
qed

lemma evq_next:
  assumes "evq_inv h r q" and "r < length h"
  shows "efx_event q (eventq_read_ptr q) = Some (h ! r)" and "ev_phase (h ! r) = evq_phase q"
  using evq_event [OF assms(1), of r] evq_invD [OF assms(1)] assms(2) by simp_all

lemma evq_end:
  assumes "evq_inv h (length h) q"
  obtains e where "efx_event q (eventq_read_ptr q) = Some e" and "ev_phase e \<noteq> evq_phase q"
proof -
  define n where "n = length h"
  have size: "0 < evq_size q"
    by (simp add: evq_size_def)
  note inv = evq_invD [OF assms, folded n_def]
  have "ev_phase (evq_buf q ! (n mod evq_size q)) \<noteq> odd (n div evq_size q)"
  proof (cases "n < evq_size q")
    case True
    then show ?thesis
      using inv(8) [of n] by simp
  next
    case False
    define j where "j = n - evq_size q"
    have j: "j < n" "n \<le> j + evq_size q" "n mod evq_size q = j mod evq_size q" "n div evq_size q = Suc (j div evq_size q)"
      using False size by (simp_all add: j_def le_mod_geq le_div_geq)
    then have "ev_phase (evq_buf q ! (n mod evq_size q)) = odd (j div evq_size q)"
      using inv(6,7) [of j] by simp
    then show ?thesis
      using j(4) by simp
  qed
  then show ?thesis
    using that evq_event [OF assms, of n] inv(4,5) by simp
qed

lemma advance_inv:
  assumes "evq_inv h r q" and "r < length h"
  shows "evq_inv h (Suc r) (evq_advance q)"
proof -
  note inv = evq_invD [OF assms(1)]
  have size: "evq_size (evq_advance q) = evq_size q"
    by (simp add: evq_advance_def evq_size_def Let_def)
  have "(of_nat (Suc r) AND eventq_mask q = 0) = (unat (of_nat (Suc r) AND eventq_mask q) = 0)"
    by (simp only: unat_eq_0)
  then have wrap: "(of_nat (Suc r) AND eventq_mask q = 0) = (Suc r mod evq_size q = 0)"
    by (simp only: evq_index [OF assms(1)])
  have "Suc r div evq_size q = (if Suc r mod evq_size q = 0 then Suc (r div evq_size q) else r div evq_size q)"
    by (rule div_Suc)
  then have phase: "(if of_nat (Suc r) AND eventq_mask q = 0 then \<not> evq_phase q else evq_phase q) = odd (Suc r div evq_size q)"
    using inv(5) unfolding wrap by simp
  have "eventq_read_ptr q + 1 = of_nat (Suc r)"
    using inv(4) by (simp add: algebra_simps)
  then have "evq_advance q = q\<lparr>eventq_read_ptr := of_nat (Suc r), evq_phase := odd (Suc r div evq_size q)\<rparr>"
    using phase by (simp only: evq_advance_def Let_def)
  then show ?thesis
    using assms by (simp add: evq_inv_def evq_size_def)
qed


subsection \<open>A poll handles the pending events in order\<close>

text \<open>
  What \<open>ef100_ev_process\<close> is to do: the pending events one after the other, until the work
  reaches the quota; the number of events handled is part of the result.
\<close>

fun run_events :: "'a ev_handlers \<Rightarrow> int \<Rightarrow> int \<Rightarrow> u64 list \<Rightarrow> 'a \<Rightarrow> (int \<times> nat \<times> 'a) option" where
  "run_events H quota spent [] s = Some (spent, 0, s)"
| "run_events H quota spent (e # es) s =
     (if spent < quota
      then do {
        (n, s) \<leftarrow> ef100_ev_dispatch H (quota - spent) e s;
        (spent, k, s) \<leftarrow> run_events H quota (spent + n) es s;
        Some (spent, Suc k, s)
      }
      else Some (spent, 0, s))"

definition evq_at :: "nat \<Rightarrow> ev_queue \<Rightarrow> ev_queue" where
  "evq_at r q = q\<lparr>eventq_read_ptr := of_nat r, evq_phase := odd (r div evq_size q)\<rparr>"

lemma evq_at_id: "evq_inv h r q \<Longrightarrow> evq_at r q = q"
  using evq_invD(4,5) [of h r q] by (simp add: evq_at_def)

lemma evq_at_advance: "evq_at n (evq_advance q) = evq_at n q"
  by (simp add: evq_at_def evq_advance_def evq_size_def Let_def)

lemma ev_loop_run:
  assumes "evq_inv h r q"
  shows "ev_loop H quota spent q s =
    map_option (\<lambda>(spent, k, s). (spent, evq_at (r + k) q, s)) (run_events H quota spent (drop r h) s)"
  using assms
proof (induction "length h - r" arbitrary: r q spent s)
  case 0
  then have r: "r = length h"
    using evq_invD(2) [of h r q] by simp
  obtain e where "efx_event q (eventq_read_ptr q) = Some e" "ev_phase e \<noteq> evq_phase q"
    using evq_end "0.prems" r by metis
  then show ?case
    using evq_at_id [OF "0.prems"] r by (subst ev_loop.simps) simp
next
  case (Suc n)
  then have r: "r < length h"
    by simp
  then have es: "drop r h = h ! r # drop (Suc r) h"
    by (rule Cons_nth_drop_Suc [symmetric])
  note nxt = evq_next [OF Suc.prems r]
  show ?case
  proof (cases "spent < quota")
    case False
    then show ?thesis
      using evq_at_id [OF Suc.prems] by (subst ev_loop.simps) (simp add: es)
  next
    case True
    then have step: "ev_loop H quota spent q s =
        Option.bind (ef100_ev_dispatch H (quota - spent) (h ! r) s) (\<lambda>r. ev_loop H quota (spent + fst r) (evq_advance q) (snd r))"
      using nxt by (subst ev_loop.simps) simp
    have IH: "ev_loop H quota spent' (evq_advance q) s' =
        map_option (\<lambda>(spent, k, s). (spent, evq_at (Suc r + k) q, s)) (run_events H quota spent' (drop (Suc r) h) s')" for spent' s'
      using Suc.hyps(1) [OF _ advance_inv [OF Suc.prems r]] Suc.hyps(2) by (simp add: evq_at_advance)
    show ?thesis
      using True unfolding step es IH by (auto simp: split_beta split: Option.bind_split)
  qed
qed

lemma evq_at_inv:
  assumes "evq_inv h r q" and "r + k \<le> length h"
  shows "evq_inv h (r + k) (evq_at (r + k) q)"
proof -
  have "evq_size (evq_at (r + k) q) = evq_size q"
    by (simp add: evq_at_def evq_size_def)
  then show ?thesis
    using assms by (simp add: evq_inv_def evq_at_def)
qed

lemma run_events_bound:
  "run_events H quota spent es s = Some (spent', k, s') \<Longrightarrow> k \<le> length es \<and> (spent' < quota \<longrightarrow> k = length es)"
proof (induction es arbitrary: spent s k)
  case Nil
  then show ?case
    by simp
next
  case (Cons e es)
  show ?case
  proof (cases "spent < quota")
    case False
    then show ?thesis
      using Cons.prems by simp
  next
    case True
    then obtain n s1 k1 where "run_events H quota (spent + n) es s1 = Some (spent', k1, s')" "k = Suc k1"
      using Cons.prems by (auto simp: bind_eq_Some_conv)
    then show ?thesis
      using Cons.IH by auto
  qed
qed

subsection \<open>Set-up and posting establish and keep the state\<close>

lemma phase_ones: "ev_phase (- 1)"
  by code_simp

lemma init_evq_inv:
  assumes "eventq_mask q = mask k" and "k \<le> 31" and "length (evq_buf q) = Suc (evq_size q)"
  shows "evq_inv [] 0 (snd (efx_init_eventq True 0 q))"
proof -
  define q' where "q' = snd (efx_init_eventq True 0 q)"
  have q': "evq_buf q' = replicate (length (evq_buf q)) (- 1)" "eventq_mask q' = eventq_mask q" "eventq_read_ptr q' = 0"
      "\<not> evq_phase q'" "evq_size q' = evq_size q"
    by (simp_all add: q'_def efx_init_eventq_def ef100_ev_init_def efx_mcdi_ev_init_def evq_size_def)
  have "ev_phase (evq_buf q' ! j)" if "j < evq_size q" for j
    unfolding q'(1) using that assms(3) by (simp add: phase_ones del: replicate.simps)
  moreover have "length (evq_buf q') = Suc (evq_size q)"
    using assms(3) by (simp add: q'(1))
  ultimately have "evq_inv [] 0 q'"
    using assms(1,2) by (auto simp: evq_inv_def q'(2-5))
  then show ?thesis
    by (simp add: q'_def)
qed

lemma probe_evq_length:
  assumes "eventq_mask q = mask k" and "k \<le> 31"
  shows "length (evq_buf (snd (ef100_ev_probe True q))) = Suc (evq_size q)"
proof -
  have "Suc (unat (mask k :: u32)) \<le> 2 ^ 31"
    using unat_mask_Suc [OF assms(2)] pow_le_31 [OF assms(2)] by simp
  then have "unat (mask k + 2 :: u32) = unat (mask k :: u32) + 2"
    by (simp add: unat_word_ariths)
  then show ?thesis
    by (simp add: ef100_ev_probe_def evq_size_def assms(1))
qed

lemma post_evq_inv:
  assumes "evq_inv h r q" and "length h < r + evq_size q" and "ev_phase e = odd (length h div evq_size q)"
  shows "evq_inv (h @ [e]) r (nic_post_event (length h) e q)"
proof -
  define n where "n = length h"
  note inv = evq_invD [OF assms(1), folded n_def]
  have size: "evq_size (nic_post_event n e q) = evq_size q"
    by (simp add: nic_post_event_def evq_size_def)
  have pos: "0 < evq_size q"
    by (simp add: evq_size_def)
  then have idx: "n mod evq_size q < length (evq_buf q)"
    using inv(1) by (simp add: less_SucI)
  have other: "(evq_buf q)[n mod evq_size q := e] ! (j mod evq_size q) = evq_buf q ! (j mod evq_size q)"
    if "j < n" "Suc n \<le> j + evq_size q" for j
  proof -
    have "j mod evq_size q \<noteq> n mod evq_size q"
    proof
      assume "j mod evq_size q = n mod evq_size q"
      then have eq: "(j + (n - j)) mod evq_size q = (j + 0) mod evq_size q"
        using that(1) by simp
      have "n - j < evq_size q"
        using that by linarith
      then have "0 = n - j"
        by (rule mod_add_inj_le [OF eq le0])
      then show False
        using that(1) by simp
    qed
    then show ?thesis
      by (intro nth_list_update_neq) simp
  qed
  have new: "(evq_buf q)[n mod evq_size q := e] ! (j mod evq_size q) = (h @ [e]) ! j" if "j < Suc n" "Suc n \<le> j + evq_size q" for j
  proof (cases "j = n")
    case True
    then show ?thesis
      using idx by (simp add: n_def)
  next
    case False
    then have "j < n" "n \<le> j + evq_size q"
      using that by simp_all
    then show ?thesis
      using other [of j] that inv(7) [of j] by (simp add: nth_append n_def)
  qed
  have ones: "ev_phase ((evq_buf q)[n mod evq_size q := e] ! j)" if "j < evq_size q" "Suc n \<le> j" for j
  proof -
    have "n mod evq_size q \<noteq> j"
      using that by simp
    then show ?thesis
      using inv(8) [of j] that by simp
  qed
  have phases: "ev_phase ((h @ [e]) ! j) = odd (j div evq_size q)" if "j < Suc n" for j
    using that inv(6) [of j] assms(3) by (cases "j = n") (simp_all add: nth_append n_def)
  define q' where "q' = nic_post_event n e q"
  have q': "evq_buf q' = (evq_buf q)[n mod evq_size q := e]" "eventq_mask q' = eventq_mask q"
      "eventq_read_ptr q' = eventq_read_ptr q" "evq_phase q' = evq_phase q" "evq_size q' = evq_size q"
    by (simp_all add: q'_def nic_post_event_def evq_size_def)
  have len: "length (h @ [e]) = Suc n"
    by (simp add: n_def)
  have mask: "\<exists>k\<le>31. eventq_mask q = mask k"
    using assms(1) by (simp add: evq_inv_def)
  have "evq_inv (h @ [e]) r q'"
    unfolding evq_inv_def q' len
    by (intro conjI allI impI mask inv(4,5) phases new ones) (use inv(1-3) assms(2) in \<open>simp_all add: n_def\<close>)
  then show ?thesis
    by (simp only: q'_def n_def)
qed

subsection \<open>The search for an event of the management controller\<close>

text \<open>When the ring is full of other events of one phase the search does not end.\<close>

lemma mcdi_pending_spins:
  assumes "evq_inv h 0 q" and "length h = evq_size q" and "\<And>e. e \<in> set h \<Longrightarrow> ev_type e \<noteq> ESE_GZ_EF100_EV_MCDI"
  shows "mcdi_pending_loop q (of_nat n) = None"
proof -
  have at: "efx_event q (of_nat n) = Some (h ! (n mod evq_size q)) \<and> ev_phase (h ! (n mod evq_size q)) = evq_phase q \<and>
      ev_type (h ! (n mod evq_size q)) \<noteq> ESE_GZ_EF100_EV_MCDI" for n
  proof -
    have lt: "n mod evq_size q < length h"
      by (simp add: assms(2) evq_size_def)
    then have "ev_phase (h ! (n mod evq_size q)) = evq_phase q"
      using evq_invD(5,6) [OF assms(1)] assms(2) by simp
    moreover have "evq_buf q ! (n mod evq_size q) = h ! (n mod evq_size q)"
      using evq_invD(7) [OF assms(1) lt] assms(2) by simp
    ultimately show ?thesis
      using evq_event [OF assms(1), of n] assms(3) lt by simp
  qed
  have spin: "q' = q \<longrightarrow> (\<forall>m. p = of_nat m \<longrightarrow> False)" if "mcdi_pending_loop q' p = Some y" for q' p y
  proof (rule mcdi_pending_loop.raw_induct [where P = "\<lambda>q' p _. q' = q \<longrightarrow> (\<forall>m. p = of_nat m \<longrightarrow> False)", OF _ that])
    fix f and q' :: ev_queue and p :: u32 and y
    assume IH: "\<And>q' p y. f q' p = Some y \<Longrightarrow> q' = q \<longrightarrow> (\<forall>m. p = of_nat m \<longrightarrow> False)"
      and run: "Option.bind (efx_event q' p) (\<lambda>e. if ev_phase e \<noteq> evq_phase q' then Some False
         else if ev_type e = ESE_GZ_EF100_EV_MCDI then Some True else f q' (p + 1)) = Some y"
    show "q' = q \<longrightarrow> (\<forall>m. p = of_nat m \<longrightarrow> False)"
    proof (intro impI allI)
      fix m assume q: "q' = q" and p: "p = of_nat m"
      have "f q (of_nat (Suc m)) = Some y"
        using run at [of m] unfolding q p by (simp add: algebra_simps)
      then show False
        using IH by blast
    qed
  qed
  show ?thesis
    using spin [of q "of_nat n"] by (cases "mcdi_pending_loop q (of_nat n)") blast+
qed

end
