(* ===== verification/Port.thy ===== *)
theory Port
  imports Oword "HOL-Library.Monad_Syntax"
begin

section \<open>The state of the link (mcdi_port_common.c, efx_common.c, ef100_nic.c)\<close>

text \<open>
  Events of the management controller tell the driver that the link changed, that another module was
  plugged in, or that a queue was flushed. Capabilities are translated between the controller's
  bits (\<open>MC_CMD_PHY_CAP\<close>) and those of ethtool; a set of ethtool link modes is its first 64 bits,
  numbered as in the kernel's ethtool.h.
\<close>

abbreviation (input) EFX_FC_TX :: u8 where "EFX_FC_TX \<equiv> 1"
abbreviation (input) EFX_FC_RX :: u8 where "EFX_FC_RX \<equiv> 2"
abbreviation (input) EFX_FC_AUTO :: u8 where "EFX_FC_AUTO \<equiv> 4"

record efx_link_state =
  ls_up :: bool
  ls_fd :: bool
  ls_fc :: u8
  ls_speed :: u32
  ls_ld_caps :: u32
  ls_lp_caps :: u32

text \<open>
  What the port's events read and write: the configuration of the PHY, the modes wanted, the carrier
  of the network device and of the representors, the count of queues that are being flushed with the
  times their waiter was woken, and the \<open>MC_CMD_SET_LINK\<close> commands issued (capabilities, flags,
  loopback mode, sequence number), of which the next is accepted or not.
\<close>

record port_state =
  link_state :: efx_link_state
  carrier_ok :: bool
  reps_carrier :: bool
  n_link_state_changes :: u32
  wanted_fc :: u8
  link_advertising :: u64
  fec_config :: u32
  phy_media :: u32
  phy_flags :: u32
  supported_cap :: u32
  phy_mode :: u32
  loopback_mode :: u32
  net_up :: bool
  uninit :: bool
  netif_running :: bool
  active_queues :: int
  flush_wakeups :: nat
  set_link_calls :: "(u32 \<times> u32 \<times> u32 \<times> u8) list"
  set_link_ok :: bool

subsection \<open>Capabilities\<close>

text \<open>The pairs of \<open>MAP_CAP\<close>: the controller's bit, the link mode's bit; before them the bit of the medium.\<close>

abbreviation (input) MC_CMD_MEDIA_KX4 :: u32 where "MC_CMD_MEDIA_KX4 \<equiv> 3"
abbreviation (input) MC_CMD_MEDIA_XFP :: u32 where "MC_CMD_MEDIA_XFP \<equiv> 4"
abbreviation (input) MC_CMD_MEDIA_SFP_PLUS :: u32 where "MC_CMD_MEDIA_SFP_PLUS \<equiv> 5"
abbreviation (input) MC_CMD_MEDIA_BASE_T :: u32 where "MC_CMD_MEDIA_BASE_T \<equiv> 6"
abbreviation (input) MC_CMD_MEDIA_QSFP_PLUS :: u32 where "MC_CMD_MEDIA_QSFP_PLUS \<equiv> 7"

definition map_cap :: "u32 \<Rightarrow> (nat \<times> nat) list \<Rightarrow> u64 \<Rightarrow> u64" where
  "map_cap cap ps linkset = fold (\<lambda>(m, e) r. if bit cap m then set_bit e r else r) ps linkset"

definition mcdi_to_ethtool_linkset :: "u32 \<Rightarrow> u32 \<Rightarrow> u64" where
  "mcdi_to_ethtool_linkset media cap =
     map_cap cap [(8, 13), (9, 14), (10, 6)]
       (if media = MC_CMD_MEDIA_KX4 then map_cap cap [(6, 17), (7, 18), (11, 23)] (set_bit 16 0)
        else if media = MC_CMD_MEDIA_XFP \<or> media = MC_CMD_MEDIA_SFP_PLUS \<or> media = MC_CMD_MEDIA_QSFP_PLUS
        then map_cap cap [(6, 5), (7, 12), (11, 24), (13, 38), (14, 31), (15, 34)] (set_bit 10 0)
        else if media = MC_CMD_MEDIA_BASE_T
        then map_cap cap [(1, 0), (2, 1), (3, 2), (4, 3), (5, 4), (6, 5), (7, 12)] (set_bit 7 0)
        else 0)"

definition cap_if :: "bool \<Rightarrow> nat \<Rightarrow> u32 \<Rightarrow> u32" where
  "cap_if b n result = (if b then result OR push_bit n 1 else result)"

definition ethtool_linkset_to_mcdi_cap :: "u64 \<Rightarrow> u32" where
  "ethtool_linkset_to_mcdi_cap l =
     cap_if (bit l 6) 10 (cap_if (bit l 14) 9 (cap_if (bit l 13) 8
       (cap_if (bit l 34) 15 (cap_if (bit l 31) 14 (cap_if (bit l 38) 13
       (cap_if (bit l 24 \<or> bit l 23) 11 (cap_if (bit l 12 \<or> bit l 18) 7 (cap_if (bit l 5 \<or> bit l 17) 6
       (cap_if (bit l 4) 5 (cap_if (bit l 3) 4 (cap_if (bit l 2) 3 (cap_if (bit l 1) 2 (cap_if (bit l 0) 1 0)))))))))))))"

definition mcdi_to_ethtool_media :: "u32 \<Rightarrow> u8" where
  "mcdi_to_ethtool_media media =
     (if media = 1 \<or> media = 2 \<or> media = MC_CMD_MEDIA_KX4 then 0xff
      else if media = MC_CMD_MEDIA_XFP \<or> media = MC_CMD_MEDIA_SFP_PLUS \<or> media = MC_CMD_MEDIA_QSFP_PLUS then 3
      else if media = MC_CMD_MEDIA_BASE_T then 0 else 0xff)"

subsection \<open>Forward error correction\<close>

abbreviation (input) ETHTOOL_FEC_AUTO :: u32 where "ETHTOOL_FEC_AUTO \<equiv> 2"
abbreviation (input) ETHTOOL_FEC_OFF :: u32 where "ETHTOOL_FEC_OFF \<equiv> 4"
abbreviation (input) ETHTOOL_FEC_RS :: u32 where "ETHTOOL_FEC_RS \<equiv> 8"
abbreviation (input) ETHTOOL_FEC_BASER :: u32 where "ETHTOOL_FEC_BASER \<equiv> 16"
abbreviation (input) BASER_FEC :: nat where "BASER_FEC \<equiv> 16"
abbreviation (input) BASER_FEC_REQUESTED :: nat where "BASER_FEC_REQUESTED \<equiv> 17"
abbreviation (input) RS_FEC :: nat where "RS_FEC \<equiv> 18"
abbreviation (input) RS_FEC_REQUESTED :: nat where "RS_FEC_REQUESTED \<equiv> 19"
abbreviation (input) BASER_FEC_25G :: nat where "BASER_FEC_25G \<equiv> 20"
abbreviation (input) BASER_FEC_25G_REQUESTED :: nat where "BASER_FEC_25G_REQUESTED \<equiv> 21"

abbreviation (input) FEC_BIT :: "nat \<Rightarrow> u32" where "FEC_BIT n \<equiv> push_bit n 1"

definition ethtool_fec_caps_to_mcdi :: "u32 \<Rightarrow> u32 \<Rightarrow> u32" where
  "ethtool_fec_caps_to_mcdi supported ethtool_cap =
     (if ethtool_cap AND ETHTOOL_FEC_OFF \<noteq> 0 then 0
      else
        let r0 = (if ethtool_cap AND ETHTOOL_FEC_AUTO \<noteq> 0
                  then (FEC_BIT BASER_FEC OR FEC_BIT BASER_FEC_25G OR FEC_BIT RS_FEC) AND supported else 0);
            r1 = (if ethtool_cap AND ETHTOOL_FEC_RS \<noteq> 0 \<and> supported AND FEC_BIT RS_FEC \<noteq> 0
                  then r0 OR (FEC_BIT RS_FEC OR FEC_BIT RS_FEC_REQUESTED) else r0) in
        if ethtool_cap AND ETHTOOL_FEC_BASER \<noteq> 0
        then let r2 = (if supported AND FEC_BIT BASER_FEC \<noteq> 0
                       then r1 OR (FEC_BIT BASER_FEC OR FEC_BIT BASER_FEC_REQUESTED) else r1) in
             (if supported AND FEC_BIT BASER_FEC_25G \<noteq> 0
              then r2 OR (FEC_BIT BASER_FEC_25G OR FEC_BIT BASER_FEC_25G_REQUESTED) else r2)
        else r1)"

definition ethtool_fec_supported :: "u32 \<Rightarrow> u32 \<Rightarrow> int" where
  "ethtool_fec_supported supported ethtool_cap =
     (if ethtool_cap AND ETHTOOL_FEC_OFF \<noteq> 0 then 0
      else if ethtool_cap \<noteq> 0 \<and> ethtool_fec_caps_to_mcdi supported ethtool_cap = 0 then - EINVAL
      else 0)"

definition mcdi_fec_caps_to_ethtool :: "u32 \<Rightarrow> bool \<Rightarrow> u32" where
  "mcdi_fec_caps_to_ethtool caps is_25g =
     (let rs = caps AND FEC_BIT RS_FEC \<noteq> 0;
          rs_req = caps AND FEC_BIT RS_FEC_REQUESTED \<noteq> 0;
          baser = (if is_25g then caps AND FEC_BIT BASER_FEC_25G \<noteq> 0 else caps AND FEC_BIT BASER_FEC \<noteq> 0);
          baser_req = (if is_25g then caps AND FEC_BIT BASER_FEC_25G_REQUESTED \<noteq> 0
                       else caps AND FEC_BIT BASER_FEC_REQUESTED \<noteq> 0) in
      if \<not> baser \<and> \<not> rs then ETHTOOL_FEC_OFF
      else (if rs_req then ETHTOOL_FEC_RS else 0) OR (if baser_req then ETHTOOL_FEC_BASER else 0) OR
           (if baser = baser_req \<and> rs = rs_req then 0 else ETHTOOL_FEC_AUTO))"

subsection \<open>Link modes\<close>

definition efx_mcdi_link_state_flags :: "efx_link_state \<Rightarrow> u8" where
  "efx_mcdi_link_state_flags l = (if ls_up l then 1 else 0) OR (if ls_fd l then 2 else 0)"

definition efx_mcdi_link_state_fcntl :: "efx_link_state \<Rightarrow> u8" where
  "efx_mcdi_link_state_fcntl l =
     (if ls_fc l = EFX_FC_AUTO OR EFX_FC_TX OR EFX_FC_RX then 3
      else if ls_fc l = EFX_FC_TX OR EFX_FC_RX then 2
      else if ls_fc l = EFX_FC_RX then 1 else 0)"

definition efx_mcdi_phy_decode_link :: "u32 \<Rightarrow> u32 \<Rightarrow> u32 \<Rightarrow> u32 \<Rightarrow> u32 \<Rightarrow> efx_link_state \<Rightarrow> efx_link_state" where
  "efx_mcdi_phy_decode_link speed flags fcntl ld_caps lp_caps l =
     l\<lparr>ls_fc := (if fcntl = 3 then EFX_FC_AUTO OR EFX_FC_TX OR EFX_FC_RX
                 else if fcntl = 2 then EFX_FC_TX OR EFX_FC_RX
                 else if fcntl = 1 then EFX_FC_RX else 0),
       ls_up := bit flags 0, ls_fd := bit flags 1, ls_speed := speed, ls_ld_caps := ld_caps, ls_lp_caps := lp_caps\<rparr>"

abbreviation (input) ADVERTISED_Autoneg :: u64 where "ADVERTISED_Autoneg \<equiv> push_bit 6 1"
abbreviation (input) ADVERTISED_Pause :: u64 where "ADVERTISED_Pause \<equiv> push_bit 13 1"
abbreviation (input) ADVERTISED_Asym_Pause :: u64 where "ADVERTISED_Asym_Pause \<equiv> push_bit 14 1"

definition efx_link_set_wanted_fc :: "u8 \<Rightarrow> port_state \<Rightarrow> port_state" where
  "efx_link_set_wanted_fc fc s =
     (let s1 = s\<lparr>wanted_fc := fc\<rparr> in
      if link_advertising s1 AND ADVERTISED_Autoneg = 0 then s1
      else
        let a1 = (if fc AND EFX_FC_RX \<noteq> 0 then link_advertising s1 OR (ADVERTISED_Pause OR ADVERTISED_Asym_Pause)
                  else link_advertising s1 AND NOT (ADVERTISED_Pause OR ADVERTISED_Asym_Pause));
            a2 = (if fc AND EFX_FC_TX \<noteq> 0 then a1 XOR ADVERTISED_Asym_Pause else a1) in
        s1\<lparr>link_advertising := a2\<rparr>)"

definition efx_link_set_advertising :: "u64 \<Rightarrow> port_state \<Rightarrow> port_state" where
  "efx_link_set_advertising advertising s =
     (let s1 = s\<lparr>link_advertising := advertising\<rparr> in
      if advertising AND ADVERTISED_Autoneg = 0 then s1
      else
        let f1 = (if advertising AND ADVERTISED_Pause \<noteq> 0 then wanted_fc s1 OR (EFX_FC_TX OR EFX_FC_RX)
                  else wanted_fc s1 AND NOT (EFX_FC_TX OR EFX_FC_RX));
            f2 = (if advertising AND ADVERTISED_Asym_Pause \<noteq> 0 then f1 XOR EFX_FC_TX else f1) in
        s1\<lparr>wanted_fc := f2\<rparr>)"

definition efx_get_mcdi_caps :: "port_state \<Rightarrow> u32" where
  "efx_get_mcdi_caps s =
     ethtool_linkset_to_mcdi_cap (link_advertising s) OR ethtool_fec_caps_to_mcdi (supported_cap s) (fec_config s)"

definition efx_get_mcdi_phy_flags :: "port_state \<Rightarrow> u32" where
  "efx_get_mcdi_phy_flags s =
     (let supported = (if bit (phy_flags s) 5 then 1 else 0) OR (if bit (phy_flags s) 3 then 2 else 0)
                        OR (if bit (phy_flags s) 4 then 4 else 0);
          mode = phy_mode s AND supported in
      (if bit mode 0 then push_bit 2 1 else 0) OR (if bit mode 1 then push_bit 0 1 else 0)
        OR (if bit mode 2 then push_bit 1 1 else 0)
        OR (if \<not> uninit s \<and> \<not> netif_running s then push_bit 3 1 else 0))"

subsection \<open>Events\<close>

text \<open>\<open>efx_link_status_changed\<close> for the EF100, with \<open>ef100_link_state_change\<close>.\<close>

definition ef100_link_state_change :: "port_state \<Rightarrow> port_state" where
  "ef100_link_state_change s = (if \<not> net_up s then s else s\<lparr>reps_carrier := ls_up (link_state s)\<rparr>)"

definition efx_link_status_changed :: "port_state \<Rightarrow> port_state" where
  "efx_link_status_changed s =
     ef100_link_state_change
       (if ls_up (link_state s) \<noteq> carrier_ok s
        then s\<lparr>n_link_state_changes := n_link_state_changes s + 1, carrier_ok := ls_up (link_state s)\<rparr> else s)"

definition efx_mcdi_event_link_speed :: "u32 list" where
  "efx_mcdi_event_link_speed = [0, 100, 1000, 10000, 40000, 25000, 50000, 100000]"

definition decode_event_link :: "u32 \<Rightarrow> u32 \<Rightarrow> u32 \<Rightarrow> u32 \<Rightarrow> port_state \<Rightarrow> port_state" where
  "decode_event_link speed flags fcntl lpa s =
     efx_link_status_changed
       (s\<lparr>link_state := efx_mcdi_phy_decode_link speed flags fcntl (ls_ld_caps (link_state s)) lpa (link_state s)\<rparr>)"

definition efx_mcdi_process_link_change :: "u64 \<Rightarrow> port_state \<Rightarrow> port_state" where
  "efx_mcdi_process_link_change ev s =
     (let i = unat (EFX_QWORD_FIELD ev (16, 4));
          speed = (if i < length efx_mcdi_event_link_speed then efx_mcdi_event_link_speed ! i else 0);
          flags = (ucast (efx_mcdi_link_state_flags (link_state s)) AND NOT 1) OR ucast (EFX_QWORD_FIELD ev (24, 8)) in
      decode_event_link speed flags (ucast (EFX_QWORD_FIELD ev (20, 4))) (ucast (EFX_QWORD_FIELD ev (0, 16))) s)"

text \<open>Here the speed is not compared with the size of the table (the warning is for debugging).\<close>

definition efx_mcdi_process_link_change_v2 :: "u64 \<Rightarrow> port_state \<Rightarrow> port_state option" where
  "efx_mcdi_process_link_change_v2 ev s =
     (let i = unat (EFX_QWORD_FIELD ev (24, 4)) in
      if length efx_mcdi_event_link_speed \<le> i then None
      else
        let flags = (ucast (efx_mcdi_link_state_flags (link_state s)) AND NOT 1)
                      OR (if EFX_QWORD_FIELD ev (28, 1) \<noteq> 0 then 1 else 0) OR 2 in
        Some (decode_event_link (efx_mcdi_event_link_speed ! i) flags (ucast (EFX_QWORD_FIELD ev (29, 3)))
                (ucast (EFX_QWORD_FIELD ev (0, 24))) s))"

definition MCDI_PORT_SPEED_CAPS :: u32 where
  "MCDI_PORT_SPEED_CAPS = 0xe8fe"

definition efx_mcdi_set_link :: "u32 \<Rightarrow> u32 \<Rightarrow> u32 \<Rightarrow> u8 \<Rightarrow> port_state \<Rightarrow> bool \<times> port_state" where
  "efx_mcdi_set_link caps flags loopback seq s =
     (set_link_ok s, s\<lparr>set_link_calls := (caps, flags, loopback, seq) # set_link_calls s\<rparr>)"

definition efx_mcdi_process_module_change :: "u64 \<Rightarrow> port_state \<Rightarrow> port_state" where
  "efx_mcdi_process_module_change ev s =
     (let caps = efx_get_mcdi_caps s;
          flags = ucast (efx_mcdi_link_state_flags (link_state s)) OR 2;
          ld_caps = ucast (EFX_QWORD_FIELD ev (0, 30));
          seq = ucast (EFX_DWORD_FIELD (ucast ev) (30, 2));
          s1 = s\<lparr>link_state := efx_mcdi_phy_decode_link (ls_speed (link_state s)) flags
                    (ucast (efx_mcdi_link_state_fcntl (link_state s))) ld_caps 0 (link_state s)\<rparr>;
          s2 = (if ld_caps \<noteq> 0 \<and> caps \<noteq> 0 \<and> caps AND ld_caps AND MCDI_PORT_SPEED_CAPS = 0
                then
                  let caps = (caps OR (supported_cap s1 AND MCDI_PORT_SPEED_CAPS)) AND ld_caps;
                      (ok, s2) = efx_mcdi_set_link caps (efx_get_mcdi_phy_flags s1) (loopback_mode s1) seq s1 in
                  if ok then s2\<lparr>link_advertising := mcdi_to_ethtool_linkset (phy_media s2) caps\<rparr> else s2
                else s1) in
      efx_link_status_changed s2)"

definition efx_handle_drain_event :: "port_state \<Rightarrow> port_state" where
  "efx_handle_drain_event s =
     (let s1 = s\<lparr>active_queues := active_queues s - 1\<rparr> in
      if active_queues s1 = 0 then s1\<lparr>flush_wakeups := flush_wakeups s1 + 1\<rparr> else s1)"

text \<open>Whether the event was handled; without a driverlink client the return code stays 0.\<close>

definition efx_mcdi_port_process_event_common :: "u64 \<Rightarrow> port_state \<Rightarrow> (bool \<times> port_state) option" where
  "efx_mcdi_port_process_event_common event s =
     (let code = EFX_QWORD_FIELD event (44, 8) in
      if code = 0x4 then Some (True, efx_mcdi_process_link_change event s)
      else if code = 0x20 then map_option (Pair True) (efx_mcdi_process_link_change_v2 event s)
      else if code = 0x21 then Some (True, efx_mcdi_process_module_change event s)
      else if code = 0xc \<or> code = 0x10
      then Some (True, if EFX_QWORD_FIELD event (12, 1) = 0 then efx_handle_drain_event s else s)
      else Some (False, s))"

end
