(* ===== verification/Port_Facts.thy ===== *)
theory Port_Facts
  imports Port
begin

section \<open>Translations of capabilities, and the carrier\<close>

subsection \<open>Link modes\<close>

lemma map_cap_simps [simp]:
  "map_cap cap [] l = l"
  "map_cap cap ((m, e) # ps) l = map_cap cap ps (if bit cap m then set_bit e l else l)"
  by (simp_all add: map_cap_def)

lemma bit_map_cap:
  "bit (map_cap cap ps l) i \<longleftrightarrow> bit l i \<or> i < 64 \<and> (\<exists>m. (m, i) \<in> set ps \<and> bit cap m)"
proof (induction ps arbitrary: l)
  case Nil
  then show ?case
    by simp
next
  case (Cons p ps)
  then show ?case
    by (cases p) (auto simp: bit_set_bit_iff)
qed

lemma bit_cap_if: "bit (cap_if b n r) i \<longleftrightarrow> bit r i \<or> b \<and> i = n \<and> n < 32"
  by (auto simp: cap_if_def bit_or_iff bit_exp_iff)

text \<open>The capabilities that have a link mode on the medium.\<close>

definition media_caps :: "u32 \<Rightarrow> nat list" where
  "media_caps media =
     [8, 9, 10] @
     (if media = 3 then [6, 7, 11] else if media \<in> {4, 5, 7} then [6, 7, 11, 13, 14, 15]
      else if media = 6 then [1, 2, 3, 4, 5, 6, 7] else [])"

lemma linkset_roundtrip:
  "bit (ethtool_linkset_to_mcdi_cap (mcdi_to_ethtool_linkset media cap)) i \<longleftrightarrow> bit cap i \<and> i \<in> set (media_caps media)"
proof -
  consider "media = 3" | "media \<in> {4, 5, 7}" | "media = 6" | "media \<notin> {3, 4, 5, 6, 7}"
    by auto
  then show ?thesis
    by cases (auto simp: ethtool_linkset_to_mcdi_cap_def mcdi_to_ethtool_linkset_def bit_cap_if bit_map_cap
        bit_set_bit_iff media_caps_def simp del: map_cap_simps)
qed

subsection \<open>Forward error correction\<close>

text \<open>\<open>mcdi_fec_caps_to_ethtool\<close> undoes \<open>ethtool_fec_caps_to_mcdi\<close> on the supported modes, except that
  AUTO is lost next to both RS and BASER.\<close>

lemma bit_test: "(w :: u32) AND push_bit n 1 \<noteq> 0 \<longleftrightarrow> bit w n"
  by (auto simp: bit_iff_and_push_bit_not_eq_0)

lemma bit_tests:
  "(w :: u32) AND 2 \<noteq> 0 \<longleftrightarrow> bit w 1" "(w :: u32) AND 4 \<noteq> 0 \<longleftrightarrow> bit w 2"
  "(w :: u32) AND 8 \<noteq> 0 \<longleftrightarrow> bit w 3" "(w :: u32) AND 16 \<noteq> 0 \<longleftrightarrow> bit w 4"
  using bit_test [of w 1] bit_test [of w 2] bit_test [of w 3] bit_test [of w 4] by simp_all

lemma bit_fec_caps:
  "bit (ethtool_fec_caps_to_mcdi supported cap) i \<longleftrightarrow>
     \<not> bit cap 2 \<and>
     (bit cap 1 \<and> (i = 16 \<or> i = 20 \<or> i = 18) \<and> bit supported i \<or>
      bit cap 3 \<and> bit supported 18 \<and> (i = 18 \<or> i = 19) \<or>
      bit cap 4 \<and> (bit supported 16 \<and> (i = 16 \<or> i = 17) \<or> bit supported 20 \<and> (i = 20 \<or> i = 21)))"
proof -
  have one: "bit (push_bit n 1 :: u32) i \<longleftrightarrow> i = n" if "n < 32" for n
    using that by (auto simp: bit_exp_iff)
  have add: "bit (if b then r OR x else r) i \<longleftrightarrow> bit r i \<or> b \<and> bit x i" for b and r x :: u32
    by (simp add: bit_or_iff)
  have or: "bit (x OR y) i \<longleftrightarrow> bit x i \<or> bit y i" for x y :: u32
    by (simp add: bit_or_iff)
  define r0 where "r0 = (if bit cap 1 then (FEC_BIT BASER_FEC OR FEC_BIT BASER_FEC_25G OR FEC_BIT RS_FEC) AND supported else 0)"
  define r1 where "r1 = (if bit cap 3 \<and> bit supported 18 then r0 OR (FEC_BIT RS_FEC OR FEC_BIT RS_FEC_REQUESTED) else r0)"
  define r2 where "r2 = (if bit supported 16 then r1 OR (FEC_BIT BASER_FEC OR FEC_BIT BASER_FEC_REQUESTED) else r1)"
  have val: "ethtool_fec_caps_to_mcdi supported cap =
      (if bit cap 2 then 0 else if bit cap 4
       then (if bit supported 20 then r2 OR (FEC_BIT BASER_FEC_25G OR FEC_BIT BASER_FEC_25G_REQUESTED) else r2) else r1)"
    by (simp only: ethtool_fec_caps_to_mcdi_def Let_def bit_test bit_tests r0_def r1_def r2_def)
  have b0: "bit r0 i \<longleftrightarrow> bit cap 1 \<and> (i = 16 \<or> i = 20 \<or> i = 18) \<and> bit supported i"
    unfolding r0_def by (simp add: bit_and_iff or one del: push_bit_of_1)
  have b1: "bit r1 i \<longleftrightarrow> bit r0 i \<or> bit cap 3 \<and> bit supported 18 \<and> (i = 18 \<or> i = 19)"
    unfolding r1_def add or by (simp add: one del: push_bit_of_1)
  have b2: "bit r2 i \<longleftrightarrow> bit r1 i \<or> bit supported 16 \<and> (i = 16 \<or> i = 17)"
    unfolding r2_def add or by (simp add: one del: push_bit_of_1)
  have "bit (if bit supported 20 then r2 OR (FEC_BIT BASER_FEC_25G OR FEC_BIT BASER_FEC_25G_REQUESTED) else r2) i \<longleftrightarrow>
      bit r2 i \<or> bit supported 20 \<and> (i = 20 \<or> i = 21)"
    unfolding add or by (simp add: one del: push_bit_of_1)
  then show ?thesis
    using b0 b1 b2 unfolding val by (cases "bit cap 2"; cases "bit cap 4") simp_all
qed

lemma fec_to_ethtool:
  "mcdi_fec_caps_to_ethtool caps is_25g =
     (let baser = bit caps (if is_25g then 20 else 16); baser_req = bit caps (if is_25g then 21 else 17) in
      if \<not> baser \<and> \<not> bit caps 18 then 4
      else (if bit caps 19 then 8 else 0) OR (if baser_req then 16 else 0) OR
           (if baser = baser_req \<and> bit caps 18 = bit caps 19 then 0 else 2))"
  unfolding mcdi_fec_caps_to_ethtool_def Let_def bit_test by simp

lemma fec_roundtrip:
  assumes "bit supported 18" and "bit supported (if is_25g then 20 else 16)"
    and "cap = 2 \<or> cap = 8 \<or> cap = 16 \<or> cap = 10 \<or> cap = 18 \<or> cap = 24 \<or> cap = 26"
  shows "mcdi_fec_caps_to_ethtool (ethtool_fec_caps_to_mcdi supported cap) is_25g = (if cap = 26 then 24 else cap)"
  using assms(3) assms(1,2) unfolding fec_to_ethtool Let_def bit_fec_caps
  by (elim disjE) (auto split: if_splits)

lemma fec_off: "bit cap 2 \<Longrightarrow> mcdi_fec_caps_to_ethtool (ethtool_fec_caps_to_mcdi supported cap) is_25g = 4"
  unfolding fec_to_ethtool Let_def bit_fec_caps by simp

subsection \<open>The carrier follows the link\<close>

definition carrier_follows :: "port_state \<Rightarrow> bool" where
  "carrier_follows s \<longleftrightarrow> carrier_ok s = ls_up (link_state s) \<and> (net_up s \<longrightarrow> reps_carrier s = ls_up (link_state s))"

lemma status_changed_follows: "carrier_follows (efx_link_status_changed s)"
  by (auto simp: carrier_follows_def efx_link_status_changed_def ef100_link_state_change_def)

lemma port_event_follows:
  assumes "carrier_follows s" and "efx_mcdi_port_process_event_common e s = Some (b, s')"
  shows "carrier_follows s'"
proof -
  have "carrier_follows (decode_event_link sp f fc l s)" for sp f fc l
    by (simp add: decode_event_link_def status_changed_follows)
  moreover have "carrier_follows (efx_mcdi_process_module_change e s)"
    by (simp add: efx_mcdi_process_module_change_def Let_def split_beta status_changed_follows)
  moreover have "carrier_follows (efx_handle_drain_event s)"
    using assms(1) by (simp add: carrier_follows_def efx_handle_drain_event_def Let_def)
  ultimately show ?thesis
    using assms by (auto simp: efx_mcdi_port_process_event_common_def efx_mcdi_process_link_change_def
        efx_mcdi_process_link_change_v2_def Let_def split: if_splits)
qed

text \<open>An event with one of the speeds 8 to 15 reads past the table.\<close>

lemma link_change_v2_out_of_table:
  assumes "8 \<le> unat (EFX_QWORD_FIELD e (24, 4))"
  shows "efx_mcdi_process_link_change_v2 e s = None"
  using assms by (simp add: efx_mcdi_process_link_change_v2_def efx_mcdi_event_link_speed_def Let_def)

end
