(* ===== verification/Napi.thy ===== *)
theory Napi
  imports Evq Port_Facts Rx_Facts Ef100_Tx_Demo Mcdi_Rpc
begin

section \<open>A channel's poll (efx_channels.c, ef100_nic.c)\<close>

text \<open>
  \<open>efx_process_channel\<close> puts the parts together: the events of the queue go to the receive queue, the
  transmit queues, the management interface or the port; then the receive queue is flushed and
  refilled, doorbells that were held back are rung, and the kernel's transmit queue is woken.
\<close>

text \<open>The fields and module parameters for the adaptive interrupt moderation; the EF100 has nothing
  to write when the interval changes (\<open>push_irq_moderation\<close> is \<open>efx_channel_dummy_op_void\<close>).\<close>

record irq_mod =
  irq_rx_adaptive :: bool
  irq_mod_step_us :: u32
  irq_rx_moderation_us :: u32
  irq_adapt_low_thresh :: u32
  irq_adapt_high_thresh :: u32
  irq_adapt_irqs :: u32
  irq_count :: u32
  irq_moderation_us :: u32

record chan_state =
  cs_rx :: rx_channel
  cs_tx :: tx_channel
  cs_mcdi :: mcdi
  cs_port :: port_state
  cs_mod :: irq_mod

definition ef100_handlers :: "ef100_env \<Rightarrow> rx_env \<Rightarrow> rx_nic \<Rightarrow> efx_nic_type \<Rightarrow> bool \<Rightarrow> chan_state ev_handlers" where
  "ef100_handlers tenv renv c ty copybuf =
     \<lparr>handle_rx = (\<lambda>e s. map_option (\<lambda>rx. s\<lparr>cs_rx := rx\<rparr>) (efx_ef100_ev_rx renv c e (cs_rx s))),
      handle_tx = (\<lambda>e s. map_option (\<lambda>tx. s\<lparr>cs_tx := tx\<rparr>) (ef100_ev_tx tenv e (cs_tx s))),
      handle_mcdi = (\<lambda>e s. map_option (\<lambda>(b, m). (b, s\<lparr>cs_mcdi := m\<rparr>)) (efx_mcdi_process_event ty e copybuf (cs_mcdi s))),
      handle_port = (\<lambda>e quota s. map_option (\<lambda>(b, p). (b, 0, s\<lparr>cs_port := p\<rparr>)) (efx_mcdi_port_process_event_common e (cs_port s)))\<rparr>"

definition napi_process_channel ::
    "ef100_env \<Rightarrow> rx_env \<Rightarrow> rx_nic \<Rightarrow> efx_nic_type \<Rightarrow> bool \<Rightarrow> int \<Rightarrow> ev_queue \<Rightarrow> chan_state
     \<Rightarrow> (int \<times> ev_queue \<times> chan_state) option" where
  "napi_process_channel tenv renv c ty copybuf budget q s =
     (if \<not> evq_enabled q then Some (0, q, s)
      else do {
        let tx = (cs_tx s)\<lparr>holdoff_doorbell := tx_coalesce_doorbell (cs_tx s),
                            tx_queues := map (\<lambda>q. q\<lparr>pkts_compl := 0, bytes_compl := 0\<rparr>) (tx_queues (cs_tx s))\<rparr>;
        (spent, q, s) \<leftarrow> ef100_ev_process (ef100_handlers tenv renv c ty copybuf) budget q (s\<lparr>cs_tx := tx\<rparr>);
        rx \<leftarrow> rx_end_of_poll renv c (nat spent) (cs_rx s);
        tx \<leftarrow> holdoff_loop (cs_tx s);
        Some (spent, q, s\<lparr>cs_rx := rx, cs_tx := wake_queue tenv tx\<rparr>)
      })"

definition efx_update_irq_mod :: "chan_state \<Rightarrow> chan_state" where
  "efx_update_irq_mod s =
     (let m = cs_mod s; step = irq_mod_step_us m; score = irq_mod_score (cs_rx s);
          us = (if score < irq_adapt_low_thresh m
                then if step < irq_moderation_us m then irq_moderation_us m - step else irq_moderation_us m
                else if irq_adapt_high_thresh m < score
                then if irq_moderation_us m < irq_rx_moderation_us m then irq_moderation_us m + step else irq_moderation_us m
                else irq_moderation_us m) in
      s\<lparr>cs_mod := m\<lparr>irq_moderation_us := us, irq_count := 0\<rparr>, cs_rx := (cs_rx s)\<lparr>irq_mod_score := 0\<rparr>\<rparr>)"

definition count_irq :: "chan_state \<Rightarrow> chan_state" where
  "count_irq s =
     (if irq_rx_adaptive (cs_mod s)
      then let n = irq_count (cs_mod s) + 1; s1 = s\<lparr>cs_mod := (cs_mod s)\<lparr>irq_count := n\<rparr>\<rparr> in
           if n = irq_adapt_irqs (cs_mod s) then efx_update_irq_mod s1 else s1
      else s)"

text \<open>\<open>efx_poll\<close>, without \<open>CONFIG_RFS_ACCEL\<close>: \<open>complete\<close> is the kernel's answer.\<close>

definition efx_poll ::
    "ef100_env \<Rightarrow> rx_env \<Rightarrow> rx_nic \<Rightarrow> efx_nic_type \<Rightarrow> bool \<Rightarrow> bool \<Rightarrow> int \<Rightarrow> ev_queue \<Rightarrow> chan_state
     \<Rightarrow> (int \<times> ev_queue \<times> chan_state) option" where
  "efx_poll tenv renv c ty copybuf complete budget q s =
     do {
       (spent, q, s) \<leftarrow> napi_process_channel tenv renv c ty copybuf budget q s;
       Some (spent, efx_poll_rearm budget complete spent q, if spent < budget then count_irq s else s)
     }"

text \<open>The interval stays above 0 and within a step of the limit that ethtool sets.\<close>

lemma irq_moderation_bounds:
  assumes "0 < irq_moderation_us (cs_mod s)"
    and "unat (irq_moderation_us (cs_mod s)) < unat (irq_rx_moderation_us (cs_mod s)) + unat (irq_mod_step_us (cs_mod s))"
    and "unat (irq_rx_moderation_us (cs_mod s)) + unat (irq_mod_step_us (cs_mod s)) < 2 ^ 32"
  shows "0 < irq_moderation_us (cs_mod (count_irq s))"
    and "unat (irq_moderation_us (cs_mod (count_irq s))) < unat (irq_rx_moderation_us (cs_mod s)) + unat (irq_mod_step_us (cs_mod s))"
  using assms
  by (auto simp: count_irq_def efx_update_irq_mod_def Let_def word_less_nat_alt unat_sub unat_word_ariths word_le_nat_alt)

subsection \<open>What each part sees of the events\<close>

definition is_rx :: "u64 \<Rightarrow> bool" where "is_rx e = (ev_type e = ESE_GZ_EF100_EV_RX_PKTS)"
definition is_tx :: "u64 \<Rightarrow> bool" where "is_tx e = (ev_type e = ESE_GZ_EF100_EV_TX_COMPLETION)"
definition is_mcdi :: "u64 \<Rightarrow> bool" where "is_mcdi e = (ev_type e = ESE_GZ_EF100_EV_MCDI)"

fun rx_events :: "rx_env \<Rightarrow> rx_nic \<Rightarrow> u64 list \<Rightarrow> rx_channel \<Rightarrow> rx_channel option" where
  "rx_events env c [] s = Some s"
| "rx_events env c (e # es) s = do { s \<leftarrow> efx_ef100_ev_rx env c e s; rx_events env c es s }"

fun mcdi_events :: "efx_nic_type \<Rightarrow> bool \<Rightarrow> u64 list \<Rightarrow> mcdi \<times> port_state \<Rightarrow> (mcdi \<times> port_state) option" where
  "mcdi_events ty copybuf [] mp = Some mp"
| "mcdi_events ty copybuf (e # es) mp =
     do {
       (handled, m) \<leftarrow> efx_mcdi_process_event ty e copybuf (fst mp);
       p \<leftarrow> (if handled then Some (snd mp) else map_option snd (efx_mcdi_port_process_event_common e (snd mp)));
       mcdi_events ty copybuf es (m, p)
     }"

lemma type_cases:
  obtains (rx) "is_rx e" "\<not> is_tx e" "\<not> is_mcdi e" | (tx) "is_tx e" "\<not> is_rx e" "\<not> is_mcdi e"
    | (mcdi) "is_mcdi e" "\<not> is_rx e" "\<not> is_tx e" | (none) "\<not> is_rx e" "\<not> is_tx e" "\<not> is_mcdi e"
  by (auto simp: is_rx_def is_tx_def is_mcdi_def)

lemma dispatch_rx:
  "is_rx e \<Longrightarrow> ef100_ev_dispatch (ef100_handlers tenv renv c ty copybuf) quota e s =
     map_option (\<lambda>rx. (1, s\<lparr>cs_rx := rx\<rparr>)) (efx_ef100_ev_rx renv c e (cs_rx s))"
  by (simp add: is_rx_def ef100_ev_dispatch_def ef100_handlers_def option.map_comp comp_def)

lemma dispatch_tx:
  "is_tx e \<Longrightarrow> ef100_ev_dispatch (ef100_handlers tenv renv c ty copybuf) quota e s =
     map_option (\<lambda>tx. (0, s\<lparr>cs_tx := tx\<rparr>)) (ef100_ev_tx tenv e (cs_tx s))"
  by (simp add: is_tx_def ef100_ev_dispatch_def ef100_handlers_def option.map_comp comp_def)

lemma dispatch_mcdi:
  "is_mcdi e \<Longrightarrow> ef100_ev_dispatch (ef100_handlers tenv renv c ty copybuf) quota e s =
     map_option (\<lambda>(m, p). (0, s\<lparr>cs_mcdi := m, cs_port := p\<rparr>)) (mcdi_events ty copybuf [e] (cs_mcdi s, cs_port s))"
  by (cases "efx_mcdi_process_event ty e copybuf (cs_mcdi s)";
      cases "efx_mcdi_port_process_event_common e (cs_port s)")
    (auto simp: is_mcdi_def ef100_ev_dispatch_def ef100_ev_mcdi_def ef100_handlers_def)

lemma dispatch_none:
  "\<not> is_rx e \<Longrightarrow> \<not> is_tx e \<Longrightarrow> \<not> is_mcdi e \<Longrightarrow> ef100_ev_dispatch H quota e s = Some (0, s)"
  by (simp add: is_rx_def is_tx_def is_mcdi_def ef100_ev_dispatch_def)

lemma mcdi_events_Cons: "mcdi_events ty copybuf (e # es) mp = Option.bind (mcdi_events ty copybuf [e] mp) (mcdi_events ty copybuf es)"
  by (cases "efx_mcdi_process_event ty e copybuf (fst mp)";
      cases "efx_mcdi_port_process_event_common e (snd mp)") auto

text \<open>The result of handling \<open>es\<close>, part by part.\<close>

definition parts_of :: "ef100_env \<Rightarrow> rx_env \<Rightarrow> rx_nic \<Rightarrow> efx_nic_type \<Rightarrow> bool \<Rightarrow> u64 list \<Rightarrow> chan_state \<Rightarrow> chan_state \<Rightarrow> bool" where
  "parts_of tenv renv c ty copybuf es s s' \<longleftrightarrow>
     rx_events renv c (filter is_rx es) (cs_rx s) = Some (cs_rx s') \<and>
     ef100_ev_txs tenv (filter is_tx es) (cs_tx s) = Some (cs_tx s') \<and>
     mcdi_events ty copybuf (filter is_mcdi es) (cs_mcdi s, cs_port s) = Some (cs_mcdi s', cs_port s')"

lemma run_events_parts:
  assumes "rx_events renv c (filter is_rx es) (cs_rx s) \<noteq> None"
    and "ef100_ev_txs tenv (filter is_tx es) (cs_tx s) \<noteq> None"
    and "mcdi_events ty copybuf (filter is_mcdi es) (cs_mcdi s, cs_port s) \<noteq> None"
  shows "\<exists>k s'. run_events (ef100_handlers tenv renv c ty copybuf) quota spent es s =
      Some (spent + int (length (filter is_rx (take k es))), k, s') \<and> parts_of tenv renv c ty copybuf (take k es) s s'"
  using assms
proof (induction es arbitrary: spent s)
  case Nil
  then show ?case
    by (intro exI [of _ 0] exI [of _ s]) (simp add: parts_of_def)
next
  case (Cons e es)
  let ?H = "ef100_handlers tenv renv c ty copybuf"
  show ?case
  proof (cases "spent < quota")
    case False
    then show ?thesis
      by (intro exI [of _ 0] exI [of _ s]) (simp add: parts_of_def)
  next
    case True
    have step: "\<exists>k s'. run_events ?H quota spent (e # es) s =
        Some (spent + int (length (filter is_rx (take k (e # es)))), k, s') \<and> parts_of tenv renv c ty copybuf (take k (e # es)) s s'"
      if d: "ef100_ev_dispatch ?H (quota - spent) e s = Some (if is_rx e then 1 else 0, t)"
        and h: "rx_events renv c (filter is_rx es) (cs_rx t) \<noteq> None" "ef100_ev_txs tenv (filter is_tx es) (cs_tx t) \<noteq> None"
          "mcdi_events ty copybuf (filter is_mcdi es) (cs_mcdi t, cs_port t) \<noteq> None"
        and p: "\<And>es s'. parts_of tenv renv c ty copybuf es t s' \<Longrightarrow> parts_of tenv renv c ty copybuf (e # es) s s'" for t
    proof -
      obtain k s' where "run_events ?H quota (spent + (if is_rx e then 1 else 0)) es t =
          Some (spent + (if is_rx e then 1 else 0) + int (length (filter is_rx (take k es))), k, s')"
          "parts_of tenv renv c ty copybuf (take k es) t s'"
        using Cons.IH [OF h] by blast
      then show ?thesis
        using True d p by (intro exI [of _ "Suc k"] exI [of _ s']) simp
    qed
    show ?thesis
    proof (cases e rule: type_cases)
      case rx
      then obtain r where r: "efx_ef100_ev_rx renv c e (cs_rx s) = Some r"
        using Cons.prems(1) by (cases "efx_ef100_ev_rx renv c e (cs_rx s)") auto
      show ?thesis
        by (rule step [of "s\<lparr>cs_rx := r\<rparr>"]) (use rx r Cons.prems in \<open>simp_all add: dispatch_rx parts_of_def\<close>)
    next
      case tx
      then obtain r where r: "ef100_ev_tx tenv e (cs_tx s) = Some r"
        using Cons.prems(2) by (cases "ef100_ev_tx tenv e (cs_tx s)") auto
      show ?thesis
        by (rule step [of "s\<lparr>cs_tx := r\<rparr>"]) (use tx r Cons.prems in \<open>simp_all add: dispatch_tx parts_of_def\<close>)
    next
      case mcdi
      have "mcdi_events ty copybuf [e] (cs_mcdi s, cs_port s) \<noteq> None"
        using Cons.prems(3) mcdi mcdi_events_Cons [of ty copybuf e "filter is_mcdi es" "(cs_mcdi s, cs_port s)"]
        by (cases "mcdi_events ty copybuf [e] (cs_mcdi s, cs_port s)") (simp_all del: mcdi_events.simps)
      then obtain m p where r: "mcdi_events ty copybuf [e] (cs_mcdi s, cs_port s) = Some (m, p)"
        by auto
      have cons: "mcdi_events ty copybuf (e # fs) (cs_mcdi s, cs_port s) = mcdi_events ty copybuf fs (m, p)" for fs
        using mcdi_events_Cons [of ty copybuf e fs "(cs_mcdi s, cs_port s)"] r by (simp del: mcdi_events.simps)
      show ?thesis
        by (rule step [of "s\<lparr>cs_mcdi := m, cs_port := p\<rparr>"])
          (use mcdi r Cons.prems in \<open>simp_all add: dispatch_mcdi parts_of_def cons del: mcdi_events.simps(2)\<close>)
    next
      case none
      then show ?thesis
        by (intro step [of s]) (use Cons.prems in \<open>simp_all add: dispatch_none parts_of_def\<close>)
    qed
  qed
qed

end
