(* ===== verification/Napi_Props.thy ===== *)
theory Napi_Props
  imports Napi Mcdi_Props
begin

section \<open>The poll of a channel as a whole\<close>

lemma rx_events_ok:
  assumes "rx_reach c s" and "sum_list (map event_packets es) \<le> fill_of (removed_count s) s"
  obtains s' where "rx_events env c es s = Some s'" and "rx_reach c s'"
proof -
  have "\<exists>s'. rx_events env c es s = Some s' \<and> rx_reach c s'"
    using assms
  proof (induction es arbitrary: s)
    case Nil
    then show ?case
      by simp
  next
    case (Cons e es)
    obtain A gs k where good: "rx_good c A gs k s" and nic: "nic_ok c"
      using rx_reach_good [OF Cons.prems(1)] by auto
    have le: "event_packets e \<le> fill_of (removed_count s) s"
      using Cons.prems(2) by simp
    obtain s1 where s1: "efx_ef100_ev_rx env c e s = Some s1"
        "fill_of (removed_count s) s = event_packets e + fill_of (removed_count s1) s1"
      using ev_rx_ok [OF nic good le, of env] by metis
    have "rx_reach c s1"
      by (rule reach_event [OF Cons.prems(1) le s1(1)])
    moreover have "sum_list (map event_packets es) \<le> fill_of (removed_count s1) s1"
      using Cons.prems(2) s1(2) by simp
    ultimately show ?case
      using Cons.IH [of s1] s1(1) by simp
  qed
  then show ?thesis
    using that by blast
qed

lemma sum_prefix: "sum_list (map f (filter P (take k es))) \<le> (sum_list (map f (filter P es)) :: nat)"
proof -
  have "filter P es = filter P (take k es) @ filter P (drop k es)"
    by (simp flip: filter_append)
  then show ?thesis
    by simp
qed

lemma filter_prefix: "\<exists>zs. filter P es = filter P (take k es) @ zs"
proof -
  have "filter P es = filter P (take k es) @ filter P (drop k es)"
    by (simp flip: filter_append)
  then show ?thesis
    by blast
qed

lemma events_ok_append: "events_ok env (es @ fs) ch \<Longrightarrow> events_ok env es ch"
  by (induction es arbitrary: ch) (auto split: option.splits)

lemma events_ok_run: "events_ok env es ch \<Longrightarrow> ef100_ev_txs env es ch \<noteq> None"
  by (induction es arbitrary: ch) (auto split: option.splits)

text \<open>The transmit part of the poll is \<open>efx_process_channel\<close> of \<open>Ef100_Tx\<close> on the completion events.\<close>

lemma tx_part:
  assumes "ef100_ev_txs tenv es (begin_poll ch) = Some ch1"
  shows "\<exists>ch2. holdoff_loop ch1 = Some ch2 \<and> efx_process_channel tenv es ch = Some (wake_queue tenv ch2)"
  using assms holdoff_loop_ends [of ch1] by (simp add: efx_process_channel_def begin_poll_def Let_def)

text \<open>The port's carrier through the management controller's events.\<close>

lemma mcdi_events_carrier:
  assumes "carrier_follows p" and "mcdi_events ty copybuf es (m, p) = Some (m', p')"
  shows "carrier_follows p'"
  using assms
proof (induction es arbitrary: m p)
  case Nil
  then show ?case
    by simp
next
  case (Cons e es)
  obtain b m1 where m1: "efx_mcdi_process_event ty e copybuf m = Some (b, m1)"
    using Cons.prems(2) by (cases "efx_mcdi_process_event ty e copybuf m") auto
  show ?case
  proof (cases b)
    case True
    then show ?thesis
      using Cons m1 by simp
  next
    case False
    then obtain b' p1 where p1: "efx_mcdi_port_process_event_common e p = Some (b', p1)"
        "mcdi_events ty copybuf es (m1, p1) = Some (m', p')"
      using Cons.prems(2) m1 by (cases "efx_mcdi_port_process_event_common e p") auto
    show ?thesis
      by (rule Cons.IH [OF port_event_follows [OF Cons.prems(1) p1(1)] p1(2)])
  qed
qed

subsection \<open>The channel\<close>

text \<open>
  What the controller may have posted: receive events for no more packets than buffers are posted,
  completions of descriptors that were sent, and events that the management interface handles.
\<close>

definition pending_ok :: "ef100_env \<Rightarrow> efx_nic_type \<Rightarrow> bool \<Rightarrow> u64 list \<Rightarrow> chan_state \<Rightarrow> bool" where
  "pending_ok tenv ty copybuf es s \<longleftrightarrow>
     sum_list (map event_packets (filter is_rx es)) \<le> fill_of (removed_count (cs_rx s)) (cs_rx s) \<and>
     events_ok tenv (filter is_tx es) (begin_poll (cs_tx s)) \<and>
     mcdi_events ty copybuf (filter is_mcdi es) (cs_mcdi s, cs_port s) \<noteq> None"

text \<open>C40. A poll of a channel handles the events that the controller has posted once each, in the order
  posted, and all of them unless the budget is used up by receive events; pointer and phase are left
  where the next unhandled event is. The receive queue, the transmit queues, the management
  interface and the port each go through exactly their own events; the receive queue is then flushed
  and refilled, and the transmit queues end as \<open>efx_process_channel\<close> leaves them. All of it
  returns, and the parts stay in their reachable states.\<close>

theorem channel_poll_composed:
  assumes "evq_inv h r q" and "evq_enabled q" and "rx_reach c (cs_rx s)" and "tx_reach tenv n (cs_tx s) S"
    and "pending_ok tenv ty copybuf (drop r h) s"
  shows "\<exists>k s' rx1 spent. napi_process_channel tenv renv c ty copybuf budget q s = Some (spent, evq_at (r + k) q, s') \<and>
    evq_inv h (r + k) (evq_at (r + k) q) \<and> spent = int (length (filter is_rx (take k (drop r h)))) \<and>
    (spent < budget \<longrightarrow> r + k = length h) \<and>
    rx_events renv c (filter is_rx (take k (drop r h))) (cs_rx s) = Some rx1 \<and>
    rx_end_of_poll renv c (nat spent) rx1 = Some (cs_rx s') \<and>
    efx_process_channel tenv (filter is_tx (take k (drop r h))) (cs_tx s) = Some (cs_tx s') \<and>
    mcdi_events ty copybuf (filter is_mcdi (take k (drop r h))) (cs_mcdi s, cs_port s) = Some (cs_mcdi s', cs_port s') \<and>
    rx_reach c (cs_rx s') \<and> tx_reach tenv n (cs_tx s') S \<and> (carrier_follows (cs_port s) \<longrightarrow> carrier_follows (cs_port s'))"
proof -
  define es where "es = drop r h"
  define H where "H = ef100_handlers tenv renv c ty copybuf"
  define s0 where "s0 = s\<lparr>cs_tx := begin_poll (cs_tx s)\<rparr>"
  have s0: "cs_rx s0 = cs_rx s" "cs_tx s0 = begin_poll (cs_tx s)" "cs_mcdi s0 = cs_mcdi s" "cs_port s0 = cs_port s"
    by (simp_all add: s0_def)
  note ok = assms(5) [folded es_def, unfolded pending_ok_def]
  obtain rx where "rx_events renv c (filter is_rx es) (cs_rx s) = Some rx"
    by (rule rx_events_ok [OF assms(3)]) (use ok in auto)
  then have "\<exists>k s'. run_events H budget 0 es s0 = Some (0 + int (length (filter is_rx (take k es))), k, s') \<and>
      parts_of tenv renv c ty copybuf (take k es) s0 s'"
    unfolding H_def using ok events_ok_run by (intro run_events_parts) (auto simp: s0)
  then obtain k s1 where run: "run_events H budget 0 es s0 = Some (int (length (filter is_rx (take k es))), k, s1)"
    and parts: "parts_of tenv renv c ty copybuf (take k es) s0 s1"
    by auto
  define spent where "spent = int (length (filter is_rx (take k es)))"
  have k: "k \<le> length es" "spent < budget \<longrightarrow> k = length es"
    using run_events_bound [OF run] unfolding spent_def by blast+
  have len: "length es = length h - r" "r \<le> length h"
    using evq_invD(2) [OF assms(1)] by (simp_all add: es_def)
  have loop: "ef100_ev_process H budget q s0 = Some (spent, evq_at (r + k) q, s1)"
    using ev_loop_run [OF assms(1), of H budget 0 s0] run assms(2) by (simp add: ef100_ev_process_def es_def spent_def)
  note p = parts [unfolded parts_of_def s0]
  obtain rx1 where rx1: "rx_events renv c (filter is_rx (take k es)) (cs_rx s) = Some rx1" "rx_reach c rx1"
    by (rule rx_events_ok [OF assms(3), of "filter is_rx (take k es)"])
      (use ok sum_prefix [of event_packets is_rx k es] in auto)
  then have cs1: "cs_rx s1 = rx1"
    using p by simp
  obtain A gs m where "rx_good c A gs m rx1" "nic_ok c"
    using rx_reach_good [OF rx1(2)] by auto
  then obtain rx2 where rx2: "rx_end_of_poll renv c (nat spent) rx1 = Some rx2"
    using end_of_poll_ok [of c A gs m rx1 renv "nat spent"] by metis
  obtain tx2 where tx2: "holdoff_loop (cs_tx s1) = Some tx2"
      "efx_process_channel tenv (filter is_tx (take k es)) (cs_tx s) = Some (wake_queue tenv tx2)"
    using tx_part [of tenv "filter is_tx (take k es)" "cs_tx s" "cs_tx s1"] p by blast
  have "events_ok tenv (filter is_tx (take k es)) (begin_poll (cs_tx s))"
    using ok filter_prefix [of is_tx es k] events_ok_append by metis
  then have reach_tx: "tx_reach tenv n (wake_queue tenv tx2) S"
    by (rule tx_poll [OF assms(4) _ tx2(2)])
  define s' where "s' = s1\<lparr>cs_rx := rx2, cs_tx := wake_queue tenv tx2\<rparr>"
  have "napi_process_channel tenv renv c ty copybuf budget q s = Some (spent, evq_at (r + k) q, s')"
    using assms(2) loop rx2 tx2(1) cs1
    by (simp add: napi_process_channel_def begin_poll_def [symmetric] s0_def [symmetric] H_def [symmetric] s'_def Let_def)
  moreover have "evq_inv h (r + k) (evq_at (r + k) q)"
    using k(1) len by (intro evq_at_inv [OF assms(1)]) simp
  moreover have "spent < budget \<longrightarrow> r + k = length h"
    using k(2) len by simp
  moreover have "carrier_follows (cs_port s1)" if "carrier_follows (cs_port s)"
    using mcdi_events_carrier [OF that] p by blast
  then have "carrier_follows (cs_port s) \<longrightarrow> carrier_follows (cs_port s')"
    by (simp add: s'_def)
  moreover have "cs_rx s' = rx2" "cs_tx s' = wake_queue tenv tx2" "cs_mcdi s' = cs_mcdi s1" "cs_port s' = cs_port s1"
    by (simp_all add: s'_def)
  ultimately show ?thesis
    using rx1(1) rx2 tx2(2) p reach_poll [OF rx1(2) rx2] reach_tx spent_def unfolding es_def [symmetric]
    by (intro exI [of _ k] exI [of _ s'] exI [of _ rx1] exI [of _ spent]) (simp only: simp_thms)
qed

text \<open>The rest of \<open>efx_poll\<close> re-arms the interrupt and adapts its moderation.\<close>

lemma count_irq_reach:
  assumes "rx_reach c (cs_rx s)"
  shows "rx_reach c (cs_rx (count_irq s))" and "cs_tx (count_irq s) = cs_tx s" and "cs_port (count_irq s) = cs_port s"
  using assms by (simp_all add: count_irq_def efx_update_irq_mod_def Let_def reach_score)

lemma efx_poll_ok:
  assumes "napi_process_channel tenv renv c ty copybuf budget q s = Some (spent, q', s')"
    and "evq_inv h r q'" and "rx_reach c (cs_rx s')"
  obtains q2 s2 where "efx_poll tenv renv c ty copybuf complete budget q s = Some (spent, q2, s2)"
    and "evq_inv h r q2" and "rx_reach c (cs_rx s2)" and "cs_tx s2 = cs_tx s'"
    and "complete \<and> spent < budget \<longrightarrow> evq_primes q2 = EFX_POPULATE_DWORD
      [(ERF_GZ_EVQ_ID, evq_channel q'), (ERF_GZ_IDX, eventq_read_ptr q' AND eventq_mask q')] # evq_primes q'"
proof (rule that)
  show "efx_poll tenv renv c ty copybuf complete budget q s =
    Some (spent, efx_poll_rearm budget complete spent q', if spent < budget then count_irq s' else s')"
    by (simp add: efx_poll_def assms(1))
  show "evq_inv h r (efx_poll_rearm budget complete spent q')"
    using assms(2) by (simp add: efx_poll_rearm_def ef100_ev_read_ack_def evq_inv_def evq_size_def)
qed (use assms(3) in \<open>simp_all add: count_irq_reach efx_poll_rearm_def ef100_ev_read_ack_def\<close>)

text \<open>The small receive queue and a transmit queue with one packet on a channel whose controller has posted an
  event for two received packets.\<close>

definition evdemo_queue :: ev_queue where
  "evdemo_queue =
     nic_post_event 0 2 (efx_start_eventq (snd (efx_init_eventq True 0 (snd (ef100_ev_probe True
       \<lparr>evq_buf = [], eventq_mask = mask 2, eventq_read_ptr = 0, evq_phase = False, evq_channel = 0,
        evq_enabled = False, eventq_init = False, evq_primes = []\<rparr>)))))"

definition portdemo :: port_state where
  "portdemo =
     \<lparr>link_state = \<lparr>ls_up = True, ls_fd = True, ls_fc = 0, ls_speed = 10000, ls_ld_caps = 0, ls_lp_caps = 0\<rparr>,
      carrier_ok = True, reps_carrier = True, n_link_state_changes = 1, wanted_fc = 0, link_advertising = 0, fec_config = 0,
      phy_media = 7, phy_flags = 0, supported_cap = 0, phy_mode = 0, loopback_mode = 0, net_up = True, uninit = False,
      netif_running = True, active_queues = 0, flush_wakeups = 0, set_link_calls = [], set_link_ok = True\<rparr>"

definition moddemo :: irq_mod where
  "moddemo =
     \<lparr>irq_rx_adaptive = True, irq_mod_step_us = 1, irq_rx_moderation_us = 60, irq_adapt_low_thresh = 8000,
      irq_adapt_high_thresh = 16000, irq_adapt_irqs = 1000, irq_count = 0, irq_moderation_us = 60\<rparr>"

definition chandemo :: chan_state where
  "chandemo = \<lparr>cs_rx = rx_demo, cs_tx = txdemo_sent, cs_mcdi = efx_mcdi_init demo_nic, cs_port = portdemo, cs_mod = moddemo\<rparr>"

lemma evdemo_inv: "evq_inv [2] 0 evdemo_queue" "evq_enabled evdemo_queue"
proof -
  define q0 where "q0 = \<lparr>evq_buf = [], eventq_mask = mask 2, eventq_read_ptr = 0, evq_phase = False, evq_channel = 0,
        evq_enabled = False, eventq_init = False, evq_primes = []\<rparr>"
  define q1 where "q1 = snd (ef100_ev_probe True q0)"
  have m: "eventq_mask q0 = mask 2" "eventq_mask q1 = mask 2"
    by (simp_all add: q1_def q0_def ef100_ev_probe_def)
  have "evq_size q1 = evq_size q0"
    by (simp add: evq_size_def m)
  then have "length (evq_buf q1) = Suc (evq_size q1)"
    using probe_evq_length [OF m(1)] by (simp add: q1_def)
  then have "evq_inv [] 0 (snd (efx_init_eventq True 0 q1))"
    by (intro init_evq_inv [OF m(2)]) simp_all
  then have start: "evq_inv [] 0 (efx_start_eventq (snd (efx_init_eventq True 0 q1)))"
    by (simp add: efx_start_eventq_def ef100_ev_read_ack_def evq_inv_def evq_size_def)
  have "\<not> ev_phase 2"
    by code_simp
  then show "evq_inv [2] 0 evdemo_queue"
    using post_evq_inv [OF start, of 2] by (simp add: evdemo_queue_def q1_def q0_def evq_size_def)
  show "evq_enabled evdemo_queue"
    by (simp add: evdemo_queue_def nic_post_event_def efx_start_eventq_def ef100_ev_read_ack_def)
qed

lemma evdemo_types: "is_rx 2" "\<not> is_tx 2" "\<not> is_mcdi 2"
  by code_simp+

lemma chandemo_pending: "pending_ok txdemo_env ef100_pf_nic_type True (drop 0 [2]) chandemo"
  by (simp add: pending_ok_def evdemo_types chandemo_def rx_demo_packets rx_demo_fill)

lemma channel_poll_composed_witness:
  "\<exists>s'. napi_process_channel txdemo_env rx_demo_env rx_demo_nic ef100_pf_nic_type True 64 evdemo_queue chandemo =
     Some (1, evq_at 1 evdemo_queue, s') \<and> rx_reach rx_demo_nic (cs_rx s') \<and> carrier_follows (cs_port s')"
proof -
  have "rx_reach rx_demo_nic (cs_rx chandemo)" "tx_reach txdemo_env 40 (cs_tx chandemo) ((\<lambda>_. {#})(0 := {#7#}))"
    using rx_demo_reach txdemo_sent_reach by (simp_all add: chandemo_def)
  from channel_poll_composed [OF evdemo_inv this chandemo_pending, of rx_demo_env 64] obtain k s' spent where
    poll: "napi_process_channel txdemo_env rx_demo_env rx_demo_nic ef100_pf_nic_type True 64 evdemo_queue chandemo =
      Some (spent, evq_at (0 + k) evdemo_queue, s')"
      "spent = int (length (filter is_rx (take k (drop 0 [2]))))" "spent < 64 \<longrightarrow> 0 + k = length [2 :: u64]"
      "rx_reach rx_demo_nic (cs_rx s')" "carrier_follows (cs_port chandemo) \<longrightarrow> carrier_follows (cs_port s')"
    by metis
  have "length (filter is_rx (take k [2])) \<le> 1"
    by (cases k) simp_all
  then have "k = 1"
    using poll(2,3) by simp
  moreover have "carrier_follows (cs_port chandemo)"
    by (simp add: chandemo_def portdemo_def carrier_follows_def)
  ultimately show ?thesis
    using poll evdemo_types by auto
qed

end
