(* ===== verification/Ring_Sizes.thy ===== *)
theory Ring_Sizes
  imports Evq
begin

section \<open>Sizes of the rings (efx_common.c, efx_channels.c, ef100_ethtool.c)\<close>

text \<open>
  The firmware of a controller may say which sizes of rings it supports and which of them it
  guarantees: bit \<open>n\<close> of a map stands for \<open>2 ^ n\<close> entries, so that a size that is a power of two is
  looked up by a conjunction. \<open>supported_bitmap\<close> 0 means that the firmware did not say. The sizes
  that the user asked for are adapted to the maps when channels are probed.
\<close>

record ring_nic =
  supported_bitmap :: u64
  guaranteed_bitmap :: u64
  rn_rxq_entries :: u32
  rn_txq_entries :: u32

definition efx_is_supported_ringsize :: "ring_nic \<Rightarrow> u64 \<Rightarrow> bool" where
  "efx_is_supported_ringsize c entries =
     (if supported_bitmap c \<noteq> 0 then supported_bitmap c AND entries \<noteq> 0 else True)"

definition efx_is_guaranteed_ringsize :: "ring_nic \<Rightarrow> u64 \<Rightarrow> bool" where
  "efx_is_guaranteed_ringsize c entries =
     (if supported_bitmap c \<noteq> 0 then guaranteed_bitmap c AND entries \<noteq> 0 else True)"

subsection \<open>The searches\<close>

text \<open>A size shifted out of the word is 0 and is in no map. The searches end because each step with a
  size that is not 0 brings it nearer to that.\<close>

definition left_steps :: "u64 \<Rightarrow> nat" where
  "left_steps w = (LEAST n. push_bit n w = 0)"

definition right_steps :: "u64 \<Rightarrow> nat" where
  "right_steps w = (LEAST n. drop_bit n w = 0)"

lemma push_all: "push_bit 64 (w :: u64) = 0"
  by (rule bit_word_eqI) (simp add: bit_push_bit_iff)

lemma drop_all: "drop_bit 64 (w :: u64) = 0"
  by (rule bit_word_eqI) (auto simp: bit_drop_bit_eq dest: bit_imp_le_length)

lemma left_steps_push:
  assumes "w \<noteq> 0"
  shows "left_steps w = Suc (left_steps (push_bit 1 w))"
proof -
  have "left_steps w = Suc (LEAST n. push_bit (Suc n) w = 0)"
    unfolding left_steps_def by (rule Least_Suc [of _ 64]) (use push_all assms in auto)
  then show ?thesis
    by (simp add: left_steps_def push_bit_push_bit)
qed

lemma right_steps_drop:
  assumes "w \<noteq> 0"
  shows "right_steps w = Suc (right_steps (drop_bit 1 w))"
proof -
  have "right_steps w = Suc (LEAST n. drop_bit (Suc n) w = 0)"
    unfolding right_steps_def by (rule Least_Suc [of _ 64]) (use drop_all assms in auto)
  then show ?thesis
    by (simp add: right_steps_def drop_bit_drop_bit)
qed

lemma steps_0 [simp]: "left_steps 0 = 0" "right_steps 0 = 0"
  by (simp_all add: left_steps_def right_steps_def)

definition size_ok :: "ring_nic \<Rightarrow> u64 \<Rightarrow> bool" where
  "size_ok c w \<longleftrightarrow> w AND supported_bitmap c \<noteq> 0 \<and> w AND guaranteed_bitmap c \<noteq> 0"

lemma both_steps:
  assumes "push_bit 1 more_entries OR drop_bit 1 less_entries \<noteq> 0"
  shows "left_steps (push_bit 1 more_entries) + right_steps (drop_bit 1 less_entries) < left_steps more_entries + right_steps less_entries"
proof -
  have "more_entries \<noteq> 0 \<or> less_entries \<noteq> 0"
    using assms by auto
  then show ?thesis
    using left_steps_push [of more_entries] right_steps_drop [of less_entries] by (cases "more_entries = 0"; cases "less_entries = 0") simp_all
qed

text \<open>The loop of \<open>efx_best_guaranteed_ringsize\<close> looks in both directions.\<close>

function best_ringsize_loop :: "ring_nic \<Rightarrow> bool \<Rightarrow> u64 \<Rightarrow> u64 \<Rightarrow> u64 \<Rightarrow> u64" where
  "best_ringsize_loop c fallback entries more_entries less_entries =
     (if size_ok c more_entries then more_entries
      else if size_ok c less_entries then less_entries
      else
        let more_entries' = push_bit 1 more_entries; less_entries' = drop_bit 1 less_entries in
        if (more_entries' OR less_entries') AND guaranteed_bitmap c \<noteq> 0 then best_ringsize_loop c fallback entries more_entries' less_entries'
        else if fallback \<and> (more_entries' OR less_entries') AND supported_bitmap c \<noteq> 0
        then best_ringsize_loop c fallback entries more_entries' less_entries'
        else entries)"
  by pat_completeness auto

termination best_ringsize_loop
proof (relation "measure (\<lambda>(c, f, e, more_entries, less_entries). left_steps more_entries + right_steps less_entries)", goal_cases)
  case 1
  then show ?case
    by simp
next
  case (2 c fallback entries more_entries less_entries m l)
  have "push_bit 1 more_entries OR drop_bit 1 less_entries \<noteq> 0"
    using 2(5) unfolding 2(3,4) by (metis and_zero_eq word_bw_comms(1))
  then show ?case
    using both_steps unfolding 2(3,4) by simp
next
  case (3 c fallback entries more_entries less_entries m l)
  have "push_bit 1 more_entries OR drop_bit 1 less_entries \<noteq> 0"
    using 3(6) unfolding 3(3,4) by (metis and_zero_eq word_bw_comms(1))
  then show ?case
    using both_steps unfolding 3(3,4) by simp
qed

declare best_ringsize_loop.simps [simp del]

definition efx_best_guaranteed_ringsize :: "ring_nic \<Rightarrow> u64 \<Rightarrow> bool \<Rightarrow> u64" where
  "efx_best_guaranteed_ringsize c entries fallback_to_supported =
     best_ringsize_loop c fallback_to_supported entries (push_bit 1 entries) (drop_bit 1 entries)"

text \<open>The loop of \<open>efx_next_guaranteed_ringsize\<close>. Its two tests for going on are the same: the second was
  meant for \<open>supported_bitmap\<close>.\<close>

function next_ringsize_loop :: "ring_nic \<Rightarrow> bool \<Rightarrow> u64 \<Rightarrow> u64 \<Rightarrow> u64" where
  "next_ringsize_loop c fallback entries more_entries =
     (if size_ok c more_entries then more_entries
      else
        let more_entries' = push_bit 1 more_entries in
        if more_entries' AND guaranteed_bitmap c \<noteq> 0 \<or> fallback \<and> more_entries' AND guaranteed_bitmap c \<noteq> 0
        then next_ringsize_loop c fallback entries more_entries'
        else entries)"
  by pat_completeness auto

termination next_ringsize_loop
proof (relation "measure (\<lambda>(c, f, e, more_entries). left_steps more_entries)", goal_cases)
  case 1
  then show ?case
    by simp
next
  case (2 c fallback entries more_entries m)
  then have "more_entries \<noteq> 0"
    by auto
  then show ?case
    using left_steps_push 2(2) by simp
qed

declare next_ringsize_loop.simps [simp del]

definition efx_next_guaranteed_ringsize :: "ring_nic \<Rightarrow> u64 \<Rightarrow> bool \<Rightarrow> u64" where
  "efx_next_guaranteed_ringsize c entries fallback_to_supported =
     next_ringsize_loop c fallback_to_supported entries (push_bit 1 entries)"

subsection \<open>Limits\<close>

text \<open>\<open>ffs\<close> and \<open>fls\<close> of the kernel: the number of the lowest and of the highest bit, from 1; 0 for 0.\<close>

definition ffs :: "u32 \<Rightarrow> nat" where
  "ffs w = (if w = 0 then 0 else Suc (length (takeWhile (\<lambda>i. \<not> bit w i) [0..<32])))"

definition fls :: "u32 \<Rightarrow> nat" where
  "fls w = (if w = 0 then 0 else 32 - length (takeWhile (\<lambda>i. \<not> bit w (31 - i)) [0..<32]))"

text \<open>The shifted 1 is an \<open>int\<close>.\<close>

definition map_size :: "nat \<Rightarrow> u64" where
  "map_size n = scast (push_bit (n - 1) 1 :: u32)"

definition efx_min_dmaq_size :: "ring_nic \<Rightarrow> u64" where
  "efx_min_dmaq_size c = (if supported_bitmap c \<noteq> 0 then map_size (ffs (ucast (supported_bitmap c))) else 512)"

definition efx_max_dmaq_size :: "ring_nic \<Rightarrow> u64" where
  "efx_max_dmaq_size c = (if supported_bitmap c \<noteq> 0 then map_size (fls (ucast (supported_bitmap c))) else 4096)"

definition efx_min_evtq_size :: "ring_nic \<Rightarrow> u64" where
  "efx_min_evtq_size c = (if supported_bitmap c \<noteq> 0 then map_size (ffs (ucast (supported_bitmap c))) else 512)"

definition efx_max_evtq_size :: "ring_nic \<Rightarrow> u64" where
  "efx_max_evtq_size c = (if supported_bitmap c \<noteq> 0 then map_size (fls (ucast (supported_bitmap c))) else 16384)"

subsection \<open>Using the sizes\<close>

definition efx_calc_queue_entries :: "ring_nic \<Rightarrow> int \<times> ring_nic" where
  "efx_calc_queue_entries c =
     (let entries = rn_txq_entries c;
          c1 = (if efx_is_guaranteed_ringsize c (ucast entries) then c
                else c\<lparr>rn_txq_entries := ucast (efx_best_guaranteed_ringsize c (ucast entries) False)\<rparr>) in
      if \<not> efx_is_guaranteed_ringsize c (ucast entries) \<and> rn_txq_entries c1 = entries then (- ERANGE, c1)
      else
        let entries = rn_rxq_entries c1;
            c2 = (if efx_is_guaranteed_ringsize c1 (ucast entries) then c1
                  else c1\<lparr>rn_rxq_entries := ucast (efx_best_guaranteed_ringsize c1 (ucast entries) False)\<rparr>) in
        if \<not> efx_is_guaranteed_ringsize c1 (ucast entries) \<and> rn_rxq_entries c2 = entries then (- ERANGE, c2)
        else (0, c2))"

text \<open>The sizes asked for by the user. If the interface is up (\<open>restart\<close>), it is closed and opened again,
  which returns \<open>rc_open\<close>.\<close>

definition ef100_ethtool_set_ringparam ::
    "u32 \<Rightarrow> u32 \<Rightarrow> u32 \<Rightarrow> u32 \<Rightarrow> bool \<Rightarrow> int \<Rightarrow> ring_nic \<Rightarrow> int \<times> ring_nic" where
  "ef100_ethtool_set_ringparam rx_pending tx_pending rx_mini_pending rx_jumbo_pending restart rc_open c =
     (if rx_mini_pending \<noteq> 0 \<or> rx_jumbo_pending \<noteq> 0 then (- EINVAL, c)
      else if rx_pending AND (rx_pending - 1) \<noteq> 0 \<or> tx_pending AND (tx_pending - 1) \<noteq> 0 then (- EINVAL, c)
      else if rx_pending = rn_rxq_entries c \<and> tx_pending = rn_txq_entries c then (0, c)
      else if supported_bitmap c = 0 then (- EOPNOTSUPP, c)
      else if rx_pending \<noteq> 0 \<and> guaranteed_bitmap c AND ucast rx_pending = 0 then (- ERANGE, c)
      else if tx_pending \<noteq> 0 \<and> guaranteed_bitmap c AND ucast tx_pending = 0 then (- ERANGE, c)
      else (if restart then rc_open else 0, c\<lparr>rn_rxq_entries := rx_pending, rn_txq_entries := tx_pending\<rparr>))"

text \<open>The event queue of a channel: \<open>txqs\<close> says of each transmit queue whether it takes time stamps, and the
  memory is allocated or not (\<open>ok\<close>).\<close>

definition evq_wanted :: "ring_nic \<Rightarrow> bool \<Rightarrow> bool list \<Rightarrow> u32 \<Rightarrow> u64" where
  "evq_wanted c has_rx txqs channel =
     (if has_rx then ucast (rn_rxq_entries c) else 0) +
     sum_list (map (\<lambda>ts. ucast (if ts then rn_txq_entries c * 3 else rn_txq_entries c)) txqs) +
     (if channel = 0 then 256 else 128)"

definition evq_capped :: "ring_nic \<Rightarrow> u64 \<Rightarrow> u64" where
  "evq_capped c entries =
     (if efx_max_evtq_size c < entries then efx_max_evtq_size c else of_nat (roundup_pow_of_two (unat entries)))"

definition efx_probe_eventq :: "ring_nic \<Rightarrow> bool \<Rightarrow> bool list \<Rightarrow> bool \<Rightarrow> ev_queue \<Rightarrow> int \<times> ev_queue" where
  "efx_probe_eventq c has_rx txqs ok q =
     (let entries = evq_capped c (evq_wanted c has_rx txqs (evq_channel q));
          new_entries = ucast (efx_next_guaranteed_ringsize c entries True) :: u32;
          guaranteed = efx_is_guaranteed_ringsize c entries in
      if \<not> guaranteed \<and> ucast new_entries = entries then (- ERANGE, q)
      else
        let entries = (if guaranteed then entries else ucast new_entries) in
        ef100_ev_probe ok (q\<lparr>eventq_mask := ucast (max entries (efx_min_evtq_size c) - 1)\<rparr>))"

definition efx_remove_eventq :: "ev_queue \<Rightarrow> ev_queue" where
  "efx_remove_eventq q = q\<lparr>evq_buf := []\<rparr>"

subsection \<open>What the searches find\<close>

definition pow :: "nat \<Rightarrow> u64" where
  "pow k = push_bit k 1"

lemma bit_pow: "bit (pow k) n \<longleftrightarrow> n = k \<and> k < 64"
  unfolding pow_def bit_push_bit_iff by (auto simp: bit_1_iff)

lemma pow_and: "w AND pow k \<noteq> 0 \<longleftrightarrow> bit w k"
proof
  assume "w AND pow k \<noteq> 0"
  then obtain n where "bit (w AND pow k) n"
    using bit_eqI [of "w AND pow k" 0] by auto
  then show "bit w k"
    by (auto simp: bit_and_iff bit_pow)
next
  assume b: "bit w k"
  then have "bit (w AND pow k) k"
    using bit_imp_le_length [OF b] by (simp add: bit_and_iff bit_pow)
  then show "w AND pow k \<noteq> 0"
    by auto
qed

lemma push_pow: "push_bit 1 (pow k) = pow (Suc k)"
  by (simp add: pow_def push_bit_push_bit)

lemma pow_double: "pow k * 2 = pow (Suc k)"
  using push_pow [of k] by simp

lemma drop_pow: "drop_bit 1 (pow (Suc k)) = (if Suc k < 64 then pow k else 0)"
  by (rule bit_word_eqI) (auto simp: bit_drop_bit_eq bit_pow)

lemma drop_pow_0: "drop_bit 1 (pow 0) = 0"
  by (rule bit_word_eqI) (auto simp: bit_drop_bit_eq bit_pow)

lemma drop_pow_range: "drop_bit 1 (pow k) = 0 \<or> drop_bit 1 (pow k) \<in> range pow"
  using drop_pow_0 drop_pow by (cases k) (metis rangeI)+

lemma size_ok_pow: "size_ok c (pow k) \<longleftrightarrow> bit (supported_bitmap c) k \<and> bit (guaranteed_bitmap c) k"
  using pow_and [of "supported_bitmap c" k] pow_and [of "guaranteed_bitmap c" k]
  by (simp add: size_ok_def and.commute)

text \<open>The upward search returns its argument or a larger size that is supported and guaranteed.\<close>

lemma next_loop_result:
  "more_entries = pow j \<Longrightarrow> next_ringsize_loop c f entries more_entries = entries \<or>
     (\<exists>i\<ge>j. next_ringsize_loop c f entries more_entries = pow i \<and> size_ok c (pow i))"
proof (induction c f entries more_entries arbitrary: j rule: next_ringsize_loop.induct)
  case (1 c f entries more_entries)
  show ?case
  proof (cases "size_ok c more_entries")
    case True
    then show ?thesis
      using 1(2) by (subst (1 2) next_ringsize_loop.simps) auto
  next
    case False
    have "push_bit 1 more_entries = pow (Suc j)"
      using 1(2) push_pow by simp
    then show ?thesis
      using 1(1) [OF False refl _ , of "Suc j"] False
      by (auto simp: next_ringsize_loop.simps [of c f entries more_entries] Let_def intro: Suc_leD)
  qed
qed

lemma next_ringsize_result:
  "efx_next_guaranteed_ringsize c (pow k) f = pow k \<or>
     (\<exists>i>k. efx_next_guaranteed_ringsize c (pow k) f = pow i \<and> size_ok c (pow i))"
  using next_loop_result [OF refl, where j = "Suc k" and c = c and f = f and entries = "pow k"]
  unfolding efx_next_guaranteed_ringsize_def push_pow Suc_le_eq .

text \<open>The search in both directions returns its argument or a size that is supported and guaranteed.\<close>

lemma best_loop_result:
  "more_entries = 0 \<or> more_entries \<in> range pow \<Longrightarrow> less_entries = 0 \<or> less_entries \<in> range pow \<Longrightarrow>
     best_ringsize_loop c f entries more_entries less_entries = entries \<or>
     (\<exists>i. best_ringsize_loop c f entries more_entries less_entries = pow i \<and> size_ok c (pow i))"
proof (induction c f entries more_entries less_entries rule: best_ringsize_loop.induct)
  case (1 c f entries more_entries less_entries)
  have zero: "\<not> size_ok c 0"
    by (simp add: size_ok_def)
  show ?case
  proof (cases "size_ok c more_entries \<or> size_ok c less_entries")
    case True
    then show ?thesis
      using 1(3,4) zero by (auto simp: best_ringsize_loop.simps [of c f entries more_entries less_entries])
  next
    case False
    have "push_bit 1 more_entries = 0 \<or> push_bit 1 more_entries \<in> range pow"
      using 1(3) push_pow by auto
    moreover have "drop_bit 1 less_entries = 0 \<or> drop_bit 1 less_entries \<in> range pow"
      using 1(4) drop_pow_range by auto
    ultimately show ?thesis
      using 1(1,2) False by (auto simp: best_ringsize_loop.simps [of c f entries more_entries less_entries] Let_def)
  qed
qed

lemma best_ringsize_result:
  "efx_best_guaranteed_ringsize c (pow k) f = pow k \<or>
     (\<exists>i. efx_best_guaranteed_ringsize c (pow k) f = pow i \<and> size_ok c (pow i))"
  using best_loop_result [of "pow (Suc k)" "drop_bit 1 (pow k)" c f "pow k"] drop_pow_range [of k]
  unfolding efx_best_guaranteed_ringsize_def push_pow by blast

subsection \<open>What is done with the sizes\<close>

lemma pow_ucast: "k < 32 \<Longrightarrow> ucast (ucast (pow k) :: u32) = pow k"
  by (rule bit_word_eqI) (auto simp: bit_ucast_iff bit_pow)

lemma bit_lt:
  fixes w :: "'a::len word"
  assumes b: "bit w i" and lt: "w < 2 ^ n"
  shows "i < n"
proof (rule ccontr)
  assume "\<not> i < n"
  then have n: "n \<le> i" "i < LENGTH('a)"
    using bit_imp_le_length [OF b] by auto
  have "unat w < 2 ^ n"
  proof -
    have "(2 :: 'a word) ^ n = of_nat (2 ^ n)"
      by simp
    moreover have "(2 :: nat) ^ n < 2 ^ LENGTH('a)"
      using n by (intro power_strict_increasing) simp_all
    ultimately have "unat ((2 :: 'a word) ^ n) = 2 ^ n"
      by (simp only: unat_of_nat) simp
    then show ?thesis
      using lt by (simp add: word_less_nat_alt)
  qed
  then have "unat w < 2 ^ i"
    by (rule order_less_le_trans) (use n(1) in \<open>simp add: power_increasing\<close>)
  then have "\<not> bit (unat w) i"
    by (simp add: bit_iff_odd)
  then show False
    using b by (simp add: bit_unsigned_iff)
qed

lemma guaranteed_pow: "supported_bitmap c \<noteq> 0 \<Longrightarrow> efx_is_guaranteed_ringsize c (pow k) \<longleftrightarrow> bit (guaranteed_bitmap c) k"
  by (simp add: efx_is_guaranteed_ringsize_def pow_and)

lemma best_guaranteed:
  assumes "supported_bitmap c < 2 ^ 32" and "k < 32"
    and "efx_is_guaranteed_ringsize c (pow k) \<or> (ucast (efx_best_guaranteed_ringsize c (pow k) f) :: u32) \<noteq> ucast (pow k)"
  defines "r \<equiv> if efx_is_guaranteed_ringsize c (pow k) then pow k else efx_best_guaranteed_ringsize c (pow k) f"
  shows "\<exists>i<32. r = pow i \<and> efx_is_guaranteed_ringsize c (pow i)"
proof (cases "efx_is_guaranteed_ringsize c (pow k)")
  case True
  then show ?thesis
    using assms(2) by (auto simp: r_def)
next
  case False
  then have sup: "supported_bitmap c \<noteq> 0"
    by (auto simp: efx_is_guaranteed_ringsize_def)
  obtain i where i: "r = pow i" "size_ok c (pow i)"
    using best_ringsize_result [of c k f] False assms(3) by (auto simp: r_def)
  then have "i < 32"
    using bit_lt [OF _ assms(1)] by (simp add: size_ok_pow)
  then show ?thesis
    using i guaranteed_pow [OF sup] by (auto simp: size_ok_pow)
qed

lemma narrow: "(ucast (ucast x :: u64) :: u32) = x"
  by (rule bit_word_eqI) (auto simp: bit_ucast_iff)

lemma size_frame: "size_ok (c\<lparr>rn_txq_entries := x\<rparr>) w = size_ok c w"
  "efx_is_guaranteed_ringsize (c\<lparr>rn_txq_entries := x\<rparr>) w = efx_is_guaranteed_ringsize c w"
  by (simp_all add: size_ok_def efx_is_guaranteed_ringsize_def)

lemma best_loop_frame: "best_ringsize_loop (c\<lparr>rn_txq_entries := x\<rparr>) f e a b = best_ringsize_loop c f e a b"
proof (induction c f e a b rule: best_ringsize_loop.induct)
  case (1 c f e a b)
  show ?case
    using 1 by (subst (1 2) best_ringsize_loop.simps) (simp add: size_frame Let_def)
qed

lemma best_frame: "efx_best_guaranteed_ringsize (c\<lparr>rn_txq_entries := x\<rparr>) w f = efx_best_guaranteed_ringsize c w f"
  by (simp add: efx_best_guaranteed_ringsize_def best_loop_frame)

text \<open>When the sizes asked for are powers of two and their adaptation succeeds, what is left are powers of two
  that the firmware guarantees, where it says so.\<close>

lemma calc_queue_entries_ok:
  assumes "supported_bitmap c < 2 ^ 32" and "ucast (rn_txq_entries c) = pow k" and "ucast (rn_rxq_entries c) = pow m"
    and "k < 32" and "m < 32" and "efx_calc_queue_entries c = (0, c')"
  obtains i j where "i < 32" and "j < 32" and "ucast (rn_txq_entries c') = pow i" and "ucast (rn_rxq_entries c') = pow j"
    and "efx_is_guaranteed_ringsize c (pow i)" and "efx_is_guaranteed_ringsize c (pow j)"
proof -
  define tx rx where "tx = (if efx_is_guaranteed_ringsize c (pow k) then pow k else efx_best_guaranteed_ringsize c (pow k) False)"
    and "rx = (if efx_is_guaranteed_ringsize c (pow m) then pow m else efx_best_guaranteed_ringsize c (pow m) False)"
  have narrow': "rn_txq_entries c = ucast (pow k)" "rn_rxq_entries c = ucast (pow m)"
    using narrow [of "rn_txq_entries c"] narrow [of "rn_rxq_entries c"] assms(2,3) by simp_all
  have ok: "efx_is_guaranteed_ringsize c (pow k) \<or> (ucast (efx_best_guaranteed_ringsize c (pow k) False) :: u32) \<noteq> ucast (pow k)"
      "efx_is_guaranteed_ringsize c (pow m) \<or> (ucast (efx_best_guaranteed_ringsize c (pow m) False) :: u32) \<noteq> ucast (pow m)"
      "rn_txq_entries c' = ucast tx" "rn_rxq_entries c' = ucast rx"
    using assms(6) narrow' unfolding efx_calc_queue_entries_def Let_def
    by (auto simp: assms(2,3) size_frame best_frame tx_def rx_def pow_ucast [OF assms(4)] pow_ucast [OF assms(5)] errno_defs split: if_splits)
  obtain i where i: "i < 32" "tx = pow i" "efx_is_guaranteed_ringsize c (pow i)"
    using best_guaranteed [OF assms(1,4) ok(1)] unfolding tx_def by blast
  obtain j where j: "j < 32" "rx = pow j" "efx_is_guaranteed_ringsize c (pow j)"
    using best_guaranteed [OF assms(1,5) ok(2)] unfolding rx_def by blast
  show ?thesis
    by (rule that [OF i(1) j(1) _ _ i(3) j(3)]) (simp_all add: ok(3,4) i j pow_ucast)
qed

text \<open>The user's sizes are taken over only if the firmware guarantees them; but 0 is taken over too.\<close>

lemma set_ringparam_guaranteed:
  assumes "ef100_ethtool_set_ringparam rx tx mini jumbo restart rc_open c = (rc, c')" and "c' \<noteq> c"
  shows "rn_rxq_entries c' = rx \<and> rn_txq_entries c' = tx \<and> (rx = 0 \<or> efx_is_guaranteed_ringsize c' (ucast rx)) \<and>
    (tx = 0 \<or> efx_is_guaranteed_ringsize c' (ucast tx))"
  using assms by (auto simp: ef100_ethtool_set_ringparam_def efx_is_guaranteed_ringsize_def split: if_splits)

lemma set_ringparam_zero:
  assumes "supported_bitmap c \<noteq> 0" and "rn_rxq_entries c \<noteq> 0"
  shows "ef100_ethtool_set_ringparam 0 0 0 0 False 0 c = (0, c\<lparr>rn_rxq_entries := 0, rn_txq_entries := 0\<rparr>)"
  using assms by (simp add: ef100_ethtool_set_ringparam_def)

text \<open>Sizes \<open>2 ^ 9\<close> to \<open>2 ^ 12\<close> are supported and only the largest is guaranteed: the search from the smallest
  gives up at a size that is supported, although it was called to go on there.\<close>

lemma next_ringsize_gives_up:
  "efx_next_guaranteed_ringsize
     \<lparr>supported_bitmap = 0x1e00, guaranteed_bitmap = 0x1000, rn_rxq_entries = 512, rn_txq_entries = 512\<rparr> 0x200 True = 0x200"
  "efx_best_guaranteed_ringsize
     \<lparr>supported_bitmap = 0x1e00, guaranteed_bitmap = 0x1000, rn_rxq_entries = 512, rn_txq_entries = 512\<rparr> 0x200 True = 0x1000"
  by code_simp+

subsection \<open>The event queue\<close>

lemma takeWhile_upt_le: "\<not> P i \<Longrightarrow> i < n \<Longrightarrow> length (takeWhile P [0..<n]) \<le> i"
proof (rule ccontr)
  assume i: "\<not> P i" "i < n" "\<not> length (takeWhile P [0..<n]) \<le> i"
  then have "takeWhile P [0..<n] ! i = i"
    by (simp add: takeWhile_nth)
  then show False
    using i set_takeWhileD [of i P "[0..<n]"] by (metis not_le nth_mem)
qed

lemma scast_pow: "j \<le> 30 \<Longrightarrow> scast (push_bit j 1 :: u32) = pow j"
  by (rule bit_word_eqI) (auto simp: bit_signed_iff bit_exp_iff bit_pow)

lemma map_size_pow: "n \<le> 31 \<Longrightarrow> map_size n = pow (n - 1)"
  by (simp only: map_size_def scast_pow)

lemma bit_limits:
  assumes "w < 2 ^ 31" and "w \<noteq> (0 :: u64)"
  shows "ffs (ucast w) \<le> 31" and "fls (ucast w) \<le> 31"
proof -
  obtain i where i: "bit w i"
    using assms(2) bit_eqI [of w 0] by auto
  then have "i < 31"
    by (rule bit_lt [OF _ assms(1)])
  then show "ffs (ucast w) \<le> 31"
    using i takeWhile_upt_le [of "\<lambda>i. \<not> bit (ucast w :: u32) i" i 32] by (auto simp: ffs_def bit_ucast_iff)
  have "\<not> bit (ucast w :: u32) 31"
    using bit_lt [OF _ assms(1), of 31] by (auto simp: bit_ucast_iff)
  then have "0 < length (takeWhile (\<lambda>i. \<not> bit (ucast w :: u32) (31 - i)) [0..<32])"
    by (simp add: upt_conv_Cons)
  then have "32 - length (takeWhile (\<lambda>i. \<not> bit (ucast w :: u32) (31 - i)) [0..<32]) \<le> 31"
    by arith
  then show "fls (ucast w) \<le> 31"
    unfolding fls_def by (cases "ucast w = (0 :: u32)") (simp_all only: if_True if_False zero_le refl simp_thms)
qed

lemma limits_pow:
  assumes "supported_bitmap c < 2 ^ 31"
  obtains a b where "efx_min_evtq_size c = pow a" and "efx_max_evtq_size c = pow b" and "a \<le> 30" and "b \<le> 30"
proof (cases "supported_bitmap c = 0")
  case True
  moreover have "(512 :: u64) = pow 9" "(16384 :: u64) = pow 14"
    by (simp_all add: pow_def)
  ultimately show ?thesis
    using that [of 9 14] by (simp add: efx_min_evtq_size_def efx_max_evtq_size_def)
next
  case False
  then show ?thesis
    using that [of "ffs (ucast (supported_bitmap c)) - 1" "fls (ucast (supported_bitmap c)) - 1"] bit_limits [OF assms False]
    by (simp add: efx_min_evtq_size_def efx_max_evtq_size_def map_size_pow)
qed

lemma unat_pow: "k \<le> 30 \<Longrightarrow> unat (pow k) = 2 ^ k"
proof -
  assume "k \<le> 30"
  then have "(2 :: nat) ^ k < 2 ^ 64"
    by (intro power_strict_increasing) simp_all
  moreover have "pow k = of_nat (2 ^ k)"
    by (simp add: pow_def)
  ultimately show ?thesis
    by (simp only: unat_of_nat) simp
qed

lemma capped_pow:
  assumes "efx_max_evtq_size c = pow b" and "b \<le> 30"
  obtains k where "evq_capped c n = pow k" and "k \<le> 30" and "unat n \<le> 2 ^ k \<or> b \<le> k"
proof (cases "efx_max_evtq_size c < n")
  case True
  then show ?thesis
    using that [of b] assms by (simp add: evq_capped_def)
next
  case False
  then have "unat n \<le> 2 ^ b"
    using assms unat_pow by (simp add: word_less_nat_alt not_less)
  also have "(2 :: nat) ^ b \<le> 2 ^ 30"
    using assms(2) by (rule power_increasing) simp
  finally have n: "unat n \<le> 2 ^ 30" .
  have "unat n \<le> 1 * 2 ^ unat n"
    using less_exp [of "unat n"] by simp
  then obtain j where j: "roundup_pow_of_two (unat n) = 2 ^ j" "unat n \<le> 2 ^ j" "j = 0 \<or> 2 ^ j < 2 * unat n"
    using roundup_from_spec [of "unat n" 1 "unat n"] by (auto simp: roundup_pow_of_two_def)
  have "(2 :: nat) ^ j < 2 ^ 31"
    using j(3) n by auto
  then have "j < 31"
    by (rule power_less_imp_less_exp [rotated]) simp
  moreover have "evq_capped c n = pow j"
    using False j(1) by (simp add: evq_capped_def pow_def)
  ultimately show ?thesis
    using that [of j] j(2) by simp
qed

text \<open>Where probing succeeds the ring has a power of two of entries, as many as the channel's queues can fill
  unless the controller's largest ring is smaller; so a queue that is then set up is well formed.\<close>

lemma pow_mask: "k \<le> 30 \<Longrightarrow> ucast (pow k - 1) = (mask k :: u32)"
proof -
  have "pow k - 1 = mask k"
    by (simp add: pow_def mask_eq_exp_minus_1)
  then show "ucast (pow k - 1) = (mask k :: u32)"
    by (auto intro!: bit_word_eqI simp: bit_ucast_iff bit_mask_iff)
qed

lemma max_pow: "a \<le> 30 \<Longrightarrow> b \<le> 30 \<Longrightarrow> max (pow a) (pow b) = pow (max a b)"
  by (auto simp: max_def word_le_nat_alt unat_pow dest: power_le_imp_le_exp [rotated])

lemma probe_eventq_ok:
  assumes "supported_bitmap c < 2 ^ 31" and "efx_probe_eventq c has_rx txqs ok q = (0, q')"
  obtains k where "k \<le> 30" and "eventq_mask q' = mask k" and "evq_inv [] 0 (snd (efx_init_eventq True 0 q'))"
    and "unat (evq_wanted c has_rx txqs (evq_channel q)) \<le> evq_size q' \<or> unat (efx_max_evtq_size c) \<le> evq_size q'"
proof -
  obtain a b where lim: "efx_min_evtq_size c = pow a" "efx_max_evtq_size c = pow b" "a \<le> 30" "b \<le> 30"
    by (rule limits_pow [OF assms(1)])
  define n where "n = evq_wanted c has_rx txqs (evq_channel q)"
  obtain k0 where k0: "evq_capped c n = pow k0" "k0 \<le> 30" "unat n \<le> 2 ^ k0 \<or> b \<le> k0"
    by (rule capped_pow [OF lim(2,4)])
  define e where "e = (if efx_is_guaranteed_ringsize c (pow k0) then pow k0
    else ucast (ucast (efx_next_guaranteed_ringsize c (pow k0) True) :: u32))"
  have run: "efx_is_guaranteed_ringsize c (pow k0) \<or> e \<noteq> pow k0"
    "(0, q') = ef100_ev_probe ok (q\<lparr>eventq_mask := ucast (max e (pow a) - 1)\<rparr>)"
    using assms(2) by (auto simp: efx_probe_eventq_def n_def [symmetric] k0(1) lim(1) e_def errno_defs Let_def split: if_splits)
  obtain k1 where k1: "e = pow k1" "k0 \<le> k1" "k1 \<le> 30"
  proof (cases "efx_is_guaranteed_ringsize c (pow k0)")
    case True
    then show ?thesis
      using that [of k0] k0(2) by (simp add: e_def)
  next
    case False
    have "efx_next_guaranteed_ringsize c (pow k0) True \<noteq> pow k0"
      using run(1) False pow_ucast [of k0] k0(2) by (auto simp: e_def)
    then obtain i where i: "efx_next_guaranteed_ringsize c (pow k0) True = pow i" "k0 < i" "size_ok c (pow i)"
      using next_ringsize_result [of c k0 True] by blast
    then have "i < 31"
      using bit_lt [OF _ assms(1)] by (simp add: size_ok_pow)
    then show ?thesis
      using that [of i] i False pow_ucast [of i] by (simp add: e_def)
  qed
  define k where "k = max k1 a"
  have k: "k \<le> 30" "k0 \<le> k"
    using k1(2,3) lim(3) by (simp_all add: k_def)
  define q1 where "q1 = q\<lparr>eventq_mask := mask k\<rparr>"
  have "ucast (max e (pow a) - 1) = (mask k :: u32)"
    using max_pow [OF k1(3) lim(3)] pow_mask [OF k(1)] by (simp add: k1(1) k_def)
  then have q': "q' = snd (ef100_ev_probe True q1)" "eventq_mask q' = mask k" and same: "evq_size q' = evq_size q1"
    using run(2) by (auto simp: ef100_ev_probe_def q1_def evq_size_def errno_defs split: if_splits)
  have size: "evq_size q' = 2 ^ k"
    using unat_mask_Suc [of k] k(1) q'(2) by (simp add: evq_size_def)
  have "length (evq_buf q') = Suc (evq_size q')"
    using probe_evq_length [of q1 k] k(1) unfolding same unfolding q'(1) by (simp add: q1_def)
  then have inv: "evq_inv [] 0 (snd (efx_init_eventq True 0 q'))"
    using k(1) by (intro init_evq_inv [OF q'(2)]) simp_all
  have mono: "(2 :: nat) ^ i \<le> 2 ^ k" if "i \<le> k" for i
    using that by (rule power_increasing) simp
  have "unat n \<le> evq_size q' \<or> unat (efx_max_evtq_size c) \<le> evq_size q'"
    using k0(3) le_trans [OF _ mono [OF k(2)], of "unat n"] mono [of b] le_trans [OF _ k(2), of b] unat_pow [OF lim(4)]
    unfolding size lim(2) by presburger
  then show ?thesis
    using that k(1) q'(2) inv by (simp add: n_def)
qed

end
