(* ===== verification/Design_Params.thy ===== *)
theory Design_Params
  imports Ring_Sizes
begin

section \<open>Design parameters of the EF100 (ef100_nic.c)\<close>

text \<open>
  The controller describes itself by a table of entries of type, length and value, which the driver
  reads one register of four bytes after the other when it probes. A type takes one or two bytes of
  seven and eight bits, a length one byte, and a value up to eight bytes, the lowest first.
  \<open>ef100_tlv_feed\<close> takes one byte; a state of \<open>EF100_TLV_TYPE\<close> after it means that an entry is complete.
\<close>

datatype ef100_tlv_state_machine = EF100_TLV_TYPE | EF100_TLV_TYPE_CONT | EF100_TLV_LENGTH | EF100_TLV_VALUE

record ef100_tlv_state =
  tlv_state :: ef100_tlv_state_machine
  tlv_value :: u64
  tlv_value_offset :: u32
  tlv_type :: u16
  tlv_len :: u8

definition ef100_tlv_feed :: "ef100_tlv_state \<Rightarrow> u8 \<Rightarrow> int \<times> ef100_tlv_state" where
  "ef100_tlv_feed r byte =
     (case tlv_state r of
        EF100_TLV_TYPE \<Rightarrow>
          (0, r\<lparr>tlv_type := ucast (byte AND 0x7f),
                tlv_state := (if byte AND 0x80 \<noteq> 0 then EF100_TLV_TYPE_CONT else EF100_TLV_LENGTH),
                tlv_value := 0, tlv_value_offset := 0\<rparr>)
      | EF100_TLV_TYPE_CONT \<Rightarrow>
          (0, r\<lparr>tlv_type := tlv_type r OR push_bit 7 (ucast byte), tlv_state := EF100_TLV_LENGTH\<rparr>)
      | EF100_TLV_LENGTH \<Rightarrow>
          let r1 = r\<lparr>tlv_len := byte\<rparr> in
          if 8 < byte then (- EOPNOTSUPP, r1)
          else (0, r1\<lparr>tlv_state := (if byte \<noteq> 0 then EF100_TLV_VALUE else EF100_TLV_TYPE)\<rparr>)
      | EF100_TLV_VALUE \<Rightarrow>
          let r1 = r\<lparr>tlv_value := tlv_value r OR push_bit (unat (tlv_value_offset r * 8)) (ucast byte),
                     tlv_value_offset := tlv_value_offset r + 1\<rparr> in
          (0, if ucast (tlv_len r1) \<le> tlv_value_offset r1 then r1\<lparr>tlv_state := EF100_TLV_TYPE\<rparr> else r1))"

text \<open>What the parameters set: limits of segmentation by the hardware in the driver's and in the network
  device's data. \<open>GSO_MAX_SIZE\<close> is the kernel's.\<close>

record dp_nic = ring_nic +
  dp_GSO_MAX_SIZE :: u64
  tso_max_hdr_len :: u16
  tso_max_payload_num_segs :: u16
  tso_max_frames :: u16
  tso_max_payload_len :: u32
  gso_max_size :: u32
  gso_max_segs :: u16

definition ef100_process_design_param :: "u16 \<Rightarrow> u64 \<Rightarrow> dp_nic \<Rightarrow> int \<times> dp_nic" where
  "ef100_process_design_param type value c =
     (if type = 5 then (0, c\<lparr>tso_max_hdr_len := ucast (min value 0xffff)\<rparr>)
      else if type = 6 then (if value = 0 then - EOPNOTSUPP else 0, c)
      else if type = 7 \<or> type = 8
      then (let m = efx_min_dmaq_size (ring_nic.truncate c) in
            if value = 0 \<or> m < value \<or> m mod ucast (ucast value :: u32) \<noteq> 0 then - EOPNOTSUPP else 0, c)
      else if type = 9
      then (let len = ucast (min value (dp_GSO_MAX_SIZE c)) in (0, c\<lparr>tso_max_payload_len := len, gso_max_size := len\<rparr>))
      else if type = 10
      then (let n = ucast (min value 0xffff) in (0, c\<lparr>tso_max_payload_num_segs := n, gso_max_segs := n\<rparr>))
      else if type = 11 then (0, c\<lparr>tso_max_frames := ucast (min value 0xffff)\<rparr>)
      else if type = 12 then (if value \<noteq> 0 then - EOPNOTSUPP else 0, c)
      else (0, c))"

text \<open>The inner loop of \<open>ef100_check_design_params\<close>: \<open>n\<close> bytes of a register.\<close>

fun dp_register :: "nat \<Rightarrow> u32 \<Rightarrow> ef100_tlv_state \<Rightarrow> dp_nic \<Rightarrow> int \<times> ef100_tlv_state \<times> dp_nic" where
  "dp_register 0 data r c = (0, r, c)"
| "dp_register (Suc n) data r c =
     (let (rc, r) = ef100_tlv_feed r (ucast data);
          (rc, c) = (if rc = 0 \<and> tlv_state r = EF100_TLV_TYPE
                     then ef100_process_design_param (tlv_type r) (tlv_value r) c else (rc, c)) in
      if rc \<noteq> 0 then (rc, r, c) else dp_register n (drop_bit 8 data) r c)"

text \<open>\<open>params\<close> is the register at an offset.\<close>

partial_function (option) dp_loop ::
    "(u32 \<Rightarrow> u32) \<Rightarrow> u32 \<Rightarrow> u32 \<Rightarrow> ef100_tlv_state \<Rightarrow> dp_nic \<Rightarrow> (int \<times> dp_nic) option" where
  "dp_loop params total_len offset r c =
     (if offset < total_len
      then let x = dp_register 4 (params offset) r c in
           if fst x \<noteq> 0 then Some (fst x, snd (snd x))
           else dp_loop params total_len (offset + 4) (fst (snd x)) (snd (snd x))
      else Some (0, c))"

declare dp_loop.simps [code]

definition tlv_start :: ef100_tlv_state where
  "tlv_start = \<lparr>tlv_state = EF100_TLV_TYPE, tlv_value = 0, tlv_value_offset = 0, tlv_type = 0, tlv_len = 0\<rparr>"

definition ef100_check_design_params :: "(u32 \<Rightarrow> u32) \<Rightarrow> u32 \<Rightarrow> dp_nic \<Rightarrow> (int \<times> dp_nic) option" where
  "ef100_check_design_params params total_len c = dp_loop params total_len 0 tlv_start c"

subsection \<open>The table as a list of entries\<close>

text \<open>How the hardware writes an entry with a type below \<open>2 ^ 15\<close>, and what the entries are to do: each
  is processed, until one is refused.\<close>

definition tlv_type_bytes :: "u16 \<Rightarrow> u8 list" where
  "tlv_type_bytes t = (if t < 0x80 then [ucast t] else [ucast (t AND 0x7f) OR 0x80, ucast (drop_bit 7 t)])"

definition tlv_encode :: "u16 \<times> u8 list \<Rightarrow> u8 list" where
  "tlv_encode e = tlv_type_bytes (fst e) @ [of_nat (length (snd e))] @ snd e"

fun le_value :: "nat \<Rightarrow> u8 list \<Rightarrow> u64" where
  "le_value i [] = 0"
| "le_value i (b # bs) = push_bit (8 * i) (ucast b) OR le_value (Suc i) bs"

fun dp_entries :: "(u16 \<times> u8 list) list \<Rightarrow> dp_nic \<Rightarrow> int \<times> dp_nic" where
  "dp_entries [] c = (0, c)"
| "dp_entries ((t, vs) # es) c =
     (let (rc, c) = ef100_process_design_param t (le_value 0 vs) c in if rc \<noteq> 0 then (rc, c) else dp_entries es c)"

text \<open>The bytes of a table fed one after the other.\<close>

fun dp_bytes :: "u8 list \<Rightarrow> ef100_tlv_state \<Rightarrow> dp_nic \<Rightarrow> int \<times> ef100_tlv_state \<times> dp_nic" where
  "dp_bytes [] r c = (0, r, c)"
| "dp_bytes (b # bs) r c =
     (let (rc, r) = ef100_tlv_feed r b;
          (rc, c) = (if rc = 0 \<and> tlv_state r = EF100_TLV_TYPE
                     then ef100_process_design_param (tlv_type r) (tlv_value r) c else (rc, c)) in
      if rc \<noteq> 0 then (rc, r, c) else dp_bytes bs r c)"

lemma dp_bytes_append:
  "dp_bytes (xs @ ys) r c = (let (rc, r', c') = dp_bytes xs r c in if rc \<noteq> 0 then (rc, r', c') else dp_bytes ys r' c')"
  by (induction xs arbitrary: r c) (auto simp: Let_def split: prod.splits)

lemma feed_value:
  assumes "tlv_state r = EF100_TLV_VALUE" and "tlv_value_offset r = of_nat i" and "unat (tlv_len r) = i + length bs"
    and "bs \<noteq> []" and "i + length bs \<le> 8"
  shows "\<exists>r'. tlv_state r' = EF100_TLV_TYPE \<and> tlv_type r' = tlv_type r \<and>
     dp_bytes bs r c = (let (rc, c') = ef100_process_design_param (tlv_type r) (tlv_value r OR le_value i bs) c in
       (rc, r', c'))"
  using assms
proof (induction bs arbitrary: r i)
  case Nil
  then show ?case
    by simp
next
  case (Cons b bs)
  define r1 where "r1 = r\<lparr>tlv_value := tlv_value r OR push_bit (8 * i) (ucast b), tlv_value_offset := of_nat (Suc i)\<rparr>"
  have "of_nat i * 8 = (of_nat (8 * i) :: u32)"
    by simp
  moreover have "unat (of_nat (8 * i) :: u32) = 8 * i"
    unfolding unat_of_nat using Cons.prems(5) by simp
  ultimately have off: "unat (of_nat i * 8 :: u32) = 8 * i" "(of_nat i + 1 :: u32) = of_nat (Suc i)"
    by (simp_all only: of_nat_Suc add.commute)
  have len: "(ucast (tlv_len r) \<le> (of_nat (Suc i) :: u32)) \<longleftrightarrow> bs = []"
  proof -
    have "unat (of_nat (Suc i) :: u32) = Suc i"
      unfolding unat_of_nat using Cons.prems(5) by simp
    moreover have "unat (tlv_len r) < 2 ^ 8"
      by (rule order_less_le_trans [OF unsigned_less]) simp
    then have "unat (ucast (tlv_len r) :: u32) = unat (tlv_len r)"
      by (simp add: unsigned_ucast_eq take_bit_nat_eq_self_iff)
    ultimately have "(ucast (tlv_len r) \<le> (of_nat (Suc i) :: u32)) \<longleftrightarrow> unat (tlv_len r) \<le> Suc i"
      by (simp only: word_le_nat_alt)
    then show ?thesis
      using Cons.prems(3) by (cases bs) simp_all
  qed
  have feed: "ef100_tlv_feed r b = (0, if bs = [] then r1\<lparr>tlv_state := EF100_TLV_TYPE\<rparr> else r1)"
    using Cons.prems(1,2) off len by (simp add: ef100_tlv_feed_def r1_def Let_def del: of_nat_Suc)
  show ?case
  proof (cases "bs = []")
    case True
    then show ?thesis
      using feed by (intro exI [of _ "r1\<lparr>tlv_state := EF100_TLV_TYPE\<rparr>"]) (auto simp: r1_def Let_def split: prod.splits)
  next
    case False
    have "tlv_state r1 = EF100_TLV_VALUE" "tlv_value_offset r1 = of_nat (Suc i)" "unat (tlv_len r1) = Suc i + length bs"
        "Suc i + length bs \<le> 8"
      using Cons.prems by (simp_all add: r1_def)
    from Cons.IH [OF this(1-3) False this(4)] obtain r' where r': "tlv_state r' = EF100_TLV_TYPE" "tlv_type r' = tlv_type r1"
        "dp_bytes bs r1 c = (let (rc, c') = ef100_process_design_param (tlv_type r1) (tlv_value r1 OR le_value (Suc i) bs) c in
          (rc, r', c'))"
      by blast
    have "dp_bytes (b # bs) r c = dp_bytes bs r1 c"
      using feed False Cons.prems(1) by (simp add: r1_def)
    moreover have "tlv_value r1 OR le_value (Suc i) bs = tlv_value r OR le_value i (b # bs)"
      by (simp add: r1_def or.assoc)
    ultimately show ?thesis
      using r' by (intro exI [of _ r']) (simp add: r1_def)
  qed
qed

lemma type_masks:
  "bit (0x80 :: u8) n \<longleftrightarrow> n = 7" "bit (0x7f :: u8) n \<longleftrightarrow> n < 7" "bit (0x7f :: u16) n \<longleftrightarrow> n < 7"
  "bit (0x80 :: int) n \<longleftrightarrow> n = 7" "bit (0x7f :: int) n \<longleftrightarrow> n < 7"
proof -
  have c: "(0x80 :: u8) = 2 ^ 7" "(0x7f :: u8) = mask 7" "(0x7f :: u16) = mask 7"
      "(0x80 :: int) = 2 ^ 7" "(0x7f :: int) = mask 7"
    by (simp_all add: mask_eq_exp_minus_1)
  show "bit (0x80 :: u8) n \<longleftrightarrow> n = 7" "bit (0x80 :: int) n \<longleftrightarrow> n = 7"
    unfolding c bit_exp_iff by auto
  show "bit (0x7f :: u8) n \<longleftrightarrow> n < 7" "bit (0x7f :: u16) n \<longleftrightarrow> n < 7" "bit (0x7f :: int) n \<longleftrightarrow> n < 7"
    unfolding c bit_mask_iff by auto
qed

lemma type_marked: "(b :: u8) AND 0x80 = 0 \<longleftrightarrow> \<not> bit b 7"
proof -
  have "(0x80 :: u8) = 2 ^ 7"
    by simp
  then show ?thesis
    by (simp only: and_exp_eq_0_iff_not_bit)
qed

lemma type_short:
  assumes "(t :: u16) < 0x80"
  shows "(ucast t :: u8) AND 0x80 = 0" and "ucast ((ucast t :: u8) AND 0x7f) = t"
proof -
  have bits: "n < 7" if "bit t n" for n
    using that bit_lt [of t n 7] assms by (cases "n < 7") auto
  show "(ucast t :: u8) AND 0x80 = 0"
    unfolding type_marked using bits [of 7] by (auto simp: bit_simps)
  show "ucast ((ucast t :: u8) AND 0x7f) = t"
    by (rule bit_word_eqI) (auto simp: bit_simps type_masks dest: bits)
qed

lemma type_long:
  assumes "(t :: u16) < 2 ^ 15"
  shows "((ucast (t AND 0x7f) :: u8) OR 0x80) AND 0x80 \<noteq> 0"
    and "ucast (((ucast (t AND 0x7f) :: u8) OR 0x80) AND 0x7f) OR push_bit 7 (ucast (ucast (drop_bit 7 t) :: u8)) = t"
proof -
  have bits: "n < 15" if "bit t n" for n
    using that bit_lt [of t n 15] assms by (cases "n < 15") auto
  show "((ucast (t AND 0x7f) :: u8) OR 0x80) AND 0x80 \<noteq> 0"
    unfolding type_marked by (simp add: bit_or_iff type_masks)
  show "ucast (((ucast (t AND 0x7f) :: u8) OR 0x80) AND 0x7f) OR push_bit 7 (ucast (ucast (drop_bit 7 t) :: u8)) = t" (is "?l = t")
  proof (rule bit_word_eqI)
    show "bit ?l n \<longleftrightarrow> bit t n" if "n < LENGTH(16)" for n
      using that by (cases "n < 7") (auto simp: bit_simps type_masks not_less dest: bits)
  qed
qed

lemma feed_one:
  assumes "tlv_state r = EF100_TLV_TYPE" and "b AND 0x80 = 0"
  shows "dp_bytes [b] r c = (0, r\<lparr>tlv_type := ucast (b AND 0x7f), tlv_state := EF100_TLV_LENGTH, tlv_value := 0,
    tlv_value_offset := 0\<rparr>, c)"
  using assms by (simp add: ef100_tlv_feed_def)

lemma feed_two:
  assumes "tlv_state r = EF100_TLV_TYPE" and "b AND 0x80 \<noteq> 0"
  shows "dp_bytes [b, b'] r c = (0, r\<lparr>tlv_type := ucast (b AND 0x7f) OR push_bit 7 (ucast b'),
    tlv_state := EF100_TLV_LENGTH, tlv_value := 0, tlv_value_offset := 0\<rparr>, c)"
  using assms by (simp add: ef100_tlv_feed_def)

lemma feed_type:
  assumes "tlv_state r = EF100_TLV_TYPE" and "t < 2 ^ 15"
  shows "dp_bytes (tlv_type_bytes t) r c = (0, r\<lparr>tlv_type := t, tlv_state := EF100_TLV_LENGTH, tlv_value := 0,
    tlv_value_offset := 0\<rparr>, c)"
proof (cases "t < 0x80")
  case True
  show ?thesis
    by (simp only: tlv_type_bytes_def True if_True feed_one [OF assms(1) type_short(1) [OF True]] type_short(2) [OF True])
next
  case False
  show ?thesis
    by (simp only: tlv_type_bytes_def False if_False feed_two [OF assms(1) type_long(1) [OF assms(2)]] type_long(2) [OF assms(2)])
qed

lemma feed_entry:
  assumes "tlv_state r = EF100_TLV_TYPE" and "t < 2 ^ 15" and "length vs \<le> 8"
  shows "\<exists>r'. tlv_state r' = EF100_TLV_TYPE \<and> dp_bytes (tlv_encode (t, vs)) r c =
    (let (rc, c') = ef100_process_design_param t (le_value 0 vs) c in (rc, r', c'))"
proof -
  define r1 where "r1 = r\<lparr>tlv_type := t, tlv_state := EF100_TLV_LENGTH, tlv_value := 0, tlv_value_offset := 0\<rparr>"
  have type: "dp_bytes (tlv_type_bytes t) r c = (0, r1, c)"
    unfolding r1_def by (rule feed_type [OF assms(1,2)])
  have r1: "tlv_state r1 = EF100_TLV_LENGTH" "tlv_type r1 = t"
      "tlv_value r1 = 0" "tlv_value_offset r1 = 0"
    by (simp_all add: r1_def)
  have n: "unat (of_nat (length vs) :: u8) = length vs"
    unfolding unat_of_nat using assms(3) by simp
  have le: "\<not> 8 < (of_nat (length vs) :: u8)"
    using n assms(3) by (simp add: word_less_nat_alt)
  have zero: "(of_nat (length vs) :: u8) = 0 \<longleftrightarrow> vs = []"
    using n by (cases vs) (auto simp del: of_nat_Suc)
  have split: "dp_bytes (tlv_encode (t, vs)) r c = dp_bytes (of_nat (length vs) # vs) r1 c"
    by (simp add: tlv_encode_def dp_bytes_append type del: dp_bytes.simps)
  define r2 where "r2 = r1\<lparr>tlv_len := of_nat (length vs), tlv_state := (if vs = [] then EF100_TLV_TYPE else EF100_TLV_VALUE)\<rparr>"
  have feed: "ef100_tlv_feed r1 (of_nat (length vs)) = (0, r2)"
    using r1(1) le zero by (simp add: ef100_tlv_feed_def r2_def Let_def)
  show ?thesis
  proof (cases "vs = []")
    case True
    then show ?thesis
      using feed r1(2,3) unfolding split
      by (intro exI [of _ r2]) (auto simp: r2_def Let_def split: prod.splits)
  next
    case False
    have "dp_bytes (of_nat (length vs) # vs) r1 c = dp_bytes vs r2 c"
      using feed False by (simp add: r2_def)
    moreover have "tlv_state r2 = EF100_TLV_VALUE" "tlv_value_offset r2 = of_nat 0" "unat (tlv_len r2) = 0 + length vs"
      using False r1(4) n by (simp_all add: r2_def)
    from feed_value [OF this False] have "\<exists>r'. tlv_state r' = EF100_TLV_TYPE \<and> tlv_type r' = tlv_type r2 \<and> dp_bytes vs r2 c =
        (let (rc, c') = ef100_process_design_param (tlv_type r2) (tlv_value r2 OR le_value 0 vs) c in (rc, r', c'))"
      using assms(3) by simp
    ultimately show ?thesis
      using r1(2,3) unfolding split by (auto simp: r2_def)
  qed
qed

definition entries_ok :: "(u16 \<times> u8 list) list \<Rightarrow> bool" where
  "entries_ok es = list_all (\<lambda>e. fst e < 2 ^ 15 \<and> length (snd e) \<le> 8) es"

lemma feed_entries:
  assumes "tlv_state r = EF100_TLV_TYPE" and "entries_ok es"
  shows "\<exists>r'. dp_bytes (concat (map tlv_encode es)) r c = (let (rc, c') = dp_entries es c in (rc, r', c'))"
  using assms
proof (induction es arbitrary: r c)
  case Nil
  then show ?case
    by auto
next
  case (Cons e es)
  obtain t vs where e: "e = (t, vs)"
    by (cases e)
  then have ok: "t < 2 ^ 15" "length vs \<le> 8" "entries_ok es"
    using Cons.prems(2) by (simp_all add: entries_ok_def)
  obtain rc c1 where p: "ef100_process_design_param t (le_value 0 vs) c = (rc, c1)"
    by (cases "ef100_process_design_param t (le_value 0 vs) c")
  obtain r1 where r1: "tlv_state r1 = EF100_TLV_TYPE" "dp_bytes (tlv_encode (t, vs)) r c = (rc, r1, c1)"
    using feed_entry [OF Cons.prems(1) ok(1,2), of c] p by auto
  then show ?case
    using Cons.IH [OF r1(1) ok(3), of c1] p by (auto simp: e dp_bytes_append Let_def)
qed

subsection \<open>The registers\<close>

text \<open>A table of a multiple of four bytes as the registers that hold it.\<close>

definition le_register :: "u8 list \<Rightarrow> u32" where
  "le_register bs = ucast (bs ! 0) OR push_bit 8 (ucast (bs ! 1)) OR push_bit 16 (ucast (bs ! 2)) OR push_bit 24 (ucast (bs ! 3))"

definition table_registers :: "u8 list \<Rightarrow> u32 \<Rightarrow> u32" where
  "table_registers bs offset = le_register (drop (unat offset) bs)"

lemma byte_bits: "8 \<le> n \<Longrightarrow> \<not> bit (a :: u8) n"
  using bit_imp_le_length [of a n] by auto

lemma register_bytes:
  "ucast (le_register [a, b, x, d]) = a" "ucast (drop_bit 8 (le_register [a, b, x, d])) = b"
  "ucast (drop_bit 8 (drop_bit 8 (le_register [a, b, x, d]))) = x"
  "ucast (drop_bit 8 (drop_bit 8 (drop_bit 8 (le_register [a, b, x, d])))) = d"
  by (auto intro!: bit_word_eqI simp: le_register_def bit_simps byte_bits)

lemma dp_register_bytes: "dp_register 4 (le_register (a # b # x # d # rest)) r c = dp_bytes [a, b, x, d] r c"
proof -
  have "le_register (a # b # x # d # rest) = le_register [a, b, x, d]"
    by (simp add: le_register_def)
  moreover have four: "4 = Suc (Suc (Suc (Suc 0)))"
    by simp
  have "dp_register 4 w r c = dp_bytes [ucast w, ucast (drop_bit 8 w), ucast (drop_bit 8 (drop_bit 8 w)),
      ucast (drop_bit 8 (drop_bit 8 (drop_bit 8 w)))] r c" for w
    by (simp only: four dp_register.simps dp_bytes.simps)
  ultimately show ?thesis
    by (simp only: register_bytes)
qed

lemma four_bytes_cases:
  obtains (short) "length xs < 4" | (long) a b x d rest where "xs = a # b # x # d # rest"
proof (cases "length xs < 4")
  case False
  then have "Suc (Suc (Suc (Suc 0))) \<le> length xs"
    by simp
  then show ?thesis
    using long by (auto simp: Suc_le_length_iff)
qed (rule short)

lemma dp_loop_table:
  assumes "length bs = 4 * j + 4 * k" and "length bs < 2 ^ 32"
  shows "dp_loop (table_registers bs) (of_nat (length bs)) (of_nat (4 * j)) r c =
    Some (let (rc, r', c') = dp_bytes (drop (4 * j) bs) r c in (rc, c'))"
  using assms
proof (induction k arbitrary: j r c)
  case 0
  then show ?case
    by (simp add: dp_loop.simps)
next
  case (Suc k)
  obtain a b x d rest where split: "drop (4 * j) bs = a # b # x # d # rest"
    using Suc.prems(1) length_drop [of "4 * j" bs]
    by (cases "drop (4 * j) bs" rule: four_bytes_cases) auto
  have "drop 4 (drop (4 * j) bs) = rest"
    unfolding split by simp
  then have rest: "drop (4 * Suc j) bs = rest"
    by (simp add: add.commute)
  have at: "unat (of_nat (4 * j) :: u32) = 4 * j" "unat (of_nat (length bs) :: u32) = length bs"
    using Suc.prems by (simp_all only: unat_of_nat take_bit_nat_eq_self_iff) simp_all
  have less: "(of_nat (4 * j) :: u32) < of_nat (length bs)"
    unfolding word_less_nat_alt at using Suc.prems(1) by simp
  have reg: "table_registers bs (of_nat (4 * j)) = le_register (a # b # x # d # rest)"
    unfolding table_registers_def at split ..
  have bytes: "dp_bytes (drop (4 * j) bs) r c =
      (let (rc, r', c') = dp_bytes [a, b, x, d] r c in if rc \<noteq> 0 then (rc, r', c') else dp_bytes rest r' c')"
    unfolding split using dp_bytes_append [of "[a, b, x, d]" rest r c] by (simp only: append_Cons append_Nil)
  have step: "(of_nat (4 * j) + 4 :: u32) = of_nat (4 * Suc j)"
    by simp
  obtain rc r1 c1 where x: "dp_bytes [a, b, x, d] r c = (rc, r1, c1)"
    by (metis surj_pair)
  have ih: "dp_loop (table_registers bs) (of_nat (length bs)) (of_nat (4 * Suc j)) r1 c1 =
      Some (let (rc, r', c') = dp_bytes rest r1 c1 in (rc, c'))"
    unfolding rest [symmetric] by (rule Suc.IH) (use Suc.prems in simp_all)
  show ?case
    unfolding bytes x dp_loop.simps [of _ _ "of_nat (4 * j)"] reg dp_register_bytes step
    by (cases "rc = 0") (simp_all only: less if_True if_False Let_def prod.case fst_conv snd_conv ih simp_thms)
qed

text \<open>The test of the granularity: a value that is accepted divides the smallest ring, if that is
  below \<open>2 ^ 32\<close>.\<close>

lemma granularity_divides:
  assumes "ef100_process_design_param t value c = (0, c')" and "t = 7 \<or> t = 8"
    and min: "efx_min_dmaq_size (ring_nic.truncate c) < 2 ^ 32"
  shows "unat value dvd unat (efx_min_dmaq_size (ring_nic.truncate c))" and "value \<noteq> 0" and "c' = c"
proof -
  define m where "m = efx_min_dmaq_size (ring_nic.truncate c)"
  have ok: "value \<noteq> 0" "value \<le> m" "m mod ucast (ucast value :: u32) = 0" "c' = c"
    using assms(1,2) by (auto simp: ef100_process_design_param_def m_def Let_def EOPNOTSUPP_def not_less split: if_splits)
  have "value < 2 ^ 32"
    using ok(2) min unfolding m_def by (rule le_less_trans)
  then have "n < 32" if "bit value n" for n
    using bit_lt [OF that] by blast
  then have "(ucast (ucast value :: u32) :: u64) = value"
    by (intro bit_word_eqI) (auto simp: bit_simps)
  then have "unat (m mod value) = 0"
    using ok(3) by simp
  then show "unat value dvd unat (efx_min_dmaq_size (ring_nic.truncate c))"
    by (simp add: unat_mod_distrib m_def mod_eq_0_iff_dvd)
  show "value \<noteq> 0" "c' = c"
    using ok by simp_all
qed

text \<open>
  C25: the design parameters are read as they were written. For every table of entries with types below
  \<open>2 ^ 15\<close> and values of at most eight bytes, laid out over whole registers, the loop that takes the
  registers apart and feeds their bytes ends, and it has processed each entry once and in order with its
  value in full, up to the first one that the driver must refuse, whose error it returns.
\<close>

theorem design_params_applied:
  assumes "entries_ok es" and "bs = concat (map tlv_encode es)" and "4 dvd length bs" and "length bs < 2 ^ 32"
  shows "ef100_check_design_params (table_registers bs) (of_nat (length bs)) c = Some (dp_entries es c)"
proof -
  obtain k where "length bs = 4 * 0 + 4 * k"
    using assms(3) by auto
  then have "ef100_check_design_params (table_registers bs) (of_nat (length bs)) c =
      Some (let (rc, r', c') = dp_bytes bs tlv_start c in (rc, c'))"
    using dp_loop_table [of bs 0 k tlv_start c] assms(4) by (simp add: ef100_check_design_params_def)
  moreover obtain r' where "dp_bytes bs tlv_start c = (let (rc, c') = dp_entries es c in (rc, r', c'))"
    using feed_entries [OF _ assms(1), of tlv_start c] assms(2) by (auto simp: tlv_start_def)
  ultimately show ?thesis
    by (simp split: prod.splits)
qed

definition dp_demo :: dp_nic where
  "dp_demo = \<lparr>supported_bitmap = 0, guaranteed_bitmap = 0, rn_rxq_entries = 1024, rn_txq_entries = 1024,
     dp_GSO_MAX_SIZE = 65536, tso_max_hdr_len = 0, tso_max_payload_num_segs = 0, tso_max_frames = 0,
     tso_max_payload_len = 0, gso_max_size = 0, gso_max_segs = 0\<rparr>"

text \<open>A limit of 192, a granularity of 64, an entry the driver does not know and padding.\<close>

definition dp_demo_entries :: "(u16 \<times> u8 list) list" where
  "dp_demo_entries = [(5, [192]), (7, [64]), (0x90, []), (0, [0])]"

lemma dp_demo_bytes: "concat (map tlv_encode dp_demo_entries) = [5, 1, 192, 7, 1, 64, 0x90, 1, 0, 0, 1, 0]"
  by (simp add: dp_demo_entries_def tlv_encode_def tlv_type_bytes_def)

lemma dp_demo_result: "dp_entries dp_demo_entries dp_demo = (0, dp_demo\<lparr>tso_max_hdr_len := 192\<rparr>)"
  by (simp add: dp_demo_entries_def ef100_process_design_param_def dp_demo_def efx_min_dmaq_size_def ring_nic.defs)

theorem design_params_applied_witness:
  "ef100_check_design_params (table_registers [5, 1, 192, 7, 1, 64, 0x90, 1, 0, 0, 1, 0]) 12 dp_demo =
    Some (0, dp_demo\<lparr>tso_max_hdr_len := 192\<rparr>)"
proof -
  have "entries_ok dp_demo_entries"
    by (simp add: entries_ok_def dp_demo_entries_def)
  moreover have len: "length (concat (map tlv_encode dp_demo_entries)) = 12"
    by (simp add: dp_demo_bytes)
  ultimately show ?thesis
    using design_params_applied [OF _ refl, of dp_demo_entries dp_demo] unfolding len by (simp add: dp_demo_bytes dp_demo_result)
qed

end
