(* ===== verification/Rep.thy ===== *)
theory Rep
  imports Ef100_Rx_Path Ef100_Tx
begin

section \<open>Representors of virtual functions (ef100_rep.c)\<close>

text \<open>
  A packet that the parent receives from a virtual function is copied for the representor of that
  function and put on its list, which the representor's own NAPI poll hands to the kernel. Two
  counters decide whether a packet starts a poll: \<open>write_index\<close> counts packets put on the list,
  \<open>read_index\<close> is its value when a poll last took the list and completed. The parent's poll and the
  representor's run at the same time; each of the two critical sections of \<open>rx_lock\<close>, with the call
  that follows it, is one step. \<open>napi_sched\<close> and \<open>napi_missed\<close> are the two bits of the kernel's NAPI
  state: scheduling while scheduled makes the poll run again. A frame is a list of bytes.
\<close>

datatype rep_poll = Poll_idle | Poll_receive "u8 list list" u32

record efx_vfrep =
  vf_mport :: u32
  rep_rx_list :: "u8 list list"
  rep_write_index :: u32
  rep_read_index :: u32
  napi_sched :: bool
  napi_missed :: bool
  rep_poll_state :: rep_poll
  rep_received :: "u8 list list"
  rep_rx_packets :: u32
  rep_rx_bytes :: u32
  rep_rx_dropped :: u32
  rep_tx_packets :: u32
  rep_tx_bytes :: u32

definition napi_schedule :: "efx_vfrep \<Rightarrow> efx_vfrep" where
  "napi_schedule v = (if napi_sched v then v\<lparr>napi_missed := True\<rparr> else v\<lparr>napi_sched := True\<rparr>)"

definition napi_complete_done :: "efx_vfrep \<Rightarrow> bool \<times> efx_vfrep" where
  "napi_complete_done v =
     (if napi_missed v then (False, v\<lparr>napi_missed := False\<rparr>) else (True, v\<lparr>napi_sched := False\<rparr>))"

subsection \<open>Receiving\<close>

definition rep_frame :: "rx_env \<Rightarrow> nat \<Rightarrow> efx_rx_buffer \<Rightarrow> u8 list" where
  "rep_frame env p b = map (\<lambda>i. env_mem env p (unat (rb_page_offset b) + i)) [0..<unat (rb_len b)]"

text \<open>\<open>ok\<close>: there is memory for the copy.\<close>

definition efx_ef100_vfrep_rx_packet :: "bool \<Rightarrow> u8 list \<Rightarrow> efx_vfrep \<Rightarrow> efx_vfrep" where
  "efx_ef100_vfrep_rx_packet ok frame v =
     (if \<not> ok then v\<lparr>rep_rx_dropped := rep_rx_dropped v + 1\<rparr>
      else
        let v1 = v\<lparr>rep_rx_packets := rep_rx_packets v + 1, rep_rx_bytes := rep_rx_bytes v + of_nat (length frame)\<rparr>;
            primed = (rep_read_index v1 = rep_write_index v1);
            v2 = v1\<lparr>rep_rx_list := rep_rx_list v1 @ [frame], rep_write_index := rep_write_index v1 + 1\<rparr> in
        if primed then napi_schedule v2 else v2)"

text \<open>\<open>efx_ef100_vfrep_poll\<close>: the part under the lock, the rest, and both.\<close>

definition vfrep_poll_grab :: "nat \<Rightarrow> efx_vfrep \<Rightarrow> efx_vfrep" where
  "vfrep_poll_grab weight v =
     v\<lparr>rep_poll_state := Poll_receive (take weight (rep_rx_list v)) (rep_write_index v),
       rep_rx_list := drop weight (rep_rx_list v)\<rparr>"

definition vfrep_poll_finish :: "nat \<Rightarrow> efx_vfrep \<Rightarrow> efx_vfrep" where
  "vfrep_poll_finish weight v =
     (case rep_poll_state v of
        Poll_idle \<Rightarrow> v
      | Poll_receive head read_index \<Rightarrow>
          let v1 = v\<lparr>rep_received := rep_received v @ head, rep_poll_state := Poll_idle\<rparr> in
          if length head < weight
          then let (completed, v2) = napi_complete_done v1 in if completed then v2\<lparr>rep_read_index := read_index\<rparr> else v2
          else v1)"

definition efx_ef100_vfrep_poll :: "nat \<Rightarrow> efx_vfrep \<Rightarrow> nat \<times> efx_vfrep" where
  "efx_ef100_vfrep_poll weight v =
     (min weight (length (rep_rx_list v)), vfrep_poll_finish weight (vfrep_poll_grab weight v))"

text \<open>The search among the representors of the parent, one for each virtual function, which may be missing.\<close>

fun find_vfrep_from :: "nat \<Rightarrow> efx_vfrep option list \<Rightarrow> u16 \<Rightarrow> nat option" where
  "find_vfrep_from i [] mport = None"
| "find_vfrep_from i (r # rs) mport =
     (case r of
        None \<Rightarrow> find_vfrep_from (Suc i) rs mport
      | Some v \<Rightarrow> if vf_mport v = ucast mport then Some i else find_vfrep_from (Suc i) rs mport)"

definition efx_ef100_find_vfrep_by_mport :: "efx_vfrep option list \<Rightarrow> u16 \<Rightarrow> nat option" where
  "efx_ef100_find_vfrep_by_mport reps mport = find_vfrep_from 0 reps mport"

subsection \<open>Sending\<close>

text \<open>A packet for the virtual function goes through the queue of the parent.\<close>

definition efx_ef100_vfrep_xmit ::
    "ef100_env \<Rightarrow> xmit_in \<Rightarrow> sk_buff \<Rightarrow> tx_channel option \<Rightarrow> nat \<Rightarrow> efx_vfrep
     \<Rightarrow> ((tx_channel option \<times> nat) \<times> efx_vfrep) option" where
  "efx_ef100_vfrep_xmit env inp skb channel tx_dropped v =
     map_option (\<lambda>r. (r, v\<lparr>rep_tx_packets := rep_tx_packets v + 1, rep_tx_bytes := rep_tx_bytes v + skb_len skb\<rparr>))
       (ef100_hard_start_xmit env inp (Some (ucast (vf_mport v))) skb channel tx_dropped)"

subsection \<open>The representor found\<close>

lemma find_from_spec:
  "find_vfrep_from i reps mport = Some k \<longleftrightarrow>
     i \<le> k \<and> k - i < length reps \<and> (\<exists>v. reps ! (k - i) = Some v \<and> vf_mport v = ucast mport) \<and>
     (\<forall>j<k - i. \<forall>v. reps ! j = Some v \<longrightarrow> vf_mport v \<noteq> ucast mport)"
proof (induction i reps mport rule: find_vfrep_from.induct)
  case (1 i mport)
  then show ?case
    by simp
next
  case (2 i r rs mport)
  show ?case
  proof (cases "\<exists>v. r = Some v \<and> vf_mport v = ucast mport")
    case True
    then show ?thesis
      by (cases "k = i") (auto simp: nth_Cons' Suc_le_eq)
  next
    case False
    then have skip: "find_vfrep_from i (r # rs) mport = find_vfrep_from (Suc i) rs mport"
      by (auto split: option.splits)
    have IH: "find_vfrep_from (Suc i) rs mport = Some k \<longleftrightarrow>
       Suc i \<le> k \<and> k - Suc i < length rs \<and> (\<exists>v. rs ! (k - Suc i) = Some v \<and> vf_mport v = ucast mport) \<and>
       (\<forall>j<k - Suc i. \<forall>v. rs ! j = Some v \<longrightarrow> vf_mport v \<noteq> ucast mport)"
      using 2 False by (cases r) auto
    show ?thesis
    proof (cases "i < k")
      case True
      then obtain n where k: "k = Suc (i + n)"
        using less_imp_Suc_add by blast
      show ?thesis
        using False unfolding skip IH unfolding k by (cases r) (simp_all add: All_less_Suc2)
    next
      case notless: False
      then show ?thesis
        using False unfolding skip IH by (auto simp: not_less le_less)
    qed
  qed
qed

subsection \<open>Runs\<close>

text \<open>
  \<open>rep_reach w fs q v\<close>: from an idle representor with nothing on its list, packets arrive and polls of
  weight \<open>w\<close> run in any interleaving; \<open>fs\<close> are the frames that were copied, in order, and \<open>q\<close> says
  that no frame was put on the list while a poll was handing over the frames it had taken.
\<close>

definition rep_blank :: "efx_vfrep \<Rightarrow> bool" where
  "rep_blank v \<longleftrightarrow> rep_rx_list v = [] \<and> rep_write_index v = rep_read_index v \<and> \<not> napi_sched v \<and> \<not> napi_missed v \<and>
     rep_poll_state v = Poll_idle \<and> rep_received v = [] \<and> rep_rx_packets v = 0 \<and> rep_rx_bytes v = 0"

inductive rep_reach :: "nat \<Rightarrow> u8 list list \<Rightarrow> bool \<Rightarrow> efx_vfrep \<Rightarrow> bool" for w where
  rep_start: "rep_blank v \<Longrightarrow> rep_reach w [] True v"
| rep_packet: "rep_reach w fs q v \<Longrightarrow>
    rep_reach w (if ok then fs @ [f] else fs) (q \<and> (ok \<longrightarrow> rep_poll_state v = Poll_idle)) (efx_ef100_vfrep_rx_packet ok f v)"
| rep_grab: "rep_reach w fs q v \<Longrightarrow> napi_sched v \<Longrightarrow> rep_poll_state v = Poll_idle \<Longrightarrow> rep_reach w fs q (vfrep_poll_grab w v)"
| rep_finish: "rep_reach w fs q v \<Longrightarrow> rep_poll_state v \<noteq> Poll_idle \<Longrightarrow> rep_reach w fs q (vfrep_poll_finish w v)"

definition in_flight :: "efx_vfrep \<Rightarrow> u8 list list" where
  "in_flight v = (case rep_poll_state v of Poll_idle \<Rightarrow> [] | Poll_receive head r \<Rightarrow> head)"

lemma schedule_frame [simp]:
  "rep_rx_list (napi_schedule v) = rep_rx_list v" "rep_write_index (napi_schedule v) = rep_write_index v"
  "rep_read_index (napi_schedule v) = rep_read_index v" "rep_poll_state (napi_schedule v) = rep_poll_state v"
  "rep_received (napi_schedule v) = rep_received v" "rep_rx_packets (napi_schedule v) = rep_rx_packets v"
  "rep_rx_bytes (napi_schedule v) = rep_rx_bytes v" "napi_sched (napi_schedule v)"
  by (simp_all add: napi_schedule_def)

lemma rx_packet_frame [simp]:
  "rep_rx_list (efx_ef100_vfrep_rx_packet ok f v) = (if ok then rep_rx_list v @ [f] else rep_rx_list v)"
  "rep_write_index (efx_ef100_vfrep_rx_packet ok f v) = (if ok then rep_write_index v + 1 else rep_write_index v)"
  "rep_read_index (efx_ef100_vfrep_rx_packet ok f v) = rep_read_index v"
  "rep_poll_state (efx_ef100_vfrep_rx_packet ok f v) = rep_poll_state v"
  "rep_received (efx_ef100_vfrep_rx_packet ok f v) = rep_received v"
  "rep_rx_packets (efx_ef100_vfrep_rx_packet ok f v) = (if ok then rep_rx_packets v + 1 else rep_rx_packets v)"
  "rep_rx_bytes (efx_ef100_vfrep_rx_packet ok f v) = (if ok then rep_rx_bytes v + of_nat (length f) else rep_rx_bytes v)"
  "napi_sched (efx_ef100_vfrep_rx_packet ok f v) = (napi_sched v \<or> ok \<and> rep_read_index v = rep_write_index v)"
  by (simp_all add: efx_ef100_vfrep_rx_packet_def napi_schedule_def Let_def)

lemma in_flight_simps [simp]:
  "in_flight (efx_ef100_vfrep_rx_packet ok f v) = in_flight v"
  "in_flight (vfrep_poll_grab w v) = take w (rep_rx_list v)"
  by (simp_all add: in_flight_def vfrep_poll_grab_def)

lemma finish_cases:
  assumes "rep_poll_state v = Poll_receive head r"
  obtains (again) "rep_read_index (vfrep_poll_finish w v) = rep_read_index v" "napi_sched (vfrep_poll_finish w v) = napi_sched v"
  | (complete) "rep_read_index (vfrep_poll_finish w v) = r" "\<not> napi_sched (vfrep_poll_finish w v)" "length head < w"
  using assms by (cases "length head < w"; cases "napi_missed v")
    (auto simp: vfrep_poll_finish_def napi_complete_done_def Let_def)

lemma finish_frame:
  assumes "rep_poll_state v = Poll_receive head r"
  shows "rep_rx_list (vfrep_poll_finish w v) = rep_rx_list v" "rep_write_index (vfrep_poll_finish w v) = rep_write_index v"
    "rep_poll_state (vfrep_poll_finish w v) = Poll_idle" "rep_received (vfrep_poll_finish w v) = rep_received v @ head"
    "rep_rx_packets (vfrep_poll_finish w v) = rep_rx_packets v" "rep_rx_bytes (vfrep_poll_finish w v) = rep_rx_bytes v"
    "in_flight (vfrep_poll_finish w v) = []"
  using assms by (auto simp: vfrep_poll_finish_def napi_complete_done_def in_flight_def Let_def)

lemma rep_in_order:
  assumes "rep_reach w fs q v"
  shows "fs = rep_received v @ in_flight v @ rep_rx_list v \<and> length (in_flight v) \<le> w \<and>
    rep_rx_packets v = of_nat (length fs) \<and> rep_rx_bytes v = of_nat (sum_list (map length fs))"
  using assms
proof induction
  case (rep_start v)
  then show ?case
    by (simp add: rep_blank_def in_flight_def)
next
  case (rep_packet fs q v ok f)
  then show ?case
    by (cases ok) simp_all
next
  case (rep_grab fs q v)
  then show ?case
    by (auto simp: vfrep_poll_grab_def in_flight_def)
next
  case (rep_finish fs q v)
  then obtain head r where "rep_poll_state v = Poll_receive head r"
    by (cases "rep_poll_state v") auto
  then show ?case
    using rep_finish(3) by (simp add: finish_frame in_flight_def)
qed

text \<open>In a run without such an arrival a frame on the list is a frame for which a poll is scheduled.\<close>

definition rep_live :: "nat \<Rightarrow> efx_vfrep \<Rightarrow> bool" where
  "rep_live w v \<longleftrightarrow>
     (case rep_poll_state v of
        Poll_idle \<Rightarrow> napi_sched v \<or> rep_rx_list v = [] \<and> rep_read_index v = rep_write_index v
      | Poll_receive head r \<Rightarrow> napi_sched v \<and> r = rep_write_index v \<and> (length head < w \<longrightarrow> rep_rx_list v = []))"

lemma rep_reach_live:
  assumes "rep_reach w fs q v" and "q"
  shows "rep_live w v"
  using assms
proof induction
  case (rep_start v)
  then show ?case
    by (simp add: rep_blank_def rep_live_def)
next
  case (rep_packet fs q v ok f)
  then show ?case
    by (auto simp: rep_live_def split: rep_poll.splits)
next
  case (rep_grab fs q v)
  then show ?case
    by (auto simp: rep_live_def vfrep_poll_grab_def min_def split: if_splits)
next
  case (rep_finish fs q v)
  then obtain head r where p: "rep_poll_state v = Poll_receive head r"
    by (cases "rep_poll_state v") auto
  then have "napi_sched v" "r = rep_write_index v" "length head < w \<longrightarrow> rep_rx_list v = []"
    using rep_finish by (simp_all add: rep_live_def)
  then show ?case
    using finish_frame [OF p, of w] by (cases rule: finish_cases [OF p, of w]) (simp_all add: rep_live_def)
qed

subsection \<open>The lost wake-up\<close>

text \<open>A frame that arrives between the two parts of a poll stays on the list with no poll scheduled, and
  the frames that follow do not schedule one: the counters never meet again until one wraps.\<close>

definition rep_idle :: efx_vfrep where
  "rep_idle =
     \<lparr>vf_mport = 7, rep_rx_list = [], rep_write_index = 0, rep_read_index = 0, napi_sched = False, napi_missed = False,
      rep_poll_state = Poll_idle, rep_received = [], rep_rx_packets = 0, rep_rx_bytes = 0, rep_rx_dropped = 0,
      rep_tx_packets = 0, rep_tx_bytes = 0\<rparr>"

definition rep_stalled :: "u8 list \<Rightarrow> u8 list \<Rightarrow> efx_vfrep" where
  "rep_stalled f g =
     vfrep_poll_finish 64 (efx_ef100_vfrep_rx_packet True g (vfrep_poll_grab 64 (efx_ef100_vfrep_rx_packet True f rep_idle)))"

lemma rep_stalled_reach: "rep_reach 64 [f, g] False (rep_stalled f g)"
proof -
  define v1 where "v1 = efx_ef100_vfrep_rx_packet True f rep_idle"
  define v2 where "v2 = vfrep_poll_grab 64 v1"
  have "rep_reach 64 [] True rep_idle"
    by (rule rep_start) (simp add: rep_blank_def rep_idle_def)
  from rep_packet [OF this, of True f] have "rep_reach 64 [f] True v1"
    by (simp add: v1_def rep_idle_def)
  then have "rep_reach 64 [f] True v2"
    unfolding v2_def by (rule rep_grab) (simp_all add: v1_def rep_idle_def)
  from rep_packet [OF this, of True g] have "rep_reach 64 [f, g] False (efx_ef100_vfrep_rx_packet True g v2)"
    by (simp add: v2_def vfrep_poll_grab_def)
  then show ?thesis
    unfolding rep_stalled_def v1_def [symmetric] v2_def [symmetric]
    by (rule rep_finish) (simp add: v2_def vfrep_poll_grab_def)
qed

lemma rep_stalled_state:
  "rep_rx_list (rep_stalled f g) = [g]" "\<not> napi_sched (rep_stalled f g)"
  "rep_write_index (rep_stalled f g) = rep_read_index (rep_stalled f g) + 1"
  by (simp_all add: rep_stalled_def rep_idle_def vfrep_poll_finish_def vfrep_poll_grab_def napi_complete_done_def
      efx_ef100_vfrep_rx_packet_def napi_schedule_def Let_def)

lemma rep_never_wakes:
  assumes "length gs < 2 ^ 32 - 1"
  shows "\<not> napi_sched (fold (efx_ef100_vfrep_rx_packet True) gs (rep_stalled f g)) \<and>
    rep_rx_list (fold (efx_ef100_vfrep_rx_packet True) gs (rep_stalled f g)) = g # gs"
proof -
  have "\<not> napi_sched (fold (efx_ef100_vfrep_rx_packet True) gs v) \<and>
      rep_rx_list (fold (efx_ef100_vfrep_rx_packet True) gs v) = rep_rx_list v @ gs"
    if "\<not> napi_sched v" "rep_write_index v = rep_read_index v + of_nat (Suc n)" "n + length gs < 2 ^ 32 - 1" for v n
    using that
  proof (induction gs arbitrary: v n)
    case Nil
    then show ?case
      by simp
  next
    case (Cons g gs)
    have "unat (of_nat (Suc n) :: u32) = Suc n"
      unfolding unat_of_nat using Cons.prems(3) by simp
    then have "(of_nat (Suc n) :: u32) \<noteq> 0"
      by (metis Suc_not_Zero unsigned_0)
    then have "rep_read_index v \<noteq> rep_write_index v"
      using Cons.prems(2) by simp
    then show ?case
      using Cons.IH [of "efx_ef100_vfrep_rx_packet True g v" "Suc n"] Cons.prems by (simp add: algebra_simps)
  qed
  from this [of "rep_stalled f g" 0] show ?thesis
    using assms by (simp add: rep_stalled_state)
qed

subsection \<open>The property\<close>

text \<open>C10. However the arrival of packets and the polls of a representor interleave, the frames copied for
  it reach the kernel once each and in the order they arrived: those handed over, those a poll has
  taken and those on the list are together the frames that arrived, which the statistics count. A poll
  hands over the oldest frames, no more than its weight. While no frame arrives between the two parts
  of a poll, frames on the list are frames for which a poll is scheduled.\<close>

theorem rep_frames_delivered:
  assumes "rep_reach w fs q v"
  shows "fs = rep_received v @ in_flight v @ rep_rx_list v \<and> length (in_flight v) \<le> w \<and>
    rep_rx_packets v = of_nat (length fs) \<and> rep_rx_bytes v = of_nat (sum_list (map length fs)) \<and>
    rep_received (snd (efx_ef100_vfrep_poll w v)) = rep_received v @ take w (rep_rx_list v) \<and>
    (q \<and> rep_rx_list v \<noteq> [] \<and> rep_poll_state v = Poll_idle \<longrightarrow> napi_sched v)"
proof -
  have "rep_poll_state (vfrep_poll_grab w v) = Poll_receive (take w (rep_rx_list v)) (rep_write_index v)"
    by (simp add: vfrep_poll_grab_def)
  then have "rep_received (snd (efx_ef100_vfrep_poll w v)) = rep_received v @ take w (rep_rx_list v)"
    by (simp add: efx_ef100_vfrep_poll_def finish_frame vfrep_poll_grab_def)
  moreover have "napi_sched v" if "q" "rep_rx_list v \<noteq> []" "rep_poll_state v = Poll_idle"
    using rep_reach_live [OF assms that(1)] that(2,3) by (simp add: rep_live_def)
  ultimately show ?thesis
    using rep_in_order [OF assms] by blast
qed

lemma rep_frames_delivered_witness:
  "napi_sched (efx_ef100_vfrep_rx_packet True [1, 2] rep_idle) \<and>
   rep_received (snd (efx_ef100_vfrep_poll 64 (efx_ef100_vfrep_rx_packet True [1, 2] rep_idle))) = [[1, 2]]"
proof -
  define v where "v = efx_ef100_vfrep_rx_packet True [1, 2] rep_idle"
  have "rep_reach 64 [] True rep_idle"
    by (rule rep_start) (simp add: rep_blank_def rep_idle_def)
  from rep_packet [OF this, of True "[1, 2]"] have "rep_reach 64 [[1, 2]] True v"
    by (simp add: v_def rep_idle_def)
  from rep_frames_delivered [OF this] show ?thesis
    unfolding v_def [symmetric] by (simp add: v_def rep_idle_def)
qed

end
