(* ===== verification/Spec2Isabelle.thy ===== *)
theory Spec2Isabelle
  imports Mcdi_Findings Farch_Findings Ef100_Tx_Props Rx_Props Rx_Findings Napi_Props Design_Params Rep
begin

text \<open>
  A verification development for the Linux driver of the U25N SmartNIC
  (\<open>src/u25n_driver/drivers/net/ethernet/sfc\<close>, called \<open>sfc/\<close> below), written in C for the kernel.

  \<^bold>\<open>The program.\<close> The driver serves several families of network controllers (Falcon or Siena, EF10,
  EF100; the card is an EF100). A controller is driven in three ways, and each is a part of this
  development: commands to its firmware through a mailbox (the management interface, \<open>mcdi.c\<close>);
  registers and tables that the host writes directly (the filter tables of \<open>farch.c\<close>); and rings of
  descriptors in host memory that driver and controller fill and empty (\<open>tx_common.c\<close>,
  \<open>ef100_tx.c\<close>, \<open>rx_common.c\<close>, \<open>ef100_rx.c\<close>). The parts share the bit field macros of \<open>bitfield.h\<close>, and a channel's poll
  (\<open>ef100_nic.c\<close>, \<open>efx_channels.c\<close>) hands the controller's events to each of them.

  \<^bold>\<open>Foundations.\<close>
  \<^item> \<open>Prelude\<close>: names of the C integer types, rule collections, list and counting lemmas.
  \<^item> \<open>Bitfield\<close>, \<open>Oword\<close>: the macros of \<open>bitfield.h\<close> for 32, 64 and 128 bit values
    (\<open>EFX_POPULATE_DWORD\<close>, \<open>EFX_QWORD_FIELD\<close>, \<open>EFX_POPULATE_OWORD\<close>), with the laws that reading a
    field gives what was put in, whatever the other fields hold.
  \<^item> \<open>Ring\<close>: rings whose indices are the conjunction of a wrapping counter with a mask, as lists.

  \<^bold>\<open>Management interface.\<close>
  \<^item> \<open>Nic\<close>: the operations of \<open>struct efx_nic_type\<close> that \<open>mcdi.c\<close> calls, for the EF100
    (\<open>ef100_mcdi_request\<close>, \<open>ef100_mcdi_get_buf\<close>, ... of \<open>ef100_nic.c\<close>) and the buffer pool of the EF10.
    The mailbox memory and the firmware behind it are inputs.
  \<^item> \<open>Mcdi\<close>, \<open>Mcdi_Rpc\<close>: \<open>struct efx_mcdi_iface\<close> with the commands it points to as a store, and the
    functions of \<open>mcdi.c\<close> that issue, queue, send, poll, complete, cancel and time out commands,
    treat proxy authorisation, reset (\<open>efx_flr\<close> included), death events and the modes (events, polling, fail). A use
    of a freed command, a bad index or a null function pointer ends in an error flag of the state.
  \<^item> \<open>Mcdi_Inv\<close>, \<open>Mcdi_Safe\<close>, \<open>Mcdi_Events\<close>: the invariant (reference counts, list membership,
    sequence numbers, buffers, the doorbell) and its preservation by every function.
  \<^item> \<open>Mcdi_System\<close>: threads that take steps under \<open>iface_lock\<close>, each labelled with the event it serves. The
    step relation has no premises but the code's conditions; \<open>expected\<close> names the events that the code
    handles, and \<open>mcdi_reach\<close> holds the states that runs of such events reach.
  \<^item> \<open>Mcdi_Props\<close>: properties C1 to C9, C11 and C12; C1 says that memory faults come only from events that
    are not expected, C5 that fail mode is left only by \<open>efx_flr\<close>. \<open>Mcdi_Findings\<close>: the runs of events that are not
    expected, which use a freed command, complete a command twice or hang.

  \<^bold>\<open>Filter tables.\<close>
  \<^item> \<open>Farch\<close>: the tables of \<open>farch.c\<close> (hashing, search, insertion, removal, lookup, restore,
    redirection, scatter, set-up), the specifications of \<open>filter.h\<close> and the table memory of the NIC.
  \<^item> \<open>Farch_Inv\<close>, \<open>Farch_State\<close>, \<open>Farch_Ops\<close>, \<open>Farch_More\<close>, \<open>Farch_Ids\<close>: the invariant and the
    refinement of the operations to updates of a map from match keys to filters. What an insertion and a
    removal do to the slots of the tables is the interface of a locale, interpreted on the reachable tables.
  \<^item> \<open>Farch_Props\<close>: properties C14 to C24. \<open>Farch_Findings\<close>: inputs the code does not handle.

  \<^bold>\<open>Transmit path.\<close>
  \<^item> \<open>Tx\<close>: the software ring of \<open>tx_common.c\<close>: \<open>efx_tx_map_data\<close>, \<open>efx_enqueue_unwind\<close>,
    \<open>efx_xmit_done\<close>, \<open>efx_purge_tx_queue\<close>, set-up and tear-down. Calls to the kernel (mapping of
    memory, freeing of packets) are recorded in a trace, and the results of mapping are an argument.
  \<^item> \<open>Tx_Ring\<close>, \<open>Tx_Acct\<close>, \<open>Tx_Map\<close>: the ring as a list, the balance of mappings and packets read from
    the trace, and the bytes that a mapped packet's buffers cover; the length limits of the three
    families are instances of a locale.
  \<^item> \<open>Ef100_Tx\<close>: descriptors, \<open>__ef100_enqueue_skb\<close> with hardware and software segmentation, the
    stop threshold, the doorbell, completion events and the transmit part of the channel's poll.
  \<^item> \<open>Ef100_Tx_Inv\<close>, \<open>Ef100_Tx_Size\<close>, \<open>Ef100_Tx_Sys\<close>, \<open>Ef100_Tx_Desc\<close>, \<open>Ef100_Tx_Facts\<close>: the
    invariant of a channel, the states it reaches, what the descriptors say. \<open>Ef100_Tx_Demo\<close> holds
    concrete inputs, \<open>Ef100_Tx_Props\<close> the properties C26 to C35.

  \<^bold>\<open>Receive path.\<close>
  \<^item> \<open>Rx\<close>, \<open>Ef100_Rx\<close>: the sizes of the buffers (\<open>efx_start_datapath\<close>, \<open>efx_rx_config_page_split\<close>), the
    software ring, the pages with their reference counts, the recycle ring, filling and
    \<open>ef100_rx_write\<close>. \<open>Ef100_Rx_Path\<close>: the prefix of a packet, receive events, \<open>__ef100_rx_packet\<close>,
    \<open>efx_rx_packet_gro\<close>, set-up and tear-down. What the kernel answers, and the bytes that
    the controller writes, are fields of \<open>rx_env\<close>; a use of a freed page, a missing page or an index
    out of range is the result \<open>None\<close>. What became of each packet is recorded in a log.
  \<^item> \<open>Rx_Ledger\<close>, \<open>Rx_Inv\<close>: for each page, how many references the queue, its buffers, the packet held
    back and the kernel have; the posted part of the ring as groups of buffers, one for each page.
  \<^item> \<open>Rx_Fill\<close>, \<open>Rx_Push\<close>, \<open>Rx_Pop\<close>, \<open>Rx_Poll\<close>, \<open>Rx_System\<close>, \<open>Rx_Life\<close>: the invariant through
    posting of pages, delivery, events, the end of a poll and tear-down. \<open>Rx_Sizes\<close>: the sizes as
    functions of the MTU. \<open>Rx_Reach\<close>: the reachable queues, with the kernel's use of the pages.
    \<open>Rx_Facts\<close>: what the invariant says in terms of the code's state; \<open>Rx_Demo\<close> holds concrete inputs.
  \<^item> \<open>Rx_Props\<close>: properties C13 and C36 to C39. \<open>Rx_Findings\<close>: inputs the code does not handle.

  \<^bold>\<open>Event queue, port and the poll.\<close>
  \<^item> \<open>Evq\<close>: the event queue of a channel (\<open>ef100_ev_process\<close> and the functions around it of \<open>ef100_nic.c\<close>,
    \<open>efx_init_eventq\<close> of \<open>efx_channels.c\<close>). The controller's events are a list; pointer and phase of the
    queue are functions of the number of events handled (\<open>evq_inv\<close>), and the loop is a fold over the
    events posted (\<open>ev_loop_run\<close>). The event handlers are an argument.
  \<^item> \<open>Port\<close>: translation of link capabilities and forward error correction, the link state and the
    events that change it (\<open>mcdi_port_common.c\<close>, \<open>efx_link_status_changed\<close>). \<open>Port_Facts\<close>: round trips,
    and that the carrier follows the link.
  \<^item> \<open>Napi\<close>: \<open>efx_process_channel\<close> and \<open>efx_poll\<close> of \<open>efx_channels.c\<close> over the receive queue, the transmit
    queues, the management interface and the port. \<open>Napi_Props\<close>: property C40, that the poll
    equals the runs of the parts on their own events, which rests on the reachable states of each part.

  \<^bold>\<open>Sizes and representors.\<close>
  \<^item> \<open>Ring_Sizes\<close>: the ring sizes that the firmware guarantees and the searches for the nearest one
    (\<open>efx_common.c\<close>), the sizes that the user asks for (\<open>ef100_ethtool.c\<close>) and those of event queues
    (\<open>efx_probe_eventq\<close>), with the proof that a queue that was probed and set up satisfies \<open>evq_inv\<close>.
  \<^item> \<open>Design_Params\<close>: the table of design parameters that \<open>ef100_check_design_params\<close> reads byte by byte
    (\<open>ef100_nic.c\<close>), related to the list of its entries (C25).
  \<^item> \<open>Rep\<close>: the representors of virtual functions (\<open>ef100_rep.c\<close>): frames copied from the parent's ring to
    a list that the representor's own poll hands to the kernel, as a step relation in which the
    parent's poll and the representor's interleave; property C10, and the lost wake-up of that poll.

  \<^bold>\<open>Loops, fuel and widths.\<close> Loops that may not end are \<open>partial_function (option)\<close>, and that they
  return is proved (\<open>mcdi_returns\<close>, \<open>farch_never_stuck\<close>, \<open>tx_always_returns\<close>, \<open>rx_pages_safe\<close>,
  \<open>channel_poll_composed\<close>; the search \<open>ef100_ev_mcdi_pending\<close> may not return, \<open>mcdi_pending_spins\<close>);
  other loops recurse on a measure of the code's own counters. The software segmentation fallback enqueues the segments
  that the kernel makes, and a segment never falls back again, so the model nests it to depth two.
  Counters and lengths have the width of the C types: ring counters are 32 bit words that wrap,
  and ring indices are their conjunction with the pointer mask.

  \<^bold>\<open>Configuration.\<close> A 64-bit little-endian host; the build options of \<open>sfc/Makefile\<close>'s defaults; no
  \<open>EFX_C_MODEL\<close>, no driverlink, XDP or zero-copy client, no LRO and no busy polling on the paths modelled.
  Receive pages are shared between buffers (\<open>EFX_RX_PAGE_SHARE\<close>) and have 4096 bytes. Where a path asks for memory for
  packets, pages, socket buffers or commands, or for DMA mappings, it may be refused. The functions that set up rings
  take the outcome of their allocations as an argument; the reachable states start after a set-up whose allocations
  succeeded: filter tables, rings, and the recycle ring of a receive queue, whose \<open>kcalloc\<close> the code does not test.

  \<^bold>\<open>Not modelled.\<close> The locks of the kernel appear as the atomicity of steps, not as code. The
  parts of the driver that translate between kernel interfaces and single firmware commands
  (ethtool, devlink, ioctl, sensors, statistics, PTP, MTD, vDPA, SR-IOV), the match-action and traffic
  control offload (\<open>mae.c\<close>, \<open>tc.c\<close>), the firmware filter tables (\<open>mcdi_filters.c\<close>), the transmit
  and receive paths of the earlier families (\<open>tx.c\<close>, \<open>tx_tso.c\<close>, \<open>rx.c\<close>) and probing are left for
  later or rest on code outside the repository; generated protocol headers hold constants only.
  The drivers of \<open>u25n_mcdma_driver\<close> run on the card's processor and are separate programs.
\<close>

end
